(* ===== verification/Prelude.thy ===== *)
theory Prelude
  imports Main "HOL-Library.Word" "HOL-Library.List_Lexorder"
begin

text \<open>
  Vocabulary shared by every component of the development: the result type of fallible code,
  the machine-integer operations of the Rust standard library the source uses
  (\<open>checked_add\<close>, \<open>saturating_add\<close>, \<open>saturating_sub\<close>, \<open>div_ceil\<close>), UUIDs, and the generic
  lemmas and collections of facts the components share.

  Unsigned counters are natural numbers with the bounds of their width written out in the
  operations that can reach them; the one value the source manipulates bit by bit
  (\<open>LiveAccess\<close>) is a 64-bit word.
\<close>

section \<open>Collections of facts\<close>

named_theorems unfold_ops \<open>definitions of the modelled operations\<close>
named_theorems frame \<open>fields an operation leaves unchanged\<close>

section \<open>Results\<close>

text \<open>\<open>Inl\<close> is the error of a Rust \<open>Result\<close>, \<open>Inr\<close> its success value.\<close>

type_synonym ('e, 'a) result = "'e + 'a"

definition is_ok :: "('e, 'a) result \<Rightarrow> bool" where
  "is_ok r = (case r of Inl _ \<Rightarrow> False | Inr _ \<Rightarrow> True)"

lemma is_ok_simps [simp]: "is_ok (Inr x)" "\<not> is_ok (Inl e)"
  by (simp_all add: is_ok_def)

lemma is_ok_iff: "is_ok r \<longleftrightarrow> (\<exists>x. r = Inr x)"
  by (cases r) auto

text \<open>The \<open>?\<close> operator, and the source's \<open>ok_or\<close>.\<close>

definition and_then :: "('e, 'a) result \<Rightarrow> ('a \<Rightarrow> ('e, 'b) result) \<Rightarrow> ('e, 'b) result" where
  "and_then r f = (case r of Inl e \<Rightarrow> Inl e | Inr x \<Rightarrow> f x)"

definition ok_or :: "'e \<Rightarrow> 'a option \<Rightarrow> ('e, 'a) result" where
  "ok_or e x = (case x of None \<Rightarrow> Inl e | Some y \<Rightarrow> Inr y)"

lemma and_then_simps [simp]:
  "and_then (Inl e) f = Inl e" "and_then (Inr x) f = f x"
  by (simp_all add: and_then_def)

lemma and_then_Inr: "and_then r f = Inr y \<longleftrightarrow> (\<exists>x. r = Inr x \<and> f x = Inr y)"
  by (cases r) auto

lemma if_Inl_Inr [simp]: "(if b then Inl e else r) = Inr y \<longleftrightarrow> \<not> b \<and> r = Inr y"
  by simp

lemma and_then_unit: "and_then r (\<lambda>_ :: unit. s) = Inr y \<longleftrightarrow> r = Inr () \<and> s = Inr y"
  by (cases r) auto

lemma and_then_cong [fundef_cong]:
  "r = r' \<Longrightarrow> (\<And>x. r' = Inr x \<Longrightarrow> f x = g x) \<Longrightarrow> and_then r f = and_then r' g"
  by (cases r') auto

lemma ok_or_simps [simp]: "ok_or e None = Inl e" "ok_or e (Some y) = Inr y"
  by (simp_all add: ok_or_def)

lemma ok_or_Inr [simp]: "ok_or e x = Inr y \<longleftrightarrow> x = Some y"
  by (cases x) auto

text \<open>\<open>iter().map(f).collect::<Result<Vec<_>>>()\<close>: the first error stops the walk.\<close>

fun collect_results :: "('a \<Rightarrow> ('e, 'b) result) \<Rightarrow> 'a list \<Rightarrow> ('e, 'b list) result" where
  "collect_results f [] = Inr []"
| "collect_results f (x # xs) =
     and_then (f x) (\<lambda>y. and_then (collect_results f xs) (\<lambda>ys. Inr (y # ys)))"

lemma collect_results_Inr:
  "collect_results f xs = Inr ys \<longleftrightarrow> list_all2 (\<lambda>x y. f x = Inr y) xs ys"
proof (induction xs arbitrary: ys)
  case Nil
  then show ?case by auto
next
  case (Cons x xs)
  then show ?case by (auto simp: and_then_Inr list_all2_Cons1)
qed

text \<open>\<open>Option::is_none_or\<close> and \<open>Option::is_some_and\<close>.\<close>

definition is_none_or :: "'a option \<Rightarrow> ('a \<Rightarrow> bool) \<Rightarrow> bool" where
  "is_none_or x p = (case x of None \<Rightarrow> True | Some y \<Rightarrow> p y)"

definition is_some_and :: "'a option \<Rightarrow> ('a \<Rightarrow> bool) \<Rightarrow> bool" where
  "is_some_and x p = (case x of None \<Rightarrow> False | Some y \<Rightarrow> p y)"

lemma is_none_or_simps [simp]: "is_none_or None p" "is_none_or (Some y) p = p y"
  by (simp_all add: is_none_or_def)

lemma is_some_and_simps [simp]: "\<not> is_some_and None p" "is_some_and (Some y) p = p y"
  by (simp_all add: is_some_and_def)

section \<open>Machine integers\<close>

abbreviation u64_max :: nat where "u64_max \<equiv> 18446744073709551615"
abbreviation u32_max :: nat where "u32_max \<equiv> 4294967295"
abbreviation u16_max :: nat where "u16_max \<equiv> 65535"
abbreviation i64_max :: int where "i64_max \<equiv> 9223372036854775807"

text \<open>\<open>usize\<close> is 64 bits wide on the targets the program is built for.\<close>

abbreviation usize_max :: nat where "usize_max \<equiv> u64_max"

definition checked_add_u64 :: "nat \<Rightarrow> nat \<Rightarrow> nat option" where
  "checked_add_u64 a b = (if a + b \<le> u64_max then Some (a + b) else None)"

definition checked_add_i64 :: "int \<Rightarrow> int \<Rightarrow> int option" where
  "checked_add_i64 a b =
     (if - i64_max - 1 \<le> a + b \<and> a + b \<le> i64_max then Some (a + b) else None)"

definition sat_add :: "nat \<Rightarrow> nat \<Rightarrow> nat" where
  "sat_add a b = min (a + b) u64_max"

definition sat_mul :: "nat \<Rightarrow> nat \<Rightarrow> nat" where
  "sat_mul a b = min (a * b) u64_max"

text \<open>Unsigned \<open>saturating_sub\<close> is the truncating subtraction of the naturals.\<close>

abbreviation sat_sub :: "nat \<Rightarrow> nat \<Rightarrow> nat" where "sat_sub a b \<equiv> a - b"

definition div_ceil :: "nat \<Rightarrow> nat \<Rightarrow> nat" where
  "div_ceil a b = a div b + (if a mod b = 0 then 0 else 1)"

lemma checked_add_u64_Some [simp]:
  "checked_add_u64 a b = Some c \<longleftrightarrow> c = a + b \<and> a + b \<le> u64_max"
  by (auto simp: checked_add_u64_def)

lemma sat_add_le [simp]: "sat_add a b \<le> u64_max"
  by (simp add: sat_add_def)

lemma sat_add_ge: "a \<le> u64_max \<Longrightarrow> a \<le> sat_add a b"
  by (simp add: sat_add_def)

lemma sat_add_exact: "a + b \<le> u64_max \<Longrightarrow> sat_add a b = a + b"
  by (simp add: sat_add_def)

lemma sat_add_mono: "a \<le> a' \<Longrightarrow> b \<le> b' \<Longrightarrow> sat_add a b \<le> sat_add a' b'"
  by (simp add: sat_add_def min_def)

lemma sat_add_less_imp: "sat_add a b < u64_max \<Longrightarrow> sat_add a b = a + b"
  by (simp add: sat_add_def min_def split: if_splits)

section \<open>UUIDs\<close>

text \<open>
  A \<open>uuid::Uuid\<close> is a 128-bit value, ordered as its bytes are; the nil UUID is zero. Creating
  one (\<open>Uuid::new_v4\<close>) is an argument of the operation that does so.
\<close>

type_synonym uuid = "128 word"

definition is_nil :: "uuid \<Rightarrow> bool" where
  "is_nil u \<longleftrightarrow> u = 0"

section \<open>Time\<close>

text \<open>
  Instants are integers (the source's \<open>DateTime<Utc>\<close> and millisecond counts); the clock is
  read by the caller, so an operation that calls \<open>Utc::now()\<close> takes the instant as argument.
\<close>

type_synonym instant = int

section \<open>Generic list lemmas\<close>

lemma list_all2_same_length: "list_all2 P xs ys \<Longrightarrow> length xs = length ys"
  by (rule list_all2_lengthD)

lemma set_remdups_adj_sort [simp]: "set (remdups_adj (sort xs)) = set xs"
  by simp

lemma sorted_remdups_adj_distinct: "sorted xs \<Longrightarrow> distinct (remdups_adj xs)"
proof (induction xs rule: remdups_adj.induct)
  case (3 x y xs)
  then show ?case by (cases "x = y") auto
qed auto

lemma map_filter_member: "z \<in> set (List.map_filter f ys) \<longleftrightarrow> (\<exists>y \<in> set ys. f y = Some z)"
  by (induction ys) (auto simp: List.map_filter_def)

lemma ex_concat_map_filter:
  "(\<exists>r \<in> set (concat (map (\<lambda>x. List.map_filter (f x) b) a)). P r) \<longleftrightarrow>
   (\<exists>x \<in> set a. \<exists>y \<in> set b. \<exists>z. f x y = Some z \<and> P z)"
  by (simp add: bex_simps) (use map_filter_member in \<open>metis (no_types, lifting)\<close>)

lemma filter_length_le_iff: "filter P xs = xs \<longleftrightarrow> (\<forall>x \<in> set xs. P x)"
  by (simp add: filter_id_conv)

lemma last_butlast_split: "xs \<noteq> [] \<Longrightarrow> butlast xs @ [last xs] = xs"
  by simp

section \<open>Simulation\<close>

text \<open>A detailed system whose steps are steps of an abstract one, as long as an invariant of its own holds.\<close>

locale simulation =
  fixes detailed :: "'s \<Rightarrow> 's \<Rightarrow> bool"
    and wf :: "'s \<Rightarrow> bool"
    and view :: "'s \<Rightarrow> 'a"
    and abstract :: "'a \<Rightarrow> 'a \<Rightarrow> bool"
  assumes keeps: "wf s \<Longrightarrow> detailed s t \<Longrightarrow> wf t"
    and simulates: "wf s \<Longrightarrow> detailed s t \<Longrightarrow> abstract (view s) (view t)"
begin

lemma run_wf: "detailed\<^sup>*\<^sup>* s t \<Longrightarrow> wf s \<Longrightarrow> wf t"
  by (induction rule: rtranclp_induct) (auto intro: keeps)

lemma run_simulates: "detailed\<^sup>*\<^sup>* s t \<Longrightarrow> wf s \<Longrightarrow> abstract\<^sup>*\<^sup>* (view s) (view t)"
  by (induction rule: rtranclp_induct) (auto intro: rtranclp.rtrancl_into_rtrancl simulates run_wf)

text \<open>A preorder that holds of every abstract step holds between the views of a sequence.\<close>

lemma run_preserves:
  assumes "detailed\<^sup>*\<^sup>* s t" "wf s" "\<And>a. r a a" "\<And>a b c. r a b \<Longrightarrow> r b c \<Longrightarrow> r a c" "\<And>a b. abstract a b \<Longrightarrow> r a b"
  shows "r (view s) (view t)"
  using run_simulates [OF assms(1,2)] by (induction rule: rtranclp_induct) (auto intro: assms(3-5))

lemma run_invariant:
  assumes "detailed\<^sup>*\<^sup>* s t" "wf s" "good (view s)" "\<And>a b. abstract a b \<Longrightarrow> good a \<Longrightarrow> good b"
  shows "good (view t)"
  using run_simulates [OF assms(1,2)] assms(3) by (induction rule: rtranclp_induct) (auto intro: assms(4))

end

end
