(* ===== verification/Access.thy ===== *)
theory Access
  imports Prelude
begin

unbundle bit_operations_syntax

text \<open>
  Access modes. \<open>config.rs\<close> declares the mode; three places of the source restrict one mode by
  another (\<open>policy/live.rs\<close>, \<open>subagent/mod.rs\<close>, \<open>policy_profile.rs\<close>), each with code of its own.
  The interface \<open>access_meet\<close> is their common contract, interpreted on each of them.

  \<open>LiveAccess\<close> packs a mode and a change counter into one atomic \<open>u64\<close>: the low two bits are the
  mode, the others the counter. The model keeps the 64-bit word and its bit operations.
\<close>

section \<open>Modes\<close>

datatype access_mode = ReadOnly | Approval | Unrestricted

datatype unattended_approval_mode = Deny | Allow

lemma unattended_not_deny [simp]: "u \<noteq> Deny \<longleftrightarrow> u = Allow"
  by (cases u) auto

text \<open>\<open>Config::access_mode\<close> translates the older approval setting.\<close>

datatype approval_mode = Never | Always | OnRisk

definition config_access_mode :: "access_mode option \<Rightarrow> approval_mode \<Rightarrow> access_mode" where
  "config_access_mode access approval =
     (case access of
        Some m \<Rightarrow> m
      | None \<Rightarrow> (case approval of
          Never \<Rightarrow> Unrestricted
        | Always \<Rightarrow> Approval
        | OnRisk \<Rightarrow> Approval))"

fun live_rank :: "access_mode \<Rightarrow> 64 word" where
  "live_rank ReadOnly = 0"
| "live_rank Approval = 1"
| "live_rank Unrestricted = 2"

fun profile_rank :: "access_mode \<Rightarrow> nat" where
  "profile_rank ReadOnly = 0"
| "profile_rank Approval = 1"
| "profile_rank Unrestricted = 2"

instantiation access_mode :: linorder
begin

definition less_eq_access_mode :: "access_mode \<Rightarrow> access_mode \<Rightarrow> bool" where
  "less_eq_access_mode a b \<longleftrightarrow> profile_rank a \<le> profile_rank b"

definition less_access_mode :: "access_mode \<Rightarrow> access_mode \<Rightarrow> bool" where
  "less_access_mode a b \<longleftrightarrow> profile_rank a < profile_rank b"

instance
proof
  fix x y :: access_mode
  show "x \<le> y \<Longrightarrow> y \<le> x \<Longrightarrow> x = y"
    by (cases x; cases y) (simp_all add: less_eq_access_mode_def)
qed (auto simp: less_eq_access_mode_def less_access_mode_def)

end

lemma access_mode_le_simps [simp]:
  "ReadOnly \<le> m" "m \<le> Unrestricted"
  "m \<le> ReadOnly \<longleftrightarrow> m = ReadOnly" "Unrestricted \<le> m \<longleftrightarrow> m = Unrestricted"
  "Approval \<le> m \<longleftrightarrow> m \<noteq> ReadOnly"
  by (cases m; simp add: less_eq_access_mode_def)+

section \<open>Restricting one mode by another\<close>

definition live_restrict :: "access_mode \<Rightarrow> access_mode \<Rightarrow> access_mode" where
  "live_restrict a b = (if live_rank a < live_rank b then a else b)"

fun restrict_access :: "access_mode \<Rightarrow> access_mode \<Rightarrow> access_mode" where
  "restrict_access ReadOnly _ = ReadOnly"
| "restrict_access _ ReadOnly = ReadOnly"
| "restrict_access Approval _ = Approval"
| "restrict_access _ Approval = Approval"
| "restrict_access Unrestricted Unrestricted = Unrestricted"

text \<open>\<open>ceiling_rules\<close> lowers the mode in place.\<close>

definition ceiling_access :: "access_mode \<Rightarrow> access_mode \<Rightarrow> access_mode" where
  "ceiling_access r c = (if profile_rank c < profile_rank r then c else r)"

definition restrictive_unattended ::
  "unattended_approval_mode \<Rightarrow> unattended_approval_mode \<Rightarrow> unattended_approval_mode" where
  "restrictive_unattended own parent = (if parent = Deny then Deny else own)"

locale access_meet =
  fixes meet :: "access_mode \<Rightarrow> access_mode \<Rightarrow> access_mode"
  assumes meet_le1: "meet a b \<le> a"
    and meet_le2: "meet a b \<le> b"
    and meet_greatest: "c \<le> a \<Longrightarrow> c \<le> b \<Longrightarrow> c \<le> meet a b"
begin

lemma meet_eq_min: "meet a b = min a b"
  by (rule order.antisym) (auto simp: meet_le1 meet_le2 intro: meet_greatest)

lemma meet_commute: "meet a b = meet b a"
  by (simp add: meet_eq_min min.commute)

lemma meet_assoc: "meet (meet a b) c = meet a (meet b c)"
  by (simp add: meet_eq_min min.assoc)

lemma meet_absorb: "meet a b = b \<longleftrightarrow> b \<le> a"
  by (auto simp: meet_eq_min min_def)

lemma meet_read_only: "meet ReadOnly b = ReadOnly" "meet b ReadOnly = ReadOnly"
  by (simp_all add: meet_eq_min min_def)

end

interpretation live: access_meet live_restrict
proof unfold_locales
  fix a b c :: access_mode
  show "live_restrict a b \<le> a" "live_restrict a b \<le> b"
    by (cases a; cases b; simp add: live_restrict_def)+
  show "c \<le> a \<Longrightarrow> c \<le> b \<Longrightarrow> c \<le> live_restrict a b"
    by (simp add: live_restrict_def)
qed

interpretation delegated: access_meet restrict_access
proof unfold_locales
  fix a b c :: access_mode
  show "restrict_access a b \<le> a" "restrict_access a b \<le> b"
    by (cases a; cases b; simp)+
  show "c \<le> a \<Longrightarrow> c \<le> b \<Longrightarrow> c \<le> restrict_access a b"
    by (cases a; cases b) simp_all
qed

interpretation ceiling: access_meet ceiling_access
proof unfold_locales
  fix a b c :: access_mode
  show "ceiling_access a b \<le> a" "ceiling_access a b \<le> b"
    by (cases a; cases b; simp add: ceiling_access_def)+
  show "c \<le> a \<Longrightarrow> c \<le> b \<Longrightarrow> c \<le> ceiling_access a b"
    by (simp add: ceiling_access_def)
qed

text \<open>
  C11. The three implementations of restricting one access mode by another (the live ceiling, the
  delegation to a subagent, the system ceiling of a profile) compute the same mode, the smaller
  of the two.
\<close>

theorem access_restrictions_agree:
  "live_restrict a b = min a b \<and> restrict_access a b = min a b \<and> ceiling_access a b = min a b"
  by (simp add: live.meet_eq_min delegated.meet_eq_min ceiling.meet_eq_min)

section \<open>The live access word\<close>

definition live_new :: "access_mode \<Rightarrow> 64 word" where
  "live_new mode = live_rank mode"

definition live_mode :: "64 word \<Rightarrow> access_mode" where
  "live_mode v = (let m = v AND 3 in
     if m = 0 then ReadOnly else if m = 1 then Approval else Unrestricted)"

definition live_update :: "64 word \<Rightarrow> access_mode \<Rightarrow> 64 word" where
  "live_update previous mode = ((previous + 4) AND NOT 3) OR live_rank mode"

text \<open>The change counter: everything above the low two bits.\<close>

definition live_epoch :: "64 word \<Rightarrow> nat" where
  "live_epoch v = unat v div 4"

lemma low_bits_clear: "(x AND - 4) AND 3 = (0 :: 64 word)"
  by (simp add: and.assoc)

lemma live_update_low: "live_update v m AND 3 = live_rank m"
proof -
  have "live_rank m AND 3 = live_rank m"
    by (cases m) simp_all
  then show ?thesis
    by (simp add: live_update_def bit.conj_disj_distrib2 low_bits_clear)
qed

lemma live_mode_new [simp]: "live_mode (live_new m) = m"
  by (cases m) (simp_all add: live_mode_def live_new_def)

lemma live_mode_update [simp]: "live_mode (live_update v m) = m"
  by (cases m) (simp_all add: live_mode_def live_update_low)

lemma live_epoch_drop_bit: "live_epoch v = unat (drop_bit 2 v)"
  by (simp only: live_epoch_def unat_drop_bit_eq) (simp add: drop_bit_eq_div)

lemma drop_bit_update: "drop_bit 2 (live_update v m) = drop_bit 2 (v + 4)"
proof -
  have "drop_bit 2 (live_rank m) = 0"
    by (cases m) simp_all
  moreover have "drop_bit 2 (x AND NOT 3) = drop_bit 2 x" for x :: "64 word"
  proof (rule bit_eqI)
    fix n
    assume "possible_bit TYPE(64 word) n"
    have "\<not> bit (3 :: 64 word) (n + 2)"
      by (simp add: bit_numeral_rec)
    then show "bit (drop_bit 2 (x AND NOT 3)) n = bit (drop_bit 2 x) n"
      by (auto simp: bit_simps add.commute dest: bit_imp_le_length)
  qed
  ultimately show ?thesis
    by (simp add: live_update_def drop_bit_or)
qed

lemma live_epoch_less: "live_epoch v < 2 ^ 62"
proof -
  have "unat v < 2 ^ LENGTH(64)" by (rule unsigned_less)
  then show ?thesis by (simp add: live_epoch_def)
qed

lemma live_epoch_update:
  "live_epoch (live_update v m) = (live_epoch v + 1) mod 2 ^ 62"
proof -
  have "unat v < 2 ^ LENGTH(64)" by (rule unsigned_less)
  then have bound: "unat v < 2 ^ 64" by simp
  have "live_epoch (live_update v m) = unat (v + 4) div 4"
    by (simp add: live_epoch_drop_bit drop_bit_update) (simp add: live_epoch_drop_bit [symmetric] live_epoch_def)
  also have "unat (v + 4) = (unat v + 4) mod 2 ^ 64"
    by (simp add: unat_word_ariths)
  also have "(unat v + 4) mod 2 ^ 64 div 4 = (unat v div 4 + 1) mod 2 ^ 62"
  proof (cases "unat v + 4 < 2 ^ 64")
    case True
    then show ?thesis by simp
  next
    case False
    then have "(unat v + 4) mod 2 ^ 64 = unat v + 4 - 2 ^ 64"
      using bound by (simp add: mod_if)
    moreover have "unat v div 4 = 2 ^ 62 - 1"
      using False bound by simp
    ultimately show ?thesis using bound by simp
  qed
  finally show ?thesis by (simp add: live_epoch_def)
qed

lemma live_epoch_run:
  "live_epoch (foldl live_update v ms) = (live_epoch v + length ms) mod 2 ^ 62"
proof (induction ms arbitrary: v)
  case Nil
  show ?case using live_epoch_less [of v] by simp
next
  case (Cons m ms)
  then show ?case
    by (simp only: foldl_Cons live_epoch_update list.size mod_add_left_eq) (simp add: ac_simps)
qed

text \<open>
  C12. A published access change is visible at once and fences every admission made before it: the
  mode read back is the one stored, and fewer than \<open>2^62\<close> further changes, in any modes, never
  bring back a value that was captured earlier.
\<close>

theorem live_update_fences:
  assumes "ms \<noteq> []" and "length ms < 2 ^ 62"
  shows "live_mode (foldl live_update v ms) = last ms \<and> foldl live_update v ms \<noteq> v"
proof
  show "live_mode (foldl live_update v ms) = last ms"
    using assms(1) by (induction ms arbitrary: v rule: rev_induct) auto
  show "foldl live_update v ms \<noteq> v"
  proof
    assume "foldl live_update v ms = v"
    then have "(live_epoch v + length ms) mod 2 ^ 62 = live_epoch v"
      using live_epoch_run [of v ms] by simp
    moreover have "live_epoch v < 2 ^ 62"
      by (rule live_epoch_less)
    ultimately have "length ms mod 2 ^ 62 = 0"
      by (metis add_diff_cancel_left' mod_eq_dvd_iff_nat mod_eq_0_iff_dvd le_add1 mod_less)
    then show False using assms by simp
  qed
qed

theorem live_update_fences_witness:
  "live_mode (foldl live_update (live_new Unrestricted) [ReadOnly, Unrestricted]) = Unrestricted \<and>
   foldl live_update (live_new Unrestricted) [ReadOnly, Unrestricted] \<noteq> live_new Unrestricted"
  using live_update_fences [of "[ReadOnly, Unrestricted]" "live_new Unrestricted"] by simp

end
