(* ===== verification/Rust_Str.thy ===== *)
theory Rust_Str
  imports Prelude
begin

text \<open>
  Rust strings. A \<open>str\<close> is a sequence of Unicode scalar values stored as UTF-8: the model is the
  list of scalar values (natural numbers), and the operations that count bytes
  (\<open>len\<close>, \<open>is_char_boundary\<close>, slicing) compute them from the width each character has in UTF-8.
  The character classes are those of the Rust standard library: \<open>White_Space\<close> for
  \<open>char::is_whitespace\<close>, general category Cc for \<open>char::is_control\<close>.
\<close>

type_synonym rchar = nat
type_synonym rstring = "rchar list"

text \<open>A literal of the source, written with the ASCII characters of HOL.\<close>

definition lit :: "string \<Rightarrow> rstring" where
  "lit s = map of_char s"

definition len_utf8 :: "rchar \<Rightarrow> nat" where
  "len_utf8 c = (if c < 128 then 1 else if c < 2048 then 2 else if c < 65536 then 3 else 4)"

definition str_len :: "rstring \<Rightarrow> nat" where
  "str_len s = sum_list (map len_utf8 s)"

definition is_control :: "rchar \<Rightarrow> bool" where
  "is_control c \<longleftrightarrow> c < 32 \<or> 127 \<le> c \<and> c < 160"

definition is_whitespace :: "rchar \<Rightarrow> bool" where
  "is_whitespace c \<longleftrightarrow> 9 \<le> c \<and> c \<le> 13 \<or> c = 32 \<or> c = 133 \<or> c = 160 \<or> c = 5760 \<or>
     8192 \<le> c \<and> c \<le> 8202 \<or> c = 8232 \<or> c = 8233 \<or> c = 8239 \<or> c = 8287 \<or> c = 12288"

definition is_ascii_digit :: "rchar \<Rightarrow> bool" where
  "is_ascii_digit c \<longleftrightarrow> 48 \<le> c \<and> c \<le> 57"

definition is_ascii_lower :: "rchar \<Rightarrow> bool" where
  "is_ascii_lower c \<longleftrightarrow> 97 \<le> c \<and> c \<le> 122"

definition is_ascii_upper :: "rchar \<Rightarrow> bool" where
  "is_ascii_upper c \<longleftrightarrow> 65 \<le> c \<and> c \<le> 90"

definition is_ascii_alphabetic :: "rchar \<Rightarrow> bool" where
  "is_ascii_alphabetic c \<longleftrightarrow> is_ascii_lower c \<or> is_ascii_upper c"

definition is_ascii_alphanumeric :: "rchar \<Rightarrow> bool" where
  "is_ascii_alphanumeric c \<longleftrightarrow> is_ascii_alphabetic c \<or> is_ascii_digit c"

definition is_ascii_hexdigit :: "rchar \<Rightarrow> bool" where
  "is_ascii_hexdigit c \<longleftrightarrow> is_ascii_digit c \<or> 97 \<le> c \<and> c \<le> 102 \<or> 65 \<le> c \<and> c \<le> 70"

definition to_ascii_lowercase :: "rstring \<Rightarrow> rstring" where
  "to_ascii_lowercase = map (\<lambda>c. if is_ascii_upper c then c + 32 else c)"

definition trim_start :: "rstring \<Rightarrow> rstring" where
  "trim_start s = dropWhile is_whitespace s"

definition trim :: "rstring \<Rightarrow> rstring" where
  "trim s = rev (dropWhile is_whitespace (rev (trim_start s)))"

definition blank :: "rstring \<Rightarrow> bool" where
  "blank s \<longleftrightarrow> trim s = []"

definition has_control :: "rstring \<Rightarrow> bool" where
  "has_control s \<longleftrightarrow> list_ex is_control s"

fun starts_with :: "rstring \<Rightarrow> rstring \<Rightarrow> bool" where
  "starts_with _ [] = True"
| "starts_with [] (_ # _) = False"
| "starts_with (c # s) (p # ps) = (c = p \<and> starts_with s ps)"

fun contains_str :: "rstring \<Rightarrow> rstring \<Rightarrow> bool" where
  "contains_str [] p = (p = [])"
| "contains_str (c # s) p = (starts_with (c # s) p \<or> contains_str s p)"

text \<open>\<open>str::lines\<close>: split at line feeds, drop one trailing carriage return of a line that a line
  feed ends, and no empty last line.\<close>

definition strip_cr :: "rstring \<Rightarrow> rstring" where
  "strip_cr s = (if s \<noteq> [] \<and> last s = 13 then butlast s else s)"

fun lines_from :: "rstring \<Rightarrow> rstring \<Rightarrow> rstring list" where
  "lines_from acc [] = (if acc = [] then [] else [rev acc])"
| "lines_from acc (c # s) =
     (if c = 10 then strip_cr (rev acc) # lines_from [] s else lines_from (c # acc) s)"

definition str_lines :: "rstring \<Rightarrow> rstring list" where
  "str_lines s = lines_from [] s"

fun join :: "rstring \<Rightarrow> rstring list \<Rightarrow> rstring" where
  "join _ [] = []"
| "join _ [s] = s"
| "join sep (s # t # ss) = s @ sep @ join sep (t # ss)"

text \<open>Decimal formatting of an unsigned integer (\<open>{}\<close> in \<open>format!\<close>).\<close>

fun decimal :: "nat \<Rightarrow> rstring" where
  "decimal n = (if n < 10 then [48 + n] else decimal (n div 10) @ [48 + n mod 10])"

declare decimal.simps [simp del]

text \<open>
  Byte offsets. \<open>split_at n s\<close> is the pair of slices \<open>s[..n]\<close> and \<open>s[n..]\<close>, and \<open>None\<close> where the
  source's slice panics: \<open>n\<close> is past the end or inside a character.
\<close>

fun split_at :: "nat \<Rightarrow> rstring \<Rightarrow> (rstring \<times> rstring) option" where
  "split_at n [] = (if n = 0 then Some ([], []) else None)"
| "split_at n (c # s) =
     (if n = 0 then Some ([], c # s)
      else if n < len_utf8 c then None
      else map_option (\<lambda>(a, b). (c # a, b)) (split_at (n - len_utf8 c) s))"

definition is_char_boundary :: "rstring \<Rightarrow> nat \<Rightarrow> bool" where
  "is_char_boundary s n \<longleftrightarrow> split_at n s \<noteq> None"

text \<open>\<open>while !s.is_char_boundary(n) { n -= 1; }\<close>\<close>

fun floor_boundary :: "rstring \<Rightarrow> nat \<Rightarrow> nat" where
  "floor_boundary s 0 = 0"
| "floor_boundary s (Suc n) = (if is_char_boundary s (Suc n) then Suc n else floor_boundary s n)"

text \<open>The slice \<open>s[a..b]\<close>, \<open>None\<close> where it panics.\<close>

definition str_slice :: "rstring \<Rightarrow> nat \<Rightarrow> nat \<Rightarrow> rstring option" where
  "str_slice s a b =
     (case split_at b s of None \<Rightarrow> None
      | Some (t, _) \<Rightarrow> (case split_at a t of None \<Rightarrow> None | Some (_, u) \<Rightarrow> Some u))"

section \<open>Facts\<close>

lemma len_utf8_pos [simp]: "0 < len_utf8 c"
  by (simp add: len_utf8_def)

lemma len_utf8_le [simp]: "len_utf8 c \<le> 4"
  by (simp add: len_utf8_def)

lemma str_len_simps [simp]:
  "str_len [] = 0" "str_len (c # s) = len_utf8 c + str_len s"
  "str_len (s @ t) = str_len s + str_len t"
  by (simp_all add: str_len_def)

lemma str_len_0 [simp]: "str_len s = 0 \<longleftrightarrow> s = []"
  by (cases s) (use len_utf8_pos in \<open>auto simp del: len_utf8_pos\<close>)

lemma length_le_str_len: "length s \<le> str_len s"
proof (induction s)
  case (Cons c s)
  have "0 < len_utf8 c" by simp
  with Cons show ?case unfolding str_len_simps list.size by linarith
qed simp

lemma split_at_Some:
  "split_at n s = Some (a, b) \<longleftrightarrow> s = a @ b \<and> str_len a = n"
proof (induction s arbitrary: n a)
  case Nil
  then show ?case by auto
next
  case (Cons c s)
  show ?case
  proof (cases a)
    case Nil
    then show ?thesis by (auto simp: Cons.IH)
  next
    case (Cons d a')
    have "0 < len_utf8 c" by simp
    then show ?thesis
      using Cons by (auto simp: Cons.IH)
  qed
qed

lemma split_at_str_len [simp]: "split_at (str_len a) (a @ b) = Some (a, b)"
  by (simp add: split_at_Some)

lemma split_at_0 [simp]: "split_at 0 s = Some ([], s)"
  by (simp add: split_at_Some)

lemma is_char_boundary_iff:
  "is_char_boundary s n \<longleftrightarrow> (\<exists>a b. s = a @ b \<and> str_len a = n)"
  by (auto simp: is_char_boundary_def split_at_Some)

lemma is_char_boundary_0 [simp]: "is_char_boundary s 0"
  by (simp add: is_char_boundary_def)

lemma is_char_boundary_len [simp]: "is_char_boundary s (str_len s)"
  by (auto simp: is_char_boundary_iff intro: exI [of _ s])

lemma is_char_boundary_le: "is_char_boundary s n \<Longrightarrow> n \<le> str_len s"
  by (auto simp: is_char_boundary_iff)

lemma set_trim: "set (trim s) \<subseteq> set s"
  by (auto simp: trim_def trim_start_def dest!: set_dropWhileD)

lemma all_dropWhile: "(\<forall>c \<in> set (dropWhile P s). P c) \<longleftrightarrow> (\<forall>c \<in> set s. P c)"
  by (induction s) auto

lemma blank_iff: "blank s \<longleftrightarrow> (\<forall>c \<in> set s. is_whitespace c)"
  by (simp add: blank_def trim_def trim_start_def all_dropWhile)

lemma starts_with_iff: "starts_with s p \<longleftrightarrow> (\<exists>t. s = p @ t)"
  by (induction s p rule: starts_with.induct) auto

lemma contains_str_iff: "contains_str s p \<longleftrightarrow> (\<exists>a b. s = a @ p @ b)"
proof (induction s p rule: contains_str.induct)
  case (1 p)
  then show ?case by auto
next
  case (2 c s p)
  have "(\<exists>a b. c # s = a @ p @ b) \<longleftrightarrow> (\<exists>b. c # s = p @ b) \<or> (\<exists>a b. s = a @ p @ b)"
    by (auto simp: Cons_eq_append_conv)
  then show ?case by (simp add: starts_with_iff 2)
qed

lemma decimal_nonempty [simp]: "decimal n \<noteq> []"
  by (subst decimal.simps) simp

lemma floor_boundary_le: "floor_boundary s n \<le> n"
  by (induction s n rule: floor_boundary.induct) auto

lemma floor_boundary_len [simp]: "floor_boundary s (str_len s) = str_len s"
proof (cases "str_len s")
  case (Suc n)
  have "is_char_boundary s (str_len s)"
    by simp
  then show ?thesis
    using Suc by simp
qed simp

lemma is_char_boundary_floor: "is_char_boundary s (floor_boundary s n)"
  by (induction s n rule: floor_boundary.induct) auto

lemma floor_boundary_split:
  obtains a b where "s = a @ b" "str_len a = floor_boundary s n" "str_len a \<le> n"
  using is_char_boundary_floor [of s n] floor_boundary_le [of s n] by (auto simp: is_char_boundary_iff)

lemma str_slice_Some: "str_slice s a b = Some u \<longleftrightarrow> (\<exists>t v. s = t @ u @ v \<and> str_len t = a \<and> str_len (t @ u) = b)"
proof
  assume "str_slice s a b = Some u"
  then obtain x y z where "split_at b s = Some (x, y)" "split_at a x = Some (z, u)"
    by (auto simp: str_slice_def split: option.splits)
  then show "\<exists>t v. s = t @ u @ v \<and> str_len t = a \<and> str_len (t @ u) = b"
    by (auto simp: split_at_Some)
next
  assume "\<exists>t v. s = t @ u @ v \<and> str_len t = a \<and> str_len (t @ u) = b"
  then obtain t v where tv: "s = t @ u @ v" "str_len t = a" "str_len (t @ u) = b"
    by blast
  have "split_at b s = Some (t @ u, v)" "split_at a (t @ u) = Some (t, u)"
    using tv by (simp_all add: split_at_Some)
  then show "str_slice s a b = Some u"
    by (simp add: str_slice_def)
qed

lemma append_str_len:
  assumes "a @ x = p @ y" "str_len p \<le> str_len a"
  obtains u where "a = p @ u" "y = u @ x"
proof -
  consider u where "a = p @ u" "u @ x = y" | u where "p = a @ u" "x = u @ y"
    using assms(1) by (auto simp: append_eq_append_conv2)
  then show thesis
  proof cases
    case 2
    then have "u = []"
      using assms(2) by (cases u) (auto simp: len_utf8_def split: if_splits)
    then show ?thesis
      using 2 that by simp
  qed (use that in auto)
qed

lemma str_len_ascii: "list_all (\<lambda>c. c < 128) s \<Longrightarrow> str_len s = length s"
  by (induction s) (simp_all add: len_utf8_def)

lemma str_slice_ascii:
  assumes "list_all (\<lambda>c. c < 128) (a @ b @ c)" "i = length a" "j = i + length b"
  shows "str_slice (a @ b @ c) i j = Some b"
  unfolding str_slice_Some using assms str_len_ascii by (intro exI [of _ a] exI [of _ c]) auto

lemma str_slice_take:
  assumes "list_all (\<lambda>c. c < 128) s" "i \<le> j" "j \<le> length s"
  shows "str_slice s i j = Some (take (j - i) (drop i s))"
proof -
  have "s = take i s @ take (j - i) (drop i s) @ drop j s"
    using assms(2) by (metis append_take_drop_id drop_drop le_add_diff_inverse2)
  then show ?thesis
    using str_slice_ascii [of "take i s" "take (j - i) (drop i s)" "drop j s" i j] assms by simp
qed

end
