(* ===== verification/Paths.thy ===== *)
theory Paths
  imports Rust_Str "HOL-Library.Sublist"
begin

text \<open>
  \<open>std::path\<close> on Unix, as the policy code uses it. A path is the sequence that
  \<open>Path::components\<close> yields; equality, order and \<open>starts_with\<close> of \<open>Path\<close> work on that sequence.
  The file system (\<open>canonicalize\<close>, \<open>is_dir\<close>, \<open>metadata\<close>, \<open>exists\<close>) is a record of functions that
  the operations take as an argument.

  The interface \<open>root_algebra\<close> is what the clients of root lists rely on: a path is covered by a
  list of roots when one of them is a prefix of it.
\<close>

section \<open>Components and paths\<close>

datatype component = RootDir | CurDir | ParentDir | Normal rstring

type_synonym path = "component list"

fun component_rank :: "component \<Rightarrow> nat \<times> rstring" where
  "component_rank RootDir = (0, [])"
| "component_rank CurDir = (1, [])"
| "component_rank ParentDir = (2, [])"
| "component_rank (Normal s) = (3, s)"

instantiation component :: linorder
begin

definition less_eq_component :: "component \<Rightarrow> component \<Rightarrow> bool" where
  "less_eq_component a b \<longleftrightarrow> fst (component_rank a) < fst (component_rank b) \<or>
     fst (component_rank a) = fst (component_rank b) \<and> snd (component_rank a) \<le> snd (component_rank b)"

definition less_component :: "component \<Rightarrow> component \<Rightarrow> bool" where
  "less_component a b \<longleftrightarrow> a \<le> b \<and> \<not> b \<le> (a :: component)"

instance
proof
  fix x y z :: component
  show "x < y \<longleftrightarrow> x \<le> y \<and> \<not> y \<le> x" by (simp add: less_component_def)
  show "x \<le> x" by (simp add: less_eq_component_def)
  show "x \<le> y \<Longrightarrow> y \<le> z \<Longrightarrow> x \<le> z" by (auto simp: less_eq_component_def)
  show "x \<le> y \<Longrightarrow> y \<le> x \<Longrightarrow> x = y"
    by (cases x; cases y) (auto simp: less_eq_component_def)
  show "x \<le> y \<or> y \<le> x" by (auto simp: less_eq_component_def)
qed

end

definition is_absolute :: "path \<Rightarrow> bool" where
  "is_absolute p = (case p of RootDir # _ \<Rightarrow> True | _ \<Rightarrow> False)"

text \<open>\<open>Path::starts_with\<close>: whole components.\<close>

definition path_starts_with :: "path \<Rightarrow> path \<Rightarrow> bool" where
  "path_starts_with p root = prefix root p"

text \<open>\<open>PathBuf::push\<close> and \<open>join\<close>: an absolute argument replaces the path.\<close>

definition path_push :: "path \<Rightarrow> path \<Rightarrow> path" where
  "path_push p q = (if is_absolute q then q else p @ q)"

text \<open>\<open>PathBuf::pop\<close>: does nothing when there is no parent.\<close>

definition path_pop :: "path \<Rightarrow> path" where
  "path_pop p = (if p = [] \<or> last p = RootDir then p else butlast p)"

definition file_name :: "path \<Rightarrow> rstring option" where
  "file_name p = (if p = [] then None else case last p of Normal s \<Rightarrow> Some s | _ \<Rightarrow> None)"

record filesystem =
  fs_canonicalize :: "path \<Rightarrow> path option"
  fs_is_dir :: "path \<Rightarrow> bool"
  fs_metadata :: "path \<Rightarrow> (nat \<times> nat) option"
  fs_exists :: "path \<Rightarrow> bool"

section \<open>Covering\<close>

definition within_any :: "path \<Rightarrow> path list \<Rightarrow> bool" where
  "within_any p roots = list_ex (path_starts_with p) roots"

lemma within_any_iff: "within_any p roots \<longleftrightarrow> (\<exists>r \<in> set roots. prefix r p)"
  by (auto simp: within_any_def list_ex_iff path_starts_with_def)

lemma within_any_append [simp]:
  "within_any p (a @ b) \<longleftrightarrow> within_any p a \<or> within_any p b"
  by (auto simp: within_any_iff)

lemma within_any_prefix_mono:
  "within_any p roots \<Longrightarrow> prefix p q \<Longrightarrow> within_any q roots"
  by (auto simp: within_any_iff intro: prefix_order.trans)

lemma within_any_self: "p \<in> set roots \<Longrightarrow> within_any p roots"
  by (auto simp: within_any_iff)

text \<open>The roots that grant at most what other roots grant.\<close>

definition roots_le :: "path list \<Rightarrow> path list \<Rightarrow> bool" where
  "roots_le a b \<longleftrightarrow> (\<forall>p. within_any p a \<longrightarrow> within_any p b)"

lemma roots_le_iff: "roots_le a b \<longleftrightarrow> (\<forall>r \<in> set a. within_any r b)"
  by (auto simp: roots_le_def within_any_iff) (use prefix_order.trans in blast)

lemma roots_le_refl [simp]: "roots_le a a"
  by (simp add: roots_le_def)

lemma roots_le_trans [trans]: "roots_le a b \<Longrightarrow> roots_le b c \<Longrightarrow> roots_le a c"
  by (simp add: roots_le_def)

section \<open>The interface of root lists\<close>

text \<open>
  What the policy resolver relies on: normalisation keeps the covered paths, intersection covers
  exactly the paths both lists cover.
\<close>

locale root_algebra =
  fixes norm :: "'r list \<Rightarrow> 'r list"
    and meet :: "'r list \<Rightarrow> 'r list \<Rightarrow> 'r list"
    and covers :: "'r list \<Rightarrow> 'r \<Rightarrow> bool"
  assumes covers_append: "covers (a @ b) p \<longleftrightarrow> covers a p \<or> covers b p"
    and covers_norm: "covers (norm a) p \<longleftrightarrow> covers a p"
    and covers_meet: "covers (meet a b) p \<longleftrightarrow> covers a p \<and> covers b p"
begin

definition le :: "'r list \<Rightarrow> 'r list \<Rightarrow> bool" where
  "le a b \<longleftrightarrow> (\<forall>p. covers a p \<longrightarrow> covers b p)"

lemma le_refl: "le a a"
  by (simp add: le_def)

lemma le_trans: "le a b \<Longrightarrow> le b c \<Longrightarrow> le a c"
  by (simp add: le_def)

lemma meet_le1: "le (meet a b) a" and meet_le2: "le (meet a b) b"
  by (simp_all add: le_def covers_meet)

lemma meet_greatest: "le c a \<Longrightarrow> le c b \<Longrightarrow> le c (meet a b)"
  by (simp add: le_def covers_meet)

lemma norm_append_le: "le a (norm (a @ b))"
  by (simp add: le_def covers_norm covers_append)

lemma meet_norm_le: "le (meet (norm (a @ b)) c) c"
  by (rule meet_le2)

end

end
