(* ===== verification/Ordered_Map.thy ===== *)
theory Ordered_Map
  imports Prelude
begin

text \<open>
  \<open>std::collections::BTreeMap\<close>: the entries in ascending key order. \<open>bm_get\<close> is \<open>get\<close>, \<open>bm_insert\<close>
  is \<open>insert\<close>, \<open>bm_remove\<close> is \<open>remove\<close>, \<open>bm_update\<close> changes the value of a present key in place
  (\<open>get_mut\<close>), \<open>bm_values\<close> and \<open>bm_keys\<close> iterate in key order. The interface \<open>map_store\<close> states what
  the clients rely on (what a lookup returns after each change); this file interprets it.
\<close>

type_synonym ('k, 'v) bmap = "('k \<times> 'v) list"

definition bm_get :: "('k, 'v) bmap \<Rightarrow> 'k \<Rightarrow> 'v option" where
  "bm_get m k = map_of m k"

definition bm_contains :: "('k, 'v) bmap \<Rightarrow> 'k \<Rightarrow> bool" where
  "bm_contains m k \<longleftrightarrow> map_of m k \<noteq> None"

fun bm_insert :: "'k::linorder \<Rightarrow> 'v \<Rightarrow> ('k, 'v) bmap \<Rightarrow> ('k, 'v) bmap" where
  "bm_insert k v [] = [(k, v)]"
| "bm_insert k v ((k', v') # m) =
     (if k < k' then (k, v) # (k', v') # m
      else if k = k' then (k, v) # m
      else (k', v') # bm_insert k v m)"

fun bm_remove :: "'k \<Rightarrow> ('k, 'v) bmap \<Rightarrow> ('k, 'v) bmap" where
  "bm_remove k [] = []"
| "bm_remove k ((k', v') # m) = (if k = k' then bm_remove k m else (k', v') # bm_remove k m)"

fun bm_update :: "'k \<Rightarrow> ('v \<Rightarrow> 'v) \<Rightarrow> ('k, 'v) bmap \<Rightarrow> ('k, 'v) bmap" where
  "bm_update k f [] = []"
| "bm_update k f ((k', v') # m) =
     (if k = k' then (k', f v') # m else (k', v') # bm_update k f m)"

definition bm_keys :: "('k, 'v) bmap \<Rightarrow> 'k list" where
  "bm_keys m = map fst m"

definition bm_values :: "('k, 'v) bmap \<Rightarrow> 'v list" where
  "bm_values m = map snd m"

definition bm_sorted :: "('k::linorder, 'v) bmap \<Rightarrow> bool" where
  "bm_sorted m \<longleftrightarrow> sorted_wrt (<) (map fst m)"

lemma bm_get_insert [simp]:
  "bm_sorted m \<Longrightarrow> bm_get (bm_insert k v m) j = (if j = k then Some v else bm_get m j)"
  by (induction k v m rule: bm_insert.induct) (auto simp: bm_get_def bm_sorted_def)

lemma bm_get_Nil [simp]: "bm_get [] k = None" "bm_contains [] k = False"
  by (simp_all add: bm_get_def bm_contains_def)

lemma bm_get_insert_same: "bm_get (bm_insert k v m) k = Some v"
  by (induction k v m rule: bm_insert.induct) (auto simp: bm_get_def)

lemma bm_get_remove [simp]:
  "bm_get (bm_remove k m) j = (if j = k then None else bm_get m j)"
  by (induction k m rule: bm_remove.induct) (auto simp: bm_get_def)

lemma bm_get_update [simp]:
  "bm_get (bm_update k f m) j = (if j = k then map_option f (bm_get m j) else bm_get m j)"
  by (induction k f m rule: bm_update.induct) (auto simp: bm_get_def)

lemma bm_update_update [simp]: "bm_update k f (bm_update k g m) = bm_update k (\<lambda>v. f (g v)) m"
  by (induction k g m rule: bm_update.induct) auto

lemma bm_keys_update [simp]: "map fst (bm_update k f m) = map fst m"
  by (induction k f m rule: bm_update.induct) auto

lemma set_keys_insert: "fst ` set (bm_insert k v m) = insert k (fst ` set m)"
  by (induction k v m rule: bm_insert.induct) auto

lemma set_keys_remove: "fst ` set (bm_remove k m) = fst ` set m - {k}"
  by (induction k m rule: bm_remove.induct) auto

lemma bm_sorted_simps [simp]:
  "bm_sorted []"
  "bm_sorted ((k, v) # m) \<longleftrightarrow> (\<forall>j \<in> fst ` set m. k < j) \<and> bm_sorted m"
  by (auto simp: bm_sorted_def)

lemma bm_sorted_insert [intro]: "bm_sorted m \<Longrightarrow> bm_sorted (bm_insert k v m)"
  by (induction k v m rule: bm_insert.induct) (auto simp: set_keys_insert)

lemma bm_sorted_remove [intro]: "bm_sorted m \<Longrightarrow> bm_sorted (bm_remove k m)"
  by (induction k m rule: bm_remove.induct) (auto simp: set_keys_remove)

lemma bm_sorted_update [simp]: "bm_sorted (bm_update k f m) = bm_sorted m"
  by (simp add: bm_sorted_def)

lemma bm_contains_iff: "bm_contains m k \<longleftrightarrow> k \<in> set (bm_keys m)"
  by (simp add: bm_contains_def bm_keys_def map_of_eq_None_iff)

lemma bm_contains_get: "bm_contains m k \<longleftrightarrow> (\<exists>v. bm_get m k = Some v)"
  by (auto simp: bm_contains_def bm_get_def)

lemma bm_sorted_distinct: "bm_sorted m \<Longrightarrow> distinct (map fst m)"
  by (auto simp: bm_sorted_def strict_sorted_iff)

lemma bm_get_iff: "bm_sorted m \<Longrightarrow> bm_get m k = Some v \<longleftrightarrow> (k, v) \<in> set m"
  by (simp add: bm_get_def bm_sorted_distinct)

lemma bm_get_SomeD: "bm_get m k = Some v \<Longrightarrow> (k, v) \<in> set m"
  by (simp add: bm_get_def map_of_SomeD)

lemma bm_values_get: "bm_sorted m \<Longrightarrow> v \<in> set (bm_values m) \<longleftrightarrow> (\<exists>k. bm_get m k = Some v)"
  by (force simp: bm_get_iff bm_values_def image_iff)

text \<open>The contract of a map with a well-formedness invariant.\<close>

locale map_store =
  fixes get :: "'m \<Rightarrow> 'k \<Rightarrow> 'v option"
    and put :: "'k \<Rightarrow> 'v \<Rightarrow> 'm \<Rightarrow> 'm"
    and del :: "'k \<Rightarrow> 'm \<Rightarrow> 'm"
    and wf :: "'m \<Rightarrow> bool"
  assumes get_put: "wf m \<Longrightarrow> get (put k v m) j = (if j = k then Some v else get m j)"
    and get_del: "wf m \<Longrightarrow> get (del k m) j = (if j = k then None else get m j)"
    and wf_put: "wf m \<Longrightarrow> wf (put k v m)"
    and wf_del: "wf m \<Longrightarrow> wf (del k m)"
begin

lemma get_put_same: "wf m \<Longrightarrow> get (put k v m) k = Some v"
  by (simp add: get_put)

lemma get_put_other: "wf m \<Longrightarrow> j \<noteq> k \<Longrightarrow> get (put k v m) j = get m j"
  by (simp add: get_put)

lemma get_put_del: "wf m \<Longrightarrow> get (put k v (del k m)) j = get (put k v m) j"
  by (simp add: get_put get_del wf_del)

lemma put_all_present:
  assumes "wf m" and "\<And>j w. get m j = Some w \<Longrightarrow> P j w" and "P k v"
  shows "get (put k v m) j = Some w \<Longrightarrow> P j w"
  using assms by (auto simp: get_put split: if_splits)

end

interpretation btree: map_store bm_get bm_insert bm_remove bm_sorted
  by unfold_locales auto

end
