(* ===== verification/Policy_Profile.thy ===== *)
theory Policy_Profile
  imports Access Paths Ordered_Map
begin

text \<open>
  \<open>voyage/src/policy_profile.rs\<close>: policy documents, layers, the administrator ceiling and the
  resolution of an effective policy from a base, a list of layers and a ceiling.

  Parameters: the file system (\<open>filesystem\<close>) and the SHA-256 digests of serialised values
  (\<open>hashes\<close>, \<open>None\<close> where serialisation fails). Serialised rule fields are kept as structured
  values (\<open>jvalue\<close>), one constructor per JSON shape the code compares.
\<close>

section \<open>Documents\<close>

datatype policy_error =
  Err_Invalid | Err_Root | Err_Ceiling | Err_WorkspaceDenied | Err_Transition |
  Err_UnsupportedPlatform

abbreviation max_document :: nat where "max_document \<equiv> 65536"
abbreviation max_items :: nat where "max_items \<equiv> 128"
abbreviation max_layers :: nat where "max_layers \<equiv> 16"

record rules =
  r_access :: access_mode
  r_unattended :: unattended_approval_mode
  r_read_roots :: "rstring list"
  r_write_roots :: "rstring list"
  r_legacy_deny_commands :: "rstring list"
  r_inherit_env :: "rstring list"
  r_github_enabled :: bool

record profile_document =
  pd_schema :: nat
  pd_name :: rstring
  pd_revision :: nat
  pd_rules :: rules

record ceiling_document =
  cd_schema :: nat
  cd_rules :: rules

datatype builtin = Restricted | Balanced | Autonomous

definition builtin_document :: "builtin \<Rightarrow> profile_document" where
  "builtin_document b =
     (let (name, access) = (case b of
            Restricted \<Rightarrow> (lit ''restricted'', ReadOnly)
          | Balanced \<Rightarrow> (lit ''balanced'', Approval)
          | Autonomous \<Rightarrow> (lit ''autonomous'', Unrestricted))
      in \<lparr>pd_schema = 1, pd_name = name, pd_revision = 1,
          pd_rules = \<lparr>r_access = access, r_unattended = Deny,
            r_read_roots = [lit ''$workspace''], r_write_roots = [lit ''$workspace''],
            r_legacy_deny_commands = [],
            r_inherit_env = [lit ''PATH'', lit ''LANG'', lit ''LC_ALL'', lit ''TERM''],
            r_github_enabled = False\<rparr>\<rparr>)"

definition label :: "rstring \<Rightarrow> bool" where
  "label s \<longleftrightarrow> s \<noteq> [] \<and> str_len s \<le> 128 \<and>
     list_all (\<lambda>c. is_ascii_alphanumeric c \<or> c \<in> {95, 45, 46}) s \<and>
     s \<noteq> lit ''.'' \<and> s \<noteq> lit ''..''"

definition env_name :: "rstring \<Rightarrow> bool" where
  "env_name s \<longleftrightarrow> s \<noteq> [] \<and> str_len s \<le> 128 \<and>
     list_all (\<lambda>(i, c). c = 95 \<or> is_ascii_alphabetic c \<or> 0 < i \<and> is_ascii_digit c)
       (List.enumerate 0 s)"

text \<open>\<open>Path::new\<close>: the components of a path written as a string. Repeated and trailing separators
  vanish, and so does a \<open>.\<close> that is not the first segment of a relative path.\<close>

fun split_slash :: "rstring \<Rightarrow> rstring \<Rightarrow> rstring list" where
  "split_slash acc [] = [rev acc]"
| "split_slash acc (c # s) =
     (if c = 47 then rev acc # split_slash [] s else split_slash (c # acc) s)"

definition segment :: "rstring \<Rightarrow> component" where
  "segment s = (if s = lit ''..'' then ParentDir else Normal s)"

definition path_new :: "rstring \<Rightarrow> path" where
  "path_new s =
     (let segs = filter (\<lambda>x. x \<noteq> []) (split_slash [] s);
          body = map segment (filter (\<lambda>x. x \<noteq> lit ''.'') segs)
      in if s \<noteq> [] \<and> hd s = 47 then RootDir # body
         else if segs \<noteq> [] \<and> hd segs = lit ''.'' then CurDir # body
         else body)"

definition absolute :: "path \<Rightarrow> bool" where
  "absolute p \<longleftrightarrow> is_absolute p \<and>
     list_all (\<lambda>c. case c of RootDir \<Rightarrow> True | Normal _ \<Rightarrow> True | _ \<Rightarrow> False) p"

definition root_invalid :: "rstring \<Rightarrow> bool" where
  "root_invalid s \<longleftrightarrow> s = [] \<or> 4096 < str_len s \<or> has_control s \<or>
     (s \<noteq> lit ''$workspace'' \<and> \<not> absolute (path_new s))"

definition rules_validate :: "rules \<Rightarrow> (policy_error, unit) result" where
  "rules_validate r =
     (if list_ex (\<lambda>l. max_items < length l) [r_read_roots r, r_write_roots r, r_inherit_env r]
      then Inl Err_Invalid
      else if list_ex root_invalid (r_read_roots r @ r_write_roots r) \<or>
              list_ex (\<lambda>s. \<not> env_name s) (r_inherit_env r)
      then Inl Err_Invalid
      else Inr ())"

definition profile_validate :: "profile_document \<Rightarrow> (policy_error, unit) result" where
  "profile_validate d =
     (if pd_schema d \<noteq> 1 \<or> \<not> label (pd_name d) \<or> pd_revision d = 0 \<or>
         nat i64_max < pd_revision d
      then Inl Err_Invalid
      else rules_validate (pd_rules d))"

text \<open>The JSON codec of a document: bytes it writes, \<open>None\<close> on a failure, and the parser.\<close>

record 'a codec =
  to_vec :: "'a \<Rightarrow> nat list option"
  from_slice :: "nat list \<Rightarrow> 'a option"

definition profile_decode ::
  "profile_document codec \<Rightarrow> nat list \<Rightarrow> (policy_error, profile_document) result" where
  "profile_decode cd bytes =
     (if max_document < length bytes then Inl Err_Invalid
      else and_then (ok_or Err_Invalid (from_slice cd bytes)) (\<lambda>value.
           and_then (profile_validate value) (\<lambda>_. Inr value)))"

definition encode_bounded :: "'a codec \<Rightarrow> 'a \<Rightarrow> (policy_error, nat list) result" where
  "encode_bounded cd value =
     and_then (ok_or Err_Invalid (to_vec cd value)) (\<lambda>bytes.
       if max_document < length bytes then Inl Err_Invalid else Inr bytes)"

definition profile_encode ::
  "profile_document codec \<Rightarrow> profile_document \<Rightarrow> (policy_error, nat list) result" where
  "profile_encode cd d = and_then (profile_validate d) (\<lambda>_. encode_bounded cd d)"

definition ceiling_decode ::
  "(nat list \<Rightarrow> ceiling_document option) \<Rightarrow> nat list \<Rightarrow> (policy_error, ceiling_document) result" where
  "ceiling_decode parse bytes =
     (if max_document < length bytes then Inl Err_Ceiling
      else and_then (ok_or Err_Ceiling (parse bytes)) (\<lambda>value.
        if cd_schema value \<noteq> 1 then Inl Err_Ceiling
        else (case rules_validate (cd_rules value) of
                Inl _ \<Rightarrow> Inl Err_Ceiling
              | Inr _ \<Rightarrow> Inr value)))"

section \<open>Layers\<close>

record overrides =
  o_access :: "access_mode option"
  o_unattended :: "unattended_approval_mode option"
  o_read_roots :: "rstring list option"
  o_write_roots :: "rstring list option"
  o_legacy_deny_commands :: "rstring list option"
  o_inherit_env :: "rstring list option"
  o_github_enabled :: "bool option"

definition has_active_fields :: "overrides \<Rightarrow> bool" where
  "has_active_fields v \<longleftrightarrow> o_access v \<noteq> None \<or> o_unattended v \<noteq> None \<or> o_read_roots v \<noteq> None \<or>
     o_write_roots v \<noteq> None \<or> o_inherit_env v \<noteq> None \<or> o_github_enabled v \<noteq> None"

datatype layer_kind = Global | Project | Session | Explicit

fun layer_kind_index :: "layer_kind \<Rightarrow> nat" where
  "layer_kind_index Global = 0"
| "layer_kind_index Project = 1"
| "layer_kind_index Session = 2"
| "layer_kind_index Explicit = 3"

instantiation layer_kind :: linorder
begin

definition less_eq_layer_kind :: "layer_kind \<Rightarrow> layer_kind \<Rightarrow> bool" where
  "less_eq_layer_kind a b \<longleftrightarrow> layer_kind_index a \<le> layer_kind_index b"

definition less_layer_kind :: "layer_kind \<Rightarrow> layer_kind \<Rightarrow> bool" where
  "less_layer_kind a b \<longleftrightarrow> layer_kind_index a < layer_kind_index b"

instance
proof
  fix x y :: layer_kind
  show "x \<le> y \<Longrightarrow> y \<le> x \<Longrightarrow> x = y"
    by (cases x; cases y) (simp_all add: less_eq_layer_kind_def)
qed (auto simp: less_eq_layer_kind_def less_layer_kind_def)

end

record layer =
  l_kind :: layer_kind
  l_identity :: rstring
  l_profile_revision :: "nat option"
  l_profile_digest :: "rstring option"
  l_overrides :: overrides

definition layer_apply :: "layer \<Rightarrow> rules \<Rightarrow> rules" where
  "layer_apply l r =
     (let ov = l_overrides l in
      r\<lparr>r_access := case_option (r_access r) id (o_access ov),
        r_unattended := case_option (r_unattended r) id (o_unattended ov),
        r_read_roots := case_option (r_read_roots r) id (o_read_roots ov),
        r_write_roots := case_option (r_write_roots r) id (o_write_roots ov),
        r_inherit_env := case_option (r_inherit_env r) id (o_inherit_env ov),
        r_github_enabled := case_option (r_github_enabled r) id (o_github_enabled ov)\<rparr>)"

definition layer_new :: "layer_kind \<Rightarrow> rstring \<Rightarrow> overrides \<Rightarrow> (policy_error, layer) result" where
  "layer_new kind identity ov =
     (if \<not> label identity then Inl Err_Invalid
      else let l = \<lparr>l_kind = kind, l_identity = identity, l_profile_revision = None,
                    l_profile_digest = None, l_overrides = ov\<rparr>;
               r = layer_apply l (pd_rules (builtin_document Balanced))
           in and_then (rules_validate r) (\<lambda>_. Inr l))"

definition layer_from_profile ::
  "(profile_document \<Rightarrow> rstring option) \<Rightarrow> layer_kind \<Rightarrow> profile_document \<Rightarrow>
   (policy_error, layer) result" where
  "layer_from_profile hash_profile kind profile =
     and_then (profile_validate profile) (\<lambda>_.
       let r = pd_rules profile in
       and_then (layer_new kind (pd_name profile)
           \<lparr>o_access = Some (r_access r), o_unattended = Some (r_unattended r),
             o_read_roots = Some (r_read_roots r), o_write_roots = Some (r_write_roots r),
             o_legacy_deny_commands = None, o_inherit_env = Some (r_inherit_env r),
             o_github_enabled = Some (r_github_enabled r)\<rparr>) (\<lambda>value.
         and_then (ok_or Err_Invalid (hash_profile profile)) (\<lambda>digest.
           Inr (value\<lparr>l_profile_revision := Some (pd_revision profile),
                      l_profile_digest := Some digest\<rparr>))))"

end
