(* ===== verification/Policy_Resolution.thy ===== *)
theory Policy_Resolution
  imports Policy_Profile
begin

text \<open>
  The second half of \<open>voyage/src/policy_profile.rs\<close>: effective rules, root normalisation and
  intersection, the administrator ceiling, the pure resolver, the resolution from loaded inputs
  and the transition between two effective policies. The authority of an effective policy is
  compared by \<open>rules_le\<close>.
\<close>

section \<open>Effective rules\<close>

record effective_rules =
  e_access :: access_mode
  e_unattended :: unattended_approval_mode
  e_read_roots :: "path list"
  e_write_roots :: "path list"
  e_inherit_env :: "rstring list"
  e_github_enabled :: bool

datatype jvalue =
  JAccess access_mode | JUnattended unattended_approval_mode | JRoots "path list" |
  JNames "rstring list" | JBool bool

record contribution =
  co_source :: rstring
  co_value :: jvalue

type_synonym provenance = "(rstring, contribution list) bmap"

record workspace_identity =
  w_path :: path
  w_device :: nat
  w_inode :: nat

record effective_policy =
  ep_workspace :: workspace_identity
  ep_rules :: effective_rules
  ep_provenance :: provenance
  ep_ceiling_digest :: "rstring option"
  ep_environment_ceiling :: "rstring list option"
  ep_digest :: rstring

record hashes =
  hash_layer :: "layer \<Rightarrow> rstring option"
  hash_ceiling :: "ceiling_document \<Rightarrow> rstring option"
  hash_policy :: "workspace_identity \<times> effective_rules \<times> provenance \<times> rstring option \<Rightarrow> rstring option"
  hash_transition :: "rstring \<times> rstring \<times> workspace_identity \<times> bool \<Rightarrow> rstring option"

definition directory :: "filesystem \<Rightarrow> path \<Rightarrow> (policy_error, path) result" where
  "directory fs p =
     and_then (ok_or Err_Root (fs_canonicalize fs p)) (\<lambda>q.
       if \<not> fs_is_dir fs q then Inl Err_Root else Inr q)"

definition verify_workspace ::
  "filesystem \<Rightarrow> workspace_identity \<Rightarrow> (policy_error, unit) result" where
  "verify_workspace fs w =
     and_then (directory fs (w_path w)) (\<lambda>p.
     and_then (ok_or Err_Root (fs_metadata fs p)) (\<lambda>(dev, ino).
       if p \<noteq> w_path w \<or> dev \<noteq> w_device w \<or> ino \<noteq> w_inode w
       then Inl Err_Transition else Inr ()))"

definition normalize_roots :: "path list \<Rightarrow> path list" where
  "normalize_roots roots =
     (let snapshot = remdups_adj (sort roots)
      in filter (\<lambda>root. \<not> list_ex (\<lambda>parent. parent \<noteq> root \<and> path_starts_with root parent) snapshot)
           snapshot)"

definition intersect :: "path list \<Rightarrow> path list \<Rightarrow> path list" where
  "intersect a b = normalize_roots
     (concat (map (\<lambda>x. List.map_filter (\<lambda>y.
        if path_starts_with x y then Some x
        else if path_starts_with y x then Some y
        else None) b) a))"

definition sorted_names :: "rstring list \<Rightarrow> rstring list" where
  "sorted_names v = remdups_adj (sort v)"

definition prepare_roots ::
  "filesystem \<Rightarrow> rules \<Rightarrow> path \<Rightarrow> bool \<Rightarrow> (policy_error, effective_rules) result" where
  "prepare_roots fs r workspace allow_exact_file =
     (let resolve = (\<lambda>p.
            let q = (if p = lit ''$workspace'' then workspace else path_new p) in
            if allow_exact_file then ok_or Err_Root (fs_canonicalize fs q) else directory fs q);
          roots = (\<lambda>values. and_then (collect_results resolve values) (\<lambda>ps.
            Inr (normalize_roots ps)))
      in and_then (roots (r_read_roots r)) (\<lambda>reads.
         and_then (roots (r_write_roots r)) (\<lambda>writes.
           Inr \<lparr>e_access = r_access r, e_unattended = r_unattended r,
                e_read_roots = reads, e_write_roots = writes,
                e_inherit_env = sorted_names (r_inherit_env r),
                e_github_enabled = r_github_enabled r\<rparr>)))"

definition prepare :: "filesystem \<Rightarrow> rules \<Rightarrow> path \<Rightarrow> (policy_error, effective_rules) result" where
  "prepare fs r workspace =
     and_then (rules_validate r) (\<lambda>_. prepare_roots fs r workspace False)"

definition prepare_trusted_config ::
  "filesystem \<Rightarrow> rules \<Rightarrow> path \<Rightarrow> (policy_error, effective_rules) result" where
  "prepare_trusted_config fs r workspace = prepare_roots fs r workspace True"

definition ceiling_rules ::
  "effective_rules \<Rightarrow> effective_rules \<Rightarrow> path \<Rightarrow> (policy_error, effective_rules) result" where
  "ceiling_rules r c workspace =
     (if \<not> list_ex (path_starts_with workspace) (e_read_roots c) \<or>
         \<not> list_ex (path_starts_with workspace) (e_write_roots c)
      then Inl Err_WorkspaceDenied
      else Inr (r\<lparr>e_read_roots := intersect (e_read_roots r) (e_read_roots c),
                  e_write_roots := intersect (e_write_roots r) (e_write_roots c),
                  e_inherit_env := filter (\<lambda>n. List.member (e_inherit_env c) n) (e_inherit_env r),
                  e_github_enabled := (e_github_enabled r \<and> e_github_enabled c),
                  e_access := ceiling_access (e_access r) (e_access c),
                  e_unattended := (if e_unattended c = Deny then Deny else e_unattended r)\<rparr>))"

section \<open>Provenance\<close>

text \<open>The JSON object of the rules, in key order; a disabled \<open>github_enabled\<close> is not serialised.\<close>

definition rules_object :: "effective_rules \<Rightarrow> (rstring, jvalue) bmap" where
  "rules_object r =
     [(lit ''access'', JAccess (e_access r))] @
     (if e_github_enabled r then [(lit ''github_enabled'', JBool True)] else []) @
     [(lit ''inherit_env'', JNames (e_inherit_env r)),
      (lit ''read_roots'', JRoots (e_read_roots r)),
      (lit ''unattended'', JUnattended (e_unattended r)),
      (lit ''write_roots'', JRoots (e_write_roots r))]"

definition prov_push :: "provenance \<Rightarrow> rstring \<Rightarrow> contribution \<Rightarrow> provenance" where
  "prov_push prov key c =
     bm_insert key (case_option [] id (bm_get prov key) @ [c]) prov"

definition record_fields ::
  "provenance \<Rightarrow> rstring \<Rightarrow> effective_rules option \<Rightarrow> effective_rules \<Rightarrow> provenance" where
  "record_fields prov source before r =
     foldl (\<lambda>pv (key, value).
        if (case before of None \<Rightarrow> None | Some b \<Rightarrow> bm_get (rules_object b) key) \<noteq> Some value
        then prov_push pv key \<lparr>co_source = source, co_value = value\<rparr>
        else pv) prov (rules_object r)"

definition override_fields :: "overrides \<Rightarrow> rstring list" where
  "override_fields v =
     (if o_access v \<noteq> None then [lit ''access''] else []) @
     (if o_github_enabled v \<noteq> None then [lit ''github_enabled''] else []) @
     (if o_inherit_env v \<noteq> None then [lit ''inherit_env''] else []) @
     (if o_read_roots v \<noteq> None then [lit ''read_roots''] else []) @
     (if o_unattended v \<noteq> None then [lit ''unattended''] else []) @
     (if o_write_roots v \<noteq> None then [lit ''write_roots''] else [])"

text \<open>The contributions of one layer: every field it sets, even to the value it had before.\<close>

fun layer_contributions ::
  "provenance \<Rightarrow> rstring \<Rightarrow> effective_rules \<Rightarrow> rstring list \<Rightarrow>
   (policy_error, provenance) result" where
  "layer_contributions prov source next [] = Inr prov"
| "layer_contributions prov source next (field # names) =
     and_then (if field = lit ''github_enabled'' then Inr (JBool (e_github_enabled next))
               else ok_or Err_Invalid (bm_get (rules_object next) field)) (\<lambda>value.
       layer_contributions (prov_push prov field \<lparr>co_source = source, co_value = value\<rparr>)
         source next names)"

fun apply_layers ::
  "provenance \<Rightarrow> effective_rules \<Rightarrow> (rstring \<times> effective_rules \<times> rstring list) list \<Rightarrow>
   (policy_error, provenance \<times> effective_rules) result" where
  "apply_layers prov current [] = Inr (prov, current)"
| "apply_layers prov current ((source, next, set_fields) # layers) =
     and_then (layer_contributions prov source next set_fields) (\<lambda>prov'.
       apply_layers prov' next layers)"

section \<open>Resolution\<close>

definition implicit_workspace :: "path \<Rightarrow> effective_rules \<Rightarrow> effective_rules" where
  "implicit_workspace workspace r =
     r\<lparr>e_read_roots := normalize_roots (e_read_roots r @ [workspace]),
       e_write_roots := normalize_roots (e_write_roots r @ [workspace])\<rparr>"

definition resolve_prepared ::
  "hashes \<Rightarrow> workspace_identity \<Rightarrow> effective_rules \<Rightarrow>
   (rstring \<times> effective_rules \<times> rstring list) list \<Rightarrow>
   (effective_rules \<times> rstring) option \<Rightarrow> (policy_error, effective_policy) result" where
  "resolve_prepared h workspace base layers ceiling =
     and_then (apply_layers (record_fields [] (lit ''base'') None base) base layers)
       (\<lambda>(prov, before).
       let current = implicit_workspace (w_path workspace) before;
           prov = record_fields prov (lit ''implicit-workspace'') (Some before) current;
           environment_ceiling = map_option (\<lambda>(c, _). e_inherit_env c) ceiling
       in and_then
            (case ceiling of
               Some (c, digest) \<Rightarrow>
                 and_then (ceiling_rules current c (w_path workspace)) (\<lambda>current'.
                   Inr (current', record_fields prov (lit ''system-ceiling'') None current',
                        Some digest))
             | None \<Rightarrow> Inr (current, prov, None))
            (\<lambda>(current', prov', ceiling_digest).
              and_then (ok_or Err_Invalid
                  (hash_policy h (workspace, current', prov', ceiling_digest))) (\<lambda>digest.
                Inr \<lparr>ep_workspace = workspace, ep_rules = current', ep_provenance = prov',
                     ep_ceiling_digest = ceiling_digest,
                     ep_environment_ceiling = environment_ceiling, ep_digest = digest\<rparr>)))"

definition kind_name :: "layer_kind \<Rightarrow> rstring" where
  "kind_name k = (case k of Global \<Rightarrow> lit ''Global'' | Project \<Rightarrow> lit ''Project''
     | Session \<Rightarrow> lit ''Session'' | Explicit \<Rightarrow> lit ''Explicit'')"

fun prepare_layers ::
  "filesystem \<Rightarrow> hashes \<Rightarrow> path \<Rightarrow> bool \<Rightarrow> rules \<Rightarrow> layer list \<Rightarrow>
   (policy_error, (rstring \<times> effective_rules \<times> rstring list) list) result" where
  "prepare_layers fs h workspace trusted raw [] = Inr []"
| "prepare_layers fs h workspace trusted raw (l # ls) =
     (let raw' = layer_apply l raw in
      and_then (ok_or Err_Invalid (hash_layer h l)) (\<lambda>digest.
      let source = kind_name (l_kind l) @ lit '':'' @ l_identity l @ lit '':'' @ digest in
      and_then (if trusted \<and> l_kind l = Explicit
                then prepare_trusted_config fs raw' workspace
                else prepare fs raw' workspace) (\<lambda>prepared.
      and_then (prepare_layers fs h workspace trusted raw' ls) (\<lambda>rest.
        Inr ((source, prepared, override_fields (l_overrides l)) # rest)))))"

fun kinds_unordered :: "layer list \<Rightarrow> bool" where
  "kinds_unordered (a # b # ls) = (l_kind b \<le> l_kind a \<or> kinds_unordered (b # ls))"
| "kinds_unordered _ = False"

definition resolve_loaded_inner ::
  "filesystem \<Rightarrow> hashes \<Rightarrow> path \<Rightarrow> rules \<Rightarrow> layer list \<Rightarrow> ceiling_document option \<Rightarrow> bool \<Rightarrow>
   (policy_error, effective_policy) result" where
  "resolve_loaded_inner fs h workspace base layers ceiling trusted_config =
     (if max_layers < length layers \<or> kinds_unordered layers then Inl Err_Invalid
      else and_then (directory fs workspace) (\<lambda>p.
           and_then (ok_or Err_Root (fs_metadata fs p)) (\<lambda>(device, inode).
           let ws = \<lparr>w_path = p, w_device = device, w_inode = inode\<rparr> in
           and_then (if trusted_config then prepare_trusted_config fs base p
                     else prepare fs base p) (\<lambda>prepared_base.
           and_then (prepare_layers fs h p trusted_config base layers) (\<lambda>prepared_layers.
           and_then (case ceiling of
               None \<Rightarrow> Inr None
             | Some c \<Rightarrow>
                 if cd_schema c \<noteq> 1 then Inl Err_Ceiling
                 else and_then (case prepare fs (cd_rules c) p of
                                  Inl _ \<Rightarrow> Inl Err_Ceiling | Inr x \<Rightarrow> Inr x) (\<lambda>rules.
                      and_then (ok_or Err_Invalid (hash_ceiling h c)) (\<lambda>digest.
                        Inr (Some (rules, digest))))) (\<lambda>prepared_ceiling.
             resolve_prepared h ws prepared_base prepared_layers prepared_ceiling))))))"

definition resolve_loaded ::
  "filesystem \<Rightarrow> hashes \<Rightarrow> path \<Rightarrow> rules \<Rightarrow> layer list \<Rightarrow> ceiling_document option \<Rightarrow>
   (policy_error, effective_policy) result" where
  "resolve_loaded fs h workspace base layers ceiling =
     resolve_loaded_inner fs h workspace base layers ceiling False"

section \<open>Transitions\<close>

record transition =
  t_previous :: rstring
  t_proposed :: rstring
  t_workspace :: workspace_identity
  t_requires_confirmation :: bool
  t_digest :: rstring

definition added_roots :: "path list \<Rightarrow> path list \<Rightarrow> bool" where
  "added_roots a b \<longleftrightarrow> list_ex (\<lambda>p. \<not> list_ex (path_starts_with p) b) a"

definition requires_confirmation :: "effective_rules \<Rightarrow> effective_rules \<Rightarrow> bool" where
  "requires_confirmation old new \<longleftrightarrow>
     profile_rank (e_access old) < profile_rank (e_access new) \<or>
     (e_unattended new = Allow \<and> e_unattended old = Deny) \<or>
     added_roots (e_read_roots new) (e_read_roots old) \<or>
     added_roots (e_write_roots new) (e_write_roots old) \<or>
     list_ex (\<lambda>x. \<not> List.member (e_inherit_env old) x) (e_inherit_env new) \<or>
     (e_github_enabled new \<and> \<not> e_github_enabled old)"

definition policy_transition ::
  "hashes \<Rightarrow> effective_policy \<Rightarrow> effective_policy \<Rightarrow> (policy_error, transition) result" where
  "policy_transition h previous proposed =
     (if ep_workspace previous \<noteq> ep_workspace proposed then Inl Err_Transition
      else let rc = requires_confirmation (ep_rules previous) (ep_rules proposed) in
           and_then (ok_or Err_Invalid (hash_transition h
               (ep_digest previous, ep_digest proposed, ep_workspace previous, rc))) (\<lambda>digest.
             Inr \<lparr>t_previous = ep_digest previous, t_proposed = ep_digest proposed,
                  t_workspace = ep_workspace previous, t_requires_confirmation = rc,
                  t_digest = digest\<rparr>))"

definition transition_confirm :: "transition \<Rightarrow> rstring \<Rightarrow> (policy_error, unit) result" where
  "transition_confirm t digest = (if digest \<noteq> t_digest t then Inl Err_Transition else Inr ())"

section \<open>Root lists\<close>

definition root_covers :: "path list \<Rightarrow> path \<Rightarrow> bool" where
  "root_covers roots p = within_any p roots"

lemma normalize_roots_set:
  "set (normalize_roots rs) = {r \<in> set rs. \<forall>q \<in> set rs. prefix q r \<longrightarrow> q = r}"
  by (auto simp: normalize_roots_def list_ex_iff path_starts_with_def)

lemma normalize_roots_antichain:
  "q \<in> set (normalize_roots rs) \<Longrightarrow> r \<in> set (normalize_roots rs) \<Longrightarrow> prefix q r \<Longrightarrow> q = r"
  by (auto simp: normalize_roots_set)

lemma shortest_root:
  assumes "r \<in> set rs"
  shows "\<exists>q \<in> set rs. prefix q r \<and> (\<forall>q' \<in> set rs. prefix q' q \<longrightarrow> q' = q)"
  using assms
proof (induction "length r" arbitrary: r rule: less_induct)
  case less
  show ?case
  proof (cases "\<exists>q \<in> set rs. prefix q r \<and> q \<noteq> r")
    case True
    then obtain q where q: "q \<in> set rs" "strict_prefix q r"
      by (auto simp: strict_prefix_def)
    then have "length q < length r" by (simp add: prefix_length_less)
    from less.hyps [OF this q(1)] obtain m
      where "m \<in> set rs" "prefix m q" "\<forall>q' \<in> set rs. prefix q' m \<longrightarrow> q' = m"
      by blast
    moreover have "prefix m r"
      using \<open>prefix m q\<close> q(2) by (meson prefix_order.trans prefix_order.less_imp_le)
    ultimately show ?thesis by blast
  next
    case False
    then show ?thesis using less.prems by auto
  qed
qed

lemma within_any_normalize [simp]:
  "within_any p (normalize_roots rs) \<longleftrightarrow> within_any p rs"
proof
  assume "within_any p (normalize_roots rs)"
  then show "within_any p rs" by (auto simp: within_any_iff normalize_roots_set)
next
  assume "within_any p rs"
  then obtain r where "r \<in> set rs" "prefix r p" by (auto simp: within_any_iff)
  moreover from shortest_root [OF this(1)] obtain q
    where "q \<in> set rs" "prefix q r" "\<forall>q' \<in> set rs. prefix q' q \<longrightarrow> q' = q" by blast
  ultimately show "within_any p (normalize_roots rs)"
    by (auto simp: within_any_iff normalize_roots_set intro: prefix_order.trans)
qed

lemma within_any_candidates:
  "within_any p (concat (map (\<lambda>x. List.map_filter (\<lambda>y.
        if path_starts_with x y then Some x
        else if path_starts_with y x then Some y else None) b) a)) \<longleftrightarrow>
   (\<exists>x \<in> set a. \<exists>y \<in> set b. prefix y x \<and> prefix x p \<or> prefix x y \<and> prefix y p)"
proof -
  let ?f = "\<lambda>x y. if path_starts_with x y then Some x
    else if path_starts_with y x then Some y else None"
  have "within_any p (concat (map (\<lambda>x. List.map_filter (?f x) b) a)) \<longleftrightarrow>
      (\<exists>x \<in> set a. \<exists>y \<in> set b. \<exists>z. ?f x y = Some z \<and> prefix z p)"
    unfolding within_any_iff by (rule ex_concat_map_filter)
  also have "\<dots> \<longleftrightarrow> (\<exists>x \<in> set a. \<exists>y \<in> set b.
      prefix y x \<and> prefix x p \<or> \<not> prefix y x \<and> prefix x y \<and> prefix y p)"
    by (intro bex_cong refl) (auto simp: path_starts_with_def)
  also have "\<dots> \<longleftrightarrow> (\<exists>x \<in> set a. \<exists>y \<in> set b.
      prefix y x \<and> prefix x p \<or> prefix x y \<and> prefix y p)"
    by (meson prefix_order.trans)
  finally show ?thesis .
qed

lemma within_any_intersect [simp]:
  "within_any p (intersect a b) \<longleftrightarrow> within_any p a \<and> within_any p b"
proof -
  have "within_any p (intersect a b) \<longleftrightarrow>
      (\<exists>x \<in> set a. \<exists>y \<in> set b. prefix y x \<and> prefix x p \<or> prefix x y \<and> prefix y p)"
    unfolding intersect_def within_any_normalize by (rule within_any_candidates)
  also have "\<dots> \<longleftrightarrow> within_any p a \<and> within_any p b"
    unfolding within_any_iff by (meson prefix_order.trans prefix_same_cases)
  finally show ?thesis .
qed

interpretation policy_roots: root_algebra normalize_roots intersect root_covers
  by unfold_locales (auto simp: root_covers_def)

lemma policy_roots_le: "policy_roots.le a b \<longleftrightarrow> roots_le a b"
  by (simp add: policy_roots.le_def roots_le_def root_covers_def)

lemma sorted_normalize_roots: "sorted (normalize_roots rs)" "distinct (normalize_roots rs)"
  by (simp_all add: normalize_roots_def Let_def sorted_wrt_filter sorted_remdups_adj_distinct)

section \<open>Authority\<close>

text \<open>\<open>rules_le a b\<close>: every right \<open>a\<close> grants, \<open>b\<close> grants too.\<close>

definition rules_le :: "effective_rules \<Rightarrow> effective_rules \<Rightarrow> bool" where
  "rules_le a b \<longleftrightarrow> e_access a \<le> e_access b \<and>
     (e_unattended a = Allow \<longrightarrow> e_unattended b = Allow) \<and>
     roots_le (e_read_roots a) (e_read_roots b) \<and>
     roots_le (e_write_roots a) (e_write_roots b) \<and>
     set (e_inherit_env a) \<subseteq> set (e_inherit_env b) \<and>
     (e_github_enabled a \<longrightarrow> e_github_enabled b)"

lemma rules_le_refl [simp]: "rules_le r r"
  by (simp add: rules_le_def)

lemma rules_le_trans: "rules_le a b \<Longrightarrow> rules_le b c \<Longrightarrow> rules_le a c"
  by (auto simp: rules_le_def intro: roots_le_trans)

lemma list_ex_starts_with: "list_ex (path_starts_with p) roots \<longleftrightarrow> within_any p roots"
  by (simp add: within_any_def)

lemma ceiling_rules_Inr:
  assumes "ceiling_rules r c ws = Inr r'"
  shows "rules_le r' c" "rules_le r' r" "within_any ws (e_read_roots c)" "within_any ws (e_write_roots c)"
  using assms
  by (auto simp: ceiling_rules_def rules_le_def roots_le_def ceiling.meet_eq_min
      list_ex_starts_with split: if_splits)

lemma added_roots_iff: "added_roots a b \<longleftrightarrow> \<not> roots_le a b"
  by (auto simp: added_roots_def roots_le_iff list_ex_starts_with) (auto simp: list_ex_iff)

lemma requires_confirmation_iff: "requires_confirmation old new \<longleftrightarrow> \<not> rules_le new old"
  by (cases "e_unattended old")
     (auto simp: requires_confirmation_def rules_le_def added_roots_iff list_ex_iff
        less_eq_access_mode_def)

text \<open>What \<open>resolve_prepared\<close> returns: the rules of the last layer with the implicit workspace,
  under the ceiling when there is one.\<close>

lemma apply_layers_rules:
  "apply_layers prov cur layers = Inr (prov', r) \<Longrightarrow>
   r = (if layers = [] then cur else fst (snd (last layers)))"
proof (induction prov cur layers rule: apply_layers.induct)
  case (2 prov current source "next" fields layers)
  then show ?case by (cases layers) (auto simp: and_then_Inr)
qed simp

lemma resolve_prepared_Inr:
  assumes "resolve_prepared h ws base layers ceiling = Inr ep"
  defines "chosen \<equiv> (if layers = [] then base else fst (snd (last layers)))"
  shows "ep_workspace ep = ws"
    "ceiling = None \<Longrightarrow> ep_rules ep = implicit_workspace (w_path ws) chosen \<and>
       ep_ceiling_digest ep = None"
    "ceiling = Some (c, d) \<Longrightarrow>
       ceiling_rules (implicit_workspace (w_path ws) chosen) c (w_path ws) = Inr (ep_rules ep) \<and>
       ep_ceiling_digest ep = Some d \<and> ep_environment_ceiling ep = Some (e_inherit_env c)"
  using assms
  by (auto simp: resolve_prepared_def and_then_Inr Let_def dest!: apply_layers_rules
      split: option.splits prod.splits)

lemma implicit_workspace_covers:
  "within_any p (e_read_roots (implicit_workspace ws r)) \<longleftrightarrow>
     within_any p (e_read_roots r) \<or> prefix ws p"
  "within_any p (e_write_roots (implicit_workspace ws r)) \<longleftrightarrow>
     within_any p (e_write_roots r) \<or> prefix ws p"
  by (auto simp: implicit_workspace_def within_any_iff [of _ "[ws]"])

lemma resolve_loaded_inner_ceiling:
  assumes "resolve_loaded_inner fs h workspace base layers (Some cd) trusted = Inr ep"
  shows "\<exists>c d. prepare fs (cd_rules cd) (w_path (ep_workspace ep)) = Inr c \<and>
    hash_ceiling h cd = Some d \<and> ep_ceiling_digest ep = Some d \<and>
    ep_environment_ceiling ep = Some (e_inherit_env c) \<and>
    rules_le (ep_rules ep) c \<and> within_any (w_path (ep_workspace ep)) (e_write_roots c)"
proof -
  from assms obtain p dev ino b ls c d where
    ws: "prepare fs (cd_rules cd) p = Inr c" "hash_ceiling h cd = Some d" and
    res: "resolve_prepared h \<lparr>w_path = p, w_device = dev, w_inode = ino\<rparr> b ls (Some (c, d)) = Inr ep"
    by (auto simp: resolve_loaded_inner_def and_then_Inr Let_def split: if_splits sum.splits)
  note r = resolve_prepared_Inr [OF res]
  from r(3) [OF refl] obtain x where "ceiling_rules x c p = Inr (ep_rules ep)"
    and "ep_ceiling_digest ep = Some d \<and> ep_environment_ceiling ep = Some (e_inherit_env c)"
    by auto
  with ws r(1) show ?thesis by (auto dest: ceiling_rules_Inr)
qed

section \<open>Properties\<close>

text \<open>
  C13. No layer, profile or command-line override escapes the administrator ceiling: whenever a
  policy resolves under a ceiling document, the effective rules grant nothing the prepared
  ceiling does not grant (access mode, unattended approval, readable and writable paths,
  inherited environment names, GitHub), and the digest of that ceiling is recorded.
\<close>

theorem resolved_policy_below_ceiling:
  assumes "resolve_loaded_inner fs h workspace base layers (Some cd) trusted = Inr ep"
  shows "\<exists>c. prepare fs (cd_rules cd) (w_path (ep_workspace ep)) = Inr c \<and>
    rules_le (ep_rules ep) c \<and> ep_ceiling_digest ep = hash_ceiling h cd"
  using resolve_loaded_inner_ceiling [OF assms] by auto

text \<open>A file system in which every path is a canonical directory, constant digests, and a base
  broader than its ceiling.\<close>

definition example_fs :: filesystem where
  "example_fs = \<lparr>fs_canonicalize = Some, fs_is_dir = (\<lambda>_. True), fs_metadata = (\<lambda>_. Some (1, 2)),
     fs_exists = (\<lambda>_. True)\<rparr>"

definition example_hashes :: hashes where
  "example_hashes = \<lparr>hash_layer = (\<lambda>_. Some []), hash_ceiling = (\<lambda>_. Some [1]),
     hash_policy = (\<lambda>_. Some [2]), hash_transition = (\<lambda>_. Some [3])\<rparr>"

definition example_rules :: "access_mode \<Rightarrow> rstring \<Rightarrow> rules" where
  "example_rules m root = \<lparr>r_access = m, r_unattended = Allow, r_read_roots = [root],
     r_write_roots = [root], r_legacy_deny_commands = [], r_inherit_env = [lit ''PATH''],
     r_github_enabled = True\<rparr>"

definition example_workspace :: path where
  "example_workspace = [RootDir, Normal (lit ''w'')]"

definition example_resolution :: "access_mode \<Rightarrow> (policy_error, effective_policy) result" where
  "example_resolution m = resolve_loaded_inner example_fs example_hashes example_workspace
     (example_rules m (lit ''/'')) [] (Some \<lparr>cd_schema = 1,
       cd_rules = example_rules Approval (lit ''/w'')\<rparr>) False"

lemma example_resolves: "is_ok (example_resolution m)"
  by (cases m) code_simp+

theorem resolved_policy_below_ceiling_witness:
  "\<exists>ep. example_resolution Unrestricted = Inr ep \<and>
     (\<exists>c. prepare example_fs (example_rules Approval (lit ''/w'')) (w_path (ep_workspace ep)) = Inr c \<and>
        rules_le (ep_rules ep) c)"
proof -
  obtain ep where ep: "example_resolution Unrestricted = Inr ep"
    using example_resolves by (auto simp: is_ok_iff)
  from resolved_policy_below_ceiling [OF ep [unfolded example_resolution_def]] ep
  show ?thesis by auto
qed

text \<open>
  Confirmation is asked for exactly when the proposed policy grants something the previous
  one does not: the six tests of \<open>transition\<close> are together equivalent to a loss of
  \<open>rules_le\<close>, so a transition without confirmation never widens authority.
\<close>

theorem transition_confirms_escalation:
  assumes "policy_transition h previous proposed = Inr t"
  shows "t_requires_confirmation t \<longleftrightarrow> \<not> rules_le (ep_rules proposed) (ep_rules previous)"
  using assms
  by (auto simp: policy_transition_def Let_def and_then_Inr requires_confirmation_iff split: if_splits)

text \<open>Normalising roots keeps exactly the covered paths and leaves a sorted list in which no root
  lies under another; intersecting two root lists covers exactly the paths both cover.\<close>

theorem root_normal_form:
  "within_any p (normalize_roots rs) = within_any p rs \<and>
   sorted (normalize_roots rs) \<and> distinct (normalize_roots rs) \<and>
   (\<forall>q r. \<not> (q \<in> set (normalize_roots rs) \<and> r \<in> set (normalize_roots rs) \<and> strict_prefix q r)) \<and>
   within_any p (intersect a b) = (within_any p a \<and> within_any p b)"
proof (intro conjI allI notI)
  fix q r
  assume "q \<in> set (normalize_roots rs) \<and> r \<in> set (normalize_roots rs) \<and> strict_prefix q r"
  then show False
    using normalize_roots_antichain [of q rs r] by (auto simp: strict_prefix_def)
qed (simp_all add: sorted_normalize_roots)

end
