(* ===== verification/Command_Policy.thy ===== *)
theory Command_Policy
  imports Policy_Profile
begin

text \<open>
  What the policy decides about a command, a write and an external tool (\<open>voyage/src/policy.rs\<close>):
  \<open>command\<close>, \<open>write\<close>, \<open>external_tool\<close> and the classification of commands behind them. The syntax
  analysis of the command (\<open>policy/shell.rs\<close> on the parse of the tree-sitter grammar) is an
  argument: an error, or the literal words found and whether the command is one simple command.
\<close>

datatype decision = Dec_Allow | Dec_Ask rstring | Dec_Deny rstring

type_synonym analysis = "(rstring, rstring list \<times> bool) result"

text \<open>\<open>Path::new(word).file_name()\<close>.\<close>

definition program_name :: "rstring \<Rightarrow> rstring option" where
  "program_name w = file_name (path_new w)"

definition mutating :: "rstring list" where
  "mutating = map lit [''rm'', ''mv'', ''cp'', ''dd'', ''chmod'', ''chown'', ''kill'', ''pkill'',
     ''systemctl'', ''service'', ''mount'', ''umount'', ''docker'', ''podman'', ''kubectl'', ''terraform'']"

definition safe_sed :: "rstring list \<Rightarrow> bool" where
  "safe_sed words = (case find (\<lambda>w. \<not> starts_with w (lit ''-'')) (drop 1 words) of
     None \<Rightarrow> False
   | Some script \<Rightarrow> list_all (\<lambda>c. is_ascii_digit c \<or> c \<in> set (lit '',$pqd '') \<or> c = 9) script)"

definition inspection_programs :: "rstring list" where
  "inspection_programs = map lit [''pwd'', ''ls'', ''cat'', ''head'', ''tail'', ''wc'', ''stat'', ''file'', ''du'',
     ''df'', ''ps'', ''printenv'', ''whoami'', ''id'', ''uname'', ''which'', ''true'', ''false'']"

definition find_actions :: "rstring list" where
  "find_actions = map lit [''-delete'', ''-exec'', ''-execdir'', ''-ok'', ''-okdir'', ''-fls'', ''-fprint'',
     ''-fprint0'', ''-fprintf'']"

definition git_inspections :: "rstring list" where
  "git_inspections = map lit [''status'', ''diff'', ''log'', ''show'', ''rev-parse'', ''ls-files'', ''grep'']"

definition confidently_read_only :: "rstring \<Rightarrow> rstring list \<Rightarrow> bool" where
  "confidently_read_only command words =
     (if list_ex (\<lambda>c. c = 10 \<or> c = 59 \<or> c = 96) command \<or> contains_str command (lit ''$(('') \<or>
         contains_str command (lit ''$('') \<or> contains_str command (lit ''&&'') \<or>
         contains_str command (lit ''||'') \<or> words = []
      then False
      else let executable = case_option [] id (program_name (hd words)) in
        if executable \<in> set inspection_programs then True
        else if executable = lit ''env'' then length words = 1
        else if executable = lit ''rg'' \<or> executable = lit ''grep''
          then \<not> list_ex (\<lambda>w. starts_with w (lit ''--pre'')) words
        else if executable = lit ''find'' then \<not> list_ex (\<lambda>w. w \<in> set find_actions) words
        else if executable = lit ''sed'' then safe_sed words
        else if executable = lit ''git''
          then 1 < length words \<and> (words ! 1 \<in> set git_inspections \<or>
             words ! 1 = lit ''branch'' \<and> list_all (\<lambda>w. w = lit ''--show-current'') (drop 2 words))
        else False)"

definition looks_risky :: "rstring \<Rightarrow> rstring list \<Rightarrow> bool" where
  "looks_risky command words \<longleftrightarrow>
     list_ex (\<lambda>w. is_some_and (program_name w) (\<lambda>n. n \<in> set mutating)) words \<or>
     contains_str command (lit ''>'') \<or> contains_str command (lit ''sudo '') \<or>
     contains_str command (lit ''--force'') \<or> \<not> confidently_read_only command words"

definition command_decision :: "access_mode \<Rightarrow> rstring \<Rightarrow> analysis \<Rightarrow> decision" where
  "command_decision mode command result = (case result of
     Inl reason \<Rightarrow> Dec_Deny (lit ''shell policy: '' @ reason)
   | Inr (words, simple) \<Rightarrow>
       let risky = \<not> simple \<or> looks_risky command words in
       (case (mode, risky) of
          (ReadOnly, _) \<Rightarrow> Dec_Deny (lit ''commands are disabled in read-only access mode'')
        | (Approval, True) \<Rightarrow> Dec_Ask (lit ''run potentially consequential command: '' @ command)
        | (Approval, False) \<Rightarrow> Dec_Allow
        | (Unrestricted, _) \<Rightarrow> Dec_Allow))"

text \<open>\<open>Path::display\<close> of a normalised path.\<close>

fun component_text :: "component \<Rightarrow> rstring" where
  "component_text RootDir = []"
| "component_text CurDir = lit ''.''"
| "component_text ParentDir = lit ''..''"
| "component_text (Normal s) = s"

definition path_display :: "path \<Rightarrow> rstring" where
  "path_display p = (if p = [RootDir] then lit ''/'' else join (lit ''/'') (map component_text p))"

definition write_decision :: "access_mode \<Rightarrow> path \<Rightarrow> decision" where
  "write_decision mode p = (case mode of
     ReadOnly \<Rightarrow> Dec_Deny (lit ''writes are disabled in read-only access mode'')
   | Approval \<Rightarrow> Dec_Ask (lit ''write '' @ path_display p)
   | Unrestricted \<Rightarrow> Dec_Allow)"

definition external_tool_decision :: "access_mode \<Rightarrow> rstring \<Rightarrow> decision" where
  "external_tool_decision mode name = (case mode of
     ReadOnly \<Rightarrow> Dec_Deny (lit ''external tool `'' @ name @ lit ''` is disabled in read-only access mode'')
   | Approval \<Rightarrow> Dec_Ask (lit ''run external MCP tool `'' @ name @ lit ''`'')
   | Unrestricted \<Rightarrow> Dec_Allow)"

section \<open>What is taken for an inspection\<close>

definition inspection_heads :: "rstring set" where
  "inspection_heads = set inspection_programs \<union>
     lit ` {''env'', ''rg'', ''grep'', ''find'', ''sed'', ''git''}"

lemma inspection_not_empty: "[] \<notin> inspection_heads"
  by (simp add: inspection_heads_def inspection_programs_def lit_def)

lemma confidently_read_only_program:
  assumes "confidently_read_only command words"
  shows "words \<noteq> [] \<and> (\<exists>n. program_name (hd words) = Some n \<and>
     n \<in> inspection_heads)"
proof -
  define executable where "executable = case_option [] id (program_name (hd words))"
  have "words \<noteq> []" and
    "executable \<in> inspection_heads"
    using assms unfolding confidently_read_only_def executable_def [symmetric] Let_def
    by (auto simp: inspection_heads_def split: if_splits)
  with inspection_not_empty show ?thesis
    unfolding executable_def by (cases "program_name (hd words)") auto
qed

section \<open>Properties\<close>

text \<open>
  C28. A command runs without asking only with unrestricted access, or, with approval, when it is
  one simple command that names no program known to change things, has no redirection and no
  \<open>sudo\<close> or \<open>--force\<close>, and starts with one of the programs kept for inspection; what the shell
  analysis refuses never runs, and nothing runs, is written or called with read-only access.
\<close>

theorem unasked_commands_are_inspections:
  "(command_decision mode command result = Dec_Allow \<longrightarrow>
      (\<exists>words simple. result = Inr (words, simple) \<and> mode \<noteq> ReadOnly \<and>
        (mode = Approval \<longrightarrow> simple \<and> words \<noteq> [] \<and> confidently_read_only command words \<and>
          \<not> contains_str command (lit ''>'') \<and> \<not> contains_str command (lit ''sudo '') \<and>
          \<not> contains_str command (lit ''--force'') \<and>
          (\<forall>w \<in> set words. \<forall>n. program_name w = Some n \<longrightarrow> n \<notin> set mutating) \<and>
          (\<exists>n. program_name (hd words) = Some n \<and>
             n \<in> inspection_heads)))) \<and>
   (write_decision mode p = Dec_Allow \<longrightarrow> mode = Unrestricted) \<and>
   (external_tool_decision mode name = Dec_Allow \<longrightarrow> mode = Unrestricted)"
proof (intro conjI impI)
  assume allow: "command_decision mode command result = Dec_Allow"
  then obtain words simple where r: "result = Inr (words, simple)" "mode \<noteq> ReadOnly"
    "mode = Approval \<longrightarrow> simple \<and> \<not> looks_risky command words"
  proof (cases result)
    case (Inl reason)
    with allow show thesis by (simp add: command_decision_def)
  next
    case (Inr r)
    obtain words simple where r: "r = (words, simple)" by (cases r)
    have "mode \<noteq> ReadOnly \<and> (mode = Approval \<longrightarrow> simple \<and> \<not> looks_risky command words)"
      using allow unfolding Inr r
      by (cases mode; cases "simple"; cases "looks_risky command words") (simp_all add: command_decision_def)
    with that Inr r show thesis by blast
  qed
  moreover have "words \<noteq> [] \<and> confidently_read_only command words \<and>
          \<not> contains_str command (lit ''>'') \<and> \<not> contains_str command (lit ''sudo '') \<and>
          \<not> contains_str command (lit ''--force'') \<and>
          (\<forall>w \<in> set words. \<forall>n. program_name w = Some n \<longrightarrow> n \<notin> set mutating) \<and>
          (\<exists>n. program_name (hd words) = Some n \<and>
             n \<in> inspection_heads)"
    if "\<not> looks_risky command words"
  proof -
    have c: "confidently_read_only command words" and
      q: "\<not> contains_str command (lit ''>'')" "\<not> contains_str command (lit ''sudo '')"
      "\<not> contains_str command (lit ''--force'')" "\<not> list_ex (\<lambda>w. is_some_and (program_name w) (\<lambda>n. n \<in> set mutating)) words"
      using that unfolding looks_risky_def by blast+
    have "\<forall>w \<in> set words. \<forall>n. program_name w = Some n \<longrightarrow> n \<notin> set mutating"
      using q(4) by (fastforce simp: list_ex_iff is_some_and_def simp del: contains_str.simps)
    with c q confidently_read_only_program [OF c] show ?thesis by blast
  qed
  ultimately show "\<exists>words simple. result = Inr (words, simple) \<and> mode \<noteq> ReadOnly \<and>
        (mode = Approval \<longrightarrow> simple \<and> words \<noteq> [] \<and> confidently_read_only command words \<and>
          \<not> contains_str command (lit ''>'') \<and> \<not> contains_str command (lit ''sudo '') \<and>
          \<not> contains_str command (lit ''--force'') \<and>
          (\<forall>w \<in> set words. \<forall>n. program_name w = Some n \<longrightarrow> n \<notin> set mutating) \<and>
          (\<exists>n. program_name (hd words) = Some n \<and>
             n \<in> inspection_heads))"
    by blast
qed (auto simp: write_decision_def external_tool_decision_def split: access_mode.splits)

lemma unasked_commands_are_inspections_witness:
  "\<exists>n. program_name (lit ''ls'') = Some n \<and>
     n \<in> inspection_heads"
proof -
  have "command_decision Approval (lit ''ls -l'') (Inr ([lit ''ls'', lit ''-l''], True)) = Dec_Allow"
    by code_simp
  with unasked_commands_are_inspections [of Approval "lit ''ls -l''" "Inr ([lit ''ls'', lit ''-l''], True)"]
  show ?thesis by auto
qed

text \<open>
  The stream editor is taken for an inspection even when it edits its file in place: only the
  first word that is not an option is looked at, so \<open>sed -i 1d notes.txt\<close> (and \<open>sed --in-place\<close>)
  runs without asking under approval, although it deletes a line of the file.
\<close>

lemma sed_in_place_not_asked:
  "command_decision Approval (lit ''sed -i 1d notes.txt'')
     (Inr (map lit [''sed'', ''-i'', ''1d'', ''notes.txt''], True)) = Dec_Allow \<and>
   command_decision Approval (lit ''sed --in-place 1d notes.txt'')
     (Inr (map lit [''sed'', ''--in-place'', ''1d'', ''notes.txt''], True)) = Dec_Allow"
  by code_simp

end
