(* ===== verification/Policy.thy ===== *)
theory Policy
  imports Policy_Resolution Command_Policy
begin

text \<open>
  The runtime policy (\<open>voyage/src/policy.rs\<close>, \<open>policy/live.rs\<close>, \<open>policy/roots.rs\<close>): resolving paths
  for reading and writing, freezing the access of one dispatch, and the file-system roots granted for
  the length of a run.

  The two cells that policies share behind an \<open>Arc\<close> (the live access word and the run's root grants)
  are a record that every operation takes, and returns where it changes it. The host (file system,
  system ceiling, operating-system access check, sandbox, freshness of the profile sources, external
  authority and cancelled tokens) is another record, read at each call.
\<close>

section \<open>State\<close>

datatype root_permission = Root_Read | Root_Write

record root_candidate =
  rc_path :: path
  rc_permission :: root_permission
  rc_identity :: "nat \<times> nat"

record grant =
  gr_root :: root_candidate
  gr_cancellation :: nat
  gr_access :: "64 word"

record run_roots =
  rn_grants :: "grant list"
  rn_generation :: "64 word"
  rn_run :: "uuid option"

record cells =
  ce_live :: "64 word"
  ce_roots :: run_roots

record host =
  ho_fs :: filesystem
  ho_hashes :: hashes
  ho_ceiling :: "(policy_error, ceiling_document option) result"
  ho_os_access :: "path \<Rightarrow> root_permission \<Rightarrow> nat \<times> nat \<Rightarrow> bool"
  ho_sandbox :: "path list \<Rightarrow> path list \<Rightarrow> bool"
  ho_fresh :: bool
  ho_authority :: bool
  ho_cancelled :: "nat set"
  ho_supported :: bool

record policy =
  po_effective :: effective_policy
  po_authority :: bool
  po_workspace :: path
  po_readable :: "path list"
  po_writable :: "path list"
  po_mode :: access_mode
  po_live :: bool
  po_live_ceiling :: bool
  po_dispatch_access :: "64 word option"
  po_run_roots :: bool
  po_dispatch_roots :: "64 word option"
  po_dispatch_sandbox :: bool
  po_dispatch_error :: bool

datatype gate_error =
  Gate_Dispatch | Gate_AccessChanged | Gate_Authority | Gate_RootsChanged | Gate_Revoked | Gate_Moved |
  Gate_Identity | Gate_OsAccess | Gate_Stale | Gate_Unsupported | Gate_NotForeground | Gate_NotExact |
  Gate_NotPrintable | Gate_Resolve policy_error | Gate_CeilingChanged | Gate_CeilingRefuses |
  Gate_Sandbox | Gate_ConsentChanged | Gate_Cancelled | Gate_Limit | Gate_CannotAccess |
  Gate_OutsideRoots | Gate_NoAncestor | Gate_NotDelegated

definition policy_from_runtime :: "effective_policy \<Rightarrow> policy" where
  "policy_from_runtime e =
     \<lparr>po_effective = e, po_authority = False, po_workspace = w_path (ep_workspace e),
      po_readable = e_read_roots (ep_rules e), po_writable = e_write_roots (ep_rules e),
      po_mode = e_access (ep_rules e), po_live = False, po_live_ceiling = False,
      po_dispatch_access = None, po_run_roots = False, po_dispatch_roots = None,
      po_dispatch_sandbox = False, po_dispatch_error = False\<rparr>"

definition with_live_access :: "policy \<Rightarrow> policy" where
  "with_live_access p = p\<lparr>po_live := True\<rparr>"

definition with_execution_authority :: "policy \<Rightarrow> policy" where
  "with_execution_authority p = p\<lparr>po_authority := True\<rparr>"

text \<open>A child policy takes the parent's live access as a ceiling and none of its root grants.\<close>

definition inherit_execution_authority :: "policy \<Rightarrow> policy \<Rightarrow> policy" where
  "inherit_execution_authority parent p =
     p\<lparr>po_authority := po_authority parent, po_live := po_live parent, po_live_ceiling := True,
       po_run_roots := False, po_dispatch_roots := None, po_dispatch_sandbox := False\<rparr>"

definition enable_run_roots :: "policy \<Rightarrow> cells \<Rightarrow> policy \<times> cells" where
  "enable_run_roots p ce =
     (p\<lparr>po_run_roots := True\<rparr>,
      ce\<lparr>ce_roots := \<lparr>rn_grants = [], rn_generation = 0, rn_run = None\<rparr>\<rparr>)"

section \<open>Access\<close>

definition policy_access_mode :: "cells \<Rightarrow> policy \<Rightarrow> access_mode" where
  "policy_access_mode ce p =
     (if \<not> po_live p then po_mode p
      else let mode = live_mode (case po_dispatch_access p of Some v \<Rightarrow> v | None \<Rightarrow> ce_live ce)
           in if po_live_ceiling p then live_restrict (po_mode p) mode else mode)"

definition check_without_roots :: "host \<Rightarrow> cells \<Rightarrow> policy \<Rightarrow> (gate_error, unit) result" where
  "check_without_roots h ce p =
     (if po_live p \<and> is_some_and (po_dispatch_access p) (\<lambda>v. ce_live ce \<noteq> v) then Inl Gate_AccessChanged
      else if po_authority p \<and> \<not> ho_authority h then Inl Gate_Authority
      else Inr ())"

definition verify_root :: "host \<Rightarrow> root_candidate \<Rightarrow> (gate_error, unit) result" where
  "verify_root h c =
     (if \<not> (fs_canonicalize (ho_fs h) (rc_path c) = Some (rc_path c) \<and> fs_is_dir (ho_fs h) (rc_path c))
      then Inl Gate_Moved
      else if fs_metadata (ho_fs h) (rc_path c) \<noteq> Some (rc_identity c) then Inl Gate_Identity
      else if \<not> ho_os_access h (rc_path c) (rc_permission c) (rc_identity c) then Inl Gate_OsAccess
      else Inr ())"

fun check_grants :: "host \<Rightarrow> cells \<Rightarrow> policy \<Rightarrow> grant list \<Rightarrow> (gate_error, unit) result" where
  "check_grants h ce p [] = Inr ()"
| "check_grants h ce p (g # gs) =
     (if gr_cancellation g \<in> ho_cancelled h \<or> \<not> (po_live p \<and> ce_live ce = gr_access g)
      then Inl Gate_Revoked
      else and_then (verify_root h (gr_root g)) (\<lambda>_. check_grants h ce p gs))"

definition check_roots :: "host \<Rightarrow> cells \<Rightarrow> policy \<Rightarrow> (gate_error, unit) result" where
  "check_roots h ce p =
     (case po_dispatch_roots p of
        None \<Rightarrow> Inr ()
      | Some generation \<Rightarrow>
          if \<not> po_run_roots p then Inr ()
          else if rn_generation (ce_roots ce) \<noteq> generation then Inl Gate_RootsChanged
          else check_grants h ce p (rn_grants (ce_roots ce)))"

definition check_execution_authority :: "host \<Rightarrow> cells \<Rightarrow> policy \<Rightarrow> (gate_error, unit) result" where
  "check_execution_authority h ce p =
     (if po_dispatch_error p then Inl Gate_Dispatch
      else and_then (check_without_roots h ce p) (\<lambda>_. check_roots h ce p))"

definition check_current :: "host \<Rightarrow> cells \<Rightarrow> policy \<Rightarrow> (gate_error, unit) result" where
  "check_current h ce p = and_then (check_execution_authority h ce p) (\<lambda>_.
     if ho_fresh h then Inr () else Inl Gate_Stale)"

section \<open>Paths\<close>

definition normalize_step :: "component \<Rightarrow> path \<Rightarrow> path" where
  "normalize_step c result = (case c of
     ParentDir \<Rightarrow> path_pop result
   | CurDir \<Rightarrow> result
   | other \<Rightarrow> path_push result [other])"

definition normalize_path :: "path \<Rightarrow> path" where
  "normalize_path p = fold normalize_step p []"

definition policy_absolute :: "policy \<Rightarrow> path \<Rightarrow> path" where
  "policy_absolute p q =
     (if is_absolute q then normalize_path q else normalize_path (path_push (po_workspace p) q))"

text \<open>The loop climbs until a path exists, keeping the names it leaves behind.\<close>

function existing_ancestor :: "filesystem \<Rightarrow> path \<Rightarrow> rstring list \<Rightarrow> (path \<times> rstring list) option" where
  "existing_ancestor fs cursor names =
     (if fs_exists fs cursor then Some (cursor, names)
      else case file_name cursor of
        None \<Rightarrow> None
      | Some name \<Rightarrow> existing_ancestor fs (path_pop cursor) (name # names))"
  by pat_completeness auto

lemma file_name_Some: "file_name p = Some n \<longleftrightarrow> p \<noteq> [] \<and> last p = Normal n"
  by (auto simp: file_name_def split: component.splits)

lemma path_pop_file_name: "file_name p = Some n \<Longrightarrow> path_pop p @ [Normal n] = p"
  by (auto simp: file_name_Some path_pop_def) (metis append_butlast_last_id)

termination existing_ancestor
proof (relation "measure (\<lambda>(_, cursor, _). length cursor)", simp, goal_cases)
  case (1 fs cursor names n)
  then have "length (path_pop cursor @ [Normal n]) = length cursor"
    by (simp add: path_pop_file_name)
  then show ?case by simp
qed

declare existing_ancestor.simps [simp del]

definition push_names :: "path \<Rightarrow> rstring list \<Rightarrow> path" where
  "push_names p names = fold (\<lambda>n q. path_push q [Normal n]) names p"

definition resolve_read :: "host \<Rightarrow> cells \<Rightarrow> policy \<Rightarrow> path \<Rightarrow> (gate_error, path) result" where
  "resolve_read h ce p path =
     and_then (check_current h ce p) (\<lambda>_.
     and_then (ok_or Gate_CannotAccess (fs_canonicalize (ho_fs h) (policy_absolute p path))) (\<lambda>resolved.
       if \<not> within_any resolved (po_readable p) then Inl Gate_OutsideRoots else Inr resolved))"

definition resolve_write :: "host \<Rightarrow> cells \<Rightarrow> policy \<Rightarrow> path \<Rightarrow> (gate_error, path) result" where
  "resolve_write h ce p path =
     and_then (check_current h ce p) (\<lambda>_.
     and_then (ok_or Gate_NoAncestor (existing_ancestor (ho_fs h) (policy_absolute p path) [])) (\<lambda>(ancestor, names).
     and_then (ok_or Gate_CannotAccess (fs_canonicalize (ho_fs h) ancestor)) (\<lambda>resolved.
       if \<not> within_any resolved (po_writable p) then Inl Gate_OutsideRoots
       else Inr (push_names resolved names))))"

definition check_delegated_workspace :: "host \<Rightarrow> policy \<Rightarrow> path \<Rightarrow> (gate_error, unit) result" where
  "check_delegated_workspace h p path =
     and_then (case verify_workspace (ho_fs h) (ep_workspace (po_effective p)) of
                 Inl e \<Rightarrow> Inl (Gate_Resolve e) | Inr _ \<Rightarrow> Inr ()) (\<lambda>_.
     and_then (ok_or Gate_NoAncestor (existing_ancestor (ho_fs h) path [])) (\<lambda>(ancestor, names).
     and_then (ok_or Gate_CannotAccess (fs_canonicalize (ho_fs h) ancestor)) (\<lambda>resolved.
       let resolved = push_names resolved names; rules = ep_rules (po_effective p) in
       if within_any resolved (e_read_roots rules) \<and> within_any resolved (e_write_roots rules)
       then Inr () else Inl Gate_NotDelegated)))"

definition policy_command :: "cells \<Rightarrow> policy \<Rightarrow> rstring \<Rightarrow> analysis \<Rightarrow> decision" where
  "policy_command ce p command result = command_decision (policy_access_mode ce p) command result"

section \<open>Root grants\<close>

text \<open>The rules of the policy as a trusted base: its roots written back as strings.\<close>

definition base_rules :: "effective_rules \<Rightarrow> rules" where
  "base_rules r = \<lparr>r_access = e_access r, r_unattended = e_unattended r,
     r_read_roots = map path_display (e_read_roots r), r_write_roots = map path_display (e_write_roots r),
     r_legacy_deny_commands = [], r_inherit_env = e_inherit_env r, r_github_enabled = e_github_enabled r\<rparr>"

fun add_roots :: "host \<Rightarrow> root_candidate list \<Rightarrow> rules \<Rightarrow> (gate_error, rules) result" where
  "add_roots h [] base = Inr base"
| "add_roots h (c # cs) base =
     and_then (verify_root h c) (\<lambda>_.
       let base = base\<lparr>r_read_roots := r_read_roots base @ [path_display (rc_path c)]\<rparr>;
           base = (if rc_permission c = Root_Write
             then base\<lparr>r_write_roots := r_write_roots base @ [path_display (rc_path c)]\<rparr> else base)
       in add_roots h cs base)"

fun check_root_ceiling_each ::
  "access_mode \<Rightarrow> effective_policy \<Rightarrow> root_candidate list \<Rightarrow> (gate_error, unit) result" where
  "check_root_ceiling_each mode e [] = Inr ()"
| "check_root_ceiling_each mode e (c # cs) =
     (if \<not> within_any (rc_path c) (e_read_roots (ep_rules e)) then Inl Gate_CeilingRefuses
      else if rc_permission c = Root_Write \<and>
          \<not> (mode \<noteq> ReadOnly \<and> e_access (ep_rules e) \<noteq> ReadOnly \<and>
             within_any (rc_path c) (e_write_roots (ep_rules e))) then Inl Gate_CeilingRefuses
      else check_root_ceiling_each mode e cs)"

definition check_root_ceiling ::
  "cells \<Rightarrow> policy \<Rightarrow> root_candidate list \<Rightarrow> effective_policy \<Rightarrow> (gate_error, unit) result" where
  "check_root_ceiling ce p roots e =
     (if ep_ceiling_digest e \<noteq> ep_ceiling_digest (po_effective p) then Inl Gate_CeilingChanged
      else check_root_ceiling_each (policy_access_mode ce p) e roots)"

definition root_sandbox :: "host \<Rightarrow> cells \<Rightarrow> policy \<Rightarrow> root_candidate list \<Rightarrow> (gate_error, unit) result" where
  "root_sandbox h ce p roots =
     and_then (add_roots h roots (base_rules (ep_rules (po_effective p)))) (\<lambda>base.
     and_then (case and_then (ho_ceiling h) (\<lambda>ceiling.
                  resolve_loaded_inner (ho_fs h) (ho_hashes h) (po_workspace p) base [] ceiling True) of
                 Inl e \<Rightarrow> Inl (Gate_Resolve e) | Inr e \<Rightarrow> Inr e) (\<lambda>e.
     and_then (check_root_ceiling ce p roots e) (\<lambda>_.
       if ho_sandbox h (e_read_roots (ep_rules e)) (e_write_roots (ep_rules e))
       then Inr () else Inl Gate_Sandbox)))"

definition validate_root_scope :: "host \<Rightarrow> cells \<Rightarrow> policy \<Rightarrow> (gate_error, unit) result" where
  "validate_root_scope h ce p =
     (if \<not> ho_supported h then Inl Gate_Unsupported
      else if \<not> (\<not> po_live_ceiling p \<and> po_run_roots p \<and> po_live p) then Inl Gate_NotForeground
      else check_current h ce p)"

definition prepare_root :: "host \<Rightarrow> cells \<Rightarrow> policy \<Rightarrow> path \<Rightarrow> root_permission \<Rightarrow>
    (gate_error, root_candidate) result" where
  "prepare_root h ce p path permission =
     and_then (validate_root_scope h ce p) (\<lambda>_.
     if \<not> (is_absolute path \<and> fs_canonicalize (ho_fs h) path = Some path \<and> fs_is_dir (ho_fs h) path)
     then Inl Gate_NotExact
     else if has_control (path_display path) then Inl Gate_NotPrintable
     else and_then (ok_or Gate_CannotAccess (fs_metadata (ho_fs h) path)) (\<lambda>identity.
       let candidate = \<lparr>rc_path = path, rc_permission = permission, rc_identity = identity\<rparr> in
       and_then (root_sandbox h ce p [candidate]) (\<lambda>_. Inr candidate)))"

text \<open>The consent is checked again under the lock before the grant is added.\<close>

definition install_root :: "host \<Rightarrow> root_candidate \<Rightarrow> nat \<Rightarrow> policy \<Rightarrow> cells \<Rightarrow>
    (gate_error, cells) result" where
  "install_root h root token p ce =
     (let state = ce_roots ce in
      and_then (validate_root_scope h ce p) (\<lambda>_.
      and_then (verify_root h root) (\<lambda>_.
      and_then (check_without_roots h ce p) (\<lambda>_.
      if \<not> is_none_or (po_dispatch_roots p) (\<lambda>g. g = rn_generation state) then Inl Gate_ConsentChanged
      else if token \<in> ho_cancelled h then Inl Gate_Cancelled
      else if \<not> length (rn_grants state) < 64 then Inl Gate_Limit
      else and_then (root_sandbox h ce p (map gr_root (rn_grants state) @ [root])) (\<lambda>_.
           and_then (check_without_roots h ce p) (\<lambda>_.
             Inr (ce\<lparr>ce_roots := state\<lparr>
               rn_grants := rn_grants state @ [\<lparr>gr_root = root, gr_cancellation = token, gr_access = ce_live ce\<rparr>],
               rn_generation := rn_generation state + 1\<rparr>\<rparr>)))))))"

definition grant_alive :: "host \<Rightarrow> cells \<Rightarrow> policy \<Rightarrow> grant \<Rightarrow> bool" where
  "grant_alive h ce p g \<longleftrightarrow>
     gr_cancellation g \<notin> ho_cancelled h \<and> po_live p \<and> gr_access g = ce_live ce"

definition snapshot_roots :: "host \<Rightarrow> policy \<Rightarrow> cells \<Rightarrow> (gate_error, unit) result \<times> policy \<times> cells" where
  "snapshot_roots h p ce =
     (if po_live_ceiling p \<or> \<not> po_run_roots p then (Inr (), p, ce)
      else let state = ce_roots ce;
               kept = filter (grant_alive h ce p) (rn_grants state);
               state = state\<lparr>rn_grants := kept,
                 rn_generation := (if length kept \<noteq> length (rn_grants state)
                   then rn_generation state + 1 else rn_generation state)\<rparr>;
               ce = ce\<lparr>ce_roots := state\<rparr>;
               roots = map gr_root kept
           in if roots = [] then (Inr (), p\<lparr>po_dispatch_roots := Some (rn_generation state)\<rparr>, ce)
              else (case root_sandbox h ce p roots of
                  Inl e \<Rightarrow> (Inl e, p, ce)
                | Inr _ \<Rightarrow>
                    (Inr (), p\<lparr>po_dispatch_sandbox := True,
                       po_readable := po_readable p @ map rc_path roots,
                       po_writable := po_writable p @
                         map rc_path (filter (\<lambda>c. rc_permission c = Root_Write) roots),
                       po_dispatch_roots := Some (rn_generation state)\<rparr>, ce)))"

definition for_dispatch :: "host \<Rightarrow> policy \<Rightarrow> cells \<Rightarrow> policy \<times> cells" where
  "for_dispatch h p ce =
     (let rules = ep_rules (po_effective p);
          policy = p\<lparr>po_readable := e_read_roots rules, po_writable := e_write_roots rules,
            po_dispatch_sandbox := False, po_dispatch_roots := None, po_dispatch_error := False\<rparr>;
          policy = (if po_live p then policy\<lparr>po_dispatch_access := Some (ce_live ce)\<rparr> else policy)
      in case snapshot_roots h policy ce of
           (Inl _, policy', ce') \<Rightarrow> (policy'\<lparr>po_dispatch_error := True\<rparr>, ce')
         | (Inr _, policy', ce') \<Rightarrow> (policy', ce'))"

definition for_run_dispatch :: "host \<Rightarrow> uuid \<Rightarrow> policy \<Rightarrow> cells \<Rightarrow> policy \<times> cells" where
  "for_run_dispatch h run p ce =
     (let state = ce_roots ce;
          ce' = (if po_run_roots p \<and> rn_run state \<noteq> Some run
                 then ce\<lparr>ce_roots := \<lparr>rn_grants = [], rn_generation = rn_generation state + 1, rn_run = Some run\<rparr>\<rparr>
                 else ce)
      in for_dispatch h p ce')"

text \<open>What the configuration handler does to the live access.\<close>

definition update_access :: "access_mode \<Rightarrow> cells \<Rightarrow> cells" where
  "update_access m ce = ce\<lparr>ce_live := live_update (ce_live ce) m\<rparr>"

section \<open>Lemmas\<close>

definition lexically_resolved :: "path \<Rightarrow> bool" where
  "lexically_resolved p \<longleftrightarrow> list_all (\<lambda>c. c \<noteq> ParentDir \<and> c \<noteq> CurDir) p"

lemma normalize_fold_resolved:
  "lexically_resolved q \<Longrightarrow> lexically_resolved (fold normalize_step p q)"
proof (induction p arbitrary: q)
  case (Cons c p)
  have "lexically_resolved (normalize_step c q)"
    using Cons.prems
    by (cases c) (auto simp: normalize_step_def lexically_resolved_def path_pop_def path_push_def list_all_iff
        dest: in_set_butlastD)
  with Cons show ?case by simp
qed simp

lemma policy_absolute_resolved: "lexically_resolved (policy_absolute p q)"
proof -
  have "lexically_resolved (normalize_path x)" for x
    unfolding normalize_path_def by (rule normalize_fold_resolved) (simp add: lexically_resolved_def)
  then show ?thesis by (simp add: policy_absolute_def)
qed

lemma existing_ancestor_split:
  "existing_ancestor fs cursor names = Some (a, ns) \<Longrightarrow>
     fs_exists fs a \<and> (\<exists>rest. ns = rest @ names \<and> cursor = a @ map Normal rest \<and>
       (\<forall>k < length rest. \<not> fs_exists fs (a @ map Normal (take (Suc k) rest))))"
proof (induction fs cursor names rule: existing_ancestor.induct)
  case (1 fs cursor names)
  show ?case
  proof (cases "fs_exists fs cursor")
    case True
    with "1.prems" show ?thesis by (auto simp: existing_ancestor.simps)
  next
    case False
    with "1.prems" obtain n where n: "file_name cursor = Some n"
      "existing_ancestor fs (path_pop cursor) (n # names) = Some (a, ns)"
      by (subst (asm) existing_ancestor.simps) (auto split: option.splits)
    from "1.IH" [OF False n] obtain rest where
      "fs_exists fs a" "ns = rest @ n # names" "path_pop cursor = a @ map Normal rest"
      "\<forall>k < length rest. \<not> fs_exists fs (a @ map Normal (take (Suc k) rest))" by auto
    moreover from this have cursor: "cursor = a @ map Normal (rest @ [n])"
      using path_pop_file_name [OF n(1)] by simp
    moreover have "\<not> fs_exists fs (a @ map Normal (take (Suc k) (rest @ [n])))" if "k < length (rest @ [n])" for k
      using calculation(4) False that unfolding cursor by (cases "k = length rest") auto
    ultimately show ?thesis
      by (intro conjI exI [of _ "rest @ [n]"]) auto
  qed
qed

lemma push_names_append: "push_names p names = p @ map Normal names"
proof (induction names arbitrary: p)
  case (Cons n names)
  have "push_names p (n # names) = push_names (p @ [Normal n]) names"
    by (simp add: push_names_def path_push_def is_absolute_def)
  with Cons show ?case by simp
qed (simp add: push_names_def)

lemma resolve_write_Inr:
  assumes "resolve_write h ce p path = Inr q"
  obtains a names r where "check_current h ce p = Inr ()"
    "policy_absolute p path = a @ map Normal names" "fs_exists (ho_fs h) a"
    "fs_canonicalize (ho_fs h) a = Some r" "within_any r (po_writable p)" "q = r @ map Normal names"
    "\<forall>k < length names. \<not> fs_exists (ho_fs h) (a @ map Normal (take (Suc k) names))"
proof -
  obtain a names r where s: "check_current h ce p = Inr ()"
    "existing_ancestor (ho_fs h) (policy_absolute p path) [] = Some (a, names)"
    "fs_canonicalize (ho_fs h) a = Some r" "within_any r (po_writable p)" "q = push_names r names"
    using assms by (auto simp: resolve_write_def and_then_Inr)
  from existing_ancestor_split [OF s(2)] s that show thesis
    by (auto simp: push_names_append)
qed

lemma grant_alive_update [simp]:
  "grant_alive h ce (p\<lparr>po_readable := x\<rparr>) = grant_alive h ce p"
  "grant_alive h ce (p\<lparr>po_writable := x\<rparr>) = grant_alive h ce p"
  "grant_alive h ce (p\<lparr>po_dispatch_sandbox := b\<rparr>) = grant_alive h ce p"
  "grant_alive h ce (p\<lparr>po_dispatch_roots := g\<rparr>) = grant_alive h ce p"
  "grant_alive h ce (p\<lparr>po_dispatch_error := b\<rparr>) = grant_alive h ce p"
  "grant_alive h ce (p\<lparr>po_dispatch_access := v\<rparr>) = grant_alive h ce p"
  by (simp_all add: fun_eq_iff grant_alive_def)

text \<open>A dispatch carries exactly the grants that are alive when it is made.\<close>

lemma for_dispatch_roots:
  assumes "for_dispatch h p ce = (p', ce')" "\<not> po_dispatch_error p'"
  shows "set (po_readable p') = set (e_read_roots (ep_rules (po_effective p))) \<union>
      {rc_path (gr_root g) | g. g \<in> set (rn_grants (ce_roots ce)) \<and> grant_alive h ce p g \<and>
         po_run_roots p \<and> \<not> po_live_ceiling p}"
    and "set (po_writable p') = set (e_write_roots (ep_rules (po_effective p))) \<union>
      {rc_path (gr_root g) | g. g \<in> set (rn_grants (ce_roots ce)) \<and> grant_alive h ce p g \<and>
         rc_permission (gr_root g) = Root_Write \<and> po_run_roots p \<and> \<not> po_live_ceiling p}"
  using assms
  by (auto simp: for_dispatch_def snapshot_roots_def Let_def filter_empty_conv split: if_splits sum.splits)

lemma live_update_neq: "live_update v m \<noteq> v"
proof
  assume "live_update v m = v"
  then have "(live_epoch v + 1) mod 2 ^ 62 = live_epoch v"
    using live_epoch_update [of v m] by simp
  with live_epoch_less [of v] show False
    by (cases "live_epoch v + 1 = 2 ^ 62") simp_all
qed

lemma for_dispatch_frame:
  assumes "for_dispatch h p ce = (p', ce')"
  shows "po_live p' = po_live p" "po_authority p' = po_authority p" "po_run_roots p' = po_run_roots p"
    "po_live p \<Longrightarrow> po_dispatch_access p' = Some (ce_live ce)" "ce_live ce' = ce_live ce"
    "po_run_roots p \<Longrightarrow> \<not> po_live_ceiling p \<Longrightarrow> \<not> po_dispatch_error p' \<Longrightarrow>
       po_dispatch_roots p' = Some (rn_generation (ce_roots ce'))"
    "rn_grants (ce_roots ce') = filter (grant_alive h ce p) (rn_grants (ce_roots ce)) \<or>
       rn_grants (ce_roots ce') = rn_grants (ce_roots ce)"
  using assms
  by (auto simp: for_dispatch_def snapshot_roots_def Let_def split: if_splits sum.splits)

lemma generation_next: "(g :: 64 word) + 1 \<noteq> g"
  by simp

lemma check_grants_alive:
  "check_grants h ce p gs = Inr () \<Longrightarrow> g \<in> set gs \<Longrightarrow> grant_alive h ce p g \<and> verify_root h (gr_root g) = Inr ()"
  by (induction gs) (auto simp: and_then_Inr grant_alive_def)

lemma snapshot_roots_added:
  assumes "snapshot_roots h p ce = (Inr (), p', ce')"
  shows "\<exists>ce1 roots. (root_sandbox h ce1 p roots = Inr () \<or> roots = []) \<and>
    po_readable p' = po_readable p @ map rc_path roots \<and>
    po_writable p' = po_writable p @ map rc_path (filter (\<lambda>c. rc_permission c = Root_Write) roots)"
proof (cases "po_live_ceiling p \<or> \<not> po_run_roots p")
  case True
  with assms show ?thesis by (auto simp: snapshot_roots_def)
next
  case False
  define kept where "kept = filter (grant_alive h ce p) (rn_grants (ce_roots ce))"
  show ?thesis
  proof (cases "kept = []")
    case True
    with assms False show ?thesis
      by (auto simp: snapshot_roots_def Let_def simp flip: kept_def)
  next
    case nonempty: False
    with assms False have "\<exists>ce1. root_sandbox h ce1 p (map gr_root kept) = Inr () \<and>
      po_readable p' = po_readable p @ map rc_path (map gr_root kept) \<and>
      po_writable p' = po_writable p @ map rc_path (filter (\<lambda>c. rc_permission c = Root_Write) (map gr_root kept))"
      unfolding snapshot_roots_def Let_def kept_def [symmetric]
      by (auto split: sum.splits)
    then show ?thesis by blast
  qed
qed

text \<open>A root sandbox that is built keeps every root under the system ceiling.\<close>

lemma check_root_ceiling_each_Inr:
  "check_root_ceiling_each mode e roots = Inr () \<longleftrightarrow>
     (\<forall>c \<in> set roots. within_any (rc_path c) (e_read_roots (ep_rules e)) \<and>
        (rc_permission c = Root_Write \<longrightarrow> mode \<noteq> ReadOnly \<and> e_access (ep_rules e) \<noteq> ReadOnly \<and>
           within_any (rc_path c) (e_write_roots (ep_rules e))))"
  by (induction roots) auto

lemma root_sandbox_ceiling:
  assumes "root_sandbox h ce p roots = Inr ()" "ho_ceiling h = Inr (Some cd)"
  shows "\<exists>ws c. prepare (ho_fs h) (cd_rules cd) ws = Inr c \<and>
    (\<forall>r \<in> set roots. within_any (rc_path r) (e_read_roots c) \<and>
       (rc_permission r = Root_Write \<longrightarrow> within_any (rc_path r) (e_write_roots c) \<and>
          policy_access_mode ce p \<noteq> ReadOnly \<and> e_access c \<noteq> ReadOnly))"
proof -
  obtain base e where e: "resolve_loaded_inner (ho_fs h) (ho_hashes h) (po_workspace p) base [] (Some cd) True = Inr e"
    "check_root_ceiling ce p roots e = Inr ()"
  proof -
    obtain base e where s: "add_roots h roots (base_rules (ep_rules (po_effective p))) = Inr base"
      "(case resolve_loaded_inner (ho_fs h) (ho_hashes h) (po_workspace p) base [] (Some cd) True of
          Inl e \<Rightarrow> Inl (Gate_Resolve e) | Inr e \<Rightarrow> Inr e) = Inr e" "check_root_ceiling ce p roots e = Inr ()"
      using assms by (auto simp: root_sandbox_def and_then_Inr)
    then have "resolve_loaded_inner (ho_fs h) (ho_hashes h) (po_workspace p) base [] (Some cd) True = Inr e"
      by (simp split: sum.splits)
    with s(3) that show thesis by blast
  qed
  from resolve_loaded_inner_ceiling [OF e(1)] obtain c where
    c: "prepare (ho_fs h) (cd_rules cd) (w_path (ep_workspace e)) = Inr c" "rules_le (ep_rules e) c" by blast
  have "check_root_ceiling_each (policy_access_mode ce p) e roots = Inr ()"
    using e(2) by (simp add: check_root_ceiling_def)
  moreover have "e_access (ep_rules e) \<noteq> ReadOnly \<Longrightarrow> e_access c \<noteq> ReadOnly"
    using c(2) by (auto simp: rules_le_def)
  ultimately show ?thesis
    using c by (intro exI [of _ "w_path (ep_workspace e)"] exI [of _ c])
      (auto simp: check_root_ceiling_each_Inr rules_le_def roots_le_def)
qed

section \<open>An example host\<close>

text \<open>
  A run under the ceiling of the example resolution, with one write grant below the workspace.
\<close>

definition example_root :: path where
  "example_root = example_workspace @ [Normal (lit ''x'')]"

definition example_host :: host where
  "example_host = \<lparr>ho_fs = example_fs\<lparr>fs_exists := (\<lambda>p. length p \<le> 3)\<rparr>, ho_hashes = example_hashes,
     ho_ceiling = Inr (Some \<lparr>cd_schema = 1, cd_rules = example_rules Approval (lit ''/w'')\<rparr>),
     ho_os_access = (\<lambda>_ _ _. True), ho_sandbox = (\<lambda>_ _. True), ho_fresh = True, ho_authority = True,
     ho_cancelled = {}, ho_supported = True\<rparr>"

definition example_grant :: grant where
  "example_grant = \<lparr>gr_root = \<lparr>rc_path = example_root, rc_permission = Root_Write, rc_identity = (1, 2)\<rparr>,
     gr_cancellation = 7, gr_access = live_new Approval\<rparr>"

definition example_cells :: cells where
  "example_cells = \<lparr>ce_live = live_new Approval,
     ce_roots = \<lparr>rn_grants = [example_grant], rn_generation = 1, rn_run = Some 5\<rparr>\<rparr>"

definition example_policy :: "effective_policy \<Rightarrow> policy" where
  "example_policy e = (with_live_access (policy_from_runtime e))\<lparr>po_run_roots := True\<rparr>"

lemma example_dispatch:
  obtains e p' ce' where "example_resolution Approval = Inr e"
    "for_dispatch example_host (example_policy e) example_cells = (p', ce')" "\<not> po_dispatch_error p'"
    "example_root \<in> set (po_writable p')"
    "example_root \<notin> set (e_write_roots (ep_rules (po_effective (example_policy e))))"
    "is_ok (resolve_write example_host ce' p' [Normal (lit ''x''), Normal (lit ''y''), ParentDir, Normal (lit ''z'')])"
proof -
  obtain e where e: "example_resolution Approval = Inr e"
    using example_resolves by (auto simp: is_ok_iff)
  have "case example_resolution Approval of Inl _ \<Rightarrow> False | Inr e \<Rightarrow>
    case for_dispatch example_host (example_policy e) example_cells of (p', ce') \<Rightarrow>
      \<not> po_dispatch_error p' \<and> example_root \<in> set (po_writable p') \<and>
      example_root \<notin> set (e_write_roots (ep_rules (po_effective (example_policy e)))) \<and>
      is_ok (resolve_write example_host ce' p' [Normal (lit ''x''), Normal (lit ''y''), ParentDir, Normal (lit ''z'')])"
    by code_simp
  with e that show thesis
    by (cases "for_dispatch example_host (example_policy e) example_cells") auto
qed

section \<open>Properties\<close>

text \<open>
  C30. Resolved paths stay inside: a path resolved for reading is canonical and under a readable
  root; one resolved for writing is the canonical form of an existing ancestor under a writable
  root, followed by the plain names that do not exist yet (never a parent step). Neither resolves
  unless the policy is current, with its authority and its root grants checked at that moment.
\<close>

theorem resolved_paths_contained:
  "(resolve_read h ce p path = Inr q \<longrightarrow> check_current h ce p = Inr () \<and>
      fs_canonicalize (ho_fs h) (policy_absolute p path) = Some q \<and> within_any q (po_readable p)) \<and>
   (resolve_write h ce p path = Inr q \<longrightarrow> check_current h ce p = Inr () \<and> within_any q (po_writable p) \<and>
      (\<exists>a r names. fs_exists (ho_fs h) a \<and> fs_canonicalize (ho_fs h) a = Some r \<and>
         within_any r (po_writable p) \<and> policy_absolute p path = a @ map Normal names \<and>
         (\<forall>k < length names. \<not> fs_exists (ho_fs h) (a @ map Normal (take (Suc k) names))) \<and>
         q = r @ map Normal names))"
proof (intro conjI impI)
  assume "resolve_read h ce p path = Inr q"
  then show "check_current h ce p = Inr ()" "fs_canonicalize (ho_fs h) (policy_absolute p path) = Some q"
    "within_any q (po_readable p)"
    by (auto simp: resolve_read_def and_then_Inr)
next
  assume "resolve_write h ce p path = Inr q"
  then obtain a names r where w: "check_current h ce p = Inr ()"
    "policy_absolute p path = a @ map Normal names" "fs_exists (ho_fs h) a"
    "fs_canonicalize (ho_fs h) a = Some r" "within_any r (po_writable p)" "q = r @ map Normal names"
    "\<forall>k < length names. \<not> fs_exists (ho_fs h) (a @ map Normal (take (Suc k) names))"
    by (rule resolve_write_Inr)
  then show "check_current h ce p = Inr ()" "within_any q (po_writable p)"
    "\<exists>a r names. fs_exists (ho_fs h) a \<and> fs_canonicalize (ho_fs h) a = Some r \<and>
         within_any r (po_writable p) \<and> policy_absolute p path = a @ map Normal names \<and>
         (\<forall>k < length names. \<not> fs_exists (ho_fs h) (a @ map Normal (take (Suc k) names))) \<and>
         q = r @ map Normal names"
    using within_any_prefix_mono [of r "po_writable p" q] by auto
qed

lemma resolved_paths_contained_witness:
  "\<exists>e p' ce' q. for_dispatch example_host (example_policy e) example_cells = (p', ce') \<and>
     resolve_write example_host ce' p' [Normal (lit ''x''), Normal (lit ''y''), ParentDir, Normal (lit ''z'')] = Inr q \<and>
     within_any q (po_writable p')"
proof -
  obtain e p' ce' q where "for_dispatch example_host (example_policy e) example_cells = (p', ce')"
    "resolve_write example_host ce' p' [Normal (lit ''x''), Normal (lit ''y''), ParentDir, Normal (lit ''z'')] = Inr q"
    by (rule example_dispatch) (auto simp: is_ok_iff)
  with resolved_paths_contained [of example_host ce' p' _ q] show ?thesis by blast
qed

text \<open>
  C31. A dispatch sees its own moment only. For a policy of a live session that takes part in the
  grants of runs and has no live ceiling of its own, a dispatch made without an error reads exactly
  the roots of the policy and of the grants that are neither cancelled nor older than the last access
  change, and writes exactly the write roots of the policy and of those of these grants that
  permit writing (none of a grant to read); and it stops passing
  the authority check as soon as the access is set (even to the same mode), a root is granted,
  another run is dispatched, or one of its grants is cancelled.
\<close>

theorem dispatch_is_fenced:
  assumes "for_dispatch h p ce = (p', ce')" "\<not> po_dispatch_error p'"
    and "po_live p" "po_run_roots p" "\<not> po_live_ceiling p"
  shows "set (po_readable p') = set (e_read_roots (ep_rules (po_effective p))) \<union>
      {rc_path (gr_root g) | g. g \<in> set (rn_grants (ce_roots ce)) \<and>
         gr_cancellation g \<notin> ho_cancelled h \<and> gr_access g = ce_live ce} \<and>
    set (po_writable p') = set (e_write_roots (ep_rules (po_effective p))) \<union>
      {rc_path (gr_root g) | g. g \<in> set (rn_grants (ce_roots ce)) \<and> rc_permission (gr_root g) = Root_Write \<and>
         gr_cancellation g \<notin> ho_cancelled h \<and> gr_access g = ce_live ce} \<and>
    \<not> is_ok (check_execution_authority h' (update_access m ce') p') \<and>
    (\<forall>root token q ce''. install_root h' root token q ce' = Inr ce'' \<longrightarrow>
       \<not> is_ok (check_execution_authority h' ce'' p')) \<and>
    (\<forall>run q ce''. rn_run (ce_roots ce') \<noteq> Some run \<longrightarrow> for_run_dispatch h' run p ce' = (q, ce'') \<longrightarrow>
       \<not> is_ok (check_execution_authority h' ce'' p')) \<and>
    (\<forall>g \<in> set (rn_grants (ce_roots ce')). gr_cancellation g \<in> ho_cancelled h' \<longrightarrow>
       \<not> is_ok (check_execution_authority h' ce' p'))"
proof -
  note frame = for_dispatch_frame [OF assms(1)]
  have gen: "po_dispatch_roots p' = Some (rn_generation (ce_roots ce'))" "po_run_roots p'"
    using frame(3,6) assms(2,4,5) by simp_all
  have stale: "\<not> is_ok (check_execution_authority h' ce'' p')"
    if "rn_generation (ce_roots ce'') \<noteq> rn_generation (ce_roots ce')" for ce''
    using that gen by (auto simp: is_ok_iff check_execution_authority_def check_roots_def and_then_Inr)
  have readable: "set (po_readable p') = set (e_read_roots (ep_rules (po_effective p))) \<union>
      {rc_path (gr_root g) | g. g \<in> set (rn_grants (ce_roots ce)) \<and>
         gr_cancellation g \<notin> ho_cancelled h \<and> gr_access g = ce_live ce}"
    using for_dispatch_roots(1) [OF assms(1,2)] assms(3-5) by (auto simp: grant_alive_def)
  have writable: "set (po_writable p') = set (e_write_roots (ep_rules (po_effective p))) \<union>
      {rc_path (gr_root g) | g. g \<in> set (rn_grants (ce_roots ce)) \<and> rc_permission (gr_root g) = Root_Write \<and>
         gr_cancellation g \<notin> ho_cancelled h \<and> gr_access g = ce_live ce}"
    using for_dispatch_roots(2) [OF assms(1,2)] assms(3-5) by (auto simp: grant_alive_def)
  have access: "\<not> is_ok (check_execution_authority h' (update_access m ce') p')"
    using frame(1,4,5) assms(3) live_update_neq [of "ce_live ce" m]
    by (auto simp: is_ok_iff check_execution_authority_def check_without_roots_def and_then_Inr update_access_def)
  have installed: "\<not> is_ok (check_execution_authority h' ce'' p')"
    if "install_root h' root token q ce' = Inr ce''" for root token q ce''
    by (rule stale) (use that in \<open>auto simp: install_root_def and_then_Inr Let_def\<close>)
  have other: "\<not> is_ok (check_execution_authority h' ce'' p')"
    if "rn_run (ce_roots ce') \<noteq> Some run" "for_run_dispatch h' run p ce' = (q, ce'')" for run q ce''
  proof (rule stale)
    let ?ce = "ce'\<lparr>ce_roots := \<lparr>rn_grants = [], rn_generation = rn_generation (ce_roots ce') + 1, rn_run = Some run\<rparr>\<rparr>"
    have "for_dispatch h' p ?ce = (q, ce'')"
      using that assms(4) by (simp add: for_run_dispatch_def Let_def)
    then have "rn_generation (ce_roots ce'') = rn_generation (ce_roots ce') + 1"
      by (auto simp: for_dispatch_def snapshot_roots_def Let_def split: if_splits)
    then show "rn_generation (ce_roots ce'') \<noteq> rn_generation (ce_roots ce')" by simp
  qed
  have cancelled: "\<not> is_ok (check_execution_authority h' ce' p')"
    if "g \<in> set (rn_grants (ce_roots ce'))" "gr_cancellation g \<in> ho_cancelled h'" for g
    using gen check_grants_alive [of h' ce' p' "rn_grants (ce_roots ce')" g] that
    by (auto simp: is_ok_iff check_execution_authority_def check_roots_def and_then_Inr grant_alive_def)
  show ?thesis
    by (intro conjI ballI allI impI readable writable access) (erule installed, erule (1) other, erule (1) cancelled)
qed

lemma dispatch_is_fenced_witness:
  "\<exists>e p' ce'. for_dispatch example_host (example_policy e) example_cells = (p', ce') \<and>
     example_root \<in> set (po_writable p') \<and>
     \<not> is_ok (check_execution_authority example_host (update_access Approval ce') p')"
proof -
  obtain e p' ce' where d: "for_dispatch example_host (example_policy e) example_cells = (p', ce')"
    "\<not> po_dispatch_error p'" "example_root \<in> set (po_writable p')"
    by (rule example_dispatch)
  have "po_live (example_policy e)" "po_run_roots (example_policy e)" "\<not> po_live_ceiling (example_policy e)"
    by (simp_all add: example_policy_def with_live_access_def policy_from_runtime_def)
  with dispatch_is_fenced [OF d(1,2), of example_host Approval] d show ?thesis by blast
qed

text \<open>A run's consent cannot lift the administrator ceiling: with a system ceiling in force, every
  path a dispatch may read or write beyond the policy's own roots is one the prepared ceiling
  covers, and a write grant never gets through while the mode or the ceiling is read-only.\<close>

theorem granted_roots_below_ceiling:
  assumes "for_dispatch h p ce = (p', ce')" "\<not> po_dispatch_error p'" "ho_ceiling h = Inr (Some cd)"
  shows "\<forall>r. (r \<in> set (po_readable p') - set (e_read_roots (ep_rules (po_effective p))) \<longrightarrow>
      (\<exists>ws c. prepare (ho_fs h) (cd_rules cd) ws = Inr c \<and> within_any r (e_read_roots c))) \<and>
    (r \<in> set (po_writable p') - set (e_write_roots (ep_rules (po_effective p))) \<longrightarrow>
      (\<exists>ws c. prepare (ho_fs h) (cd_rules cd) ws = Inr c \<and> within_any r (e_write_roots c) \<and>
         e_access c \<noteq> ReadOnly))"
proof -
  obtain q ce1 roots where "root_sandbox h ce1 q roots = Inr () \<or> roots = []"
    and read: "set (po_readable p') \<subseteq> set (e_read_roots (ep_rules (po_effective p))) \<union> rc_path ` set roots"
    and wrt: "set (po_writable p') \<subseteq> set (e_write_roots (ep_rules (po_effective p))) \<union>
      rc_path ` {r \<in> set roots. rc_permission r = Root_Write}"
  proof -
    have "\<exists>q ce1 roots. (root_sandbox h ce1 q roots = Inr () \<or> roots = []) \<and>
      po_readable p' = e_read_roots (ep_rules (po_effective p)) @ map rc_path roots \<and>
      po_writable p' = e_write_roots (ep_rules (po_effective p)) @
        map rc_path (filter (\<lambda>c. rc_permission c = Root_Write) roots)"
    proof -
      define p0 where "p0 = (let policy = p\<lparr>po_readable := e_read_roots (ep_rules (po_effective p)),
          po_writable := e_write_roots (ep_rules (po_effective p)), po_dispatch_sandbox := False,
          po_dispatch_roots := None, po_dispatch_error := False\<rparr>
        in if po_live p then policy\<lparr>po_dispatch_access := Some (ce_live ce)\<rparr> else policy)"
      have "snapshot_roots h p0 ce = (Inr (), p', ce')"
        using assms(1,2) by (auto simp: for_dispatch_def p0_def Let_def split: prod.splits sum.splits)
      moreover have "po_readable p0 = e_read_roots (ep_rules (po_effective p))"
        "po_writable p0 = e_write_roots (ep_rules (po_effective p))"
        by (simp_all add: p0_def Let_def)
      ultimately show ?thesis
        using snapshot_roots_added [of h p0 ce p' ce'] by (intro exI [of _ p0]) simp
    qed
    with that show thesis by fastforce
  qed
  then have "r \<in> set roots \<Longrightarrow> \<exists>ws c. prepare (ho_fs h) (cd_rules cd) ws = Inr c \<and>
      within_any (rc_path r) (e_read_roots c) \<and>
      (rc_permission r = Root_Write \<longrightarrow> within_any (rc_path r) (e_write_roots c) \<and> e_access c \<noteq> ReadOnly)" for r
    using root_sandbox_ceiling [OF _ assms(3), of ce1 q roots] by fastforce
  with read wrt show ?thesis by blast
qed

end
