(* ===== verification/Child_Config.thy ===== *)
theory Child_Config
  imports Policy
begin

text \<open>
  The configuration of a child run, cut down to what its parent may delegate
  (\<open>Policy::limit_child_config\<close> of \<open>voyage/src/policy.rs\<close> and \<open>restrict_environment\<close> of
  \<open>voyage/src/runtime_policy.rs\<close>). The record holds the fields of \<open>Config\<close> that these functions read
  or write; the sandbox settings are only copied and stay a type variable.
\<close>

record 's config =
  co_access :: "access_mode option"
  co_approval :: approval_mode
  co_allow_read :: "path list"
  co_allow_write :: "path list"
  co_unattended :: unattended_approval_mode
  co_sandbox :: 's
  co_github_enabled :: bool
  co_inherit_env :: "rstring list"
  co_env :: "(rstring \<times> rstring) list"
  co_mcp_servers :: "(rstring \<times> (rstring \<times> rstring) list) list"
  co_redact_values :: "rstring list"

definition canonical_roots :: "filesystem \<Rightarrow> path list \<Rightarrow> (gate_error, path list) result" where
  "canonical_roots fs paths = collect_results (\<lambda>p. ok_or Gate_CannotAccess (fs_canonicalize fs p)) paths"

text \<open>The two \<open>retain\<close> calls keep the allowed names and collect the values they drop.\<close>

definition kept_env :: "rstring list \<Rightarrow> (rstring \<times> rstring) list \<Rightarrow> (rstring \<times> rstring) list" where
  "kept_env allowed env = filter (\<lambda>(name, _). name \<in> set allowed) env"

definition removed_values :: "rstring list \<Rightarrow> (rstring \<times> rstring) list \<Rightarrow> rstring list" where
  "removed_values allowed env = map snd (filter (\<lambda>(name, _). name \<notin> set allowed) env)"

definition redact :: "rstring \<Rightarrow> rstring list \<Rightarrow> rstring list" where
  "redact value values = (if value \<in> set values then values else values @ [value])"

definition restrict_environment :: "'s config \<Rightarrow> rstring list \<Rightarrow> 's config" where
  "restrict_environment c allowed =
     (let removed = removed_values allowed (co_env c) @
            concat (map (\<lambda>(_, env). removed_values allowed env) (co_mcp_servers c))
      in c\<lparr>co_env := kept_env allowed (co_env c),
           co_mcp_servers := map (\<lambda>(name, env). (name, kept_env allowed env)) (co_mcp_servers c),
           co_redact_values := fold redact removed (co_redact_values c)\<rparr>)"

definition limit_child_config :: "host \<Rightarrow> cells \<Rightarrow> 's \<Rightarrow> policy \<Rightarrow> 's config \<Rightarrow> path \<Rightarrow>
    (gate_error, 's config) result" where
  "limit_child_config h ce sandbox p c workspace =
     (let rules = ep_rules (po_effective p) in
      and_then (check_delegated_workspace h p workspace) (\<lambda>_.
      and_then (canonical_roots (ho_fs h) (co_allow_read c)) (\<lambda>read.
      and_then (if list_all (\<lambda>q. within_any q (e_read_roots rules)) read
                then and_then (canonical_roots (ho_fs h) (co_allow_write c)) (\<lambda>write.
                  Inr (list_all (\<lambda>q. within_any q (e_write_roots rules)) write))
                else Inr False) (\<lambda>within.
      if \<not> within then Inl Gate_OutsideRoots
      else
        let c = (if profile_rank (policy_access_mode ce p) < profile_rank (config_access_mode (co_access c) (co_approval c))
                 then c\<lparr>co_access := Some (policy_access_mode ce p)\<rparr> else c);
            c = c\<lparr>co_unattended := restrictive_unattended (co_unattended c) (e_unattended rules)\<rparr>;
            c = c\<lparr>co_sandbox := sandbox\<rparr>;
            c = c\<lparr>co_github_enabled := (co_github_enabled c \<and> e_github_enabled rules)\<rparr>;
            c = c\<lparr>co_inherit_env := filter (\<lambda>name. name \<in> set (e_inherit_env rules)) (co_inherit_env c)\<rparr>
        in Inr (case ep_environment_ceiling (po_effective p) of
             Some allowed \<Rightarrow> restrict_environment c allowed
           | None \<Rightarrow> c)))))"

lemma set_fold_redact: "set (fold redact vs values) = set values \<union> set vs"
  by (induction vs arbitrary: "values") (auto simp: redact_def)

lemma restrict_environment_frame [simp]:
  "co_access (restrict_environment c a) = co_access c"
  "co_approval (restrict_environment c a) = co_approval c"
  "co_allow_read (restrict_environment c a) = co_allow_read c"
  "co_allow_write (restrict_environment c a) = co_allow_write c"
  "co_unattended (restrict_environment c a) = co_unattended c"
  "co_sandbox (restrict_environment c a) = co_sandbox c"
  "co_github_enabled (restrict_environment c a) = co_github_enabled c"
  "co_inherit_env (restrict_environment c a) = co_inherit_env c"
  by (simp_all add: restrict_environment_def Let_def)

text \<open>Every variable of the configuration, with the servers' own ones.\<close>

definition all_env :: "'s config \<Rightarrow> (rstring \<times> rstring) set" where
  "all_env c = set (co_env c) \<union> (\<Union>(_, env) \<in> set (co_mcp_servers c). set env)"

lemma all_env_restrict: "all_env (restrict_environment c a) = {(n, v) \<in> all_env c. n \<in> set a}"
  by (fastforce simp: all_env_def restrict_environment_def Let_def kept_env_def)

lemma redact_restrict:
  "set (co_redact_values (restrict_environment c a)) =
     set (co_redact_values c) \<union> {v. \<exists>n. (n, v) \<in> all_env c \<and> n \<notin> set a}"
proof -
  have "set (removed_values a env) = {v. \<exists>n. (n, v) \<in> set env \<and> n \<notin> set a}" for env
    by (force simp: removed_values_def)
  then have "set (co_redact_values (restrict_environment c a)) = set (co_redact_values c) \<union>
      ({v. \<exists>n. (n, v) \<in> set (co_env c) \<and> n \<notin> set a} \<union>
       (\<Union>(_, env) \<in> set (co_mcp_servers c). {v. \<exists>n. (n, v) \<in> set env \<and> n \<notin> set a}))"
    by (simp add: restrict_environment_def Let_def set_fold_redact case_prod_beta Un_assoc)
  then show ?thesis by (auto simp: all_env_def)
qed

lemma canonical_roots_Inr:
  "canonical_roots fs paths = Inr qs \<Longrightarrow> p \<in> set paths \<Longrightarrow> \<exists>q. fs_canonicalize fs p = Some q \<and> q \<in> set qs"
  unfolding canonical_roots_def collect_results_Inr by (induction rule: list_all2_induct) auto

text \<open>
  C33. A child configuration never exceeds its parent: its access mode is at most the parent's,
  its roots are, in canonical form, under the parent's, its workspace was delegated, an unattended
  denial is inherited, the GitHub capability and each inherited environment name are the parent's
  too; under an environment ceiling every variable left has an allowed name, and the value of every
  variable dropped is redacted from then on.
\<close>

theorem child_config_within_parent:
  assumes "limit_child_config h ce sandbox p c workspace = Inr c'"
  shows "config_access_mode (co_access c') (co_approval c') \<le> policy_access_mode ce p \<and>
    check_delegated_workspace h p workspace = Inr () \<and>
    (\<forall>q \<in> set (co_allow_read c'). \<exists>r. fs_canonicalize (ho_fs h) q = Some r \<and>
       within_any r (e_read_roots (ep_rules (po_effective p)))) \<and>
    (\<forall>q \<in> set (co_allow_write c'). \<exists>r. fs_canonicalize (ho_fs h) q = Some r \<and>
       within_any r (e_write_roots (ep_rules (po_effective p)))) \<and>
    (e_unattended (ep_rules (po_effective p)) = Deny \<longrightarrow> co_unattended c' = Deny) \<and>
    (co_github_enabled c' \<longrightarrow> e_github_enabled (ep_rules (po_effective p))) \<and>
    set (co_inherit_env c') \<subseteq> set (e_inherit_env (ep_rules (po_effective p))) \<and>
    co_sandbox c' = sandbox \<and>
    (\<forall>allowed. ep_environment_ceiling (po_effective p) = Some allowed \<longrightarrow>
       (\<forall>(n, v) \<in> all_env c'. n \<in> set allowed) \<and>
       (\<forall>(n, v) \<in> all_env c - all_env c'. v \<in> set (co_redact_values c')))"
proof -
  let ?r = "ep_rules (po_effective p)"
  define c1 where "c1 = c\<lparr>co_access := (if profile_rank (policy_access_mode ce p) <
          profile_rank (config_access_mode (co_access c) (co_approval c))
        then Some (policy_access_mode ce p) else co_access c),
      co_unattended := restrictive_unattended (co_unattended c) (e_unattended ?r), co_sandbox := sandbox,
      co_github_enabled := (co_github_enabled c \<and> e_github_enabled ?r),
      co_inherit_env := filter (\<lambda>name. name \<in> set (e_inherit_env ?r)) (co_inherit_env c)\<rparr>"
  obtain rd wr where s: "check_delegated_workspace h p workspace = Inr ()"
    "canonical_roots (ho_fs h) (co_allow_read c) = Inr rd"
    "list_all (\<lambda>q. within_any q (e_read_roots ?r)) rd"
    "canonical_roots (ho_fs h) (co_allow_write c) = Inr wr"
    "list_all (\<lambda>q. within_any q (e_write_roots ?r)) wr"
    and c': "c' = (case ep_environment_ceiling (po_effective p) of
       Some allowed \<Rightarrow> restrict_environment c1 allowed | None \<Rightarrow> c1)"
    using assms
    by (auto simp: limit_child_config_def Let_def and_then_Inr c1_def split: if_splits cong: option.case_cong)
  have env: "all_env c1 = all_env c" by (simp add: all_env_def c1_def)
  have frame: "co_access c' = co_access c1" "co_approval c' = co_approval c1" "co_allow_read c' = co_allow_read c"
    "co_allow_write c' = co_allow_write c" "co_unattended c' = co_unattended c1"
    "co_github_enabled c' = co_github_enabled c1" "co_inherit_env c' = co_inherit_env c1" "co_sandbox c' = sandbox"
    unfolding c' by (auto simp: c1_def split: option.splits)
  have "config_access_mode (co_access c1) (co_approval c1) \<le> policy_access_mode ce p"
    by (simp add: c1_def less_eq_access_mode_def config_access_mode_def)
  moreover have "\<forall>allowed. ep_environment_ceiling (po_effective p) = Some allowed \<longrightarrow>
       (\<forall>(n, v) \<in> all_env c'. n \<in> set allowed) \<and>
       (\<forall>(n, v) \<in> all_env c - all_env c'. v \<in> set (co_redact_values c'))"
    unfolding c' by (auto simp: all_env_restrict redact_restrict env)
  ultimately show ?thesis
    using s canonical_roots_Inr [OF s(2)] canonical_roots_Inr [OF s(4)]
    unfolding frame by (auto simp: c1_def list_all_iff restrictive_unattended_def) (blast+)?
qed

definition example_config :: "nat config" where
  "example_config = \<lparr>co_access = Some Unrestricted, co_approval = Never, co_allow_read = [example_workspace],
     co_allow_write = [example_root], co_unattended = Allow, co_sandbox = 0, co_github_enabled = True,
     co_inherit_env = [lit ''PATH'', lit ''TOKEN''], co_env = [(lit ''PATH'', lit ''/bin''), (lit ''TOKEN'', lit ''s'')],
     co_mcp_servers = [], co_redact_values = []\<rparr>"

lemma child_config_within_parent_witness:
  "\<exists>e c'. example_resolution Approval = Inr e \<and>
     limit_child_config example_host example_cells 1 (example_policy e) example_config example_root = Inr c' \<and>
     config_access_mode (co_access c') (co_approval c') \<le> policy_access_mode example_cells (example_policy e)"
proof -
  have "is_ok (and_then (case example_resolution Approval of Inl _ \<Rightarrow> Inl Gate_Stale | Inr e \<Rightarrow> Inr e) (\<lambda>e.
      limit_child_config example_host example_cells 1 (example_policy e) example_config example_root))"
    by code_simp
  then obtain e c' where e: "example_resolution Approval = Inr e"
    and c: "limit_child_config example_host example_cells 1 (example_policy e) example_config example_root = Inr c'"
    by (auto simp: is_ok_iff and_then_Inr split: sum.splits)
  from child_config_within_parent [OF c] e c show ?thesis by blast
qed

end
