(* ===== verification/Shell.thy ===== *)
theory Shell
  imports Command_Policy "HOL-Library.Code_Target_Nat"
begin

text \<open>
  The syntax inspection of shell commands (\<open>voyage/src/policy/shell.rs\<close>). The parser (tree-sitter
  with the bash grammar), the word splitter (\<open>shell_words\<close>) and the clock are third-party code or the
  environment: they are functions of a record every operation takes. A parse gives the tree that the
  code walks: kind, whether the node is named, whether it is an error or a missing node, the field
  under which its parent holds it, and the source text it spans.

  The walk threads the words collected, the flag for one simple command, and the number of nodes
  still allowed. A script given literally to \<open>sh -c\<close> is parsed and walked in turn; the nesting levels
  left are the structural argument of \<open>parse_script\<close>, so the analysis always returns.
\<close>

section \<open>Trees and the host\<close>

datatype node =
  Node (nd_kind: string) (nd_named: bool) (nd_broken: bool) (nd_field: "string option")
    (nd_text: rstring) (nd_children: "node list")

record shell_host =
  sh_available :: bool
  sh_parse :: "rstring \<Rightarrow> (bool \<times> node) option"
  sh_split :: "rstring \<Rightarrow> rstring list option"
  sh_expired :: "nat \<Rightarrow> bool"

record shell_state =
  sw_words :: "rstring list"
  sw_simple :: bool
  sw_remaining :: nat

abbreviation max_bytes :: nat where "max_bytes \<equiv> 1048576"
abbreviation max_nodes :: nat where "max_nodes \<equiv> 100000"
abbreviation max_depth :: nat where "max_depth \<equiv> 128"

abbreviation named_children :: "node \<Rightarrow> node list" where
  "named_children n \<equiv> filter nd_named (nd_children n)"

definition by_field :: "string \<Rightarrow> node \<Rightarrow> node list" where
  "by_field f n = filter (\<lambda>c. nd_field c = Some f) (nd_children n)"

section \<open>Literal words\<close>

definition leaf_kinds :: "string list" where
  "leaf_kinds = [''word'', ''raw_string'', ''string_content'', ''number'']"

definition quoted_kinds :: "string list" where
  "quoted_kinds = [''command_name'', ''concatenation'', ''string'']"

definition literal_text :: "shell_host \<Rightarrow> string \<Rightarrow> rstring \<Rightarrow> rstring option" where
  "literal_text h kind raw =
     (if kind = ''word'' \<and> list_ex (\<lambda>c. c \<in> set (lit ''*?[~'')) raw then None
      else case sh_split h raw of
        Some [w] \<Rightarrow> Some w
      | _ \<Rightarrow> None)"

fun literal_word :: "shell_host \<Rightarrow> node \<Rightarrow> rstring option" where
  "literal_word h (Node kind named broken field raw children) =
     (if kind \<in> set leaf_kinds then literal_text h kind raw
      else if kind \<in> set quoted_kinds
        then if list_ex (\<lambda>n. nd_named n \<and> literal_word h n = None) children then None
             else literal_text h kind raw
      else None)"

section \<open>The walk\<close>

definition node_kinds :: "string list" where
  "node_kinds = [''program'', ''command'', ''command_name'', ''number'', ''word'', ''string'', ''raw_string'',
     ''string_content'', ''concatenation'', ''list'', ''pipeline'', ''subshell'', ''compound_statement'',
     ''redirected_statement'', ''file_redirect'', ''file_descriptor'', ''heredoc_redirect'', ''heredoc_body'',
     ''heredoc_start'', ''heredoc_end'', ''heredoc_content'', ''command_substitution'', ''simple_expansion'',
     ''expansion'', ''variable_name'', ''special_variable_name'', ''variable_assignment'', ''comment'',
     ''if_statement'', ''elif_clause'', ''else_clause'', ''for_statement'', ''while_statement'', ''do_group'',
     ''negated_command'', ''test_command'', ''unary_expression'', ''binary_expression'', ''test_operator'']"

definition expansion_operators :: "rstring list" where
  "expansion_operators = map lit [''-'', '':-'', ''+'', '':+'', ''='', '':='', ''?'', '':?'', ''#'', ''##'', ''%'', ''%%'']"

definition refused_operators :: "rstring list" where
  "refused_operators = map lit [''|&'', ''&>'', ''&>>'', '';&'', '';;&'']"

definition forwarders :: "rstring list" where
  "forwarders = map lit [''env'', ''sudo'', ''command'', ''exec'', ''timeout'', ''nice'', ''xargs'']"

definition shells :: "rstring list" where
  "shells = map lit [''sh'', ''bash'', ''dash'', ''zsh'', ''ksh'']"

definition push_words :: "rstring list \<Rightarrow> shell_state \<Rightarrow> shell_state" where
  "push_words ws st = st\<lparr>sw_words := sw_words st @ ws\<rparr>"

definition not_simple :: "shell_state \<Rightarrow> shell_state" where
  "not_simple st = st\<lparr>sw_simple := False\<rparr>"

definition literals :: "'a option list \<Rightarrow> 'a list" where
  "literals argv = map the (filter (\<lambda>a. a \<noteq> None) argv)"

definition base_name :: "rstring \<Rightarrow> rstring" where
  "base_name w = case_option [] id (program_name w)"

definition script_flag :: "rstring \<Rightarrow> bool" where
  "script_flag flag \<longleftrightarrow> starts_with flag (lit ''-'') \<and> hd (lit ''c'') \<in> set (tl flag) \<and>
     list_all (\<lambda>c. c \<in> set (lit ''celuxv'')) (tl flag)"

text \<open>The loop over the arguments: \<open>rest\<close> is what follows the current argument.\<close>

fun scan_argv :: "(rstring \<Rightarrow> shell_state \<Rightarrow> (rstring, shell_state) result) \<Rightarrow> rstring \<Rightarrow> bool \<Rightarrow>
    rstring option list \<Rightarrow> shell_state \<Rightarrow> (rstring, shell_state) result" where
  "scan_argv nested base first [] st = Inr st"
| "scan_argv nested base first (None # rest) st = scan_argv nested base False rest st"
| "scan_argv nested base first (Some arg # rest) st =
     (if base_name arg \<notin> set shells \<or> \<not> first \<and> base \<notin> set forwarders
      then scan_argv nested base False rest st
      else let st = not_simple st;
               flag = (case rest of Some f # _ \<Rightarrow> f | _ \<Rightarrow> []) in
        if \<not> script_flag flag then Inl (lit ''shell script/stdin execution cannot be assessed; supply a literal shell -c script or explicit commands'')
        else case drop 1 rest of
          Some script # _ \<Rightarrow> and_then (nested script st) (scan_argv nested base False rest)
        | _ \<Rightarrow> Inl (lit ''dynamic shell -c script cannot be assessed''))"

text \<open>The branch for a command: its name must be a literal word.\<close>

definition command_argv :: "shell_host \<Rightarrow> node \<Rightarrow> (rstring, rstring option list) result" where
  "command_argv h n =
     (case by_field ''name'' n of
        [] \<Rightarrow> Inl (lit ''missing shell command name'')
      | name # _ \<Rightarrow>
          and_then (ok_or (lit ''dynamic shell command name cannot be assessed; use a literal executable'')
            (literal_word h name)) (\<lambda>executable.
          Inr (Some executable # map (literal_word h) (by_field ''argument'' n))))"

definition visit_command :: "shell_host \<Rightarrow> (rstring \<Rightarrow> shell_state \<Rightarrow> (rstring, shell_state) result) \<Rightarrow>
    node \<Rightarrow> shell_state \<Rightarrow> (rstring, shell_state) result" where
  "visit_command h nested n st =
     and_then (command_argv h n) (\<lambda>argv.
       let st = push_words (literals argv) st;
           st = (if None \<in> set argv then not_simple st else st);
           base = base_name (the (hd argv)) in
       if base = lit ''eval'' \<or> base = lit ''.'' \<or> base = lit ''source''
       then Inl (lit ''eval/source cannot be assessed safely; use explicit commands'')
       else if base \<in> set forwarders \<and> None \<in> set argv
       then Inl (lit ''dynamic command forwarding cannot be assessed safely'')
       else scan_argv nested base True argv st)"

definition visit_test :: "node \<Rightarrow> shell_state \<Rightarrow> (rstring, shell_state) result" where
  "visit_test n st =
     (if \<not> starts_with (nd_text n) (lit ''['') \<or> starts_with (nd_text n) (lit ''[['')
      then Inl (lit ''unsupported non-POSIX test/arithmetic command'')
      else Inr (push_words [lit ''[''] (not_simple st)))"

definition visit_expansion :: "node \<Rightarrow> shell_state \<Rightarrow> (rstring, shell_state) result" where
  "visit_expansion n st =
     (if list_ex (\<lambda>op. nd_text op \<notin> set expansion_operators) (by_field ''operator'' n)
      then Inl (lit ''unsupported parameter expansion operator'')
      else Inr (not_simple st))"

definition visit_heredoc :: "shell_host \<Rightarrow> node \<Rightarrow> shell_state \<Rightarrow> (rstring, shell_state) result" where
  "visit_heredoc h n st =
     and_then (ok_or (lit ''missing heredoc delimiter'')
       (find (\<lambda>c. nd_kind c = ''heredoc_start'') (named_children n))) (\<lambda>start.
     and_then (ok_or (lit ''unterminated heredoc'')
       (find (\<lambda>c. nd_kind c = ''heredoc_end'') (named_children n))) (\<lambda>end_node.
     and_then (ok_or (lit ''unsupported heredoc delimiter'') (sh_split h (nd_text start))) (\<lambda>delimiter.
     if length delimiter \<noteq> 1 \<or> nd_text end_node \<noteq> delimiter ! 0
     then Inl (lit ''unterminated or unsupported heredoc delimiter'')
     else if list_ex (\<lambda>arg. literal_word h arg = None) (by_field ''argument'' n)
     then Inl (lit ''dynamic arguments after a heredoc delimiter cannot be assessed safely; put explicit arguments before the redirect'')
     else Inr (not_simple st))))"

text \<open>What \<open>visit\<close> does at one node before it descends.\<close>

definition visit_node :: "shell_host \<Rightarrow> (rstring \<Rightarrow> shell_state \<Rightarrow> (rstring, shell_state) result) \<Rightarrow>
    nat \<Rightarrow> node \<Rightarrow> shell_state \<Rightarrow> (rstring, shell_state) result" where
  "visit_node h nested depth n st =
     (if max_depth < depth \<or> sw_remaining st = 0 \<or> sh_expired h (sw_remaining st)
      then Inl (lit ''shell analysis node/depth/time limit exceeded'')
      else let st = st\<lparr>sw_remaining := sw_remaining st - 1\<rparr> in
      if nd_broken n then Inl (lit ''incomplete shell syntax'')
      else if nd_kind n \<notin> set node_kinds
      then Inl (lit ''unsupported shell construct: '' @ lit (nd_kind n) @ lit ''; use a simpler explicit command'')
      else
        and_then (if nd_kind n = ''test_command'' then visit_test n st else Inr st) (\<lambda>st.
        let st = (if \<not> sw_simple st \<and> nd_kind n \<in> {''word'', ''raw_string'', ''string'', ''concatenation''}
                  then push_words (case literal_word h n of Some w \<Rightarrow> [w] | None \<Rightarrow> []) st else st) in
        and_then (if nd_kind n = ''expansion'' then visit_expansion n st else Inr st) (\<lambda>st.
        and_then (if nd_kind n = ''heredoc_redirect'' then visit_heredoc h n st else Inr st) (\<lambda>st.
        and_then (if nd_kind n = ''command'' then visit_command h nested n st else Inr st) (\<lambda>st.
        let st = (if nd_kind n \<in> {''variable_assignment'', ''file_redirect'', ''simple_expansion'', ''command_substitution''}
                  then not_simple st else st) in
        if nd_kind n \<in> {''pipeline'', ''file_redirect'', ''list''} \<and>
           list_ex (\<lambda>c. \<not> nd_named c \<and> nd_text c \<in> set refused_operators) (nd_children n)
        then Inl (lit ''unsupported non-POSIX shell operator'')
        else Inr st)))))"

fun visit :: "shell_host \<Rightarrow> (rstring \<Rightarrow> shell_state \<Rightarrow> (rstring, shell_state) result) \<Rightarrow>
    nat \<Rightarrow> node \<Rightarrow> shell_state \<Rightarrow> (rstring, shell_state) result"
  and visit_all :: "shell_host \<Rightarrow> (rstring \<Rightarrow> shell_state \<Rightarrow> (rstring, shell_state) result) \<Rightarrow>
    nat \<Rightarrow> node list \<Rightarrow> shell_state \<Rightarrow> (rstring, shell_state) result" where
  "visit h nested depth (Node k named broken f t children) st =
     and_then (visit_node h nested depth (Node k named broken f t children) st)
       (visit_all h nested (depth + 1) children)"
| "visit_all h nested depth [] st = Inr st"
| "visit_all h nested depth (n # ns) st =
     (if nd_named n then and_then (visit h nested depth n st) (visit_all h nested depth ns)
      else visit_all h nested depth ns st)"

primrec parse_script :: "shell_host \<Rightarrow> nat \<Rightarrow> rstring \<Rightarrow> shell_state \<Rightarrow> (rstring, shell_state) result" where
  "parse_script h 0 source st = Inl (lit ''empty script or shell analysis byte/nesting limit exceeded'')"
| "parse_script h (Suc levels) source st =
     (if blank source \<or> max_bytes < str_len source
      then Inl (lit ''empty script or shell analysis byte/nesting limit exceeded'')
      else if \<not> sh_available h then Inl (lit ''shell parser unavailable'')
      else case sh_parse h source of
        None \<Rightarrow> Inl (lit ''shell analysis time limit exceeded'')
      | Some (has_error, root) \<Rightarrow>
          if has_error
          then Inl (lit ''invalid or unsupported shell syntax (including incomplete heredoc)'')
          else let st = (case named_children root of
                           [n] \<Rightarrow> if nd_kind n \<noteq> ''command'' then not_simple st else st
                         | _ \<Rightarrow> not_simple st)
               in visit h (parse_script h levels) 0 root st)"

text \<open>The nesting depth runs from 0 to 8: nine levels.\<close>

definition analyze :: "shell_host \<Rightarrow> rstring \<Rightarrow> analysis" where
  "analyze h source =
     and_then (parse_script h 9 source \<lparr>sw_words = [], sw_simple = True, sw_remaining = max_nodes\<rparr>)
       (\<lambda>st. Inr (sw_words st, sw_simple st))"

section \<open>What an accepted script consists of\<close>

text \<open>The nodes the walk meets in one tree, and the scripts that the commands of a tree hand to a shell.\<close>

fun subnodes :: "node \<Rightarrow> node list" where
  "subnodes (Node kind named broken field t children) =
     Node kind named broken field t children #
       concat (map (\<lambda>c. if nd_named c then subnodes c else []) children)"

definition hands_script :: "shell_host \<Rightarrow> node \<Rightarrow> rstring \<Rightarrow> bool" where
  "hands_script h n script \<longleftrightarrow> nd_kind n = ''command'' \<and>
     (\<exists>argv i a. command_argv h n = Inr argv \<and> i < length argv \<and> argv ! i = Some a \<and>
        base_name a \<in> set shells \<and> (i = 0 \<or> base_name (the (hd argv)) \<in> set forwarders) \<and>
        i + 2 < length argv \<and> argv ! (i + 2) = Some script)"

inductive reached :: "shell_host \<Rightarrow> rstring \<Rightarrow> node \<Rightarrow> bool" for h :: shell_host where
  reached_node: "sh_parse h source = Some (e, root) \<Longrightarrow> n \<in> set (subnodes root) \<Longrightarrow> reached h source n"
| reached_script: "sh_parse h source = Some (e, root) \<Longrightarrow> n \<in> set (subnodes root) \<Longrightarrow>
    hands_script h n script \<Longrightarrow> reached h script m \<Longrightarrow> reached h source m"

definition dynamic_kinds :: "string list" where
  "dynamic_kinds = [''test_command'', ''expansion'', ''heredoc_redirect'', ''variable_assignment'',
     ''file_redirect'', ''simple_expansion'', ''command_substitution'']"

text \<open>A shell among the arguments is always given a literal script.\<close>

definition shells_fed :: "rstring \<Rightarrow> rstring option list \<Rightarrow> bool" where
  "shells_fed base argv \<longleftrightarrow> (\<forall>i a. i < length argv \<and> argv ! i = Some a \<and> base_name a \<in> set shells \<and>
     (i = 0 \<or> base \<in> set forwarders) \<longrightarrow>
     i + 2 < length argv \<and> argv ! (i + 2) \<noteq> None \<and> is_some_and (argv ! (i + 1)) script_flag)"

definition command_ok :: "rstring list \<Rightarrow> bool \<Rightarrow> rstring option list \<Rightarrow> bool" where
  "command_ok words simple argv \<longleftrightarrow>
     (let base = base_name (the (hd argv)) in
      set (literals argv) \<subseteq> set words \<and> base \<notin> lit ` {''eval'', ''.'', ''source''} \<and>
      (base \<in> set forwarders \<longrightarrow> None \<notin> set argv) \<and> (simple \<longrightarrow> None \<notin> set argv) \<and> shells_fed base argv)"

definition node_ok :: "shell_host \<Rightarrow> shell_state \<Rightarrow> node \<Rightarrow> bool" where
  "node_ok h st n \<longleftrightarrow> \<not> nd_broken n \<and> nd_kind n \<in> set node_kinds \<and>
     (sw_simple st \<longrightarrow> nd_kind n \<notin> set dynamic_kinds) \<and>
     (nd_kind n = ''command'' \<longrightarrow>
        (\<exists>argv. command_argv h n = Inr argv \<and> command_ok (sw_words st) (sw_simple st) argv))"

definition covered :: "shell_host \<Rightarrow> rstring \<Rightarrow> shell_state \<Rightarrow> bool" where
  "covered h source st \<longleftrightarrow> (\<forall>n. reached h source n \<longrightarrow> node_ok h st n)"

text \<open>The words the commands of a tree contribute.\<close>

definition command_words :: "shell_host \<Rightarrow> node \<Rightarrow> rstring list" where
  "command_words h n = (if nd_kind n = ''command''
     then case command_argv h n of Inr argv \<Rightarrow> literals argv | Inl _ \<Rightarrow> [] else [])"

lemma command_words_command:
  "nd_kind n = ''command'' \<Longrightarrow> command_argv h n = Inr argv \<Longrightarrow> command_words h n = literals argv"
  by (simp add: command_words_def)

lemma push_words_words: "sw_words (push_words ws st) = sw_words st @ ws"
  by (simp add: push_words_def)

abbreviation subnodes_all :: "node list \<Rightarrow> node list" where
  "subnodes_all ns \<equiv> concat (map (\<lambda>c. if nd_named c then subnodes c else []) ns)"

text \<open>How the threaded state may grow.\<close>

definition ext :: "shell_state \<Rightarrow> shell_state \<Rightarrow> bool" where
  "ext st st' \<longleftrightarrow> prefix (sw_words st) (sw_words st') \<and> (sw_simple st' \<longrightarrow> sw_simple st) \<and>
     sw_remaining st' \<le> sw_remaining st"

lemma ext_refl [simp]: "ext st st"
  by (simp add: ext_def)

lemma ext_trans [trans]: "ext a b \<Longrightarrow> ext b c \<Longrightarrow> ext a c"
  by (auto simp: ext_def)

lemma ext_intros [intro, simp]:
  "ext st (push_words ws st)" "ext st (not_simple st)" "ext st (st\<lparr>sw_remaining := sw_remaining st - 1\<rparr>)"
  by (simp_all add: ext_def push_words_def not_simple_def)

lemma node_ok_mono: "node_ok h st n \<Longrightarrow> ext st st' \<Longrightarrow> node_ok h st' n"
  by (auto simp: node_ok_def ext_def command_ok_def Let_def dest: set_mono_prefix)

lemma covered_mono: "covered h s st \<Longrightarrow> ext st st' \<Longrightarrow> covered h s st'"
  by (auto simp: covered_def intro: node_ok_mono)

lemma visit_test_ext: "visit_test n st = Inr st' \<Longrightarrow> ext st st' \<and> \<not> sw_simple st'"
  by (auto simp: visit_test_def ext_def push_words_def not_simple_def split: if_splits)

lemma visit_expansion_ext: "visit_expansion n st = Inr st' \<Longrightarrow> ext st st' \<and> \<not> sw_simple st'"
  by (auto simp: visit_expansion_def ext_def not_simple_def split: if_splits)

lemma visit_heredoc_ext: "visit_heredoc h n st = Inr st' \<Longrightarrow> ext st st' \<and> \<not> sw_simple st'"
  by (auto simp: visit_heredoc_def and_then_Inr ext_def not_simple_def split: if_splits)

lemma visit_node_steps:
  assumes "visit_node h nested depth n st = Inr st'"
  obtains st1 st2 st3 st4 st5 st6 where
    "\<not> max_depth < depth" "sw_remaining st \<noteq> 0" "\<not> nd_broken n" "nd_kind n \<in> set node_kinds"
    "st1 = st\<lparr>sw_remaining := sw_remaining st - 1\<rparr>"
    "(if nd_kind n = ''test_command'' then visit_test n st1 else Inr st1) = Inr st2"
    "st3 = (if \<not> sw_simple st2 \<and> nd_kind n \<in> {''word'', ''raw_string'', ''string'', ''concatenation''}
       then push_words (case literal_word h n of Some w \<Rightarrow> [w] | None \<Rightarrow> []) st2 else st2)"
    "(if nd_kind n = ''expansion'' then visit_expansion n st3 else Inr st3) = Inr st4"
    "(if nd_kind n = ''heredoc_redirect'' then visit_heredoc h n st4 else Inr st4) = Inr st5"
    "(if nd_kind n = ''command'' then visit_command h nested n st5 else Inr st5) = Inr st6"
    "st' = (if nd_kind n \<in> {''variable_assignment'', ''file_redirect'', ''simple_expansion'', ''command_substitution''}
       then not_simple st6 else st6)"
  using assms that
  unfolding visit_node_def Let_def if_Inl_Inr and_then_Inr sum.inject(2) by blast

text \<open>What the walk over a list of nodes leaves behind.\<close>

definition walked :: "shell_host \<Rightarrow> node list \<Rightarrow> shell_state \<Rightarrow> shell_state \<Rightarrow> bool" where
  "walked h ns st st' \<longleftrightarrow> ext st st' \<and>
     (\<forall>m \<in> set ns. node_ok h st' m \<and> (\<forall>script. hands_script h m script \<longrightarrow> covered h script st')) \<and>
     (sw_simple st' \<longrightarrow> sw_words st' = sw_words st @ concat (map (command_words h) ns)) \<and>
     sw_remaining st' + length ns \<le> sw_remaining st"

lemma walked_append:
  assumes a: "walked h a st st1" and b: "walked h b st1 st2"
  shows "walked h (a @ b) st st2"
proof -
  have e: "ext st st1" "ext st1 st2" using a b by (auto simp: walked_def)
  have "sw_simple st2 \<longrightarrow> sw_simple st1" using e by (simp add: ext_def)
  then have "sw_simple st2 \<longrightarrow> sw_words st2 = sw_words st @ concat (map (command_words h) (a @ b))"
    using a b by (simp add: walked_def)
  moreover have "\<forall>m \<in> set a. node_ok h st2 m \<and> (\<forall>script. hands_script h m script \<longrightarrow> covered h script st2)"
    using a e node_ok_mono covered_mono unfolding walked_def by blast
  moreover have "sw_remaining st2 + length (a @ b) \<le> sw_remaining st"
    using a b by (simp add: walked_def)
  ultimately show ?thesis
    using b ext_trans [OF e] unfolding walked_def by auto
qed

section \<open>The interface of nested scripts\<close>

text \<open>
  What one level of the analysis needs from the next one, the analysis of a script handed to a shell:
  it only extends the state, and it has covered the script when it succeeds.
\<close>

declare scan_argv.simps(3) [simp del]

locale nested_analysis =
  fixes h :: shell_host
    and nested :: "rstring \<Rightarrow> shell_state \<Rightarrow> (rstring, shell_state) result"
  assumes nested_ext: "nested s st = Inr st' \<Longrightarrow> ext st st'"
    and nested_covers: "nested s st = Inr st' \<Longrightarrow> covered h s st'"
begin

lemma scan_argv_step:
  assumes "scan_argv nested base first (Some arg # rest) st = Inr st'"
    and "base_name arg \<in> set shells" "first \<or> base \<in> set forwarders"
  obtains f script tail st1 where "rest = Some f # Some script # tail" "script_flag f"
    "nested script (not_simple st) = Inr st1" "scan_argv nested base False rest st1 = Inr st'"
proof -
  define flag where "flag = (case rest of Some f # _ \<Rightarrow> f | _ \<Rightarrow> [])"
  from assms have s: "script_flag flag" "(case drop 1 rest of
          Some script # _ \<Rightarrow> and_then (nested script (not_simple st)) (scan_argv nested base False rest)
        | _ \<Rightarrow> Inl (lit ''dynamic shell -c script cannot be assessed'')) = Inr st'"
    by (simp_all only: scan_argv.simps(3) Let_def flag_def de_Morgan_disj not_not simp_thms if_False if_True
        if_Inl_Inr split: if_splits)
  have "flag \<noteq> []" using s(1) by (auto simp: script_flag_def lit_def)
  then obtain f tail where r: "rest = Some f # tail" "flag = f"
    by (auto simp: flag_def split: list.splits option.splits)
  with s(2) obtain script tail' st1 where "tail = Some script # tail'"
    "nested script (not_simple st) = Inr st1" "scan_argv nested base False rest st1 = Inr st'"
    by (auto simp: and_then_Inr split: list.splits option.splits)
  with r s(1) that show thesis by blast
qed

lemma scan_argv_skip:
  "scan_argv nested base first (a # rest) st = Inr st' \<Longrightarrow>
     (\<And>arg. a = Some arg \<Longrightarrow> base_name arg \<notin> set shells \<or> \<not> (first \<or> base \<in> set forwarders)) \<Longrightarrow>
     scan_argv nested base False rest st = Inr st'"
  by (cases a) (auto simp: scan_argv.simps(3) simp del: scan_argv.simps(1))

lemma scan_argv_ext: "scan_argv nested base first argv st = Inr st' \<Longrightarrow> ext st st'"
proof (induction argv arbitrary: first st)
  case (Cons a rest)
  show ?case
  proof (cases "\<exists>arg. a = Some arg \<and> base_name arg \<in> set shells \<and> (first \<or> base \<in> set forwarders)")
    case True
    with Cons.prems obtain script st1 where
      "nested script (not_simple st) = Inr st1" "scan_argv nested base False rest st1 = Inr st'"
      by (auto elim: scan_argv_step)
    then show ?thesis
      using Cons.IH [of False st1] nested_ext ext_trans ext_intros(2) by blast
  next
    case False
    then have "scan_argv nested base False rest st = Inr st'"
      by (intro scan_argv_skip [OF Cons.prems]) auto
    then show ?thesis by (rule Cons.IH)
  qed
qed simp

text \<open>A walk that stays simple has met no shell.\<close>

lemma scan_argv_simple:
  "scan_argv nested base first argv st = Inr st' \<Longrightarrow> sw_simple st' \<Longrightarrow> st' = st"
proof (induction argv arbitrary: first st)
  case (Cons a rest)
  show ?case
  proof (cases "\<exists>arg. a = Some arg \<and> base_name arg \<in> set shells \<and> (first \<or> base \<in> set forwarders)")
    case True
    with Cons.prems(1) obtain script st1 where
      "nested script (not_simple st) = Inr st1" "scan_argv nested base False rest st1 = Inr st'"
      by (auto elim: scan_argv_step)
    then have "ext (not_simple st) st'"
      using scan_argv_ext nested_ext ext_trans by blast
    with Cons.prems(2) show ?thesis by (simp add: ext_def not_simple_def)
  next
    case False
    then have "scan_argv nested base False rest st = Inr st'"
      by (intro scan_argv_skip [OF Cons.prems(1)]) auto
    then show ?thesis using Cons.prems(2) by (rule Cons.IH)
  qed
qed simp

lemma scan_argv_fed:
  assumes "scan_argv nested base first argv st = Inr st'"
    and "i < length argv" "argv ! i = Some a" "base_name a \<in> set shells"
      "i = 0 \<and> first \<or> base \<in> set forwarders"
  shows "\<exists>script. i + 2 < length argv \<and> argv ! (i + 2) = Some script \<and>
    is_some_and (argv ! (i + 1)) script_flag \<and> covered h script st'"
  using assms
proof (induction argv arbitrary: first st i)
  case (Cons b rest)
  show ?case
  proof (cases i)
    case 0
    then have "b = Some a" "first \<or> base \<in> set forwarders" using Cons.prems by auto
    then obtain f script tail st1 where "rest = Some f # Some script # tail" "script_flag f"
      "nested script (not_simple st) = Inr st1" "scan_argv nested base False rest st1 = Inr st'"
      using Cons.prems(1,4) by (blast elim: scan_argv_step)
    with 0 show ?thesis
      using nested_covers scan_argv_ext covered_mono by fastforce
  next
    case (Suc j)
    then have base: "base \<in> set forwarders" using Cons.prems(5) by simp
    obtain st1 where "scan_argv nested base False rest st1 = Inr st'"
    proof (cases "\<exists>arg. b = Some arg \<and> base_name arg \<in> set shells \<and> (first \<or> base \<in> set forwarders)")
      case True
      with Cons.prems(1) that show thesis by (auto elim: scan_argv_step)
    next
      case False
      then have "scan_argv nested base False rest st = Inr st'"
        by (intro scan_argv_skip [OF Cons.prems(1)]) auto
      with that show thesis .
    qed
    from Cons.IH [OF this, of j] base Cons.prems(2-4) Suc show ?thesis by auto
  qed
qed simp

lemma visit_command_Inr:
  assumes "visit_command h nested n st = Inr st'"
  obtains argv st1 where "command_argv h n = Inr argv" "ext (push_words (literals argv) st) st'"
    "command_ok (sw_words st') (sw_simple st') argv"
    "\<forall>script. hands_script h n script \<longrightarrow> covered h script st'"
    "sw_simple st' \<longrightarrow> st' = push_words (literals argv) st"
proof -
  obtain argv where argv: "command_argv h n = Inr argv"
    using assms by (auto simp: visit_command_def and_then_Inr)
  define base where "base = base_name (the (hd argv))"
  define st1 where "st1 = (if None \<in> set argv then not_simple (push_words (literals argv) st)
    else push_words (literals argv) st)"
  have s: "base \<notin> lit ` {''eval'', ''.'', ''source''}" "base \<in> set forwarders \<longrightarrow> None \<notin> set argv"
    and scan: "scan_argv nested base True argv st1 = Inr st'"
    using assms argv unfolding visit_command_def base_def st1_def
    by (auto simp: Let_def split: if_splits)
  have e1: "ext (push_words (literals argv) st) st1" by (simp add: st1_def)
  have e: "ext st1 st'" by (rule scan_argv_ext [OF scan])
  have "set (literals argv) \<subseteq> set (sw_words st')"
    using set_mono_prefix [of "sw_words (push_words (literals argv) st)" "sw_words st'"] ext_trans [OF e1 e]
    by (auto simp: ext_def push_words_def)
  moreover have "sw_simple st' \<longrightarrow> None \<notin> set argv"
    using e by (auto simp: ext_def st1_def not_simple_def)
  moreover have "shells_fed base argv"
    unfolding shells_fed_def
  proof (intro allI impI)
    fix i a
    assume "i < length argv \<and> argv ! i = Some a \<and> base_name a \<in> set shells \<and> (i = 0 \<or> base \<in> set forwarders)"
    then show "i + 2 < length argv \<and> argv ! (i + 2) \<noteq> None \<and> is_some_and (argv ! (i + 1)) script_flag"
      using scan_argv_fed [OF scan, of i a] by auto
  qed
  ultimately have "command_ok (sw_words st') (sw_simple st') argv"
    using s by (simp add: command_ok_def base_def [symmetric])
  moreover have "\<forall>script. hands_script h n script \<longrightarrow> covered h script st'"
  proof (intro allI impI)
    fix script
    assume "hands_script h n script"
    then obtain i a where "i < length argv" "argv ! i = Some a" "base_name a \<in> set shells"
      "i = 0 \<or> base \<in> set forwarders" "argv ! (i + 2) = Some script"
      by (auto simp: hands_script_def argv base_def)
    then show "covered h script st'" using scan_argv_fed [OF scan, of i a] by auto
  qed
  moreover have "sw_simple st' \<longrightarrow> st' = push_words (literals argv) st"
    using scan_argv_simple [OF scan] by (auto simp: st1_def not_simple_def)
  ultimately show thesis using that argv ext_trans [OF e1 e] by blast
qed

lemma visit_node_Inr:
  assumes "visit_node h nested depth n st = Inr st'"
  shows "ext st st'" "node_ok h st' n" "hands_script h n script \<Longrightarrow> covered h script st'"
    "sw_simple st' \<Longrightarrow> sw_words st' = sw_words st @ command_words h n"
    "sw_remaining st' < sw_remaining st" "depth \<le> max_depth"
proof -
  from assms obtain st1 st2 st3 st4 st5 st6 where s:
    "\<not> max_depth < depth" "sw_remaining st \<noteq> 0" "\<not> nd_broken n" "nd_kind n \<in> set node_kinds"
    "st1 = st\<lparr>sw_remaining := sw_remaining st - 1\<rparr>"
    "(if nd_kind n = ''test_command'' then visit_test n st1 else Inr st1) = Inr st2"
    "st3 = (if \<not> sw_simple st2 \<and> nd_kind n \<in> {''word'', ''raw_string'', ''string'', ''concatenation''}
       then push_words (case literal_word h n of Some w \<Rightarrow> [w] | None \<Rightarrow> []) st2 else st2)"
    "(if nd_kind n = ''expansion'' then visit_expansion n st3 else Inr st3) = Inr st4"
    "(if nd_kind n = ''heredoc_redirect'' then visit_heredoc h n st4 else Inr st4) = Inr st5"
    "(if nd_kind n = ''command'' then visit_command h nested n st5 else Inr st5) = Inr st6"
    "st' = (if nd_kind n \<in> {''variable_assignment'', ''file_redirect'', ''simple_expansion'', ''command_substitution''}
       then not_simple st6 else st6)"
    by (rule visit_node_steps)
  have e1: "ext st st1" using s(5) by (simp add: ext_def)
  have e2: "ext st1 st2" "nd_kind n = ''test_command'' \<Longrightarrow> \<not> sw_simple st2"
    using s(6) visit_test_ext [of n st1 st2] by (auto split: if_splits)
  have e3: "ext st2 st3" using s(7) by simp
  have e4: "ext st3 st4" "nd_kind n = ''expansion'' \<Longrightarrow> \<not> sw_simple st4"
    using s(8) visit_expansion_ext [of n st3 st4] by (auto split: if_splits)
  have e5: "ext st4 st5" "nd_kind n = ''heredoc_redirect'' \<Longrightarrow> \<not> sw_simple st5"
    using s(9) visit_heredoc_ext [of h n st4 st5] by (auto split: if_splits)
  have e7: "ext st6 st'" using s(11) by simp
  have cmd: "nd_kind n = ''command'' \<Longrightarrow> visit_command h nested n st5 = Inr st6"
    "nd_kind n \<noteq> ''command'' \<Longrightarrow> st6 = st5" using s(10) by (auto split: if_splits)
  have e6: "ext st5 st6"
    using cmd ext_trans [OF ext_intros(1)] by (metis ext_refl visit_command_Inr)
  have e15: "ext st1 st5" and e16: "ext st1 st6"
    using e2 e3 e4 e5 e6 ext_trans by blast+
  show e: "ext st st'" using e1 e16 e7 ext_trans by blast
  show "sw_remaining st' < sw_remaining st"
    using e16 e7 s(2,5) by (auto simp: ext_def)
  show "depth \<le> max_depth" using s(1) by simp
  have dyn: "sw_simple st' \<longrightarrow> nd_kind n \<notin> set dynamic_kinds"
    using s(11) e2(2) e4(2) e5(2) e3 e4(1) e5(1) e6 e7
    by (auto simp: dynamic_kinds_def ext_def not_simple_def)
  have c: "nd_kind n = ''command'' \<Longrightarrow> st' = st6" using s(11) by simp
  show "node_ok h st' n"
    unfolding node_ok_def
    using s(3,4) dyn c cmd(1) by (auto elim!: visit_command_Inr)
  show "covered h script st'" if "hands_script h n script"
  proof -
    have "nd_kind n = ''command''" using that by (simp add: hands_script_def)
    with c cmd(1) that show ?thesis by (auto elim!: visit_command_Inr)
  qed
  show "sw_words st' = sw_words st @ command_words h n" if simple: "sw_simple st'"
  proof -
    have all: "sw_simple st6" "sw_simple st5" "sw_simple st2"
      using simple e3 e4(1) e5(1) e6 e7 by (auto simp: ext_def)
    have "st5 = st1"
      using s(6-9) dyn simple all by (auto simp: dynamic_kinds_def)
    moreover have "st' = st6" using s(11) dyn simple by (auto simp: dynamic_kinds_def)
    moreover have "sw_words st6 = sw_words st5 @ command_words h n"
    proof (cases "nd_kind n = ''command''")
      case True
      from visit_command_Inr [OF cmd(1) [OF True]] all(1) show ?thesis
        using True by (metis (no_types, lifting) command_words_command push_words_words)
    qed (simp add: cmd(2) command_words_def)
    ultimately show ?thesis using s(5) by simp
  qed
qed

lemma walked_node:
  assumes "visit_node h nested depth n st = Inr st'"
  shows "walked h [n] st st'"
  using visit_node_Inr [OF assms] by (simp add: walked_def)

lemma visit_all_walked:
  assumes "\<And>n st st'. n \<in> set ns \<Longrightarrow> visit h nested depth n st = Inr st' \<Longrightarrow> walked h (subnodes n) st st'"
    and "visit_all h nested depth ns st = Inr st'"
  shows "walked h (subnodes_all ns) st st'"
  using assms
proof (induction ns arbitrary: st)
  case (Cons n ns)
  show ?case
  proof (cases "nd_named n")
    case True
    with Cons.prems(2) obtain st1 where "visit h nested depth n st = Inr st1"
      "visit_all h nested depth ns st1 = Inr st'"
      by (auto simp: and_then_Inr)
    moreover have "walked h (subnodes_all ns) st1 st'"
      by (rule Cons.IH) (use Cons.prems(1) calculation(2) in auto)
    moreover have "walked h (subnodes n) st st1"
      by (rule Cons.prems(1)) (use calculation(1) in auto)
    ultimately show ?thesis using True by (auto intro: walked_append)
  qed (use Cons in auto)
qed (simp add: walked_def)

lemma visit_walked: "visit h nested depth n st = Inr st' \<Longrightarrow> walked h (subnodes n) st st'"
proof (induction n arbitrary: depth st st')
  case (Node kind named broken f t children)
  then obtain st1 where "visit_node h nested depth (Node kind named broken f t children) st = Inr st1"
    "visit_all h nested (depth + 1) children st1 = Inr st'"
    by (auto simp: and_then_Inr)
  from walked_append [OF walked_node [OF this(1)] visit_all_walked [OF Node.IH this(2)]]
  show ?case by simp
qed

end

text \<open>Every level of the analysis provides the interface to the level above it.\<close>

lemma parse_script_Inr:
  assumes "nested_analysis h (parse_script h levels)" "parse_script h (Suc levels) source st = Inr st'"
  obtains root st1 where "sh_parse h source = Some (False, root)" "walked h (subnodes root) st1 st'"
    "ext st st1" "sw_words st1 = sw_words st"
    "sw_simple st1 \<longrightarrow> st1 = st \<and> (\<exists>n. named_children root = [n] \<and> nd_kind n = ''command'')"
proof -
  obtain root where r: "sh_parse h source = Some (False, root)"
    and v: "visit h (parse_script h levels) 0 root (case named_children root of
        [n] \<Rightarrow> if nd_kind n \<noteq> ''command'' then not_simple st else st
      | _ \<Rightarrow> not_simple st) = Inr st'"
    using assms(2) by (auto split: if_splits option.splits simp: Let_def)
  have "walked h (subnodes root) (case named_children root of
        [n] \<Rightarrow> if nd_kind n \<noteq> ''command'' then not_simple st else st
      | _ \<Rightarrow> not_simple st) st'"
    by (rule nested_analysis.visit_walked [OF assms(1) v])
  with r show thesis
    by (rule that) (auto simp: not_simple_def ext_def split: list.splits)
qed

lemma nested_analysis_levels: "nested_analysis h (parse_script h levels)"
proof (induction levels)
  case 0
  show ?case by unfold_locales simp_all
next
  case (Suc levels)
  show ?case
  proof
    fix s st st'
    assume "parse_script h (Suc levels) s st = Inr st'"
    then obtain root st1 where r: "sh_parse h s = Some (False, root)" "walked h (subnodes root) st1 st'" "ext st st1"
      by (rule parse_script_Inr [OF Suc])
    then show "ext st st'" unfolding walked_def using ext_trans by blast
    show "covered h s st'"
      unfolding covered_def
    proof (intro allI impI)
      fix n
      assume "reached h s n"
      then show "node_ok h st' n"
        by cases (use r in \<open>auto simp: walked_def covered_def\<close>)
    qed
  qed
qed

interpretation levels: nested_analysis h "parse_script h n" for h n
  by (rule nested_analysis_levels)

lemma analyze_Inr:
  assumes "analyze h source = Inr (words, simple)"
  obtains root st where "sh_parse h source = Some (False, root)" "covered h source st"
    "sw_words st = words" "sw_simple st = simple" "length (subnodes root) \<le> max_nodes"
    "simple \<longrightarrow> words = concat (map (command_words h) (subnodes root)) \<and>
       (\<exists>n. named_children root = [n] \<and> nd_kind n = ''command'')"
proof -
  define st0 where "st0 = \<lparr>sw_words = [], sw_simple = True, sw_remaining = max_nodes\<rparr>"
  obtain st where p: "parse_script h (Suc 8) source st0 = Inr st" "sw_words st = words" "sw_simple st = simple"
    using assms unfolding analyze_def st0_def by (auto simp: and_then_Inr simp del: parse_script.simps)
  obtain root st1 where r: "sh_parse h source = Some (False, root)" "walked h (subnodes root) st1 st"
    "ext st0 st1" "sw_words st1 = sw_words st0"
    "sw_simple st1 \<longrightarrow> st1 = st0 \<and> (\<exists>n. named_children root = [n] \<and> nd_kind n = ''command'')"
    by (rule parse_script_Inr [OF nested_analysis_levels p(1)])
  have c: "covered h source st"
    using levels.nested_covers [of h "Suc 8"] p(1) by (simp del: parse_script.simps)
  have "length (subnodes root) \<le> max_nodes"
    using r(2,3) by (simp add: walked_def ext_def st0_def)
  moreover have "simple \<longrightarrow> words = concat (map (command_words h) (subnodes root)) \<and>
       (\<exists>n. named_children root = [n] \<and> nd_kind n = ''command'')"
  proof
    assume "simple"
    with p(3) r(2) have "sw_simple st1" "sw_words st = sw_words st1 @ concat (map (command_words h) (subnodes root))"
      by (auto simp: walked_def ext_def)
    with r(4,5) p(2) show "words = concat (map (command_words h) (subnodes root)) \<and>
       (\<exists>n. named_children root = [n] \<and> nd_kind n = ''command'')"
      by (simp add: st0_def)
  qed
  ultimately show thesis using that r(1) c p(2,3) by blast
qed

section \<open>An example parser\<close>




text \<open>
  A shell among the arguments of a program that is no shell and not one of the seven forwarding programs, such
  as \<open>nohup\<close> or \<open>find\<close>, is passed over with the script it is given.
\<close>

lemma scan_argv_passes_over: "base \<notin> set forwarders \<Longrightarrow> scan_argv nested base False argv st = Inr st"
proof (induction argv)
  case (Cons a argv)
  then show ?case by (cases a) (simp_all add: scan_argv.simps(3))
qed simp

lemma shell_behind_other_program_unseen:
  assumes "command_argv h n = Inr (Some program # argv)" "base_name program \<notin> set forwarders" "base_name program \<notin> set shells"
    "base_name program \<notin> lit ` {''eval'', ''.'', ''source''}"
  shows "is_ok (visit_command h nested n st)"
  using assms scan_argv_passes_over [OF assms(2)]
  by (simp add: visit_command_def scan_argv.simps(3) Let_def)

section \<open>Properties\<close>



text \<open>Under approval, a command that runs without asking is one command: the tree has a single
  named child, a command; no node is an expansion, a substitution, a redirection, an assignment, a
  test or a here document; every argument is literal, no program among them is one known to change
  things; and the first word names a program kept for inspection.\<close>

theorem unasked_command_is_one_literal_command:
  assumes "command_decision Approval command (analyze h command) = Dec_Allow"
  shows "\<exists>root c words. sh_parse h command = Some (False, root) \<and> named_children root = [c] \<and>
    nd_kind c = ''command'' \<and> words = concat (map (command_words h) (subnodes root)) \<and>
    (\<exists>n. program_name (hd words) = Some n \<and> n \<in> inspection_heads) \<and>
    (\<forall>n. reached h command n \<longrightarrow> nd_kind n \<notin> set dynamic_kinds \<and>
      (nd_kind n = ''command'' \<longrightarrow> (\<exists>argv. command_argv h n = Inr argv \<and>
         (\<forall>a \<in> set argv. \<exists>w. a = Some w \<and> w \<in> set words \<and> program_name w \<notin> Some ` set mutating))))"
proof -
  obtain words where w: "analyze h command = Inr (words, True)" "\<not> looks_risky command words"
    using assms
    by (auto simp: command_decision_def Let_def split: sum.splits bool.splits prod.splits)
  obtain root st where a: "sh_parse h command = Some (False, root)" "covered h command st"
    "sw_words st = words" "sw_simple st" "words = concat (map (command_words h) (subnodes root))"
    "\<exists>n. named_children root = [n] \<and> nd_kind n = ''command''"
    using w(1) by (rule analyze_Inr) auto
  from w(2) have quiet: "\<forall>w \<in> set words. program_name w \<notin> Some ` set mutating"
    and ro: "confidently_read_only command words"
    unfolding looks_risky_def list_ex_iff by (auto simp: is_some_and_def)
  have "nd_kind n \<notin> set dynamic_kinds \<and>
      (nd_kind n = ''command'' \<longrightarrow> (\<exists>argv. command_argv h n = Inr argv \<and>
         (\<forall>a \<in> set argv. \<exists>w. a = Some w \<and> w \<in> set words \<and> program_name w \<notin> Some ` set mutating)))"
    if "reached h command n" for n
  proof -
    have ok: "node_ok h st n" using a(2) that by (simp add: covered_def)
    have "\<exists>w. x = Some w \<and> w \<in> set words \<and> program_name w \<notin> Some ` set mutating"
      if cok: "command_ok words True argv" "x \<in> set argv" for argv x
    proof -
      obtain w where x: "x = Some w"
        using cok by (cases x) (auto simp: command_ok_def Let_def)
      with cok have "w \<in> set (literals argv)" "set (literals argv) \<subseteq> set words"
        by (force simp: literals_def, simp add: command_ok_def Let_def)
      with x quiet show ?thesis by blast
    qed
    with ok a(3,4) show ?thesis unfolding node_ok_def by metis
  qed
  with a confidently_read_only_program [OF ro] show ?thesis by blast
qed

end
