(* ===== verification/Cycles.thy ===== *)
theory Cycles
  imports Main
begin

text \<open>
  Cycles of a relation, as the dependency graph of the todo list and the parent relation of the
  agent tree both need them.
\<close>

text \<open>A node from which a cycle can be reached.\<close>

definition reaches_cycle :: "('a \<times> 'a) set \<Rightarrow> 'a \<Rightarrow> bool" where
  "reaches_cycle E i \<longleftrightarrow> (\<exists>x. (i, x) \<in> E\<^sup>* \<and> (x, x) \<in> E\<^sup>+)"

lemma reaches_cycle_step: "reaches_cycle E i \<longleftrightarrow> (\<exists>d. (i, d) \<in> E \<and> reaches_cycle E d)"
proof
  assume "reaches_cycle E i"
  then obtain x where x: "(i, x) \<in> E\<^sup>*" "(x, x) \<in> E\<^sup>+"
    by (auto simp: reaches_cycle_def)
  then have "(i, x) \<in> E\<^sup>+" by (meson rtrancl_trancl_trancl)
  then obtain d where "(i, d) \<in> E" "(d, x) \<in> E\<^sup>*" by (meson tranclD)
  with x(2) show "\<exists>d. (i, d) \<in> E \<and> reaches_cycle E d" by (auto simp: reaches_cycle_def)
next
  assume "\<exists>d. (i, d) \<in> E \<and> reaches_cycle E d"
  then show "reaches_cycle E i"
    by (auto simp: reaches_cycle_def intro: converse_rtrancl_into_rtrancl)
qed

lemma acyclic_iff_reaches: "acyclic E \<longleftrightarrow> (\<forall>i. \<not> reaches_cycle E i)"
  by (auto simp: acyclic_def reaches_cycle_def)

text \<open>
  Changing the edges that leave one node: a cycle of the new graph that the old one did not have
  passes through that node.
\<close>

lemma trancl_change_node:
  assumes "\<And>a b. (a, b) \<in> E' \<Longrightarrow> a \<noteq> i \<Longrightarrow> (a, b) \<in> E"
    and "(x, y) \<in> E'\<^sup>+"
  shows "(x, y) \<in> E\<^sup>+ \<or> (x, i) \<in> E'\<^sup>* \<and> (i, y) \<in> E'\<^sup>+"
  using assms(2)
proof (induction rule: trancl_induct)
  case (base y)
  then show ?case using assms(1) by blast
next
  case (step y z)
  show ?case
  proof (cases "y = i")
    case True
    with step.hyps show ?thesis by auto
  next
    case False
    with step assms(1) show ?thesis by (blast intro: trancl_into_trancl)
  qed
qed

lemma acyclic_change_node:
  assumes "acyclic E" and "\<And>a b. (a, b) \<in> E' \<Longrightarrow> a \<noteq> i \<Longrightarrow> (a, b) \<in> E"
    and "\<not> reaches_cycle E' i"
  shows "acyclic E'"
proof (rule acyclicI, intro allI notI)
  fix x
  assume "(x, x) \<in> E'\<^sup>+"
  with trancl_change_node [of E' i E] assms(1,2)
  have "(x, i) \<in> E'\<^sup>*" "(i, x) \<in> E'\<^sup>+" by (auto simp: acyclic_def)
  then have "(i, i) \<in> E'\<^sup>+" by (rule trancl_rtrancl_trancl [rotated])
  with assms(3) show False by (auto simp: reaches_cycle_def)
qed

end
