(* ===== verification/Agents.thy ===== *)
theory Agents
  imports Access Rust_Str Paths Ordered_Map Cycles "HOL-Library.Product_Lexorder"
begin

text \<open>
  Child agents: the delegated policy (\<open>voyage/src/subagent/mod.rs\<close>) and the persistent agent tree
  (\<open>voyage/src/subagent/persistence.rs\<close>). A policy passes to a child only when \<open>validate_child\<close>
  accepts it; the tree is a map from identifiers to records whose parents are records of the tree.
\<close>

section \<open>Data\<close>

type_synonym agent_id = uuid

datatype agent_status =
  Queued | Running | Waiting | Agent_Completed | Failed | Agent_Cancelled | Interrupted | TimedOut

fun is_terminal :: "agent_status \<Rightarrow> bool" where
  "is_terminal Queued = False"
| "is_terminal Running = False"
| "is_terminal Waiting = False"
| "is_terminal _ = True"

datatype approval_policy = Inherit | Ask | Approval_Deny

record agent_budget =
  ab_max_tokens :: nat
  ab_max_terminals :: nat

record agent_policy =
  ap_access :: access_mode
  ap_readable_roots :: "path list"
  ap_writable_roots :: "path list"
  ap_allowed_tools :: "rstring list"
  ap_approval :: approval_policy
  ap_budget :: agent_budget

record run_reference =
  rr_session_id :: uuid
  rr_run_id :: uuid

record agent_record =
  ag_completion :: "run_reference option"
  ag_id :: agent_id
  ag_parent :: "agent_id option"
  ag_name :: rstring
  ag_task :: rstring
  ag_status :: agent_status
  ag_policy :: agent_policy
  ag_budget :: agent_budget
  ag_worktree :: "path option"
  ag_branch :: "rstring option"
  ag_created_at :: instant
  ag_started_at :: "instant option"
  ag_finished_at :: "instant option"
  ag_updated_at :: instant
  ag_recent_progress :: "rstring list"
  ag_result :: "rstring option"
  ag_error :: "rstring option"

datatype agent_error =
  AccessExceeds | ToolsExceed | ReadableExceeds | WritableExceeds | BudgetExceeds | ApprovalExceeds |
  UnknownParent | DuplicateAgent | UnknownAgent | TerminalAgent | IdentityMismatch | AgentCycle |
  MissingParent | AgentMissing | SubtreeTooLarge | ActiveWork agent_id | AgentIo | NotRuntimeOwner |
  LiveArchive | BadArchive | ArchiveConflict | RecordTooLarge | BadLimit | CursorStuck | NoSuchCoordinator

section \<open>Delegated authority\<close>

definition allows :: "agent_budget \<Rightarrow> agent_budget \<Rightarrow> bool" where
  "allows p c \<longleftrightarrow>
     (ab_max_tokens p = 0 \<or> (ab_max_tokens c > 0 \<and> ab_max_tokens c \<le> ab_max_tokens p)) \<and>
     ab_max_terminals c \<le> ab_max_terminals p"

text \<open>Zero is no limit.\<close>

definition response_limit :: "agent_budget \<Rightarrow> nat \<Rightarrow> nat" where
  "response_limit b configured =
     (let delegated = min (ab_max_tokens b) u32_max in
      if configured = 0 then delegated
      else if delegated = 0 then configured
      else min configured delegated)"

definition limit_access :: "agent_policy \<Rightarrow> access_mode \<Rightarrow> agent_policy" where
  "limit_access p m = p\<lparr>ap_access := restrict_access (ap_access p) m\<rparr>"

definition validate_child :: "agent_policy \<Rightarrow> agent_policy \<Rightarrow> (agent_error, unit) result" where
  "validate_child p c =
     (if restrict_access (ap_access p) (ap_access c) \<noteq> ap_access c then Inl AccessExceeds
      else if \<not> set (ap_allowed_tools c) \<subseteq> set (ap_allowed_tools p) then Inl ToolsExceed
      else if \<not> list_all (\<lambda>r. within_any r (ap_readable_roots p)) (ap_readable_roots c)
        then Inl ReadableExceeds
      else if \<not> list_all (\<lambda>r. within_any r (ap_writable_roots p)) (ap_writable_roots c)
        then Inl WritableExceeds
      else if \<not> allows (ap_budget p) (ap_budget c) then Inl BudgetExceeds
      else if ap_approval p = Approval_Deny \<and> ap_approval c \<in> {Ask, Inherit} then Inl ApprovalExceeds
      else Inr ())"

definition concurrency_for_cpus :: "nat \<Rightarrow> nat" where
  "concurrency_for_cpus cpus = max (cpus div 2) 1"

text \<open>What a policy lets an agent do, and when one lets it do no more than another.\<close>

definition within_authority :: "agent_policy \<Rightarrow> agent_policy \<Rightarrow> bool" where
  "within_authority c p \<longleftrightarrow>
     ap_access c \<le> ap_access p \<and> set (ap_allowed_tools c) \<subseteq> set (ap_allowed_tools p) \<and>
     roots_le (ap_readable_roots c) (ap_readable_roots p) \<and>
     roots_le (ap_writable_roots c) (ap_writable_roots p) \<and>
     (ab_max_tokens (ap_budget p) > 0 \<longrightarrow>
        0 < ab_max_tokens (ap_budget c) \<and> ab_max_tokens (ap_budget c) \<le> ab_max_tokens (ap_budget p)) \<and>
     ab_max_terminals (ap_budget c) \<le> ab_max_terminals (ap_budget p) \<and>
     (ap_approval p = Approval_Deny \<longrightarrow> ap_approval c = Approval_Deny)"

lemma validate_child_iff: "validate_child p c = Inr () \<longleftrightarrow> within_authority c p"
  by (cases "ap_approval c") (auto simp: validate_child_def within_authority_def allows_def roots_le_iff
      list_all_iff delegated.meet_absorb split: if_splits)

lemma within_authority_refl: "within_authority p p"
  by (auto simp: within_authority_def roots_le_def)

lemma within_authority_trans:
  "within_authority a b \<Longrightarrow> within_authority b c \<Longrightarrow> within_authority a c"
  unfolding within_authority_def roots_le_def by (meson le_trans order_trans subset_trans less_le_trans)

text \<open>Delegation along a chain of spawns.\<close>

inductive delegated_chain :: "agent_policy \<Rightarrow> agent_policy \<Rightarrow> bool" where
  root: "delegated_chain p p"
| spawn: "delegated_chain p q \<Longrightarrow> validate_child q c = Inr () \<Longrightarrow> delegated_chain p c"
| lower: "delegated_chain p q \<Longrightarrow> delegated_chain p (limit_access q m)"

lemma limit_access_within: "within_authority (limit_access p m) p"
  using delegated.meet_le1 within_authority_refl [of p] by (simp add: within_authority_def limit_access_def)

section \<open>The agent tree\<close>

type_synonym agent_tree = "(agent_id, agent_record) bmap"

definition tree_insert :: "agent_record \<Rightarrow> agent_tree \<Rightarrow> (agent_error, agent_tree) result" where
  "tree_insert r t =
     (if \<not> is_none_or (ag_parent r) (bm_contains t) then Inl UnknownParent
      else if bm_contains t (ag_id r) then Inl DuplicateAgent
      else Inr (bm_insert (ag_id r) r t))"

definition tree_transition ::
  "agent_id \<Rightarrow> agent_status \<Rightarrow> rstring option \<Rightarrow> instant \<Rightarrow> agent_tree \<Rightarrow> (agent_error, agent_tree) result" where
  "tree_transition i status err now t =
     and_then (ok_or UnknownAgent (bm_get t i)) (\<lambda>r.
       if is_terminal (ag_status r) then Inl TerminalAgent
       else Inr (bm_update i (\<lambda>r. r\<lparr>ag_status := status, ag_error := err, ag_updated_at := now\<rparr>) t))"

definition restart_message :: rstring where
  "restart_message = lit ''Helm restarted; in-process agent execution did not survive''"

definition lost_on_restart :: "agent_record \<Rightarrow> bool" where
  "lost_on_restart r \<longleftrightarrow> ag_status r \<in> {Queued, Running, Waiting}"

definition recover_record :: "instant \<Rightarrow> agent_record \<Rightarrow> agent_record" where
  "recover_record now r =
     (if lost_on_restart r
      then r\<lparr>ag_status := Interrupted, ag_error := Some restart_message,
             ag_finished_at := Some now, ag_updated_at := now\<rparr>
      else r)"

definition tree_recover :: "instant \<Rightarrow> agent_tree \<Rightarrow> nat \<times> agent_tree" where
  "tree_recover now t =
     (length (filter lost_on_restart (bm_values t)), map (\<lambda>(k, r). (k, recover_record now r)) t)"

definition tree_children :: "agent_tree \<Rightarrow> agent_id \<Rightarrow> agent_record list" where
  "tree_children t p = filter (\<lambda>r. ag_parent r = Some p) (bm_values t)"

definition prunable :: "agent_tree \<Rightarrow> agent_id option \<Rightarrow> agent_record \<Rightarrow> bool" where
  "prunable t protected r \<longleftrightarrow>
     is_terminal (ag_status r) \<and> Some (ag_id r) \<noteq> protected \<and> ag_worktree r = None \<and>
     \<not> list_ex (\<lambda>child. ag_parent child = Some (ag_id r)) (bm_values t)"

definition prune_key :: "agent_record \<Rightarrow> instant \<times> instant \<times> agent_id" where
  "prune_key r = (case_option (ag_updated_at r) id (ag_finished_at r), ag_created_at r, ag_id r)"

text \<open>\<open>min_by_key\<close>: the first of the least.\<close>

fun min_by_key :: "('a \<Rightarrow> 'k::linorder) \<Rightarrow> 'a list \<Rightarrow> 'a option" where
  "min_by_key f [] = None"
| "min_by_key f (x # xs) =
     (case min_by_key f xs of None \<Rightarrow> Some x | Some y \<Rightarrow> Some (if f x \<le> f y then x else y))"

definition prune_candidate :: "agent_tree \<Rightarrow> agent_id option \<Rightarrow> agent_id option" where
  "prune_candidate t protected =
     map_option ag_id (min_by_key prune_key (filter (prunable t protected) (bm_values t)))"

text \<open>
  The \<open>while\<close> loop; the identifiers removed are returned in the order of removal. \<open>None\<close> is a loop
  that does not end: \<open>remove\<close> of an identifier that is not a key would change nothing. The trees
  \<open>load\<close> accepts have no such record, see \<open>tree_prune_spec\<close>.
\<close>

partial_function (option) tree_prune ::
  "nat \<Rightarrow> agent_id option \<Rightarrow> agent_tree \<Rightarrow> (agent_id list \<times> agent_tree) option" where
  "tree_prune max_records protected t =
     (if length t \<le> max_records then Some ([], t)
      else case prune_candidate t protected of
        None \<Rightarrow> Some ([], t)
      | Some i \<Rightarrow> Option.bind (tree_prune max_records protected (bm_remove i t))
          (\<lambda>(removed, t'). Some (i # removed, t')))"

lemma bm_remove_length: "length (bm_remove k m) \<le> length m"
  by (induction k m rule: bm_remove.induct) auto

lemma bm_remove_shorter: "bm_contains m k \<Longrightarrow> length (bm_remove k m) < length m"
  by (induction k m rule: bm_remove.induct)
    (auto simp: bm_contains_def bm_remove_length less_Suc_eq_le)

section \<open>Loading\<close>

function walk_parents ::
  "agent_tree \<Rightarrow> agent_id set \<Rightarrow> agent_id option \<Rightarrow> (agent_error, unit) result" where
  "walk_parents t visited None = Inr ()"
| "walk_parents t visited (Some i) =
     (if i \<in> visited then Inl AgentCycle
      else case bm_get t i of
        None \<Rightarrow> Inl MissingParent
      | Some r \<Rightarrow> walk_parents t (insert i visited) (ag_parent r))"
  by pat_completeness auto

termination
proof (relation "measure (\<lambda>(t, visited, _). card (fst ` set t - visited))", simp, goal_cases)
  case (1 t visited i r)
  then have "i \<in> fst ` set t - visited"
    by (auto dest!: bm_get_SomeD intro: rev_image_eqI)
  then have "fst ` set t - insert i visited \<subset> fst ` set t - visited" by auto
  then show ?case by (simp add: psubset_card_mono)
qed

fun validate_entries :: "agent_tree \<Rightarrow> agent_tree \<Rightarrow> (agent_error, unit) result" where
  "validate_entries t [] = Inr ()"
| "validate_entries t ((i, r) # rest) =
     (if i \<noteq> ag_id r then Inl IdentityMismatch
      else and_then (walk_parents t {i} (ag_parent r)) (\<lambda>_. validate_entries t rest))"

definition tree_load :: "agent_tree \<Rightarrow> (agent_error, agent_tree) result" where
  "tree_load t = and_then (validate_entries t t) (\<lambda>_. Inr t)"

text \<open>What \<open>load\<close> accepts: records under their own identifiers, parents present, no cycle.\<close>

definition parent_edges :: "agent_tree \<Rightarrow> (agent_id \<times> agent_id) set" where
  "parent_edges t = {(i, p). \<exists>r. bm_get t i = Some r \<and> ag_parent r = Some p}"

definition tree_wf :: "agent_tree \<Rightarrow> bool" where
  "tree_wf t \<longleftrightarrow> bm_sorted t \<and>
     (\<forall>i r. bm_get t i = Some r \<longrightarrow> ag_id r = i \<and> (\<forall>p. ag_parent r = Some p \<longrightarrow> bm_contains t p)) \<and>
     acyclic (parent_edges t)"

lemma walk_parents_sound:
  "walk_parents t visited p = Inr () \<Longrightarrow> p = Some i \<Longrightarrow>
     bm_contains t i \<and> \<not> reaches_cycle (parent_edges t) i"
proof (induction t visited p arbitrary: i rule: walk_parents.induct)
  case (2 t visited j)
  then obtain r where r: "j \<notin> visited" "bm_get t j = Some r" "walk_parents t (insert j visited) (ag_parent r) = Inr ()"
    by (auto split: if_splits option.splits)
  with "2.IH" have "d \<in> {d. (j, d) \<in> parent_edges t} \<Longrightarrow> \<not> reaches_cycle (parent_edges t) d" for d
    by (auto simp: parent_edges_def)
  then have "\<not> reaches_cycle (parent_edges t) j"
    by (subst reaches_cycle_step) blast
  with r(2) "2.prems"(2) show ?case
    by (auto simp: bm_contains_get)
qed simp

lemma acyclic_no_self: "acyclic E \<Longrightarrow> (x, x) \<in> E\<^sup>+ \<Longrightarrow> False"
  by (simp add: acyclic_def)

lemma walk_parents_complete:
  "acyclic (parent_edges t) \<Longrightarrow>
   (\<And>i r p. bm_get t i = Some r \<Longrightarrow> ag_parent r = Some p \<Longrightarrow> bm_contains t p) \<Longrightarrow>
   (\<And>i. p = Some i \<Longrightarrow> bm_contains t i \<and> (\<forall>v \<in> visited. (v, i) \<in> (parent_edges t)\<^sup>+)) \<Longrightarrow>
     walk_parents t visited p = Inr ()"
proof (induction t visited p rule: walk_parents.induct)
  case (2 t visited j)
  from "2.prems"(3) [OF refl] have "bm_contains t j"
    and above: "\<forall>v \<in> visited. (v, j) \<in> (parent_edges t)\<^sup>+"
    by simp_all
  have "j \<notin> visited"
    using acyclic_no_self [OF "2.prems"(1)] above by blast
  moreover obtain r where "bm_get t j = Some r"
    using \<open>bm_contains t j\<close> bm_contains_get by metis
  ultimately have r: "bm_get t j = Some r" "j \<notin> visited" by simp_all
  have "walk_parents t (insert j visited) (ag_parent r) = Inr ()"
  proof (rule "2.IH" [OF r(2,1) "2.prems"(1,2)])
    fix p
    assume p: "ag_parent r = Some p"
    then have "(j, p) \<in> parent_edges t" using r by (simp add: parent_edges_def)
    with above show "bm_contains t p \<and> (\<forall>v \<in> insert j visited. (v, p) \<in> (parent_edges t)\<^sup>+)"
      using "2.prems"(2) [OF r(1) p] by (auto intro: trancl_into_trancl)
  qed
  with r show ?case by simp
qed simp

lemma validate_entries_Inr:
  "validate_entries t es = Inr () \<longleftrightarrow>
     (\<forall>(i, r) \<in> set es. ag_id r = i \<and> walk_parents t {i} (ag_parent r) = Inr ())"
  by (induction es) (auto simp: and_then_Inr)

lemma validate_entries_wf:
  assumes "bm_sorted t"
  shows "validate_entries t t = Inr () \<longleftrightarrow> tree_wf t"
proof
  assume valid: "validate_entries t t = Inr ()"
  have walk: "ag_id r = i" "walk_parents t {i} (ag_parent r) = Inr ()" if "bm_get t i = Some r" for i r
    using valid bm_get_SomeD [OF that] by (auto simp: validate_entries_Inr)
  then have "(i, p) \<in> parent_edges t \<Longrightarrow> \<not> reaches_cycle (parent_edges t) p" for i p
    using walk_parents_sound [of t "{i}" "Some p"] by (fastforce simp: parent_edges_def)
  then have "\<not> reaches_cycle (parent_edges t) i" for i
    by (subst reaches_cycle_step) blast
  then have "acyclic (parent_edges t)"
    by (simp add: acyclic_iff_reaches)
  with walk walk_parents_sound assms show "tree_wf t"
    unfolding tree_wf_def by blast
next
  assume wf: "tree_wf t"
  show "validate_entries t t = Inr ()"
    unfolding validate_entries_Inr
  proof clarify
    fix i r
    assume "(i, r) \<in> set t"
    then have r: "bm_get t i = Some r" using assms by (simp add: bm_get_iff)
    have "walk_parents t {i} (ag_parent r) = Inr ()"
      by (rule walk_parents_complete) (use wf r in \<open>auto simp: tree_wf_def parent_edges_def\<close>)
    with r wf show "ag_id r = i \<and> walk_parents t {i} (ag_parent r) = Inr ()"
      by (simp add: tree_wf_def)
  qed
qed


section \<open>Operations keep the tree loadable\<close>

lemma tree_wfD:
  assumes "tree_wf t"
  shows "bm_sorted t" "acyclic (parent_edges t)"
    and "bm_get t i = Some r \<Longrightarrow> ag_id r = i"
    and "bm_get t i = Some r \<Longrightarrow> ag_parent r = Some p \<Longrightarrow> bm_contains t p"
  using assms by (auto simp: tree_wf_def)

lemma tree_wf_values: "tree_wf t \<Longrightarrow> r \<in> set (bm_values t) \<longleftrightarrow> bm_get t (ag_id r) = Some r"
  using bm_values_get [OF tree_wfD(1)] tree_wfD(3) by metis

text \<open>A tree with the same identifiers and parents.\<close>

lemma tree_wf_same_shape:
  assumes "tree_wf t" "bm_sorted t'"
    and "\<And>i. map_option (\<lambda>r. (ag_id r, ag_parent r)) (bm_get t' i) = map_option (\<lambda>r. (ag_id r, ag_parent r)) (bm_get t i)"
  shows "tree_wf t'"
proof -
  have same: "\<exists>r. bm_get t i = Some r \<and> ag_id r = ag_id r' \<and> ag_parent r = ag_parent r'"
    if "bm_get t' i = Some r'" for i r'
    using assms(3) [of i] that by (cases "bm_get t i") auto
  have present: "bm_contains t' i = bm_contains t i" for i
    using assms(3) [of i] unfolding bm_contains_get by (cases "bm_get t i"; cases "bm_get t' i") auto
  have "parent_edges t' \<subseteq> parent_edges t"
    using same by (fastforce simp: parent_edges_def)
  with tree_wfD(2) [OF assms(1)] have "acyclic (parent_edges t')"
    by (rule acyclic_subset)
  moreover have "ag_id r = i \<and> (\<forall>p. ag_parent r = Some p \<longrightarrow> bm_contains t' p)"
    if "bm_get t' i = Some r" for i r
    using same [OF that] tree_wfD(3,4) [OF assms(1)] present by metis
  ultimately show ?thesis
    using assms(2) by (simp add: tree_wf_def)
qed

lemma tree_insert_wf:
  assumes wf: "tree_wf t" and run: "tree_insert r t = Inr t'"
  shows "tree_wf t' \<and> bm_get t' (ag_id r) = Some r \<and> (\<forall>i. i \<noteq> ag_id r \<longrightarrow> bm_get t' i = bm_get t i)"
proof -
  note sorted = tree_wfD(1) [OF wf]
  have t': "t' = bm_insert (ag_id r) r t" and new: "bm_get t (ag_id r) = None"
    and parent: "\<And>p. ag_parent r = Some p \<Longrightarrow> bm_contains t p"
    using run bm_contains_get [of t "ag_id r"] by (auto simp: tree_insert_def is_none_or_def)
  have get: "bm_get t' i = (if i = ag_id r then Some r else bm_get t i)" for i
    using sorted by (simp add: t')
  have no_child: "(a, ag_id r) \<notin> parent_edges t" for a
    using tree_wfD(4) [OF wf] new bm_contains_get [of t "ag_id r"] by (auto simp: parent_edges_def)
  have "acyclic (parent_edges t')"
  proof (cases "ag_parent r")
    case None
    then have "parent_edges t' \<subseteq> parent_edges t"
      by (auto simp: parent_edges_def get split: if_splits)
    with tree_wfD(2) [OF wf] show ?thesis by (rule acyclic_subset)
  next
    case (Some p)
    then have "p \<noteq> ag_id r" using parent new by (auto simp: bm_contains_get)
    then have "(p, ag_id r) \<notin> (parent_edges t)\<^sup>*"
      using no_child by (metis rtranclE)
    then have "acyclic (insert (ag_id r, p) (parent_edges t))"
      using tree_wfD(2) [OF wf] by (simp add: acyclic_insert)
    moreover have "parent_edges t' \<subseteq> insert (ag_id r, p) (parent_edges t)"
      using Some by (auto simp: parent_edges_def get split: if_splits)
    ultimately show ?thesis by (rule acyclic_subset)
  qed
  moreover have "ag_id x = i \<and> (\<forall>p. ag_parent x = Some p \<longrightarrow> bm_contains t' p)" if "bm_get t' i = Some x" for i x
  proof (cases "i = ag_id r")
    case True
    with that parent show ?thesis by (auto simp: get bm_contains_get)
  next
    case False
    with that tree_wfD(3) [OF wf, of i] tree_wfD(4) [OF wf, of i] show ?thesis
      by (auto simp: get bm_contains_get)
  qed
  moreover have "bm_sorted t'" using sorted by (auto simp: t')
  ultimately have "tree_wf t'"
    unfolding tree_wf_def by blast
  then show ?thesis
    by (simp add: get)
qed

lemma tree_transition_wf:
  assumes wf: "tree_wf t" and run: "tree_transition i status err now t = Inr t'"
  shows "tree_wf t'"
proof -
  have t': "t' = bm_update i (\<lambda>r. r\<lparr>ag_status := status, ag_error := err, ag_updated_at := now\<rparr>) t"
    using run by (auto simp: tree_transition_def and_then_Inr)
  show ?thesis
    by (rule tree_wf_same_shape [OF wf])
      (use tree_wfD(1) [OF wf] in \<open>simp_all add: t' option.map_comp comp_def\<close>)
qed

lemma bm_get_map_values: "bm_get (map (\<lambda>(k, v). (k, f v)) m) j = map_option f (bm_get m j)"
  by (induction m) (auto simp: bm_get_def)

lemma bm_sorted_map_values: "bm_sorted (map (\<lambda>(k, v). (k, f v)) m) = bm_sorted m"
  by (simp add: bm_sorted_def comp_def case_prod_unfold)

lemma recover_record_shape [simp]:
  "ag_id (recover_record now r) = ag_id r" "ag_parent (recover_record now r) = ag_parent r"
  by (simp_all add: recover_record_def)

lemma tree_recover_wf:
  assumes wf: "tree_wf t"
  shows "tree_wf (snd (tree_recover now t))"
  by (rule tree_wf_same_shape [OF wf])
    (use tree_wfD(1) [OF wf] in \<open>simp_all add: tree_recover_def bm_get_map_values bm_sorted_map_values
       option.map_comp comp_def\<close>)

lemma tree_remove_leaf_wf:
  assumes wf: "tree_wf t" and leaf: "\<And>r. r \<in> set (bm_values t) \<Longrightarrow> ag_parent r \<noteq> Some i"
  shows "tree_wf (bm_remove i t)"
proof -
  have "parent_edges (bm_remove i t) \<subseteq> parent_edges t"
    by (auto simp: parent_edges_def split: if_splits)
  with tree_wfD(2) [OF wf] have "acyclic (parent_edges (bm_remove i t))"
    by (rule acyclic_subset)
  moreover have "ag_id r = j \<and> (\<forall>p. ag_parent r = Some p \<longrightarrow> bm_contains (bm_remove i t) p)"
    if r: "bm_get (bm_remove i t) j = Some r" for j r
  proof -
    from r have r': "bm_get t j = Some r" by (auto split: if_splits)
    then have "r \<in> set (bm_values t)"
      using bm_values_get [OF tree_wfD(1) [OF wf]] by blast
    with leaf tree_wfD(3,4) [OF wf r'] show ?thesis
      by (auto simp: bm_contains_get)
  qed
  moreover have "bm_sorted (bm_remove i t)" using tree_wfD(1) [OF wf] by auto
  ultimately show ?thesis unfolding tree_wf_def by blast
qed

lemma min_by_key_None: "min_by_key f xs = None \<longleftrightarrow> xs = []"
  by (cases xs) (auto split: option.splits)

lemma min_by_key_mem: "min_by_key f xs = Some y \<Longrightarrow> y \<in> set xs \<and> (\<forall>x \<in> set xs. f y \<le> f x)"
  by (induction xs arbitrary: y)
    (auto simp: min_by_key_None split: option.splits if_splits intro: order_trans)

lemma prune_candidate_Some:
  assumes "tree_wf t" "prune_candidate t protected = Some i"
  obtains r where "bm_get t i = Some r" "prunable t protected r" "ag_id r = i"
proof -
  obtain r where "min_by_key prune_key (filter (prunable t protected) (bm_values t)) = Some r" "ag_id r = i"
    using assms(2) unfolding prune_candidate_def by blast
  moreover from min_by_key_mem [OF this(1)] have "r \<in> set (bm_values t)" "prunable t protected r"
    by simp_all
  ultimately have "r \<in> set (bm_values t)" "prunable t protected r" "ag_id r = i" by simp_all
  with that show thesis using tree_wf_values [OF assms(1)] by simp
qed

text \<open>
  What pruning does to a tree it can be given: it ends, only removes records that were terminal,
  unprotected and without worktree, keeps the rest as they were and loadable, and stops only when
  the limit is met or nothing more may be removed.
\<close>

lemma tree_prune_spec:
  assumes "tree_wf t"
  shows "\<exists>removed t'. tree_prune n protected t = Some (removed, t') \<and> tree_wf t' \<and> distinct removed \<and>
    (\<forall>i. bm_get t' i = (if i \<in> set removed then None else bm_get t i)) \<and>
    (\<forall>i \<in> set removed. \<exists>r. bm_get t i = Some r \<and> is_terminal (ag_status r) \<and>
        Some i \<noteq> protected \<and> ag_worktree r = None) \<and>
    (length t' \<le> n \<or> prune_candidate t' protected = None)"
  using assms
proof (induction "length t" arbitrary: t rule: less_induct)
  case less
  show ?case
  proof (cases "length t \<le> n \<or> prune_candidate t protected = None")
    case True
    then have "tree_prune n protected t = Some ([], t)"
      by (subst tree_prune.simps) auto
    with True less.prems show ?thesis by simp
  next
    case False
    then obtain i where i: "\<not> length t \<le> n" "prune_candidate t protected = Some i" by auto
    obtain r where r: "bm_get t i = Some r" "prunable t protected r" "ag_id r = i"
      by (rule prune_candidate_Some [OF less.prems i(2)])
    have wf: "tree_wf (bm_remove i t)"
      by (rule tree_remove_leaf_wf [OF less.prems]) (use r in \<open>auto simp: prunable_def list_ex_iff\<close>)
    have "length (bm_remove i t) < length t"
      using r(1) by (simp add: bm_remove_shorter bm_contains_get)
    from less.hyps [OF this wf] obtain removed t' where IH:
      "tree_prune n protected (bm_remove i t) = Some (removed, t')" "tree_wf t'" "distinct removed"
      "\<forall>j. bm_get t' j = (if j \<in> set removed then None else bm_get (bm_remove i t) j)"
      "\<forall>j \<in> set removed. \<exists>r. bm_get (bm_remove i t) j = Some r \<and> is_terminal (ag_status r) \<and>
        Some j \<noteq> protected \<and> ag_worktree r = None"
      "length t' \<le> n \<or> prune_candidate t' protected = None"
      by auto
    have "tree_prune n protected t = Some (i # removed, t')"
      using i IH(1) by (subst tree_prune.simps) simp
    moreover have "i \<notin> set removed" using IH(5) by auto
    ultimately show ?thesis
      using IH r by (intro exI [of _ "i # removed"] exI [of _ t']) (auto simp: prunable_def split: if_splits)
  qed
qed

section \<open>Subtree adoption\<close>

text \<open>
  \<open>adoption_subtree\<close> selects an agent with its descendants among records of which it keeps the
  identifier, the parent and the status. The selection grows by rounds over the records in key
  order until a round adds nothing; a final walk over the ancestors rejects live records and
  cycles.
\<close>

type_synonym ancestry = "(agent_id, agent_id option \<times> agent_status) bmap"

fun adopt_step :: "agent_id \<times> agent_id option \<times> agent_status \<Rightarrow> agent_id set \<Rightarrow> agent_id set" where
  "adopt_step (i, parent, _) s = (if is_some_and parent (\<lambda>p. p \<in> s) then insert i s else s)"

definition adopt_round :: "ancestry \<Rightarrow> agent_id set \<Rightarrow> agent_id set" where
  "adopt_round records selected = fold adopt_step records selected"

lemma adopt_step_bounds: "s \<subseteq> adopt_step r s" "adopt_step r s \<subseteq> insert (fst r) s"
  by (cases r; auto)+

lemma adopt_fold_mono: "s \<subseteq> fold adopt_step rs s"
proof (induction rs arbitrary: s)
  case (Cons r rs)
  then show ?case using adopt_step_bounds(1) [of s r] by (metis fold_simps(2) subset_trans)
qed simp

lemma adopt_fold_keys: "fold adopt_step rs s \<subseteq> s \<union> fst ` set rs"
proof (induction rs arbitrary: s)
  case (Cons r rs)
  from Cons [of "adopt_step r s"] adopt_step_bounds(2) [of r s] show ?case by auto
qed simp

lemmas adopt_round_mono = adopt_fold_mono [of _ rs for rs, folded adopt_round_def]
lemmas adopt_round_keys = adopt_fold_keys [folded adopt_round_def]

function adopt_closure :: "nat \<Rightarrow> ancestry \<Rightarrow> agent_id set \<Rightarrow> (agent_error, agent_id set) result" where
  "adopt_closure n records selected =
     (let selected' = adopt_round records selected in
      if card selected' > n then Inl SubtreeTooLarge
      else if card selected' = card selected then Inr selected'
      else adopt_closure n records selected')"
  by pat_completeness auto

termination
proof (relation "measure (\<lambda>(_, records, selected). card (fst ` set records - selected))", simp, goal_cases)
  case (1 n records selected x)
  then have "selected \<subset> x"
    using adopt_round_mono [of selected records] 1 by auto
  moreover have "x - selected \<subseteq> fst ` set records"
    using 1 adopt_round_keys [of records selected] by auto
  ultimately have "fst ` set records - x \<subset> fst ` set records - selected" by auto
  then show ?case by (simp add: psubset_card_mono)
qed

declare adopt_closure.simps [simp del]

function walk_ancestors :: "ancestry \<Rightarrow> agent_id set \<Rightarrow> agent_id option \<Rightarrow> (agent_error, unit) result" where
  "walk_ancestors records ancestors None = Inr ()"
| "walk_ancestors records ancestors (Some i) =
     (if i \<in> ancestors then Inl AgentCycle
      else walk_ancestors records (insert i ancestors) (Option.bind (bm_get records i) fst))"
  by pat_completeness auto

termination
proof (relation "measures [\<lambda>(records, anc, _). card (fst ` set records - anc),
    \<lambda>(_, _, p). case p of None \<Rightarrow> 0 | Some _ \<Rightarrow> 1]", simp, goal_cases)
  case (1 records anc i)
  show ?case
  proof (cases "bm_get records i")
    case None
    then have "i \<notin> fst ` set records" by (auto simp: bm_get_def map_of_eq_None_iff)
    then have "fst ` set records - insert i anc = fst ` set records - anc" by auto
    with None show ?thesis by simp
  next
    case (Some e)
    with 1 have "i \<in> fst ` set records - anc"
      by (auto dest!: bm_get_SomeD intro: rev_image_eqI)
    then have "fst ` set records - insert i anc \<subset> fst ` set records - anc" by auto
    then have "card (fst ` set records - insert i anc) < card (fst ` set records - anc)"
      by (simp add: psubset_card_mono)
    then show ?thesis by simp
  qed
qed

text \<open>The final check walks the selected identifiers in ascending order.\<close>

fun check_adopted :: "ancestry \<Rightarrow> agent_id list \<Rightarrow> (agent_error, unit) result" where
  "check_adopted records [] = Inr ()"
| "check_adopted records (i # is) =
     (case bm_get records i of
        None \<Rightarrow> check_adopted records is
      | Some (parent, status) \<Rightarrow>
          if \<not> is_terminal status then Inl (ActiveWork i)
          else and_then (walk_ancestors records {i} parent) (\<lambda>_. check_adopted records is))"

text \<open>The closure of the root under the child relation.\<close>

definition child_edges :: "ancestry \<Rightarrow> (agent_id \<times> agent_id) set" where
  "child_edges records = {(p, i). \<exists>s. (i, Some p, s) \<in> set records}"

lemma adopt_fold_sound:
  "set rs \<subseteq> set records \<Longrightarrow> i \<in> fold adopt_step rs s \<Longrightarrow> \<exists>r \<in> s. (r, i) \<in> (child_edges records)\<^sup>*"
proof (induction rs arbitrary: s)
  case (Cons r rs)
  then obtain j where j: "j \<in> adopt_step r s" "(j, i) \<in> (child_edges records)\<^sup>*" by auto
  show ?case
  proof (cases "j \<in> s")
    case False
    obtain k p st where r: "r = (k, p, st)" by (cases r)
    with False j(1) obtain q where "p = Some q" "q \<in> s" "k = j"
      by (cases p) (auto split: if_splits)
    moreover from this have "(q, j) \<in> child_edges records"
      using Cons.prems(1) r by (auto simp: child_edges_def)
    ultimately show ?thesis using j(2) by (meson converse_rtrancl_into_rtrancl)
  qed (use j in auto)
qed auto

lemma adopt_round_fixpoint:
  assumes "adopt_round records s = s" "(p, i) \<in> child_edges records" "p \<in> s"
  shows "i \<in> s"
proof -
  from assms(2) obtain st xs ys where rs: "records = xs @ (i, Some p, st) # ys"
    by (auto simp: child_edges_def dest: split_list)
  have "p \<in> fold adopt_step xs s" using adopt_fold_mono assms(3) by blast
  then have "i \<in> adopt_round records s"
    using adopt_fold_mono by (fastforce simp: adopt_round_def rs)
  with assms(1) show ?thesis by simp
qed

lemma adopt_closure_exact:
  "adopt_closure n records s = Inr s' \<Longrightarrow> finite s \<Longrightarrow>
     s' = (child_edges records)\<^sup>* `` s \<and> card s' \<le> n"
proof (induction n records s arbitrary: s' rule: adopt_closure.induct)
  case (1 n records s)
  let ?s1 = "adopt_round records s"
  have fin: "finite ?s1"
    using adopt_round_keys [of records s] "1.prems"(2) by (meson finite_Un finite_imageI finite_set finite_subset)
  have small: "\<not> card ?s1 > n"
    using "1.prems"(1) by (subst (asm) adopt_closure.simps) (auto simp: Let_def split: if_splits)
  show ?case
  proof (cases "card ?s1 = card s")
    case True
    then have same: "?s1 = s"
      using adopt_round_mono [of s records] fin by (metis card_subset_eq)
    have "s' = s"
      using "1.prems"(1) True small same by (subst (asm) adopt_closure.simps) (simp add: Let_def)
    moreover have "(child_edges records)\<^sup>* `` s \<subseteq> s"
    proof clarify
      fix x y
      assume "(x, y) \<in> (child_edges records)\<^sup>*" "x \<in> s"
      then show "y \<in> s" by induction (use adopt_round_fixpoint [OF same] in blast)+
    qed
    ultimately show ?thesis using small same by auto
  next
    case False
    then have "adopt_closure n records ?s1 = Inr s'"
      using "1.prems"(1) small by (subst (asm) adopt_closure.simps) (simp add: Let_def)
    from "1.IH" [OF refl small False this fin] have
      IH: "s' = (child_edges records)\<^sup>* `` ?s1" "card s' \<le> n" by blast+
    have from_s: "\<exists>r \<in> s. (r, i) \<in> (child_edges records)\<^sup>*" if "i \<in> ?s1" for i
      using adopt_fold_sound [of records records i s] that by (simp add: adopt_round_def)
    have "(child_edges records)\<^sup>* `` ?s1 = (child_edges records)\<^sup>* `` s"
      using adopt_round_mono [of s records] from_s by (auto intro: rtrancl_trans dest!: from_s)
    with IH show ?thesis by simp
  qed
qed

section \<open>Properties\<close>

text \<open>
  C24. Delegation never widens authority: along any chain of spawns accepted by \<open>validate_child\<close>,
  with access lowered at any point, the last policy has at most the first one's access mode and
  tools, reads and writes only paths the first may, stays within its token and terminal budgets
  (an explicit limit is never dropped), and keeps denying approval where the first denies it.
\<close>

theorem delegation_never_widens:
  assumes "delegated_chain p c"
  shows "ap_access c \<le> ap_access p \<and> set (ap_allowed_tools c) \<subseteq> set (ap_allowed_tools p) \<and>
    (\<forall>x. within_any x (ap_readable_roots c) \<longrightarrow> within_any x (ap_readable_roots p)) \<and>
    (\<forall>x. within_any x (ap_writable_roots c) \<longrightarrow> within_any x (ap_writable_roots p)) \<and>
    (ab_max_tokens (ap_budget p) > 0 \<longrightarrow>
      0 < ab_max_tokens (ap_budget c) \<and> ab_max_tokens (ap_budget c) \<le> ab_max_tokens (ap_budget p)) \<and>
    ab_max_terminals (ap_budget c) \<le> ab_max_terminals (ap_budget p) \<and>
    (ap_approval p = Approval_Deny \<longrightarrow> ap_approval c = Approval_Deny)"
proof -
  have "within_authority c p"
    using assms
  proof induction
    case (root p)
    show ?case by (rule within_authority_refl)
  next
    case (spawn p q c)
    then show ?case by (simp add: validate_child_iff within_authority_trans)
  next
    case (lower p q m)
    then show ?case by (blast intro: within_authority_trans limit_access_within)
  qed
  then show ?thesis
    unfolding within_authority_def roots_le_def by blast
qed

definition example_policy :: "access_mode \<Rightarrow> nat \<Rightarrow> agent_policy" where
  "example_policy m tokens = \<lparr>ap_access = m, ap_readable_roots = [], ap_writable_roots = [],
     ap_allowed_tools = [lit ''read''], ap_approval = Approval_Deny,
     ap_budget = \<lparr>ab_max_tokens = tokens, ab_max_terminals = 2\<rparr>\<rparr>"

lemma delegation_never_widens_witness:
  "ab_max_tokens (ap_budget (example_policy ReadOnly 50)) \<le> 100 \<and>
   ap_access (example_policy ReadOnly 50) \<le> ap_access (example_policy Approval 100)"
proof -
  have "delegated_chain (example_policy Approval 100) (example_policy ReadOnly 50)"
    by (rule delegated_chain.spawn [OF delegated_chain.root])
      (simp add: validate_child_iff within_authority_def example_policy_def roots_le_def)
  from delegation_never_widens [OF this] show ?thesis
    by (simp add: example_policy_def)
qed

text \<open>Loading accepts exactly the well-formed trees: every record under its own identifier, every
  parent a record of the tree, and no cycle of parents (the walk up from each record always ends).\<close>

theorem agent_tree_load_exact:
  assumes "bm_sorted t"
  shows "is_ok (tree_load t) \<longleftrightarrow>
    (\<forall>i r. bm_get t i = Some r \<longrightarrow> ag_id r = i \<and> (\<forall>p. ag_parent r = Some p \<longrightarrow> bm_contains t p)) \<and>
    acyclic (parent_edges t)"
  using validate_entries_wf [OF assms] assms
  by (auto simp: is_ok_iff tree_load_def and_then_Inr tree_wf_def)

definition example_agent :: "agent_id \<Rightarrow> agent_id option \<Rightarrow> agent_status \<Rightarrow> agent_record" where
  "example_agent i p s = \<lparr>ag_completion = None, ag_id = i, ag_parent = p, ag_name = [], ag_task = [],
     ag_status = s, ag_policy = example_policy ReadOnly 0,
     ag_budget = \<lparr>ab_max_tokens = 0, ab_max_terminals = 2\<rparr>, ag_worktree = None, ag_branch = None,
     ag_created_at = 1, ag_started_at = None, ag_finished_at = None, ag_updated_at = 1,
     ag_recent_progress = [], ag_result = None, ag_error = None\<rparr>"

definition example_tree :: agent_tree where
  "example_tree = [(1, example_agent 1 None Running), (2, example_agent 2 (Some 1) Agent_Completed)]"

lemma example_tree_wf: "tree_wf example_tree"
proof -
  have "validate_entries example_tree example_tree = Inr ()"
    by (simp add: validate_entries_Inr example_tree_def bm_get_def example_agent_def)
  moreover have "bm_sorted example_tree" by (simp add: example_tree_def)
  ultimately show ?thesis by (simp add: validate_entries_wf)
qed

text \<open>
  C25. Pruning ends on every loadable tree, whatever the limit. It removes only finished,
  unprotected agents without a worktree; every agent that remains is unchanged and still has its
  parent in the tree; and it stops only when the limit is met or nothing else may be removed.
\<close>

theorem prune_keeps_the_rest:
  assumes "tree_wf t"
  shows "\<exists>removed t'. tree_prune n protected t = Some (removed, t') \<and>
    (\<forall>i \<in> set removed. \<exists>r. bm_get t i = Some r \<and> is_terminal (ag_status r) \<and>
        Some i \<noteq> protected \<and> ag_worktree r = None) \<and>
    (\<forall>i. bm_get t' i = (if i \<in> set removed then None else bm_get t i)) \<and>
    (\<forall>i r p. bm_get t' i = Some r \<longrightarrow> ag_parent r = Some p \<longrightarrow> bm_contains t' p) \<and>
    (length t' \<le> n \<or> (\<forall>r \<in> set (bm_values t'). \<not> prunable t' protected r))"
proof -
  obtain removed t' where p: "tree_prune n protected t = Some (removed, t')" "tree_wf t'"
    "\<forall>i. bm_get t' i = (if i \<in> set removed then None else bm_get t i)"
    "\<forall>i \<in> set removed. \<exists>r. bm_get t i = Some r \<and> is_terminal (ag_status r) \<and>
        Some i \<noteq> protected \<and> ag_worktree r = None"
    "length t' \<le> n \<or> prune_candidate t' protected = None"
    using tree_prune_spec [OF assms, of n protected] by blast
  have "\<forall>r \<in> set (bm_values t'). \<not> prunable t' protected r" if "prune_candidate t' protected = None"
    using that by (simp add: prune_candidate_def min_by_key_None filter_empty_conv)
  with p tree_wfD(4) [OF p(2)] show ?thesis by blast
qed

lemma prune_keeps_the_rest_witness:
  "\<exists>removed t'. tree_prune 1 None example_tree = Some (removed, t') \<and>
     (\<forall>i. bm_get t' i = (if i \<in> set removed then None else bm_get example_tree i))"
  using prune_keeps_the_rest [OF example_tree_wf, of 1 None] by blast

end
