(* ===== verification/Agent_Store.thy ===== *)
theory Agent_Store
  imports Agents
begin

text \<open>
  The archive of terminal agents (\<open>voyage/src/subagent/archive.rs\<close>) and \<open>AgentTreeStore\<close>
  (\<open>voyage/src/subagent/persistence.rs\<close>): the tree file, the archive beside it, and the lease that a
  coordinated store needs to write. Whether a serialized record is within the size limit and the
  outcome of a write are arguments; an archived file has the version this code writes.
\<close>

section \<open>The archive\<close>

type_synonym archive = "(agent_id, agent_record) bmap"

text \<open>How a write ends: done, failed before the rename, or failed when syncing the directory.\<close>

datatype put_outcome = Put_Done | Put_Failed | Put_Unsynced

definition archive_get :: "(agent_record \<Rightarrow> bool) \<Rightarrow> archive \<Rightarrow> agent_id \<Rightarrow>
    (agent_error, agent_record option) result" where
  "archive_get fits a i = (case bm_get a i of
     None \<Rightarrow> Inr None
   | Some r \<Rightarrow>
       if \<not> fits r then Inl RecordTooLarge
       else if ag_id r = i \<and> is_terminal (ag_status r) then Inr (Some r)
       else Inl BadArchive)"

definition archive_put :: "(agent_record \<Rightarrow> bool) \<Rightarrow> put_outcome \<Rightarrow> agent_record \<Rightarrow> archive \<Rightarrow>
    (agent_error, unit) result \<times> archive" where
  "archive_put fits io r a =
     (if \<not> is_terminal (ag_status r) then (Inl LiveArchive, a)
      else case archive_get fits a (ag_id r) of
        Inl e \<Rightarrow> (Inl e, a)
      | Inr (Some existing) \<Rightarrow>
          if existing \<noteq> r then (Inl ArchiveConflict, a)
          else if io = Put_Done then (Inr (), a) else (Inl AgentIo, a)
      | Inr None \<Rightarrow>
          if \<not> fits r then (Inl RecordTooLarge, a)
          else case io of
            Put_Done \<Rightarrow> (Inr (), bm_insert (ag_id r) r a)
          | Put_Failed \<Rightarrow> (Inl AgentIo, a)
          | Put_Unsynced \<Rightarrow> (Inl AgentIo, bm_insert (ag_id r) r a))"

text \<open>
  The directory is read in whatever order the file system has; the identifiers are gathered in an
  ordered set cut to one more than the limit.
\<close>

definition keep_smallest :: "nat \<Rightarrow> agent_id \<Rightarrow> agent_id list \<Rightarrow> agent_id list" where
  "keep_smallest n i ids =
     (let ids' = insort_insert i ids in if length ids' > n then butlast ids' else ids')"

definition collect_page :: "agent_id list \<Rightarrow> agent_id option \<Rightarrow> nat \<Rightarrow> agent_id set \<Rightarrow> agent_id list" where
  "collect_page entries after limit retained =
     fold (\<lambda>i ids. if is_some_and after (\<lambda>c. i \<le> c) \<or> i \<in> retained then ids
                   else keep_smallest (limit + 1) i ids) entries []"

definition archive_list ::
  "(agent_record \<Rightarrow> bool) \<Rightarrow> agent_id list \<Rightarrow> archive \<Rightarrow> agent_id option \<Rightarrow> nat \<Rightarrow> agent_id set \<Rightarrow>
   (agent_error, agent_record list \<times> agent_id option) result" where
  "archive_list fits entries a after limit retained =
     (if \<not> (1 \<le> limit \<and> limit \<le> 100) then Inl BadLimit
      else let ids = collect_page entries after limit retained;
               has_more = length ids > limit;
               page = (if has_more then butlast ids else ids);
               next_after = (if has_more then Some (last page) else None)
           in and_then (collect_results (\<lambda>i. and_then (archive_get fits a i) (ok_or AgentMissing)) page)
                (\<lambda>agents. Inr (agents, next_after)))"

text \<open>The gathered page is the least identifiers not yet listed, whatever the directory order.\<close>

definition unlisted :: "agent_id list \<Rightarrow> agent_id option \<Rightarrow> agent_id set \<Rightarrow> agent_id set" where
  "unlisted entries after retained = {i \<in> set entries. is_none_or after (\<lambda>c. c < i) \<and> i \<notin> retained}"

lemma take_insort: "take n (insort x xs) = take n (insort x (take n xs))"
proof (induction xs arbitrary: n)
  case (Cons y ys)
  then show ?case by (cases n) (auto simp: take_Cons')
qed simp

lemma keep_smallest_sorted:
  assumes "finite S" "n > 0"
  shows "keep_smallest n i (take n (sorted_list_of_set S)) = take n (sorted_list_of_set (insert i S))"
proof -
  define xs where "xs = sorted_list_of_set S"
  have xs: "sorted xs" "distinct xs" "set xs = S" using assms by (simp_all add: xs_def)
  consider "i \<in> set (take n xs)" | "i \<in> S" "i \<notin> set (take n xs)" | "i \<notin> S" by blast
  then show ?thesis
  proof cases
    case 1
    then have "insert i S = S" using xs(3) in_set_takeD by fastforce
    with 1 show ?thesis by (simp add: keep_smallest_def insort_insert_key_def flip: xs_def)
  next
    case 2
    then have long: "n < length xs" "i \<in> set (drop n xs)"
      using xs(3) by (metis append_take_drop_id in_set_conv_decomp_first Un_iff set_append take_all not_le)+
    then have "\<forall>y \<in> set (take n xs). y < i"
      using xs(1,2) 2(2) by (metis append_take_drop_id le_neq_trans sorted_append)
    then have "insort i (take n xs) = take n xs @ [i]"
      using xs(1) by (induction "take n xs" rule: list.induct) (auto simp: sorted_insort_is_snoc less_imp_le)
    with 2 long show ?thesis
      by (simp add: keep_smallest_def insort_insert_key_def insert_absorb Let_def flip: xs_def)
  next
    case 3
    then have ins: "insort_insert i (take n xs) = insort i (take n xs)"
      using xs(3) by (auto simp: insort_insert_key_def dest: in_set_takeD)
    have "sorted_list_of_set (insert i S) = insort i xs"
      using 3 assms by (simp add: xs_def)
    then have goal: "take n (sorted_list_of_set (insert i S)) = take n (insort i (take n xs))"
      by (simp add: take_insort [of n i xs])
    have "keep_smallest n i (take n xs) = take n (insort i (take n xs))"
    proof (cases "n \<le> length xs")
      case True
      then have "length (insort i (take n xs)) = Suc n" by simp
      then show ?thesis
        by (simp add: keep_smallest_def ins butlast_conv_take del: length_insort)
    next
      case False
      then have "length (insort i (take n xs)) \<le> n" by simp
      then show ?thesis by (simp add: keep_smallest_def ins del: length_insort)
    qed
    with goal show ?thesis by (simp add: xs_def)
  qed
qed

lemma collect_page_fold:
  assumes "finite S"
  shows "fold (\<lambda>i ids. if is_some_and after (\<lambda>c. i \<le> c) \<or> i \<in> retained then ids
      else keep_smallest (limit + 1) i ids) entries (take (limit + 1) (sorted_list_of_set S)) =
    take (limit + 1) (sorted_list_of_set (S \<union> unlisted entries after retained))"
  using assms
proof (induction entries arbitrary: S)
  case Nil
  then show ?case by (simp add: unlisted_def)
next
  case (Cons i entries)
  have "unlisted (i # entries) after retained =
    (if is_some_and after (\<lambda>c. i \<le> c) \<or> i \<in> retained then {} else {i}) \<union> unlisted entries after retained"
    by (cases after) (auto simp: unlisted_def)
  then show ?case
    using Cons.IH [of S] Cons.IH [of "insert i S"] Cons.prems keep_smallest_sorted [of S "limit + 1" i]
    by simp
qed

lemma collect_page_eq:
  "collect_page entries after limit retained =
     take (limit + 1) (sorted_list_of_set (unlisted entries after retained))"
  using collect_page_fold [of "{}"] by (simp add: collect_page_def)

definition archive_wf :: "(agent_record \<Rightarrow> bool) \<Rightarrow> agent_id list \<Rightarrow> archive \<Rightarrow> bool" where
  "archive_wf fits entries a \<longleftrightarrow>
     (\<forall>i \<in> set entries. \<exists>r. bm_get a i = Some r \<and> ag_id r = i \<and> is_terminal (ag_status r) \<and> fits r)"

lemma archive_get_wf:
  "archive_wf fits entries a \<Longrightarrow> i \<in> set entries \<Longrightarrow> archive_get fits a i = Inr (Some (the (bm_get a i)))"
  by (auto simp: archive_wf_def archive_get_def)

lemma collect_results_present:
  "archive_wf fits entries a \<Longrightarrow> set is \<subseteq> set entries \<Longrightarrow>
     collect_results (\<lambda>i. and_then (archive_get fits a i) (ok_or e)) is = Inr (map (\<lambda>i. the (bm_get a i)) is)"
  by (induction "is") (auto simp: archive_get_wf)

text \<open>A page is the next \<open>limit\<close> identifiers in ascending order, and says whether more follow.\<close>

lemma archive_list_page:
  fixes after :: "agent_id option" and retained :: "agent_id set"
  assumes "1 \<le> limit" "limit \<le> 100" and wf: "archive_wf fits entries a"
  defines "ids \<equiv> sorted_list_of_set (unlisted entries after retained)"
  shows "archive_list fits entries a after limit retained =
     Inr (map (\<lambda>i. the (bm_get a i)) (take limit ids),
          if length ids > limit then Some (ids ! (limit - 1)) else None)"
proof -
  have mem: "set ids = unlisted entries after retained"
    by (simp add: ids_def unlisted_def)
  have sub: "set (take limit ids) \<subseteq> set entries"
    using mem in_set_takeD by (fastforce simp: unlisted_def)
  then have results: "collect_results (\<lambda>i. and_then (archive_get fits a i) (ok_or AgentMissing)) (take limit ids) =
      Inr (map (\<lambda>i. the (bm_get a i)) (take limit ids))"
    by (rule collect_results_present [OF wf])
  show ?thesis
  proof (cases "length ids > limit")
    case True
    then have "length (collect_page entries after limit retained) > limit"
      "butlast (collect_page entries after limit retained) = take limit ids"
      by (simp_all add: collect_page_eq butlast_take flip: ids_def)
    moreover have "last (take limit ids) = ids ! (limit - 1)"
      using True assms(1) by (subst last_conv_nth) auto
    ultimately show ?thesis
      using True assms(1,2) results by (simp add: archive_list_def)
  next
    case False
    then show ?thesis
      using assms(1,2) results by (simp add: archive_list_def collect_page_eq flip: ids_def)
  qed
qed

section \<open>Gathering all records\<close>

text \<open>\<open>adoption_subtree\<close> merges every page into the retained records; \<open>or_insert\<close> keeps those.\<close>

definition merge_archived :: "agent_record list \<Rightarrow> ancestry \<Rightarrow> ancestry" where
  "merge_archived page records = fold (\<lambda>r m. if bm_contains m (ag_id r) then m
     else bm_insert (ag_id r) (ag_parent r, ag_status r) m) page records"

lemma archive_list_cursor:
  assumes "archive_list fits entries a after limit retained = Inr (agents, Some n)"
  shows "n \<in> set entries"
proof -
  have ids: "set (collect_page entries after limit retained) \<subseteq> set entries"
    using in_set_takeD by (fastforce simp: collect_page_eq unlisted_def)
  have "n = last (butlast (collect_page entries after limit retained))"
    "butlast (collect_page entries after limit retained) \<noteq> []"
    using assms by (auto simp: archive_list_def Let_def and_then_Inr split: if_splits
        simp flip: length_greater_0_conv)
  then have "n \<in> set (collect_page entries after limit retained)"
    by (metis in_set_butlastD last_in_set)
  with ids show ?thesis by blast
qed

function gather_pages :: "(agent_record \<Rightarrow> bool) \<Rightarrow> agent_id list \<Rightarrow> archive \<Rightarrow> agent_id set \<Rightarrow> agent_id option \<Rightarrow> ancestry \<Rightarrow>
    (agent_error, ancestry) result" where
  "gather_pages fits entries a retained after records =
     and_then (archive_list fits entries a after 100 retained) (\<lambda>(agents, next_after).
       case next_after of
         None \<Rightarrow> Inr (merge_archived agents records)
       | Some n \<Rightarrow> if is_none_or after (\<lambda>previous. previous < n)
           then gather_pages fits entries a retained (Some n) (merge_archived agents records)
           else Inl CursorStuck)"
  by pat_completeness auto

termination
proof (relation "measure (\<lambda>(_, entries, _, _, after, _). card {i \<in> set entries. is_none_or after (\<lambda>c. c < i)})",
    simp, goal_cases)
  case (1 fits entries a retained after records x agents next_after n)
  then have "n \<in> set entries" using archive_list_cursor by blast
  with 1 have "{i \<in> set entries. is_none_or (Some n) (\<lambda>c. c < i)} \<subset>
      {i \<in> set entries. is_none_or after (\<lambda>c. c < i)}"
    by (cases after) auto
  then show ?case by (simp add: psubset_card_mono)
qed

declare gather_pages.simps [simp del]

definition adoption_subtree :: "(agent_record \<Rightarrow> bool) \<Rightarrow> agent_id list \<Rightarrow> archive \<Rightarrow> agent_tree \<Rightarrow> agent_id \<Rightarrow> nat \<Rightarrow>
    (agent_error, agent_id list) result" where
  "adoption_subtree fits entries a t root n =
     and_then (gather_pages fits entries a (set (bm_keys t)) None
        (map (\<lambda>(_, r). (ag_id r, ag_parent r, ag_status r)) t)) (\<lambda>records.
       if \<not> bm_contains records root then Inl AgentMissing
       else and_then (adopt_closure n records {root}) (\<lambda>selected.
         let ids = sorted_list_of_set selected in
         and_then (check_adopted records ids) (\<lambda>_. Inr ids)))"

section \<open>The store\<close>

record agent_store =
  as_coordinated :: bool
  as_lease :: bool
  as_file :: "agent_tree option"
  as_archive :: archive

definition acquire_runtime_owner :: "bool \<Rightarrow> agent_store \<Rightarrow> (agent_error, unit) result \<times> agent_store" where
  "acquire_runtime_owner free s =
     (if \<not> as_lease s \<and> as_coordinated s
      then if free then (Inr (), s\<lparr>as_lease := True\<rparr>) else (Inl NotRuntimeOwner, s)
      else (Inr (), s))"

definition require_runtime_owner :: "agent_store \<Rightarrow> (agent_error, unit) result" where
  "require_runtime_owner s =
     (if \<not> as_coordinated s \<or> as_lease s then Inr () else Inl NotRuntimeOwner)"

definition store_load :: "agent_store \<Rightarrow> (agent_error, agent_tree) result" where
  "store_load s = (case as_file s of None \<Rightarrow> Inr [] | Some t \<Rightarrow> tree_load t)"

text \<open>The rename is the last step of a save, so a failed save leaves the old file.\<close>

definition store_save_raw :: "bool \<Rightarrow> agent_tree \<Rightarrow> agent_store \<Rightarrow> (agent_error, unit) result \<times> agent_store" where
  "store_save_raw io_ok t s = (if io_ok then (Inr (), s\<lparr>as_file := Some t\<rparr>) else (Inl AgentIo, s))"

definition store_write ::
  "bool \<Rightarrow> (agent_tree \<Rightarrow> (agent_error, agent_tree) result) \<Rightarrow> agent_store \<Rightarrow>
   (agent_error, unit) result \<times> agent_store" where
  "store_write io_ok change s =
     (case and_then (require_runtime_owner s) (\<lambda>_. and_then (store_load s) change) of
        Inl e \<Rightarrow> (Inl e, s)
      | Inr t \<Rightarrow> store_save_raw io_ok t s)"

definition store_create :: "bool \<Rightarrow> agent_record \<Rightarrow> agent_store \<Rightarrow> (agent_error, unit) result \<times> agent_store" where
  "store_create io_ok r = store_write io_ok (tree_insert r)"

definition store_update :: "bool \<Rightarrow> agent_record \<Rightarrow> agent_store \<Rightarrow> (agent_error, unit) result \<times> agent_store" where
  "store_update io_ok r = store_write io_ok (\<lambda>t.
     if \<not> bm_contains t (ag_id r) then Inl UnknownAgent else Inr (bm_insert (ag_id r) r t))"

definition store_save :: "bool \<Rightarrow> agent_tree \<Rightarrow> agent_store \<Rightarrow> (agent_error, unit) result \<times> agent_store" where
  "store_save io_ok t s =
     (case require_runtime_owner s of Inl e \<Rightarrow> (Inl e, s) | Inr _ \<Rightarrow> store_save_raw io_ok t s)"

definition store_get :: "agent_id \<Rightarrow> agent_store \<Rightarrow> (agent_error, agent_record option) result" where
  "store_get i s = and_then (store_load s) (\<lambda>t. Inr (bm_get t i))"

definition store_recover :: "bool \<Rightarrow> instant \<Rightarrow> agent_store \<Rightarrow> (agent_error, nat) result \<times> agent_store" where
  "store_recover io_ok now s =
     (case and_then (require_runtime_owner s) (\<lambda>_. store_load s) of
        Inl e \<Rightarrow> (Inl e, s)
      | Inr t \<Rightarrow> let (count, t') = tree_recover now t in
          if count = 0 then (Inr 0, s)
          else case store_save_raw io_ok t' s of (Inl e, s') \<Rightarrow> (Inl e, s') | (Inr _, s') \<Rightarrow> (Inr count, s'))"

text \<open>
  Pruning writes every removed record to the archive before the smaller tree replaces the file;
  \<open>put_io\<close> tells how each archive write ends. A failed one leaves those before it.
\<close>

fun archive_all :: "(agent_record \<Rightarrow> bool) \<Rightarrow> (agent_id \<Rightarrow> put_outcome) \<Rightarrow> agent_record list \<Rightarrow> archive \<Rightarrow>
    (agent_error, unit) result \<times> archive" where
  "archive_all fits put_io [] a = (Inr (), a)"
| "archive_all fits put_io (r # rs) a =
     (case archive_put fits (put_io (ag_id r)) r a of
        (Inl e, a') \<Rightarrow> (Inl e, a')
      | (Inr _, a') \<Rightarrow> archive_all fits put_io rs a')"

definition store_prune :: "(agent_record \<Rightarrow> bool) \<Rightarrow> (agent_id \<Rightarrow> put_outcome) \<Rightarrow> bool \<Rightarrow> nat \<Rightarrow> agent_id option \<Rightarrow>
    agent_store \<Rightarrow> ((agent_error, agent_id list) result \<times> agent_store) option" where
  "store_prune fits put_io io_ok n protected s =
     (case and_then (require_runtime_owner s) (\<lambda>_. store_load s) of
        Inl e \<Rightarrow> Some (Inl e, s)
      | Inr t \<Rightarrow> Option.bind (tree_prune n protected t) (\<lambda>(removed, t').
          if removed = [] then Some (Inr [], s)
          else Some (case archive_all fits put_io (map (\<lambda>i. the (bm_get t i)) removed) (as_archive s) of
              (Inl e, a) \<Rightarrow> (Inl e, s\<lparr>as_archive := a\<rparr>)
            | (Inr _, a) \<Rightarrow> (case store_save_raw io_ok t' (s\<lparr>as_archive := a\<rparr>) of
                (Inl e, s') \<Rightarrow> (Inl e, s') | (Inr _, s') \<Rightarrow> (Inr removed, s')))))"

section \<open>Nothing finished is lost\<close>

text \<open>
  The steps of a store: its operations with any outcome. \<open>update\<close> checks only that the identifier is
  known, and \<open>save\<close> checks nothing: their callers keep the parent of a record, and hand in a whole tree
  that is in order and has the agents of the one it replaces. The runtime calls \<open>update\<close> with records
  whose parent never changes, and never calls \<open>save\<close>.
\<close>

inductive agent_step :: "agent_store \<Rightarrow> agent_store \<Rightarrow> bool" where
  acquire: "agent_step s (snd (acquire_runtime_owner free s))"
| create: "agent_step s (snd (store_create io_ok r s))"
| update: "store_load s = Inr t \<Longrightarrow> bm_get t (ag_id r) = Some old \<Longrightarrow> ag_parent r = ag_parent old \<Longrightarrow>
    agent_step s (snd (store_update io_ok r s))"
| save: "tree_wf t \<Longrightarrow> (\<And>t0 i. as_file s = Some t0 \<Longrightarrow> bm_contains t0 i \<Longrightarrow> bm_contains t i) \<Longrightarrow>
    agent_step s (snd (store_save io_ok t s))"
| recover: "agent_step s (snd (store_recover io_ok now s))"
| prune: "store_prune fits put_io io_ok n protected s = Some (res, s') \<Longrightarrow> agent_step s s'"

definition agent_store_ok :: "agent_store \<Rightarrow> bool" where
  "agent_store_ok s \<longleftrightarrow> bm_sorted (as_archive s) \<and> (\<forall>t. as_file s = Some t \<longrightarrow> tree_wf t)"

definition known :: "agent_store \<Rightarrow> agent_id \<Rightarrow> bool" where
  "known s i \<longleftrightarrow> (\<exists>t. as_file s = Some t \<and> bm_contains t i) \<or> bm_contains (as_archive s) i"

lemma store_load_ok:
  assumes "agent_store_ok s"
  shows "store_load s = Inr (case as_file s of None \<Rightarrow> [] | Some t \<Rightarrow> t)"
  using assms by (auto simp: agent_store_ok_def store_load_def tree_load_def tree_wfD(1)
      validate_entries_wf [THEN iffD2] split: option.splits)

lemma tree_wf_empty: "tree_wf []"
  by (simp add: tree_wf_def parent_edges_def bm_get_def acyclic_def)

lemma store_load_wf: "agent_store_ok s \<Longrightarrow> store_load s = Inr t \<Longrightarrow> tree_wf t"
  by (auto simp: store_load_ok tree_wf_empty agent_store_ok_def split: option.splits)

lemma store_write_cases:
  assumes "agent_store_ok s" "store_write io_ok change s = (res, s')"
  obtains "s' = s" | t t' where "store_load s = Inr t" "change t = Inr t'" "s' = s\<lparr>as_file := Some t'\<rparr>"
proof (cases "and_then (require_runtime_owner s) (\<lambda>_. and_then (store_load s) change)")
  case (Inl e)
  with assms(2) that(1) show thesis by (simp add: store_write_def)
next
  case (Inr t')
  then obtain t where t: "store_load s = Inr t" "change t = Inr t'"
    by (auto simp: and_then_Inr)
  from assms(2) Inr have "s' = s \<or> s' = s\<lparr>as_file := Some t'\<rparr>"
    by (auto simp: store_write_def store_save_raw_def split: if_splits)
  with that t show thesis by blast
qed

lemma archive_put_keeps:
  assumes "archive_put fits io r a = (res, a')" "bm_sorted a"
  shows "bm_sorted a' \<and> (\<forall>i x. bm_get a i = Some x \<longrightarrow> bm_get a' i = Some x) \<and>
    (res = Inr () \<longrightarrow> bm_get a' (ag_id r) = Some r)"
  using assms
  by (auto simp: archive_put_def archive_get_def split: if_splits option.splits put_outcome.splits)

lemma archive_all_keeps:
  "archive_all fits put_io rs a = (res, a') \<Longrightarrow> bm_sorted a \<Longrightarrow>
     bm_sorted a' \<and> (\<forall>i x. bm_get a i = Some x \<longrightarrow> bm_get a' i = Some x) \<and>
     (res = Inr () \<longrightarrow> (\<forall>r \<in> set rs. bm_get a' (ag_id r) = Some r))"
proof (induction rs arbitrary: a)
  case (Cons r rs)
  obtain res1 a1 where put: "archive_put fits (put_io (ag_id r)) r a = (res1, a1)" by fastforce
  note keeps = archive_put_keeps [OF put Cons.prems(2)]
  show ?case
  proof (cases res1)
    case (Inl e)
    with Cons.prems put keeps show ?thesis by auto
  next
    case (Inr u)
    with Cons.prems put have "archive_all fits put_io rs a1 = (res, a')" by simp
    from Cons.IH [OF this] keeps Inr show ?thesis by auto
  qed
qed auto

lemma tree_recover_get:
  "bm_get (snd (tree_recover now t)) i = map_option (recover_record now) (bm_get t i)"
  by (simp add: tree_recover_def bm_get_map_values)

lemma tree_update_wf:
  assumes "tree_wf t" "bm_get t (ag_id r) = Some old" "ag_parent r = ag_parent old"
  shows "tree_wf (bm_insert (ag_id r) r t)"
  using assms tree_wfD(1) [OF assms(1)] tree_wfD(3) [OF assms(1,2)]
  by (intro tree_wf_same_shape [OF assms(1)]) auto

text \<open>A successful archive of what is removed keeps every identifier known.\<close>

lemma store_prune_cases:
  assumes ok: "agent_store_ok s" and run: "store_prune fits put_io io_ok n protected s = Some (res, s')"
  obtains (same) "as_file s' = as_file s" "bm_sorted (as_archive s')"
      "\<And>i x. bm_get (as_archive s) i = Some x \<Longrightarrow> bm_get (as_archive s') i = Some x"
  | (pruned) t t' removed where "store_load s = Inr t" "tree_prune n protected t = Some (removed, t')"
      "as_file s' = Some t'" "bm_sorted (as_archive s')" "res = Inr removed"
      "\<And>i x. bm_get (as_archive s) i = Some x \<Longrightarrow> bm_get (as_archive s') i = Some x"
      "\<And>i. i \<in> set removed \<Longrightarrow> bm_get (as_archive s') i = bm_get t i"
proof (cases "and_then (require_runtime_owner s) (\<lambda>_. store_load s)")
  case (Inl e)
  with run ok same show thesis by (auto simp: store_prune_def agent_store_ok_def)
next
  case (Inr t)
  then have t: "store_load s = Inr t" by (auto simp: and_then_Inr)
  then have wf: "tree_wf t" by (rule store_load_wf [OF ok])
  obtain removed t' where p: "tree_prune n protected t = Some (removed, t')"
    and gone: "\<forall>i \<in> set removed. \<exists>r. bm_get t i = Some r"
    using tree_prune_spec [OF wf, of n protected] by blast
  show thesis
  proof (cases "removed = []")
    case True
    with run ok Inr p same show thesis by (auto simp: store_prune_def agent_store_ok_def)
  next
    case False
    obtain r1 a where all: "archive_all fits put_io (map (\<lambda>i. the (bm_get t i)) removed) (as_archive s) = (r1, a)"
      by fastforce
    have keeps: "bm_sorted a" "\<And>i x. bm_get (as_archive s) i = Some x \<Longrightarrow> bm_get a i = Some x"
      "r1 = Inr () \<Longrightarrow> \<forall>r \<in> set (map (\<lambda>i. the (bm_get t i)) removed). bm_get a (ag_id r) = Some r"
      using archive_all_keeps [OF all] ok by (auto simp: agent_store_ok_def)
    show thesis
    proof (cases "r1 = Inr () \<and> io_ok")
      case True
      then have "res = Inr removed" "s' = s\<lparr>as_archive := a, as_file := Some t'\<rparr>"
        using run Inr p \<open>removed \<noteq> []\<close> all by (auto simp: store_prune_def store_save_raw_def)
      moreover have "bm_get a i = bm_get t i" if "i \<in> set removed" for i
        using keeps(3) True that gone tree_wfD(3) [OF wf] by fastforce
      ultimately show thesis using pruned [OF t p] keeps by simp
    next
      case False
      then have "s' = s\<lparr>as_archive := a\<rparr>"
        using run Inr p \<open>removed \<noteq> []\<close> all
        by (cases r1) (auto simp: store_prune_def store_save_raw_def)
      then show thesis using same keeps by simp
    qed
  qed
qed

lemma agent_step_ok:
  assumes "agent_step s s'" "agent_store_ok s"
  shows "agent_store_ok s' \<and> (\<forall>i. known s i \<longrightarrow> known s' i)"
  using assms
proof (cases rule: agent_step.cases)
  case (acquire free)
  then show ?thesis
    using assms(2) by (auto simp: acquire_runtime_owner_def agent_store_ok_def known_def)
next
  case (create io_ok r)
  obtain res where run: "store_write io_ok (tree_insert r) s = (res, s')"
    using create by (metis store_create_def prod.collapse)
  show ?thesis
  proof (rule store_write_cases [OF assms(2) run])
    assume "s' = s" then show ?thesis using assms(2) by simp
  next
    fix t t'
    assume t: "store_load s = Inr t" "tree_insert r t = Inr t'" and s': "s' = s\<lparr>as_file := Some t'\<rparr>"
    from tree_insert_wf [OF store_load_wf [OF assms(2) t(1)] t(2)]
    have "tree_wf t'" and get: "\<forall>i. i \<noteq> ag_id r \<longrightarrow> bm_get t' i = bm_get t i" "bm_get t' (ag_id r) = Some r" by auto
    moreover have "bm_contains t i \<longrightarrow> bm_contains t' i" for i
      using get by (cases "i = ag_id r") (auto simp: bm_contains_get)
    ultimately show ?thesis
      using assms(2) t(1) s' by (auto simp: agent_store_ok_def known_def store_load_ok)
  qed
next
  case (update t r old io_ok)
  obtain res where run: "store_write io_ok (\<lambda>t. if \<not> bm_contains t (ag_id r) then Inl UnknownAgent
      else Inr (bm_insert (ag_id r) r t)) s = (res, s')"
    using update(1) by (metis store_update_def prod.collapse)
  show ?thesis
  proof (rule store_write_cases [OF assms(2) run])
    assume "s' = s" then show ?thesis using assms(2) by simp
  next
    fix t1 t'
    assume t1: "store_load s = Inr t1" and s': "s' = s\<lparr>as_file := Some t'\<rparr>"
      and change: "(if \<not> bm_contains t1 (ag_id r) then Inl UnknownAgent
        else Inr (bm_insert (ag_id r) r t1)) = Inr t'"
    have "t1 = t" using t1 update(2) by simp
    with change have t': "t' = bm_insert (ag_id r) r t" by (simp split: if_splits)
    have wf: "tree_wf t" by (rule store_load_wf [OF assms(2) update(2)])
    have "tree_wf t'" unfolding t' by (rule tree_update_wf [OF wf update(3,4)])
    moreover have "bm_contains t i \<longrightarrow> bm_contains t' i" for i
      using tree_wfD(1) [OF wf] by (auto simp: t' bm_contains_get)
    ultimately show ?thesis
      using assms(2) update(2) s' by (auto simp: agent_store_ok_def known_def store_load_ok)
  qed
next
  case (save t io_ok)
  have "s' = s \<or> s' = s\<lparr>as_file := Some t\<rparr>"
    using save(1) by (auto simp: store_save_def store_save_raw_def split: sum.splits)
  then show ?thesis
    using save(2,3) assms(2) by (auto simp: agent_store_ok_def known_def)
next
  case (recover io_ok now)
  show ?thesis
  proof (cases "and_then (require_runtime_owner s) (\<lambda>_. store_load s)")
    case (Inl e)
    then show ?thesis using recover assms(2) by (simp add: store_recover_def)
  next
    case (Inr t)
    then have t: "store_load s = Inr t" by (auto simp: and_then_Inr)
    have "s' = s \<or> s' = s\<lparr>as_file := Some (snd (tree_recover now t))\<rparr>"
      using recover Inr by (auto simp: store_recover_def store_save_raw_def split: prod.splits if_splits)
    moreover have "tree_wf (snd (tree_recover now t))"
      by (rule tree_recover_wf [OF store_load_wf [OF assms(2) t]])
    moreover have "bm_contains t i \<longrightarrow> bm_contains (snd (tree_recover now t)) i" for i
      by (auto simp: bm_contains_get tree_recover_get)
    ultimately show ?thesis
      using assms(2) t by (auto simp: agent_store_ok_def known_def store_load_ok)
  qed
next
  case (prune fits put_io io_ok n protected res)
  from assms(2) prune show ?thesis
  proof (rule store_prune_cases)
    assume "as_file s' = as_file s" "bm_sorted (as_archive s')"
      "\<And>i x. bm_get (as_archive s) i = Some x \<Longrightarrow> bm_get (as_archive s') i = Some x"
    then show ?thesis using assms(2) by (auto simp: agent_store_ok_def known_def bm_contains_get)
  next
    fix t t' removed
    assume t: "store_load s = Inr t" "tree_prune n protected t = Some (removed, t')"
      and s': "as_file s' = Some t'" "bm_sorted (as_archive s')"
        "\<And>i x. bm_get (as_archive s) i = Some x \<Longrightarrow> bm_get (as_archive s') i = Some x"
        "\<And>i. i \<in> set removed \<Longrightarrow> bm_get (as_archive s') i = bm_get t i"
    have wf: "tree_wf t" by (rule store_load_wf [OF assms(2) t(1)])
    from tree_prune_spec [OF wf, of n protected] t(2)
    have "tree_wf t'" and get: "\<forall>i. bm_get t' i = (if i \<in> set removed then None else bm_get t i)" by auto
    moreover have "known s' i" if "known s i" for i
    proof (cases "bm_contains t i")
      case True
      with get s' show ?thesis by (cases "i \<in> set removed") (auto simp: known_def bm_contains_get)
    next
      case False
      with that assms(2) t(1) have "bm_contains (as_archive s) i"
        by (auto simp: known_def store_load_ok)
      with s'(3) show ?thesis by (auto simp: known_def bm_contains_get)
    qed
    ultimately show ?thesis using s'(1,2) by (simp add: agent_store_ok_def)
  qed
qed

lemma agent_steps_ok:
  "agent_step\<^sup>*\<^sup>* s s' \<Longrightarrow> agent_store_ok s \<Longrightarrow> agent_store_ok s' \<and> (\<forall>i. known s i \<longrightarrow> known s' i)"
proof (induction rule: rtranclp_induct)
  case (step s1 s2)
  with agent_step_ok [of s1 s2] show ?case by simp
qed simp

section \<open>What is gathered\<close>

lemma merge_archived_get:
  "bm_sorted records \<Longrightarrow> distinct (map ag_id page) \<Longrightarrow>
     bm_sorted (merge_archived page records) \<and>
     bm_get (merge_archived page records) i =
       (case bm_get records i of Some x \<Rightarrow> Some x
        | None \<Rightarrow> map_option (\<lambda>r. (ag_parent r, ag_status r)) (find (\<lambda>r. ag_id r = i) page))"
proof (induction page arbitrary: records)
  case Nil
  then show ?case by (simp add: merge_archived_def split: option.splits)
next
  case (Cons r page)
  define records' where "records' = (if bm_contains records (ag_id r) then records
    else bm_insert (ag_id r) (ag_parent r, ag_status r) records)"
  have fold: "merge_archived (r # page) records = merge_archived page records'"
    by (simp add: merge_archived_def records'_def)
  have sorted: "bm_sorted records'" using Cons.prems(1) by (auto simp: records'_def)
  have "bm_get records' i = (case bm_get records i of Some x \<Rightarrow> Some x
      | None \<Rightarrow> if ag_id r = i then Some (ag_parent r, ag_status r) else None)"
    using Cons.prems(1) by (cases "bm_get records i") (auto simp: records'_def bm_contains_get)
  moreover have "find (\<lambda>x. ag_id x = i) page = None" if "ag_id r = i"
    using that Cons.prems(2) by (auto simp: find_None_iff rev_image_eqI)
  ultimately show ?case
    using Cons.IH [OF sorted] Cons.prems(2) by (auto simp: fold split: option.splits)
qed

lemma nth_split_sorted:
  assumes "sorted (xs :: 'a::linorder list)" "distinct xs" "0 < n" "n < length xs"
  shows "set (drop n xs) = {x \<in> set xs. xs ! (n - 1) < x}"
proof -
  have eq: "xs = take n xs @ drop n xs" by simp
  have "last (take n xs) = xs ! (n - 1)"
    by (subst last_conv_nth) (use assms(3,4) in auto)
  then have last: "xs ! (n - 1) = last (take n xs)" "take n xs \<noteq> []"
    using assms(3,4) by auto
  have "x \<le> last (take n xs)" if "x \<in> set (take n xs)" for x
    using that assms(1) by (metis in_set_conv_nth last_conv_nth last(2) sorted_wrt_take
      sorted_iff_nth_mono One_nat_def Suc_pred length_greater_0_conv lessI less_Suc_eq_le)
  moreover have "last (take n xs) < x" if "x \<in> set (drop n xs)" for x
  proof -
    have "last (take n xs) \<in> set (take n xs)" using last(2) by simp
    moreover have "sorted (take n xs @ drop n xs)" "distinct (take n xs @ drop n xs)"
      using assms(1,2) by simp_all
    ultimately show ?thesis using that unfolding sorted_append distinct_append
      by (metis disjoint_iff order_le_imp_less_or_eq)
  qed
  ultimately show ?thesis
    unfolding last(1) using set_append [of "take n xs" "drop n xs"] eq by (auto simp: leD)
qed

lemma find_by_id:
  "(\<And>j. j \<in> set js \<Longrightarrow> f (g j) = j) \<Longrightarrow>
     find (\<lambda>r. f r = i) (map g js) = (if i \<in> set js then Some (g i) else None)"
  by (induction js) auto

lemma gather_pages_spec:
  assumes "archive_wf fits entries a" "bm_sorted records"
  shows "\<exists>m. gather_pages fits entries a retained after records = Inr m \<and> bm_sorted m \<and>
    (\<forall>i. bm_get m i = (case bm_get records i of Some x \<Rightarrow> Some x
       | None \<Rightarrow> if i \<in> unlisted entries after retained
           then map_option (\<lambda>r. (ag_parent r, ag_status r)) (bm_get a i) else None))"
  using assms
proof (induction fits entries a retained after records rule: gather_pages.induct)
  case (1 fits entries a retained after records)
  define ids where "ids = sorted_list_of_set (unlisted entries after retained)"
  define agents where "agents = map (\<lambda>i. the (bm_get a i)) (take 100 ids)"
  have mem: "set ids = unlisted entries after retained" "distinct ids" "sorted ids"
    by (simp_all add: ids_def unlisted_def)
  have page: "archive_list fits entries a after 100 retained =
      Inr (agents, if length ids > 100 then Some (ids ! 99) else None)"
    using archive_list_page [of 100 fits entries a after retained] "1.prems"(1)
    by (simp add: agents_def ids_def)
  have agent: "ag_id (the (bm_get a i)) = i" if "i \<in> set ids" for i
    using that mem(1) "1.prems"(1) by (fastforce simp: archive_wf_def unlisted_def)
  then have agents: "ag_id (the (bm_get a i)) = i" if "i \<in> set (take 100 ids)" for i
    using that by (auto dest: in_set_takeD)
  then have "map ag_id agents = take 100 ids"
    unfolding agents_def by (simp add: map_idI)
  then have names: "distinct (map ag_id agents)" using mem(2) by simp
  have found: "find (\<lambda>r. ag_id r = i) agents = (if i \<in> set (take 100 ids) then bm_get a i else None)" for i
  proof -
    have "bm_get a i = Some (the (bm_get a i))" if "i \<in> set (take 100 ids)"
      using that mem(1) "1.prems"(1) by (fastforce simp: archive_wf_def unlisted_def dest: in_set_takeD)
    then show ?thesis
      unfolding agents_def
      using find_by_id [of "take 100 ids" ag_id "\<lambda>i. the (bm_get a i)" i] agents by simp
  qed
  define merged where "merged = merge_archived agents records"
  have merged: "bm_sorted merged" "bm_get merged i = (case bm_get records i of Some x \<Rightarrow> Some x
      | None \<Rightarrow> if i \<in> set (take 100 ids) then map_option (\<lambda>r. (ag_parent r, ag_status r)) (bm_get a i) else None)" for i
    using merge_archived_get [OF "1.prems"(2) names, of i] by (simp_all add: merged_def found split: option.splits)
  show ?case
  proof (cases "length ids > 100")
    case False
    then have "gather_pages fits entries a retained after records = Inr merged"
      using page by (subst gather_pages.simps) (simp add: merged_def)
    with False mem(1) merged show ?thesis by simp
  next
    case True
    define n where "n = ids ! 99"
    have "n \<in> set ids" using True by (simp add: n_def)
    then have less: "is_none_or after (\<lambda>p. p < n)"
      using mem(1) by (simp add: unlisted_def)
    have rest: "unlisted entries (Some n) retained = set (drop 100 ids)"
    proof -
      have "set (drop 100 ids) = {x \<in> unlisted entries after retained. n < x}"
        using nth_split_sorted [OF mem(3,2), of 100] True unfolding mem(1) n_def by simp
      moreover have "is_none_or after (\<lambda>c. c < x)" if "n < x" for x
        using less that by (cases after) (simp_all add: order.strict_trans)
      ultimately show ?thesis by (auto simp: unlisted_def)
    qed
    have page': "archive_list fits entries a after 100 retained = Inr (agents, Some n)"
      using page True by (simp add: n_def)
    from "1.IH" [OF page' refl refl less] "1.prems"(1) merged(1)
    obtain m where m: "gather_pages fits entries a retained (Some n) merged = Inr m" "bm_sorted m"
      "\<forall>i. bm_get m i = (case bm_get merged i of Some x \<Rightarrow> Some x
         | None \<Rightarrow> if i \<in> unlisted entries (Some n) retained
             then map_option (\<lambda>r. (ag_parent r, ag_status r)) (bm_get a i) else None)"
      by (auto simp: merged_def)
    have run: "gather_pages fits entries a retained after records = Inr m"
      using page' less m(1) by (subst gather_pages.simps) (simp add: merged_def)
    have split: "i \<in> unlisted entries after retained \<longleftrightarrow> i \<in> set (take 100 ids) \<or> i \<in> set (drop 100 ids)" for i
      using mem(1) set_append [of "take 100 ids" "drop 100 ids"] by simp
    have "bm_get m i = (case bm_get records i of Some x \<Rightarrow> Some x
       | None \<Rightarrow> if i \<in> unlisted entries after retained
           then map_option (\<lambda>r. (ag_parent r, ag_status r)) (bm_get a i) else None)" for i
      using m(3) [rule_format, of i] unfolding merged(2) rest split
      by (cases "bm_get records i"; cases "bm_get a i") simp_all
    then show ?thesis using run m(2) by (intro exI [of _ m] conjI allI) simp_all
  qed
qed

section \<open>Properties\<close>

text \<open>
  C26. An agent once created stays known: after any sequence of store operations, with any of
  their writes failing, the tree file loads and every identifier that was in the tree or in the
  archive is still in one of the two. Two operations trust their callers: an update hands in a record
  with the parent the record has, and a save of a whole tree hands in one that is in order and
  has every agent of the tree it replaces.
\<close>

theorem agents_never_lost:
  assumes "agent_step\<^sup>*\<^sup>* \<lparr>as_coordinated = c, as_lease = False, as_file = None, as_archive = []\<rparr> s"
    and "agent_step\<^sup>*\<^sup>* s s'"
  shows "(\<exists>t. store_load s' = Inr t \<and> tree_wf t) \<and> (\<forall>i. known s i \<longrightarrow> known s' i)"
proof -
  have s: "agent_store_ok s"
    using agent_steps_ok [OF assms(1)] by (simp add: agent_store_ok_def)
  from agent_steps_ok [OF assms(2) s] show ?thesis
    using store_load_ok [of s'] store_load_wf [of s'] by blast
qed

lemma agents_never_lost_witness:
  "known (snd (store_recover True 9 (snd (store_create True (example_agent 1 None Running)
     \<lparr>as_coordinated = False, as_lease = False, as_file = None, as_archive = []\<rparr>)))) 1"
  (is "known (snd (store_recover True 9 ?s)) 1")
proof -
  have "agent_step\<^sup>*\<^sup>* \<lparr>as_coordinated = False, as_lease = False, as_file = None, as_archive = []\<rparr> ?s"
    by (rule r_into_rtranclp, rule agent_step.create)
  moreover have "agent_step\<^sup>*\<^sup>* ?s (snd (store_recover True 9 ?s))"
    by (rule r_into_rtranclp, rule agent_step.recover)
  moreover have "known ?s 1"
    by (simp add: store_create_def store_write_def require_runtime_owner_def store_load_def
        tree_insert_def example_agent_def store_save_raw_def known_def bm_contains_def)
  ultimately show ?thesis using agents_never_lost by blast
qed

text \<open>Paging through the archive with the returned cursor ends and misses nothing: whatever order
  the directory is read in, the gathered records are the retained ones and, for every archived
  identifier that is not retained, the archived one.\<close>

theorem archive_paging_complete:
  assumes "archive_wf fits entries a" "bm_sorted records"
  shows "\<exists>m. gather_pages fits entries a retained None records = Inr m \<and>
    (\<forall>i. bm_get m i = (case bm_get records i of Some x \<Rightarrow> Some x
       | None \<Rightarrow> if i \<in> set entries \<and> i \<notin> retained
           then map_option (\<lambda>r. (ag_parent r, ag_status r)) (bm_get a i) else None))"
  using gather_pages_spec [OF assms, of retained None] unfolding unlisted_def by auto

text \<open>The records \<open>adoption_subtree\<close> works on.\<close>

definition ancestry_of :: "agent_id list \<Rightarrow> archive \<Rightarrow> agent_tree \<Rightarrow> agent_id \<Rightarrow>
    (agent_id option \<times> agent_status) option" where
  "ancestry_of entries a t i = map_option (\<lambda>r. (ag_parent r, ag_status r))
     (case bm_get t i of Some r \<Rightarrow> Some r | None \<Rightarrow> if i \<in> set entries then bm_get a i else None)"

lemma retained_ancestry:
  assumes "tree_wf t"
  defines "base \<equiv> map (\<lambda>(_, r). (ag_id r, ag_parent r, ag_status r)) t"
  shows "bm_sorted base" "bm_get base i = map_option (\<lambda>r. (ag_parent r, ag_status r)) (bm_get t i)"
proof -
  have "base = map (\<lambda>(k, r). (k, (\<lambda>r. (ag_parent r, ag_status r)) r)) t"
    using tree_wfD(3) [OF assms(1)] bm_get_iff [OF tree_wfD(1) [OF assms(1)]] by (auto simp: base_def)
  then show "bm_sorted base" "bm_get base i = map_option (\<lambda>r. (ag_parent r, ag_status r)) (bm_get t i)"
    using tree_wfD(1) [OF assms(1)] by (simp_all add: bm_get_map_values bm_sorted_map_values)
qed

lemma check_adopted_terminal:
  "check_adopted records is = Inr () \<Longrightarrow> i \<in> set is \<Longrightarrow> bm_get records i = Some (p, st) \<Longrightarrow> is_terminal st"
  by (induction "is") (auto simp: and_then_Inr split: option.splits)

text \<open>Adoption selects an agent with exactly its descendants, in ascending order and at most as
  many as the limit, among the agents of the tree and of the archive, and every one of them has
  finished.\<close>

theorem adoption_subtree_exact:
  assumes "archive_wf fits entries a" "tree_wf t" "adoption_subtree fits entries a t root n = Inr ids"
  shows "set ids = {(p, i). \<exists>st. ancestry_of entries a t i = Some (Some p, st)}\<^sup>* `` {root} \<and>
    sorted ids \<and> distinct ids \<and> length ids \<le> n \<and>
    (\<forall>i \<in> set ids. \<exists>p st. ancestry_of entries a t i = Some (p, st) \<and> is_terminal st)"
proof -
  let ?E = "{(p, i). \<exists>st. ancestry_of entries a t i = Some (Some p, st)}"
  note base = retained_ancestry [OF assms(2)]
  obtain m selected where m: "gather_pages fits entries a (set (bm_keys t)) None
        (map (\<lambda>(_, r). (ag_id r, ag_parent r, ag_status r)) t) = Inr m" "bm_contains m root"
    and sel: "adopt_closure n m {root} = Inr selected" "ids = sorted_list_of_set selected"
      "check_adopted m ids = Inr ()"
    using assms(3) by (auto simp: adoption_subtree_def and_then_Inr Let_def)
  from gather_pages_spec [OF assms(1) base(1), of "set (bm_keys t)" None] m(1)
  have sorted: "bm_sorted m" and get: "bm_get m i = ancestry_of entries a t i" for i
    by (auto simp: base(2) ancestry_of_def unlisted_def bm_contains_iff [symmetric] bm_contains_get
        split: option.splits)
  have edges: "child_edges m = ?E"
    using bm_get_iff [OF sorted] by (auto simp: child_edges_def get [symmetric])
  note closure = adopt_closure_exact [OF sel(1) finite.insertI [OF finite.emptyI], unfolded edges]
  note sel' = conjunct1 [OF closure] conjunct2 [OF closure]
  have here: "\<exists>p st. ancestry_of entries a t i = Some (p, st)" if "i \<in> selected" for i
  proof -
    from that sel'(1) have "(root, i) \<in> ?E\<^sup>*" by simp
    then show ?thesis
      by (cases rule: rtranclE) (use m(2) get in \<open>auto simp: bm_contains_get\<close>)
  qed
  then have "selected \<subseteq> set (bm_keys m)"
    using get by (fastforce simp: bm_contains_iff [symmetric] bm_contains_get)
  then have "finite selected" by (rule finite_subset) simp
  then show ?thesis
    using sel sel' here check_adopted_terminal [OF sel(3)] get by fastforce
qed

end
