(* ===== verification/Kmp.thy ===== *)
theory Kmp
  imports Rust_Str "HOL-Library.Monad_Syntax" "HOL-Library.Sublist"
begin

text \<open>
  The search of \<open>Redactor::stable_prefix\<close> (\<open>src/voyage/src/tools/mod.rs\<close>) for the end of a text that
  may still become a secret: the failure table of the secret's bytes and the scan of the text's bytes
  with it. The \<open>while\<close> loops that fall back along the table are partial functions: a value \<open>None\<close> is a
  loop that does not return or an index out of range, and \<open>withheld_exact\<close> proves that neither happens
  and that the result is the length of the longest proper prefix of the secret that ends the text.
\<close>

section \<open>Bytes of a string\<close>

definition utf8_char :: "rchar \<Rightarrow> nat list" where
  "utf8_char c =
     (if c < 128 then [c]
      else if c < 2048 then [192 + c div 64, 128 + c mod 64]
      else if c < 65536 then [224 + c div 4096, 128 + c div 64 mod 64, 128 + c mod 64]
      else [240 + c div 262144, 128 + c div 4096 mod 64, 128 + c div 64 mod 64, 128 + c mod 64])"

definition as_bytes :: "rstring \<Rightarrow> nat list" where
  "as_bytes s = concat (map utf8_char s)"

lemma length_utf8_char [simp]: "length (utf8_char c) = len_utf8 c"
  by (simp add: utf8_char_def len_utf8_def)

lemma as_bytes_simps [simp]:
  "as_bytes [] = []" "as_bytes (c # s) = utf8_char c @ as_bytes s"
  "as_bytes (s @ t) = as_bytes s @ as_bytes t"
  by (simp_all add: as_bytes_def)

lemma length_as_bytes [simp]: "length (as_bytes s) = str_len s"
  by (induction s) simp_all

section \<open>The table and the scan\<close>

definition idx :: "'a list \<Rightarrow> nat \<Rightarrow> 'a option" where
  "idx xs i = (if i < length xs then Some (xs ! i) else None)"

lemma idx_Some [simp]: "i < length xs \<Longrightarrow> idx xs i = Some (xs ! i)"
  by (simp add: idx_def)

text \<open>\<open>while matched > 0 && again(matched) { matched = prefix[matched - 1]; }\<close>\<close>

partial_function (option) fall :: "(nat \<Rightarrow> bool option) \<Rightarrow> nat list \<Rightarrow> nat \<Rightarrow> nat option" where
  "fall again table matched =
     (if matched = 0 then Some 0
      else do {
        a \<leftarrow> again matched;
        if a then do {
          m \<leftarrow> idx table (matched - 1);
          fall again table m
        } else Some matched
      })"

declare fall.simps [code]

definition byte_differs :: "nat list \<Rightarrow> nat \<Rightarrow> nat \<Rightarrow> bool option" where
  "byte_differs pattern byte matched = do { p \<leftarrow> idx pattern matched; Some (byte \<noteq> p) }"

definition advance :: "nat list \<Rightarrow> nat \<Rightarrow> nat \<Rightarrow> nat option" where
  "advance pattern byte matched =
     do { p \<leftarrow> idx pattern matched; Some (if byte = p then matched + 1 else matched) }"

definition prefix_entry :: "nat list \<Rightarrow> nat list \<Rightarrow> nat \<Rightarrow> nat list option" where
  "prefix_entry pattern table i = do {
     matched \<leftarrow> idx table (i - 1);
     byte \<leftarrow> idx pattern i;
     matched \<leftarrow> fall (byte_differs pattern byte) table matched;
     matched \<leftarrow> advance pattern byte matched;
     Some (table[i := matched])
   }"

fun prefix_loop :: "nat list \<Rightarrow> nat list \<Rightarrow> nat list \<Rightarrow> nat list option" where
  "prefix_loop pattern table [] = Some table"
| "prefix_loop pattern table (i # rest) = do {
     table \<leftarrow> prefix_entry pattern table i;
     prefix_loop pattern table rest
   }"

definition prefix_table :: "nat list \<Rightarrow> nat list option" where
  "prefix_table pattern =
     prefix_loop pattern (replicate (length pattern) 0) [1..<length pattern]"

definition scan_byte :: "nat list \<Rightarrow> nat list \<Rightarrow> nat \<Rightarrow> nat \<Rightarrow> nat option" where
  "scan_byte pattern table byte matched = do {
     matched \<leftarrow> fall (\<lambda>m. if m = length pattern then Some True else byte_differs pattern byte m)
                 table matched;
     advance pattern byte matched
   }"

fun scan :: "nat list \<Rightarrow> nat list \<Rightarrow> nat list \<Rightarrow> nat \<Rightarrow> nat option" where
  "scan pattern table [] matched = Some matched"
| "scan pattern table (byte # text) matched = do {
     matched \<leftarrow> scan_byte pattern table byte matched;
     scan pattern table text matched
   }"

text \<open>The body of the loop over the secrets: the number of bytes one secret withholds.\<close>

definition withheld :: "nat list \<Rightarrow> nat list \<Rightarrow> nat option" where
  "withheld pattern text = do {
     table \<leftarrow> prefix_table pattern;
     matched \<leftarrow> scan pattern table text 0;
     if matched = length pattern then idx table (matched - 1) else Some matched
   }"

section \<open>Borders\<close>

text \<open>\<open>ends_with p t k\<close>: the first \<open>k\<close> bytes of the pattern end the text.\<close>

definition ends_with :: "'b list \<Rightarrow> 'b list \<Rightarrow> nat \<Rightarrow> bool" where
  "ends_with p t k \<longleftrightarrow> k \<le> length p \<and> suffix (take k p) t"

definition longest :: "'b list \<Rightarrow> 'b list \<Rightarrow> nat \<Rightarrow> bool" where
  "longest p t m \<longleftrightarrow> ends_with p t m \<and> (\<forall>k. ends_with p t k \<longrightarrow> k \<le> m)"

text \<open>The border of a prefix of the pattern, as the search for the pattern in its own tail.\<close>

abbreviation border :: "'b list \<Rightarrow> nat \<Rightarrow> nat \<Rightarrow> bool" where
  "border p m f \<equiv> longest p (tl (take m p)) f"

lemma ends_with_0 [simp]: "ends_with p t 0"
  by (simp add: ends_with_def)

lemma ends_with_length: "ends_with p t k \<Longrightarrow> k \<le> length t"
  by (auto simp: ends_with_def dest: suffix_length_le)

lemma longest_Nil [simp]: "longest p [] m \<longleftrightarrow> m = 0"
  by (auto simp: longest_def ends_with_def)

lemma ends_with_snoc: "ends_with p (t @ [c]) (Suc k) \<longleftrightarrow> k < length p \<and> p ! k = c \<and> ends_with p t k"
  by (auto simp: ends_with_def take_Suc_conv_app_nth)

lemma ends_with_tl: "ends_with p (tl t) k \<longleftrightarrow> ends_with p t k \<and> (t = [] \<or> k < length t)"
proof (cases t)
  case (Cons c u)
  have "suffix (take k p) u \<longleftrightarrow> suffix (take k p) (c # u) \<and> take k p \<noteq> c # u"
    by (auto simp: suffix_Cons dest: suffix_length_le)
  moreover have "k = Suc (length u)" if "k \<le> length p" "take k p = c # u"
    using that by (metis length_Cons length_take min.absorb2)
  ultimately show ?thesis
    using Cons by (auto simp: ends_with_def suffix_Cons dest: suffix_length_le)
qed simp

lemma ends_with_chain:
  assumes "ends_with p t m" "ends_with p t k" "k < m"
  shows "ends_with p (tl (take m p)) k"
proof -
  have "suffix (take k p) (take m p)"
    using assms by (auto simp: ends_with_def intro: suffix_length_suffix)
  then have "ends_with p (take m p) k"
    using assms by (simp add: ends_with_def)
  moreover have "k < length (take m p)"
    using assms by (simp add: ends_with_def)
  ultimately show ?thesis
    by (simp add: ends_with_tl)
qed

lemma ends_with_trans:
  assumes "ends_with p t m" "ends_with p (tl (take m p)) f"
  shows "ends_with p t f"
  using assms suffix_order.trans unfolding ends_with_tl by (fastforce simp: ends_with_def)

lemma border_less: "border p m f \<Longrightarrow> 0 < m \<Longrightarrow> m \<le> length p \<Longrightarrow> f < m"
  using ends_with_length [of p "tl (take m p)" f] by (auto simp: longest_def)

section \<open>The loops are exact\<close>

text \<open>The entries below \<open>n\<close> are the borders of the prefixes they stand for.\<close>

definition table_upto :: "nat list \<Rightarrow> nat list \<Rightarrow> nat \<Rightarrow> bool" where
  "table_upto p table n \<longleftrightarrow>
     length table = length p \<and> n \<le> length p \<and> (\<forall>j < n. border p (Suc j) (table ! j))"

lemma table_upto_border:
  "table_upto p table n \<Longrightarrow> 0 < m \<Longrightarrow> m \<le> n \<Longrightarrow> border p m (table ! (m - 1))"
  by (cases m) (simp_all add: table_upto_def)

lemma table_upto_less:
  assumes "table_upto p table n" "0 < m" "m \<le> n"
  shows "table ! (m - 1) < m"
  using border_less [OF table_upto_border [OF assms]] assms by (simp add: table_upto_def)

text \<open>A fall keeps every candidate for the next byte.\<close>

lemma fall_exact:
  assumes "table_upto p table n" "m \<le> n" "ends_with p t m"
    "\<And>k. ends_with p (t @ [c]) (Suc k) \<Longrightarrow> k \<le> m"
    "\<And>k. k \<le> m \<Longrightarrow> again k = Some (k = length p \<or> c \<noteq> p ! k)"
  shows "\<exists>m'. fall again table m = Some m' \<and> m' \<le> m \<and> ends_with p t m' \<and>
           (\<forall>k. ends_with p (t @ [c]) (Suc k) \<longrightarrow> k \<le> m') \<and>
           (m' = 0 \<or> m' < length p \<and> p ! m' = c)"
  using assms
proof (induction m rule: less_induct)
  case (less m)
  show ?case
  proof (cases "0 < m \<and> (m = length p \<or> c \<noteq> p ! m)")
    case False
    have "fall again table m = Some m"
      using False less.prems(5) [of m] by (subst fall.simps) auto
    moreover have "m = 0 \<or> m < length p \<and> p ! m = c"
      using False less.prems(3) by (auto simp: ends_with_def)
    ultimately show ?thesis
      using less.prems by blast
  next
    case True
    define f where "f = table ! (m - 1)"
    have f: "border p m f"
      unfolding f_def using True less.prems(1,2) by (intro table_upto_border) auto
    have "f < m"
      unfolding f_def using True less.prems(1,2) by (intro table_upto_less) auto
    have cand: "k \<le> f" if "ends_with p (t @ [c]) (Suc k)" for k
    proof -
      have "k < length p" "p ! k = c" "ends_with p t k"
        using that by (auto simp: ends_with_snoc)
      moreover have "k \<le> m"
        using that by (rule less.prems(4))
      ultimately have "k < m"
        using True by (cases "k = m") auto
      then show ?thesis
        using ends_with_chain [OF less.prems(3) \<open>ends_with p t k\<close>] f by (simp add: longest_def)
    qed
    have "ends_with p t f"
      using less.prems(3) f by (auto simp: longest_def intro: ends_with_trans)
    moreover have "idx table (m - 1) = Some f"
      using True less.prems(1,2) by (auto simp: table_upto_def f_def)
    then have "fall again table m = fall again table f"
      using True less.prems(5) [of m] by (subst fall.simps) auto
    ultimately show ?thesis
      using less.IH [OF \<open>f < m\<close> less.prems(1)] less.prems(2,5) cand \<open>f < m\<close>
      by (smt (verit, best) le_trans less_imp_le_nat)
  qed
qed

lemma longest_snoc:
  assumes "ends_with p t m" "\<And>k. ends_with p (t @ [c]) (Suc k) \<Longrightarrow> k \<le> m"
    "m = 0 \<or> m < length p \<and> p ! m = c" "p \<noteq> []"
  shows "longest p (t @ [c]) (if c = p ! m then m + 1 else m)"
proof -
  have ub: "k \<le> (if c = p ! m then m + 1 else m)" if "ends_with p (t @ [c]) k" for k
  proof (cases k)
    case (Suc j)
    then have "j \<le> m" "p ! j = c"
      using that assms(2) by (auto simp: ends_with_snoc)
    then show ?thesis
      using assms(3) Suc by (auto simp: le_less)
  qed simp
  have "ends_with p (t @ [c]) (if c = p ! m then m + 1 else m)"
    using assms(1,3,4) by (auto simp: ends_with_snoc)
  then show ?thesis
    using ub by (simp add: longest_def)
qed

lemma advance_eq: "m < length p \<Longrightarrow> advance p c m = Some (if c = p ! m then m + 1 else m)"
  by (simp add: advance_def)

lemma scan_byte_exact:
  assumes "table_upto p table (length p)" "p \<noteq> []" "longest p t m"
  shows "\<exists>m'. scan_byte p table c m = Some m' \<and> longest p (t @ [c]) m'"
proof -
  let ?again = "\<lambda>m. if m = length p then Some True else byte_differs p c m"
  have cand: "k \<le> m" if "ends_with p (t @ [c]) (Suc k)" for k
    using that assms(3) by (auto simp: longest_def ends_with_snoc)
  have "m \<le> length p" "ends_with p t m"
    using assms(3) by (auto simp: longest_def ends_with_def)
  moreover have "?again k = Some (k = length p \<or> c \<noteq> p ! k)" if "k \<le> m" for k
    using that \<open>m \<le> length p\<close> by (auto simp: byte_differs_def)
  ultimately obtain m' where m': "fall ?again table m = Some m'" "ends_with p t m'"
      "\<forall>k. ends_with p (t @ [c]) (Suc k) \<longrightarrow> k \<le> m'" "m' = 0 \<or> m' < length p \<and> p ! m' = c"
    using fall_exact [OF assms(1), of m t c ?again] cand by blast
  have "m' < length p"
    using m'(4) assms(2) by auto
  then show ?thesis
    using m' longest_snoc [OF m'(2), of c] assms(2) by (simp add: scan_byte_def advance_eq)
qed

lemma scan_exact:
  "table_upto p table (length p) \<Longrightarrow> p \<noteq> [] \<Longrightarrow> longest p t m \<Longrightarrow>
     \<exists>m'. scan p table u m = Some m' \<and> longest p (t @ u) m'"
proof (induction u arbitrary: t m)
  case (Cons c u)
  then obtain m1 where "scan_byte p table c m = Some m1" "longest p (t @ [c]) m1"
    using scan_byte_exact by blast
  then show ?case
    using Cons.IH [of "t @ [c]" m1] Cons.prems by simp
qed simp

lemma prefix_entry_exact:
  assumes "table_upto p table i" "0 < i" "i < length p"
  shows "\<exists>table'. prefix_entry p table i = Some table' \<and> table_upto p table' (Suc i)"
proof -
  let ?t = "tl (take i p)" and ?m = "table ! (i - 1)"
  have t: "tl (take (Suc i) p) = ?t @ [p ! i]"
    using assms(2,3) by (cases "take i p") (auto simp: take_Suc_conv_app_nth)
  have m: "longest p ?t ?m"
    using assms by (intro table_upto_border [of p table i i]) auto
  have "?m < i"
    using assms by (intro table_upto_less [of p table i]) auto
  have cand: "k \<le> ?m" if "ends_with p (?t @ [p ! i]) (Suc k)" for k
    using that m by (auto simp: longest_def ends_with_snoc)
  have again: "byte_differs p (p ! i) k = Some (k = length p \<or> p ! i \<noteq> p ! k)" if "k \<le> ?m" for k
    using that \<open>?m < i\<close> assms(3) by (auto simp: byte_differs_def)
  have "ends_with p ?t ?m"
    using m by (simp add: longest_def)
  then obtain m' where m': "fall (byte_differs p (p ! i)) table ?m = Some m'" "ends_with p ?t m'"
      "\<forall>k. ends_with p (?t @ [p ! i]) (Suc k) \<longrightarrow> k \<le> m'" "m' = 0 \<or> m' < length p \<and> p ! m' = p ! i"
    using fall_exact [OF assms(1), of ?m ?t "p ! i"] cand again \<open>?m < i\<close> by (metis less_imp_le_nat)
  let ?f = "if p ! i = p ! m' then m' + 1 else m'"
  have "border p (Suc i) ?f"
    unfolding t using m' assms(3) by (intro longest_snoc) auto
  moreover have "m' < length p"
    using m'(4) assms(3) by auto
  ultimately show ?thesis
    using assms m'(1)
    by (auto simp: prefix_entry_def advance_eq table_upto_def nth_list_update less_Suc_eq)
qed

lemma prefix_loop_exact:
  assumes "table_upto p table i" "0 < i" "i \<le> length p"
  shows "\<exists>table'. prefix_loop p table [i..<length p] = Some table' \<and> table_upto p table' (length p)"
  using assms
proof (induction "length p - i" arbitrary: i table)
  case (Suc d)
  then have i: "i < length p" and l: "[i..<length p] = i # [Suc i..<length p]"
    by (simp_all add: upt_rec)
  obtain table1 where 1: "prefix_entry p table i = Some table1" "table_upto p table1 (Suc i)"
    using prefix_entry_exact [OF Suc.prems(1,2) i] by blast
  show ?case
    unfolding l using Suc.hyps(1) [of "Suc i" table1] Suc.hyps(2) 1 i by simp
qed simp

lemma prefix_table_exact:
  "p \<noteq> [] \<Longrightarrow> \<exists>table. prefix_table p = Some table \<and> table_upto p table (length p)"
proof -
  assume p: "p \<noteq> []"
  then have "table_upto p (replicate (length p) 0) 1"
    by (cases p) (simp_all add: table_upto_def)
  then show ?thesis
    unfolding prefix_table_def using p by (intro prefix_loop_exact) (auto simp: Suc_le_eq)
qed

text \<open>What a secret withholds: the longest proper prefix of it that ends the text.\<close>

theorem withheld_exact:
  assumes "p \<noteq> []"
  shows "\<exists>h. withheld p t = Some h \<and> h < length p \<and> ends_with p t h \<and>
           (\<forall>k < length p. ends_with p t k \<longrightarrow> k \<le> h)"
proof -
  obtain table where table: "prefix_table p = Some table" "table_upto p table (length p)"
    using prefix_table_exact [OF assms] by blast
  obtain m where m: "scan p table t 0 = Some m" "longest p t m"
    using scan_exact [OF table(2) assms, of "[]" 0 t] by auto
  show ?thesis
  proof (cases "m = length p")
    case True
    let ?f = "table ! (m - 1)"
    have f: "border p m ?f"
      using table(2) assms True by (intro table_upto_border) auto
    have len: "length table = length p"
      using table(2) by (simp add: table_upto_def)
    then have "withheld p t = Some ?f"
      using table m True assms by (simp add: withheld_def)
    moreover have "?f < length p"
      using border_less [OF f] True assms by simp
    moreover have "ends_with p t ?f"
      using m(2) f by (auto simp: longest_def intro: ends_with_trans)
    moreover have "k \<le> ?f" if "k < length p" "ends_with p t k" for k
      using ends_with_chain [of p t m k] that m(2) f True by (simp add: longest_def)
    ultimately show ?thesis
      by blast
  next
    case False
    then show ?thesis
      using table m by (auto simp: withheld_def longest_def ends_with_def)
  qed
qed

end
