(* ===== verification/Masking.thy ===== *)
theory Masking
  imports Rust_Str "HOL-Library.Product_Lexorder"
begin

text \<open>
  What a redacted text is: the spans of byte offsets to mask, their union, and the text in which every
  covered run is one marker. The code computes it by merging the sorted spans and copying the pieces
  between them; the facts here relate the merged spans to the spans they come from. Two versions of the
  merge exist in the source, which differ in whether spans that only meet become one: the locale
  \<open>touching\<close> holds what they share.
\<close>

type_synonym span = "nat \<times> nat"

definition marker :: rstring where
  "marker = lit ''[REDACTED]''"

section \<open>The masked text\<close>

definition covered :: "span set \<Rightarrow> nat \<Rightarrow> bool" where
  "covered I x \<longleftrightarrow> (\<exists>(s, e) \<in> I. s \<le> x \<and> x < e)"

fun mask_text :: "(nat \<Rightarrow> bool) \<Rightarrow> (nat \<Rightarrow> bool) \<Rightarrow> nat \<Rightarrow> rstring \<Rightarrow> rstring" where
  "mask_text cov fresh off [] = []"
| "mask_text cov fresh off (c # s) =
     (if \<not> cov off then [c] else if fresh off then marker else []) @ mask_text cov fresh (off + len_utf8 c) s"

lemma mask_append: "mask_text cov fresh off (a @ b) = mask_text cov fresh off a @ mask_text cov fresh (off + str_len a) b"
  by (induction a arbitrary: off) (simp_all add: add.assoc)

lemma mask_cong:
  assumes "\<And>x. off \<le> x \<Longrightarrow> x < off + str_len s \<Longrightarrow> cov x = cov' x"
    "\<And>x. off \<le> x \<Longrightarrow> x < off + str_len s \<Longrightarrow> cov x \<Longrightarrow> fresh x = fresh' x"
  shows "mask_text cov fresh off s = mask_text cov' fresh' off s"
  using assms
proof (induction s arbitrary: off)
  case (Cons c s)
  have "off < off + str_len (c # s)"
    by simp
  then have "cov off = cov' off" "cov off \<Longrightarrow> fresh off = fresh' off"
    using Cons.prems by blast+
  moreover have "mask_text cov fresh (off + len_utf8 c) s = mask_text cov' fresh' (off + len_utf8 c) s"
    by (rule Cons.IH) (use Cons.prems in simp_all)
  ultimately show ?case
    by simp
qed simp

lemma mask_shift: "mask_text cov fresh (k + off) s = mask_text (\<lambda>x. cov (k + x)) (\<lambda>x. fresh (k + x)) off s"
  by (induction s arbitrary: off) (simp_all add: add.assoc)

lemma mask_clear:
  "(\<And>x. off \<le> x \<Longrightarrow> x < off + str_len s \<Longrightarrow> \<not> cov x) \<Longrightarrow> mask_text cov fresh off s = s"
proof (induction s arbitrary: off)
  case (Cons c s)
  have "\<not> cov off" and "mask_text cov fresh (off + len_utf8 c) s = s"
    using Cons by auto
  then show ?case
    by simp
qed simp

lemma mask_stale:
  "(\<And>x. off \<le> x \<Longrightarrow> x < off + str_len s \<Longrightarrow> cov x \<and> \<not> fresh x) \<Longrightarrow> mask_text cov fresh off s = []"
proof (induction s arbitrary: off)
  case (Cons c s)
  have "cov off \<and> \<not> fresh off"
    by (rule Cons.prems) simp_all
  moreover have "mask_text cov fresh (off + len_utf8 c) s = []"
    by (rule Cons.IH) (use Cons.prems in simp_all)
  ultimately show ?case
    by simp
qed simp

lemma mask_run:
  assumes "s \<noteq> []" "\<And>x. off \<le> x \<Longrightarrow> x < off + str_len s \<Longrightarrow> cov x \<and> (fresh x \<longleftrightarrow> x = off)"
  shows "mask_text cov fresh off s = marker"
proof (cases s)
  case (Cons c t)
  have "cov off \<and> fresh off"
    using assms(2) [of off] Cons by simp
  moreover have "mask_text cov fresh (off + len_utf8 c) t = []"
    by (rule mask_stale) (use assms(2) Cons len_utf8_pos [of c] in \<open>auto simp del: len_utf8_pos\<close>)
  ultimately show ?thesis
    using Cons by simp
qed (use assms in simp)

section \<open>Merging\<close>

text \<open>\<open>merged.last_mut()\<close> is the head of the second argument.\<close>

fun merge_spans :: "(nat \<Rightarrow> nat \<Rightarrow> bool) \<Rightarrow> span list \<Rightarrow> span list \<Rightarrow> span list" where
  "merge_spans touch merged [] = rev merged"
| "merge_spans touch [] ((start, end) # r) = merge_spans touch [(start, end)] r"
| "merge_spans touch ((s, previous) # merged) ((start, end) # r) =
     (if touch start previous then merge_spans touch ((s, max previous end) # merged) r
      else merge_spans touch ((start, end) # (s, previous) # merged) r)"

definition unbroken :: "(nat \<Rightarrow> nat \<Rightarrow> bool) \<Rightarrow> span set \<Rightarrow> nat \<Rightarrow> bool" where
  "unbroken touch I x \<longleftrightarrow> (\<exists>(s, e) \<in> I. s < x \<and> touch x e)"

definition begins :: "span set \<Rightarrow> nat \<Rightarrow> bool" where
  "begins I x \<longleftrightarrow> (\<exists>e. (x, e) \<in> I)"

lemma span_simps [simp]:
  "\<not> covered {} x" "covered (insert (s, e) I) x \<longleftrightarrow> s \<le> x \<and> x < e \<or> covered I x"
  "\<not> unbroken touch {} x" "unbroken touch (insert (s, e) I) x \<longleftrightarrow> s < x \<and> touch x e \<or> unbroken touch I x"
  "\<not> begins {} x" "begins (insert (s, e) I) x \<longleftrightarrow> x = s \<or> begins I x"
  "covered (I \<union> J) x \<longleftrightarrow> covered I x \<or> covered J x"
  "unbroken touch (I \<union> J) x \<longleftrightarrow> unbroken touch I x \<or> unbroken touch J x"
  by (auto simp: covered_def unbroken_def begins_def)

text \<open>Spans in order, apart from one another.\<close>

fun apart :: "(nat \<Rightarrow> nat \<Rightarrow> bool) \<Rightarrow> span list \<Rightarrow> bool" where
  "apart touch [] = True"
| "apart touch ((s, e) # r) \<longleftrightarrow> s < e \<and> (\<forall>(s', e') \<in> set r. e \<le> s' \<and> \<not> touch s' e) \<and> apart touch r"

locale touching =
  fixes touch :: "nat \<Rightarrow> nat \<Rightarrow> bool"
  assumes touch_mono: "touch x e \<Longrightarrow> x' \<le> x \<Longrightarrow> touch x' e"
    and touch_max: "touch x (max a b) \<longleftrightarrow> touch x a \<or> touch x b"
    and touch_inside: "x < e \<Longrightarrow> touch x e"
    and touch_le: "touch x e \<Longrightarrow> x \<le> e"
begin

fun merge1 :: "span \<Rightarrow> span list \<Rightarrow> span list" where
  "merge1 p [] = [p]"
| "merge1 (s, previous) ((start, end) # r) =
     (if touch start previous then merge1 (s, max previous end) r else (s, previous) # merge1 (start, end) r)"

lemma merge_spans_merge1: "merge_spans touch (p # merged) r = rev merged @ merge1 p r"
  by (induction p r arbitrary: merged rule: merge1.induct) simp_all

lemma merge1_covered:
  "sorted (s # map fst r) \<Longrightarrow> covered (set (merge1 (s, e) r)) x \<longleftrightarrow> covered (set ((s, e) # r)) x"
proof (induction "(s, e)" r arbitrary: s e rule: merge1.induct)
  case (2 s previous start "end" r)
  show ?case
  proof (cases "touch start previous")
    case True
    then have "start \<le> previous" "s \<le> start"
      using touch_le 2(3) by auto
    moreover have "covered (set (merge1 (s, max previous end) r)) x \<longleftrightarrow> covered (set ((s, max previous end) # r)) x"
      using 2(3) by (intro 2(1) True) auto
    ultimately show ?thesis
      using True by auto
  next
    case False
    then show ?thesis
      using 2(2,3) by auto
  qed
qed simp

lemma merge1_ge: "sorted (s # map fst r) \<Longrightarrow> (s', e') \<in> set (merge1 (s, e) r) \<Longrightarrow> s \<le> s'"
  by (induction "(s, e)" r arbitrary: s e rule: merge1.induct) (fastforce split: if_splits)+

lemma merge1_begins:
  assumes "sorted (s # map fst r)" "\<forall>(s', e') \<in> set ((s, e) # r). s' < e'"
  shows "begins (set (merge1 (s, e) r)) x \<longleftrightarrow>
           begins (set ((s, e) # r)) x \<and> \<not> unbroken touch (set ((s, e) # r)) x"
  using assms
proof (induction "(s, e)" r arbitrary: s e rule: merge1.induct)
  case (1 s e)
  then show ?case by auto
next
  case (2 s previous start "end" r)
  have le: "s \<le> start" "sorted (s # map fst r)" "sorted (start # map fst r)"
    using 2(3) by auto
  have low: "start \<le> s'" if "(s', e') \<in> set r" for s' e'
    using that le(3) by auto
  show ?case
  proof (cases "touch start previous")
    case True
    have IH: "begins (set (merge1 (s, max previous end) r)) x \<longleftrightarrow>
        begins (set ((s, max previous end) # r)) x \<and> \<not> unbroken touch (set ((s, max previous end) # r)) x"
      using 2(4) by (intro 2(1) [OF True le(2)]) auto
    show ?thesis
    proof (cases "s < x \<and> x \<le> start")
      case True
      then have "touch x previous"
        using touch_mono [OF \<open>touch start previous\<close>] by blast
      then show ?thesis
        using IH True \<open>touch start previous\<close> by (simp add: touch_max)
    next
      case False
      then have "start < x \<or> x \<le> s"
        by auto
      then show ?thesis
        using IH \<open>touch start previous\<close> le(1) by (auto simp: touch_max)
    qed
  next
    case False
    have IH: "begins (set (merge1 (start, end) r)) x \<longleftrightarrow>
        begins (set ((start, end) # r)) x \<and> \<not> unbroken touch (set ((start, end) # r)) x"
      using 2(4) by (intro 2(2) [OF False le(3)]) auto
    have "s < start"
      using False le(1) 2(4) touch_inside [of start previous] by (cases "s = start") auto
    have above: "\<not> touch x previous" if "start \<le> x"
      using that touch_mono False by blast
    have "start \<le> x" if "begins (set r) x"
      using that low by (auto simp: begins_def)
    moreover have "\<not> unbroken touch (set r) s"
      using low \<open>s < start\<close> by (fastforce simp: unbroken_def)
    ultimately show ?thesis
      using IH False \<open>s < start\<close> above by auto
  qed
qed

lemma merge1_apart:
  assumes "sorted (s # map fst r)" "\<forall>(s', e') \<in> set ((s, e) # r). s' < e'"
  shows "apart touch (merge1 (s, e) r)"
  using assms
proof (induction "(s, e)" r arbitrary: s e rule: merge1.induct)
  case (2 s previous start "end" r)
  show ?case
  proof (cases "touch start previous")
    case True
    have "apart touch (merge1 (s, max previous end) r)"
      using 2(3,4) by (intro 2(1) [OF True]) auto
    then show ?thesis
      using True by simp
  next
    case False
    have "previous \<le> s' \<and> \<not> touch s' previous" if "(s', e') \<in> set (merge1 (start, end) r)" for s' e'
    proof -
      have "start \<le> s'"
        using that 2(3) by (intro merge1_ge [of start r s' e' "end"]) auto
      moreover have "previous \<le> start"
        using False touch_inside [of start previous] by linarith
      ultimately show ?thesis
        using False touch_mono [of s' previous start] by auto
    qed
    moreover have "apart touch (merge1 (start, end) r)"
      using 2(3,4) by (intro 2(2) [OF False]) auto
    ultimately show ?thesis
      using False 2(4) by auto
  qed
qed simp

text \<open>What the merged spans are, from the sorted spans.\<close>

lemma merge_spans:
  assumes "sorted (map fst L)" "\<forall>(s, e) \<in> set L. s < e"
  shows "covered (set (merge_spans touch [] L)) x \<longleftrightarrow> covered (set L) x"
    "begins (set (merge_spans touch [] L)) x \<longleftrightarrow> begins (set L) x \<and> \<not> unbroken touch (set L) x"
    "apart touch (merge_spans touch [] L)"
    "covered (set L) x \<Longrightarrow> begins (set (merge_spans touch [] L)) x \<longleftrightarrow> \<not> unbroken touch (set L) x"
proof -
  show "covered (set (merge_spans touch [] L)) x \<longleftrightarrow> covered (set L) x"
  proof (cases L)
    case (Cons p r)
    then show ?thesis
      using assms merge1_covered [of "fst p" r "snd p"] by (cases p) (auto simp: merge_spans_merge1)
  qed simp
  show b: "begins (set (merge_spans touch [] L)) x \<longleftrightarrow> begins (set L) x \<and> \<not> unbroken touch (set L) x"
  proof (cases L)
    case (Cons p r)
    then show ?thesis
      using assms merge1_begins [of "fst p" r "snd p" x] by (cases p) (auto simp: merge_spans_merge1)
  qed simp
  show "apart touch (merge_spans touch [] L)"
  proof (cases L)
    case (Cons p r)
    then show ?thesis
      using assms merge1_apart [of "fst p" r "snd p"] by (cases p) (auto simp: merge_spans_merge1)
  qed simp
  assume "covered (set L) x"
  then obtain s e where "(s, e) \<in> set L" "s \<le> x" "x < e"
    by (auto simp: covered_def)
  then have "begins (set L) x \<or> unbroken touch (set L) x"
    using touch_inside [of x e] by (cases "s = x") (fastforce simp: begins_def unbroken_def)+
  then show "begins (set (merge_spans touch [] L)) x \<longleftrightarrow> \<not> unbroken touch (set L) x"
    using b by blast
qed

end

lemma merge_spans_ends:
  assumes "\<forall>(s, e) \<in> set merged \<union> set L. P s \<and> P e"
  shows "\<forall>(s, e) \<in> set (merge_spans touch merged L). P s \<and> P e"
  using assms
proof (induction touch merged L rule: merge_spans.induct)
  case (3 touch s previous merged start "end" r)
  then show ?case
    by (cases "touch start previous") (auto simp: max_def)
qed simp_all

text \<open>Copying the pieces between spans that are apart is the masked text.\<close>

lemma mask_span:
  assumes "apart touch ((s, e) # M)" "str_len a \<le> s" "is_char_boundary (a @ r) s" "is_char_boundary (a @ r) e"
  obtains u v w where "r = u @ v @ w" "str_len (a @ u) = s" "str_len (a @ u @ v) = e"
    "mask_text (covered (set ((s, e) # M))) (begins (set ((s, e) # M))) (str_len a) r =
       u @ marker @ mask_text (covered (set M)) (begins (set M)) e w"
proof -
  obtain t1 x where t1: "a @ r = t1 @ x" "str_len t1 = s"
    using assms(3) by (auto simp: is_char_boundary_iff)
  obtain t2 y where t2: "a @ r = t2 @ y" "str_len t2 = e"
    using assms(4) by (auto simp: is_char_boundary_iff)
  obtain u where u: "t1 = a @ u" "r = u @ x"
    using t1 assms(2) append_str_len [of t1 x a r] by auto
  obtain v where v: "t2 = t1 @ v" "x = v @ y"
    using t1 t2 assms(1) append_str_len [of t2 y t1 x] by auto
  have len: "str_len (a @ u) = s" "str_len (a @ u @ v) = e"
    using t1(2) t2(2) u(1) v(1) by simp_all
  have later: "e \<le> x" if "begins (set M) x \<or> covered (set M) x" for x
    using that assms(1) by (fastforce simp: begins_def covered_def)
  let ?cov = "covered (set ((s, e) # M))" and ?fresh = "begins (set ((s, e) # M))"
  have "mask_text ?cov ?fresh (str_len a) u = u"
    by (rule mask_clear) (use later len assms(1) in \<open>fastforce\<close>)
  moreover have "mask_text ?cov ?fresh s v = marker"
    by (rule mask_run) (use later len assms(1) in \<open>fastforce\<close>)+
  moreover have "mask_text ?cov ?fresh e y = mask_text (covered (set M)) (begins (set M)) e y"
    by (rule mask_cong) (use assms(1) in auto)
  moreover have "str_len a + str_len u = s" "s + str_len v = e"
    using len by simp_all
  ultimately have "mask_text ?cov ?fresh (str_len a) r = u @ marker @ mask_text (covered (set M)) (begins (set M)) e y"
    unfolding u(2) v(2) by (simp add: mask_append)
  then show thesis
    using that u(2) v(2) len by simp
qed

text \<open>The reference: the text in which each run of the spans is one marker.\<close>

definition masked :: "(nat \<Rightarrow> nat \<Rightarrow> bool) \<Rightarrow> span set \<Rightarrow> rstring \<Rightarrow> rstring" where
  "masked touch I text = mask_text (covered I) (\<lambda>x. \<not> unbroken touch I x) 0 text"

lemma sorted_fst: "sorted (L :: span list) \<Longrightarrow> sorted (map fst L)"
  by (induction L) (auto simp: less_eq_prod_def)

interpretation overlapping: touching "(<)"
  by unfold_locales auto

interpretation adjacent: touching "(\<le>)"
  by unfold_locales (auto simp: le_max_iff_disj)

text \<open>Spans that do not cross the end of a part: the parts are masked on their own.\<close>

definition shift_span :: "nat \<Rightarrow> span \<Rightarrow> span" where
  "shift_span k = (\<lambda>(s, e). (k + s, k + e))"

lemma in_shift_span: "(s, e) \<in> shift_span k ` I \<longleftrightarrow> (\<exists>s' e'. s = k + s' \<and> e = k + e' \<and> (s', e') \<in> I)"
  by (force simp: shift_span_def)

lemma covered_shift: "covered (shift_span k ` I) (k + x) \<longleftrightarrow> covered I x"
  by (simp add: covered_def shift_span_def case_prod_beta)

lemma unbroken_shift: "unbroken (<) (shift_span k ` I) (k + x) \<longleftrightarrow> unbroken (<) I x"
  by (simp add: unbroken_def shift_span_def case_prod_beta)

lemma masked_append:
  assumes "\<forall>(s, e) \<in> I. e \<le> str_len a"
  shows "masked (<) (I \<union> shift_span (str_len a) ` J) (a @ b) = masked (<) I a @ masked (<) J b"
proof -
  let ?k = "str_len a"
  let ?K = "I \<union> shift_span ?k ` J"
  have low: "\<not> covered (shift_span ?k ` J) x \<and> \<not> unbroken (<) (shift_span ?k ` J) x" if "x < ?k" for x
    using that by (auto simp: covered_def unbroken_def shift_span_def)
  have high: "\<not> covered I x \<and> \<not> unbroken (<) I x" if "?k \<le> x" for x
    using that assms by (fastforce simp: covered_def unbroken_def)
  have "mask_text (covered ?K) (\<lambda>x. \<not> unbroken (<) ?K x) 0 a = masked (<) I a"
    unfolding masked_def by (rule mask_cong) (use low in simp_all)
  moreover have "mask_text (covered ?K) (\<lambda>x. \<not> unbroken (<) ?K x) (?k + 0) b = masked (<) J b"
    unfolding masked_def mask_shift
    by (rule mask_cong) (use high in \<open>simp_all add: covered_shift unbroken_shift\<close>)
  ultimately show ?thesis
    unfolding masked_def [of _ ?K] by (simp add: mask_append)
qed

end
