(* ===== verification/Redaction.thy ===== *)
theory Redaction
  imports Prelude Kmp Masking
begin

text \<open>
  The redactor of \<open>src/voyage/src/tools/mod.rs\<close>: the configured secrets and the credentials remembered
  while the program runs, the canonical redaction of a text, and the prefix of a growing text that may be
  published before the rest is known. The result of an operation that slices a string is \<open>None\<close> where the
  source's str_slice would panic. The list behind the shared lock is a field; a poisoned lock is not modelled.
\<close>

section \<open>The redactor\<close>

record redactor =
  rd_secrets :: "rstring list"
  rd_credentials :: "rstring list"

definition with_additional :: "redactor \<Rightarrow> rstring list \<Rightarrow> redactor" where
  "with_additional r secrets =
     (let combined = rd_secrets r @ filter (\<lambda>s. 4 \<le> str_len s) secrets;
          combined = sort_key (\<lambda>s. - int (str_len s)) combined
      in \<lparr>rd_secrets = remdups_adj combined, rd_credentials = rd_credentials r\<rparr>)"

definition redactor_new :: "rstring list \<Rightarrow> redactor" where
  "redactor_new secrets =
     \<lparr>rd_secrets = filter (\<lambda>value. 4 \<le> str_len value) secrets, rd_credentials = []\<rparr>"

definition current_secrets :: "redactor \<Rightarrow> rstring list" where
  "current_secrets r = rd_secrets r @ rd_credentials r"

definition remember_credential :: "redactor \<Rightarrow> rstring \<Rightarrow> (string, redactor) result" where
  "remember_credential r value =
     (if str_len value < 4 then Inr r
      else if value \<in> set (rd_credentials r) then Inr r
      else if \<not> (length (rd_credentials r) < 128 \<and>
                 sum_list (map str_len (rd_credentials r)) + str_len value \<le> 1024 * 1024)
           then Inl ''credential redaction capacity reached; start a new turn''
      else Inr (r\<lparr>rd_credentials := rd_credentials r @ [value]\<rparr>))"

definition contains_secret :: "redactor \<Rightarrow> rstring \<Rightarrow> bool" where
  "contains_secret r text = list_ex (contains_str text) (current_secrets r)"

section \<open>Matches\<close>

text \<open>\<open>str::match_indices\<close> of a pattern that is not empty: from the left, the search goes on after the end
  of each match.\<close>

function matches_from :: "nat \<Rightarrow> rstring \<Rightarrow> rstring \<Rightarrow> nat list" where
  "matches_from off p [] = []"
| "matches_from off p (c # s) =
     (if starts_with (c # s) p then off # matches_from (off + str_len p) p (drop (length p - 1) s)
      else matches_from (off + len_utf8 c) p s)"
  by pat_completeness auto

termination matches_from
  by (relation "measure (\<lambda>(_, _, s). length s)") auto

definition match_indices :: "rstring \<Rightarrow> rstring \<Rightarrow> nat list" where
  "match_indices text p = matches_from 0 p text"

definition secret_spans :: "rstring list \<Rightarrow> rstring \<Rightarrow> span list" where
  "secret_spans secrets text =
     concat (map (\<lambda>secret. map (\<lambda>start. (start, start + str_len secret)) (match_indices text secret)) secrets)"

section \<open>The publishable prefix\<close>

fun hold_back :: "nat \<Rightarrow> rstring list \<Rightarrow> rstring \<Rightarrow> nat option" where
  "hold_back hold [] text = Some hold"
| "hold_back hold (secret # secrets) text = do {
     matched \<leftarrow> withheld (as_bytes secret) (as_bytes text);
     hold_back (max hold matched) secrets text
   }"

fun retreat :: "nat \<Rightarrow> span list \<Rightarrow> nat" where
  "retreat end [] = end"
| "retreat end ((start, finish) # r) = retreat (if start < end \<and> end < finish then start else end) r"

definition stable_prefix :: "redactor \<Rightarrow> rstring \<Rightarrow> bool \<Rightarrow> nat option" where
  "stable_prefix r text flush =
     (if flush then Some (str_len text)
      else do {
        hold \<leftarrow> hold_back 0 (current_secrets r) text;
        (if hold \<le> str_len text then Some () else None);
        let end = floor_boundary text (str_len text - hold);
        Some (retreat end (sort_key (\<lambda>(start, _). - int start) (secret_spans (current_secrets r) text)))
      })"

section \<open>The canonical redaction\<close>

fun mask_spans :: "rstring \<Rightarrow> nat \<Rightarrow> rstring \<Rightarrow> span list \<Rightarrow> rstring option" where
  "mask_spans text offset output [] = do {
     t \<leftarrow> str_slice text offset (str_len text);
     Some (output @ t)
   }"
| "mask_spans text offset output ((start, end) # merged) = do {
     t \<leftarrow> str_slice text offset start;
     mask_spans text end (output @ t @ marker) merged
   }"

definition redact_public_prefix :: "redactor \<Rightarrow> rstring \<Rightarrow> rstring option" where
  "redact_public_prefix r text =
     mask_spans text 0 [] (merge_spans (<) [] (sort (secret_spans (current_secrets r) text)))"

section \<open>Facts about matches\<close>

definition occurs :: "rstring \<Rightarrow> rstring \<Rightarrow> nat \<Rightarrow> bool" where
  "occurs p text x \<longleftrightarrow> (\<exists>a b. text = a @ p @ b \<and> str_len a = x)"

lemma starts_with_drop:
  "p \<noteq> [] \<Longrightarrow> starts_with (c # s) p \<longleftrightarrow> c # s = p @ drop (length p - 1) s"
  by (cases p) (auto simp: starts_with_iff)

lemma starts_with_append: "starts_with s p \<Longrightarrow> starts_with (s @ b) p"
  by (auto simp: starts_with_iff)

lemma occurs_Cons:
  assumes "p \<noteq> []"
  shows "occurs p (c # s) x \<longleftrightarrow> x = 0 \<and> starts_with (c # s) p \<or> len_utf8 c \<le> x \<and> occurs p s (x - len_utf8 c)"
proof
  assume "occurs p (c # s) x"
  then obtain a b where ab: "c # s = a @ p @ b" "str_len a = x"
    by (auto simp: occurs_def)
  then show "x = 0 \<and> starts_with (c # s) p \<or> len_utf8 c \<le> x \<and> occurs p s (x - len_utf8 c)"
    by (cases a) (auto simp: starts_with_iff occurs_def)
next
  assume "x = 0 \<and> starts_with (c # s) p \<or> len_utf8 c \<le> x \<and> occurs p s (x - len_utf8 c)"
  then show "occurs p (c # s) x"
  proof
    assume "len_utf8 c \<le> x \<and> occurs p s (x - len_utf8 c)"
    then obtain a b where "s = a @ p @ b" "str_len (c # a) = x"
      by (auto simp: occurs_def)
    then show ?thesis
      unfolding occurs_def by (intro exI [of _ "c # a"] exI [of _ b]) simp
  qed (auto simp: starts_with_iff occurs_def)
qed

lemma occurs_Nil [simp]: "p \<noteq> [] \<Longrightarrow> \<not> occurs p [] x"
  by (simp add: occurs_def)

lemma occurs_end: "occurs p text x \<Longrightarrow> x + str_len p \<le> str_len text"
  by (auto simp: occurs_def)

lemma occurs_append:
  "occurs p b x \<Longrightarrow> occurs p (a @ b) (str_len a + x)"
  by (metis append.assoc occurs_def str_len_simps(3))

lemma matches_from_shift: "matches_from (k + off) p s = map ((+) k) (matches_from off p s)"
  by (induction off p s rule: matches_from.induct) (simp_all add: add.assoc)

lemma matches_occur:
  "p \<noteq> [] \<Longrightarrow> m \<in> set (matches_from off p s) \<Longrightarrow> \<exists>x. m = off + x \<and> occurs p s x"
proof (induction off p s rule: matches_from.induct)
  case (2 off p c s)
  show ?case
  proof (cases "starts_with (c # s) p")
    case True
    then have cs: "c # s = p @ drop (length p - 1) s"
      using 2(3) starts_with_drop by blast
    show ?thesis
    proof (cases "m = off")
      case False
      then obtain x where "m = off + str_len p + x" "occurs p (drop (length p - 1) s) x"
        using 2 True by auto
      then show ?thesis
        using occurs_append [of p "drop (length p - 1) s" x p] cs by (metis add.assoc)
    qed (use True 2(3) in \<open>auto simp: occurs_Cons\<close>)
  next
    case False
    then obtain x where "m = off + len_utf8 c + x" "occurs p s x"
      using 2 by auto
    then show ?thesis
      using 2(3) by (intro exI [of _ "len_utf8 c + x"]) (simp add: occurs_Cons)
  qed
qed simp

text \<open>The first character of every occurrence is in a match.\<close>

lemma occurs_matched:
  "p \<noteq> [] \<Longrightarrow> occurs p s x \<Longrightarrow> \<exists>m \<in> set (matches_from off p s). m \<le> off + x \<and> off + x < m + str_len p"
proof (induction off p s arbitrary: x rule: matches_from.induct)
  case (2 off p c s)
  show ?case
  proof (cases "starts_with (c # s) p")
    case True
    then have cs: "c # s = p @ drop (length p - 1) s"
      using 2(3) starts_with_drop by blast
    show ?thesis
    proof (cases "x < str_len p")
      case False
      obtain a b where ab: "c # s = a @ p @ b" "str_len a = x"
        using 2(4) by (auto simp: occurs_def)
      have "a @ p @ b = p @ drop (length p - 1) s"
        using ab cs by simp
      then obtain a' where a': "a = p @ a'" "drop (length p - 1) s = a' @ p @ b"
        using False ab(2) append_str_len [of a "p @ b" p "drop (length p - 1) s"] by auto
      then have "occurs p (drop (length p - 1) s) (x - str_len p)"
        using ab(2) by (auto simp: occurs_def)
      then show ?thesis
        using 2(1) [OF True 2(3), of "x - str_len p"] False True by auto
    qed (use True 2(3) in auto)
  next
    case False
    then have "len_utf8 c \<le> x" "occurs p s (x - len_utf8 c)"
      using 2(3,4) by (auto simp: occurs_Cons)
    then show ?thesis
      using 2(2) [OF False 2(3), of "x - len_utf8 c"] False by auto
  qed
qed simp

text \<open>No match crosses the end of a part: the parts are searched on their own.\<close>

lemma matches_append:
  assumes "p \<noteq> []" "\<forall>m \<in> set (matches_from off p (a @ b)). \<not> (m < off + str_len a \<and> off + str_len a < m + str_len p)"
  shows "matches_from off p (a @ b) = matches_from off p a @ matches_from (off + str_len a) p b"
  using assms
proof (induction off p a rule: matches_from.induct)
  case (2 off p c a)
  show ?case
  proof (cases "starts_with (c # a @ b) p")
    case True
    then obtain t where t: "c # a @ b = p @ t"
      by (auto simp: starts_with_iff)
    have "str_len p \<le> str_len (c # a)"
    proof -
      have "off \<in> set (matches_from off p ((c # a) @ b))"
        using True by simp
      then have "\<not> (off < off + str_len (c # a) \<and> off + str_len (c # a) < off + str_len p)"
        by (rule 2(4) [rule_format])
      moreover have "0 < str_len (c # a)"
        by simp
      ultimately show ?thesis
        by linarith
    qed
    moreover have "(c # a) @ b = p @ t"
      using t by simp
    ultimately obtain u where u: "c # a = p @ u" "t = u @ b"
      using append_str_len by blast
    have d: "drop (length p - 1) a = u" "drop (length p - 1) (a @ b) = u @ b" "str_len p + str_len u = str_len (c # a)"
      using u t 2(3) by (cases p; simp)+
    have s: "starts_with (c # a) p"
      using u by (auto simp: starts_with_iff)
    let ?d = "drop (length p - 1) a"
    have e: "off + str_len p + str_len ?d = off + str_len (c # a)"
      using d by simp
    have "\<forall>m \<in> set (matches_from (off + str_len p) p (?d @ b)).
        \<not> (m < off + str_len p + str_len ?d \<and> off + str_len p + str_len ?d < m + str_len p)"
      unfolding e using 2(4) True d by auto
    then have "matches_from (off + str_len p) p (?d @ b) =
        matches_from (off + str_len p) p ?d @ matches_from (off + str_len p + str_len ?d) p b"
      by (rule 2(1) [OF s 2(3)])
    then show ?thesis
      using True s d unfolding e by simp
  next
    case False
    then have "\<not> starts_with (c # a) p"
      using starts_with_append [of "c # a" p b] by auto
    then show ?thesis
      using 2 False by (simp add: add.assoc)
  qed
qed simp

lemma matches_prefix:
  "p \<noteq> [] \<Longrightarrow> m \<in> set (matches_from off p (a @ b)) \<Longrightarrow> m + str_len p \<le> off + str_len a \<Longrightarrow>
     m \<in> set (matches_from off p a)"
proof (induction off p a rule: matches_from.induct)
  case (1 off p)
  then show ?case
    using matches_occur [of p m off b] by auto
next
  case (2 off p c a)
  show ?case
  proof (cases "starts_with (c # a @ b) p")
    case True
    have "off \<le> m"
      using matches_occur [OF 2(3,4)] by auto
    then have "str_len p \<le> str_len (c # a)"
      using 2(5) by simp
    moreover obtain t where t: "(c # a) @ b = p @ t"
      using True by (auto simp: starts_with_iff)
    ultimately obtain u where u: "c # a = p @ u" "t = u @ b"
      using append_str_len by blast
    have d: "drop (length p - 1) (a @ b) = drop (length p - 1) a @ b" "str_len p + str_len (drop (length p - 1) a) = str_len (c # a)"
      using u t 2(3) by (cases p; simp)+
    have s: "starts_with (c # a) p"
      using u by (auto simp: starts_with_iff)
    show ?thesis
    proof (cases "m = off")
      case False
      then have "m \<in> set (matches_from (off + str_len p) p (drop (length p - 1) a @ b))"
        using 2(4) True d by simp
      then show ?thesis
        using 2(1) [OF s 2(3)] 2(5) d s by (simp add: add.assoc)
    qed (use s in simp)
  next
    case False
    then have s: "\<not> starts_with (c # a) p"
      using starts_with_append [of "c # a" p b] by auto
    show ?thesis
      using 2(2) [OF s 2(3)] 2(4,5) False s by (simp add: add.assoc)
  qed
qed

section \<open>The redactor keeps its bounds\<close>

definition redactor_ok :: "redactor \<Rightarrow> bool" where
  "redactor_ok r \<longleftrightarrow>
     (\<forall>s \<in> set (current_secrets r). 4 \<le> str_len s) \<and>
     length (rd_credentials r) \<le> 128 \<and> sum_list (map str_len (rd_credentials r)) \<le> 1024 * 1024"

lemma redactor_new_ok: "redactor_ok (redactor_new secrets)"
  by (auto simp: redactor_ok_def redactor_new_def current_secrets_def)

lemma with_additional_ok: "redactor_ok r \<Longrightarrow> redactor_ok (with_additional r secrets)"
  by (auto simp: redactor_ok_def with_additional_def current_secrets_def Let_def)

lemma remember_credential_ok:
  "redactor_ok r \<Longrightarrow> remember_credential r value = Inr r' \<Longrightarrow> redactor_ok r'"
  by (auto simp: redactor_ok_def remember_credential_def current_secrets_def split: if_splits)

text \<open>Nothing is forgotten, and what was added is known from then on.\<close>

lemma with_additional_secrets:
  "set (current_secrets (with_additional r secrets)) =
     set (current_secrets r) \<union> {s \<in> set secrets. 4 \<le> str_len s}"
  by (auto simp: with_additional_def current_secrets_def Let_def)

lemma remember_credential_secrets:
  "remember_credential r value = Inr r' \<Longrightarrow>
     set (current_secrets r') = set (current_secrets r) \<union> {s. s = value \<and> 4 \<le> str_len s}"
  by (auto simp: remember_credential_def current_secrets_def split: if_splits)

lemma secrets_not_empty: "redactor_ok r \<Longrightarrow> p \<in> set (current_secrets r) \<Longrightarrow> p \<noteq> []"
  by (auto simp: redactor_ok_def)

section \<open>Redaction masks the matches\<close>

abbreviation spans_of :: "redactor \<Rightarrow> rstring \<Rightarrow> span set" where
  "spans_of r text \<equiv> set (secret_spans (current_secrets r) text)"

lemma spans_of_iff:
  "(s, e) \<in> spans_of r text \<longleftrightarrow>
     (\<exists>p \<in> set (current_secrets r). s \<in> set (matches_from 0 p text) \<and> e = s + str_len p)"
  by (auto simp: secret_spans_def match_indices_def)

lemma span_occurs:
  assumes "redactor_ok r" "(s, e) \<in> spans_of r text"
  shows "\<exists>p \<in> set (current_secrets r). occurs p text s \<and> e = s + str_len p"
proof -
  obtain p where p: "p \<in> set (current_secrets r)" "s \<in> set (matches_from 0 p text)" "e = s + str_len p"
    using assms(2) by (auto simp: spans_of_iff)
  then show ?thesis
    using matches_occur [OF secrets_not_empty [OF assms(1) p(1)] p(2)] by auto
qed

lemma span_bounds:
  assumes "redactor_ok r" "(s, e) \<in> spans_of r text"
  shows "s < e" "is_char_boundary text s" "is_char_boundary text e" "e \<le> str_len text"
proof -
  obtain p where p: "p \<in> set (current_secrets r)" "occurs p text s" "e = s + str_len p"
    using span_occurs [OF assms] by blast
  obtain a b where ab: "text = a @ p @ b" "str_len a = s"
    using p(2) by (auto simp: occurs_def)
  have "0 < str_len p"
    using p(1) assms(1) by (auto simp: redactor_ok_def)
  then show "s < e"
    using p(3) by simp
  show "is_char_boundary text s"
    using ab by (auto simp: is_char_boundary_iff)
  show "is_char_boundary text e"
    unfolding is_char_boundary_iff using ab p(3) by (intro exI [of _ "a @ p"] exI [of _ b]) simp
  show "e \<le> str_len text"
    using ab p(3) by simp
qed

lemma mask_spans_exact:
  assumes "apart touch M" "\<forall>(s, e) \<in> set M. is_char_boundary text s \<and> is_char_boundary text e"
    "\<forall>(s, e) \<in> set M. offset \<le> s" "text = a @ r" "str_len a = offset"
  shows "mask_spans text offset out M = Some (out @ mask_text (covered (set M)) (begins (set M)) offset r)"
  using assms
proof (induction M arbitrary: a r offset out)
  case Nil
  have "str_slice text offset (str_len text) = Some r"
    using Nil unfolding str_slice_Some by (intro exI [of _ a] exI [of _ "[]"]) simp
  then show ?case
    by (simp add: mask_clear)
next
  case (Cons p M)
  obtain s e where p: "p = (s, e)"
    by fastforce
  obtain u v w where uvw: "r = u @ v @ w" "str_len (a @ u) = s" "str_len (a @ u @ v) = e"
      and m: "mask_text (covered (set ((s, e) # M))) (begins (set ((s, e) # M))) (str_len a) r =
                u @ marker @ mask_text (covered (set M)) (begins (set M)) e w"
    by (rule mask_span [of touch s e M a r]) (use Cons.prems p in auto)
  have "str_slice text offset s = Some u"
    unfolding str_slice_Some using uvw Cons.prems(4,5) by (intro exI [of _ a] exI [of _ "v @ w"]) simp
  moreover have "mask_spans text e (out @ u @ marker) M =
      Some ((out @ u @ marker) @ mask_text (covered (set M)) (begins (set M)) e w)"
    by (rule Cons.IH [of e "a @ u @ v"]) (use Cons.prems p uvw in auto)
  ultimately show ?case
    using m Cons.prems(5) unfolding p by (simp del: span_simps list.set)
qed

theorem redact_exact:
  assumes "redactor_ok r"
  shows "redact_public_prefix r text = Some (masked (<) (spans_of r text) text)"
proof -
  let ?L = "sort (secret_spans (current_secrets r) text)"
  let ?M = "merge_spans (<) [] ?L"
  have L: "sorted (map fst ?L)" "\<forall>(s, e) \<in> set ?L. s < e"
    using span_bounds(1) [OF assms] by (auto intro: sorted_fst)
  have "\<forall>(s, e) \<in> set ?M. is_char_boundary text s \<and> is_char_boundary text e"
    by (rule merge_spans_ends) (use span_bounds(2,3) [OF assms] in auto)
  then have "redact_public_prefix r text = Some (mask_text (covered (set ?M)) (begins (set ?M)) 0 text)"
    unfolding redact_public_prefix_def
    by (subst mask_spans_exact [OF overlapping.merge_spans(3) [OF L], of "text" 0 "[]" "text"]) auto
  also have "mask_text (covered (set ?M)) (begins (set ?M)) 0 text = masked (<) (spans_of r text) text"
    unfolding masked_def
    by (rule mask_cong) (use overlapping.merge_spans(1,4) [OF L] in auto)
  finally show ?thesis .
qed

section \<open>What may be published\<close>

lemma hold_back_exact:
  assumes "\<forall>p \<in> set secrets. p \<noteq> []" "hold \<le> str_len text"
  shows "\<exists>h. hold_back hold secrets text = Some h \<and> hold \<le> h \<and> h \<le> str_len text \<and>
           (\<forall>p \<in> set secrets. \<forall>k < str_len p. ends_with (as_bytes p) (as_bytes text) k \<longrightarrow> k \<le> h)"
  using assms
proof (induction secrets arbitrary: hold)
  case (Cons p secrets)
  have "as_bytes p \<noteq> []"
    using Cons.prems(1) by (metis length_as_bytes list.size(3) list.set_intros(1) str_len_0)
  then obtain m where m: "withheld (as_bytes p) (as_bytes text) = Some m"
      "ends_with (as_bytes p) (as_bytes text) m"
      "\<forall>k < str_len p. ends_with (as_bytes p) (as_bytes text) k \<longrightarrow> k \<le> m"
    using withheld_exact [of "as_bytes p" "as_bytes text"] by auto
  have "max hold m \<le> str_len text"
    using ends_with_length [OF m(2)] Cons.prems(2) by simp
  then obtain h where "hold_back (max hold m) secrets text = Some h" "max hold m \<le> h" "h \<le> str_len text"
      "\<forall>p \<in> set secrets. \<forall>k < str_len p. ends_with (as_bytes p) (as_bytes text) k \<longrightarrow> k \<le> h"
    using Cons.IH [of "max hold m"] Cons.prems(1) by auto
  then show ?case
    using m by auto
qed simp

lemma retreat_le: "retreat end L \<le> end"
  by (induction "end" L rule: retreat.induct) (auto split: if_splits)

lemma retreat_cases: "retreat end L = end \<or> retreat end L \<in> fst ` set L"
  by (induction "end" L rule: retreat.induct) (auto split: if_splits)

lemma retreat_clear:
  assumes "sorted_wrt (\<lambda>p q. fst q \<le> fst p) L"
  shows "\<forall>(s, f) \<in> set L. \<not> (s < retreat end L \<and> retreat end L < f)"
  using assms
proof (induction L arbitrary: "end")
  case (Cons p L)
  obtain s f where p: "p = (s, f)"
    by fastforce
  let ?e = "if s < end \<and> end < f then s else end"
  have "\<forall>(s, f) \<in> set L. \<not> (s < retreat ?e L \<and> retreat ?e L < f)"
    using Cons by simp
  moreover have "\<not> (s < retreat ?e L \<and> retreat ?e L < f)"
  proof
    assume a: "s < retreat ?e L \<and> retreat ?e L < f"
    then have "\<not> retreat ?e L \<in> fst ` set L"
      using Cons.prems p by auto
    then have "retreat ?e L = ?e"
      using retreat_cases by blast
    then show False
      using a by (simp split: if_splits)
  qed
  ultimately show ?case
    using p by simp
qed simp

lemma as_bytes_take: "take (str_len q) (as_bytes (q @ z)) = as_bytes q"
  by simp

lemma straddling_held:
  assumes "text @ ext = t @ p @ y" "str_len t < str_len text" "str_len text < str_len t + str_len p"
  shows "ends_with (as_bytes p) (as_bytes text) (str_len text - str_len t)"
proof -
  obtain q where q: "text = t @ q" "p @ y = q @ ext"
    using append_str_len [OF assms(1)] assms(2) by auto
  then obtain z where z: "p = q @ z"
    using append_str_len [of p y q ext] assms(3) by auto
  show ?thesis
    using q(1) z by (auto simp: ends_with_def intro: suffix_appendI)
qed

lemma stable_prefix_clear:
  assumes "redactor_ok r"
  obtains a b where "text = a @ b" "stable_prefix r text False = Some (str_len a)"
    "\<And>ext s f. (s, f) \<in> spans_of r (text @ ext) \<Longrightarrow> \<not> (s < str_len a \<and> str_len a < f)"
proof -
  let ?S = "current_secrets r"
  let ?L = "sort_key (\<lambda>(start, _). - int start) (secret_spans ?S text)"
  obtain h where h: "hold_back 0 ?S text = Some h" "h \<le> str_len text"
      "\<And>p k. p \<in> set ?S \<Longrightarrow> k < str_len p \<Longrightarrow> ends_with (as_bytes p) (as_bytes text) k \<Longrightarrow> k \<le> h"
    using hold_back_exact [of ?S 0 "text"] secrets_not_empty [OF assms] by auto
  define e0 where "e0 = floor_boundary text (str_len text - h)"
  define e where "e = retreat e0 ?L"
  have stable: "stable_prefix r text False = Some e"
    using h(1,2) by (simp add: stable_prefix_def e_def e0_def)
  have "is_char_boundary text e"
  proof (cases "e = e0")
    case False
    then obtain f where "(e, f) \<in> spans_of r text"
      using retreat_cases [of e0 ?L] by (auto simp: e_def)
    then show ?thesis
      using span_bounds(2) [OF assms] by blast
  qed (simp add: e0_def is_char_boundary_floor)
  then obtain a b where ab: "text = a @ b" "str_len a = e"
    by (auto simp: is_char_boundary_iff)
  have "sorted_wrt (\<lambda>p q. fst q \<le> fst p) ?L"
    using sorted_sort_key [of "\<lambda>(start, _). - int start" "secret_spans ?S text"]
    by (simp add: sorted_map case_prod_beta)
  then have clear: "\<not> (s < e \<and> e < f)" if "(s, f) \<in> spans_of r text" for s f
    using retreat_clear [of ?L e0] that by (auto simp: e_def)
  have "\<not> (s < str_len a \<and> str_len a < f)" if sf: "(s, f) \<in> spans_of r (text @ ext)" for ext s f
  proof (rule notI, elim conjE)
    assume lt: "s < str_len a" "str_len a < f"
    obtain p where p: "p \<in> set ?S" "s \<in> set (matches_from 0 p (text @ ext))" "f = s + str_len p"
      using sf by (auto simp: spans_of_iff)
    have "e \<le> str_len text - h"
      using retreat_le [of e0 ?L] floor_boundary_le [of "text" "str_len text - h"] by (simp add: e_def e0_def)
    show False
    proof (cases "f \<le> str_len text")
      case True
      then have "s \<in> set (matches_from 0 p text)"
        using matches_prefix [OF secrets_not_empty [OF assms p(1)] p(2)] p(3) by simp
      then have "(s, f) \<in> spans_of r text"
        using p by (auto simp: spans_of_iff)
      then show False
        using clear lt ab by blast
    next
      case False
      obtain t y where t: "text @ ext = t @ p @ y" "str_len t = s"
        using matches_occur [OF secrets_not_empty [OF assms p(1)] p(2)] by (auto simp: occurs_def)
      have "s < str_len text"
        using lt(1) ab by simp
      then have "ends_with (as_bytes p) (as_bytes text) (str_len text - s)"
        using straddling_held [OF t(1)] t(2) False p(3) by simp
      moreover have "str_len text - s < str_len p"
        using False p(3) \<open>s < str_len text\<close> by linarith
      ultimately have "str_len text - s \<le> h"
        by (intro h(3) [OF p(1)])
      then show False
        using lt(1) ab(2) \<open>e \<le> str_len text - h\<close> h(2) by linarith
    qed
  qed
  then show thesis
    using that ab stable by blast
qed

text \<open>What is published before the rest is known is what the redaction of the whole begins with, and the
  rest is redacted on its own.\<close>

theorem stable_prefix_exact:
  assumes "redactor_ok r"
  obtains a b where "text = a @ b" "stable_prefix r text False = Some (str_len a)"
    "\<And>ext. masked (<) (spans_of r (text @ ext)) (text @ ext) =
              masked (<) (spans_of r a) a @ masked (<) (spans_of r (b @ ext)) (b @ ext)"
proof -
  obtain a b where ab: "text = a @ b" "stable_prefix r text False = Some (str_len a)"
      "\<And>ext s f. (s, f) \<in> spans_of r (text @ ext) \<Longrightarrow> \<not> (s < str_len a \<and> str_len a < f)"
    using stable_prefix_clear [OF assms] by blast
  have "masked (<) (spans_of r (text @ ext)) (text @ ext) =
      masked (<) (spans_of r a) a @ masked (<) (spans_of r (b @ ext)) (b @ ext)" for ext
  proof -
    have m: "matches_from 0 p (a @ b @ ext) =
        matches_from 0 p a @ map ((+) (str_len a)) (matches_from 0 p (b @ ext))"
      if "p \<in> set (current_secrets r)" for p
    proof -
      have "\<forall>m \<in> set (matches_from 0 p (a @ b @ ext)).
          \<not> (m < 0 + str_len a \<and> 0 + str_len a < m + str_len p)"
        using ab(3) [of _ _ ext] that ab(1) by (fastforce simp: spans_of_iff)
      then show ?thesis
        using matches_append [OF secrets_not_empty [OF assms that], of 0 a "b @ ext"]
          matches_from_shift [of "str_len a" 0 p "b @ ext"] by simp
    qed
    have "spans_of r (text @ ext) = spans_of r a \<union> shift_span (str_len a) ` spans_of r (b @ ext)"
      (is "?l = ?r")
    proof (rule set_eqI)
      fix x :: span
      obtain s f where x: "x = (s, f)"
        by fastforce
      have "x \<in> ?l \<longleftrightarrow> (\<exists>p \<in> set (current_secrets r). f = s + str_len p \<and>
          (s \<in> set (matches_from 0 p a) \<or> s \<in> (+) (str_len a) ` set (matches_from 0 p (b @ ext))))"
        unfolding x spans_of_iff ab(1) append_assoc using m by auto
      also have "\<dots> \<longleftrightarrow> x \<in> ?r"
        unfolding x Un_iff in_shift_span spans_of_iff by (auto simp: add.assoc)
      finally show "x \<in> ?l \<longleftrightarrow> x \<in> ?r" .
    qed
    then show ?thesis
      using masked_append [of "spans_of r a" a] span_bounds(4) [OF assms] ab(1) by fastforce
  qed
  then show thesis
    using that ab by blast
qed

end
