(* ===== verification/Messages.thy ===== *)
theory Messages
  imports Rust_Str
begin

text \<open>
  Messages of a conversation (\<open>voyage/src/model.rs\<close>), the results of tools
  (\<open>crates/voyage-protocol/src/tool_result.rs\<close>) and content parts. A JSON value is its canonical text;
  the serialised forms of larger values are functions that the operations take in a record, and the
  JSON text of a list has the length of its items, the separators and the brackets.
\<close>

type_synonym json = rstring

section \<open>Tool results\<close>

record artifact_reference =
  af_id :: uuid
  af_sha256 :: rstring
  af_name :: rstring
  af_mime_type :: rstring
  af_byte_size :: nat

datatype tool_content =
  Content_Text rstring |
  Content_Image artifact_reference |
  Content_Audio artifact_reference |
  Content_Resource rstring "rstring option" "rstring option" "artifact_reference option" |
  Content_ResourceLink rstring rstring "rstring option" "rstring option" "nat option"

record tool_output =
  to_content :: "tool_content list"
  to_structured :: "json option"
  to_is_error :: bool

definition output_text :: "rstring \<Rightarrow> tool_output" where
  "output_text t = \<lparr>to_content = [Content_Text t], to_structured = None, to_is_error = False\<rparr>"

fun content_artifact :: "tool_content \<Rightarrow> artifact_reference option" where
  "content_artifact (Content_Image a) = Some a"
| "content_artifact (Content_Audio a) = Some a"
| "content_artifact (Content_Resource _ _ _ a) = a"
| "content_artifact _ = None"

definition artifacts :: "tool_output \<Rightarrow> artifact_reference list" where
  "artifacts out = List.map_filter content_artifact (to_content out)"

text \<open>The text adapter; \<open>json_of\<close> is the serialisation of a content part.\<close>

definition text_fallback :: "(tool_content \<Rightarrow> json) \<Rightarrow> tool_output \<Rightarrow> rstring" where
  "text_fallback json_of out =
     join [10] (map (\<lambda>p. case p of Content_Text t \<Rightarrow> t | other \<Rightarrow> json_of other) (to_content out) @
       (case to_structured out of None \<Rightarrow> []
        | Some v \<Rightarrow> [lit ''{\"structuredContent\":'' @ v @ lit ''}'']))"

datatype execution_outcome =
  Succeeded | ExecutionError | PolicyRefused | ApprovalDenied | ApprovalExpired | ApprovalInvalidated |
  ApprovalUnavailable | Exec_Cancelled | Exec_Unknown

datatype command_outcome = Exited int | Signalled

datatype incomplete_reason = OutputLimit | CaptureLimit | Withheld

record tool_outcome =
  oc_elapsed_ms :: "nat option"
  oc_execution :: execution_outcome
  oc_command :: "command_outcome option"
  oc_incomplete :: "incomplete_reason option"

definition outcome_success :: "tool_outcome \<Rightarrow> bool" where
  "outcome_success oc \<longleftrightarrow> oc_execution oc = Succeeded \<and> oc_incomplete oc = None \<and>
     (oc_command oc = None \<or> oc_command oc = Some (Exited 0))"

definition outcome_label :: "tool_outcome \<Rightarrow> rstring" where
  "outcome_label oc = lit (case oc_execution oc of
     PolicyRefused \<Rightarrow> ''Refused''
   | ApprovalDenied \<Rightarrow> ''Approval denied''
   | ApprovalExpired \<Rightarrow> ''Approval expired''
   | ApprovalInvalidated \<Rightarrow> ''Approval invalidated''
   | ApprovalUnavailable \<Rightarrow> ''Approval unavailable''
   | Exec_Cancelled \<Rightarrow> ''Cancelled''
   | Exec_Unknown \<Rightarrow> ''Unconfirmed''
   | ExecutionError \<Rightarrow> ''Execution error''
   | Succeeded \<Rightarrow> (case oc_command oc of
       Some (Exited code) \<Rightarrow> if code \<noteq> 0 then ''Command failed''
         else if oc_incomplete oc \<noteq> None then ''Output incomplete'' else ''Done''
     | Some Signalled \<Rightarrow> ''Command signalled''
     | None \<Rightarrow> if oc_incomplete oc \<noteq> None then ''Output incomplete'' else ''Done''))"

lemma label_done_iff: "outcome_label oc = lit ''Done'' \<longleftrightarrow> outcome_success oc"
proof -
  have inj: "lit s = lit t \<longleftrightarrow> s = t" for s t
    by (auto simp: lit_def inj_map_eq_map [of "of_char :: char \<Rightarrow> nat"] inj_on_def)
  show ?thesis
    by (cases "oc_execution oc"; cases "oc_command oc"; cases "the (oc_command oc)")
      (auto simp: outcome_label_def outcome_success_def inj)
qed

section \<open>Messages\<close>

datatype image_media_type = Png | Jpeg | WebP

record image_attachment =
  at_id :: uuid
  at_sha256 :: rstring
  at_name :: rstring
  at_media_type :: image_media_type
  at_byte_size :: nat
  at_width :: nat
  at_height :: nat

datatype content_part = Part_Text rstring | Part_Image image_attachment

datatype role = System | User | Assistant | Tool

record tool_call =
  tc_id :: rstring
  tc_name :: rstring
  tc_arguments :: json

datatype steering_status = Queued | Applied | NotApplied | UnknownAfterRestart

record steering_receipt =
  sr_id :: uuid
  sr_status :: steering_status

text \<open>Where a message of another session comes from.\<close>

record coordination_source =
  co_vessel_id :: uuid
  co_session_id :: uuid
  co_session_name :: rstring
  co_command_id :: uuid
  co_tool_call_id :: rstring

definition coordination_valid :: "uuid \<Rightarrow> coordination_source \<Rightarrow> bool" where
  "coordination_valid command c \<longleftrightarrow>
     co_tool_call_id c \<noteq> [] \<and> str_len (co_tool_call_id c) \<le> 1024 \<and> \<not> has_control (co_tool_call_id c) \<and>
     \<not> is_nil (co_vessel_id c) \<and> \<not> is_nil (co_session_id c) \<and> co_command_id c = command \<and> \<not> is_nil command \<and>
     trim (co_session_name c) \<noteq> [] \<and> str_len (co_session_name c) \<le> 256 \<and> \<not> has_control (co_session_name c)"

record message =
  m_coordination :: "coordination_source option"
  m_operator_name :: "rstring option"
  m_created_at :: "instant option"
  m_interrupted_attempt :: "uuid option"
  m_role :: role
  m_content :: rstring
  m_tool_output :: "tool_output option"
  m_tool_outcome :: "tool_outcome option"
  m_parts :: "content_part list"
  m_image_data :: "(uuid \<times> nat list) list"
  m_tool_call_id :: "rstring option"
  m_tool_calls :: "tool_call list"
  m_tool_success :: "bool option"
  m_provider_state :: "json option"
  m_steering :: "steering_receipt option"

definition message_new :: "role \<Rightarrow> rstring \<Rightarrow> instant \<Rightarrow> message" where
  "message_new r content now =
     \<lparr>m_coordination = None, m_operator_name = None, m_created_at = Some now, m_interrupted_attempt = None,
      m_role = r, m_content = content, m_tool_output = None, m_tool_outcome = None, m_parts = [],
      m_image_data = [], m_tool_call_id = None, m_tool_calls = [], m_tool_success = None,
      m_provider_state = None, m_steering = None\<rparr>"

definition message_steering :: "rstring \<Rightarrow> uuid \<Rightarrow> instant \<Rightarrow> message" where
  "message_steering content i now =
     (message_new User content now)\<lparr>m_steering := Some \<lparr>sr_id = i, sr_status = Queued\<rparr>\<rparr>"

definition message_tool_result :: "rstring \<Rightarrow> rstring \<Rightarrow> bool \<Rightarrow> instant \<Rightarrow> message" where
  "message_tool_result call_id content success now =
     \<lparr>m_coordination = None, m_operator_name = None, m_created_at = Some now, m_interrupted_attempt = None,
      m_role = Tool, m_content = content, m_tool_output = None, m_tool_outcome = None, m_parts = [],
      m_image_data = [], m_tool_call_id = Some call_id, m_tool_calls = [], m_tool_success = Some success,
      m_provider_state = None, m_steering = None\<rparr>"

definition message_tool :: "rstring \<Rightarrow> rstring \<Rightarrow> instant \<Rightarrow> message" where
  "message_tool call_id content now = message_tool_result call_id content True now"

abbreviation clear_state :: "message \<Rightarrow> message" where
  "clear_state m \<equiv> m\<lparr>m_provider_state := None\<rparr>"

text \<open>What a message is after it is serialised: the bytes of its images are not.\<close>

abbreviation wire :: "message \<Rightarrow> message" where
  "wire m \<equiv> m\<lparr>m_image_data := []\<rparr>"

text \<open>The messages that carry the conversation: the source filters out the system ones.\<close>

definition spoken :: "message list \<Rightarrow> message list" where
  "spoken ms = filter (\<lambda>m. m_role m \<noteq> System) ms"

text \<open>The length of a JSON array with items of the given lengths.\<close>

definition array_size :: "nat list \<Rightarrow> nat" where
  "array_size ns = 2 + sum_list ns + (length ns - 1)"

section \<open>Outstanding calls\<close>

text \<open>\<open>has_pending_tools\<close> of \<open>attachment/journal.rs\<close>: calls without a later result, an empty identifier, or
  one asked for again while outstanding.\<close>

fun pending_calls :: "tool_call list \<Rightarrow> rstring set \<Rightarrow> rstring set option" where
  "pending_calls [] pending = Some pending"
| "pending_calls (c # cs) pending =
     (if tc_id c = [] \<or> tc_id c \<in> pending then None else pending_calls cs (insert (tc_id c) pending))"

fun pending_walk :: "message list \<Rightarrow> rstring set \<Rightarrow> bool" where
  "pending_walk [] pending = (pending \<noteq> {})"
| "pending_walk (m # ms) pending =
     (if m_role m = Assistant then
        (case pending_calls (m_tool_calls m) pending of None \<Rightarrow> True | Some p \<Rightarrow> pending_walk ms p)
      else if m_role m = Tool then
        (case m_tool_call_id m of Some i \<Rightarrow> pending_walk ms (pending - {i}) | None \<Rightarrow> pending_walk ms pending)
      else pending_walk ms pending)"

definition has_pending_tools :: "message list \<Rightarrow> bool" where
  "has_pending_tools ms = pending_walk ms {}"

lemma pending_calls_Some:
  "pending_calls cs p = Some q \<longleftrightarrow>
     distinct (map tc_id cs) \<and> (\<forall>c \<in> set cs. tc_id c \<noteq> [] \<and> tc_id c \<notin> p) \<and> q = tc_id ` set cs \<union> p"
  by (induction cs arbitrary: p) (auto simp: image_iff)

end
