(* ===== verification/Content.thy ===== *)
theory Content
  imports Messages
begin

text \<open>
  The parts of a turn made of text and images (\<open>crates/voyage-protocol/src/content.rs\<close>) under the limits of
  \<open>voyage/src/images.rs\<close>, the budget of a delegated run (\<open>execution_budget.rs\<close>), the previews of tools and of
  reasoning, and the public projection of text in bounded pieces (\<open>attachment/journal/observations.rs\<close>).
\<close>

section \<open>Content\<close>

record content_limits =
  cl_max_parts :: nat
  cl_max_text_bytes :: nat
  cl_max_images :: nat
  cl_max_image_bytes :: nat
  cl_max_total_image_bytes :: nat
  cl_max_dimension :: nat
  cl_max_pixels :: nat

datatype content_error =
  Content_Empty | TooManyParts | TextLimit | ImagesUnsupported | TooManyImages | InvalidImageMetadata |
  ImageByteLimit | TotalImageByteLimit | ImageDimensionLimit

text \<open>Separators and invisible characters that a display name may not hold.\<close>

definition bad_name_char :: "rchar \<Rightarrow> bool" where
  "bad_name_char c \<longleftrightarrow> is_control c \<or> c = 47 \<or> c = 92 \<or> c = 1564 \<or> (8206 \<le> c \<and> c \<le> 8207) \<or>
     (8232 \<le> c \<and> c \<le> 8238) \<or> (8294 \<le> c \<and> c \<le> 8303)"

definition image_metadata_ok :: "image_attachment \<Rightarrow> bool" where
  "image_metadata_ok a \<longleftrightarrow>
     \<not> is_nil (at_id a) \<and> str_len (at_sha256 a) = 64 \<and>
     list_all (\<lambda>c. is_ascii_digit c \<or> (97 \<le> c \<and> c \<le> 102)) (at_sha256 a) \<and>
     trim (at_name a) \<noteq> [] \<and> str_len (at_name a) \<le> 255 \<and> \<not> list_ex bad_name_char (at_name a) \<and>
     at_byte_size a \<noteq> 0 \<and> at_width a \<noteq> 0 \<and> at_height a \<noteq> 0"

record content_totals =
  ct_text :: nat
  ct_image_bytes :: nat
  ct_images :: nat
  ct_content :: bool

fun content_step :: "content_limits \<Rightarrow> bool \<Rightarrow> content_part \<Rightarrow> content_totals \<Rightarrow> (content_error, content_totals) result" where
  "content_step l images (Part_Text t) a =
     and_then (ok_or TextLimit (checked_add_u64 (ct_text a) (str_len t))) (\<lambda>n.
       if cl_max_text_bytes l < n then Inl TextLimit
       else Inr (a\<lparr>ct_text := n, ct_content := ct_content a \<or> trim t \<noteq> []\<rparr>))"
| "content_step l images (Part_Image i) a =
     (if \<not> images then Inl ImagesUnsupported
      else if cl_max_images l < ct_images a + 1 then Inl TooManyImages
      else if \<not> image_metadata_ok i then Inl InvalidImageMetadata
      else if cl_max_image_bytes l < at_byte_size i then Inl ImageByteLimit
      else and_then (ok_or TotalImageByteLimit (checked_add_u64 (ct_image_bytes a) (at_byte_size i))) (\<lambda>n.
        if cl_max_total_image_bytes l < n then Inl TotalImageByteLimit
        else if cl_max_dimension l < at_width i \<or> cl_max_dimension l < at_height i \<or>
            cl_max_pixels l < at_width i * at_height i then Inl ImageDimensionLimit
        else Inr (a\<lparr>ct_images := ct_images a + 1, ct_image_bytes := n, ct_content := True\<rparr>)))"

fun content_walk :: "content_limits \<Rightarrow> bool \<Rightarrow> content_part list \<Rightarrow> content_totals \<Rightarrow> (content_error, content_totals) result" where
  "content_walk l images [] a = Inr a"
| "content_walk l images (p # ps) a = and_then (content_step l images p a) (content_walk l images ps)"

definition validate_content :: "content_part list \<Rightarrow> content_limits \<Rightarrow> bool \<Rightarrow> (content_error, unit) result" where
  "validate_content parts l images =
     (if cl_max_parts l < length parts then Inl TooManyParts
      else and_then (content_walk l images parts
          \<lparr>ct_text = 0, ct_image_bytes = 0, ct_images = 0, ct_content = False\<rparr>) (\<lambda>a.
        if \<not> ct_content a then Inl Content_Empty else Inr ()))"

text \<open>The limits of a turn.\<close>

definition turn_limits :: content_limits where
  "turn_limits = \<lparr>cl_max_parts = 16, cl_max_text_bytes = 64 * 1024, cl_max_images = 4,
     cl_max_image_bytes = 4 * 1024 * 1024, cl_max_total_image_bytes = 4 * 1024 * 1024,
     cl_max_dimension = 8192, cl_max_pixels = 16 * 1024 * 1024\<rparr>"

definition validate_parts :: "content_part list \<Rightarrow> (content_error, unit) result" where
  "validate_parts parts = validate_content parts turn_limits True"

definition parts_text :: "content_part list \<Rightarrow> rstring" where
  "parts_text parts = concat (List.map_filter (\<lambda>p. case p of Part_Text t \<Rightarrow> Some t | Part_Image _ \<Rightarrow> None) parts)"

section \<open>Budgets and previews\<close>

record execution_budget =
  eb_command_id :: uuid
  eb_session_id :: uuid
  eb_parent_session_id :: uuid
  eb_parent_run_id :: uuid
  eb_tokens :: nat
  eb_elapsed_ms :: nat
  eb_expires_at_ms :: nat

definition budget_valid :: "uuid \<Rightarrow> execution_budget \<Rightarrow> bool" where
  "budget_valid command b \<longleftrightarrow>
     eb_command_id b = command \<and> \<not> is_nil command \<and> \<not> is_nil (eb_session_id b) \<and>
     eb_session_id b \<noteq> eb_parent_session_id b \<and> \<not> is_nil (eb_parent_session_id b) \<and> \<not> is_nil (eb_parent_run_id b) \<and>
     1 \<le> eb_tokens b \<and> eb_tokens b \<le> 10000000 \<and> 1 \<le> eb_elapsed_ms b \<and> eb_elapsed_ms b \<le> 86400000 \<and>
     0 < eb_expires_at_ms b"

record tool_preview =
  tp_attempt_id :: uuid
  tp_index :: nat
  tp_call_id :: "rstring option"
  tp_name :: rstring
  tp_arguments :: rstring
  tp_truncated :: bool

datatype reasoning_kind = Reasoning_Summary | Reasoning_Thinking

record reasoning_preview =
  rv_attempt_id :: uuid
  rv_index :: nat
  rv_kind :: reasoning_kind
  rv_text :: rstring
  rv_truncated :: bool
  rv_finalized :: bool

section \<open>Public pieces of text\<close>

text \<open>The longest prefix of at most so many bytes: the walk back to a character boundary.\<close>

fun byte_prefix :: "nat \<Rightarrow> rstring \<Rightarrow> rstring" where
  "byte_prefix limit [] = []"
| "byte_prefix limit (c # s) = (if len_utf8 c \<le> limit then c # byte_prefix (limit - len_utf8 c) s else [])"

definition text_prefix :: "rstring \<Rightarrow> nat \<Rightarrow> rstring \<times> bool" where
  "text_prefix text limit = (let p = byte_prefix limit text in (p, str_len p < str_len text))"

text \<open>The pieces of a delta with their offsets; a piece that would be empty is an error.\<close>

function text_chunks :: "nat \<Rightarrow> nat \<Rightarrow> rstring \<Rightarrow> (string, (nat \<times> rstring) list) result" where
  "text_chunks limit offset text =
     (if text = [] then Inr []
      else let p = byte_prefix limit text in
        if p = [] then Inl ''invalid UTF-8 chunk boundary''
        else and_then (text_chunks limit (offset + str_len p) (drop (length p) text)) (\<lambda>rest.
          Inr ((offset, p) # rest)))"
  by pat_completeness auto

lemma byte_prefix_take: "byte_prefix limit s = take (length (byte_prefix limit s)) s"
  by (induction limit s rule: byte_prefix.induct) auto

lemma byte_prefix_bound: "str_len (byte_prefix limit s) \<le> limit"
proof (induction limit s rule: byte_prefix.induct)
  case (2 limit c s)
  then show ?case using len_utf8_pos [of c] by auto
qed simp

lemma byte_prefix_maximal:
  assumes "s = p @ t" "str_len p \<le> limit"
  shows "length p \<le> length (byte_prefix limit s)"
  using assms
proof (induction limit s arbitrary: p rule: byte_prefix.induct)
  case (2 limit c s)
  then show ?case by (cases p) auto
qed auto

termination text_chunks
  by (relation "measure (\<lambda>(_, _, s). length s)") auto

declare text_chunks.simps [simp del]

text \<open>With at least four bytes a piece the pieces are never empty, contiguous, bounded, and make up the text.\<close>

lemma text_chunks_total:
  assumes "4 \<le> limit"
  shows "\<exists>cs. text_chunks limit offset s = Inr cs \<and> concat (map snd cs) = s \<and>
    list_all (\<lambda>(_, p). p \<noteq> [] \<and> str_len p \<le> limit) cs \<and>
    map fst cs = map (\<lambda>k. offset + str_len (concat (take k (map snd cs)))) [0..<length cs]"
  using assms
proof (induction limit offset s rule: text_chunks.induct)
  case (1 limit offset s)
  show ?case
  proof (cases "s = []")
    case True
    then show ?thesis by (simp add: text_chunks.simps)
  next
    case False
    define p where "p = byte_prefix limit s"
    have p: "p \<noteq> []"
      using False le_trans [OF len_utf8_le [of "hd s"] 1(2)] by (cases s) (simp_all add: p_def)
    obtain cs where cs: "text_chunks limit (offset + str_len p) (drop (length p) s) = Inr cs"
      "concat (map snd cs) = drop (length p) s"
      "list_all (\<lambda>(_, p). p \<noteq> [] \<and> str_len p \<le> limit) cs"
      "map fst cs = map (\<lambda>k. offset + str_len p + str_len (concat (take k (map snd cs)))) [0..<length cs]"
      using 1(1) [OF False p_def _ 1(2)] p by (auto simp: p_def)
    have "p @ drop (length p) s = s"
      unfolding p_def by (metis append_take_drop_id byte_prefix_take)
    moreover have "text_chunks limit offset s = Inr ((offset, p) # cs)"
      using False p cs(1) by (subst text_chunks.simps) (simp add: p_def Let_def)
    moreover have "[0..<length ((offset, p) # cs)] = 0 # map Suc [0..<length cs]"
      by (simp add: upt_conv_Cons map_Suc_upt del: upt_Suc)
    ultimately show ?thesis
      using p cs(2-4) byte_prefix_bound [of limit s] by (simp add: p_def add.assoc)
  qed
qed

end
