(* ===== verification/Publication.thy ===== *)
theory Publication
  imports Redaction Ordered_Map Content
begin

text \<open>
  What is published of a provider's answer while it is still arriving: the text of the answer
  (\<open>src/voyage/src/agent/provider_attempts.rs\<close>), the reasoning blocks
  (\<open>src/voyage/src/agent/reasoning_preview.rs\<close>) and the tool calls (\<open>src/voyage/src/agent/tool_preview.rs\<close>).
  All three show a prefix found by \<open>Redactor::stable_prefix\<close>, redacted on its own. The locale
  \<open>publication\<close> is what they rely on; the redactor interprets it.
\<close>

section \<open>The text of an answer\<close>

text \<open>The arm of a text delta: what it publishes and what stays pending. The two calls of the redactor are
  arguments.\<close>

definition text_delta ::
  "(rstring \<Rightarrow> nat option) \<Rightarrow> (rstring \<Rightarrow> rstring option) \<Rightarrow> rstring \<Rightarrow> rstring \<Rightarrow> (rstring \<times> rstring) option" where
  "text_delta stable_end redact pending delta = do {
     let pending = pending @ delta;
     end \<leftarrow> stable_end pending;
     (head, rest) \<leftarrow> split_at end pending;
     safe \<leftarrow> redact head;
     Some (safe, rest)
   }"

fun text_deltas ::
  "(rstring \<Rightarrow> nat option) \<Rightarrow> (rstring \<Rightarrow> rstring option) \<Rightarrow> rstring \<Rightarrow> rstring list \<Rightarrow> (rstring \<times> rstring) option" where
  "text_deltas stable_end redact pending [] = Some ([], pending)"
| "text_deltas stable_end redact pending (delta # deltas) = do {
     (safe, pending) \<leftarrow> text_delta stable_end redact pending delta;
     (out, pending) \<leftarrow> text_deltas stable_end redact pending deltas;
     Some (safe @ out, pending)
   }"

text \<open>The arm of a completed response: the withheld suffix is flushed.\<close>

definition text_completed ::
  "(rstring \<Rightarrow> nat option) \<Rightarrow> (rstring \<Rightarrow> rstring option) \<Rightarrow> rstring list \<Rightarrow> rstring option" where
  "text_completed stable_end redact deltas = do {
     (out, pending) \<leftarrow> text_deltas stable_end redact [] deltas;
     safe \<leftarrow> redact pending;
     Some (out @ safe)
   }"

definition redactor_stable :: "redactor \<Rightarrow> rstring \<Rightarrow> nat option" where
  "redactor_stable r text = stable_prefix r text False"

locale publication =
  fixes sound :: "'r \<Rightarrow> bool" and stable_end :: "'r \<Rightarrow> rstring \<Rightarrow> nat option"
    and redact :: "'r \<Rightarrow> rstring \<Rightarrow> rstring option"
  assumes redacts: "sound r \<Longrightarrow> \<exists>out. redact r text = Some out"
    and stable_splits:
      "sound r \<Longrightarrow> \<exists>a b. text = a @ b \<and> stable_end r text = Some (str_len a) \<and>
         (\<forall>ext. the (redact r (text @ ext)) = the (redact r a) @ the (redact r (b @ ext)))"
begin

lemma text_delta_exact:
  assumes "sound r"
  shows "\<exists>safe rest. text_delta (stable_end r) (redact r) pending delta = Some (safe, rest) \<and>
     (\<forall>ext. the (redact r (pending @ delta @ ext)) = safe @ the (redact r (rest @ ext)))"
proof -
  obtain a b where ab: "pending @ delta = a @ b" "stable_end r (pending @ delta) = Some (str_len a)"
      "\<forall>ext. the (redact r ((pending @ delta) @ ext)) = the (redact r a) @ the (redact r (b @ ext))"
    using stable_splits [OF assms, of "pending @ delta"] by blast
  obtain out where "redact r a = Some out"
    using redacts [OF assms] by blast
  then have "text_delta (stable_end r) (redact r) pending delta = Some (out, b)"
    using ab(1,2) by (simp add: text_delta_def Let_def)
  moreover have "the (redact r (pending @ delta @ ext)) = out @ the (redact r (b @ ext))" for ext
    using spec [OF ab(3), of ext] \<open>redact r a = Some out\<close> by simp
  ultimately show ?thesis
    by blast
qed

lemma text_deltas_exact:
  assumes "sound r"
  shows "\<exists>out rest. text_deltas (stable_end r) (redact r) pending deltas = Some (out, rest) \<and>
     (\<forall>ext. the (redact r (pending @ concat deltas @ ext)) = out @ the (redact r (rest @ ext)))"
proof (induction deltas arbitrary: pending)
  case (Cons delta deltas)
  obtain safe rest where 1: "text_delta (stable_end r) (redact r) pending delta = Some (safe, rest)"
      "\<forall>ext. the (redact r (pending @ delta @ ext)) = safe @ the (redact r (rest @ ext))"
    using text_delta_exact [OF assms] by blast
  obtain out rest' where 2: "text_deltas (stable_end r) (redact r) rest deltas = Some (out, rest')"
      "\<forall>ext. the (redact r (rest @ concat deltas @ ext)) = out @ the (redact r (rest' @ ext))"
    using Cons.IH by blast
  then show ?case
    using 1 by simp
qed simp

lemma text_completed_exact:
  assumes "sound r"
  shows "text_completed (stable_end r) (redact r) deltas = redact r (concat deltas)"
proof -
  obtain out rest where 1: "text_deltas (stable_end r) (redact r) [] deltas = Some (out, rest)"
      "\<forall>ext. the (redact r (concat deltas @ ext)) = out @ the (redact r (rest @ ext))"
    using text_deltas_exact [OF assms, of "[]" deltas] by auto
  obtain x y where "redact r rest = Some x" "redact r (concat deltas) = Some y"
    using redacts [OF assms] by metis
  then show ?thesis
    using 1(1) spec [OF 1(2), of "[]"] by (simp add: text_completed_def)
qed

text \<open>What is shown of a text that may grow is how its redaction begins, whatever follows.\<close>

lemma shown_begins:
  assumes "sound r"
  obtains a b out where "stable_end r T = Some (str_len a)" "T = a @ b" "redact r a = Some out"
    "\<And>ext. \<exists>later. redact r (T @ ext) = Some (out @ later)"
proof -
  obtain a b where ab: "T = a @ b" "stable_end r T = Some (str_len a)"
      "\<forall>ext. the (redact r (T @ ext)) = the (redact r a) @ the (redact r (b @ ext))"
    using stable_splits [OF assms, of T] by blast
  obtain out where out: "redact r a = Some out"
    using redacts [OF assms] by blast
  have "\<exists>later. redact r (T @ ext) = Some (out @ later)" for ext
  proof -
    obtain x where "redact r (T @ ext) = Some x"
      using redacts [OF assms] by blast
    then have "x = out @ the (redact r (b @ ext))"
      using spec [OF ab(3), of ext] out by simp
    then show ?thesis
      using \<open>redact r (T @ ext) = Some x\<close> by blast
  qed
  then show thesis
    using that ab(1,2) out by blast
qed

end

interpretation canonical: publication redactor_ok redactor_stable redact_public_prefix
proof
  fix r :: redactor and T
  assume r: "redactor_ok r"
  show "\<exists>out. redact_public_prefix r T = Some out"
    using redact_exact [OF r] by blast
  obtain a b where "T = a @ b" "stable_prefix r T False = Some (str_len a)"
      "\<And>ext. masked (<) (spans_of r (T @ ext)) (T @ ext) =
         masked (<) (spans_of r a) a @ masked (<) (spans_of r (b @ ext)) (b @ ext)"
    using stable_prefix_exact [OF r, of T] by blast
  then show "\<exists>a b. T = a @ b \<and> redactor_stable r T = Some (str_len a) \<and>
      (\<forall>ext. the (redact_public_prefix r (T @ ext)) =
         the (redact_public_prefix r a) @ the (redact_public_prefix r (b @ ext)))"
    by (intro exI [of _ a] exI [of _ b]) (simp add: redactor_stable_def redact_exact [OF r])
qed

section \<open>Reasoning blocks\<close>

text \<open>The derived order of the kinds of reasoning.\<close>

instantiation reasoning_kind :: linorder
begin

definition less_eq_reasoning_kind :: "reasoning_kind \<Rightarrow> reasoning_kind \<Rightarrow> bool" where
  "less_eq_reasoning_kind a b \<longleftrightarrow> a = Reasoning_Summary \<or> b = Reasoning_Thinking"

definition less_reasoning_kind :: "reasoning_kind \<Rightarrow> reasoning_kind \<Rightarrow> bool" where
  "less_reasoning_kind a b \<longleftrightarrow> a = Reasoning_Summary \<and> b = Reasoning_Thinking"

instance
  by standard (auto simp: less_eq_reasoning_kind_def less_reasoning_kind_def intro: reasoning_kind.exhaust)

end

datatype preview_delta =
    Text_Delta rstring
  | Reasoning_Delta nat reasoning_kind rstring
  | Tool_Call_Delta nat "rstring option" "rstring option" rstring

type_synonym reasoning_previews = "(nat \<times> reasoning_kind, rstring \<times> bool) bmap"

abbreviation MAX_BLOCKS :: nat where "MAX_BLOCKS \<equiv> 32"
abbreviation MAX_TEXT_BYTES :: nat where "MAX_TEXT_BYTES \<equiv> 16384"

text \<open>\<open>prefix\<close>: at most so many bytes, without cutting a character.\<close>

definition preview_prefix :: "rstring \<Rightarrow> nat \<Rightarrow> rstring" where
  "preview_prefix T limit =
     (case split_at (floor_boundary T (min (str_len T) limit)) T of Some (a, _) \<Rightarrow> a | None \<Rightarrow> [])"

definition reasoning_update :: "preview_delta \<Rightarrow> reasoning_previews \<Rightarrow> reasoning_previews" where
  "reasoning_update delta m =
     (case delta of
        Reasoning_Delta index kind T \<Rightarrow>
          (if \<not> bm_contains m (index, kind) \<and> MAX_BLOCKS \<le> length m then m
           else let (raw, truncated) = (case bm_get m (index, kind) of Some e \<Rightarrow> e | None \<Rightarrow> ([], False))
                in if truncated then bm_insert (index, kind) (raw, truncated) m
                   else let part = preview_prefix T (MAX_TEXT_BYTES - str_len raw)
                        in bm_insert (index, kind) (raw @ part, str_len part \<noteq> str_len T) m)
      | _ \<Rightarrow> m)"

definition reasoning_public_entry ::
  "uuid \<Rightarrow> redactor \<Rightarrow> (nat \<times> reasoning_kind) \<times> (rstring \<times> bool) \<Rightarrow> reasoning_preview option" where
  "reasoning_public_entry attempt r = (\<lambda>((index, kind), (raw, truncated)). do {
     end \<leftarrow> redactor_stable r raw;
     (head, _) \<leftarrow> split_at end raw;
     shown \<leftarrow> redact_public_prefix r head;
     Some \<lparr>rv_attempt_id = attempt, rv_index = index, rv_kind = kind,
           rv_text = preview_prefix shown MAX_TEXT_BYTES,
           rv_truncated = (truncated \<or> MAX_TEXT_BYTES < str_len shown), rv_finalized = False\<rparr>
   })"

fun reasoning_public :: "uuid \<Rightarrow> redactor \<Rightarrow> reasoning_previews \<Rightarrow> reasoning_preview list option" where
  "reasoning_public attempt r [] = Some []"
| "reasoning_public attempt r (e # m) = do {
     p \<leftarrow> reasoning_public_entry attempt r e;
     ps \<leftarrow> reasoning_public attempt r m;
     Some (p # ps)
   }"

section \<open>Tool calls\<close>

text \<open>The closing quote of a string literal, after its opening one: the literal's characters up to it, and
  what follows.\<close>

fun closing_quote :: "bool \<Rightarrow> rstring \<Rightarrow> (rstring \<times> rstring) option" where
  "closing_quote escaped [] = None"
| "closing_quote escaped (c # s) =
     (if \<not> escaped \<and> c = 34 then Some ([c], s)
      else map_option (\<lambda>(t, rest). (c # t, rest)) (closing_quote (\<not> escaped \<and> c = 92) s))"

lemma closing_quote_length: "closing_quote e s = Some (t, rest) \<Longrightarrow> length rest < length s"
  by (induction e s arbitrary: t rule: closing_quote.induct) (fastforce split: if_splits)+

text \<open>An unfinished literal: at most fourteen attempts, each a character shorter.\<close>

fun unfinished :: "(rstring \<Rightarrow> rstring option) \<Rightarrow> nat \<Rightarrow> rstring \<Rightarrow> rstring" where
  "unfinished decode 0 literal = []"
| "unfinished decode (Suc n) literal =
     (case decode (literal @ [34]) of
        Some T \<Rightarrow> T
      | None \<Rightarrow> if str_len literal \<le> 1 then [] else unfinished decode n (butlast literal))"

text \<open>\<open>decode\<close> is \<open>serde_json::from_str\<close> of a string literal.\<close>

function readable :: "(rstring \<Rightarrow> rstring option) \<Rightarrow> rstring \<Rightarrow> rstring" where
  "readable decode raw =
     takeWhile (\<lambda>c. c \<noteq> 34) raw @
     (case dropWhile (\<lambda>c. c \<noteq> 34) raw of
        [] \<Rightarrow> []
      | q # s \<Rightarrow>
          (case closing_quote False s of
             Some (t, rest) \<Rightarrow>
               (case decode (q # t) of None \<Rightarrow> [] | Some T \<Rightarrow> T @ readable decode rest)
           | None \<Rightarrow> unfinished decode 14 (q # s)))"
  by pat_completeness auto

termination readable
proof (relation "measure (\<lambda>(_, raw). length raw)")
  fix decode :: "rstring \<Rightarrow> rstring option" and raw q s p t rest T
  assume a: "dropWhile (\<lambda>c. c \<noteq> 34) raw = q # s" "closing_quote False s = Some p" "(t, rest) = p"
  have "length (q # s) \<le> length raw"
    using length_dropWhile_le [of "\<lambda>c. c \<noteq> 34" raw] a(1) by metis
  then show "((decode, rest), decode, raw) \<in> measure (\<lambda>(_, raw). length raw)"
    using closing_quote_length [of False s t rest] a by simp
qed simp

declare readable.simps [simp del]

record preview_call =
  pc_id :: rstring
  pc_name :: rstring
  pc_raw :: rstring
  pc_truncated :: bool

type_synonym tool_previews = "(nat, preview_call) bmap"

abbreviation MAX_CALLS :: nat where "MAX_CALLS \<equiv> 32"
abbreviation MAX_ARGUMENT_BYTES :: nat where "MAX_ARGUMENT_BYTES \<equiv> 16384"

definition new_call :: preview_call where
  "new_call = \<lparr>pc_id = [], pc_name = [], pc_raw = [], pc_truncated = False\<rparr>"

definition extend_call :: "rstring option \<Rightarrow> rstring option \<Rightarrow> rstring \<Rightarrow> preview_call \<Rightarrow> preview_call" where
  "extend_call call_id name arguments c =
     (let c = (case call_id of None \<Rightarrow> c | Some i \<Rightarrow> c\<lparr>pc_id := pc_id c @ preview_prefix i (1024 - str_len (pc_id c))\<rparr>);
          c = (case name of None \<Rightarrow> c | Some n \<Rightarrow> c\<lparr>pc_name := pc_name c @ preview_prefix n (128 - str_len (pc_name c))\<rparr>)
      in if pc_truncated c then c
         else let part = preview_prefix arguments (MAX_ARGUMENT_BYTES - str_len (pc_raw c))
              in c\<lparr>pc_raw := pc_raw c @ part, pc_truncated := (str_len part \<noteq> str_len arguments)\<rparr>)"

definition tool_update :: "preview_delta \<Rightarrow> tool_previews \<Rightarrow> tool_previews" where
  "tool_update delta m =
     (case delta of
        Tool_Call_Delta index call_id name arguments \<Rightarrow>
          (if \<not> bm_contains m index \<and> MAX_CALLS \<le> length m then m
           else bm_insert index
                  (extend_call call_id name arguments (case bm_get m index of Some c \<Rightarrow> c | None \<Rightarrow> new_call)) m)
      | _ \<Rightarrow> m)"

definition shown_tools :: "rstring list" where
  "shown_tools = map lit [''shell'', ''apply_patch'', ''write_file'', ''read_file'', ''search_files'', ''list_directory'']"

definition tool_public_entry ::
  "(rstring \<Rightarrow> rstring option) \<Rightarrow> uuid \<Rightarrow> redactor \<Rightarrow> nat \<times> preview_call \<Rightarrow> tool_preview option" where
  "tool_public_entry decode attempt r = (\<lambda>(index, c). do {
     let text = readable decode (pc_raw c);
     end \<leftarrow> redactor_stable r text;
     arguments \<leftarrow>
       (if pc_name c \<in> set shown_tools then do { (head, _) \<leftarrow> split_at end text; redact_public_prefix r head }
        else Some (lit ''[arguments withheld during generation]''));
     name_end \<leftarrow> redactor_stable r (pc_name c);
     id_end \<leftarrow> redactor_stable r (pc_id c);
     (head, _) \<leftarrow> split_at name_end (pc_name c);
     name \<leftarrow> redact_public_prefix r head;
     Some \<lparr>tp_attempt_id = attempt, tp_index = index,
           tp_call_id = (if pc_id c \<noteq> [] \<and> \<not> contains_secret r (pc_id c) \<and> id_end = str_len (pc_id c)
                         then Some (pc_id c) else None),
           tp_name = preview_prefix name 128,
           tp_arguments = preview_prefix arguments MAX_ARGUMENT_BYTES,
           tp_truncated = (pc_truncated c \<or> MAX_ARGUMENT_BYTES < str_len arguments)\<rparr>
   })"

fun tool_public ::
  "(rstring \<Rightarrow> rstring option) \<Rightarrow> uuid \<Rightarrow> redactor \<Rightarrow> tool_previews \<Rightarrow> tool_preview list option" where
  "tool_public decode attempt r [] = Some []"
| "tool_public decode attempt r (e # m) = do {
     p \<leftarrow> tool_public_entry decode attempt r e;
     ps \<leftarrow> tool_public decode attempt r m;
     Some (p # ps)
   }"

section \<open>What the previews show\<close>

lemma preview_prefix:
  obtains rest where "T = preview_prefix T limit @ rest" "str_len (preview_prefix T limit) \<le> limit"
    "limit \<ge> str_len T \<longrightarrow> rest = []"
proof -
  let ?n = "min (str_len T) limit"
  obtain a b where ab: "T = a @ b" "str_len a = floor_boundary T ?n" "str_len a \<le> ?n"
    by (rule floor_boundary_split)
  then have p: "preview_prefix T limit = a"
    by (simp add: preview_prefix_def flip: ab(2))
  have "b = []" if "str_len T \<le> limit"
  proof -
    have "str_len a = str_len T"
      using ab(2) that by (simp add: min_absorb1)
    then show ?thesis
      unfolding ab(1) by simp
  qed
  show thesis
  proof (rule that)
    show "T = preview_prefix T limit @ b"
      unfolding p by (rule ab(1))
    show "str_len (preview_prefix T limit) \<le> limit"
      unfolding p using ab(3) by simp
    show "str_len T \<le> limit \<longrightarrow> b = []"
      using \<open>str_len T \<le> limit \<Longrightarrow> b = []\<close> by blast
  qed
qed

lemma bm_length_insert:
  "bm_sorted m \<Longrightarrow> length (bm_insert k v m) = (if bm_contains m k then length m else Suc (length m))"
  by (induction k v m rule: bm_insert.induct) (auto simp: bm_contains_def map_of_eq_None_iff)

lemma in_set_insert: "bm_sorted m \<Longrightarrow> e \<in> set (bm_insert k v m) \<Longrightarrow> e = (k, v) \<or> e \<in> set m"
  by (induction k v m rule: bm_insert.induct) (auto split: if_splits)

text \<open>The text a block has received, and what an accumulator has kept of it.\<close>

fun received :: "nat \<times> reasoning_kind \<Rightarrow> preview_delta list \<Rightarrow> rstring" where
  "received k [] = []"
| "received k (d # ds) =
     (case d of Reasoning_Delta i kind T \<Rightarrow> if (i, kind) = k then T else [] | _ \<Rightarrow> []) @ received k ds"

lemma received_append: "received k (a @ b) = received k a @ received k b"
  by (induction a) simp_all

definition reasoning_ok :: "preview_delta list \<Rightarrow> reasoning_previews \<Rightarrow> bool" where
  "reasoning_ok ds m \<longleftrightarrow>
     bm_sorted m \<and> length m \<le> MAX_BLOCKS \<and>
     (\<forall>k. bm_get m k = None \<longrightarrow> received k ds = [] \<or> MAX_BLOCKS \<le> length m) \<and>
     (\<forall>k raw truncated. bm_get m k = Some (raw, truncated) \<longrightarrow>
        str_len raw \<le> MAX_TEXT_BYTES \<and>
        (\<exists>rest. received k ds = raw @ rest \<and> (\<not> truncated \<longrightarrow> rest = [])))"

lemma reasoning_ok_start: "reasoning_ok [] []"
  by (simp add: reasoning_ok_def)

lemma reasoning_ok_update:
  assumes "reasoning_ok ds m"
  shows "reasoning_ok (ds @ [d]) (reasoning_update d m)"
proof (cases d)
  case (Reasoning_Delta i kind T)
  let ?k = "(i, kind)"
  have rec: "received k (ds @ [d]) = received k ds @ (if k = ?k then T else [])" for k
    using Reasoning_Delta by (simp add: received_append)
  show ?thesis
  proof (cases "\<not> bm_contains m ?k \<and> MAX_BLOCKS \<le> length m")
    case True
    then have "reasoning_update d m = m" "bm_get m ?k = None"
      using Reasoning_Delta by (cases "bm_get m ?k"; auto simp: reasoning_update_def bm_contains_get)+
    then show ?thesis
      using assms True by (auto simp: reasoning_ok_def rec)
  next
    case False
    obtain raw truncated where e: "(case bm_get m ?k of Some e \<Rightarrow> e | None \<Rightarrow> ([], False)) = (raw, truncated)"
      by fastforce
    have old: "str_len raw \<le> MAX_TEXT_BYTES" "\<exists>rest. received ?k ds = raw @ rest \<and> (\<not> truncated \<longrightarrow> rest = [])"
    proof -
      have "str_len raw \<le> MAX_TEXT_BYTES \<and> (\<exists>rest. received ?k ds = raw @ rest \<and> (\<not> truncated \<longrightarrow> rest = []))"
      proof (cases "bm_get m ?k")
        case None
        then have "received ?k ds = []" "raw = []" "\<not> truncated"
          using assms False e by (auto simp: reasoning_ok_def bm_contains_get)
        then show ?thesis by simp
      next
        case (Some p)
        then show ?thesis
          using assms e unfolding reasoning_ok_def by auto
      qed
      then show "str_len raw \<le> MAX_TEXT_BYTES" "\<exists>rest. received ?k ds = raw @ rest \<and> (\<not> truncated \<longrightarrow> rest = [])"
        by blast+
    qed
    obtain raw' truncated' where new: "reasoning_update d m = bm_insert ?k (raw', truncated') m"
        "str_len raw' \<le> MAX_TEXT_BYTES"
        "\<exists>rest. received ?k (ds @ [d]) = raw' @ rest \<and> (\<not> truncated' \<longrightarrow> rest = [])"
    proof (cases truncated)
      case True
      have "reasoning_update d m = bm_insert ?k (raw, True) m"
        using Reasoning_Delta False e True by (auto simp: reasoning_update_def)
      then show thesis
        using old True rec [of ?k] by (intro that [of raw True]) auto
    next
      case False': False
      let ?limit = "MAX_TEXT_BYTES - str_len raw"
      obtain rest where r: "T = preview_prefix T ?limit @ rest" "str_len (preview_prefix T ?limit) \<le> ?limit"
        by (rule preview_prefix)
      let ?p = "preview_prefix T ?limit"
      have "reasoning_update d m = bm_insert ?k (raw @ ?p, str_len ?p \<noteq> str_len T) m"
        using Reasoning_Delta False e False' by (auto simp: reasoning_update_def Let_def)
      moreover have "str_len (raw @ ?p) \<le> MAX_TEXT_BYTES"
        using r(2) old(1) by simp
      moreover have "rest = []" if "str_len ?p = str_len T"
      proof -
        have "str_len T = str_len ?p + str_len rest"
          using arg_cong [OF r(1), of str_len] by simp
        then show ?thesis
          using that by simp
      qed
      moreover have "received ?k (ds @ [d]) = (raw @ ?p) @ rest"
        using old(2) False' rec [of ?k] r(1) by simp
      ultimately show thesis
        by (intro that [of "raw @ ?p" "str_len ?p \<noteq> str_len T"]) blast+
    qed
    have sorted: "bm_sorted m" and len: "length m \<le> MAX_BLOCKS"
      using assms by (simp_all add: reasoning_ok_def)
    have get: "bm_get (bm_insert ?k (raw', truncated') m) k = (if k = ?k then Some (raw', truncated') else bm_get m k)" for k
      by (rule bm_get_insert [OF sorted])
    have length: "length m \<le> length (bm_insert ?k (raw', truncated') m)"
        "length (bm_insert ?k (raw', truncated') m) \<le> MAX_BLOCKS"
      using bm_length_insert [OF sorted, of ?k "(raw', truncated')"] False len by auto
    have "received k (ds @ [d]) = received k ds" if "k \<noteq> ?k" for k
      using rec [of k] that by simp
    then show ?thesis
      unfolding new(1) reasoning_ok_def get
      using assms new(2,3) length sorted unfolding reasoning_ok_def
      by (auto intro: le_trans)
  qed
qed (use assms in \<open>auto simp: reasoning_update_def reasoning_ok_def received_append\<close>)

lemma reasoning_ok_all: "reasoning_ok ds (fold reasoning_update ds [])"
proof (induction ds rule: rev_induct)
  case (snoc d ds)
  then show ?case
    using reasoning_ok_update by simp
qed (simp add: reasoning_ok_start)

text \<open>One published text: bounded, and the beginning of the redaction of whatever the text becomes.\<close>

lemma shown_prefix:
  assumes "redactor_ok r"
  shows "\<exists>n head tail out. redactor_stable r T = Some n \<and> split_at n T = Some (head, tail) \<and>
           redact_public_prefix r head = Some out \<and>
           (\<forall>limit. str_len (preview_prefix out limit) \<le> limit \<and>
              (\<forall>ext. \<exists>later. redact_public_prefix r (T @ ext) = Some (preview_prefix out limit @ later)))"
proof -
  obtain a b out where s: "redactor_stable r T = Some (str_len a)" "T = a @ b" "redact_public_prefix r a = Some out"
      "\<And>ext. \<exists>later. redact_public_prefix r (T @ ext) = Some (out @ later)"
    using canonical.shown_begins [OF assms, of T] by blast
  have "str_len (preview_prefix out limit) \<le> limit \<and>
      (\<forall>ext. \<exists>later. redact_public_prefix r (T @ ext) = Some (preview_prefix out limit @ later))" for limit
  proof -
    obtain rest where p: "out = preview_prefix out limit @ rest" "str_len (preview_prefix out limit) \<le> limit"
      by (rule preview_prefix)
    have "\<exists>later. redact_public_prefix r (T @ ext) = Some (preview_prefix out limit @ later)" for ext
    proof -
      obtain later where "redact_public_prefix r (T @ ext) = Some (out @ later)"
        using s(4) by blast
      moreover have "out @ later = preview_prefix out limit @ (rest @ later)"
        by (metis p(1) append.assoc)
      ultimately show ?thesis
        by metis
    qed
    then show ?thesis
      using p(2) by blast
  qed
  moreover have "split_at (str_len a) T = Some (a, b)"
    using s(2) by simp
  ultimately show ?thesis
    using s(1,3) by blast
qed

lemma reasoning_public_exact:
  assumes "redactor_ok r" "\<forall>(k, raw, t) \<in> set m. \<exists>rest. received k ds = raw @ rest"
  shows "\<exists>ps. reasoning_public attempt r m = Some ps \<and> length ps = length m \<and>
           (\<forall>p \<in> set ps. str_len (rv_text p) \<le> MAX_TEXT_BYTES \<and>
              (\<forall>more. \<exists>later. redact_public_prefix r (received (rv_index p, rv_kind p) (ds @ more)) =
                 Some (rv_text p @ later)))"
  using assms(2)
proof (induction m)
  case (Cons e m)
  obtain i kind raw t where e: "e = ((i, kind), raw, t)"
    by (metis prod.exhaust)
  obtain rest where rest: "received (i, kind) ds = raw @ rest"
    using Cons.prems e by auto
  obtain n head tail out where s: "redactor_stable r raw = Some n" "split_at n raw = Some (head, tail)"
      "redact_public_prefix r head = Some out"
      "\<And>limit. str_len (preview_prefix out limit) \<le> limit \<and>
         (\<forall>ext. \<exists>later. redact_public_prefix r (raw @ ext) = Some (preview_prefix out limit @ later))"
    using shown_prefix [OF assms(1), of raw] by blast
  let ?p = "\<lparr>rv_attempt_id = attempt, rv_index = i, rv_kind = kind, rv_text = preview_prefix out MAX_TEXT_BYTES,
      rv_truncated = (t \<or> MAX_TEXT_BYTES < str_len out), rv_finalized = False\<rparr>"
  have "reasoning_public_entry attempt r e = Some ?p"
    using s(1-3) e by (simp add: reasoning_public_entry_def)
  moreover obtain ps where "reasoning_public attempt r m = Some ps" "length ps = length m"
      "\<forall>p \<in> set ps. str_len (rv_text p) \<le> MAX_TEXT_BYTES \<and>
         (\<forall>more. \<exists>later. redact_public_prefix r (received (rv_index p, rv_kind p) (ds @ more)) =
            Some (rv_text p @ later))"
    using Cons.IH Cons.prems by auto
  moreover have "\<exists>later. redact_public_prefix r (received (i, kind) (ds @ more)) =
      Some (preview_prefix out MAX_TEXT_BYTES @ later)" for more
    using s(4) [of MAX_TEXT_BYTES] rest by (simp add: received_append)
  ultimately show ?case
    using s(4) [of MAX_TEXT_BYTES] by simp
qed simp

definition tool_shown ::
  "(rstring \<Rightarrow> rstring option) \<Rightarrow> redactor \<Rightarrow> nat \<times> preview_call \<Rightarrow> tool_preview \<Rightarrow> bool" where
  "tool_shown decode r = (\<lambda>(i, c) p.
     tp_index p = i \<and> str_len (tp_name p) \<le> 128 \<and> str_len (tp_arguments p) \<le> MAX_ARGUMENT_BYTES \<and>
     (if pc_name c \<in> set shown_tools
      then \<forall>ext. \<exists>later. redact_public_prefix r (readable decode (pc_raw c) @ ext) = Some (tp_arguments p @ later)
      else tp_arguments p = lit ''[arguments withheld during generation]'') \<and>
     (\<forall>ext. \<exists>later. redact_public_prefix r (pc_name c @ ext) = Some (tp_name p @ later)) \<and>
     (tp_call_id p = None \<or> tp_call_id p = Some (pc_id c) \<and> \<not> contains_secret r (pc_id c)))"

lemma str_len_withheld: "str_len (lit ''[arguments withheld during generation]'') = 38"
  by (simp add: lit_def len_utf8_def)

lemma preview_prefix_whole: "str_len T \<le> limit \<Longrightarrow> preview_prefix T limit = T"
  using split_at_str_len [of T "[]"] by (simp add: preview_prefix_def min_absorb1)

lemma tool_entry_shown:
  assumes "redactor_ok r"
  shows "\<exists>p. tool_public_entry decode attempt r e = Some p \<and> tool_shown decode r e p"
proof -
  obtain i c where e: "e = (i, c)"
    by fastforce
  let ?text = "readable decode (pc_raw c)"
  obtain n head tail out where s: "redactor_stable r ?text = Some n" "split_at n ?text = Some (head, tail)"
      "redact_public_prefix r head = Some out"
      "\<And>limit. str_len (preview_prefix out limit) \<le> limit \<and>
         (\<forall>ext. \<exists>later. redact_public_prefix r (?text @ ext) = Some (preview_prefix out limit @ later))"
    using shown_prefix [OF assms, of ?text] by blast
  obtain n' head' tail' out' where s': "redactor_stable r (pc_name c) = Some n'"
      "split_at n' (pc_name c) = Some (head', tail')" "redact_public_prefix r head' = Some out'"
      "\<And>limit. str_len (preview_prefix out' limit) \<le> limit \<and>
         (\<forall>ext. \<exists>later. redact_public_prefix r (pc_name c @ ext) = Some (preview_prefix out' limit @ later))"
    using shown_prefix [OF assms, of "pc_name c"] by blast
  obtain k where k: "redactor_stable r (pc_id c) = Some k"
    using shown_prefix [OF assms, of "pc_id c"] by blast
  define shown where "shown = (if pc_name c \<in> set shown_tools then out else lit ''[arguments withheld during generation]'')"
  define p where "p = \<lparr>tp_attempt_id = attempt, tp_index = i,
      tp_call_id = (if pc_id c \<noteq> [] \<and> \<not> contains_secret r (pc_id c) \<and> k = str_len (pc_id c)
                    then Some (pc_id c) else None),
      tp_name = preview_prefix out' 128, tp_arguments = preview_prefix shown MAX_ARGUMENT_BYTES,
      tp_truncated = (pc_truncated c \<or> MAX_ARGUMENT_BYTES < str_len shown)\<rparr>"
  have "tool_public_entry decode attempt r e = Some p"
    using s(1-3) s'(1-3) k e by (simp add: tool_public_entry_def p_def shown_def Let_def)
  moreover have "preview_prefix (lit ''[arguments withheld during generation]'') MAX_ARGUMENT_BYTES =
      lit ''[arguments withheld during generation]''"
    by (rule preview_prefix_whole) (simp add: str_len_withheld)
  then have "tool_shown decode r e p"
    using s(4) [of MAX_ARGUMENT_BYTES] s'(4) [of 128] e
    by (simp add: tool_shown_def p_def shown_def str_len_withheld)
  ultimately show ?thesis
    by blast
qed

lemma tool_public_exact:
  assumes "redactor_ok r"
  shows "\<exists>ps. tool_public decode attempt r m = Some ps \<and> list_all2 (tool_shown decode r) m ps"
proof (induction m)
  case (Cons e m)
  then show ?case
    using tool_entry_shown [OF assms, of decode attempt e] by auto
qed simp

end
