(* ===== verification/Redaction_Stream.thy ===== *)
theory Redaction_Stream
  imports Redaction
begin

text \<open>
  The incremental redaction of the value strings of a streamed message
  (\<open>src/voyage/src/tools/vessel/json_stream.rs\<close>, \<open>Strings\<close>): decoded text is kept back until no secret can
  cover it any more, and what is emitted over all calls is the text in which every occurrence of every
  secret is masked, wherever the calls cut it.
\<close>

section \<open>The state and its operations\<close>

abbreviation SECRET_BYTES :: nat where "SECRET_BYTES \<equiv> 65536"
abbreviation BLOCK :: nat where "BLOCK \<equiv> 4096"

record strings =
  st_secrets :: "rstring list"
  st_hold :: nat
  st_pending :: rstring
  st_masked_prefix :: nat
  st_redacting :: bool

definition max_len :: "rstring list \<Rightarrow> nat option" where
  "max_len secrets = (if secrets = [] then None else Some (Max (set (map str_len secrets))))"

definition strings_new :: "redactor \<Rightarrow> (string, strings) result" where
  "strings_new redactor =
     (let bytes = sum_list (map str_len (rd_secrets redactor))
      in if SECRET_BYTES < bytes then Inl ''configured secrets exceed the streaming redaction budget''
         else Inr \<lparr>st_secrets = rd_secrets redactor,
                   st_hold = (case max_len (rd_secrets redactor) of None \<Rightarrow> 1 | Some n \<Rightarrow> n) - 1,
                   st_pending = [], st_masked_prefix = 0, st_redacting = False\<rparr>)"

text \<open>\<open>str::find\<close>: the offset of the first occurrence, with the rest of the text from there.\<close>

fun find_str :: "rstring \<Rightarrow> rstring \<Rightarrow> (nat \<times> rstring) option" where
  "find_str p [] = (if p = [] then Some (0, []) else None)"
| "find_str p (c # s) =
     (if starts_with (c # s) p then Some (0, c # s)
      else map_option (\<lambda>(n, t). (len_utf8 c + n, t)) (find_str p s))"

lemma find_str_length: "find_str p s = Some (n, t) \<Longrightarrow> length t \<le> length s"
  by (induction p s arbitrary: n rule: find_str.induct) (fastforce split: if_splits)+

text \<open>The search of one secret: the end of an occurrence is recorded at its start, and the search goes on
  one character after the start.\<close>

function mark_secret :: "rstring \<Rightarrow> nat \<Rightarrow> rstring \<Rightarrow> nat list \<Rightarrow> nat list option" where
  "mark_secret secret from rest ends =
     (case find_str secret rest of
        None \<Rightarrow> Some ends
      | Some (relative, []) \<Rightarrow> None
      | Some (relative, c # t) \<Rightarrow>
          let start = from + relative
          in case idx ends start of
               None \<Rightarrow> None
             | Some old \<Rightarrow>
                 mark_secret secret (start + len_utf8 c) t (ends[start := max old (start + str_len secret)]))"
  by pat_completeness auto

termination mark_secret
  by (relation "measure (\<lambda>(_, _, rest, _). length rest)") (auto dest: find_str_length)

declare mark_secret.simps [simp del]

fun mark_secrets :: "rstring list \<Rightarrow> rstring \<Rightarrow> nat list \<Rightarrow> nat list option" where
  "mark_secrets [] pending ends = Some ends"
| "mark_secrets (secret # secrets) pending ends = do {
     ends \<leftarrow> mark_secret secret 0 pending ends;
     mark_secrets secrets pending ends
   }"

fun emit_spans ::
  "rstring \<Rightarrow> nat \<Rightarrow> nat \<Rightarrow> rstring \<Rightarrow> bool \<Rightarrow> nat \<Rightarrow> span list \<Rightarrow> (nat \<times> rstring \<times> bool \<times> nat) option" where
  "emit_spans pending cutoff offset out redacting masked_prefix [] = Some (offset, out, redacting, masked_prefix)"
| "emit_spans pending cutoff offset out redacting masked_prefix ((start, end) # merged) =
     (if cutoff \<le> start then Some (offset, out, redacting, masked_prefix)
      else do {
        (out, redacting) \<leftarrow>
          (if offset < start then do { t \<leftarrow> str_slice pending offset start; Some (out @ t, False) }
           else Some (out, redacting));
        let out = (if redacting then out else out @ marker);
        let masked_prefix = (if cutoff < end then end - cutoff else masked_prefix);
        emit_spans pending cutoff (min end cutoff) out True masked_prefix merged
      })"

text \<open>The loop with the piece after the last span.\<close>

definition emit_prefix ::
  "rstring \<Rightarrow> nat \<Rightarrow> nat \<Rightarrow> rstring \<Rightarrow> bool \<Rightarrow> nat \<Rightarrow> span list \<Rightarrow> (rstring \<times> bool \<times> nat) option" where
  "emit_prefix pending cutoff offset out redacting masked_prefix merged = do {
     (offset, out, redacting, masked_prefix) \<leftarrow>
       emit_spans pending cutoff offset out redacting masked_prefix merged;
     (out, redacting) \<leftarrow>
       (if offset < cutoff then do { t \<leftarrow> str_slice pending offset cutoff; Some (out @ t, False) }
        else Some (out, redacting));
     Some (out, redacting, masked_prefix)
   }"

definition table_spans :: "nat list \<Rightarrow> span list" where
  "table_spans ends = filter (\<lambda>(start, end). start < end) (enumerate 0 ends)"

definition emit :: "bool \<Rightarrow> strings \<Rightarrow> (rstring \<times> strings) option" where
  "emit flush st = (
     let pending = st_pending st;
         cutoff = (if flush then str_len pending else str_len pending - st_hold st);
         cutoff = floor_boundary pending cutoff
     in if cutoff = 0 then Some ([], st)
        else do {
          ends \<leftarrow> mark_secrets (st_secrets st) pending
                    ((replicate (str_len pending + 1) 0)[0 := st_masked_prefix st]);
          let merged = merge_spans (\<le>) [] (table_spans ends);
          (out, redacting, masked_prefix) \<leftarrow> emit_prefix pending cutoff 0 [] (st_redacting st) 0 merged;
          (_, rest) \<leftarrow> split_at cutoff pending;
          Some (out, st\<lparr>st_pending := rest,
                        st_masked_prefix := (if flush then 0 else masked_prefix),
                        st_redacting := (if flush then False else redacting)\<rparr>)
        })"

declare emit_spans.simps(2) [simp del]

section \<open>The recorded ends\<close>

definition secret_occurrences :: "rstring list \<Rightarrow> rstring \<Rightarrow> span set" where
  "secret_occurrences secrets text = {(x, x + str_len p) | p x. p \<in> set secrets \<and> occurs p text x}"

lemma find_str_None: "p \<noteq> [] \<Longrightarrow> find_str p s = None \<Longrightarrow> \<not> occurs p s x"
  by (induction p s arbitrary: x rule: find_str.induct) (auto simp: occurs_Cons split: if_splits)

lemma find_str_Some:
  assumes "p \<noteq> []" "find_str p s = Some (n, t)"
  shows "\<exists>a. s = a @ t \<and> str_len a = n \<and> t \<noteq> [] \<and> starts_with t p \<and> (\<forall>x. occurs p s x \<longrightarrow> n \<le> x)"
  using assms
proof (induction p s arbitrary: n rule: find_str.induct)
  case (2 p c s)
  show ?case
  proof (cases "starts_with (c # s) p")
    case False
    then obtain k where k: "find_str p s = Some (k, t)" "n = len_utf8 c + k"
      using 2(3) by auto
    then obtain a where "s = a @ t" "str_len a = k" "t \<noteq> []" "starts_with t p" "\<forall>x. occurs p s x \<longrightarrow> k \<le> x"
      using 2(1) [OF False 2(2) k(1)] by blast
    then show ?thesis
      using k(2) False 2(2) by (intro exI [of _ "c # a"]) (auto simp: occurs_Cons)
  qed (use 2(3) in auto)
qed simp

lemma occurs_suffix:
  assumes "occurs p (a @ t) x" "str_len a \<le> x"
  shows "occurs p t (x - str_len a)"
proof -
  obtain u v where uv: "a @ t = u @ p @ v" "str_len u = x"
    using assms(1) by (auto simp: occurs_def)
  then obtain w where "u = a @ w" "t = w @ p @ v"
    using append_str_len [of u "p @ v" a t] assms(2) by auto
  then show ?thesis
    unfolding occurs_def using uv(2) by (intro exI [of _ w] exI [of _ v]) auto
qed

text \<open>What a search leaves in the table: every occurrence, and nothing that was not there.\<close>

definition marked :: "rstring list \<Rightarrow> rstring \<Rightarrow> nat list \<Rightarrow> nat list \<Rightarrow> bool" where
  "marked secrets pending ends ends' \<longleftrightarrow>
     length ends' = length ends \<and>
     (\<forall>x < length ends. ends ! x \<le> ends' ! x \<and>
        (ends' ! x = ends ! x \<or> (x, ends' ! x) \<in> secret_occurrences secrets pending))"

lemma mark_secret_exact:
  assumes "p \<noteq> []" "pending = a @ rest" "str_len a = from" "length ends = str_len pending + 1"
  shows "\<exists>ends'. mark_secret p from rest ends = Some ends' \<and> marked [p] pending ends ends' \<and>
           (\<forall>x. occurs p rest x \<longrightarrow> from + x + str_len p \<le> ends' ! (from + x))"
  using assms
proof (induction p "from" rest ends arbitrary: a rule: mark_secret.induct)
  case (1 p "from" rest ends)
  show ?case
  proof (cases "find_str p rest")
    case None
    then show ?thesis
      using find_str_None [OF 1(2) None]
      by (subst mark_secret.simps) (auto simp: marked_def)
  next
    case (Some nt)
    then obtain n t where nt: "find_str p rest = Some (n, t)"
      by (cases nt) auto
    obtain b where b: "rest = b @ t" "str_len b = n" "t \<noteq> []" "starts_with t p"
        "\<And>x. occurs p rest x \<Longrightarrow> n \<le> x"
      using find_str_Some [OF 1(2) nt] by blast
    then obtain c u where t: "t = c # u"
      by (cases t) auto
    let ?start = "from + n"
    let ?ends = "ends[?start := max (ends ! ?start) (?start + str_len p)]"
    have len: "?start < length ends"
      using 1(3-5) b(1,2) by simp
    have occ: "occurs p pending ?start"
    proof -
      obtain y where "t = p @ y"
        using b(4) by (auto simp: starts_with_iff)
      then show ?thesis
        using 1(3,4) b(1,2) unfolding occurs_def by (intro exI [of _ "a @ b"] exI [of _ y]) simp
    qed
    have step: "mark_secret p from rest ends = mark_secret p (?start + len_utf8 c) u ?ends"
      using nt t len by (subst mark_secret.simps) (simp add: Let_def)
    obtain ends' where e: "mark_secret p (?start + len_utf8 c) u ?ends = Some ends'"
        "marked [p] pending ?ends ends'"
        "\<And>x. occurs p u x \<Longrightarrow> ?start + len_utf8 c + x + str_len p \<le> ends' ! (?start + len_utf8 c + x)"
      using 1(1) [OF nt refl t refl, of "ends ! ?start" "a @ b @ [c]"] 1(2-5) b(1,2) t len by auto
    have upd: "?ends ! x = (if x = ?start then max (ends ! x) (x + str_len p) else ends ! x)"
      if "x < length ends" for x
      using that by (simp add: nth_list_update)
    have le: "?ends ! x \<le> ends' ! x"
      and new: "ends' ! x = ?ends ! x \<or> (x, ends' ! x) \<in> secret_occurrences [p] pending" if "x < length ends" for x
      using e(2) that by (simp_all add: marked_def)
    have "(?start, ?start + str_len p) \<in> secret_occurrences [p] pending"
      using occ by (auto simp: secret_occurrences_def)
    then have "marked [p] pending ends ends'"
      using le new upd e(2) unfolding marked_def
      by (smt (verit, del_insts) length_list_update max_def order.trans order_refl nle_le)
    moreover have "from + x + str_len p \<le> ends' ! (from + x)" if x: "occurs p rest x" for x
    proof -
      have "n \<le> x"
        using b(5) x by blast
      then have "occurs p t (x - n)"
        using occurs_suffix [of p b t x] x b(1,2) by simp
      then consider "x = n" | "len_utf8 c \<le> x - n" "occurs p u (x - n - len_utf8 c)"
        using \<open>n \<le> x\<close> 1(2) unfolding t by (auto simp: occurs_Cons)
      then show ?thesis
      proof cases
        case 1
        then show ?thesis
          using le [OF len] upd [OF len] by (simp add: add.assoc)
      next
        case 2
        then have "?start + len_utf8 c + (x - n - len_utf8 c) = from + x"
          using \<open>n \<le> x\<close> by simp
        then show ?thesis
          using e(3) [OF 2(2)] by metis
      qed
    qed
    ultimately show ?thesis
      using step e(1) by auto
  qed
qed

lemma mark_secrets_exact:
  assumes "\<forall>p \<in> set secrets. p \<noteq> []" "length ends = str_len pending + 1"
  shows "\<exists>ends'. mark_secrets secrets pending ends = Some ends' \<and> marked secrets pending ends ends' \<and>
           (\<forall>(x, e) \<in> secret_occurrences secrets pending. e \<le> ends' ! x)"
  using assms
proof (induction secrets arbitrary: ends)
  case Nil
  then show ?case
    by (simp add: marked_def secret_occurrences_def)
next
  case (Cons p secrets)
  obtain ends1 where 1: "mark_secret p 0 pending ends = Some ends1" "marked [p] pending ends ends1"
      "\<And>x. occurs p pending x \<Longrightarrow> x + str_len p \<le> ends1 ! x"
    using mark_secret_exact [of p pending "[]" pending 0 ends] Cons.prems by auto
  have len1: "length ends1 = length ends"
    using 1(2) by (simp add: marked_def)
  then obtain ends2 where 2: "mark_secrets secrets pending ends1 = Some ends2" "marked secrets pending ends1 ends2"
      "\<forall>(x, e) \<in> secret_occurrences secrets pending. e \<le> ends2 ! x"
    using Cons.IH [of ends1] Cons.prems by auto
  have occ: "secret_occurrences (p # secrets) pending = secret_occurrences [p] pending \<union> secret_occurrences secrets pending"
    by (auto simp: secret_occurrences_def)
  have le: "ends1 ! x \<le> ends2 ! x" if "x < length ends" for x
    using that 2(2) len1 by (simp add: marked_def)
  have "marked (p # secrets) pending ends ends2"
    unfolding marked_def occ
  proof (intro conjI allI impI)
    fix x assume x: "x < length ends"
    show "ends ! x \<le> ends2 ! x"
      using 1(2) le [OF x] x by (auto simp: marked_def intro: order.trans)
    show "ends2 ! x = ends ! x \<or> (x, ends2 ! x) \<in> secret_occurrences [p] pending \<union> secret_occurrences secrets pending"
    proof -
      have "ends2 ! x = ends1 ! x \<or> (x, ends2 ! x) \<in> secret_occurrences secrets pending"
        using 2(2) x len1 by (simp add: marked_def)
      moreover have "ends1 ! x = ends ! x \<or> (x, ends1 ! x) \<in> secret_occurrences [p] pending"
        using 1(2) x by (simp add: marked_def)
      ultimately show ?thesis
        by (metis Un_iff)
    qed
  qed (use 2(2) len1 in \<open>simp add: marked_def\<close>)
  moreover have "e \<le> ends2 ! x" if "(x, e) \<in> secret_occurrences (p # secrets) pending" for x e
  proof (cases "(x, e) \<in> secret_occurrences secrets pending")
    case False
    then have "occurs p pending x" "e = x + str_len p"
      using that by (auto simp: secret_occurrences_def)
    then show ?thesis
      using 1(3) le [of x] occurs_end [of p pending x] Cons.prems(2) by fastforce
  qed (use 2(3) in auto)
  ultimately show ?case
    using 1(1) 2(1) by auto
qed

text \<open>The spans of one call: the rest of the run the last call ended in, and the occurrences.\<close>

definition open_spans :: "rstring list \<Rightarrow> nat \<Rightarrow> rstring \<Rightarrow> span set" where
  "open_spans secrets masked_prefix pending =
     (if masked_prefix = 0 then {} else {(0, masked_prefix)}) \<union> secret_occurrences secrets pending"

lemma table_spans_iff: "(s, e) \<in> set (table_spans ends) \<longleftrightarrow> s < length ends \<and> e = ends ! s \<and> s < e"
  by (auto simp: table_spans_def in_set_enumerate_eq)

lemma table_spans_sorted: "sorted (map fst (table_spans ends))" "\<forall>(s, e) \<in> set (table_spans ends). s < e"
proof -
  have "sorted (map fst (filter P (enumerate 0 ends)))" for P
    by (rule sorted_filter) simp
  then show "sorted (map fst (table_spans ends))"
    by (simp add: table_spans_def)
qed (auto simp: table_spans_iff)

lemma table_exact:
  assumes "\<forall>p \<in> set secrets. p \<noteq> []"
  obtains ends where
    "mark_secrets secrets pending ((replicate (str_len pending + 1) 0)[0 := masked_prefix]) = Some ends"
    "set (table_spans ends) \<subseteq> open_spans secrets masked_prefix pending"
    "\<And>s e. (s, e) \<in> open_spans secrets masked_prefix pending \<Longrightarrow> \<exists>e'. e \<le> e' \<and> (s, e') \<in> set (table_spans ends)"
proof -
  let ?ends = "(replicate (str_len pending + 1) 0)[0 := masked_prefix]"
  obtain ends where e: "mark_secrets secrets pending ?ends = Some ends" "marked secrets pending ?ends ends"
      "\<forall>(x, e) \<in> secret_occurrences secrets pending. e \<le> ends ! x"
    using mark_secrets_exact [OF assms, of ?ends pending] by auto
  have len: "length ends = str_len pending + 1"
    using e(2) by (simp add: marked_def)
  have old: "?ends ! x = (if x = 0 then masked_prefix else 0)" if "x < length ends" for x
    using that len by (simp add: nth_list_update)
  show thesis
  proof
    show "set (table_spans ends) \<subseteq> open_spans secrets masked_prefix pending"
    proof (rule subrelI)
      fix s e' assume "(s, e') \<in> set (table_spans ends)"
      then have *: "s < length ends" "e' = ends ! s" "s < e'"
        by (simp_all add: table_spans_iff)
      then have "ends ! s = ?ends ! s \<or> (s, ends ! s) \<in> secret_occurrences secrets pending"
        using e(2) len unfolding marked_def by simp
      then show "(s, e') \<in> open_spans secrets masked_prefix pending"
        using * old [OF *(1)] by (auto simp: open_spans_def split: if_splits)
    qed
    fix s e' assume "(s, e') \<in> open_spans secrets masked_prefix pending"
    then consider "s = 0" "e' = masked_prefix" "0 < masked_prefix" | "(s, e') \<in> secret_occurrences secrets pending"
      by (auto simp: open_spans_def split: if_splits)
    then show "\<exists>e''. e' \<le> e'' \<and> (s, e'') \<in> set (table_spans ends)"
    proof cases
      case 1
      have "?ends ! 0 \<le> ends ! 0"
        using e(2) by (auto simp: marked_def dest: spec [of _ 0])
      then show ?thesis
        using 1 len by (auto simp: table_spans_iff)
    next
      case 2
      then obtain p where "p \<in> set secrets" "occurs p pending s" "e' = s + str_len p"
        by (auto simp: secret_occurrences_def)
      then have "s < e'" "s < length ends"
        using assms len occurs_end [of p pending s] by (auto simp flip: str_len_0)
      moreover have "e' \<le> ends ! s"
        using e(3) 2 by blast
      ultimately show ?thesis
        by (intro exI [of _ "ends ! s"]) (simp add: table_spans_iff)
    qed
  qed (rule e(1))
qed

text \<open>For each start only the longest span counts.\<close>

lemma longest_spans:
  assumes "set L \<subseteq> J" "\<And>s e. (s, e) \<in> J \<Longrightarrow> \<exists>e'. e \<le> e' \<and> (s, e') \<in> set L"
  shows "covered (set L) x \<longleftrightarrow> covered J x" "unbroken (\<le>) (set L) x \<longleftrightarrow> unbroken (\<le>) J x"
proof -
  show "covered (set L) x \<longleftrightarrow> covered J x"
  proof
    assume "covered J x"
    then obtain s e where "(s, e) \<in> J" "s \<le> x" "x < e"
      by (auto simp: covered_def)
    moreover obtain e' where "e \<le> e'" "(s, e') \<in> set L"
      using assms(2) calculation(1) by blast
    ultimately show "covered (set L) x"
      unfolding covered_def by (intro bexI [of _ "(s, e')"]) auto
  qed (use assms(1) in \<open>auto simp: covered_def\<close>)
  show "unbroken (\<le>) (set L) x \<longleftrightarrow> unbroken (\<le>) J x"
  proof
    assume "unbroken (\<le>) J x"
    then obtain s e where "(s, e) \<in> J" "s < x" "x \<le> e"
      by (auto simp: unbroken_def)
    moreover obtain e' where "e \<le> e'" "(s, e') \<in> set L"
      using assms(2) calculation(1) by blast
    ultimately show "unbroken (\<le>) (set L) x"
      unfolding unbroken_def by (intro bexI [of _ "(s, e')"]) auto
  qed (use assms(1) in \<open>auto simp: unbroken_def\<close>)
qed

section \<open>The loop over the merged spans\<close>

lemma piece:
  assumes "P = a @ u @ v"
  shows "str_slice P (str_len a) (str_len (a @ u)) = Some u"
  unfolding str_slice_Some using assms by (intro exI [of _ a] exI [of _ v]) simp

lemma emit_prefix_stop:
  assumes "\<forall>(s, e) \<in> set M. cutoff \<le> s" "P = a @ w @ R" "str_len a = offset" "str_len (a @ w) = cutoff"
  shows "emit_prefix P cutoff offset out redacting mp M = Some (out @ w, redacting \<and> w = [], mp)"
proof -
  have "emit_spans P cutoff offset out redacting mp M = Some (offset, out, redacting, mp)"
    using assms(1) by (cases M) (auto simp: emit_spans.simps)
  moreover have "w = [] \<longleftrightarrow> \<not> offset < cutoff"
    using assms(3,4) by auto
  moreover have "str_slice P offset cutoff = Some w"
    using piece [OF assms(2)] assms(3,4) by simp
  ultimately show ?thesis
    by (simp add: emit_prefix_def)
qed

lemma emit_prefix_span:
  assumes "s < cutoff" "P = a @ u @ t" "str_len a = offset" "str_len (a @ u) = s"
  shows "emit_prefix P cutoff offset out redacting mp ((s, e) # M) =
           emit_prefix P cutoff (min e cutoff) (out @ u @ (if redacting \<and> u = [] then [] else marker)) True
             (if cutoff < e then e - cutoff else mp) M"
proof -
  have "u = [] \<longleftrightarrow> \<not> offset < s"
    using assms(3,4) by auto
  moreover have "str_slice P offset s = Some u"
    using piece [OF assms(2)] assms(3,4) by simp
  ultimately show ?thesis
    using assms(1) by (cases "u = []") (simp_all add: emit_prefix_def emit_spans.simps)
qed

lemma emit_prefix_exact:
  assumes "apart (\<le>) M" "\<forall>(s, e) \<in> set M. offset \<le> s \<and> is_char_boundary P s \<and> is_char_boundary P e"
    "P = a @ w @ R" "str_len a = offset" "str_len (a @ w) = cutoff"
  shows "\<exists>red' mp'. emit_prefix P cutoff offset out red mp M =
             Some (out @ mask_text (covered (set M)) (\<lambda>x. begins (set M) x \<and> \<not> (red \<and> x = offset)) offset w,
                   red', mp') \<and>
           (red' \<longleftrightarrow> (if w = [] then red else unbroken (\<le>) (set M) cutoff)) \<and>
           (\<forall>(s, e) \<in> set M. s < cutoff \<and> cutoff < e \<longrightarrow> mp' = e - cutoff) \<and>
           ((\<forall>(s, e) \<in> set M. \<not> (s < cutoff \<and> cutoff < e)) \<longrightarrow> mp' = mp)"
  using assms
proof (induction M arbitrary: offset out red mp a w)
  case Nil
  then show ?case
    using emit_prefix_stop [of "[]" cutoff P a w R offset out red mp] by (simp add: mask_clear)
next
  case (Cons p M)
  obtain s e where p: "p = (s, e)"
    by fastforce
  have ap: "s < e" "\<forall>(s', e') \<in> set M. e < s'" "apart (\<le>) M"
    using Cons.prems(1) p by (fastforce simp: not_le)+
  have later: "e < x" if "begins (set M) x \<or> covered (set M) x" for x
    using that ap(2) by (fastforce simp: begins_def covered_def)
  show ?case
  proof (cases "cutoff \<le> s")
    case True
    then have stop: "\<forall>(s', e') \<in> set (p # M). cutoff \<le> s'"
      using ap p by fastforce
    have "mask_text (covered (set (p # M))) f offset w = w" for f
      using stop Cons.prems(4,5) by (intro mask_clear) (fastforce simp: covered_def)
    moreover have "\<not> unbroken (\<le>) (set (p # M)) cutoff"
      using stop by (fastforce simp: unbroken_def)
    ultimately show ?thesis
      using emit_prefix_stop [OF stop Cons.prems(3-5), of out red mp] stop by (auto 0 3)
  next
    case False
    define m where "m = min e cutoff"
    have m: "s < m" "m \<le> e" "m \<le> cutoff"
      using False ap(1) by (auto simp: m_def)
    have "is_char_boundary P cutoff"
      unfolding is_char_boundary_iff using Cons.prems(3,5) by (intro exI [of _ "a @ w"] exI [of _ R]) simp
    moreover have "is_char_boundary P e"
      using Cons.prems(2) p by simp
    ultimately have "is_char_boundary P m"
      by (simp add: m_def min_def)
    then obtain t2 y where t2: "P = t2 @ y" "str_len t2 = m"
      by (auto simp: is_char_boundary_iff)
    have "is_char_boundary P s" "offset \<le> s"
      using Cons.prems(2) p by simp_all
    then obtain t1 x where t1: "P = t1 @ x" "str_len t1 = s"
      by (auto simp: is_char_boundary_iff)
    obtain u where u: "t1 = a @ u" "w @ R = u @ x"
      using t1 Cons.prems(3,4) \<open>offset \<le> s\<close> append_str_len [of t1 x a "w @ R"] by auto
    obtain v where v: "t2 = t1 @ v" "x = v @ y"
      using t1 t2 m(1) append_str_len [of t2 y t1 x] by auto
    obtain w' where w': "a @ w = t2 @ w'" "y = w' @ R"
      using t2 Cons.prems(3,5) m(3) append_str_len [of "a @ w" R t2 y] by auto
    have w: "w = u @ v @ w'"
      using w'(1) u(1) v(1) by simp
    have len: "str_len (a @ u) = s" "str_len (a @ u @ v) = m" "offset + str_len u = s" "s + str_len v = m"
      using t1(2) t2(2) u(1) v(1) Cons.prems(4) by simp_all
    have "v \<noteq> []"
      using len(4) m(1) by auto
    let ?mp = "if cutoff < e then e - cutoff else mp"
    let ?out = "out @ u @ (if red \<and> u = [] then [] else marker)"
    have step: "emit_prefix P cutoff offset out red mp (p # M) = emit_prefix P cutoff m ?out True ?mp M"
      unfolding p m_def
      by (rule emit_prefix_span [of s cutoff P a u x]) (use False t1 u len Cons.prems(4) in auto)
    obtain red' mp' where IH:
        "emit_prefix P cutoff m ?out True ?mp M =
           Some (?out @ mask_text (covered (set M)) (\<lambda>x. begins (set M) x \<and> \<not> (True \<and> x = m)) m w', red', mp')"
        "red' \<longleftrightarrow> (if w' = [] then True else unbroken (\<le>) (set M) cutoff)"
        "\<forall>(s, e) \<in> set M. s < cutoff \<and> cutoff < e \<longrightarrow> mp' = e - cutoff"
        "(\<forall>(s, e) \<in> set M. \<not> (s < cutoff \<and> cutoff < e)) \<longrightarrow> mp' = ?mp"
    proof -
      have "\<forall>(s, e) \<in> set M. m \<le> s \<and> is_char_boundary P s \<and> is_char_boundary P e"
        using ap(2) m(2) Cons.prems(2) by fastforce
      moreover have "P = (a @ u @ v) @ w' @ R" "str_len ((a @ u @ v) @ w') = cutoff"
        using Cons.prems(3,5) w by simp_all
      ultimately have "\<exists>red' mp'. emit_prefix P cutoff m ?out True ?mp M =
             Some (?out @ mask_text (covered (set M)) (\<lambda>x. begins (set M) x \<and> \<not> (True \<and> x = m)) m w', red', mp') \<and>
           (red' \<longleftrightarrow> (if w' = [] then True else unbroken (\<le>) (set M) cutoff)) \<and>
           (\<forall>(s, e) \<in> set M. s < cutoff \<and> cutoff < e \<longrightarrow> mp' = e - cutoff) \<and>
           ((\<forall>(s, e) \<in> set M. \<not> (s < cutoff \<and> cutoff < e)) \<longrightarrow> mp' = ?mp)"
        using len(2) by (intro Cons.IH [OF ap(3)])
      then show thesis
        by (elim exE conjE) (rule that)
    qed
    let ?cov = "covered (set (p # M))" and ?fresh = "\<lambda>x. begins (set (p # M)) x \<and> \<not> (red \<and> x = offset)"
    have whole: "mask_text ?cov ?fresh offset w =
        u @ (if red \<and> u = [] then [] else marker) @
        mask_text (covered (set M)) (\<lambda>x. begins (set M) x \<and> \<not> (True \<and> x = m)) m w'"
    proof -
      have "mask_text ?cov ?fresh offset u = u"
        by (rule mask_clear) (use later len(3) ap(1) p in fastforce)
      moreover have "mask_text ?cov ?fresh s v = (if red \<and> u = [] then [] else marker)"
      proof (cases "red \<and> u = []")
        case True
        then have "mask_text ?cov ?fresh s v = []"
          by (intro mask_stale) (use later len m(2) p in fastforce)
        then show ?thesis
          using True by simp
      next
        case False
        then have "\<not> (red \<and> s = offset)"
          using len(3) by auto
        then have "mask_text ?cov ?fresh s v = marker"
          by (intro mask_run \<open>v \<noteq> []\<close>) (use later len m(2) p in fastforce)
        then show ?thesis
          using False by (simp only: if_False)
      qed
      moreover have "mask_text ?cov ?fresh m w' =
          mask_text (covered (set M)) (\<lambda>x. begins (set M) x \<and> \<not> (True \<and> x = m)) m w'"
      proof (rule mask_cong)
        fix x assume x: "m \<le> x" "x < m + str_len w'"
        have "x < e \<longrightarrow> m = cutoff"
          using x(1) by (auto simp: m_def min_def)
        moreover have "m + str_len w' = cutoff"
          using Cons.prems(5) t2(2) unfolding w'(1) by simp
        ultimately have "e \<le> x"
          using x by linarith
        then show "?cov x = covered (set M) x"
          using p by simp
        show "?fresh x = (begins (set M) x \<and> \<not> (True \<and> x = m))"
          using x(1) m(1,2) later [of x] p \<open>offset \<le> s\<close> by auto
      qed
      ultimately show ?thesis
        unfolding w using len(3,4) by (simp add: mask_append)
    qed
    have "w \<noteq> []"
      using w \<open>v \<noteq> []\<close> by simp
    moreover have "red' \<longleftrightarrow> unbroken (\<le>) (set (p # M)) cutoff"
    proof (cases "w' = []")
      case True
      then have "m = cutoff"
        using w'(1) t2(2) Cons.prems(5) by simp
      then show ?thesis
        using IH(2) True p False m(2) by simp
    next
      case rest: False
      have "m + str_len w' = cutoff"
        using Cons.prems(5) t2(2) unfolding w'(1) by simp
      moreover have "0 < str_len w'"
        using rest by (simp flip: neq0_conv)
      ultimately have "m < cutoff"
        by linarith
      then have "e < cutoff"
        by (simp add: m_def min_def split: if_splits)
      then show ?thesis
        using IH(2) rest p by simp
    qed
    moreover have "\<forall>(s', e') \<in> set (p # M). s' < cutoff \<and> cutoff < e' \<longrightarrow> mp' = e' - cutoff"
    proof (cases "cutoff < e")
      case True
      then have "\<forall>(s', e') \<in> set M. \<not> (s' < cutoff \<and> cutoff < e')"
        using ap(2) by fastforce
      then show ?thesis
        using IH(4) True p by auto
    qed (use IH(3) p in auto)
    moreover have "(\<forall>(s', e') \<in> set (p # M). \<not> (s' < cutoff \<and> cutoff < e')) \<longrightarrow> mp' = mp"
      using IH(4) p False by auto
    moreover have "emit_prefix P cutoff offset out red mp (p # M) =
        Some (out @ mask_text ?cov ?fresh offset w, red', mp')"
      unfolding step IH(1) whole by simp
    ultimately show ?thesis
      by (intro exI [of _ red'] exI [of _ mp']) (simp only: if_False simp_thms)
  qed
qed

section \<open>One call\<close>

lemma unbroken_le: "unbroken (\<le>) I x \<longleftrightarrow> 0 < x \<and> covered I (x - 1)"
  by (cases x) (auto simp: unbroken_def covered_def less_Suc_eq_le Suc_le_eq)

lemma open_spans_boundary:
  assumes "is_char_boundary P mp" "(s, e) \<in> open_spans S mp P"
  shows "is_char_boundary P s" "is_char_boundary P e"
proof -
  consider "s = 0" "e = mp" | p a b where "p \<in> set S" "P = a @ p @ b" "str_len a = s" "e = s + str_len p"
    using assms(2) by (auto simp: open_spans_def secret_occurrences_def occurs_def split: if_splits)
  then show "is_char_boundary P s" "is_char_boundary P e"
  proof (atomize(full), cases)
    case 2
    then show "is_char_boundary P s \<and> is_char_boundary P e"
      using is_char_boundary_iff [of P s] is_char_boundary_iff [of P e]
      by (metis append.assoc str_len_simps(3))
  qed (use assms(1) in simp)
qed

lemma is_char_boundary_rest:
  assumes "is_char_boundary (Q @ R) (str_len Q + n)"
  shows "is_char_boundary R n"
proof -
  obtain a b where ab: "Q @ R = a @ b" "str_len a = str_len Q + n"
    using assms by (auto simp: is_char_boundary_iff)
  then obtain u where "a = Q @ u" "R = u @ b"
    using append_str_len [of a b Q R] by auto
  then show ?thesis
    using ab(2) by (auto simp: is_char_boundary_iff)
qed

lemma emit_exact:
  assumes ne: "\<forall>p \<in> set (st_secrets st). p \<noteq> []"
    and mp: "is_char_boundary (st_pending st) (st_masked_prefix st)"
    and P: "st_pending st = Q @ R" "Q \<noteq> []"
    and cutoff: "floor_boundary (st_pending st)
        (if flush then str_len (st_pending st) else str_len (st_pending st) - st_hold st) = str_len Q"
  defines "J \<equiv> open_spans (st_secrets st) (st_masked_prefix st) (st_pending st)"
  shows "\<exists>red' mp'. emit flush st =
             Some (mask_text (covered J) (\<lambda>x. if x = 0 then \<not> st_redacting st else \<not> covered J (x - 1)) 0 Q,
                   st\<lparr>st_pending := R, st_masked_prefix := (if flush then 0 else mp'),
                      st_redacting := (if flush then False else red')\<rparr>) \<and>
           (red' \<longleftrightarrow> covered J (str_len Q - 1)) \<and> is_char_boundary R mp' \<and>
           (\<forall>x \<ge> str_len Q. covered J x \<longleftrightarrow>
              x < str_len Q + mp' \<or> covered {(s, e) \<in> J. str_len Q \<le> s} x)"
proof -
  let ?P = "st_pending st" and ?S = "st_secrets st" and ?red = "st_redacting st" and ?c = "str_len Q"
  obtain ends where ends:
      "mark_secrets ?S ?P ((replicate (str_len ?P + 1) 0)[0 := st_masked_prefix st]) = Some ends"
      "set (table_spans ends) \<subseteq> J"
      "\<And>s e. (s, e) \<in> J \<Longrightarrow> \<exists>e'. e \<le> e' \<and> (s, e') \<in> set (table_spans ends)"
    by (rule table_exact [OF ne, of ?P "st_masked_prefix st", folded J_def]) (rule that)
  let ?L = "table_spans ends"
  let ?M = "merge_spans (\<le>) [] ?L"
  have covM: "covered (set ?M) x \<longleftrightarrow> covered J x" for x
    using adjacent.merge_spans(1) [OF table_spans_sorted] longest_spans(1) [OF ends(2,3)] by simp
  have begM: "covered J x \<Longrightarrow> begins (set ?M) x \<longleftrightarrow> \<not> unbroken (\<le>) J x" for x
    using adjacent.merge_spans(4) [OF table_spans_sorted] longest_spans [OF ends(2,3)] by simp
  have bM: "\<forall>(s, e) \<in> set ?M. is_char_boundary ?P s \<and> is_char_boundary ?P e"
    by (rule merge_spans_ends) (use open_spans_boundary [OF mp] ends(2) J_def in auto)
  then have "\<forall>(s, e) \<in> set ?M. 0 \<le> s \<and> is_char_boundary ?P s \<and> is_char_boundary ?P e"
    by auto
  then have "\<exists>red' mp'. emit_prefix ?P ?c 0 [] ?red 0 ?M =
        Some ([] @ mask_text (covered (set ?M)) (\<lambda>x. begins (set ?M) x \<and> \<not> (?red \<and> x = 0)) 0 Q, red', mp') \<and>
      (red' \<longleftrightarrow> (if Q = [] then ?red else unbroken (\<le>) (set ?M) ?c)) \<and>
      (\<forall>(s, e) \<in> set ?M. s < ?c \<and> ?c < e \<longrightarrow> mp' = e - ?c) \<and>
      ((\<forall>(s, e) \<in> set ?M. \<not> (s < ?c \<and> ?c < e)) \<longrightarrow> mp' = 0)"
    by (intro emit_prefix_exact [of ?M 0 ?P "[]" Q R] adjacent.merge_spans(3) [OF table_spans_sorted])
      (use P in simp_all)
  then obtain red' mp' where run:
      "emit_prefix ?P ?c 0 [] ?red 0 ?M =
        Some ([] @ mask_text (covered (set ?M)) (\<lambda>x. begins (set ?M) x \<and> \<not> (?red \<and> x = 0)) 0 Q, red', mp')"
      "red' \<longleftrightarrow> (if Q = [] then ?red else unbroken (\<le>) (set ?M) ?c)"
      "\<forall>(s, e) \<in> set ?M. s < ?c \<and> ?c < e \<longrightarrow> mp' = e - ?c"
      "(\<forall>(s, e) \<in> set ?M. \<not> (s < ?c \<and> ?c < e)) \<longrightarrow> mp' = 0"
    by (elim exE conjE) (rule that)
  have reach: "mp' = e - ?c" if "(s, e) \<in> set ?M" "s < ?c" "?c < e" for s e
    using run(3) that by blast
  have "mask_text (covered (set ?M)) (\<lambda>x. begins (set ?M) x \<and> \<not> (?red \<and> x = 0)) 0 Q =
      mask_text (covered J) (\<lambda>x. if x = 0 then \<not> ?red else \<not> covered J (x - 1)) 0 Q"
    by (rule mask_cong) (use covM begM in \<open>auto simp: unbroken_le\<close>)
  moreover have "emit flush st = Some (mask_text (covered (set ?M)) (\<lambda>x. begins (set ?M) x \<and> \<not> (?red \<and> x = 0)) 0 Q,
      st\<lparr>st_pending := R, st_masked_prefix := (if flush then 0 else mp'),
         st_redacting := (if flush then False else red')\<rparr>)"
    using run(1) ends(1) P unfolding emit_def Let_def cutoff by simp
  moreover have "red' \<longleftrightarrow> covered J (?c - 1)"
    using run(2) P(2) covM by (simp add: unbroken_le flip: neq0_conv)
  moreover have "is_char_boundary R mp'"
  proof (cases "\<exists>(s, e) \<in> set ?M. s < ?c \<and> ?c < e")
    case True
    then obtain s e where se: "(s, e) \<in> set ?M" "s < ?c" "?c < e"
      by auto
    then have "is_char_boundary (Q @ R) (?c + mp')"
      using bM P(1) reach [OF se] by auto
    then show ?thesis
      by (rule is_char_boundary_rest)
  qed (use run(4) in auto)
  moreover have "covered J x \<longleftrightarrow> x < ?c + mp' \<or> covered {(s, e) \<in> J. ?c \<le> s} x" if x: "?c \<le> x" for x
  proof
    assume "x < ?c + mp' \<or> covered {(s, e) \<in> J. ?c \<le> s} x"
    then show "covered J x"
    proof
      assume lt: "x < ?c + mp'"
      then obtain s e where se: "(s, e) \<in> set ?M" "s < ?c" "?c < e"
        using run(4) x by fastforce
      then have "covered (set ?M) x"
        using reach [OF se] lt x unfolding covered_def by (intro bexI [OF _ se(1)]) auto
      then show ?thesis
        by (simp add: covM)
    qed (auto simp: covered_def)
  next
    assume "covered J x"
    then obtain s e where se: "(s, e) \<in> J" "s \<le> x" "x < e"
      by (auto simp: covered_def)
    show "x < ?c + mp' \<or> covered {(s, e) \<in> J. ?c \<le> s} x"
    proof (cases "?c \<le> s")
      case True
      then show ?thesis
        using se by (auto simp: covered_def)
    next
      case False
      have "covered (set ?M) x"
        using \<open>covered J x\<close> covM by simp
      then obtain s1 e1 where m: "(s1, e1) \<in> set ?M" "s1 \<le> x" "x < e1"
        by (auto simp: covered_def)
      have "s1 < ?c"
      proof (rule ccontr)
        assume "\<not> s1 < ?c"
        then have "s < s1" "s1 \<le> e"
          using False m se by linarith+
        moreover have "covered J s1"
          unfolding covered_def using calculation m se by (intro bexI [OF _ se(1)]) auto
        moreover have "begins (set ?M) s1"
          using m(1) by (auto simp: begins_def)
        ultimately have "\<not> unbroken (\<le>) J s1"
          using begM by blast
        then show False
          using se(1) \<open>s < s1\<close> \<open>s1 \<le> e\<close> by (auto simp: unbroken_def)
      qed
      then have "mp' = e1 - ?c"
        using reach [OF m(1)] m(3) x by simp
      then show ?thesis
        using m(3) x by simp
    qed
  qed
  ultimately show ?thesis
    by auto
qed

section \<open>All calls\<close>

lemma secret_occurrences_iff: "covered (secret_occurrences S Z) x \<longleftrightarrow> (\<exists>p \<in> set S. \<exists>s. occurs p Z s \<and> s \<le> x \<and> x < s + str_len p)"
  by (auto simp: covered_def secret_occurrences_def)

lemma occurs_prefix:
  assumes "occurs p (a @ b) s" "s + str_len p \<le> str_len a"
  shows "occurs p a s"
proof -
  obtain u v where uv: "a @ b = (u @ p) @ v" "str_len u = s"
    using assms(1) by (auto simp: occurs_def)
  then obtain w where "a = (u @ p) @ w"
    using append_str_len [of a b "u @ p" v] assms(2) by auto
  then show ?thesis
    using uv(2) by (auto simp: occurs_def)
qed

lemma occurs_extend: "occurs p a s \<Longrightarrow> occurs p (a @ b) s"
  unfolding occurs_def by (metis append.assoc)

lemma covered_extend: "covered (secret_occurrences S a) x \<Longrightarrow> covered (secret_occurrences S (a @ b)) x"
  using occurs_extend by (fastforce simp: secret_occurrences_iff)

lemma covered_later: "covered (secret_occurrences S b) x \<Longrightarrow> covered (secret_occurrences S (a @ b)) (str_len a + x)"
  using occurs_append by (fastforce simp: secret_occurrences_iff)

text \<open>What is kept back: \<open>done_text\<close> has been emitted as \<open>out\<close>, and whatever follows the pending text,
  what was emitted is right and what is open is known.\<close>

definition strings_ok :: "strings \<Rightarrow> bool" where
  "strings_ok st \<longleftrightarrow>
     (\<forall>p \<in> set (st_secrets st). p \<noteq> [] \<and> str_len p \<le> st_hold st + 1) \<and>
     (st_secrets st \<noteq> [] \<longrightarrow> 0 < st_hold st)"

definition emitted :: "strings \<Rightarrow> rstring \<Rightarrow> rstring \<Rightarrow> bool" where
  "emitted st D out \<longleftrightarrow>
     (let S = st_secrets st; P = st_pending st
      in is_char_boundary P (st_masked_prefix st) \<and>
         (D \<noteq> [] \<longrightarrow> S = [] \<or> P \<noteq> []) \<and>
         (\<forall>ext. let C = covered (secret_occurrences S (D @ P @ ext))
                in out = mask_text C (\<lambda>x. x = 0 \<or> \<not> C (x - 1)) 0 D \<and>
                   (st_redacting st \<longleftrightarrow> D \<noteq> [] \<and> C (str_len D - 1)) \<and>
                   (\<forall>x. C (str_len D + x) \<longleftrightarrow>
                      x < st_masked_prefix st \<or> covered (secret_occurrences S (P @ ext)) x)))"

lemma emitted_start:
  "st_pending st = [] \<Longrightarrow> st_masked_prefix st = 0 \<Longrightarrow> \<not> st_redacting st \<Longrightarrow> emitted st [] []"
  by (simp add: emitted_def)

lemma emitted_push:
  assumes "emitted st D out" "st_pending st' = st_pending st @ [c]" "st_secrets st' = st_secrets st"
    "st_masked_prefix st' = st_masked_prefix st" "st_redacting st' = st_redacting st"
  shows "emitted st' D out"
  unfolding emitted_def Let_def
proof (intro conjI allI)
  show "is_char_boundary (st_pending st') (st_masked_prefix st')"
  proof -
    obtain a b where "st_pending st = a @ b" "str_len a = st_masked_prefix st"
      using assms(1) by (auto simp: emitted_def is_char_boundary_iff Let_def)
    then show ?thesis
      unfolding is_char_boundary_iff using assms(2,4) by (intro exI [of _ a] exI [of _ "b @ [c]"]) simp
  qed
  fix ext
  note e = assms(1) [unfolded emitted_def Let_def, THEN conjunct2, THEN conjunct2, rule_format, of "c # ext"]
  show "out = mask_text (covered (secret_occurrences (st_secrets st') (D @ st_pending st' @ ext)))
          (\<lambda>x. x = 0 \<or> \<not> covered (secret_occurrences (st_secrets st') (D @ st_pending st' @ ext)) (x - 1)) 0 D"
    using e assms(2,3) by simp
  show "st_redacting st' \<longleftrightarrow> D \<noteq> [] \<and>
          covered (secret_occurrences (st_secrets st') (D @ st_pending st' @ ext)) (str_len D - 1)"
    using e assms(2,3,5) by simp
  show "covered (secret_occurrences (st_secrets st') (D @ st_pending st' @ ext)) (str_len D + x) \<longleftrightarrow>
          x < st_masked_prefix st' \<or> covered (secret_occurrences (st_secrets st') (st_pending st' @ ext)) x" for x
    using e assms(2-4) by simp
qed (use assms(2) in simp)

text \<open>A call that emits some of the pending text.\<close>

lemma emitted_emit:
  assumes ok: "strings_ok st" and e: "emitted st D out"
    and c0: "floor_boundary (st_pending st) (str_len (st_pending st) - st_hold st) \<noteq> 0"
  shows "\<exists>o1 st'. emit False st = Some (o1, st') \<and> st_secrets st' = st_secrets st \<and> st_hold st' = st_hold st \<and>
           (\<exists>Q. st_pending st = Q @ st_pending st' \<and>
              str_len Q = floor_boundary (st_pending st) (str_len (st_pending st) - st_hold st) \<and>
              emitted st' (D @ Q) (out @ o1))"
proof -
  let ?S = "st_secrets st" and ?P = "st_pending st" and ?h = "st_hold st" and ?mp = "st_masked_prefix st"
  obtain Q R where P: "?P = Q @ R" "str_len Q = floor_boundary ?P (str_len ?P - ?h)" "str_len Q \<le> str_len ?P - ?h"
    by (rule floor_boundary_split)
  have "Q \<noteq> []"
    using P(2) c0 by auto
  have "0 < str_len Q"
    using \<open>Q \<noteq> []\<close> by (simp flip: neq0_conv)
  have e': "is_char_boundary ?P ?mp"
    "\<And>ext. out = mask_text (covered (secret_occurrences ?S (D @ ?P @ ext)))
        (\<lambda>x. x = 0 \<or> \<not> covered (secret_occurrences ?S (D @ ?P @ ext)) (x - 1)) 0 D"
    "\<And>ext. st_redacting st \<longleftrightarrow> D \<noteq> [] \<and> covered (secret_occurrences ?S (D @ ?P @ ext)) (str_len D - 1)"
    "\<And>ext x. covered (secret_occurrences ?S (D @ ?P @ ext)) (str_len D + x) \<longleftrightarrow>
        x < ?mp \<or> covered (secret_occurrences ?S (?P @ ext)) x"
    using e by (simp_all add: emitted_def Let_def)
  define J where "J = open_spans ?S ?mp ?P"
  have J: "covered J x \<longleftrightarrow> x < ?mp \<or> covered (secret_occurrences ?S ?P) x" for x
    by (auto simp: J_def open_spans_def)
  have ne: "\<forall>p \<in> set ?S. p \<noteq> []"
    using ok by (simp add: strings_ok_def)
  obtain red' mp' where run: "emit False st =
      Some (mask_text (covered J) (\<lambda>x. if x = 0 then \<not> st_redacting st else \<not> covered J (x - 1)) 0 Q,
        st\<lparr>st_pending := R, st_masked_prefix := mp', st_redacting := red'\<rparr>)"
      "red' \<longleftrightarrow> covered J (str_len Q - 1)" "is_char_boundary R mp'"
      "\<And>x. str_len Q \<le> x \<Longrightarrow> covered J x \<longleftrightarrow>
         x < str_len Q + mp' \<or> covered {(s, e) \<in> J. str_len Q \<le> s} x"
    using emit_exact [OF ne e'(1) P(1) \<open>Q \<noteq> []\<close>, of False] P(2) J_def by auto
  let ?st = "st\<lparr>st_pending := R, st_masked_prefix := mp', st_redacting := red'\<rparr>"
  have inside: "s + str_len p \<le> str_len ?P" if "p \<in> set ?S" "s < str_len Q" for p s
  proof -
    have "str_len p \<le> ?h + 1"
      using ok that(1) by (simp add: strings_ok_def)
    then show ?thesis
      using P(3) that(2) by linarith
  qed
  have near: "covered (secret_occurrences ?S (D @ ?P @ ext)) (str_len D + x) \<longleftrightarrow> covered J x"
    if "x < str_len Q" for ext x
  proof -
    have "covered (secret_occurrences ?S (?P @ ext)) x \<longleftrightarrow> covered (secret_occurrences ?S ?P) x"
    proof
      assume "covered (secret_occurrences ?S (?P @ ext)) x"
      then obtain p s where p: "p \<in> set ?S" "occurs p (?P @ ext) s" "s \<le> x" "x < s + str_len p"
        by (auto simp: secret_occurrences_iff)
      have "occurs p ?P s"
        by (rule occurs_prefix [OF p(2) inside [OF p(1)]]) (use that p(3) in simp)
      then show "covered (secret_occurrences ?S ?P) x"
        unfolding secret_occurrences_iff using p(1,3,4) by blast
    qed (rule covered_extend)
    then show ?thesis
      by (simp add: e'(4) J)
  qed
  let ?o = "mask_text (covered J) (\<lambda>x. if x = 0 then \<not> st_redacting st else \<not> covered J (x - 1)) 0 Q"
  have "emitted ?st (D @ Q) (out @ ?o)"
    unfolding emitted_def Let_def
  proof (intro conjI allI impI)
    show "is_char_boundary (st_pending ?st) (st_masked_prefix ?st)"
      using run(3) by simp
    show "st_secrets ?st = [] \<or> st_pending ?st \<noteq> []"
    proof (rule disjCI)
      assume "\<not> st_pending ?st \<noteq> []"
      then have "str_len ?P = str_len Q"
        using P(1) by simp
      then have "?h = 0"
        using P(3) \<open>0 < str_len Q\<close> by linarith
      then show "st_secrets ?st = []"
        using ok by (auto simp: strings_ok_def)
    qed
    fix ext
    have whole: "(D @ Q) @ st_pending ?st @ ext = D @ ?P @ ext"
      using P(1) by simp
    let ?C = "covered (secret_occurrences ?S (D @ ?P @ ext))"
    have first: "(str_len D = 0 \<or> \<not> ?C (str_len D - 1)) \<longleftrightarrow> \<not> st_redacting st"
      using e'(3) [of ext] by auto
    have "mask_text ?C (\<lambda>x. x = 0 \<or> \<not> ?C (x - 1)) (str_len D + 0) Q = ?o"
      unfolding mask_shift
    proof (rule mask_cong)
      fix x assume x: "0 \<le> x" "x < 0 + str_len Q"
      show "?C (str_len D + x) = covered J x"
        using near [of x ext] x(2) by simp
      show "(str_len D + x = 0 \<or> \<not> ?C (str_len D + x - 1)) =
          (if x = 0 then \<not> st_redacting st else \<not> covered J (x - 1))"
        using near [of "x - 1" ext] x(2) first by (cases x) simp_all
    qed
    then show "out @ ?o = mask_text (covered (secret_occurrences (st_secrets ?st) ((D @ Q) @ st_pending ?st @ ext)))
        (\<lambda>x. x = 0 \<or> \<not> covered (secret_occurrences (st_secrets ?st) ((D @ Q) @ st_pending ?st @ ext)) (x - 1)) 0 (D @ Q)"
      unfolding whole using e'(2) [of ext] by (simp add: mask_append)
    have "str_len (D @ Q) - 1 = str_len D + (str_len Q - 1)"
      using \<open>0 < str_len Q\<close> by simp
    then show "st_redacting ?st \<longleftrightarrow> D @ Q \<noteq> [] \<and>
        covered (secret_occurrences (st_secrets ?st) ((D @ Q) @ st_pending ?st @ ext)) (str_len (D @ Q) - 1)"
      unfolding whole using run(2) near [of "str_len Q - 1" ext] \<open>0 < str_len Q\<close> \<open>Q \<noteq> []\<close> by simp
    show "covered (secret_occurrences (st_secrets ?st) ((D @ Q) @ st_pending ?st @ ext)) (str_len (D @ Q) + x) \<longleftrightarrow>
        x < st_masked_prefix ?st \<or> covered (secret_occurrences (st_secrets ?st) (st_pending ?st @ ext)) x" for x
    proof -
      have late: "covered (secret_occurrences ?S R) x" if c: "covered {(s, e) \<in> J. str_len Q \<le> s} (str_len Q + x)"
      proof -
        obtain s e where "(s, e) \<in> J" "str_len Q \<le> s" "s \<le> str_len Q + x" "str_len Q + x < e"
          using c by (auto simp: covered_def)
        then obtain p where p: "p \<in> set ?S" "occurs p ?P s" "str_len Q \<le> s" "s \<le> str_len Q + x"
            "str_len Q + x < s + str_len p"
          using \<open>0 < str_len Q\<close> by (auto simp: J_def open_spans_def secret_occurrences_def split: if_splits)
        then have "occurs p R (s - str_len Q)"
          using occurs_suffix [of p Q R s] P(1) by simp
        then show ?thesis
          unfolding secret_occurrences_iff using p by (intro bexI [OF _ p(1)] exI [of _ "s - str_len Q"]) auto
      qed
      have "?C (str_len D + (str_len Q + x)) \<longleftrightarrow> x < mp' \<or> covered (secret_occurrences ?S (R @ ext)) x"
      proof
        assume "?C (str_len D + (str_len Q + x))"
        then have "str_len Q + x < ?mp \<or> covered (secret_occurrences ?S (?P @ ext)) (str_len Q + x)"
          by (simp only: e'(4))
        then have "covered J (str_len Q + x) \<or> covered (secret_occurrences ?S (R @ ext)) x"
        proof
          assume "covered (secret_occurrences ?S (?P @ ext)) (str_len Q + x)"
          then obtain p s where p: "p \<in> set ?S" "occurs p (?P @ ext) s" "s \<le> str_len Q + x"
              "str_len Q + x < s + str_len p"
            by (auto simp: secret_occurrences_iff)
          show ?thesis
          proof (cases "s < str_len Q")
            case True
            have "occurs p ?P s"
              by (rule occurs_prefix [OF p(2) inside [OF p(1) True]])
            then have "covered (secret_occurrences ?S ?P) (str_len Q + x)"
              unfolding secret_occurrences_iff using p(1,3,4) by blast
            then show ?thesis
              by (simp add: J)
          next
            case False
            then have "occurs p (R @ ext) (s - str_len Q)"
              using occurs_suffix [of p Q "R @ ext" s] P(1) p(2) by simp
            then have "covered (secret_occurrences ?S (R @ ext)) x"
              unfolding secret_occurrences_iff using p False
              by (intro bexI [OF _ p(1)] exI [of _ "s - str_len Q"]) auto
            then show ?thesis ..
          qed
        qed (simp add: J)
        then show "x < mp' \<or> covered (secret_occurrences ?S (R @ ext)) x"
          using run(4) [of "str_len Q + x"] late covered_extend by auto
      next
        assume "x < mp' \<or> covered (secret_occurrences ?S (R @ ext)) x"
        then have "covered J (str_len Q + x) \<or> covered (secret_occurrences ?S (?P @ ext)) (str_len Q + x)"
          using run(4) [of "str_len Q + x"] covered_later [of ?S "R @ ext" x Q] P(1) by auto
        then show "?C (str_len D + (str_len Q + x))"
          using covered_extend by (auto simp: e'(4) J)
      qed
      then show ?thesis
        unfolding whole by (simp add: add.assoc)
    qed
  qed
  then show ?thesis
    using P(1,2) by (intro exI [of _ ?o] exI [of _ ?st] conjI run(1) exI [of _ Q]) simp_all
qed

text \<open>The call at the end.\<close>

lemma emitted_flush:
  assumes ok: "strings_ok st" and e: "emitted st D out"
  shows "\<exists>o1. emit True st =
             Some (o1, st\<lparr>st_pending := [], st_masked_prefix := 0, st_redacting := False\<rparr>) \<and>
           out @ o1 = masked (\<le>) (secret_occurrences (st_secrets st) (D @ st_pending st)) (D @ st_pending st)"
proof -
  let ?S = "st_secrets st" and ?P = "st_pending st" and ?mp = "st_masked_prefix st"
  let ?C = "covered (secret_occurrences ?S (D @ ?P))"
  have e': "is_char_boundary ?P ?mp" "D \<noteq> [] \<Longrightarrow> ?S = [] \<or> ?P \<noteq> []"
    "out = mask_text ?C (\<lambda>x. x = 0 \<or> \<not> ?C (x - 1)) 0 D"
    "st_redacting st \<longleftrightarrow> D \<noteq> [] \<and> ?C (str_len D - 1)"
    "\<And>x. ?C (str_len D + x) \<longleftrightarrow> x < ?mp \<or> covered (secret_occurrences ?S ?P) x"
    using e [unfolded emitted_def Let_def]
      e [unfolded emitted_def Let_def, THEN conjunct2, THEN conjunct2, rule_format, of "[]"]
    by simp_all
  have masked: "masked (\<le>) (secret_occurrences ?S Z) Z = mask_text (covered (secret_occurrences ?S Z))
      (\<lambda>x. x = 0 \<or> \<not> covered (secret_occurrences ?S Z) (x - 1)) 0 Z" for Z
    unfolding masked_def by (rule mask_cong) (auto simp: unbroken_le)
  show ?thesis
  proof (cases "?P = []")
    case True
    have "\<not> st_redacting st" "?mp = 0"
      using e'(1,2,4) True by (auto simp: secret_occurrences_iff is_char_boundary_iff)
    then have "emit True st = Some ([], st)"
        "st = st\<lparr>st_pending := [], st_masked_prefix := 0, st_redacting := False\<rparr>"
      using True by (simp_all add: emit_def)
    then show ?thesis
      using e'(3) masked [of D] True by auto
  next
    case False
    define J where "J = open_spans ?S ?mp ?P"
    have J: "covered J x \<longleftrightarrow> x < ?mp \<or> covered (secret_occurrences ?S ?P) x" for x
      by (auto simp: J_def open_spans_def)
    have ne: "\<forall>p \<in> set ?S. p \<noteq> []"
      using ok by (simp add: strings_ok_def)
    have fl: "floor_boundary ?P (str_len ?P) = str_len ?P"
      by (rule floor_boundary_len)
    let ?o = "mask_text (covered J) (\<lambda>x. if x = 0 then \<not> st_redacting st else \<not> covered J (x - 1)) 0 ?P"
    have "emit True st = Some (?o, st\<lparr>st_pending := [], st_masked_prefix := 0, st_redacting := False\<rparr>)"
      using emit_exact [OF ne e'(1), of ?P "[]" True] fl False J_def by auto
    moreover have first: "(str_len D = 0 \<or> \<not> ?C (str_len D - 1)) \<longleftrightarrow> \<not> st_redacting st"
      using e'(4) by auto
    have "mask_text ?C (\<lambda>x. x = 0 \<or> \<not> ?C (x - 1)) (str_len D + 0) ?P = ?o"
      unfolding mask_shift
    proof (rule mask_cong)
      fix x
      show "?C (str_len D + x) = covered J x"
        by (simp add: e'(5) J)
      show "(str_len D + x = 0 \<or> \<not> ?C (str_len D + x - 1)) =
          (if x = 0 then \<not> st_redacting st else \<not> covered J (x - 1))"
        using e'(5) [of "x - 1"] first by (cases x) (simp_all add: J)
    qed
    then have "out @ ?o = masked (\<le>) (secret_occurrences ?S (D @ ?P)) (D @ ?P)"
      unfolding masked using e'(3) by (simp add: mask_append)
    ultimately show ?thesis
      by blast
  qed
qed

end
