(* ===== verification/Json_Stream.thy ===== *)
theory Json_Stream
  imports Redaction_Stream
begin

text \<open>
  The public-message stream of \<open>src/voyage/src/tools/vessel/json_stream.rs\<close>, \<open>Stream\<close>: one character at a
  time, either a plain text or a JSON document, whose value strings are decoded, redacted as they come
  and encoded again. The stack of frames has its top at the head of the list. An operation that fails
  drops the stream (the caller returns the error), so a failure carries no state; \<open>Panicked\<close> stands for a
  slice or an index that would panic. The two calls of \<open>serde_json\<close> are parameters.
\<close>

section \<open>Types\<close>

datatype json_error = Invalid_Json | Panicked

datatype json_frame =
    Object_Key bool | Object_Colon | Object_Value | Object_Comma | Array_Value bool | Array_Comma

text \<open>\<open>to_string\<close> of a string, and for a token whether \<open>from_str\<close> reads it and reads a null, a boolean or a
  number.\<close>

record serde_json =
  sj_encode :: "rstring \<Rightarrow> rstring option"
  sj_scalar :: "rstring \<Rightarrow> bool option"

record json_stream =
  js_json :: bool
  js_strings :: strings
  js_stack :: "json_frame list"
  js_root_done :: bool
  js_in_string :: bool
  js_key :: bool
  js_escape :: rstring
  js_token :: rstring
  js_ready :: rstring
  js_done :: bool

definition stream_new :: "bool \<Rightarrow> redactor \<Rightarrow> (string, json_stream) result" where
  "stream_new json redactor =
     and_then (strings_new redactor) (\<lambda>strings.
     Inr \<lparr>js_json = json, js_strings = strings, js_stack = [], js_root_done = False, js_in_string = False,
          js_key = False, js_escape = [], js_token = [], js_ready = [], js_done = False\<rparr>)"

section \<open>Operations\<close>

definition value_expected :: "json_stream \<Rightarrow> bool" where
  "value_expected st =
     (case js_stack st of
        Object_Value # _ \<Rightarrow> True
      | Array_Value _ # _ \<Rightarrow> True
      | [] \<Rightarrow> \<not> js_root_done st
      | _ \<Rightarrow> False)"

definition finish_value :: "json_stream \<Rightarrow> (json_error, json_stream) result" where
  "finish_value st =
     (case js_stack st of
        Object_Value # r \<Rightarrow> Inr (st\<lparr>js_stack := Object_Comma # r\<rparr>)
      | Array_Value _ # r \<Rightarrow> Inr (st\<lparr>js_stack := Array_Comma # r\<rparr>)
      | [] \<Rightarrow> if \<not> js_root_done st then Inr (st\<lparr>js_root_done := True\<rparr>) else Inl Invalid_Json
      | _ \<Rightarrow> Inl Invalid_Json)"

definition emit_string :: "serde_json \<Rightarrow> bool \<Rightarrow> json_stream \<Rightarrow> (json_error, json_stream) result" where
  "emit_string sj flush st =
     and_then (if js_key st then Inr (st_pending (js_strings st), (js_strings st)\<lparr>st_pending := []\<rparr>)
               else ok_or Panicked (emit flush (js_strings st))) (\<lambda>(val, strings).
     let st = st\<lparr>js_strings := strings\<rparr>
     in if js_json st
        then and_then (ok_or Invalid_Json (sj_encode sj val)) (\<lambda>encoded.
             and_then (ok_or Panicked (str_slice encoded 1 (str_len encoded - 1))) (\<lambda>body.
             Inr (st\<lparr>js_ready := js_ready st @ body\<rparr>)))
        else Inr (st\<lparr>js_ready := js_ready st @ val\<rparr>))"

definition decoded :: "serde_json \<Rightarrow> rchar \<Rightarrow> json_stream \<Rightarrow> (json_error, json_stream) result" where
  "decoded sj c st =
     (let strings = (js_strings st)\<lparr>st_pending := st_pending (js_strings st) @ [c]\<rparr>;
          st = st\<lparr>js_strings := strings\<rparr>
      in if st_hold strings + BLOCK \<le> str_len (st_pending strings) then emit_string sj False st else Inr st)"

text \<open>\<open>u16::from_str_radix(_, 16)\<close> of hexadecimal digits, and \<open>char::from_u32\<close>.\<close>

definition hex_digit :: "rchar \<Rightarrow> nat" where
  "hex_digit c = (if is_ascii_digit c then c - 48 else if 97 \<le> c then c - 87 else c - 55)"

definition hex_value :: "rstring \<Rightarrow> nat" where
  "hex_value s = foldl (\<lambda>n c. 16 * n + hex_digit c) 0 s"

definition parse_hex :: "rstring \<Rightarrow> nat option" where
  "parse_hex s = (if s \<noteq> [] \<and> list_all is_ascii_hexdigit s \<and> hex_value s \<le> u16_max then Some (hex_value s) else None)"

definition char_from_u32 :: "nat \<Rightarrow> rchar option" where
  "char_from_u32 n = (if n < 55296 \<or> 57344 \<le> n \<and> n < 1114112 then Some n else None)"

definition simple_escape :: "rchar \<Rightarrow> rchar option" where
  "simple_escape c = map_of [(34, 34), (92, 92), (47, 47), (98, 8), (102, 12), (110, 10), (114, 13), (116, 9)] c"

definition escaped :: "serde_json \<Rightarrow> rchar \<Rightarrow> json_stream \<Rightarrow> (json_error, json_stream) result" where
  "escaped sj c st0 =
     (let st = st0\<lparr>js_escape := js_escape st0 @ [c]\<rparr>;
          escape = js_escape st;
          len = str_len escape
      in if len = 2 then
           (case simple_escape c of
              Some d \<Rightarrow> decoded sj d (st\<lparr>js_escape := []\<rparr>)
            | None \<Rightarrow> if c = 117 then Inr st else Inl Invalid_Json)
         else if \<not> list_all (\<lambda>c. c < 128) escape \<or> 12 < len then Inl Invalid_Json
         else if len \<le> 6 \<and> \<not> is_ascii_hexdigit c then Inl Invalid_Json
         else if len = 6 then
           and_then (ok_or Panicked (str_slice escape 2 6)) (\<lambda>digits.
           and_then (ok_or Invalid_Json (parse_hex digits)) (\<lambda>n.
           if 55296 \<le> n \<and> n \<le> 56319 then Inr st
           else and_then (ok_or Invalid_Json (char_from_u32 n)) (\<lambda>d.
                decoded sj d (st\<lparr>js_escape := []\<rparr>))))
         else if 6 < len then
           (if len = 7 \<and> c \<noteq> 92 \<or> len = 8 \<and> c \<noteq> 117 \<or> 8 < len \<and> \<not> is_ascii_hexdigit c then Inl Invalid_Json
            else if len = 12 then
              and_then (ok_or Panicked (str_slice escape 2 6)) (\<lambda>digits.
              and_then (ok_or Invalid_Json (parse_hex digits)) (\<lambda>high.
              and_then (ok_or Panicked (str_slice escape 8 12)) (\<lambda>digits.
              and_then (ok_or Invalid_Json (parse_hex digits)) (\<lambda>low.
              if \<not> (56320 \<le> low \<and> low \<le> 57343) then Inl Invalid_Json
              else if high < 55296 then Inl Panicked
              else and_then (ok_or Invalid_Json (char_from_u32 (65536 + (high - 55296) * 1024 + (low - 56320)))) (\<lambda>d.
                   decoded sj d (st\<lparr>js_escape := []\<rparr>))))))
            else Inr st)
         else Inr st)"

definition finish_token :: "serde_json \<Rightarrow> json_stream \<Rightarrow> (json_error, json_stream) result" where
  "finish_token sj st =
     (if js_token st = [] then Inr st
      else and_then (ok_or Invalid_Json (sj_scalar sj (js_token st))) (\<lambda>scalar.
           if \<not> scalar then Inl Invalid_Json
           else and_then (finish_value st) (\<lambda>st.
                Inr (st\<lparr>js_ready := js_ready st @ js_token st, js_token := []\<rparr>))))"

definition close_string :: "json_stream \<Rightarrow> (json_error, json_stream) result" where
  "close_string st =
     (let st = st\<lparr>js_ready := js_ready st @ [34], js_in_string := False\<rparr>
      in if js_key st then
           (case js_stack st of
              Object_Key _ # r \<Rightarrow> Inr (st\<lparr>js_stack := Object_Colon # r\<rparr>)
            | _ \<Rightarrow> Inl Invalid_Json)
         else finish_value st)"

definition string_char :: "serde_json \<Rightarrow> rchar \<Rightarrow> json_stream \<Rightarrow> (json_error, json_stream) result" where
  "string_char sj c st =
     (if js_escape st \<noteq> [] then escaped sj c st
      else if c = 92 then Inr (st\<lparr>js_escape := js_escape st @ [c]\<rparr>)
      else if c = 34 then and_then (emit_string sj True st) close_string
      else if c < 32 then Inl Invalid_Json
      else decoded sj c st)"

definition is_ascii_whitespace :: "rchar \<Rightarrow> bool" where
  "is_ascii_whitespace c \<longleftrightarrow> c = 32 \<or> c = 9 \<or> c = 10 \<or> c = 12 \<or> c = 13"

definition is_delimiter :: "rchar \<Rightarrow> bool" where
  "is_delimiter c \<longleftrightarrow> is_ascii_whitespace c \<or> c = 44 \<or> c = 93 \<or> c = 125"

definition closes :: "rchar \<Rightarrow> json_frame \<Rightarrow> bool" where
  "closes c f = (if c = 125 then f = Object_Key True \<or> f = Object_Comma else f = Array_Value True \<or> f = Array_Comma)"

text \<open>A character outside strings and tokens.\<close>

definition structure_char :: "rchar \<Rightarrow> json_stream \<Rightarrow> (json_error, json_stream) result" where
  "structure_char c st =
     (let ready = (\<lambda>st. st\<lparr>js_ready := js_ready st @ [c]\<rparr>)
      in if c = 34 then
           (let st = st\<lparr>js_key := (case js_stack st of Object_Key _ # _ \<Rightarrow> True | _ \<Rightarrow> False)\<rparr>
            in if \<not> js_key st \<and> \<not> value_expected st then Inl Invalid_Json
               else Inr (ready (st\<lparr>js_in_string := True\<rparr>)))
         else if c = 123 \<or> c = 91 then
           (if \<not> value_expected st \<or> 128 \<le> length (js_stack st) then Inl Invalid_Json
            else Inr (ready (st\<lparr>js_stack := (if c = 123 then Object_Key True else Array_Value True) # js_stack st\<rparr>)))
         else if c = 125 \<or> c = 93 then
           (case js_stack st of
              f # r \<Rightarrow> if \<not> closes c f then Inl Invalid_Json
                       else and_then (finish_value (st\<lparr>js_stack := r\<rparr>)) (\<lambda>st. Inr (ready st))
            | [] \<Rightarrow> Inl Invalid_Json)
         else if c = 58 then
           (case js_stack st of
              Object_Colon # r \<Rightarrow> Inr (ready (st\<lparr>js_stack := Object_Value # r\<rparr>))
            | _ \<Rightarrow> Inl Invalid_Json)
         else if c = 44 then
           (case js_stack st of
              Object_Comma # r \<Rightarrow> Inr (ready (st\<lparr>js_stack := Object_Key False # r\<rparr>))
            | Array_Comma # r \<Rightarrow> Inr (ready (st\<lparr>js_stack := Array_Value False # r\<rparr>))
            | _ \<Rightarrow> Inl Invalid_Json)
         else if c = 32 \<or> c = 10 \<or> c = 13 \<or> c = 9 then Inr (ready st)
         else if c = 45 \<or> is_ascii_digit c \<or> c = 116 \<or> c = 102 \<or> c = 110 then
           (if \<not> value_expected st then Inl Invalid_Json else Inr (st\<lparr>js_token := js_token st @ [c]\<rparr>))
         else Inl Invalid_Json)"

definition stream_push :: "serde_json \<Rightarrow> rchar \<Rightarrow> json_stream \<Rightarrow> (json_error, json_stream) result" where
  "stream_push sj c st =
     (if js_done st then Inl Invalid_Json
      else if \<not> js_json st then decoded sj c st
      else if js_in_string st then string_char sj c st
      else if js_token st \<noteq> [] then
        (if is_delimiter c then and_then (finish_token sj st) (structure_char c)
         else if \<not> c < 128 \<or> 128 \<le> str_len (js_token st) then Inl Invalid_Json
         else Inr (st\<lparr>js_token := js_token st @ [c]\<rparr>))
      else structure_char c st)"

definition stream_finish :: "serde_json \<Rightarrow> json_stream \<Rightarrow> (json_error, json_stream) result" where
  "stream_finish sj st =
     and_then (if js_json st
               then and_then (finish_token sj st) (\<lambda>st.
                    if js_in_string st \<or> js_stack st \<noteq> [] \<or> \<not> js_root_done st then Inl Invalid_Json else Inr st)
               else emit_string sj True st) (\<lambda>st.
     Inr (st\<lparr>js_done := True\<rparr>))"

text \<open>The loop of \<open>Pages::read\<close> and of the tests over a whole source: each character is pushed, and the end
  finishes the stream.\<close>

fun push_all :: "serde_json \<Rightarrow> rstring \<Rightarrow> json_stream \<Rightarrow> (json_error, json_stream) result" where
  "push_all sj [] st = Inr st"
| "push_all sj (c # s) st = and_then (stream_push sj c st) (push_all sj s)"

lemma push_all_append: "push_all sj (a @ b) st = and_then (push_all sj a st) (push_all sj b)"
proof (induction a arbitrary: st)
  case (Cons c a)
  then show ?case
    by (cases "stream_push sj c st") simp_all
qed simp

definition stream_all :: "serde_json \<Rightarrow> rstring \<Rightarrow> json_stream \<Rightarrow> (json_error, json_stream) result" where
  "stream_all sj s st = and_then (push_all sj s st) (stream_finish sj)"

section \<open>Feeding a value string\<close>

text \<open>What the code relies on of \<open>serde_json::to_string\<close>: a string is written between quotes, character
  by character.\<close>

definition writes :: "serde_json \<Rightarrow> (rchar \<Rightarrow> rstring) \<Rightarrow> bool" where
  "writes sj esc \<longleftrightarrow> (\<forall>s. sj_encode sj s = Some (34 # concat (map esc s) @ [34]))"

definition encoding :: "serde_json \<Rightarrow> bool \<Rightarrow> (rchar \<Rightarrow> rstring) \<Rightarrow> bool" where
  "encoding sj json esc \<longleftrightarrow> (if json then writes sj esc else esc = (\<lambda>c. [c]))"

text \<open>What a stream publishes of a value.\<close>

definition redacted :: "rstring list \<Rightarrow> rstring \<Rightarrow> rstring" where
  "redacted secrets text = masked (\<le>) (secret_occurrences secrets text) text"

definition feeding :: "(rchar \<Rightarrow> rstring) \<Rightarrow> json_stream \<Rightarrow> rstring \<Rightarrow> rstring \<Rightarrow> bool" where
  "feeding esc st base T \<longleftrightarrow>
     strings_ok (js_strings st) \<and>
     (\<exists>D out. emitted (js_strings st) D out \<and> T = D @ st_pending (js_strings st) \<and>
        js_ready st = base @ concat (map esc out))"

definition fresh_strings :: "strings \<Rightarrow> bool" where
  "fresh_strings s \<longleftrightarrow> strings_ok s \<and> st_pending s = [] \<and> st_masked_prefix s = 0 \<and> \<not> st_redacting s"

lemma feeding_start: "fresh_strings (js_strings st) \<Longrightarrow> feeding esc st (js_ready st) []"
  unfolding feeding_def fresh_strings_def
  by (intro conjI exI [of _ "[]"]) (simp_all add: emitted_start)

lemma concat_map_single [simp]: "concat (map (\<lambda>c. [c]) s) = s"
  by (induction s) simp_all

lemma slice_body: "str_slice (34 # s @ [34]) 1 (str_len (34 # s @ [34]) - 1) = Some s"
proof -
  have "len_utf8 34 = 1"
    by (simp add: len_utf8_def)
  then show ?thesis
    unfolding str_slice_Some by (intro exI [of _ "[34]"]) simp
qed

lemma emit_string_value:
  assumes "\<not> js_key st" "encoding sj (js_json st) esc" "emit flush (js_strings st) = Some (val, s)"
  shows "emit_string sj flush st =
           Inr (st\<lparr>js_strings := s, js_ready := js_ready st @ concat (map esc val)\<rparr>)"
proof (cases "js_json st")
  case True
  then show ?thesis
    using assms slice_body [of "concat (map esc val)"]
    by (simp add: emit_string_def encoding_def writes_def Let_def)
next
  case False
  then show ?thesis
    using assms by (simp add: emit_string_def encoding_def)
qed

lemma emitted_emit_any:
  assumes "strings_ok s" "emitted s D out"
  shows "\<exists>val s' Q. emit False s = Some (val, s') \<and> st_secrets s' = st_secrets s \<and> st_hold s' = st_hold s \<and>
           st_pending s = Q @ st_pending s' \<and> emitted s' (D @ Q) (out @ val)"
proof (cases "floor_boundary (st_pending s) (str_len (st_pending s) - st_hold s) = 0")
  case True
  then have "emit False s = Some ([], s)"
    by (simp add: emit_def)
  then show ?thesis
    using assms(2) by (intro exI [of _ "[]"] exI [of _ s]) simp
next
  case False
  show ?thesis
    using emitted_emit [OF assms False] by blast
qed

lemma feed_decoded:
  assumes "\<not> js_key st" "encoding sj (js_json st) esc" "feeding esc st base T"
  shows "\<exists>s r. decoded sj c st = Inr (st\<lparr>js_strings := s, js_ready := r\<rparr>) \<and>
           st_secrets s = st_secrets (js_strings st) \<and> st_hold s = st_hold (js_strings st) \<and>
           feeding esc (st\<lparr>js_strings := s, js_ready := r\<rparr>) base (T @ [c])"
proof -
  let ?s = "js_strings st"
  let ?s1 = "?s\<lparr>st_pending := st_pending ?s @ [c]\<rparr>"
  let ?st1 = "st\<lparr>js_strings := ?s1\<rparr>"
  obtain D out where f: "strings_ok ?s" "emitted ?s D out" "T = D @ st_pending ?s"
      "js_ready st = base @ concat (map esc out)"
    using assms(3) by (auto simp: feeding_def)
  have ok: "strings_ok ?s1"
    using f(1) by (simp add: strings_ok_def)
  have e1: "emitted ?s1 D out"
    by (rule emitted_push [OF f(2), of ?s1 c]) simp_all
  show ?thesis
  proof (cases "st_hold ?s1 + BLOCK \<le> str_len (st_pending ?s1)")
    case True
    obtain val s' Q where q: "emit False ?s1 = Some (val, s')" "st_secrets s' = st_secrets ?s1"
        "st_hold s' = st_hold ?s1" "st_pending ?s1 = Q @ st_pending s'" "emitted s' (D @ Q) (out @ val)"
      using emitted_emit_any [OF ok e1] by blast
    have "decoded sj c st = emit_string sj False ?st1"
      unfolding decoded_def Let_def using True by (rule if_P)
    also have "\<dots> = Inr (?st1\<lparr>js_strings := s', js_ready := js_ready ?st1 @ concat (map esc val)\<rparr>)"
      by (rule emit_string_value) (use assms(1,2) q(1) in simp_all)
    finally have d: "decoded sj c st = Inr (st\<lparr>js_strings := s', js_ready := js_ready st @ concat (map esc val)\<rparr>)"
      by simp
    have "feeding esc (st\<lparr>js_strings := s', js_ready := js_ready st @ concat (map esc val)\<rparr>) base (T @ [c])"
      unfolding feeding_def
      using q f ok by (intro conjI exI [of _ "D @ Q"] exI [of _ "out @ val"]) (simp_all add: strings_ok_def)
    then show ?thesis
      using d q(2,3) by (intro exI [of _ s'] exI [of _ "js_ready st @ concat (map esc val)"]) simp
  next
    case False
    then have "decoded sj c st = Inr (st\<lparr>js_strings := ?s1, js_ready := js_ready st\<rparr>)"
      by (simp add: decoded_def Let_def)
    moreover have "feeding esc (st\<lparr>js_strings := ?s1, js_ready := js_ready st\<rparr>) base (T @ [c])"
      unfolding feeding_def using f ok e1 by (intro conjI exI [of _ D] exI [of _ out]) simp_all
    ultimately show ?thesis
      by (intro exI [of _ ?s1] exI [of _ "js_ready st"]) simp
  qed
qed

lemma feed_flush:
  assumes "\<not> js_key st" "encoding sj (js_json st) esc" "feeding esc st base T"
  shows "emit_string sj True st =
           Inr (st\<lparr>js_strings := (js_strings st)\<lparr>st_pending := [], st_masked_prefix := 0, st_redacting := False\<rparr>,
                  js_ready := base @ concat (map esc (redacted (st_secrets (js_strings st)) T))\<rparr>)"
proof -
  let ?s = "js_strings st"
  obtain D out where f: "strings_ok ?s" "emitted ?s D out" "T = D @ st_pending ?s"
      "js_ready st = base @ concat (map esc out)"
    using assms(3) by (auto simp: feeding_def)
  obtain val where "emit True ?s = Some (val, ?s\<lparr>st_pending := [], st_masked_prefix := 0, st_redacting := False\<rparr>)"
      "out @ val = redacted (st_secrets ?s) T"
    using emitted_flush [OF f(1,2)] f(3) by (auto simp: redacted_def)
  then show ?thesis
    using emit_string_value [OF assms(1,2)] f(4) by (simp flip: concat_append map_append)
qed

section \<open>A plain text\<close>

lemma strings_new_ok:
  assumes "redactor_ok r" "strings_new r = Inr s"
  shows "fresh_strings s" "st_secrets s = rd_secrets r"
proof -
  let ?S = "rd_secrets r"
  have s: "st_secrets s = ?S" "st_hold s = (case max_len ?S of None \<Rightarrow> 1 | Some n \<Rightarrow> n) - 1"
    "st_pending s = []" "st_masked_prefix s = 0" "\<not> st_redacting s"
    using assms(2) by (auto simp: strings_new_def Let_def split: if_splits)
  show "st_secrets s = rd_secrets r"
    by (rule s(1))
  have four: "4 \<le> str_len p" if "p \<in> set ?S" for p
    using assms(1) that by (auto simp: redactor_ok_def current_secrets_def)
  have max: "str_len p \<le> st_hold s + 1" if "p \<in> set ?S" for p
  proof -
    have "str_len p \<le> Max (set (map str_len ?S))"
      using that by (intro Max_ge) auto
    moreover have "?S \<noteq> []"
      using that by auto
    ultimately show ?thesis
      using s(2) by (simp add: max_len_def)
  qed
  have "strings_ok s"
    unfolding strings_ok_def s(1)
  proof (intro conjI ballI impI)
    fix p assume "p \<in> set ?S"
    then show "p \<noteq> []" "str_len p \<le> st_hold s + 1"
      using four [of p] max [of p] by auto
  next
    assume "?S \<noteq> []"
    then obtain p where "p \<in> set ?S"
      by (cases ?S) auto
    then show "0 < st_hold s"
      using four [of p] max [of p] by linarith
  qed
  then show "fresh_strings s"
    using s by (simp add: fresh_strings_def)
qed

lemma push_all_text:
  assumes "\<not> js_json st" "\<not> js_key st" "\<not> js_done st" "feeding (\<lambda>c. [c]) st base T"
  shows "\<exists>st'. push_all sj s st = Inr st' \<and> \<not> js_json st' \<and> \<not> js_key st' \<and> \<not> js_done st' \<and>
           st_secrets (js_strings st') = st_secrets (js_strings st) \<and> feeding (\<lambda>c. [c]) st' base (T @ s)"
  using assms
proof (induction s arbitrary: st T)
  case (Cons c s)
  obtain x r where d: "decoded sj c st = Inr (st\<lparr>js_strings := x, js_ready := r\<rparr>)"
      "st_secrets x = st_secrets (js_strings st)"
      "feeding (\<lambda>c. [c]) (st\<lparr>js_strings := x, js_ready := r\<rparr>) base (T @ [c])"
    using feed_decoded [of st sj "\<lambda>c. [c]" base T c] Cons.prems by (auto simp: encoding_def)
  obtain st' where "push_all sj s (st\<lparr>js_strings := x, js_ready := r\<rparr>) = Inr st'" "\<not> js_json st'" "\<not> js_key st'"
      "\<not> js_done st'" "st_secrets (js_strings st') = st_secrets x" "feeding (\<lambda>c. [c]) st' base ((T @ [c]) @ s)"
    using Cons.IH [OF _ _ _ d(3)] Cons.prems(1-3) by auto
  moreover have "stream_push sj c st = decoded sj c st"
    using Cons.prems by (simp add: stream_push_def)
  ultimately show ?case
    using d(1,2) by (intro exI [of _ st']) simp
qed simp

text \<open>However long the text and wherever the blocks fall, what is published is the text with every occurrence
  of every secret masked.\<close>

theorem text_stream_exact:
  assumes "redactor_ok r" "stream_new False r = Inr st"
  shows "\<exists>st'. stream_all sj s st = Inr st' \<and> js_done st' \<and> js_ready st' = redacted (rd_secrets r) s"
proof -
  obtain x where x: "strings_new r = Inr x" "js_strings st = x" "\<not> js_json st" "\<not> js_key st" "\<not> js_done st"
      "js_ready st = []"
    using assms(2) by (cases "strings_new r") (auto simp: stream_new_def)
  note n = strings_new_ok [OF assms(1) x(1)]
  have "feeding (\<lambda>c. [c]) st [] []"
    using feeding_start [of st] n(1) x by simp
  then obtain st' where p: "push_all sj s st = Inr st'" "\<not> js_json st'" "\<not> js_key st'"
      "st_secrets (js_strings st') = rd_secrets r" "feeding (\<lambda>c. [c]) st' [] s"
    using push_all_text [of st "[]" "[]" sj s] x n(2) by auto
  have "emit_string sj True st' =
      Inr (st'\<lparr>js_strings := (js_strings st')\<lparr>st_pending := [], st_masked_prefix := 0, st_redacting := False\<rparr>,
               js_ready := [] @ concat (map (\<lambda>c. [c]) (redacted (st_secrets (js_strings st')) s))\<rparr>)"
    by (rule feed_flush [OF p(3) _ p(5)]) (simp add: encoding_def p(2))
  then show ?thesis
    using p by (simp add: stream_all_def stream_finish_def)
qed

end
