(* ===== verification/Json_Document.thy ===== *)
theory Json_Document
  imports Json_Stream
begin

text \<open>
  What the stream makes of a whole JSON document. The documents are given by a grammar of their own, which
  relates a source to what is to be published: every value string is replaced by the encoding of its masked
  content, keys keep their content, and the structure, the whitespace and the scalars stay as they are. The
  theorem is that the stream of \<open>Json_Stream\<close> computes this relation, a character at a time.
\<close>

section \<open>The grammar\<close>

text \<open>The characters between the quotes, and the string they stand for.\<close>

definition hex4 :: "rstring \<Rightarrow> bool" where
  "hex4 h \<longleftrightarrow> length h = 4 \<and> list_all is_ascii_hexdigit h"

inductive json_body :: "rstring \<Rightarrow> rstring \<Rightarrow> bool" where
  Body_End: "json_body [] []"
| Body_Plain: "32 \<le> c \<Longrightarrow> c \<noteq> 34 \<Longrightarrow> c \<noteq> 92 \<Longrightarrow> json_body r t \<Longrightarrow> json_body (c # r) (c # t)"
| Body_Simple: "simple_escape c = Some d \<Longrightarrow> json_body r t \<Longrightarrow> json_body (92 # c # r) (d # t)"
| Body_Unicode:
    "hex4 h \<Longrightarrow> hex_value h < 55296 \<or> 57344 \<le> hex_value h \<Longrightarrow> json_body r t \<Longrightarrow>
       json_body (92 # 117 # h @ r) (hex_value h # t)"
| Body_Pair:
    "hex4 h \<Longrightarrow> 55296 \<le> hex_value h \<Longrightarrow> hex_value h \<le> 56319 \<Longrightarrow>
     hex4 l \<Longrightarrow> 56320 \<le> hex_value l \<Longrightarrow> hex_value l \<le> 57343 \<Longrightarrow> json_body r t \<Longrightarrow>
       json_body (92 # 117 # h @ 92 # 117 # l @ r)
         ((65536 + (hex_value h - 55296) * 1024 + (hex_value l - 56320)) # t)"

definition spaces :: "rstring \<Rightarrow> bool" where
  "spaces w \<longleftrightarrow> list_all (\<lambda>c. c = 32 \<or> c = 10 \<or> c = 13 \<or> c = 9) w"

definition scalar_token :: "serde_json \<Rightarrow> rstring \<Rightarrow> bool" where
  "scalar_token sj t \<longleftrightarrow>
     t \<noteq> [] \<and> (hd t = 45 \<or> is_ascii_digit (hd t) \<or> hd t = 116 \<or> hd t = 102 \<or> hd t = 110) \<and>
     list_all (\<lambda>c. c < 128 \<and> \<not> is_delimiter c) t \<and> length t \<le> 128 \<and> sj_scalar sj t = Some True"

text \<open>\<open>json_val sj esc S d source out\<close>: a value nested at most \<open>d\<close> deep, and what is published of it.\<close>

inductive json_val :: "serde_json \<Rightarrow> (rchar \<Rightarrow> rstring) \<Rightarrow> rstring list \<Rightarrow> nat \<Rightarrow> rstring \<Rightarrow> rstring \<Rightarrow> bool"
  and json_items :: "serde_json \<Rightarrow> (rchar \<Rightarrow> rstring) \<Rightarrow> rstring list \<Rightarrow> nat \<Rightarrow> rstring \<Rightarrow> rstring \<Rightarrow> bool"
  and json_members :: "serde_json \<Rightarrow> (rchar \<Rightarrow> rstring) \<Rightarrow> rstring list \<Rightarrow> nat \<Rightarrow> rstring \<Rightarrow> rstring \<Rightarrow> bool"
  for sj :: serde_json and esc :: "rchar \<Rightarrow> rstring" and S :: "rstring list" where
  Val_String:
    "json_body r t \<Longrightarrow>
       json_val sj esc S d (34 # r @ [34]) (34 # concat (map esc (redacted S t)) @ [34])"
| Val_Scalar: "scalar_token sj t \<Longrightarrow> json_val sj esc S d t t"
| Val_Empty_Object: "spaces w \<Longrightarrow> json_val sj esc S (Suc d) (123 # w @ [125]) (123 # w @ [125])"
| Val_Object: "json_members sj esc S d r p \<Longrightarrow> json_val sj esc S (Suc d) (123 # r @ [125]) (123 # p @ [125])"
| Val_Empty_Array: "spaces w \<Longrightarrow> json_val sj esc S (Suc d) (91 # w @ [93]) (91 # w @ [93])"
| Val_Array: "json_items sj esc S d r p \<Longrightarrow> json_val sj esc S (Suc d) (91 # r @ [93]) (91 # p @ [93])"
| Items_One: "spaces v \<Longrightarrow> json_val sj esc S d x p \<Longrightarrow> spaces w \<Longrightarrow> json_items sj esc S d (v @ x @ w) (v @ p @ w)"
| Items_More:
    "spaces v \<Longrightarrow> json_val sj esc S d x p \<Longrightarrow> spaces w \<Longrightarrow> json_items sj esc S d r q \<Longrightarrow>
       json_items sj esc S d (v @ x @ w @ 44 # r) (v @ p @ w @ 44 # q)"
| Members_One:
    "spaces v \<Longrightarrow> json_body k t \<Longrightarrow> spaces w \<Longrightarrow> spaces v' \<Longrightarrow> json_val sj esc S d x p \<Longrightarrow> spaces w' \<Longrightarrow>
       json_members sj esc S d (v @ 34 # k @ 34 # w @ 58 # v' @ x @ w')
         (v @ 34 # concat (map esc t) @ 34 # w @ 58 # v' @ p @ w')"
| Members_More:
    "spaces v \<Longrightarrow> json_body k t \<Longrightarrow> spaces w \<Longrightarrow> spaces v' \<Longrightarrow> json_val sj esc S d x p \<Longrightarrow> spaces w' \<Longrightarrow>
     json_members sj esc S d r q \<Longrightarrow>
       json_members sj esc S d (v @ 34 # k @ 34 # w @ 58 # v' @ x @ w' @ 44 # r)
         (v @ 34 # concat (map esc t) @ 34 # w @ 58 # v' @ p @ w' @ 44 # q)"

section \<open>Strings\<close>

definition within :: "json_stream \<Rightarrow> bool" where
  "within st \<longleftrightarrow> js_json st \<and> js_in_string st \<and> js_escape st = [] \<and> \<not> js_done st"

lemma push_within:
  "js_json st \<Longrightarrow> js_in_string st \<Longrightarrow> \<not> js_done st \<Longrightarrow> stream_push sj c st = string_char sj c st"
  by (simp add: stream_push_def)

lemma hex_ascii: "is_ascii_hexdigit c \<Longrightarrow> c < 128"
  by (auto simp: is_ascii_hexdigit_def is_ascii_digit_def)

lemma hex_digit_le: "is_ascii_hexdigit c \<Longrightarrow> hex_digit c \<le> 15"
  by (auto simp: is_ascii_hexdigit_def is_ascii_digit_def hex_digit_def)

lemma parse_hex4:
  assumes "hex4 h"
  shows "parse_hex h = Some (hex_value h)"
proof -
  obtain a b c d where h: "h = [a, b, c, d]"
    using assms by (auto simp: hex4_def numeral_eq_Suc length_Suc_conv)
  have "hex_digit a \<le> 15" "hex_digit b \<le> 15" "hex_digit c \<le> 15" "hex_digit d \<le> 15"
    using assms h by (auto simp: hex4_def intro: hex_digit_le)
  then have "hex_value h \<le> 65535"
    by (simp add: h hex_value_def)
  then show ?thesis
    using assms h by (simp add: parse_hex_def hex4_def)
qed

section \<open>Escapes\<close>

text \<open>An escape that is not complete is kept.\<close>

lemma escaped_keep:
  assumes "js_escape st = e" "list_all (\<lambda>c. c < 128) e" "is_ascii_hexdigit c"
    "length e \<in> {2, 3, 4, 8, 9, 10}"
  shows "escaped sj c st = Inr (st\<lparr>js_escape := e @ [c]\<rparr>)"
proof -
  have "list_all (\<lambda>c. c < 128) (e @ [c])"
    using assms(2,3) hex_ascii by simp
  then have "str_len (e @ [c]) = length e + 1"
    using str_len_ascii by fastforce
  then show ?thesis
    using assms hex_ascii [OF assms(3)] by (auto simp: escaped_def Let_def)
qed

lemma escaped_u: "js_escape st = [92] \<Longrightarrow> escaped sj 117 st = Inr (st\<lparr>js_escape := [92, 117]\<rparr>)"
  by (simp add: escaped_def Let_def simple_escape_def str_len_def len_utf8_def)

lemma escaped_simple:
  "js_escape st = [92] \<Longrightarrow> simple_escape c = Some d \<Longrightarrow> escaped sj c st = decoded sj d (st\<lparr>js_escape := []\<rparr>)"
  by (auto simp: escaped_def Let_def simple_escape_def str_len_def len_utf8_def split: if_splits)

lemma hex4_ascii: "hex4 h \<Longrightarrow> list_all (\<lambda>c. c < 128) h \<and> length h = 4"
  using hex_ascii by (auto simp: hex4_def list_all_iff)

text \<open>The fourth digit.\<close>

lemma escaped_fourth:
  assumes "js_escape st = [92, 117, a, b, c]" "hex4 [a, b, c, d]"
  shows "escaped sj d st =
           (if 55296 \<le> hex_value [a, b, c, d] \<and> hex_value [a, b, c, d] \<le> 56319
            then Inr (st\<lparr>js_escape := [92, 117, a, b, c, d]\<rparr>)
            else and_then (ok_or Invalid_Json (char_from_u32 (hex_value [a, b, c, d]))) (\<lambda>x.
                 decoded sj x (st\<lparr>js_escape := []\<rparr>)))"
proof -
  have a: "list_all (\<lambda>c. c < 128) [92, 117, a, b, c, d]"
    using hex4_ascii [OF assms(2)] by simp
  have len: "str_len [92, 117, a, b, c, d] = 6"
    using str_len_ascii [OF a] by simp
  have s: "str_slice [92, 117, a, b, c, d] 2 6 = Some [a, b, c, d]"
    using str_slice_ascii [of "[92, 117]" "[a, b, c, d]" "[]" 2 6] a by simp
  have d: "is_ascii_hexdigit d"
    using assms(2) by (simp add: hex4_def)
  show ?thesis
    unfolding escaped_def Let_def using assms(1) len a s d parse_hex4 [OF assms(2)]
    by (simp del: str_len_simps)
qed

lemma escaped_second:
  assumes "js_escape st = 92 # 117 # h" "hex4 h"
  shows "escaped sj 92 st = Inr (st\<lparr>js_escape := 92 # 117 # h @ [92]\<rparr>)"
    "js_escape st' = 92 # 117 # h @ [92] \<Longrightarrow> escaped sj 117 st' = Inr (st'\<lparr>js_escape := 92 # 117 # h @ [92, 117]\<rparr>)"
proof -
  have a: "list_all (\<lambda>c. c < 128) h" "length h = 4"
    using hex4_ascii [OF assms(2)] by simp_all
  have "str_len (92 # 117 # h @ [92]) = 7" "str_len (92 # 117 # h @ [92, 117]) = 8"
    using str_len_ascii [of "92 # 117 # h @ [92]"] str_len_ascii [of "92 # 117 # h @ [92, 117]"] a by simp_all
  then show "escaped sj 92 st = Inr (st\<lparr>js_escape := 92 # 117 # h @ [92]\<rparr>)"
    "js_escape st' = 92 # 117 # h @ [92] \<Longrightarrow> escaped sj 117 st' = Inr (st'\<lparr>js_escape := 92 # 117 # h @ [92, 117]\<rparr>)"
    using assms(1) a by (simp_all add: escaped_def Let_def del: str_len_simps)
qed

lemma escaped_last:
  assumes "js_escape st = 92 # 117 # h @ [92, 117, a, b, c]" "hex4 h" "hex4 [a, b, c, d]"
    "55296 \<le> hex_value h" "hex_value h \<le> 56319" "56320 \<le> hex_value [a, b, c, d]" "hex_value [a, b, c, d] \<le> 57343"
  shows "escaped sj d st =
           decoded sj (65536 + (hex_value h - 55296) * 1024 + (hex_value [a, b, c, d] - 56320)) (st\<lparr>js_escape := []\<rparr>)"
proof -
  let ?e = "92 # 117 # h @ [92, 117, a, b, c, d]"
  have h: "list_all (\<lambda>c. c < 128) h" "length h = 4"
    using hex4_ascii [OF assms(2)] by simp_all
  have a: "list_all (\<lambda>c. c < 128) ?e"
    using h hex4_ascii [OF assms(3)] by simp
  have len: "str_len ?e = 12"
    using str_len_ascii [OF a] h by simp
  have s: "str_slice ?e 2 6 = Some h" "str_slice ?e 8 12 = Some [a, b, c, d]"
    using str_slice_ascii [of "[92, 117]" h "[92, 117, a, b, c, d]" 2 6]
      str_slice_ascii [of "92 # 117 # h @ [92, 117]" "[a, b, c, d]" "[]" 8 12] a h by simp_all
  have d: "is_ascii_hexdigit d"
    using assms(3) by (simp add: hex4_def)
  let ?n = "65536 + (hex_value h - 55296) * 1024 + (hex_value [a, b, c, d] - 56320)"
  have n: "char_from_u32 ?n = Some ?n"
    using assms(4-7) by (simp add: char_from_u32_def)
  show ?thesis
    unfolding escaped_def Let_def
    using assms(1,4,6,7) len a s d parse_hex4 [OF assms(2)] parse_hex4 [OF assms(3)] n
    by (simp del: str_len_simps)
qed

lemma push_all_nil [simp]: "and_then r (push_all sj []) = r"
  by (cases r) simp_all

lemma push_string:
  "js_json st \<Longrightarrow> js_in_string st \<Longrightarrow> \<not> js_done st \<Longrightarrow> js_escape st \<noteq> [] \<Longrightarrow>
     push_all sj (c # s) st = and_then (escaped sj c st) (push_all sj s)"
  by (simp add: push_within string_char_def)

lemma push_backslash:
  "within st \<Longrightarrow> push_all sj (92 # s) st = push_all sj s (st\<lparr>js_escape := [92]\<rparr>)"
  by (simp add: within_def push_within string_char_def)

lemma no_escape: "within st \<Longrightarrow> st\<lparr>js_escape := []\<rparr> = st"
  by (cases st) (simp add: within_def)

lemma within_update [simp]: "within (st\<lparr>js_strings := s, js_ready := r\<rparr>) = within st"
  by (simp add: within_def)

lemma push_digits:
  assumes "within st" "list_all (\<lambda>c. c < 128) e" "list_all is_ascii_hexdigit h" "length e \<in> {2, 8}" "length h \<le> 3"
  shows "push_all sj (h @ s) (st\<lparr>js_escape := e\<rparr>) = push_all sj s (st\<lparr>js_escape := e @ h\<rparr>)"
proof -
  have "push_all sj (h @ s) (st\<lparr>js_escape := e\<rparr>) = push_all sj s (st\<lparr>js_escape := e @ h\<rparr>)"
    if "n \<in> {2, 8}" "n \<le> length e" "length e + length h \<le> n + 3" "list_all (\<lambda>c. c < 128) e" "list_all is_ascii_hexdigit h" for n
    using that
  proof (induction h arbitrary: e)
    case (Cons c h)
    have "length e \<in> {2, 3, 4, 8, 9, 10}"
      using Cons.prems(1-3) by (simp, linarith)
    then have "escaped sj c (st\<lparr>js_escape := e\<rparr>) = Inr (st\<lparr>js_escape := e @ [c]\<rparr>)"
      using escaped_keep [of "st\<lparr>js_escape := e\<rparr>" e c sj] Cons.prems by simp
    then have "push_all sj ((c # h) @ s) (st\<lparr>js_escape := e\<rparr>) = push_all sj (h @ s) (st\<lparr>js_escape := e @ [c]\<rparr>)"
      using assms(1) Cons.prems by (auto simp: within_def push_within string_char_def)
    also have "\<dots> = push_all sj s (st\<lparr>js_escape := (e @ [c]) @ h\<rparr>)"
      by (rule Cons.IH) (use Cons.prems hex_ascii in auto)
    finally show ?case by simp
  qed simp
  then show ?thesis
    using assms by auto
qed

lemma push_unicode:
  assumes "within st" "hex4 h" "hex_value h < 55296 \<or> 57344 \<le> hex_value h"
  shows "push_all sj (92 # 117 # h) st = decoded sj (hex_value h) st"
proof -
  obtain a b c d where h: "h = [a, b, c, d]"
    using assms(2) by (auto simp: hex4_def numeral_eq_Suc length_Suc_conv)
  have "hex_value h \<le> 65535"
    using parse_hex4 [OF assms(2)] by (simp add: parse_hex_def split: if_splits)
  then have "char_from_u32 (hex_value h) = Some (hex_value h)"
    using assms(3) by (auto simp: char_from_u32_def)
  moreover have "push_all sj (92 # 117 # [a, b, c] @ [d]) st = push_all sj [d] (st\<lparr>js_escape := [92, 117, a, b, c]\<rparr>)"
  proof -
    have "push_all sj (92 # 117 # [a, b, c] @ [d]) st = push_all sj ([a, b, c] @ [d]) (st\<lparr>js_escape := [92, 117]\<rparr>)"
      using assms(1) by (simp add: push_backslash push_within string_char_def escaped_u within_def del: append.simps)
    also have "\<dots> = push_all sj [d] (st\<lparr>js_escape := [92, 117] @ [a, b, c]\<rparr>)"
      by (rule push_digits) (use assms(1,2) h in \<open>auto simp: hex4_def\<close>)
    finally show ?thesis by simp
  qed
  ultimately show ?thesis
    using escaped_fourth [of "st\<lparr>js_escape := [92, 117, a, b, c]\<rparr>" a b c d sj] assms h
    by (auto simp: within_def push_within string_char_def no_escape [OF assms(1)] split: sum.splits)
qed

lemma push_pair:
  assumes "within st" "hex4 h" "55296 \<le> hex_value h" "hex_value h \<le> 56319"
    "hex4 l" "56320 \<le> hex_value l" "hex_value l \<le> 57343"
  shows "push_all sj (92 # 117 # h @ 92 # 117 # l) st =
           decoded sj (65536 + (hex_value h - 55296) * 1024 + (hex_value l - 56320)) st"
proof -
  obtain a b c d where h: "h = [a, b, c, d]"
    using assms(2) by (auto simp: hex4_def numeral_eq_Suc length_Suc_conv)
  obtain a' b' c' d' where l: "l = [a', b', c', d']"
    using assms(5) by (auto simp: hex4_def numeral_eq_Suc length_Suc_conv)
  let ?e = "\<lambda>e. st\<lparr>js_escape := e\<rparr>"
  have w: "js_json st" "js_in_string st" "\<not> js_done st"
    using assms(1) by (simp_all add: within_def)
  have step: "push_all sj (c # s) (?e e) = and_then (escaped sj c (?e e)) (push_all sj s)" if "e \<noteq> []" for c s e
    using w that by (intro push_string) simp_all
  have "push_all sj (92 # 117 # h @ 92 # 117 # l) st = push_all sj (117 # [a, b, c] @ d # 92 # 117 # l) (?e [92])"
    using assms(1) h by (simp add: push_backslash del: push_all.simps(2))
  also have "\<dots> = push_all sj ([a, b, c] @ d # 92 # 117 # l) (?e [92, 117])"
    by (subst step) (simp_all add: escaped_u del: push_all.simps(2))
  also have "\<dots> = push_all sj (d # 92 # 117 # l) (?e ([92, 117] @ [a, b, c]))"
    by (rule push_digits) (use assms(1,2) h in \<open>auto simp: hex4_def\<close>)
  also have "\<dots> = push_all sj (92 # 117 # l) (?e (92 # 117 # h))"
    using escaped_fourth [of "?e [92, 117, a, b, c]" a b c d sj] assms(2-4) h
    by (subst step) (simp_all del: push_all.simps(2))
  also have "\<dots> = push_all sj ([a', b', c'] @ [d']) (?e (92 # 117 # h @ [92, 117]))"
    using escaped_second(1) [of "?e (92 # 117 # h)" h sj]
      escaped_second(2) [of "?e (92 # 117 # h)" h "?e (92 # 117 # h @ [92])" sj]
      assms(2) l
    by (simp add: step del: push_all.simps(2))
  also have "\<dots> = push_all sj [d'] (?e ((92 # 117 # h @ [92, 117]) @ [a', b', c']))"
    by (rule push_digits) (use assms(1,2,5) l hex4_ascii [OF assms(2)] in \<open>auto simp: hex4_def\<close>)
  also have "\<dots> = decoded sj (65536 + (hex_value h - 55296) * 1024 + (hex_value l - 56320)) st"
    using escaped_last [of "?e (92 # 117 # h @ [92, 117, a', b', c'])" h a' b' c' d' sj] assms l
    by (simp add: step no_escape [OF assms(1)] del: push_all.simps(2))
  finally show ?thesis .
qed

text \<open>A string under way, value or key: what is pushed is decoded and taken.\<close>

locale string_sink =
  fixes sj :: serde_json and takes :: "json_stream \<Rightarrow> rstring \<Rightarrow> bool"
  assumes takes_decoded:
    "takes st T \<Longrightarrow> \<exists>s r. decoded sj c st = Inr (st\<lparr>js_strings := s, js_ready := r\<rparr>) \<and>
       takes (st\<lparr>js_strings := s, js_ready := r\<rparr>) (T @ [c])"
begin

text \<open>The body of a string is decoded and taken as it is read.\<close>

definition reads :: "json_stream \<Rightarrow> rstring \<Rightarrow> rstring \<Rightarrow> rstring \<Rightarrow> bool" where
  "reads st T raw t \<longleftrightarrow>
     (\<exists>s r. push_all sj raw st = Inr (st\<lparr>js_strings := s, js_ready := r\<rparr>) \<and>
            takes (st\<lparr>js_strings := s, js_ready := r\<rparr>) (T @ t))"

lemma reads_cons:
  assumes "takes st T" "push_all sj raw st = decoded sj c st"
    "\<And>s r. takes (st\<lparr>js_strings := s, js_ready := r\<rparr>) (T @ [c]) \<Longrightarrow>
        reads (st\<lparr>js_strings := s, js_ready := r\<rparr>) (T @ [c]) raw' t"
  shows "reads st T (raw @ raw') (c # t)"
proof -
  obtain s r where d: "decoded sj c st = Inr (st\<lparr>js_strings := s, js_ready := r\<rparr>)"
      "takes (st\<lparr>js_strings := s, js_ready := r\<rparr>) (T @ [c])"
    using takes_decoded [OF assms(1)] by blast
  obtain s' r' where "push_all sj raw' (st\<lparr>js_strings := s, js_ready := r\<rparr>) = Inr (st\<lparr>js_strings := s', js_ready := r'\<rparr>)"
      "takes (st\<lparr>js_strings := s', js_ready := r'\<rparr>) ((T @ [c]) @ t)"
    using assms(3) [OF d(2)] by (auto simp: reads_def)
  then show ?thesis
    unfolding reads_def using assms(2) d(1)
    by (intro exI [of _ s'] exI [of _ r']) (simp add: push_all_append)
qed

lemma body_read:
  assumes "json_body raw t" "within st" "takes st T"
  shows "reads st T raw t"
  using assms
proof (induction raw t arbitrary: st T rule: json_body.induct)
  case Body_End
  have "st = st\<lparr>js_strings := js_strings st, js_ready := js_ready st\<rparr>"
    by simp
  then show ?case
    unfolding reads_def using Body_End.prems(2)
    by (intro exI [of _ "js_strings st"] exI [of _ "js_ready st"]) simp
next
  case (Body_Plain c r t)
  have "push_all sj [c] st = decoded sj c st"
    using Body_Plain by (auto simp: push_within string_char_def within_def split: sum.splits)
  then show ?case
    using reads_cons [of st T "[c]" c r t] Body_Plain by simp
next
  case (Body_Simple c d r t)
  have "push_all sj [92, c] st = decoded sj d st"
    using Body_Simple escaped_simple [of "st\<lparr>js_escape := [92]\<rparr>" c d sj] no_escape [of st]
    by (auto simp: push_within string_char_def within_def split: sum.splits)
  then show ?case
    using reads_cons [of st T "[92, c]" d r t] Body_Simple by simp
next
  case (Body_Unicode h r t)
  then show ?case
    using reads_cons [of st T "92 # 117 # h" "hex_value h" r t] push_unicode by simp
next
  case (Body_Pair h l r t)
  then show ?case
    using reads_cons [of st T "92 # 117 # h @ 92 # 117 # l" _ r t] push_pair by simp
qed

end

section \<open>Values and keys\<close>

definition value_takes ::
  "serde_json \<Rightarrow> (rchar \<Rightarrow> rstring) \<Rightarrow> rstring list \<Rightarrow> rstring \<Rightarrow> json_stream \<Rightarrow> rstring \<Rightarrow> bool" where
  "value_takes sj esc S base st T \<longleftrightarrow>
     \<not> js_key st \<and> encoding sj (js_json st) esc \<and> feeding esc st base T \<and> st_secrets (js_strings st) = S"

definition key_takes ::
  "serde_json \<Rightarrow> (rchar \<Rightarrow> rstring) \<Rightarrow> rstring list \<Rightarrow> rstring \<Rightarrow> json_stream \<Rightarrow> rstring \<Rightarrow> bool" where
  "key_takes sj esc S base st T \<longleftrightarrow>
     js_key st \<and> js_json st \<and> writes sj esc \<and> fresh_strings ((js_strings st)\<lparr>st_pending := []\<rparr>) \<and>
     st_secrets (js_strings st) = S \<and>
     (\<exists>out. T = out @ st_pending (js_strings st) \<and> js_ready st = base @ concat (map esc out))"

interpretation value_string: string_sink sj "value_takes sj esc S base"
proof
  fix st T c
  assume v: "value_takes sj esc S base st T"
  then obtain s r where "decoded sj c st = Inr (st\<lparr>js_strings := s, js_ready := r\<rparr>)"
      "st_secrets s = st_secrets (js_strings st)" "feeding esc (st\<lparr>js_strings := s, js_ready := r\<rparr>) base (T @ [c])"
    using feed_decoded [of st sj esc base T c] by (auto simp: value_takes_def)
  then show "\<exists>s r. decoded sj c st = Inr (st\<lparr>js_strings := s, js_ready := r\<rparr>) \<and>
      value_takes sj esc S base (st\<lparr>js_strings := s, js_ready := r\<rparr>) (T @ [c])"
    using v by (intro exI [of _ s] exI [of _ r]) (simp add: value_takes_def)
qed

lemma key_flush:
  assumes "key_takes sj esc S base st T"
  shows "emit_string sj flush st =
           Inr (st\<lparr>js_strings := (js_strings st)\<lparr>st_pending := []\<rparr>, js_ready := base @ concat (map esc T)\<rparr>)"
  using assms slice_body [of "concat (map esc (st_pending (js_strings st)))"]
  by (auto simp: key_takes_def emit_string_def writes_def Let_def)

interpretation key_string: string_sink sj "key_takes sj esc S base"
proof
  fix st T c
  assume k: "key_takes sj esc S base st T"
  let ?s = "(js_strings st)\<lparr>st_pending := st_pending (js_strings st) @ [c]\<rparr>"
  have k1: "key_takes sj esc S base (st\<lparr>js_strings := ?s\<rparr>) (T @ [c])"
    using k by (auto simp: key_takes_def)
  show "\<exists>s r. decoded sj c st = Inr (st\<lparr>js_strings := s, js_ready := r\<rparr>) \<and>
      key_takes sj esc S base (st\<lparr>js_strings := s, js_ready := r\<rparr>) (T @ [c])"
  proof (cases "st_hold ?s + BLOCK \<le> str_len (st_pending ?s)")
    case True
    have "decoded sj c st = emit_string sj False (st\<lparr>js_strings := ?s\<rparr>)"
      unfolding decoded_def Let_def using True by (rule if_P)
    then have d: "decoded sj c st =
        Inr (st\<lparr>js_strings := ?s\<lparr>st_pending := []\<rparr>, js_ready := base @ concat (map esc (T @ [c]))\<rparr>)"
      using key_flush [OF k1] by simp
    show ?thesis
      using k d by (intro exI [of _ "?s\<lparr>st_pending := []\<rparr>"] exI [of _ "base @ concat (map esc (T @ [c]))"])
        (simp add: key_takes_def)
  next
    case False
    have "decoded sj c st = Inr (st\<lparr>js_strings := ?s, js_ready := js_ready st\<rparr>)"
      using False by (simp add: decoded_def Let_def)
    then show ?thesis
      using k1 by (intro exI [of _ ?s] exI [of _ "js_ready st"]) simp
  qed
qed

section \<open>Between values\<close>

definition idle ::
  "rstring list \<Rightarrow> json_stream \<Rightarrow> json_frame list \<Rightarrow> bool \<Rightarrow> rstring \<Rightarrow> bool" where
  "idle S st stk rd ready \<longleftrightarrow>
     js_json st \<and> \<not> js_in_string st \<and> js_escape st = [] \<and> js_token st = [] \<and> \<not> js_done st \<and>
     fresh_strings (js_strings st) \<and> st_secrets (js_strings st) = S \<and>
     js_stack st = stk \<and> js_root_done st = rd \<and> js_ready st = ready"

fun value_after :: "json_frame list \<Rightarrow> bool \<Rightarrow> (json_frame list \<times> bool) option" where
  "value_after (Object_Value # r) rd = Some (Object_Comma # r, rd)"
| "value_after (Array_Value b # r) rd = Some (Array_Comma # r, rd)"
| "value_after [] rd = (if rd then None else Some ([], True))"
| "value_after _ rd = None"

lemma finish_value_after:
  "value_after (js_stack st) (js_root_done st) = Some (stk, rd) \<Longrightarrow>
     finish_value st = Inr (st\<lparr>js_stack := stk, js_root_done := rd\<rparr>)"
  by (cases "(js_stack st, js_root_done st)" rule: value_after.cases) (auto simp: finish_value_def split: if_splits)

lemma value_expected_after:
  "value_after (js_stack st) (js_root_done st) = Some p \<Longrightarrow> value_expected st"
  by (cases "(js_stack st, js_root_done st)" rule: value_after.cases) (auto simp: value_expected_def split: if_splits)

lemma push_idle: "idle S st stk rd ready \<Longrightarrow> stream_push sj c st = structure_char c st"
  by (simp add: idle_def stream_push_def)

lemma structure_space:
  "c = 32 \<or> c = 10 \<or> c = 13 \<or> c = 9 \<Longrightarrow> structure_char c st = Inr (st\<lparr>js_ready := js_ready st @ [c]\<rparr>)"
  by (elim disjE; hypsubst) (simp_all add: structure_char_def)

lemma idle_ready: "idle S st stk rd ready \<Longrightarrow> idle S (st\<lparr>js_ready := js_ready st @ r\<rparr>) stk rd (ready @ r)"
  by (simp add: idle_def)

lemma idle_spaces:
  "idle S st stk rd ready \<Longrightarrow> spaces w \<Longrightarrow> \<exists>st'. push_all sj w st = Inr st' \<and> idle S st' stk rd (ready @ w)"
proof (induction w arbitrary: st ready)
  case (Cons c w)
  let ?st = "st\<lparr>js_ready := js_ready st @ [c]\<rparr>"
  have "stream_push sj c st = Inr ?st"
    using push_idle [OF Cons.prems(1)] structure_space [of c st] Cons.prems(2) by (simp add: spaces_def)
  moreover obtain st' where "push_all sj w ?st = Inr st'" "idle S st' stk rd ((ready @ [c]) @ w)"
    using Cons.IH [OF idle_ready [OF Cons.prems(1), of "[c]"]] Cons.prems(2) by (auto simp: spaces_def)
  ultimately show ?case
    by (intro exI [of _ st']) simp
qed simp

lemma idle_string:
  assumes "idle S st stk rd ready" "value_after stk rd = Some (stk', rd')" "writes sj esc" "json_body raw t"
  shows "\<exists>st'. push_all sj (34 # raw @ [34]) st = Inr st' \<and>
           idle S st' stk' rd' (ready @ 34 # concat (map esc (redacted S t)) @ [34])"
proof -
  let ?st = "st\<lparr>js_key := False, js_in_string := True, js_ready := ready @ [34]\<rparr>"
  have nokey: "(case stk of Object_Key _ # _ \<Rightarrow> True | _ \<Rightarrow> False) = False"
    using assms(2) by (auto split: list.splits json_frame.splits)
  have exp: "value_expected (st\<lparr>js_key := False\<rparr>)"
    using assms(1,2) by (intro value_expected_after) (simp add: idle_def)
  have "structure_char 34 st = Inr ?st"
    using assms(1) nokey exp by (simp add: structure_char_def Let_def idle_def)
  then have first: "push_all sj (34 # raw @ [34]) st = push_all sj (raw @ [34]) ?st"
    using push_idle [OF assms(1)] by simp
  have w: "within ?st"
    using assms(1) by (simp add: within_def idle_def)
  have "value_takes sj esc S (ready @ [34]) ?st []"
    using assms(1,3) feeding_start [of ?st esc] by (simp add: value_takes_def idle_def encoding_def)
  then obtain s r where b: "push_all sj raw ?st = Inr (?st\<lparr>js_strings := s, js_ready := r\<rparr>)"
      "value_takes sj esc S (ready @ [34]) (?st\<lparr>js_strings := s, js_ready := r\<rparr>) t"
    using value_string.body_read [OF assms(4) w, of sj esc S "ready @ [34]" "[]"] by (auto simp: value_string.reads_def)
  let ?b = "?st\<lparr>js_strings := s, js_ready := r\<rparr>"
  let ?s = "s\<lparr>st_pending := [], st_masked_prefix := 0, st_redacting := False\<rparr>"
  let ?ready = "(ready @ [34]) @ concat (map esc (redacted S t))"
  have "emit_string sj True ?b = Inr (?b\<lparr>js_strings := ?s, js_ready := ?ready\<rparr>)"
    using feed_flush [of ?b sj esc "ready @ [34]" t] b(2) by (simp add: value_takes_def)
  moreover have "finish_value (?b\<lparr>js_strings := ?s, js_ready := ?ready @ [34], js_in_string := False\<rparr>) =
      Inr (?b\<lparr>js_strings := ?s, js_ready := ?ready @ [34], js_in_string := False, js_stack := stk', js_root_done := rd'\<rparr>)"
    using finish_value_after [of "?b\<lparr>js_strings := ?s, js_ready := ?ready @ [34], js_in_string := False\<rparr>" stk' rd']
      assms(1,2) by (simp add: idle_def)
  ultimately have "push_all sj [34] ?b =
      Inr (?b\<lparr>js_strings := ?s, js_ready := ?ready @ [34], js_in_string := False, js_stack := stk', js_root_done := rd'\<rparr>)"
    using w by (simp add: within_def push_within string_char_def close_string_def)
  moreover have "idle S (?b\<lparr>js_strings := ?s, js_ready := ?ready @ [34], js_in_string := False, js_stack := stk',
      js_root_done := rd'\<rparr>) stk' rd' (ready @ 34 # concat (map esc (redacted S t)) @ [34])"
    using assms(1) b(2) by (simp add: idle_def value_takes_def feeding_def fresh_strings_def strings_ok_def)
  ultimately show ?thesis
    unfolding first using b(1) by (simp add: push_all_append)
qed

lemma idle_key:
  assumes "idle S st (Object_Key b # stk) rd ready" "writes sj esc" "json_body raw t"
  shows "\<exists>st'. push_all sj (34 # raw @ [34]) st = Inr st' \<and>
           idle S st' (Object_Colon # stk) rd (ready @ 34 # concat (map esc t) @ [34])"
proof -
  let ?st = "st\<lparr>js_key := True, js_in_string := True, js_ready := ready @ [34]\<rparr>"
  have "structure_char 34 st = Inr ?st"
    using assms(1) by (simp add: structure_char_def Let_def idle_def)
  then have first: "push_all sj (34 # raw @ [34]) st = push_all sj (raw @ [34]) ?st"
    using push_idle [OF assms(1)] by simp
  have w: "within ?st"
    using assms(1) by (simp add: within_def idle_def)
  have "key_takes sj esc S (ready @ [34]) ?st []"
    using assms(1,2) by (auto simp: key_takes_def idle_def fresh_strings_def strings_ok_def)
  then obtain s r where b: "push_all sj raw ?st = Inr (?st\<lparr>js_strings := s, js_ready := r\<rparr>)"
      "key_takes sj esc S (ready @ [34]) (?st\<lparr>js_strings := s, js_ready := r\<rparr>) t"
    using key_string.body_read [OF assms(3) w, of sj esc S "ready @ [34]" "[]"] by (auto simp: key_string.reads_def)
  let ?b = "?st\<lparr>js_strings := s, js_ready := r\<rparr>"
  let ?ready = "(ready @ [34]) @ concat (map esc t)"
  let ?e = "?b\<lparr>js_strings := s\<lparr>st_pending := []\<rparr>, js_ready := ?ready @ [34], js_in_string := False,
      js_stack := Object_Colon # stk\<rparr>"
  have "push_all sj [34] ?b = Inr ?e"
    using w assms(1) key_flush [OF b(2), of True] by (simp add: within_def push_within string_char_def close_string_def idle_def Let_def)
  moreover have "idle S ?e (Object_Colon # stk) rd (ready @ 34 # concat (map esc t) @ [34])"
    using assms(1) b(2) by (simp add: idle_def key_takes_def)
  ultimately show ?thesis
    unfolding first using b(1) by (simp add: push_all_append)
qed

section \<open>Documents\<close>

text \<open>\<open>reaches sj next st source st'\<close>: the stream takes \<open>source\<close> from \<open>st\<close> to \<open>st'\<close>, when what follows
  it satisfies \<open>next\<close>. A scalar is only known to be complete at the delimiter after it.\<close>

definition reaches ::
  "serde_json \<Rightarrow> (rstring \<Rightarrow> bool) \<Rightarrow> json_stream \<Rightarrow> rstring \<Rightarrow> json_stream \<Rightarrow> bool" where
  "reaches sj follows st source st' \<longleftrightarrow>
     (\<forall>rest. follows rest \<longrightarrow> stream_all sj (source @ rest) st = stream_all sj rest st')"

definition delimited :: "rstring \<Rightarrow> bool" where
  "delimited rest \<longleftrightarrow> rest = [] \<or> is_delimiter (hd rest)"

lemma reaches_push: "push_all sj source st = Inr st' \<Longrightarrow> reaches sj follows st source st'"
  by (simp add: reaches_def stream_all_def push_all_append)

lemma reaches_append:
  assumes "reaches sj follows1 st a st'" "reaches sj follows2 st' b st''"
    "\<And>rest. follows2 rest \<Longrightarrow> follows1 (b @ rest)"
  shows "reaches sj follows2 st (a @ b) st''"
  using assms by (simp add: reaches_def)

lemma delimited_spaces: "spaces w \<Longrightarrow> delimited rest \<Longrightarrow> delimited (w @ rest)"
  by (cases w) (auto simp: spaces_def delimited_def is_delimiter_def is_ascii_whitespace_def)

lemma idle_scalar:
  assumes "idle S st stk rd ready" "value_after stk rd = Some (stk', rd')" "scalar_token sj t"
  shows "\<exists>st'. reaches sj delimited st t st' \<and> idle S st' stk' rd' (ready @ t)"
proof -
  let ?st = "st\<lparr>js_stack := stk', js_root_done := rd', js_ready := ready @ t\<rparr>"
  obtain c u where t: "t = c # u"
    using assms(3) by (cases t) (auto simp: scalar_token_def)
  have exp: "value_expected st"
    using assms(1,2) by (intro value_expected_after) (simp add: idle_def)
  have c: "c = 45 \<or> is_ascii_digit c \<or> c = 116 \<or> c = 102 \<or> c = 110"
    using assms(3) t by (simp add: scalar_token_def)
  then have ne: "c \<noteq> 34" "c \<noteq> 123" "c \<noteq> 91" "c \<noteq> 125" "c \<noteq> 93" "c \<noteq> 58" "c \<noteq> 44" "c \<noteq> 32" "c \<noteq> 10"
      "c \<noteq> 13" "c \<noteq> 9"
    by (auto simp: is_ascii_digit_def)
  have "structure_char c st = Inr (st\<lparr>js_token := js_token st @ [c]\<rparr>)"
    unfolding structure_char_def Let_def using ne c exp by (simp only: if_False if_True simp_thms)
  then have first: "stream_push sj c st = Inr (st\<lparr>js_token := [c]\<rparr>)"
    using push_idle [OF assms(1)] assms(1) by (simp add: idle_def)
  have more: "push_all sj v (st\<lparr>js_token := c # w\<rparr>) = Inr (st\<lparr>js_token := c # w @ v\<rparr>)"
    if "list_all (\<lambda>c. c < 128 \<and> \<not> is_delimiter c) (c # w @ v)" "length (c # w @ v) \<le> 128" for v w
    using that
  proof (induction v arbitrary: w)
    case (Cons d v)
    have "str_len (c # w) = length (c # w)"
      using Cons.prems(1) by (intro str_len_ascii) (auto simp: list_all_iff)
    then have "stream_push sj d (st\<lparr>js_token := c # w\<rparr>) = Inr (st\<lparr>js_token := c # w @ [d]\<rparr>)"
      using Cons.prems assms(1) by (simp add: stream_push_def idle_def del: str_len_simps)
    then show ?case
      using Cons.IH [of "w @ [d]"] Cons.prems by simp
  qed simp
  have token: "push_all sj t st = Inr (st\<lparr>js_token := t\<rparr>)"
    using first more [of "[]" u] assms(3) t by (simp add: scalar_token_def)
  have fin: "finish_token sj (st\<lparr>js_token := t\<rparr>) = Inr ?st"
    using finish_value_after [of "st\<lparr>js_token := t\<rparr>" stk' rd'] assms t
    by (auto simp: finish_token_def scalar_token_def idle_def)
  have "stream_all sj (t @ rest) st = stream_all sj rest ?st" if rest: "delimited rest" for rest
  proof (cases rest)
    case Nil
    have "finish_token sj ?st = Inr ?st"
      using assms(1) by (simp add: finish_token_def idle_def)
    then show ?thesis
      using Nil token fin assms(1) by (simp add: stream_all_def stream_finish_def idle_def)
  next
    case (Cons d v)
    have d: "is_delimiter d"
      using rest Cons by (simp add: delimited_def)
    have "stream_push sj d (st\<lparr>js_token := t\<rparr>) = structure_char d ?st"
      using d fin assms(1) t by (simp add: stream_push_def idle_def)
    moreover have "stream_push sj d ?st = structure_char d ?st"
      using assms(1) by (simp add: stream_push_def idle_def)
    ultimately show ?thesis
      using Cons token by (simp add: stream_all_def push_all_append)
  qed
  then have "reaches sj delimited st t ?st"
    by (simp add: reaches_def)
  moreover have "idle S ?st stk' rd' (ready @ t)"
    using assms(1) by (simp add: idle_def)
  ultimately show ?thesis
    by blast
qed

text \<open>The characters of the structure.\<close>

lemma idle_open:
  assumes "idle S st stk rd ready" "value_after stk rd = Some p" "length stk < 128"
  shows "\<exists>st'. push_all sj [123] st = Inr st' \<and> idle S st' (Object_Key True # stk) rd (ready @ [123])"
    "\<exists>st'. push_all sj [91] st = Inr st' \<and> idle S st' (Array_Value True # stk) rd (ready @ [91])"
proof -
  have exp: "value_expected st"
    using assms(1,2) by (intro value_expected_after) (simp add: idle_def)
  have "stream_push sj 123 st = structure_char 123 st" "stream_push sj 91 st = structure_char 91 st"
    using push_idle [OF assms(1)] by simp_all
  then show "\<exists>st'. push_all sj [123] st = Inr st' \<and> idle S st' (Object_Key True # stk) rd (ready @ [123])"
    "\<exists>st'. push_all sj [91] st = Inr st' \<and> idle S st' (Array_Value True # stk) rd (ready @ [91])"
    using assms(1,3) exp by (simp_all add: structure_char_def Let_def idle_def)
qed

lemma idle_close:
  assumes "idle S st (f # stk) rd ready" "value_after stk rd = Some (stk', rd')" "closes c f" "c = 125 \<or> c = 93"
  shows "\<exists>st'. push_all sj [c] st = Inr st' \<and> idle S st' stk' rd' (ready @ [c])"
proof -
  have "finish_value (st\<lparr>js_stack := stk\<rparr>) = Inr (st\<lparr>js_stack := stk', js_root_done := rd'\<rparr>)"
    using finish_value_after [of "st\<lparr>js_stack := stk\<rparr>" stk' rd'] assms(1,2) by (simp add: idle_def)
  moreover have "structure_char c st = and_then (finish_value (st\<lparr>js_stack := stk\<rparr>))
      (\<lambda>st. Inr (st\<lparr>js_ready := js_ready st @ [c]\<rparr>))"
    using assms(4)
  proof
    assume "c = 125"
    then show ?thesis
      using assms(1,3) by (simp add: structure_char_def Let_def idle_def)
  next
    assume "c = 93"
    then show ?thesis
      using assms(1,3) by (simp add: structure_char_def Let_def idle_def)
  qed
  ultimately show ?thesis
    using assms(1) push_idle [OF assms(1)] by (simp add: idle_def)
qed

lemma idle_colon:
  assumes "idle S st (Object_Colon # stk) rd ready"
  shows "\<exists>st'. push_all sj [58] st = Inr st' \<and> idle S st' (Object_Value # stk) rd (ready @ [58])"
  using assms push_idle [OF assms] by (simp add: structure_char_def Let_def idle_def)

lemma idle_comma:
  "idle S st (Object_Comma # stk) rd ready \<Longrightarrow>
     \<exists>st'. push_all sj [44] st = Inr st' \<and> idle S st' (Object_Key False # stk) rd (ready @ [44])"
  "idle S st (Array_Comma # stk) rd ready \<Longrightarrow>
     \<exists>st'. push_all sj [44] st = Inr st' \<and> idle S st' (Array_Value False # stk) rd (ready @ [44])"
  using push_idle by (simp_all add: structure_char_def Let_def idle_def)

text \<open>Steps in sequence.\<close>

lemma then_push:
  assumes "push_all sj a st = Inr st1" "reaches sj F st1 b st2"
  shows "reaches sj F st (a @ b) st2"
  using assms by (simp add: reaches_def stream_all_def push_all_append)

lemma then_value:
  assumes "reaches sj delimited st a st1" "reaches sj delimited st1 b st2"
    "\<And>rest. delimited rest \<Longrightarrow> delimited (b @ rest)"
  shows "reaches sj delimited st (a @ b) st2"
  using assms by (simp add: reaches_def)

definition value_ok :: "serde_json \<Rightarrow> rstring list \<Rightarrow> nat \<Rightarrow> rstring \<Rightarrow> rstring \<Rightarrow> bool" where
  "value_ok sj S d x p \<longleftrightarrow>
     (\<forall>st stk rd ready stk' rd'. idle S st stk rd ready \<longrightarrow> value_after stk rd = Some (stk', rd') \<longrightarrow>
        length stk + d \<le> 128 \<longrightarrow> (\<exists>st'. reaches sj delimited st x st' \<and> idle S st' stk' rd' (ready @ p)))"

definition items_ok :: "serde_json \<Rightarrow> rstring list \<Rightarrow> nat \<Rightarrow> rstring \<Rightarrow> rstring \<Rightarrow> bool" where
  "items_ok sj S d x p \<longleftrightarrow>
     (\<forall>st b stk rd ready. idle S st (Array_Value b # stk) rd ready \<longrightarrow> length stk + 1 + d \<le> 128 \<longrightarrow>
        (\<exists>st'. reaches sj delimited st x st' \<and> idle S st' (Array_Comma # stk) rd (ready @ p)))"

definition members_ok :: "serde_json \<Rightarrow> rstring list \<Rightarrow> nat \<Rightarrow> rstring \<Rightarrow> rstring \<Rightarrow> bool" where
  "members_ok sj S d x p \<longleftrightarrow>
     (\<forall>st b stk rd ready. idle S st (Object_Key b # stk) rd ready \<longrightarrow> length stk + 1 + d \<le> 128 \<longrightarrow>
        (\<exists>st'. reaches sj delimited st x st' \<and> idle S st' (Object_Comma # stk) rd (ready @ p)))"

lemma spaced_value:
  assumes "idle S st stk rd ready" "value_after stk rd = Some (stk', rd')" "length stk + d \<le> 128"
    "spaces v" "value_ok sj S d x p" "spaces w"
  shows "\<exists>st'. reaches sj delimited st (v @ x @ w) st' \<and> idle S st' stk' rd' (ready @ v @ p @ w)"
proof -
  obtain st1 where 1: "push_all sj v st = Inr st1" "idle S st1 stk rd (ready @ v)"
    using idle_spaces [OF assms(1,4)] by blast
  obtain st2 where 2: "reaches sj delimited st1 x st2" "idle S st2 stk' rd' ((ready @ v) @ p)"
    using assms(5) 1(2) assms(2,3) unfolding value_ok_def by blast
  obtain st3 where 3: "push_all sj w st2 = Inr st3" "idle S st3 stk' rd' (((ready @ v) @ p) @ w)"
    using idle_spaces [OF 2(2) assms(6)] by blast
  have "reaches sj delimited st (v @ x @ w) st3"
    by (rule then_push [OF 1(1) then_value [OF 2(1) reaches_push [OF 3(1)] delimited_spaces [OF assms(6)]]])
  then show ?thesis
    using 3(2) by (intro exI [of _ st3]) simp
qed

lemma spaced_member:
  assumes "idle S st (Object_Key b # stk) rd ready" "length stk + 1 + d \<le> 128" "writes sj esc"
    "spaces v" "json_body k t" "spaces w" "spaces v'" "value_ok sj S d x p" "spaces w'"
  shows "\<exists>st'. reaches sj delimited st (v @ 34 # k @ 34 # w @ 58 # v' @ x @ w') st' \<and>
           idle S st' (Object_Comma # stk) rd (ready @ v @ 34 # concat (map esc t) @ 34 # w @ 58 # v' @ p @ w')"
proof -
  obtain st1 where 1: "push_all sj v st = Inr st1" "idle S st1 (Object_Key b # stk) rd (ready @ v)"
    using idle_spaces [OF assms(1,4)] by blast
  obtain st2 where 2: "push_all sj (34 # k @ [34]) st1 = Inr st2"
      "idle S st2 (Object_Colon # stk) rd ((ready @ v) @ 34 # concat (map esc t) @ [34])"
    using idle_key [OF 1(2) assms(3,5)] by blast
  obtain st3 where 3: "push_all sj w st2 = Inr st3"
      "idle S st3 (Object_Colon # stk) rd (((ready @ v) @ 34 # concat (map esc t) @ [34]) @ w)"
    using idle_spaces [OF 2(2) assms(6)] by blast
  obtain st4 where 4: "push_all sj [58] st3 = Inr st4"
      "idle S st4 (Object_Value # stk) rd ((((ready @ v) @ 34 # concat (map esc t) @ [34]) @ w) @ [58])"
    using idle_colon [OF 3(2)] by blast
  obtain st5 where 5: "reaches sj delimited st4 (v' @ x @ w') st5"
      "idle S st5 (Object_Comma # stk) rd
         (((((ready @ v) @ 34 # concat (map esc t) @ [34]) @ w) @ [58]) @ v' @ p @ w')"
    using spaced_value [OF 4(2) value_after.simps(1) _ assms(7,8,9)] assms(2) by auto
  have "reaches sj delimited st (v @ (34 # k @ [34]) @ w @ [58] @ v' @ x @ w') st5"
    by (rule then_push [OF 1(1) then_push [OF 2(1) then_push [OF 3(1) then_push [OF 4(1) 5(1)]]]])
  then show ?thesis
    using 5(2) by (intro exI [of _ st5]) simp
qed

lemma value_string_ok: "writes sj esc \<Longrightarrow> json_body r t \<Longrightarrow>
    value_ok sj S d (34 # r @ [34]) (34 # concat (map esc (redacted S t)) @ [34])"
  unfolding value_ok_def using idle_string reaches_push by blast

lemma value_scalar_ok: "scalar_token sj t \<Longrightarrow> value_ok sj S d t t"
  unfolding value_ok_def using idle_scalar by blast

lemma object_ok:
  assumes "\<And>st stk rd ready. idle S st (Object_Key True # stk) rd ready \<Longrightarrow> length stk + 1 + d \<le> 128 \<Longrightarrow>
      \<exists>st' f. reaches sj delimited st r st' \<and> idle S st' (f # stk) rd (ready @ p) \<and> closes 125 f"
  shows "value_ok sj S (Suc d) (123 # r @ [125]) (123 # p @ [125])"
  unfolding value_ok_def
proof (intro allI impI)
  fix st stk rd ready stk' rd'
  assume i: "idle S st stk rd ready" "value_after stk rd = Some (stk', rd')" "length stk + Suc d \<le> 128"
  then obtain st1 where 1: "push_all sj [123] st = Inr st1" "idle S st1 (Object_Key True # stk) rd (ready @ [123])"
    using idle_open(1) [OF i(1,2)] by fastforce
  then obtain st2 f where 2: "reaches sj delimited st1 r st2" "idle S st2 (f # stk) rd ((ready @ [123]) @ p)" "closes 125 f"
    using assms [OF 1(2)] i(3) by auto
  obtain st3 where 3: "push_all sj [125] st2 = Inr st3" "idle S st3 stk' rd' (((ready @ [123]) @ p) @ [125])"
    using idle_close [OF 2(2) i(2) 2(3)] by blast
  have "reaches sj delimited st ([123] @ r @ [125]) st3"
    by (rule then_push [OF 1(1) then_value [OF 2(1) reaches_push [OF 3(1)]]])
      (simp add: delimited_def is_delimiter_def)
  then show "\<exists>st'. reaches sj delimited st (123 # r @ [125]) st' \<and> idle S st' stk' rd' (ready @ 123 # p @ [125])"
    using 3(2) by (intro exI [of _ st3]) simp
qed

lemma array_ok:
  assumes "\<And>st stk rd ready. idle S st (Array_Value True # stk) rd ready \<Longrightarrow> length stk + 1 + d \<le> 128 \<Longrightarrow>
      \<exists>st' f. reaches sj delimited st r st' \<and> idle S st' (f # stk) rd (ready @ p) \<and> closes 93 f"
  shows "value_ok sj S (Suc d) (91 # r @ [93]) (91 # p @ [93])"
  unfolding value_ok_def
proof (intro allI impI)
  fix st stk rd ready stk' rd'
  assume i: "idle S st stk rd ready" "value_after stk rd = Some (stk', rd')" "length stk + Suc d \<le> 128"
  then obtain st1 where 1: "push_all sj [91] st = Inr st1" "idle S st1 (Array_Value True # stk) rd (ready @ [91])"
    using idle_open(2) [OF i(1,2)] by fastforce
  then obtain st2 f where 2: "reaches sj delimited st1 r st2" "idle S st2 (f # stk) rd ((ready @ [91]) @ p)" "closes 93 f"
    using assms [OF 1(2)] i(3) by auto
  obtain st3 where 3: "push_all sj [93] st2 = Inr st3" "idle S st3 stk' rd' (((ready @ [91]) @ p) @ [93])"
    using idle_close [OF 2(2) i(2) 2(3)] by blast
  have "reaches sj delimited st ([91] @ r @ [93]) st3"
    by (rule then_push [OF 1(1) then_value [OF 2(1) reaches_push [OF 3(1)]]])
      (simp add: delimited_def is_delimiter_def)
  then show "\<exists>st'. reaches sj delimited st (91 # r @ [93]) st' \<and> idle S st' stk' rd' (ready @ 91 # p @ [93])"
    using 3(2) by (intro exI [of _ st3]) simp
qed

lemma items_one_ok:
  assumes "spaces v" "value_ok sj S d x p" "spaces w"
  shows "items_ok sj S d (v @ x @ w) (v @ p @ w)"
  unfolding items_ok_def
proof (intro allI impI)
  fix st b stk rd ready
  assume "idle S st (Array_Value b # stk) rd ready" "length stk + 1 + d \<le> 128"
  then show "\<exists>st'. reaches sj delimited st (v @ x @ w) st' \<and> idle S st' (Array_Comma # stk) rd (ready @ v @ p @ w)"
    using spaced_value [OF _ value_after.simps(2) _ assms] by fastforce
qed

lemma items_more_ok:
  assumes "spaces v" "value_ok sj S d x p" "spaces w" "items_ok sj S d r q"
  shows "items_ok sj S d (v @ x @ w @ 44 # r) (v @ p @ w @ 44 # q)"
  unfolding items_ok_def
proof (intro allI impI)
  fix st b stk rd ready
  assume i: "idle S st (Array_Value b # stk) rd ready" "length stk + 1 + d \<le> 128"
  obtain st1 where 1: "reaches sj delimited st (v @ x @ w) st1" "idle S st1 (Array_Comma # stk) rd (ready @ v @ p @ w)"
    using spaced_value [OF i(1) value_after.simps(2) _ assms(1-3)] i(2) by auto
  obtain st2 where 2: "push_all sj [44] st1 = Inr st2"
      "idle S st2 (Array_Value False # stk) rd ((ready @ v @ p @ w) @ [44])"
    using idle_comma(2) [OF 1(2)] by blast
  obtain st3 where 3: "reaches sj delimited st2 r st3" "idle S st3 (Array_Comma # stk) rd (((ready @ v @ p @ w) @ [44]) @ q)"
    using assms(4) 2(2) i(2) unfolding items_ok_def by blast
  have "reaches sj delimited st ((v @ x @ w) @ [44] @ r) st3"
    by (rule then_value [OF 1(1) then_push [OF 2(1) 3(1)]]) (simp add: delimited_def is_delimiter_def)
  then show "\<exists>st'. reaches sj delimited st (v @ x @ w @ 44 # r) st' \<and>
      idle S st' (Array_Comma # stk) rd (ready @ v @ p @ w @ 44 # q)"
    using 3(2) by (intro exI [of _ st3]) simp
qed

lemma members_one_ok:
  assumes "writes sj esc" "spaces v" "json_body k t" "spaces w" "spaces v'" "value_ok sj S d x p" "spaces w'"
  shows "members_ok sj S d (v @ 34 # k @ 34 # w @ 58 # v' @ x @ w')
           (v @ 34 # concat (map esc t) @ 34 # w @ 58 # v' @ p @ w')"
  unfolding members_ok_def using spaced_member [OF _ _ assms] by blast

lemma members_more_ok:
  assumes "writes sj esc" "spaces v" "json_body k t" "spaces w" "spaces v'" "value_ok sj S d x p" "spaces w'"
    "members_ok sj S d r q"
  shows "members_ok sj S d (v @ 34 # k @ 34 # w @ 58 # v' @ x @ w' @ 44 # r)
           (v @ 34 # concat (map esc t) @ 34 # w @ 58 # v' @ p @ w' @ 44 # q)"
  unfolding members_ok_def
proof (intro allI impI)
  fix st b stk rd ready
  let ?x = "v @ 34 # k @ 34 # w @ 58 # v' @ x @ w'" and ?p = "v @ 34 # concat (map esc t) @ 34 # w @ 58 # v' @ p @ w'"
  assume i: "idle S st (Object_Key b # stk) rd ready" "length stk + 1 + d \<le> 128"
  obtain st1 where 1: "reaches sj delimited st ?x st1" "idle S st1 (Object_Comma # stk) rd (ready @ ?p)"
    using spaced_member [OF i assms(1-7)] by blast
  obtain st2 where 2: "push_all sj [44] st1 = Inr st2" "idle S st2 (Object_Key False # stk) rd ((ready @ ?p) @ [44])"
    using idle_comma(1) [OF 1(2)] by blast
  obtain st3 where 3: "reaches sj delimited st2 r st3" "idle S st3 (Object_Comma # stk) rd (((ready @ ?p) @ [44]) @ q)"
    using assms(8) 2(2) i(2) unfolding members_ok_def by blast
  have "reaches sj delimited st (?x @ [44] @ r) st3"
    by (rule then_value [OF 1(1) then_push [OF 2(1) 3(1)]]) (simp add: delimited_def is_delimiter_def)
  then show "\<exists>st'. reaches sj delimited st (v @ 34 # k @ 34 # w @ 58 # v' @ x @ w' @ 44 # r) st' \<and>
      idle S st' (Object_Comma # stk) rd (ready @ v @ 34 # concat (map esc t) @ 34 # w @ 58 # v' @ p @ w' @ 44 # q)"
    using 3(2) by (intro exI [of _ st3]) simp
qed

lemma document_ok:
  assumes "writes sj esc"
  shows "json_val sj esc S d x p \<Longrightarrow> value_ok sj S d x p"
    and "json_items sj esc S d x p \<Longrightarrow> items_ok sj S d x p"
    and "json_members sj esc S d x p \<Longrightarrow> members_ok sj S d x p"
proof (induction rule: json_val_json_items_json_members.inducts)
  case (Val_String r t d)
  show ?case
    by (rule value_string_ok [OF assms Val_String])
next
  case (Val_Scalar t d)
  then show ?case
    by (rule value_scalar_ok)
next
  case (Val_Empty_Object w d)
  show ?case
    by (rule object_ok) (use idle_spaces [OF _ Val_Empty_Object] reaches_push in \<open>fastforce simp: closes_def\<close>)
next
  case (Val_Object d r p)
  show ?case
    by (rule object_ok) (use Val_Object.IH in \<open>fastforce simp: members_ok_def closes_def\<close>)
next
  case (Val_Empty_Array w d)
  show ?case
    by (rule array_ok) (use idle_spaces [OF _ Val_Empty_Array] reaches_push in \<open>fastforce simp: closes_def\<close>)
next
  case (Val_Array d r p)
  show ?case
    by (rule array_ok) (use Val_Array.IH in \<open>fastforce simp: items_ok_def closes_def\<close>)
next
  case (Items_One v d x p w)
  then show ?case
    by (intro items_one_ok)
next
  case (Items_More v d x p w r q)
  then show ?case
    by (intro items_more_ok)
next
  case (Members_One v k t w v' d x p w')
  then show ?case
    by (intro members_one_ok assms)
next
  case (Members_More v k t w v' d x p w' r q)
  then show ?case
    by (intro members_more_ok assms)
qed

theorem document_stream_exact:
  assumes "redactor_ok r" "stream_new True r = Inr st" "writes sj esc"
    "spaces v" "json_val sj esc (rd_secrets r) 128 x p" "spaces w"
  shows "\<exists>st'. stream_all sj (v @ x @ w) st = Inr st' \<and> js_done st' \<and> js_ready st' = v @ p @ w"
proof -
  obtain s where s: "strings_new r = Inr s" "js_strings st = s" "js_json st" "\<not> js_in_string st" "js_escape st = []"
      "js_token st = []" "\<not> js_done st" "js_stack st = []" "\<not> js_root_done st" "js_ready st = []"
    using assms(2) by (cases "strings_new r") (auto simp: stream_new_def)
  have "idle (rd_secrets r) st [] False []"
    using s strings_new_ok [OF assms(1) s(1)] by (simp add: idle_def)
  then obtain st1 where 1: "reaches sj delimited st (v @ x @ w) st1" "idle (rd_secrets r) st1 [] True ([] @ v @ p @ w)"
    using spaced_value [OF _ _ _ assms(4) document_ok(1) [OF assms(3,5)] assms(6), of st "[]" False "[]" "[]" True]
    by auto
  have "stream_all sj (v @ x @ w) st = stream_all sj [] st1"
    using 1(1) by (auto simp: reaches_def delimited_def dest: spec [of _ "[]"])
  also have "\<dots> = Inr (st1\<lparr>js_done := True\<rparr>)"
    using 1(2) by (simp add: stream_all_def stream_finish_def finish_token_def idle_def)
  finally show ?thesis
    using 1(2) by (simp add: idle_def)
qed

end
