(* ===== verification/Json_Safety.thy ===== *)
theory Json_Safety
  imports Json_Stream
begin

text \<open>
  The stream on any input, well formed or not: no slice, index or subtraction of it panics, and what it
  keeps stays within fixed bounds however long the source is.
\<close>

section \<open>Rounding down to a character\<close>

lemma floor_boundary_max: "is_char_boundary s k \<Longrightarrow> k \<le> n \<Longrightarrow> k \<le> floor_boundary s n"
  by (induction s n rule: floor_boundary.induct) (auto simp: le_Suc_eq)

lemma boundary_near: "n \<le> str_len s \<Longrightarrow> \<exists>k. is_char_boundary s k \<and> k \<le> n \<and> n \<le> k + 3"
proof (induction s arbitrary: n)
  case (Cons c s)
  show ?case
  proof (cases "n < len_utf8 c")
    case True
    then have "n \<le> 3"
      using len_utf8_le [of c] by linarith
    then show ?thesis
      by (intro exI [of _ 0]) simp
  next
    case False
    have "n - len_utf8 c \<le> str_len s"
      using Cons.prems by simp
    then obtain k where k: "is_char_boundary s k" "k \<le> n - len_utf8 c" "n - len_utf8 c \<le> k + 3"
      using Cons.IH [of "n - len_utf8 c"] by blast
    obtain a b where "s = a @ b" "str_len a = k"
      using k(1) by (auto simp: is_char_boundary_iff)
    then have "is_char_boundary (c # s) (len_utf8 c + k)"
      unfolding is_char_boundary_iff by (intro exI [of _ "c # a"] exI [of _ b]) simp
    then show ?thesis
      using k False by (intro exI [of _ "len_utf8 c + k"]) auto
  qed
qed simp

lemma floor_boundary_near: "n \<le> str_len s \<Longrightarrow> n \<le> floor_boundary s n + 3"
  using boundary_near [of n s] floor_boundary_max [of s _ n] by (meson add_le_mono1 le_trans)

section \<open>The invariant\<close>

definition safe :: "(json_error, 'a) result \<Rightarrow> ('a \<Rightarrow> bool) \<Rightarrow> bool" where
  "safe r P \<longleftrightarrow> (case r of Inl e \<Rightarrow> e = Invalid_Json | Inr x \<Rightarrow> P x)"

lemma safe_simps [simp]: "safe (Inl e) P \<longleftrightarrow> e = Invalid_Json" "safe (Inr x) P \<longleftrightarrow> P x"
  by (simp_all add: safe_def)

lemma safe_bind: "safe r Q \<Longrightarrow> (\<And>x. Q x \<Longrightarrow> safe (f x) P) \<Longrightarrow> safe (and_then r f) P"
  by (cases r) simp_all

lemma safe_invalid: "(\<And>x. v = Some x \<Longrightarrow> safe (f x) P) \<Longrightarrow> safe (and_then (ok_or Invalid_Json v) f) P"
  by (cases v) simp_all

text \<open>What is pending is less than a block more than the longest secret; between strings nothing is.\<close>

definition strings_safe :: "strings \<Rightarrow> bool" where
  "strings_safe s \<longleftrightarrow>
     strings_ok s \<and> (\<exists>D out. emitted s D out) \<and> str_len (st_pending s) < st_hold s + BLOCK \<and>
     st_hold s < SECRET_BYTES"

text \<open>An escape under way, and the high surrogate it may hold.\<close>

definition escape_ok :: "rstring \<Rightarrow> bool" where
  "escape_ok e \<longleftrightarrow>
     list_all (\<lambda>c. c < 128) e \<and> length e < 12 \<and>
     (6 \<le> length e \<longrightarrow> (\<exists>n. parse_hex (take 4 (drop 2 e)) = Some n \<and> 55296 \<le> n))"

definition stream_safe :: "json_stream \<Rightarrow> bool" where
  "stream_safe st \<longleftrightarrow>
     strings_safe (js_strings st) \<and> escape_ok (js_escape st) \<and>
     length (js_stack st) \<le> 128 \<and> str_len (js_token st) \<le> 128 \<and>
     (js_json st \<and> \<not> js_in_string st \<longrightarrow> fresh_strings (js_strings st)) \<and>
     (js_key st \<and> js_in_string st \<longrightarrow> fresh_strings ((js_strings st)\<lparr>st_pending := []\<rparr>)) \<and>
     (\<not> js_json st \<longrightarrow> \<not> js_in_string st \<and> \<not> js_key st)"

lemma fresh_safe: "fresh_strings s \<Longrightarrow> st_hold s < SECRET_BYTES \<Longrightarrow> strings_safe s"
  using emitted_start [of s] by (auto simp: fresh_strings_def strings_safe_def)

text \<open>Emitting in a value string.\<close>

lemma emit_string_safe:
  assumes "encoding sj (js_json st) esc" "strings_ok (js_strings st)" "emitted (js_strings st) D out"
    "st_hold (js_strings st) < SECRET_BYTES" "\<not> js_key st"
    "st_hold (js_strings st) + BLOCK \<le> str_len (st_pending (js_strings st))"
    "str_len (st_pending (js_strings st)) \<le> st_hold (js_strings st) + BLOCK + 3"
  shows "\<exists>s r. emit_string sj False st = Inr (st\<lparr>js_strings := s, js_ready := r\<rparr>) \<and> strings_safe s"
proof -
  let ?s = "js_strings st"
  let ?n = "str_len (st_pending ?s) - st_hold ?s"
  have near: "?n \<le> floor_boundary (st_pending ?s) ?n + 3"
    by (rule floor_boundary_near) simp
  then have "floor_boundary (st_pending ?s) ?n \<noteq> 0"
    using assms(6) by linarith
  then obtain val s' Q where e: "emit False ?s = Some (val, s')" "st_secrets s' = st_secrets ?s"
      "st_hold s' = st_hold ?s" "st_pending ?s = Q @ st_pending s'"
      "str_len Q = floor_boundary (st_pending ?s) ?n" "emitted s' (D @ Q) (out @ val)"
    using emitted_emit [OF assms(2,3)] by blast
  have "str_len (st_pending ?s) = str_len Q + str_len (st_pending s')"
    unfolding e(4) by simp
  then have "str_len (st_pending s') \<le> st_hold s' + 3"
    using near e(3,5) assms(6) by linarith
  then have "strings_safe s'"
    using e assms(2,4) by (auto simp: strings_safe_def strings_ok_def)
  then show ?thesis
    using emit_string_value [OF assms(5,1) e(1)] by blast
qed

lemma emitted_none: "st_masked_prefix s = 0 \<Longrightarrow> \<not> st_redacting s \<Longrightarrow> emitted s [] []"
  by (simp add: emitted_def)

lemma fresh_pending:
  assumes "fresh_strings (s\<lparr>st_pending := []\<rparr>)"
  shows "strings_ok s" "emitted s [] []"
  using assms by (auto simp: fresh_strings_def strings_ok_def intro: emitted_none)

lemma emit_string_key:
  assumes "js_key st" "encoding sj (js_json st) esc"
  shows "\<exists>r. emit_string sj flush st = Inr (st\<lparr>js_strings := (js_strings st)\<lparr>st_pending := []\<rparr>, js_ready := r\<rparr>)"
proof (cases "js_json st")
  case True
  then have "emit_string sj flush st = Inr (st\<lparr>js_strings := (js_strings st)\<lparr>st_pending := []\<rparr>,
      js_ready := js_ready st @ concat (map esc (st_pending (js_strings st)))\<rparr>)"
    using assms slice_body [of "concat (map esc (st_pending (js_strings st)))"]
    by (simp add: emit_string_def encoding_def writes_def Let_def)
  then show ?thesis
    by blast
next
  case False
  then have "emit_string sj flush st = Inr (st\<lparr>js_strings := (js_strings st)\<lparr>st_pending := []\<rparr>,
      js_ready := js_ready st @ st_pending (js_strings st)\<rparr>)"
    using assms by (simp add: emit_string_def)
  then show ?thesis
    by blast
qed

text \<open>A character of a string.\<close>

lemma decoded_safe:
  assumes "stream_safe st" "encoding sj (js_json st) esc" "js_json st \<longrightarrow> js_in_string st"
  shows "\<exists>s r. decoded sj c st = Inr (st\<lparr>js_strings := s, js_ready := r\<rparr>) \<and>
           stream_safe (st\<lparr>js_strings := s, js_ready := r\<rparr>)"
proof -
  let ?s = "js_strings st"
  let ?s1 = "?s\<lparr>st_pending := st_pending ?s @ [c]\<rparr>"
  let ?st1 = "st\<lparr>js_strings := ?s1\<rparr>"
  have s: "strings_safe ?s"
    using assms(1) by (simp add: stream_safe_def)
  have key: "fresh_strings (?s\<lparr>st_pending := []\<rparr>)" if "js_key st"
    using assms(1,3) that by (auto simp: stream_safe_def)
  have ok: "strings_ok ?s1"
    using s by (simp add: strings_safe_def strings_ok_def)
  obtain D out where e: "emitted ?s D out"
    using s by (auto simp: strings_safe_def)
  have e1: "emitted ?s1 D out"
    by (rule emitted_push [OF e, of ?s1 c]) simp_all
  have upper: "str_len (st_pending ?s1) \<le> st_hold ?s1 + BLOCK + 3"
  proof -
    have "str_len (st_pending ?s) < st_hold ?s + BLOCK" "len_utf8 c \<le> 4"
      using s by (simp_all add: strings_safe_def)
    then have "str_len (st_pending ?s) + len_utf8 c \<le> st_hold ?s + BLOCK + 3"
      by linarith
    then show ?thesis
      by simp
  qed
  have step: "stream_safe (st\<lparr>js_strings := s', js_ready := r\<rparr>)"
    if "strings_safe s'" "js_key st \<longrightarrow> fresh_strings (s'\<lparr>st_pending := []\<rparr>)" for s' r
    using that assms(1,3) by (auto simp: stream_safe_def)
  show ?thesis
  proof (cases "st_hold ?s1 + BLOCK \<le> str_len (st_pending ?s1)")
    case False
    then have "decoded sj c st = Inr (st\<lparr>js_strings := ?s1, js_ready := js_ready st\<rparr>)"
      by (simp add: decoded_def Let_def)
    moreover have "strings_safe ?s1"
      using False ok e1 s by (auto simp: strings_safe_def)
    moreover have "js_key st \<longrightarrow> fresh_strings (?s1\<lparr>st_pending := []\<rparr>)"
      using key by simp
    ultimately show ?thesis
      using step [of ?s1 "js_ready st"] by blast
  next
    case True
    then have d: "decoded sj c st = emit_string sj False ?st1"
      unfolding decoded_def Let_def by (rule if_P)
    show ?thesis
    proof (cases "js_key st")
      case True
      let ?s2 = "?s1\<lparr>st_pending := []\<rparr>"
      have f: "fresh_strings ?s2"
        using key [OF True] by simp
      have "\<exists>r. emit_string sj False ?st1 = Inr (st\<lparr>js_strings := ?s2, js_ready := r\<rparr>)"
        using emit_string_key [of ?st1 sj esc False] True assms(2) by simp
      moreover have "strings_safe ?s2"
        using f s by (intro fresh_safe) (simp_all add: strings_safe_def)
      ultimately show ?thesis
        using step [of ?s2] f d by fastforce
    next
      case False
      have "\<exists>s' r. emit_string sj False ?st1 = Inr (?st1\<lparr>js_strings := s', js_ready := r\<rparr>) \<and> strings_safe s'"
        by (rule emit_string_safe [of sj ?st1 esc D out]) (use assms(2) ok e1 s False True upper in \<open>simp_all add: strings_safe_def\<close>)
      then show ?thesis
        using step False d by fastforce
    qed
  qed
qed

text \<open>The end of a string.\<close>

lemma emit_string_end:
  assumes "stream_safe st" "encoding sj (js_json st) esc" "js_json st \<longrightarrow> js_in_string st"
  shows "\<exists>s r. emit_string sj True st = Inr (st\<lparr>js_strings := s, js_ready := r\<rparr>) \<and>
           fresh_strings s \<and> st_hold s < SECRET_BYTES"
proof (cases "js_key st")
  case True
  let ?s = "(js_strings st)\<lparr>st_pending := []\<rparr>"
  have "fresh_strings ?s" "st_hold ?s < SECRET_BYTES"
    using assms(1,3) True by (auto simp: stream_safe_def strings_safe_def)
  moreover have "\<exists>r. emit_string sj True st = Inr (st\<lparr>js_strings := ?s, js_ready := r\<rparr>)"
    using emit_string_key [OF True assms(2)] by blast
  ultimately show ?thesis
    by blast
next
  case False
  let ?s = "(js_strings st)\<lparr>st_pending := [], st_masked_prefix := 0, st_redacting := False\<rparr>"
  have s: "strings_safe (js_strings st)"
    using assms(1) by (simp add: stream_safe_def)
  then obtain D out where "emitted (js_strings st) D out"
    by (auto simp: strings_safe_def)
  then obtain val where "emit True (js_strings st) = Some (val, ?s)"
    using emitted_flush s by (fastforce simp: strings_safe_def)
  then have "emit_string sj True st = Inr (st\<lparr>js_strings := ?s, js_ready := js_ready st @ concat (map esc val)\<rparr>)"
    by (rule emit_string_value [OF False assms(2)])
  moreover have "fresh_strings ?s" "st_hold ?s < SECRET_BYTES"
    using s by (simp_all add: strings_safe_def strings_ok_def fresh_strings_def)
  ultimately show ?thesis
    by blast
qed

text \<open>A character of an escape.\<close>

lemma safe_decoded:
  assumes "stream_safe st" "encoding sj (js_json st) esc" "js_json st" "js_in_string st"
  shows "safe (decoded sj d (st\<lparr>js_escape := []\<rparr>)) stream_safe"
proof -
  have "stream_safe (st\<lparr>js_escape := []\<rparr>)"
    using assms(1) by (simp add: stream_safe_def escape_ok_def)
  then show ?thesis
    using decoded_safe [of "st\<lparr>js_escape := []\<rparr>" sj esc d] assms by auto
qed

lemma escaped_safe:
  assumes "stream_safe st" "encoding sj (js_json st) esc" "js_json st" "js_in_string st" "js_escape st \<noteq> []"
  shows "safe (escaped sj c st) stream_safe"
proof -
  define e where "e = js_escape st @ [c]"
  let ?st = "st\<lparr>js_escape := e\<rparr>"
  have old: "list_all (\<lambda>c. c < 128) (js_escape st)" "length (js_escape st) < 12"
    using assms(1) by (simp_all add: stream_safe_def escape_ok_def)
  have dec: "safe (decoded sj d (?st\<lparr>js_escape := []\<rparr>)) stream_safe" for d
    using safe_decoded [OF assms(1-4), of d] by simp
  have keep: "stream_safe ?st" if "escape_ok e"
    using assms(1) that by (simp add: stream_safe_def)
  consider "str_len e = 2" | "str_len e \<noteq> 2" "\<not> list_all (\<lambda>c. c < 128) e \<or> 12 < str_len e"
    | "str_len e \<noteq> 2" "list_all (\<lambda>c. c < 128) e" "str_len e \<le> 12"
    by linarith
  then show ?thesis
  proof cases
    case 1
    have "escape_ok e" if "c = 117"
      using 1 old that length_le_str_len [of e] by (simp add: escape_ok_def e_def)
    then have "stream_safe (st\<lparr>js_escape := js_escape st @ [117]\<rparr>)" if "c = 117"
      using keep that unfolding e_def by simp
    then show ?thesis
      using 1 dec unfolding escaped_def Let_def
      by (simp add: e_def [symmetric] split: option.splits)
  next
    case 2
    then show ?thesis
      unfolding escaped_def Let_def by (simp add: e_def [symmetric])
  next
    case 3
    have len: "str_len e = length e"
      using str_len_ascii 3(2) by blast
    have high: "\<exists>n. parse_hex (take 4 (drop 2 e)) = Some n \<and> 55296 \<le> n" if "6 < length e"
      using that assms(1) by (auto simp: stream_safe_def escape_ok_def e_def)
    have s1: "str_slice e 2 6 = Some (take 4 (drop 2 e))" if "6 \<le> length e"
      using str_slice_take [OF 3(2), of 2 6] that by simp
    have s2: "str_slice e 8 12 = Some (take 4 (drop 8 e))" if "length e = 12"
      using str_slice_take [OF 3(2), of 8 12] that by simp
    consider "length e < 6" | "length e = 6" | "6 < length e" "length e < 12" | "length e = 12"
      using 3(3) len by linarith
    then show ?thesis
    proof cases
      case 1
      have "escape_ok e"
        using 1 3(2) by (simp add: escape_ok_def)
      then show ?thesis
        using 1 3 len keep unfolding escaped_def Let_def by (simp add: e_def [symmetric])
    next
      case 2
      have k: "escape_ok e" if "parse_hex (take 4 (drop 2 e)) = Some n" "55296 \<le> n" for n
        using 2 3(2) that by (simp add: escape_ok_def)
      show ?thesis
        using 2 3 len s1 k keep dec unfolding escaped_def Let_def
        by (auto simp: e_def [symmetric] intro!: safe_invalid)
    next
      case c: 3
      have "escape_ok e"
        using c high 3(2) by (simp add: escape_ok_def)
      then show ?thesis
        using c 3 len keep unfolding escaped_def Let_def by (simp add: e_def [symmetric])
    next
      case 4
      then obtain n where "parse_hex (take 4 (drop 2 e)) = Some n" "55296 \<le> n"
        using high by auto
      then show ?thesis
        using 4 3 len s1 s2 dec unfolding escaped_def Let_def
        by (auto simp: e_def [symmetric] intro!: safe_invalid)
    qed
  qed
qed

text \<open>The structure.\<close>

lemma safe_if: "(b \<Longrightarrow> safe x P) \<Longrightarrow> (\<not> b \<Longrightarrow> safe y P) \<Longrightarrow> safe (if b then x else y) P"
  by simp

lemma finish_value_safe:
  assumes "stream_safe st"
  shows "safe (finish_value st) (\<lambda>st'. stream_safe st' \<and> js_token st' = js_token st \<and>
           js_json st' = js_json st \<and> js_in_string st' = js_in_string st)"
  using assms by (auto simp: finish_value_def stream_safe_def split: list.splits json_frame.splits)

lemma stream_safe_ready [simp]: "stream_safe (st\<lparr>js_ready := r\<rparr>) = stream_safe st"
  by (simp add: stream_safe_def)

lemma structure_char_safe:
  assumes "stream_safe st" "js_json st" "\<not> js_in_string st" "js_token st = []"
  shows "safe (structure_char c st) stream_safe"
proof -
  have fresh: "fresh_strings (js_strings st)"
    using assms(1-3) by (simp add: stream_safe_def)
  have quote: "stream_safe (st\<lparr>js_key := k, js_in_string := True\<rparr>)" for k
    using assms(1,2) fresh by (simp add: stream_safe_def fresh_strings_def strings_ok_def)
  have stack: "stream_safe (st\<lparr>js_stack := stk\<rparr>)" if "length stk \<le> 128" for stk
    using assms(1) that by (simp add: stream_safe_def)
  have len: "length (js_stack st) \<le> 128"
    using assms(1) by (simp add: stream_safe_def)
  have token: "stream_safe (st\<lparr>js_token := [c]\<rparr>)"
    using assms(1) len_utf8_le [of c] by (simp add: stream_safe_def del: len_utf8_le)
  have close: "safe (and_then (finish_value (st\<lparr>js_stack := r\<rparr>)) (\<lambda>st. Inr (st\<lparr>js_ready := js_ready st @ [c]\<rparr>))) stream_safe"
    if "length r \<le> 128" for r
    by (rule safe_bind [OF finish_value_safe [OF stack [OF that]]]) simp
  have frames: "safe (case js_stack st of f # r \<Rightarrow> if \<not> closes c f then Inl Invalid_Json
      else and_then (finish_value (st\<lparr>js_stack := r\<rparr>)) (\<lambda>st. Inr (st\<lparr>js_ready := js_ready st @ [c]\<rparr>))
    | [] \<Rightarrow> Inl Invalid_Json) stream_safe"
    using len close by (cases "js_stack st") auto
  have colon: "safe (case js_stack st of Object_Colon # r \<Rightarrow> Inr (st\<lparr>js_stack := Object_Value # r,
        js_ready := js_ready (st\<lparr>js_stack := Object_Value # r\<rparr>) @ [c]\<rparr>)
    | _ \<Rightarrow> Inl Invalid_Json) stream_safe"
    using len stack by (auto split: list.splits json_frame.splits)
  have comma: "safe (case js_stack st of Object_Comma # r \<Rightarrow> Inr (st\<lparr>js_stack := Object_Key False # r,
        js_ready := js_ready (st\<lparr>js_stack := Object_Key False # r\<rparr>) @ [c]\<rparr>)
    | Array_Comma # r \<Rightarrow> Inr (st\<lparr>js_stack := Array_Value False # r,
        js_ready := js_ready (st\<lparr>js_stack := Array_Value False # r\<rparr>) @ [c]\<rparr>)
    | _ \<Rightarrow> Inl Invalid_Json) stream_safe"
    using len stack by (auto split: list.splits json_frame.splits)
  show ?thesis
    unfolding structure_char_def Let_def
    by (intro safe_if) (use assms quote stack frames colon comma token in simp_all)
qed

lemma finish_token_safe:
  assumes "stream_safe st"
  shows "safe (finish_token sj st) (\<lambda>st'. stream_safe st' \<and> js_token st' = [] \<and>
           js_json st' = js_json st \<and> js_in_string st' = js_in_string st)"
proof -
  have "safe (and_then (finish_value st) (\<lambda>st. Inr (st\<lparr>js_ready := js_ready st @ js_token st, js_token := []\<rparr>)))
      (\<lambda>st'. stream_safe st' \<and> js_token st' = [] \<and> js_json st' = js_json st \<and> js_in_string st' = js_in_string st)"
    by (rule safe_bind [OF finish_value_safe [OF assms]]) (auto simp: stream_safe_def)
  then show ?thesis
    using assms by (auto simp: finish_token_def intro!: safe_invalid)
qed

lemma close_string_safe:
  assumes "stream_safe (st\<lparr>js_ready := js_ready st @ [34], js_in_string := False\<rparr>)"
  shows "safe (close_string st) stream_safe"
proof -
  have "safe (finish_value st') stream_safe" if "stream_safe st'" for st'
    using finish_value_safe [OF that] by (auto simp: safe_def split: sum.splits)
  moreover have "safe (case js_stack st' of Object_Key _ # r \<Rightarrow> Inr (st'\<lparr>js_stack := Object_Colon # r\<rparr>) | _ \<Rightarrow> Inl Invalid_Json)
      stream_safe" if "stream_safe st'" for st'
    using that by (auto simp: stream_safe_def split: list.splits json_frame.splits)
  ultimately show ?thesis
    unfolding close_string_def Let_def using assms by (intro safe_if)
qed

lemma string_char_safe:
  assumes "stream_safe st" "encoding sj (js_json st) esc" "js_json st" "js_in_string st"
  shows "safe (string_char sj c st) stream_safe"
proof -
  have esc: "stream_safe (st\<lparr>js_escape := [92]\<rparr>)"
    using assms(1) by (simp add: stream_safe_def escape_ok_def)
  obtain s r where e: "emit_string sj True st = Inr (st\<lparr>js_strings := s, js_ready := r\<rparr>)" "fresh_strings s"
      "st_hold s < SECRET_BYTES"
    using emit_string_end [OF assms(1,2)] assms(4) by blast
  have "stream_safe (st\<lparr>js_strings := s, js_ready := r @ [34], js_in_string := False\<rparr>)"
    using assms(1,3) e(2,3) fresh_safe [OF e(2,3)] by (simp add: stream_safe_def)
  then have closed: "safe (and_then (emit_string sj True st) close_string) stream_safe"
    using close_string_safe [of "st\<lparr>js_strings := s, js_ready := r\<rparr>"] e(1) by simp
  have chr: "safe (decoded sj c st) stream_safe"
    using decoded_safe [OF assms(1,2), of c] assms(4) by auto
  show ?thesis
    unfolding string_char_def
    by (intro safe_if) (use escaped_safe [OF assms] esc closed chr in simp_all)
qed

lemma stream_push_safe:
  assumes "stream_safe st" "encoding sj (js_json st) esc"
  shows "safe (stream_push sj c st) stream_safe"
proof -
  have plain: "safe (decoded sj c st) stream_safe" if "\<not> js_json st"
    using decoded_safe [OF assms, of c] that by auto
  have token: "safe (and_then (finish_token sj st) (structure_char c)) stream_safe" if "js_json st" "\<not> js_in_string st"
    by (rule safe_bind [OF finish_token_safe [OF assms(1)]]) (use that in \<open>simp add: structure_char_safe\<close>)
  have more: "stream_safe (st\<lparr>js_token := js_token st @ [c]\<rparr>)" if "c < 128" "str_len (js_token st) < 128"
    using assms(1) that by (simp add: stream_safe_def len_utf8_def)
  show ?thesis
    unfolding stream_push_def
    by (intro safe_if)
      (use assms plain token more string_char_safe [OF assms] structure_char_safe [OF assms(1)] in simp_all)
qed

section \<open>Any source\<close>

lemma encoding_exists: "writes sj esc \<Longrightarrow> \<exists>esc. encoding sj json esc"
  by (cases json) (auto simp: encoding_def)

lemma push_all_safe:
  assumes "writes sj esc"
  shows "stream_safe st \<Longrightarrow> safe (push_all sj s st) stream_safe"
proof (induction s arbitrary: st)
  case (Cons c s)
  obtain esc' where "encoding sj (js_json st) esc'"
    using encoding_exists [OF assms] by blast
  then have "safe (stream_push sj c st) stream_safe"
    by (rule stream_push_safe [OF Cons.prems])
  then show ?case
    using safe_bind [OF _ Cons.IH] by simp
qed simp

lemma stream_finish_safe:
  assumes "writes sj esc" "stream_safe st"
  shows "safe (stream_finish sj st) (\<lambda>_. True)"
proof -
  obtain esc' where e: "encoding sj (js_json st) esc'"
    using encoding_exists [OF assms(1)] by blast
  have "safe (finish_token sj st) (\<lambda>_. True)"
    using finish_token_safe [OF assms(2), of sj] by (auto simp: safe_def split: sum.splits)
  then have "safe (and_then (finish_token sj st) (\<lambda>st.
      if js_in_string st \<or> js_stack st \<noteq> [] \<or> \<not> js_root_done st then Inl Invalid_Json else Inr st)) (\<lambda>_. True)"
    by (rule safe_bind) simp
  moreover have "safe (emit_string sj True st) (\<lambda>_. True)" if "\<not> js_json st"
    using emit_string_end [OF assms(2) e] that by auto
  ultimately have "safe (if js_json st then and_then (finish_token sj st) (\<lambda>st.
      if js_in_string st \<or> js_stack st \<noteq> [] \<or> \<not> js_root_done st then Inl Invalid_Json else Inr st)
      else emit_string sj True st) (\<lambda>_. True)"
    by simp
  then show ?thesis
    unfolding stream_finish_def by (rule safe_bind) simp
qed

lemma strings_new_hold:
  assumes "strings_new r = Inr s"
  shows "st_hold s < SECRET_BYTES"
proof -
  let ?S = "rd_secrets r"
  have sum: "sum_list (map str_len ?S) \<le> SECRET_BYTES"
    and hold: "st_hold s = (case max_len ?S of None \<Rightarrow> 1 | Some n \<Rightarrow> n) - 1"
    using assms by (auto simp: strings_new_def Let_def split: if_splits)
  show ?thesis
  proof (cases "?S = []")
    case False
    then have "Max (set (map str_len ?S)) \<in> set (map str_len ?S)"
      by (intro Max_in) auto
    then have "Max (set (map str_len ?S)) \<le> sum_list (map str_len ?S)"
      by (rule member_le_sum_list) simp
    then have "Max (set (map str_len ?S)) \<le> SECRET_BYTES"
      using sum by (rule le_trans)
    moreover have "st_hold s = Max (set (map str_len ?S)) - 1"
      using hold False by (simp add: max_len_def)
    ultimately show ?thesis
      by linarith
  qed (use hold in \<open>simp add: max_len_def\<close>)
qed

lemma stream_new_safe:
  assumes "redactor_ok r" "stream_new json r = Inr st"
  shows "stream_safe st"
proof -
  obtain s where s: "strings_new r = Inr s" "st = \<lparr>js_json = json, js_strings = s, js_stack = [], js_root_done = False,
      js_in_string = False, js_key = False, js_escape = [], js_token = [], js_ready = [], js_done = False\<rparr>"
    using assms(2) by (cases "strings_new r") (auto simp: stream_new_def)
  show ?thesis
    using s strings_new_ok(1) [OF assms(1) s(1)] fresh_safe [OF _ strings_new_hold [OF s(1)]]
    by (simp add: stream_safe_def escape_ok_def)
qed

theorem stream_never_panics:
  assumes "redactor_ok r" "stream_new json r = Inr st" "writes sj esc"
  shows "stream_all sj s st \<noteq> Inl Panicked"
proof -
  have "safe (stream_all sj s st) (\<lambda>_. True)"
    unfolding stream_all_def
    by (rule safe_bind [OF push_all_safe [OF assms(3) stream_new_safe [OF assms(1,2)]] stream_finish_safe [OF assms(3)]])
  then show ?thesis
    by auto
qed

theorem stream_keeps_bounds:
  assumes "redactor_ok r" "stream_new json r = Inr st" "writes sj esc" "push_all sj s st = Inr st'"
  shows "str_len (st_pending (js_strings st')) < SECRET_BYTES + BLOCK \<and> length (js_stack st') \<le> 128 \<and>
           str_len (js_token st') \<le> 128 \<and> length (js_escape st') < 12"
proof -
  have "stream_safe st'"
    using push_all_safe [OF assms(3) stream_new_safe [OF assms(1,2)], of s] assms(4) by simp
  then show ?thesis
    by (auto simp: stream_safe_def strings_safe_def escape_ok_def)
qed

end
