(* ===== verification/Redaction_Safety.thy ===== *)
theory Redaction_Safety
  imports Publication Json_Document Json_Safety
begin

text \<open>
  The properties of redaction: what a redactor masks, and that publishing piece by piece (the text of an
  answer, the previews, the pages of a message) shows what redacting the whole would.
\<close>

section \<open>Redactors\<close>

text \<open>The redactors the code can build.\<close>

inductive built :: "redactor \<Rightarrow> bool" where
  Built_New: "built (redactor_new secrets)"
| Built_Additional: "built r \<Longrightarrow> built (with_additional r secrets)"
| Built_Credential: "built r \<Longrightarrow> remember_credential r value = Inr r' \<Longrightarrow> built r'"

lemma built_ok: "built r \<Longrightarrow> redactor_ok r"
  by (induction rule: built.induct) (auto intro: redactor_new_ok with_additional_ok remember_credential_ok)

definition sample_redactor :: redactor where
  "sample_redactor = with_additional (redactor_new [lit ''secret'']) [lit ''abab'']"

lemma sample_built: "built sample_redactor"
  unfolding sample_redactor_def by (intro built.intros)

text \<open>A serializer that escapes quotes and backslashes, and reads three words and the digits.\<close>

definition sample_escape :: "rchar \<Rightarrow> rstring" where
  "sample_escape c = (if c = 34 \<or> c = 92 then [92, c] else [c])"

definition sample_json :: serde_json where
  "sample_json =
     \<lparr>sj_encode = (\<lambda>s. Some (34 # concat (map sample_escape s) @ [34])),
      sj_scalar = (\<lambda>t. if t \<in> set (map lit [''null'', ''true'', ''false'']) \<or> list_all is_ascii_digit t
                       then Some True else None)\<rparr>"

lemma sample_writes: "writes sample_json sample_escape"
  by (simp add: writes_def sample_json_def)

section \<open>What a redactor masks\<close>

text \<open>
  Redaction never fails, and it masks exactly the matches of the secrets: each run of overlapping
  matches becomes one marker and everything else stays as it is. No secret comes through: the first
  character of every occurrence, also of one that overlaps another, is masked.
\<close>
lemma redaction_masks_secrets:
  assumes "built r"
  shows "redact_public_prefix r T = Some (masked (<) (spans_of r T) T) \<and>
           (\<forall>p \<in> set (current_secrets r). \<forall>x. occurs p T x \<longrightarrow> covered (spans_of r T) x)"
proof (intro conjI ballI allI impI)
  have r: "redactor_ok r"
    by (rule built_ok [OF assms])
  show "redact_public_prefix r T = Some (masked (<) (spans_of r T) T)"
    by (rule redact_exact [OF r])
  fix p x assume p: "p \<in> set (current_secrets r)" "occurs p T x"
  obtain m where "m \<in> set (matches_from 0 p T)" "m \<le> x" "x < m + str_len p"
    using occurs_matched [OF secrets_not_empty [OF r p(1)] p(2), of 0] by auto
  then have "(m, m + str_len p) \<in> spans_of r T" "m \<le> x" "x < m + str_len p"
    using p(1) by (auto simp: spans_of_iff)
  then show "covered (spans_of r T) x"
    by (auto simp: covered_def)
qed

section \<open>Publishing piece by piece\<close>

text \<open>
  However a provider cuts its answer into pieces, what is published of it, the flush at the end
  included, is the redaction of the whole answer; nothing on the way panics or fails.
\<close>
lemma answer_published_as_redacted:
  assumes "built r"
  shows "text_completed (redactor_stable r) (redact_public_prefix r) deltas = redact_public_prefix r (concat deltas) \<and>
           redact_public_prefix r (concat deltas) \<noteq> None"
  using canonical.text_completed_exact [OF built_ok [OF assms]] canonical.redacts [OF built_ok [OF assms]] by auto

text \<open>
  The preview of a reasoning block can always be made, has a bounded number of entries and bounded
  texts, and shows only what the redaction of the block begins with, whatever the provider still sends
  for it: an unfinished secret is never shown.
\<close>
lemma reasoning_previews_stay_redacted:
  assumes "built r"
  shows "\<exists>ps. reasoning_public attempt r (fold reasoning_update deltas []) = Some ps \<and> length ps \<le> MAX_BLOCKS \<and>
           (\<forall>p \<in> set ps. str_len (rv_text p) \<le> MAX_TEXT_BYTES \<and>
              (\<forall>more. \<exists>later. redact_public_prefix r (received (rv_index p, rv_kind p) (deltas @ more)) =
                 Some (rv_text p @ later)))"
proof -
  let ?m = "fold reasoning_update deltas []"
  have ok: "reasoning_ok deltas ?m"
    by (rule reasoning_ok_all)
  then have "\<forall>(k, raw, t) \<in> set ?m. \<exists>rest. received k deltas = raw @ rest"
    by (fastforce simp: reasoning_ok_def simp flip: bm_get_iff)
  moreover have "length ?m \<le> MAX_BLOCKS"
    using ok by (simp add: reasoning_ok_def)
  ultimately show ?thesis
    using reasoning_public_exact [OF built_ok [OF assms], of ?m deltas attempt] by auto
qed

text \<open>
  The preview of a tool call can always be made and shows, of the name and of the decoded arguments, only
  what their redaction begins with, within bounds, whatever still arrives; a tool that is not on the list of
  those whose arguments are public shows no argument at all; and an identity that contains a secret is left
  out.
\<close>
lemma tool_previews_stay_redacted:
  assumes "built r"
  shows "\<exists>ps. tool_public decode attempt r (fold tool_update deltas []) = Some ps \<and>
           list_all2 (tool_shown decode r) (fold tool_update deltas []) ps"
  by (rule tool_public_exact [OF built_ok [OF assms]])

section \<open>The public-message stream\<close>

text \<open>
  A plain text that is read page by page is published with every occurrence of every secret masked,
  overlapping ones included, each run of them as one marker, however long the text is and wherever the
  stream cuts it.
\<close>
lemma streamed_text_masks_everything:
  assumes "built r" "stream_new False r = Inr st"
  shows "\<exists>st'. stream_all sj T st = Inr st' \<and> js_done st' \<and>
           js_ready st' = masked (\<le>) (secret_occurrences (rd_secrets r) T) T"
  using text_stream_exact [OF built_ok [OF assms(1)] assms(2)] by (simp add: redacted_def)

text \<open>
  C29. Whatever secrets a redactor was built with, a JSON document that the public-message stream reads is published
  as it is, except that the content of every value string is masked as a whole text would be (each run of
  occurrences of secrets, overlapping or touching, becomes one marker) before it is encoded again: escapes,
  surrogate pairs and the blocks of the stream make no difference, keys keep their content, white space, numbers and
  words stay as they are, and the document ends complete. The document may be of any length and is nested at most 128
  deep, with numbers and words of at most 128 characters that serde_json reads; serde_json writes a string between
  quotes, character by character.
\<close>
theorem streamed_document_redacts_values:
  assumes "built r" "stream_new True r = Inr st" "writes sj esc"
    "spaces v" "json_val sj esc (rd_secrets r) 128 x p" "spaces w"
  shows "\<exists>st'. stream_all sj (v @ x @ w) st = Inr st' \<and> js_done st' \<and> js_ready st' = v @ p @ w"
  by (rule document_stream_exact [OF built_ok [OF assms(1)] assms(2-6)])

text \<open>A value that is a secret.\<close>

lemma redacted_secret:
  assumes "p \<in> set S" "p \<noteq> []"
  shows "redacted S p = marker"
proof -
  have "occurs p p 0"
    unfolding occurs_def by (intro exI [of _ "[]"]) simp
  then have "covered (secret_occurrences S p) x" if "x < str_len p" for x
    unfolding secret_occurrences_iff by (intro bexI [OF _ assms(1)] exI [of _ 0]) (use that in simp)
  then show ?thesis
    unfolding redacted_def masked_def by (intro mask_run assms(2)) (auto simp: unbroken_le)
qed

text \<open>The document \<open>{"k":["\u0073ecret",1]}\<close>.\<close>

definition sample_document :: rstring where
  "sample_document = lit ''{\"k\":[\"'' @ [92] @ lit ''u0073ecret\",1]}''"

lemma sample_body: "json_body ([92] @ lit ''u0073ecret'') (lit ''secret'')"
proof -
  have rest: "json_body (lit ''ecret'') (lit ''ecret'')"
    by (simp add: lit_def json_body.intros)
  have h: "hex4 (lit ''0073'')" "hex_value (lit ''0073'') = 115"
    by code_simp+
  then have "json_body (92 # 117 # lit ''0073'' @ lit ''ecret'') (hex_value (lit ''0073'') # lit ''ecret'')"
    by (intro Body_Unicode rest) simp_all
  then show ?thesis
    using h(2) by (simp add: lit_def)
qed

lemma sample_value:
  "json_val sample_json sample_escape [lit ''secret''] 128 sample_document (lit ''{\"k\":[\"[REDACTED]\",1]}'')"
proof -
  have key: "json_body (lit ''k'') (lit ''k'')"
    by (simp add: lit_def json_body.intros)
  have one: "json_val sample_json sample_escape [lit ''secret''] d (lit ''1'') (lit ''1'')" for d
    by (rule Val_Scalar) code_simp
  have "concat (map sample_escape (redacted [lit ''secret''] (lit ''secret''))) = lit ''[REDACTED]''"
    by (simp add: redacted_secret lit_def marker_def sample_escape_def)
  then have str: "json_val sample_json sample_escape [lit ''secret''] d
      (34 # ([92] @ lit ''u0073ecret'') @ [34]) (34 # lit ''[REDACTED]'' @ [34])" for d
    using Val_String [OF sample_body, of sample_json sample_escape "[lit ''secret'']" d] by simp
  have sp: "spaces []"
    by (simp add: spaces_def)
  note items = Items_More [OF sp str sp Items_One [OF sp one sp]]
  note arr = Val_Array [OF items]
  note members = Members_One [OF sp key sp sp arr sp]
  have "json_val sample_json sample_escape [lit ''secret''] (Suc 127) sample_document (lit ''{\"k\":[\"[REDACTED]\",1]}'')"
    using Val_Object [OF members, of 126] by (simp add: sample_document_def lit_def sample_escape_def)
  then show ?thesis by simp
qed

theorem streamed_document_redacts_values_witness:
  "\<exists>st st'. stream_new True (redactor_new [lit ''secret'']) = Inr st \<and>
     stream_all sample_json sample_document st = Inr st' \<and> js_done st' \<and>
     js_ready st' = lit ''{\"k\":[\"[REDACTED]\",1]}''"
proof -
  obtain st where st: "stream_new True (redactor_new [lit ''secret'']) = Inr st"
    by (simp add: stream_new_def strings_new_def redactor_new_def lit_def len_utf8_def)
  have "rd_secrets (redactor_new [lit ''secret'']) = [lit ''secret'']"
    by (simp add: redactor_new_def lit_def len_utf8_def)
  then have "\<exists>st'. stream_all sample_json ([] @ sample_document @ []) st = Inr st' \<and> js_done st' \<and>
      js_ready st' = [] @ lit ''{\"k\":[\"[REDACTED]\",1]}'' @ []"
    using streamed_document_redacts_values [OF Built_New st sample_writes, of "[]" sample_document _ "[]"] sample_value
    by (simp add: spaces_def)
  then show ?thesis
    using st by auto
qed

text \<open>
  On any source, well formed or not, the stream ends with a refusal or with what it published; it never
  panics. At every point of the source it holds less than a block more than the secrets may take together,
  at most 128 open brackets, 128 bytes of a token and eleven characters of an escape.
\<close>
lemma stream_safe_on_any_source:
  assumes "built r" "stream_new json r = Inr st" "writes sj esc"
  shows "stream_all sj T st \<noteq> Inl Panicked \<and>
           (case push_all sj T st of Inl e \<Rightarrow> e = Invalid_Json
            | Inr st' \<Rightarrow> str_len (st_pending (js_strings st')) < SECRET_BYTES + BLOCK \<and>
                length (js_stack st') \<le> 128 \<and> str_len (js_token st') \<le> 128 \<and> length (js_escape st') < 12)"
proof -
  have r: "redactor_ok r"
    by (rule built_ok [OF assms(1)])
  have "safe (push_all sj T st) stream_safe"
    by (rule push_all_safe [OF assms(3) stream_new_safe [OF r assms(2)]])
  then show ?thesis
    using stream_never_panics [OF r assms(2,3)] stream_keeps_bounds [OF r assms(2,3)]
    by (auto simp: safe_def split: sum.splits)
qed

section \<open>Where the two ways of masking differ\<close>

text \<open>
  \<open>Redactor::redact\<close> looks for matches of a secret that do not overlap one another, \<open>Strings::emit\<close> for every
  occurrence: of a text in which a secret overlaps itself, the first leaves the tail of the second occurrence.
\<close>

lemma canonical_redaction_keeps_tail:
  "redact_public_prefix (redactor_new [lit ''ababa'']) (lit ''abababa'') = Some (lit ''[REDACTED]ba'')"
  "redacted [lit ''ababa''] (lit ''abababa'') = lit ''[REDACTED]''"
proof -
  show "redact_public_prefix (redactor_new [lit ''ababa'']) (lit ''abababa'') = Some (lit ''[REDACTED]ba'')"
    by code_simp
  have "occurs (lit ''ababa'') (lit ''abababa'') 0" "occurs (lit ''ababa'') (lit ''abababa'') 2"
    unfolding occurs_def
    by (intro exI [of _ "[]"] exI [of _ "lit ''ba''"]; simp add: lit_def)
      (intro exI [of _ "lit ''ab''"] exI [of _ "[]"]; simp add: lit_def len_utf8_def)
  moreover have "str_len (lit ''ababa'') = 5" "str_len (lit ''abababa'') = 7"
    by (simp_all add: lit_def len_utf8_def)
  ultimately have "covered (secret_occurrences [lit ''ababa''] (lit ''abababa'')) x" if "x < 7" for x
    using that unfolding secret_occurrences_iff by (cases "x < 5") force+
  then show "redacted [lit ''ababa''] (lit ''abababa'') = lit ''[REDACTED]''"
    unfolding redacted_def masked_def marker_def [symmetric]
    by (intro mask_run) (auto simp: unbroken_le lit_def len_utf8_def)
qed

end
