(* ===== verification/Working_Context.thy ===== *)
theory Working_Context
  imports Messages
begin

text \<open>
  The working context (\<open>voyage/src/context/working.rs\<close>): reductions of the messages sent to a provider that
  leave the conversation itself as it is. A reduction replaces a range of the spoken messages (those
  that are not system messages) by one message and is bound to the range by fingerprints.

  Serialised sizes, digests and the JSON texts that go into a replacement are functions of a record.
  \<open>reduce\<close> works on a copy and keeps it only when the projected request gets smaller.
\<close>

section \<open>State\<close>

datatype compaction_reason = Manual | Preparation | ProviderRejection

record reduction =
  re_start :: nat
  re_fingerprints :: "rstring list"
  re_replacement :: message

record working_context =
  wc_generation :: nat
  wc_reason :: "compaction_reason option"
  wc_entries :: "reduction list"

record encoder =
  en_message_size :: "message \<Rightarrow> nat"
  en_output_size :: "tool_output \<Rightarrow> nat"
  en_hash :: "message \<Rightarrow> rstring"
  en_argument_digest :: "json \<Rightarrow> rstring"
  en_output_json :: "tool_output \<Rightarrow> json"
  en_outcome_json :: "tool_outcome \<Rightarrow> json"
  en_artifact_json :: "artifact_reference \<Rightarrow> json"

datatype context_error =
  Bad_Range | Range_Overflow | No_Longer_Matches | Bad_Fingerprint | Carries_State | Replaces_Instructions |
  Omits_Task | Changed_Identity | Split_Group | Bad_Summary | Generation_Overflow

abbreviation prepare_bytes :: nat where "prepare_bytes \<equiv> 196608"

definition excerpt_limits :: "nat list" where
  "excerpt_limits = [4096, 1024, 256]"

text \<open>The fingerprint leaves the provider state out.\<close>

definition fingerprint :: "encoder \<Rightarrow> message \<Rightarrow> rstring" where
  "fingerprint en m = en_hash en (clear_state m)"

definition size_all :: "encoder \<Rightarrow> message list \<Rightarrow> nat" where
  "size_all en ms = array_size (map (en_message_size en) ms)"

section \<open>Groups of tool calls\<close>

text \<open>The results that follow a message with tool calls: one for every call, each with an outcome.\<close>

fun group_results :: "message list \<Rightarrow> rstring set \<Rightarrow> bool" where
  "group_results [] expected = (expected = {})"
| "group_results (m # ms) expected =
     (m_role m = Tool \<and> is_some_and (m_tool_call_id m) (\<lambda>i. i \<in> expected) \<and> m_tool_success m \<noteq> None \<and>
      group_results ms (expected - {the (m_tool_call_id m)}))"

definition complete_group :: "message list \<Rightarrow> nat \<Rightarrow> nat option" where
  "complete_group ms start =
     (if length ms \<le> start then None
      else let first = ms ! start; calls = map tc_id (m_tool_calls first) in
        if m_role first \<noteq> Assistant \<or> calls = [] then None
        else if \<not> distinct calls then None
        else let stop = start + 1 + card (set calls) in
          if length ms < stop then None
          else if group_results (take (stop - (start + 1)) (drop (start + 1) ms)) (set calls)
            then Some stop else None)"

section \<open>Validation\<close>

abbreviation slice :: "'a list \<Rightarrow> nat \<Rightarrow> nat \<Rightarrow> 'a list" where
  "slice xs i j \<equiv> take (j - i) (drop i xs)"

definition validate_entry :: "encoder \<Rightarrow> message list \<Rightarrow> nat \<Rightarrow> reduction \<Rightarrow> (context_error, nat) result" where
  "validate_entry en ms previous e =
     (if re_fingerprints e = [] \<or> re_start e < previous then Inl Bad_Range
      else let stop = re_start e + length (re_fingerprints e); r = re_replacement e in
        if usize_max < stop then Inl Range_Overflow
        else if length ms < stop then Inl No_Longer_Matches
        else if \<not> list_all (\<lambda>(m, hash). fingerprint en m = hash) (zip (slice ms (re_start e) stop) (re_fingerprints e))
          then Inl Bad_Fingerprint
        else if m_provider_state r \<noteq> None then Inl Carries_State
        else if m_role r = User \<or> m_role r = System then Inl Replaces_Instructions
        else if list_ex (\<lambda>m. m_role m = User) (slice ms (re_start e) stop) then Inl Omits_Task
        else if length (re_fingerprints e) = 1 then
          (let original = ms ! re_start e in
           if m_role r = m_role original \<and> m_tool_call_id r = m_tool_call_id original \<and>
              m_tool_success r = m_tool_success original \<and> m_tool_outcome r = m_tool_outcome original \<and>
              m_tool_calls r = m_tool_calls original
           then Inr stop else Inl Changed_Identity)
        else if complete_group ms (re_start e) \<noteq> Some stop then Inl Split_Group
        else if m_role r \<noteq> Assistant \<or> m_tool_calls r \<noteq> [] then Inl Bad_Summary
        else Inr stop)"

fun validate_reductions :: "encoder \<Rightarrow> message list \<Rightarrow> nat \<Rightarrow> reduction list \<Rightarrow> (context_error, unit) result" where
  "validate_reductions en ms previous [] = Inr ()"
| "validate_reductions en ms previous (e # es) =
     and_then (validate_entry en ms previous e) (\<lambda>stop. validate_reductions en ms stop es)"

definition validate_context :: "encoder \<Rightarrow> message list \<Rightarrow> working_context \<Rightarrow> (context_error, unit) result" where
  "validate_context en canonical w = validate_reductions en (spoken canonical) 0 (wc_entries w)"

section \<open>Projection\<close>

fun project_loop :: "reduction list \<Rightarrow> nat \<Rightarrow> nat \<Rightarrow> message list \<Rightarrow> message list" where
  "project_loop es ordinal skip [] = []"
| "project_loop es ordinal skip (m # ms) =
     (if m_role m = System then m # project_loop es ordinal skip ms
      else if skip \<le> ordinal then
        (case es of
           e # es' \<Rightarrow>
             if re_start e = ordinal
             then re_replacement e # project_loop es' (ordinal + 1) (ordinal + length (re_fingerprints e)) ms
             else m # project_loop es (ordinal + 1) skip ms
         | [] \<Rightarrow> m # project_loop es (ordinal + 1) skip ms)
      else project_loop es (ordinal + 1) skip ms)"

definition project :: "encoder \<Rightarrow> message list \<Rightarrow> working_context \<Rightarrow> (context_error, message list) result" where
  "project en canonical w =
     and_then (validate_context en canonical w) (\<lambda>_.
       if wc_entries w = [] then Inr canonical
       else Inr (map clear_state (project_loop (wc_entries w) 0 0 canonical)))"

section \<open>Excerpts\<close>

definition protected_prefixes :: "rstring list" where
  "protected_prefixes = map lit [''decision:'', ''constraint:'', ''must '', ''do not '', ''next:'', ''blocked:'',
     ''verified:'', ''error:'', ''warning:'', ''todo:'']"

definition protected_line :: "rstring \<Rightarrow> bool" where
  "protected_line line =
     (let lower = to_ascii_lowercase (dropWhile (\<lambda>c. is_whitespace c \<or> c \<in> set (lit ''-*#'')) line)
      in list_ex (starts_with lower) protected_prefixes)"

function ceil_boundary :: "rstring \<Rightarrow> nat \<Rightarrow> nat" where
  "ceil_boundary s n = (if is_char_boundary s n \<or> str_len s \<le> n then n else ceil_boundary s (n + 1))"
  by pat_completeness auto

termination ceil_boundary
  by (relation "measure (\<lambda>(s, n). str_len s - n)") auto

declare ceil_boundary.simps [simp del]

definition bytes_to :: "rstring \<Rightarrow> nat \<Rightarrow> rstring" where
  "bytes_to s n = (case split_at n s of Some (a, _) \<Rightarrow> a | None \<Rightarrow> [])"

definition bytes_from :: "rstring \<Rightarrow> nat \<Rightarrow> rstring" where
  "bytes_from s n = (case split_at n s of Some (_, b) \<Rightarrow> b | None \<Rightarrow> [])"

definition excerpt :: "rstring \<Rightarrow> nat \<Rightarrow> rstring" where
  "excerpt s limit =
     (if str_len s \<le> limit then s
      else let kept = join [10] (filter protected_line (str_lines s)) in
        if limit \<le> str_len kept then s
        else let remaining = limit - str_len kept;
                 head = floor_boundary s (remaining div 2);
                 tail = ceil_boundary s (str_len s - remaining div 2);
                 note = (if kept = [] then [] else
                   10 # lit ''[Retained explicit decision/constraint/outcome lines]'' @ [10] @ kept)
             in bytes_to s head @ [10] @ lit ''[... middle omitted; consult canonical history ...]'' @ note @
                [10] @ bytes_from s tail)"

definition references :: "encoder \<Rightarrow> message \<Rightarrow> rstring" where
  "references en m = (case m_tool_output m of
     None \<Rightarrow> []
   | Some out \<Rightarrow> concat (map (\<lambda>a. 10 # lit ''Retained artifact reference (tool-evidence MIME supports result read/search by id): '' @
        en_artifact_json en a) (artifacts out)))"

section \<open>Reductions\<close>

definition show_success :: "bool option \<Rightarrow> rstring" where
  "show_success b = lit (case b of None \<Rightarrow> ''None'' | Some True \<Rightarrow> ''Some(true)'' | Some False \<Rightarrow> ''Some(false)'')"

definition summary_item :: "encoder \<Rightarrow> nat \<Rightarrow> message \<Rightarrow> rstring" where
  "summary_item en limit m =
     concat (map (\<lambda>c. lit ''Call '' @ tc_id c @ lit '': '' @ tc_name c @ lit '' (arguments SHA-256 '' @
         en_argument_digest en (tc_arguments c) @ lit '').'' @ [10]) (m_tool_calls m)) @
     (if m_role m = Tool then
        lit ''Untrusted result data '' @ (case m_tool_call_id m of Some i \<Rightarrow> i | None \<Rightarrow> lit ''unknown'') @
        lit '' success='' @ show_success (m_tool_success m) @ lit '': '' @ excerpt (m_content m) limit @ [10] @
        references en m @
        (case m_tool_outcome m of None \<Rightarrow> [] | Some oc \<Rightarrow> lit ''Recorded outcome: '' @ en_outcome_json en oc @ [10])
      else if m_content m \<noteq> [] then lit ''Assistant: '' @ m_content m @ [10] else [])"

definition group_replacement :: "encoder \<Rightarrow> nat \<Rightarrow> message list \<Rightarrow> nat \<Rightarrow> nat \<Rightarrow> message" where
  "group_replacement en limit ms i stop =
     (message_new Assistant
       (lit ''[Extractive working-context record for canonical non-system message ordinals '' @ decimal i @ lit ''..'' @
        decimal stop @ lit ''. These calls have recorded results; do not repeat them to reconstruct history. Full original arguments/results remain in canonical history.]'' @ [10] @
        concat (map (summary_item en limit) (slice ms i stop))) 0)\<lparr>m_created_at := m_created_at (ms ! i)\<rparr>"

definition single_replacement :: "encoder \<Rightarrow> nat \<Rightarrow> message list \<Rightarrow> nat \<Rightarrow> message" where
  "single_replacement en limit ms i =
     (let m = ms ! i;
          original = (case m_tool_output m of
             Some out \<Rightarrow> m_content m @ [10] @ lit ''Typed result: '' @ en_output_json en out
           | None \<Rightarrow> m_content m)
      in m\<lparr>m_content := lit ''[Extractive working context; canonical non-system message ordinal '' @ decimal i @ lit '', SHA-256 '' @
             fingerprint en m @ lit ''. Full text and artifacts retained in canonical history; omitted text is unknown, not success. Do not repeat completed effects to retrieve it.]'' @ [10] @
             excerpt original limit @ references en m,
           m_tool_output := None, m_parts := [], m_image_data := [], m_provider_state := None\<rparr>)"

definition candidate :: "encoder \<Rightarrow> message list \<Rightarrow> nat \<Rightarrow> nat \<Rightarrow> bool \<Rightarrow> nat \<Rightarrow> (nat \<times> message) option" where
  "candidate en ms before limit groups i =
     (case (if groups then (case complete_group ms i of Some stop \<Rightarrow> if stop \<le> before then Some stop else None
                            | None \<Rightarrow> None) else None) of
        Some stop \<Rightarrow> Some (stop, group_replacement en limit ms i stop)
      | None \<Rightarrow>
          let m = ms ! i in
          if m_role m \<in> {Assistant, Tool} \<and>
             (limit * 2 < str_len (m_content m) \<or> is_some_and (m_tool_output m) (\<lambda>out. limit * 2 < en_output_size en out))
          then Some (i + 1, single_replacement en limit ms i) else None)"

abbreviation re_stop :: "reduction \<Rightarrow> nat" where
  "re_stop e \<equiv> re_start e + length (re_fingerprints e)"

definition old_size :: "encoder \<Rightarrow> message list \<Rightarrow> reduction list \<Rightarrow> nat \<Rightarrow> nat \<Rightarrow> nat" where
  "old_size en ms overlaps i stop =
     (case overlaps of
        [e] \<Rightarrow> if re_start e = i \<and> length (re_fingerprints e) = stop - i
               then en_message_size en (re_replacement e) else size_all en (slice ms i stop)
      | _ \<Rightarrow> size_all en (slice ms i stop))"

definition add_reduction :: "encoder \<Rightarrow> message list \<Rightarrow> nat \<Rightarrow> nat \<Rightarrow> message \<Rightarrow> reduction list \<times> nat \<Rightarrow>
    reduction list \<times> nat" where
  "add_reduction en ms i stop replacement acc =
     (let (entries, changed) = acc;
          overlaps = filter (\<lambda>e. re_start e < stop \<and> i < re_stop e) entries in
      if list_ex (\<lambda>e. re_start e < i \<or> stop < re_stop e) overlaps then (entries, changed)
      else if old_size en ms overlaps i stop \<le> sat_add (en_message_size en replacement) 128 then (entries, changed)
      else (filter (\<lambda>e. \<not> (i \<le> re_start e \<and> re_start e < stop)) entries @
              [\<lparr>re_start = i, re_fingerprints = map (fingerprint en) (slice ms i stop), re_replacement = replacement\<rparr>],
            changed + (stop - i)))"

lemma complete_group_bounds:
  "complete_group ms i = Some stop \<Longrightarrow> i + 1 < stop \<and> stop \<le> length ms"
  by (auto simp: complete_group_def Let_def card_gt_0_iff split: if_splits)

lemma candidate_bounds: "candidate en ms before limit groups i = Some (stop, r) \<Longrightarrow> i < stop"
  by (auto simp: candidate_def Let_def dest!: complete_group_bounds split: option.splits if_splits)

function reduce_loop :: "encoder \<Rightarrow> message list \<Rightarrow> nat \<Rightarrow> nat \<Rightarrow> bool \<Rightarrow> nat \<Rightarrow> reduction list \<times> nat \<Rightarrow>
    reduction list \<times> nat" where
  "reduce_loop en ms before limit groups i acc =
     (if i < before then
        (case candidate en ms before limit groups i of
           None \<Rightarrow> reduce_loop en ms before limit groups (i + 1) acc
         | Some (stop, replacement) \<Rightarrow>
             reduce_loop en ms before limit groups stop (add_reduction en ms i stop replacement acc))
      else acc)"
  by pat_completeness auto

termination reduce_loop
proof (relation "measure (\<lambda>(_, _, before, _, _, i, _). before - i)", simp, simp, goal_cases)
  case (1 en ms before limit groups i acc x stop r)
  then show ?case using candidate_bounds [of en ms before limit groups i stop r] by auto
qed

declare reduce_loop.simps [simp del]

definition reduce :: "encoder \<Rightarrow> message list \<Rightarrow> nat \<Rightarrow> nat \<Rightarrow> bool \<Rightarrow> working_context \<Rightarrow>
    (context_error, nat \<times> working_context) result" where
  "reduce en canonical before limit groups w =
     and_then (validate_context en canonical w) (\<lambda>_.
     and_then (project en canonical w) (\<lambda>old_projection.
     let (entries, changed) = reduce_loop en (spoken canonical) before limit groups 0 (wc_entries w, 0);
         next_w = w\<lparr>wc_entries := sort_key re_start entries\<rparr> in
     and_then (validate_context en canonical next_w) (\<lambda>_.
     and_then (project en canonical next_w) (\<lambda>projected.
     if changed = 0 \<or> size_all en old_projection \<le> sat_add (size_all en projected) 128 then Inr (0, w)
     else and_then (ok_or Generation_Overflow (checked_add_u64 (wc_generation w) 1)) (\<lambda>g.
       Inr (changed, next_w\<lparr>wc_generation := g\<rparr>))))))"

definition compact :: "encoder \<Rightarrow> message list \<Rightarrow> nat \<Rightarrow> working_context \<Rightarrow>
    (context_error, nat \<times> working_context) result" where
  "compact en canonical retain w =
     and_then (reduce en canonical (sat_sub (length (spoken canonical)) retain) 1024 True w) (\<lambda>(changed, w').
       Inr (changed, if 0 < changed then w'\<lparr>wc_reason := Some Manual\<rparr> else w'))"

definition saved_evidence :: "rstring \<Rightarrow> message \<Rightarrow> artifact_reference option" where
  "saved_evidence mime m =
     (case m_tool_output m of None \<Rightarrow> None | Some out \<Rightarrow> find (\<lambda>a. af_mime_type a = mime) (artifacts out))"

definition evidence_mime :: rstring where
  "evidence_mime = lit ''application/vnd.helm.tool-evidence+json''"

definition evidence_replacement :: "encoder \<Rightarrow> (uuid \<Rightarrow> rstring) \<Rightarrow> message \<Rightarrow> artifact_reference \<Rightarrow> message" where
  "evidence_replacement en show_id m a =
     m\<lparr>m_content := lit ''[Saved redacted tool evidence; omitted content is unknown, not success. Never rerun the tool to recover it. Use result action=read id='' @
         show_id (af_id a) @ lit '' offset=0 limit=4096, or action=search with a literal query. Canonical message SHA-256 '' @
         fingerprint en m @ lit ''.]'' @ [10] @ excerpt (m_content m) 2048 @ references en m,
       m_tool_output := None, m_provider_state := None\<rparr>"

fun saved_loop :: "encoder \<Rightarrow> (uuid \<Rightarrow> rstring) \<Rightarrow> nat \<Rightarrow> message list \<Rightarrow> reduction list \<times> nat \<Rightarrow>
    reduction list \<times> nat" where
  "saved_loop en show_id i [] acc = acc"
| "saved_loop en show_id i (m # ms) (entries, changed) =
     saved_loop en show_id (i + 1) ms
       (if m_role m \<noteq> Tool \<or> str_len (m_content m) \<le> 8192 \<or>
           list_ex (\<lambda>e. re_start e \<le> i \<and> i < re_stop e) entries then (entries, changed)
        else case saved_evidence evidence_mime m of
          None \<Rightarrow> (entries, changed)
        | Some a \<Rightarrow> (entries @ [\<lparr>re_start = i, re_fingerprints = [fingerprint en m],
             re_replacement = evidence_replacement en show_id m a\<rparr>], changed + 1))"

definition reduce_saved_results :: "encoder \<Rightarrow> (uuid \<Rightarrow> rstring) \<Rightarrow> message list \<Rightarrow> working_context \<Rightarrow>
    (context_error, nat \<times> working_context) result" where
  "reduce_saved_results en show_id canonical w =
     and_then (validate_context en canonical w) (\<lambda>_.
     let (entries, changed) = saved_loop en show_id 0 (spoken canonical) (wc_entries w, 0);
         w' = (if 0 < changed
               then w\<lparr>wc_entries := sort_key re_start entries, wc_generation := sat_add (wc_generation w) 1,
                      wc_reason := Some Preparation\<rparr>
               else w) in
     and_then (validate_context en canonical w') (\<lambda>_. Inr (changed, w')))"

definition prepare_context :: "encoder \<Rightarrow> (uuid \<Rightarrow> rstring) \<Rightarrow> message list \<Rightarrow> working_context \<Rightarrow>
    (context_error, nat \<times> working_context) result" where
  "prepare_context en show_id canonical w =
     and_then (reduce_saved_results en show_id canonical w) (\<lambda>(saved, w).
     and_then (project en canonical w) (\<lambda>projected.
     if size_all en projected \<le> prepare_bytes then Inr (saved, w)
     else and_then (reduce en canonical (length (spoken canonical)) (excerpt_limits ! 0) False w) (\<lambda>(changed, w').
       Inr (changed + saved, if 0 < changed then w'\<lparr>wc_reason := Some Preparation\<rparr> else w'))))"

definition recover_context :: "encoder \<Rightarrow> message list \<Rightarrow> nat \<Rightarrow> working_context \<Rightarrow>
    (context_error, nat \<times> working_context) result" where
  "recover_context en canonical attempt w =
     and_then (if attempt \<le> 2 then reduce en canonical (length (spoken canonical)) (excerpt_limits ! attempt) False w
               else if attempt = 3 then reduce en canonical (length (spoken canonical)) (excerpt_limits ! 2) True w
               else Inr (0, w)) (\<lambda>(changed, w').
       Inr (changed, if 0 < changed then w'\<lparr>wc_reason := Some ProviderRejection\<rparr> else w'))"

section \<open>What validation means\<close>

definition entry_ok :: "encoder \<Rightarrow> message list \<Rightarrow> reduction \<Rightarrow> bool" where
  "entry_ok en ms e \<longleftrightarrow> re_fingerprints e \<noteq> [] \<and> re_stop e \<le> length ms \<and>
     re_fingerprints e = map (fingerprint en) (slice ms (re_start e) (re_stop e)) \<and>
     m_provider_state (re_replacement e) = None \<and> m_role (re_replacement e) \<notin> {User, System} \<and>
     (\<forall>m \<in> set (slice ms (re_start e) (re_stop e)). m_role m \<noteq> User) \<and>
     (if length (re_fingerprints e) = 1
      then m_role (re_replacement e) = m_role (ms ! re_start e) \<and>
           m_tool_call_id (re_replacement e) = m_tool_call_id (ms ! re_start e) \<and>
           m_tool_success (re_replacement e) = m_tool_success (ms ! re_start e) \<and>
           m_tool_outcome (re_replacement e) = m_tool_outcome (ms ! re_start e) \<and>
           m_tool_calls (re_replacement e) = m_tool_calls (ms ! re_start e)
      else complete_group ms (re_start e) = Some (re_stop e) \<and>
           m_role (re_replacement e) = Assistant \<and> m_tool_calls (re_replacement e) = [])"

definition ordered_from :: "nat \<Rightarrow> reduction list \<Rightarrow> bool" where
  "ordered_from n es \<longleftrightarrow> (\<forall>e \<in> set es. n \<le> re_start e) \<and> sorted_wrt (\<lambda>a b. re_stop a \<le> re_start b) es"

lemma ordered_from_Cons:
  "ordered_from n (e # es) \<longleftrightarrow> n \<le> re_start e \<and> ordered_from (re_stop e) es"
  by (auto simp: ordered_from_def)

lemma zip_all_map:
  "length xs = length ys \<Longrightarrow> list_all (\<lambda>(x, y). f x = y) (zip xs ys) \<longleftrightarrow> ys = map f xs"
  by (induction xs ys rule: list_induct2) auto

lemma validate_entry_Inr:
  assumes "length ms \<le> usize_max"
  shows "validate_entry en ms n e = Inr stop \<longleftrightarrow> entry_ok en ms e \<and> n \<le> re_start e \<and> stop = re_stop e"
proof (cases "re_stop e \<le> length ms")
  case True
  then have "length (slice ms (re_start e) (re_stop e)) = length (re_fingerprints e)" by simp
  from zip_all_map [OF this, of "fingerprint en"]
  have z: "list_all (\<lambda>(m, hash). fingerprint en m = hash)
      (zip (slice ms (re_start e) (re_stop e)) (re_fingerprints e)) \<longleftrightarrow>
    re_fingerprints e = map (fingerprint en) (slice ms (re_start e) (re_stop e))" .
  show ?thesis
    unfolding validate_entry_def entry_ok_def Let_def z if_Inl_Inr list_ex_iff
    using True assms by auto
next
  case False
  then show ?thesis by (auto simp: validate_entry_def entry_ok_def Let_def)
qed

lemma validate_reductions_Inr:
  assumes "length ms \<le> usize_max"
  shows "validate_reductions en ms n es = Inr () \<longleftrightarrow> (\<forall>e \<in> set es. entry_ok en ms e) \<and> ordered_from n es"
proof (induction es arbitrary: n)
  case Nil
  then show ?case by (simp add: ordered_from_def)
next
  case (Cons e es)
  then show ?case
    by (auto simp: and_then_Inr validate_entry_Inr [OF assms] ordered_from_Cons)
qed

definition context_ok :: "encoder \<Rightarrow> message list \<Rightarrow> working_context \<Rightarrow> bool" where
  "context_ok en canonical w \<longleftrightarrow>
     (\<forall>e \<in> set (wc_entries w). entry_ok en (spoken canonical) e) \<and> ordered_from 0 (wc_entries w)"

lemma length_spoken: "length (spoken ms) \<le> length ms"
  by (simp add: spoken_def)

lemma validate_context_Inr:
  "length canonical \<le> usize_max \<Longrightarrow> validate_context en canonical w = Inr () \<longleftrightarrow> context_ok en canonical w"
  unfolding validate_context_def context_ok_def
  using length_spoken [of canonical] by (intro validate_reductions_Inr) simp

section \<open>Reductions stay valid\<close>

definition apart :: "reduction \<Rightarrow> reduction \<Rightarrow> bool" where
  "apart a b \<longleftrightarrow> re_stop a \<le> re_start b \<or> re_stop b \<le> re_start a"

definition entries_ok :: "encoder \<Rightarrow> message list \<Rightarrow> reduction list \<Rightarrow> bool" where
  "entries_ok en ms es \<longleftrightarrow> distinct es \<and> (\<forall>e \<in> set es. entry_ok en ms e) \<and>
     (\<forall>a \<in> set es. \<forall>b \<in> set es. a \<noteq> b \<longrightarrow> apart a b)"

lemma entry_nonempty: "entry_ok en ms e \<Longrightarrow> re_start e < re_stop e"
  by (simp add: entry_ok_def)

lemma entries_ok_ordered:
  assumes "\<forall>e \<in> set es. entry_ok en ms e" "ordered_from n es"
  shows "entries_ok en ms es"
  using assms
proof (induction es arbitrary: n)
  case Nil
  then show ?case by (simp add: entries_ok_def)
next
  case (Cons e es)
  then have ok: "entries_ok en ms es" and after: "\<forall>x \<in> set es. re_stop e \<le> re_start x"
    by (auto simp: ordered_from_def)
  moreover have "e \<notin> set es" using after entry_nonempty [of en ms e] Cons.prems(1) by fastforce
  ultimately show ?case using Cons.prems(1) by (auto simp: entries_ok_def apart_def)
qed

lemma ordered_of_sorted:
  assumes "distinct es" "\<forall>a \<in> set es. \<forall>b \<in> set es. a \<noteq> b \<longrightarrow> apart a b" "\<forall>e \<in> set es. entry_ok en ms e"
    "sorted_wrt (\<lambda>a b. re_start a \<le> re_start b) es"
  shows "sorted_wrt (\<lambda>a b. re_stop a \<le> re_start b) es"
  using assms
proof (induction es)
  case (Cons x xs)
  have "re_stop x \<le> re_start y" if "y \<in> set xs" for y
  proof -
    have "apart x y" "re_start x \<le> re_start y" "re_start y < re_stop y"
      using Cons.prems that entry_nonempty [of en ms y] by auto
    then show ?thesis by (auto simp: apart_def)
  qed
  with Cons show ?case by simp
qed simp

lemma sort_entries_ordered:
  assumes "entries_ok en ms es"
  shows "(\<forall>e \<in> set (sort_key re_start es). entry_ok en ms e) \<and> ordered_from 0 (sort_key re_start es)"
proof -
  have "sorted_wrt (\<lambda>a b. re_start a \<le> re_start b) (sort_key re_start es)"
    using sorted_sort_key [of re_start es] by (simp add: sorted_map)
  with assms have "sorted_wrt (\<lambda>a b. re_stop a \<le> re_start b) (sort_key re_start es)"
    by (intro ordered_of_sorted [of _ en ms]) (auto simp: entries_ok_def)
  with assms show ?thesis by (simp add: ordered_from_def entries_ok_def)
qed

text \<open>Adding one checked reduction.\<close>

lemma entries_ok_add:
  assumes ok: "entries_ok en ms es" and new: "entry_ok en ms n"
    and inside: "\<forall>e \<in> set es. re_start e < re_stop n \<and> re_start n < re_stop e \<longrightarrow>
      re_start n \<le> re_start e \<and> re_stop e \<le> re_stop n"
  shows "entries_ok en ms (filter (\<lambda>e. \<not> (re_start n \<le> re_start e \<and> re_start e < re_stop n)) es @ [n])"
proof -
  have "apart e n" "e \<noteq> n" if "e \<in> set es" "\<not> (re_start n \<le> re_start e \<and> re_start e < re_stop n)" for e
    using inside that entry_nonempty [OF new] by (auto simp: apart_def)
  then show ?thesis
    using ok new entry_nonempty [OF new] by (auto simp: entries_ok_def apart_def)
qed

lemma group_results_roles: "group_results ms expected \<Longrightarrow> m \<in> set ms \<Longrightarrow> m_role m = Tool"
  by (induction ms expected rule: group_results.induct) auto

lemma complete_group_first:
  assumes "complete_group ms i = Some stop"
  shows "i < length ms" "m_role (ms ! i) = Assistant" "distinct (map tc_id (m_tool_calls (ms ! i)))"
    "stop = i + 1 + card (tc_id ` set (m_tool_calls (ms ! i)))"
    "group_results (slice ms (i + 1) stop) (tc_id ` set (m_tool_calls (ms ! i)))"
    "slice ms i stop = ms ! i # slice ms (i + 1) stop"
proof -
  show 1: "i < length ms" "m_role (ms ! i) = Assistant" "distinct (map tc_id (m_tool_calls (ms ! i)))"
    "stop = i + 1 + card (tc_id ` set (m_tool_calls (ms ! i)))"
    "group_results (slice ms (i + 1) stop) (tc_id ` set (m_tool_calls (ms ! i)))"
    using assms by (auto simp: complete_group_def Let_def split: if_splits)
  then show "slice ms i stop = ms ! i # slice ms (i + 1) stop"
    by (simp add: Cons_nth_drop_Suc [symmetric])
qed

lemma complete_group_no_user:
  assumes "complete_group ms i = Some stop" "m \<in> set (slice ms i stop)"
  shows "m_role m \<noteq> User"
  using complete_group_first [OF assms(1)] group_results_roles assms(2) by fastforce

lemma candidate_entry_ok:
  assumes "candidate en ms before limit groups i = Some (stop, r)" "i < before" "before \<le> length ms"
  shows "i < stop \<and> stop \<le> before \<and>
    entry_ok en ms \<lparr>re_start = i, re_fingerprints = map (fingerprint en) (slice ms i stop), re_replacement = r\<rparr>"
proof (cases "if groups then (case complete_group ms i of Some stop \<Rightarrow> if stop \<le> before then Some stop else None
    | None \<Rightarrow> None) else None")
  case None
  then have r: "stop = i + 1" "r = single_replacement en limit ms i" "m_role (ms ! i) \<in> {Assistant, Tool}"
    using assms(1) by (auto simp: candidate_def Let_def split: if_splits)
  have "slice ms i (i + 1) = [ms ! i]"
    using assms(2,3) by (simp add: take_Suc_conv_app_nth hd_drop_conv_nth take_Suc)
  then show ?thesis
    using r assms(2,3) by (auto simp: entry_ok_def single_replacement_def Let_def)
next
  case (Some s)
  then have g: "complete_group ms i = Some s" "s \<le> before"
    by (auto split: if_splits option.splits)
  have "candidate en ms before limit groups i = Some (s, group_replacement en limit ms i s)"
    unfolding candidate_def Some by simp
  then have r: "stop = s" "r = group_replacement en limit ms i s" using assms(1) by auto
  have "i + 1 < s" "s \<le> length ms" using complete_group_bounds [OF g(1)] by auto
  then show ?thesis
    using r g complete_group_no_user [OF g(1)]
    by (auto simp: entry_ok_def group_replacement_def message_new_def)
qed

lemma add_reduction_ok:
  assumes "entries_ok en ms (fst acc)" "i < stop"
    and new: "entry_ok en ms \<lparr>re_start = i, re_fingerprints = map (fingerprint en) (slice ms i stop), re_replacement = r\<rparr>"
      "stop \<le> length ms"
  shows "entries_ok en ms (fst (add_reduction en ms i stop r acc))"
proof (cases acc)
  case (Pair entries changed)
  let ?n = "\<lparr>re_start = i, re_fingerprints = map (fingerprint en) (slice ms i stop), re_replacement = r\<rparr>"
  have stop: "re_stop ?n = stop" using assms(2,4) by simp
  show ?thesis
  proof (cases "list_ex (\<lambda>e. re_start e < i \<or> stop < re_stop e)
      (filter (\<lambda>e. re_start e < stop \<and> i < re_stop e) entries)")
    case True
    with assms(1) show ?thesis by (simp add: add_reduction_def Pair)
  next
    case False
    have "entries_ok en ms (filter (\<lambda>e. \<not> (re_start ?n \<le> re_start e \<and> re_start e < re_stop ?n)) entries @ [?n])"
      by (rule entries_ok_add [OF _ new(1)])
        (use assms(1) False stop Pair in \<open>auto simp: list_ex_iff\<close>)
    with assms(1) False show ?thesis
      unfolding stop by (auto simp: add_reduction_def Pair Let_def)
  qed
qed

lemma reduce_loop_ok:
  "entries_ok en ms (fst acc) \<Longrightarrow> before \<le> length ms \<Longrightarrow>
     entries_ok en ms (fst (reduce_loop en ms before limit groups i acc))"
proof (induction en ms before limit groups i acc rule: reduce_loop.induct)
  case (1 en ms before limit groups i acc)
  show ?case
  proof (cases "i < before")
    case True
    show ?thesis
    proof (cases "candidate en ms before limit groups i")
      case None
      with True 1 show ?thesis by (subst reduce_loop.simps) simp
    next
      case (Some c)
      obtain stop r where c: "candidate en ms before limit groups i = Some (stop, r)"
        using Some by (cases c) simp
      from candidate_entry_ok [OF c True 1(4)]
      have "entries_ok en ms (fst (add_reduction en ms i stop r acc))"
        using "1.prems" by (intro add_reduction_ok) auto
      with True c 1(2) [OF True c refl] "1.prems" show ?thesis
        by (subst reduce_loop.simps) simp
    qed
  next
    case False
    with "1.prems" show ?thesis by (subst reduce_loop.simps) simp
  qed
qed

definition projection :: "message list \<Rightarrow> working_context \<Rightarrow> message list" where
  "projection canonical w =
     (if wc_entries w = [] then canonical else map clear_state (project_loop (wc_entries w) 0 0 canonical))"

lemma project_eq:
  assumes "validate_context en canonical w = Inr ()"
  shows "project en canonical w = Inr (projection canonical w)"
  using assms by (simp add: project_def projection_def)

lemma project_Inr:
  "project en canonical w = Inr out \<longleftrightarrow> validate_context en canonical w = Inr () \<and> out = projection canonical w"
  by (auto simp: project_def projection_def and_then_Inr)

lemma context_ok_sorted:
  assumes "entries_ok en (spoken canonical) es"
  shows "context_ok en canonical (w\<lparr>wc_entries := sort_key re_start es\<rparr>)"
  using sort_entries_ordered [OF assms] by (simp add: context_ok_def)

lemma context_ok_entries: "context_ok en canonical w \<Longrightarrow> entries_ok en (spoken canonical) (wc_entries w)"
  by (auto simp: context_ok_def intro: entries_ok_ordered)

lemma reduce_cases:
  assumes "context_ok en canonical w" "length canonical \<le> usize_max" "before \<le> length (spoken canonical)"
    "wc_generation w < u64_max"
  obtains "reduce en canonical before limit groups w = Inr (0, w)" |
    changed w' where "reduce en canonical before limit groups w = Inr (changed, w')" "0 < changed"
      "context_ok en canonical w'" "wc_generation w' = wc_generation w + 1"
      "sat_add (size_all en (projection canonical w')) 128 < size_all en (projection canonical w)"
proof -
  obtain es changed where l: "reduce_loop en (spoken canonical) before limit groups 0 (wc_entries w, 0) = (es, changed)"
    by fastforce
  define w1 where "w1 = w\<lparr>wc_entries := sort_key re_start es\<rparr>"
  have "entries_ok en (spoken canonical) es"
    using reduce_loop_ok [OF _ assms(3), of en "(wc_entries w, 0)" limit groups 0]
      context_ok_entries [OF assms(1)] l by simp
  then have ok1: "context_ok en canonical w1" unfolding w1_def by (rule context_ok_sorted)
  note v = validate_context_Inr [OF assms(2)]
  have red: "reduce en canonical before limit groups w =
    (if changed = 0 \<or> size_all en (projection canonical w) \<le> sat_add (size_all en (projection canonical w1)) 128
     then Inr (0, w) else Inr (changed, w1\<lparr>wc_generation := wc_generation w + 1\<rparr>))"
    using assms(1,4) ok1 v [of en w] v [of en w1] project_eq [of en canonical w] project_eq [of en canonical w1]
    by (simp add: reduce_def l w1_def [symmetric] checked_add_u64_def)
  show thesis
  proof (cases "changed = 0 \<or> size_all en (projection canonical w) \<le> sat_add (size_all en (projection canonical w1)) 128")
    case True
    with red that(1) show thesis by simp
  next
    case False
    have "projection canonical (w1\<lparr>wc_generation := wc_generation w + 1\<rparr>) = projection canonical w1"
      by (simp add: projection_def)
    moreover have "context_ok en canonical (w1\<lparr>wc_generation := wc_generation w + 1\<rparr>)"
      using ok1 by (simp add: context_ok_def)
    ultimately show thesis using False red by (intro that(2)) auto
  qed
qed

lemma saved_loop_ok:
  "entries_ok en full es \<Longrightarrow> i \<le> length full \<Longrightarrow>
     entries_ok en full (fst (saved_loop en show_id i (drop i full) (es, changed)))"
proof (induction "length full - i" arbitrary: i es changed)
  case 0
  then show ?case by simp
next
  case (Suc n)
  then have i: "i < length full" by simp
  then have d: "drop i full = full ! i # drop (i + 1) full" by (simp add: Cons_nth_drop_Suc)
  let ?skip = "m_role (full ! i) \<noteq> Tool \<or> str_len (m_content (full ! i)) \<le> 8192 \<or>
    list_ex (\<lambda>e. re_start e \<le> i \<and> i < re_stop e) es"
  have step: "entries_ok en full es'" if "saved_loop en show_id i (drop i full) (es, changed) =
      saved_loop en show_id (i + 1) (drop (i + 1) full) (es', changed')" "entries_ok en full es'" for es' changed'
    using that by simp
  show ?case
  proof (cases "?skip \<or> saved_evidence evidence_mime (full ! i) = None")
    case True
    then have "saved_loop en show_id i (drop i full) (es, changed) =
      saved_loop en show_id (i + 1) (drop (i + 1) full) (es, changed)"
      unfolding d by auto
    with Suc.hyps(1) [of "i + 1" es changed] Suc.hyps(2) Suc.prems i show ?thesis by simp
  next
    case False
    then obtain a where a: "saved_evidence evidence_mime (full ! i) = Some a" by auto
    let ?n = "\<lparr>re_start = i, re_fingerprints = [fingerprint en (full ! i)],
      re_replacement = evidence_replacement en show_id (full ! i) a\<rparr>"
    have "saved_loop en show_id i (drop i full) (es, changed) =
      saved_loop en show_id (i + 1) (drop (i + 1) full) (es @ [?n], changed + 1)"
      unfolding d using False a by auto
    moreover have "entries_ok en full (es @ [?n])"
    proof -
      have "slice full i (i + 1) = [full ! i]"
        using i by (simp add: take_Suc hd_drop_conv_nth)
      then have new: "entry_ok en full ?n"
        using i False by (auto simp: entry_ok_def evidence_replacement_def)
      have out: "\<not> (re_start e \<le> i \<and> i < re_stop e)" "re_start e \<noteq> i" if "e \<in> set es" for e
      proof -
        show 1: "\<not> (re_start e \<le> i \<and> i < re_stop e)" using False that by (auto simp: list_ex_iff)
        have "re_start e < re_stop e" using that Suc.prems(1) entry_nonempty by (auto simp: entries_ok_def)
        with 1 show "re_start e \<noteq> i" by linarith
      qed
      have "filter (\<lambda>e. \<not> (re_start ?n \<le> re_start e \<and> re_start e < re_stop ?n)) es = es"
        unfolding filter_id_conv
      proof
        fix e
        assume "e \<in> set es"
        from out [OF this] show "\<not> (re_start ?n \<le> re_start e \<and> re_start e < re_stop ?n)"
          by auto
      qed
      moreover have "entries_ok en full (filter (\<lambda>e. \<not> (re_start ?n \<le> re_start e \<and> re_start e < re_stop ?n)) es @ [?n])"
      proof (rule entries_ok_add [OF Suc.prems(1) new], intro ballI impI)
        fix e
        assume "e \<in> set es" "re_start e < re_stop ?n \<and> re_start ?n < re_stop e"
        with out [of e] show "re_start ?n \<le> re_start e \<and> re_stop e \<le> re_stop ?n"
          by auto
      qed
      ultimately show ?thesis by simp
    qed
    ultimately show ?thesis
      using Suc.hyps(1) [of "i + 1" "es @ [?n]" "changed + 1"] Suc.hyps(2) i by simp
  qed
qed

lemma reduce_saved_cases:
  assumes "context_ok en canonical w" "length canonical \<le> usize_max" "wc_generation w < u64_max"
  obtains "reduce_saved_results en show_id canonical w = Inr (0, w)" |
    changed w' where "reduce_saved_results en show_id canonical w = Inr (changed, w')" "0 < changed"
      "context_ok en canonical w'" "wc_generation w' = wc_generation w + 1"
proof -
  obtain es changed where l: "saved_loop en show_id 0 (spoken canonical) (wc_entries w, 0) = (es, changed)"
    by fastforce
  have "entries_ok en (spoken canonical) es"
    using saved_loop_ok [OF context_ok_entries [OF assms(1)], of 0 show_id 0] l by simp
  then have ok1: "context_ok en canonical (w\<lparr>wc_entries := sort_key re_start es\<rparr>)" by (rule context_ok_sorted)
  then have ok2: "context_ok en canonical (w\<lparr>wc_entries := sort_key re_start es,
      wc_generation := sat_add (wc_generation w) 1, wc_reason := Some Preparation\<rparr>)"
    by (simp add: context_ok_def)
  note v = validate_context_Inr [OF assms(2)]
  show thesis
  proof (cases "changed = 0")
    case True
    with l assms(1) v [of en w] that(1) show thesis by (simp add: reduce_saved_results_def)
  next
    case False
    with l assms(1) v [of en w] v [THEN iffD2, OF ok2] have
      "reduce_saved_results en show_id canonical w = Inr (changed, w\<lparr>wc_entries := sort_key re_start es,
        wc_generation := sat_add (wc_generation w) 1, wc_reason := Some Preparation\<rparr>)"
      by (simp add: reduce_saved_results_def)
    with False ok2 assms(3) show thesis
      by (intro that(2)) (auto simp: sat_add_exact)
  qed
qed

end
