(* ===== verification/Projection.thy ===== *)
theory Projection
  imports Working_Context "HOL-Library.Code_Target_Nat"
begin

text \<open>
  What the projection of a working context keeps: the instructions, the pairing of calls and results,
  and the validity of the context itself under the operations that reduce it.
\<close>

section \<open>What a projection keeps\<close>

text \<open>The projected spoken messages, range by range.\<close>

fun spliced :: "reduction list \<Rightarrow> nat \<Rightarrow> message list \<Rightarrow> message list" where
  "spliced [] i ms = ms"
| "spliced (e # es) i ms = take (re_start e - i) ms @ re_replacement e # spliced es (re_stop e) (drop (re_stop e - i) ms)"

lemma spoken_simps [simp]:
  "spoken [] = []" "spoken (m # ms) = (if m_role m = System then spoken ms else m # spoken ms)"
  "spoken (a @ b) = spoken a @ spoken b"
  by (simp_all add: spoken_def)

lemma spoken_project_loop:
  assumes "ordered_from (max i skip) es" "\<forall>e \<in> set es. re_fingerprints e \<noteq> [] \<and> m_role (re_replacement e) \<noteq> System"
    "\<forall>e \<in> set es. re_stop e \<le> i + length (spoken ms)"
  shows "spoken (project_loop es i skip ms) = spliced es (max i skip) (drop (skip - i) (spoken ms))"
  using assms
proof (induction es i skip ms rule: project_loop.induct)
  case (1 es ordinal skip)
  then have "es = []"
    by (cases es) (auto simp: ordered_from_Cons simp flip: length_greater_0_conv)
  then show ?case by simp
next
  case (2 es ordinal skip m ms)
  show ?case
  proof (cases "m_role m = System")
    case True
    with 2 show ?thesis by simp
  next
    case spoken: False
    show ?thesis
    proof (cases "skip \<le> ordinal")
      case False
      then have "max ordinal skip = max (ordinal + 1) skip" by simp
      moreover have "drop (skip - ordinal) (m # spoken ms) = drop (skip - (ordinal + 1)) (spoken ms)"
        using False by (metis Suc_diff_Suc Suc_eq_plus1 drop_Suc_Cons not_le)
      ultimately show ?thesis
        using spoken False "2.IH"(5) [OF spoken False] "2.prems" by simp
    next
      case True
      show ?thesis
      proof (cases es)
        case Nil
        with "2.IH"(2) [OF spoken True Nil] spoken True show ?thesis by (simp add: ordered_from_def)
      next
        case (Cons e es')
        show ?thesis
        proof (cases "re_start e = ordinal")
          case True
          have o: "ordered_from (re_stop e) es'" and ne: "re_fingerprints e \<noteq> []"
            using "2.prems" Cons by (auto simp: ordered_from_Cons)
          then obtain j where j: "length (re_fingerprints e) = Suc j" by (cases "re_fingerprints e") auto
          have "spoken (project_loop es' (ordinal + 1) (ordinal + length (re_fingerprints e)) ms) =
            spliced es' (max (ordinal + 1) (ordinal + length (re_fingerprints e)))
              (drop (ordinal + length (re_fingerprints e) - (ordinal + 1)) (spoken ms))"
            using "2.prems" o True spoken
            by (intro "2.IH"(3) [OF spoken \<open>skip \<le> ordinal\<close> Cons True]) (auto simp: Cons j)
          then show ?thesis
            using True Cons spoken \<open>skip \<le> ordinal\<close> "2.prems"(2) by (simp add: j max_def)
        next
          case False
          then have later: "ordinal + 1 \<le> re_start e" and o: "ordered_from (ordinal + 1) (e # es')"
            using "2.prems"(1) Cons \<open>skip \<le> ordinal\<close> by (auto simp: ordered_from_Cons max_def)
          have "spoken (project_loop es (ordinal + 1) skip ms) = spliced es (ordinal + 1) (spoken ms)"
            using "2.IH"(4) [OF spoken \<open>skip \<le> ordinal\<close> Cons False] "2.prems" Cons o spoken \<open>skip \<le> ordinal\<close>
            by (simp add: max_def)
          moreover have "re_start e - ordinal = Suc (re_start e - (ordinal + 1))"
            "re_stop e - ordinal = Suc (re_stop e - (ordinal + 1))" using later by auto
          ultimately show ?thesis
            using False Cons spoken \<open>skip \<le> ordinal\<close> by (simp add: max_def)
        qed
      qed
    qed
  qed
qed

lemma project_loop_instructions:
  assumes "\<forall>k < length (spoken ms). m_role (spoken ms ! k) = User \<longrightarrow> at_user (ordinal + k)"
    "\<forall>e \<in> set es. m_role (re_replacement e) \<notin> {User, System} \<and>
       (\<forall>k. re_start e \<le> k \<and> k < re_stop e \<longrightarrow> \<not> at_user k) \<and> re_fingerprints e \<noteq> []"
    "\<forall>k. ordinal \<le> k \<and> k < skip \<longrightarrow> \<not> at_user k"
  shows "filter (\<lambda>m. m_role m \<in> {User, System}) (project_loop es ordinal skip ms) =
    filter (\<lambda>m. m_role m \<in> {User, System}) ms"
  using assms
proof (induction es ordinal skip ms rule: project_loop.induct)
  case (1 es ordinal skip)
  then show ?case by simp
next
  case (2 es ordinal skip m ms)
  show ?case
  proof (cases "m_role m = System")
    case True
    with 2 show ?thesis by simp
  next
    case spoken: False
    have rest: "\<forall>k < length (spoken ms). m_role (spoken ms ! k) = User \<longrightarrow> at_user (ordinal + 1 + k)"
    proof (intro allI impI)
      fix k
      assume "k < length (spoken ms)" "m_role (spoken ms ! k) = User"
      with "2.prems"(1) spoken show "at_user (ordinal + 1 + k)" by (auto dest: spec [of _ "Suc k"])
    qed
    have here: "m_role m = User \<Longrightarrow> at_user ordinal"
      using "2.prems"(1) spoken by (auto dest: spec [of _ 0])
    show ?thesis
    proof (cases "skip \<le> ordinal")
      case False
      then have "m_role m \<noteq> User" using here "2.prems"(3) by auto
      with spoken False "2.IH"(5) [OF spoken False rest] "2.prems" show ?thesis by simp
    next
      case True
      show ?thesis
      proof (cases es)
        case Nil
        with "2.IH"(2) [OF spoken True Nil rest] spoken True "2.prems" show ?thesis by simp
      next
        case (Cons e es')
        show ?thesis
        proof (cases "re_start e = ordinal")
          case True
          have "\<not> at_user ordinal" "m_role (re_replacement e) \<notin> {User, System}"
            using "2.prems"(2) Cons True by auto
          moreover have "filter (\<lambda>m. m_role m \<in> {User, System})
              (project_loop es' (ordinal + 1) (ordinal + length (re_fingerprints e)) ms) =
            filter (\<lambda>m. m_role m \<in> {User, System}) ms"
            using "2.prems" Cons True
            by (intro "2.IH"(3) [OF spoken \<open>skip \<le> ordinal\<close> Cons True rest]) auto
          ultimately show ?thesis
            using here True Cons spoken \<open>skip \<le> ordinal\<close> by auto
        next
          case False
          with "2.IH"(4) [OF spoken True Cons False rest] Cons spoken True "2.prems" show ?thesis
            by simp
        qed
      qed
    qed
  qed
qed

lemma filter_clear_state:
  "map clear_state (filter (\<lambda>m. m_role m \<in> R) (map clear_state ms)) =
   map clear_state (filter (\<lambda>m. m_role m \<in> R) ms)"
  by (induction ms) auto

lemma projection_instructions:
  assumes "context_ok en canonical w"
  shows "map clear_state (filter (\<lambda>m. m_role m \<in> {User, System}) (projection canonical w)) =
    map clear_state (filter (\<lambda>m. m_role m \<in> {User, System}) canonical)"
proof -
  let ?full = "spoken canonical"
  have "filter (\<lambda>m. m_role m \<in> {User, System}) (project_loop (wc_entries w) 0 0 canonical) =
    filter (\<lambda>m. m_role m \<in> {User, System}) canonical"
  proof (rule project_loop_instructions [where at_user = "\<lambda>k. k < length ?full \<and> m_role (?full ! k) = User"])
    show "\<forall>e \<in> set (wc_entries w). m_role (re_replacement e) \<notin> {User, System} \<and>
       (\<forall>k. re_start e \<le> k \<and> k < re_stop e \<longrightarrow> \<not> (k < length ?full \<and> m_role (?full ! k) = User)) \<and>
       re_fingerprints e \<noteq> []"
    proof
      fix e
      assume "e \<in> set (wc_entries w)"
      with assms have e: "entry_ok en ?full e" by (simp add: context_ok_def)
      have "m_role (?full ! k) \<noteq> User" if "re_start e \<le> k" "k < re_stop e" "k < length ?full" for k
      proof -
        have "slice ?full (re_start e) (re_stop e) ! (k - re_start e) = ?full ! k"
          "k - re_start e < length (slice ?full (re_start e) (re_stop e))"
          using that by auto
        with e show ?thesis unfolding entry_ok_def by (metis nth_mem)
      qed
      with e show "m_role (re_replacement e) \<notin> {User, System} \<and>
       (\<forall>k. re_start e \<le> k \<and> k < re_stop e \<longrightarrow> \<not> (k < length ?full \<and> m_role (?full ! k) = User)) \<and>
       re_fingerprints e \<noteq> []"
        by (auto simp: entry_ok_def)
    qed
  qed auto
  then show ?thesis unfolding projection_def by (simp only: filter_clear_state split: if_split) simp
qed

section \<open>Pairing of calls and results\<close>

fun pending_run :: "message list \<Rightarrow> rstring set \<Rightarrow> rstring set option" where
  "pending_run [] pending = Some pending"
| "pending_run (m # ms) pending =
     (if m_role m = Assistant then Option.bind (pending_calls (m_tool_calls m) pending) (pending_run ms)
      else if m_role m = Tool then
        (case m_tool_call_id m of Some i \<Rightarrow> pending_run ms (pending - {i}) | None \<Rightarrow> pending_run ms pending)
      else pending_run ms pending)"

lemma pending_walk_run: "pending_walk ms p \<longleftrightarrow> pending_run ms p \<noteq> Some {}"
  by (induction ms p rule: pending_walk.induct) (auto split: option.splits)

lemma pending_run_append: "pending_run (a @ b) p = Option.bind (pending_run a p) (pending_run b)"
  by (induction a p rule: pending_run.induct) (auto split: option.splits bind_splits)

lemma pending_run_spoken: "pending_run (spoken ms) p = pending_run ms p"
  by (induction ms p rule: pending_run.induct) (auto split: option.splits bind_splits)

lemma pending_run_clear: "pending_run (map clear_state ms) p = pending_run ms p"
  by (induction ms p rule: pending_run.induct) (auto split: option.splits bind_splits)

lemma pending_run_results:
  "group_results ms expected \<Longrightarrow> expected \<inter> p = {} \<Longrightarrow> pending_run ms (expected \<union> p) = Some p"
proof (induction ms expected rule: group_results.induct)
  case (1 expected)
  then show ?case by simp
next
  case (2 m ms expected)
  then obtain i where i: "m_tool_call_id m = Some i" "i \<in> expected"
    by (cases "m_tool_call_id m") auto
  then have "(expected \<union> p) - {i} = (expected - {i}) \<union> p" using 2 by auto
  moreover have "pending_run ms ((expected - {i}) \<union> p) = Some p" using 2 i by auto
  ultimately show ?case using 2 i by simp
qed

lemma pending_run_group:
  assumes "complete_group ms i = Some stop" "pending_run (slice ms i stop) p \<noteq> None"
  shows "pending_run (slice ms i stop) p = Some p"
proof -
  note g = complete_group_first [OF assms(1)]
  let ?c = "m_tool_calls (ms ! i)"
  obtain q where q: "pending_calls ?c p = Some q"
    using assms(2) g(2,6) by (cases "pending_calls ?c p") auto
  then have "q = tc_id ` set ?c \<union> p" "tc_id ` set ?c \<inter> p = {}"
    by (auto simp: pending_calls_Some)
  then show ?thesis using g(2,6) q pending_run_results [OF g(5)] by simp
qed

lemma pending_run_entry:
  assumes "entry_ok en ms e" "pending_run (slice ms (re_start e) (re_stop e)) p \<noteq> None"
  shows "pending_run [re_replacement e] p = pending_run (slice ms (re_start e) (re_stop e)) p"
proof (cases "length (re_fingerprints e) = 1")
  case True
  then have "slice ms (re_start e) (re_stop e) = [ms ! re_start e]"
    using assms(1) by (simp add: entry_ok_def take_Suc hd_drop_conv_nth)
  then show ?thesis using True assms(1) by (simp add: entry_ok_def)
next
  case False
  then have g: "complete_group ms (re_start e) = Some (re_stop e)"
    and r: "m_role (re_replacement e) = Assistant" "m_tool_calls (re_replacement e) = []"
    using assms(1) by (auto simp: entry_ok_def)
  from pending_run_group [OF g assms(2)] r show ?thesis by simp
qed

lemma pending_run_spliced:
  assumes "\<forall>e \<in> set es. entry_ok en full e" "ordered_from i es" "i \<le> length full"
    "pending_run (drop i full) p \<noteq> None"
  shows "pending_run (spliced es i (drop i full)) p = pending_run (drop i full) p"
  using assms
proof (induction es arbitrary: i p)
  case Nil
  then show ?case by simp
next
  case (Cons e es)
  then have o: "i \<le> re_start e" "re_start e \<le> re_stop e" "re_stop e \<le> length full" "ordered_from (re_stop e) es"
    and e: "entry_ok en full e"
    by (auto simp: ordered_from_Cons entry_ok_def)
  define a where "a = slice full i (re_start e)"
  define b where "b = slice full (re_start e) (re_stop e)"
  define c where "c = drop (re_stop e) full"
  have d: "drop i full = a @ b @ c"
    unfolding a_def b_def c_def using o
    by (metis append_take_drop_id drop_drop le_add_diff_inverse2)
  obtain q where q: "pending_run a p = Some q"
    using Cons.prems(4) unfolding d by (cases "pending_run a p") (auto simp: pending_run_append)
  then have q': "pending_run b q \<noteq> None"
    using Cons.prems(4) unfolding d by (cases "pending_run b q") (auto simp: pending_run_append)
  then obtain r where r: "pending_run b q = Some r" by auto
  have "pending_run [re_replacement e] q = Some r"
    using pending_run_entry [OF e, of q] q' r unfolding b_def by simp
  moreover have "pending_run (spliced es (re_stop e) c) r = pending_run c r"
    unfolding c_def using Cons.prems(1,4) o q r unfolding d
    by (intro Cons.IH) (auto simp: pending_run_append c_def)
  moreover have "spliced (e # es) i (drop i full) = a @ [re_replacement e] @ spliced es (re_stop e) c"
    using o by (simp add: a_def c_def)
  ultimately have "pending_run (spliced (e # es) i (drop i full)) p = pending_run c r"
    using q by (simp only: pending_run_append Option.bind.simps)
  then show ?case using q r unfolding d by (simp add: pending_run_append)
qed

lemma projection_no_pending:
  assumes "context_ok en canonical w" "\<not> has_pending_tools canonical"
  shows "\<not> has_pending_tools (projection canonical w)"
proof (cases "wc_entries w = []")
  case True
  with assms(2) show ?thesis by (simp add: projection_def)
next
  case False
  let ?es = "wc_entries w"
  have ok: "\<forall>e \<in> set ?es. entry_ok en (spoken canonical) e" "ordered_from 0 ?es"
    using assms(1) by (auto simp: context_ok_def)
  have "spoken (project_loop ?es 0 0 canonical) = spliced ?es 0 (spoken canonical)"
    using spoken_project_loop [of 0 0 ?es canonical] ok by (fastforce simp: entry_ok_def)
  moreover have "pending_run (spoken canonical) {} = Some {}"
    using assms(2) by (simp add: has_pending_tools_def pending_walk_run pending_run_spoken)
  ultimately have "pending_run (project_loop ?es 0 0 canonical) {} = Some {}"
    using pending_run_spliced [OF ok(1) ok(2), of "{}"]
    by (simp flip: pending_run_spoken [of "project_loop ?es 0 0 canonical"])
  then show ?thesis using False by (simp add: projection_def has_pending_tools_def pending_walk_run pending_run_clear)
qed

section \<open>The operations\<close>

text \<open>What every reduction returns, and what those that compare the requests add.\<close>

definition sound_reduction :: "encoder \<Rightarrow> message list \<Rightarrow> working_context \<Rightarrow>
    (context_error, nat \<times> working_context) result \<Rightarrow> bool" where
  "sound_reduction en canonical w r \<longleftrightarrow> (\<exists>changed w'. r = Inr (changed, w') \<and> context_ok en canonical w' \<and>
     (if changed = 0 then w' = w else wc_generation w' = wc_generation w + 1))"

definition shrinking :: "encoder \<Rightarrow> message list \<Rightarrow> working_context \<Rightarrow>
    (context_error, nat \<times> working_context) result \<Rightarrow> bool" where
  "shrinking en canonical w r \<longleftrightarrow> (\<forall>changed w'. r = Inr (changed, w') \<and> 0 < changed \<longrightarrow>
     sat_add (size_all en (projection canonical w')) 128 < size_all en (projection canonical w))"

lemma reduce_sound:
  assumes "context_ok en canonical w" "length canonical \<le> usize_max" "before \<le> length (spoken canonical)"
    "wc_generation w < u64_max"
  shows "sound_reduction en canonical w (reduce en canonical before limit groups w)"
    "shrinking en canonical w (reduce en canonical before limit groups w)"
proof -
  show "sound_reduction en canonical w (reduce en canonical before limit groups w)"
    by (rule reduce_cases [OF assms, of limit groups]) (use assms(1) in \<open>simp_all add: sound_reduction_def\<close>)
  show "shrinking en canonical w (reduce en canonical before limit groups w)"
    by (rule reduce_cases [OF assms, of limit groups]) (simp_all add: shrinking_def)
qed

lemma saved_sound:
  assumes "context_ok en canonical w" "length canonical \<le> usize_max" "wc_generation w < u64_max"
  shows "sound_reduction en canonical w (reduce_saved_results en show_id canonical w)"
  by (rule reduce_saved_cases [OF assms, of show_id]) (use assms(1) in \<open>simp_all add: sound_reduction_def\<close>)

lemma context_ok_reason [simp]: "context_ok en canonical (w\<lparr>wc_reason := r\<rparr>) = context_ok en canonical w"
  by (simp add: context_ok_def)

lemma projection_reason [simp]: "projection canonical (w\<lparr>wc_reason := r\<rparr>) = projection canonical w"
  by (simp add: projection_def)

text \<open>Recording the reason of a change.\<close>

abbreviation because :: "compaction_reason \<Rightarrow> (context_error, nat \<times> working_context) result \<Rightarrow>
    (context_error, nat \<times> working_context) result" where
  "because reason r \<equiv>
     and_then r (\<lambda>(changed, w'). Inr (changed, if 0 < changed then w'\<lparr>wc_reason := Some reason\<rparr> else w'))"

lemma because_sound:
  assumes "sound_reduction en canonical w r" "shrinking en canonical w r"
  shows "sound_reduction en canonical w (because reason r)" "shrinking en canonical w (because reason r)"
proof -
  obtain changed w' where r: "r = Inr (changed, w')" using assms(1) by (auto simp: sound_reduction_def)
  show "sound_reduction en canonical w (because reason r)"
    using assms(1) unfolding r by (auto simp: sound_reduction_def)
  show "shrinking en canonical w (because reason r)"
    using assms(2) unfolding r by (auto simp: shrinking_def)
qed

lemma compact_sound:
  assumes "context_ok en canonical w" "length canonical \<le> usize_max" "wc_generation w < u64_max"
  shows "sound_reduction en canonical w (compact en canonical retain w)"
    "shrinking en canonical w (compact en canonical retain w)"
proof -
  have "sat_sub (length (spoken canonical)) retain \<le> length (spoken canonical)" by simp
  note red = reduce_sound [OF assms(1,2) this assms(3)]
  show "sound_reduction en canonical w (compact en canonical retain w)"
    "shrinking en canonical w (compact en canonical retain w)"
    unfolding compact_def by (rule because_sound; rule red)+
qed

lemma recover_sound:
  assumes "context_ok en canonical w" "length canonical \<le> usize_max" "wc_generation w < u64_max"
  shows "sound_reduction en canonical w (recover_context en canonical attempt w)"
    "shrinking en canonical w (recover_context en canonical attempt w)"
proof -
  note red = reduce_sound [OF assms(1,2) order.refl assms(3)]
  have none: "sound_reduction en canonical w (Inr (0, w))" "shrinking en canonical w (Inr (0, w))"
    using assms(1) by (auto simp: sound_reduction_def shrinking_def)
  show "sound_reduction en canonical w (recover_context en canonical attempt w)"
    "shrinking en canonical w (recover_context en canonical attempt w)"
    unfolding recover_context_def
    by (rule because_sound; simp only: red none split: if_split; simp)+
qed

lemma prepare_sound:
  assumes "context_ok en canonical w" "length canonical \<le> usize_max" "wc_generation w + 1 < u64_max"
  obtains changed w' where "prepare_context en show_id canonical w = Inr (changed, w')"
    "context_ok en canonical w'" "changed = 0 \<longrightarrow> w' = w" "0 < changed \<longrightarrow> wc_generation w < wc_generation w'"
proof -
  have "sound_reduction en canonical w (reduce_saved_results en show_id canonical w)"
    using assms by (intro saved_sound) auto
  then obtain saved w1 where s: "reduce_saved_results en show_id canonical w = Inr (saved, w1)"
    "context_ok en canonical w1" "if saved = 0 then w1 = w else wc_generation w1 = wc_generation w + 1"
    by (auto simp: sound_reduction_def)
  then have less: "wc_generation w1 < u64_max" using assms(3) by (cases "saved = 0") auto
  have p: "project en canonical w1 = Inr (projection canonical w1)"
    using s(2) validate_context_Inr [OF assms(2)] project_eq by blast
  show thesis
  proof (cases "size_all en (projection canonical w1) \<le> prepare_bytes")
    case True
    then have "prepare_context en show_id canonical w = Inr (saved, w1)"
      using s(1) p by (simp add: prepare_context_def)
    then show thesis by (rule that) (use s in \<open>auto split: if_splits\<close>)
  next
    case False
    from reduce_sound(1) [OF s(2) assms(2) order.refl less, of "excerpt_limits ! 0" False] obtain changed w' where
      r: "reduce en canonical (length (spoken canonical)) (excerpt_limits ! 0) False w1 = Inr (changed, w')"
        "context_ok en canonical w'" "if changed = 0 then w' = w1 else wc_generation w' = wc_generation w1 + 1"
      by (auto simp: sound_reduction_def)
    have "prepare_context en show_id canonical w =
      Inr (changed + saved, if 0 < changed then w'\<lparr>wc_reason := Some Preparation\<rparr> else w')"
      using s(1) p r(1) False by (simp add: prepare_context_def)
    then show thesis
      by (rule that) (use r s in \<open>auto split: if_splits\<close>)
  qed
qed

section \<open>Properties\<close>

text \<open>A small conversation: an instruction, a call, its result and an entry for the pair.\<close>

definition sample_encoder :: encoder where
  "sample_encoder = \<lparr>en_message_size = (\<lambda>m. 64 + length (m_content m) +
       sum_list (map (\<lambda>c. length (tc_arguments c)) (m_tool_calls m))), en_output_size = (\<lambda>out. length (to_content out)),
     en_hash = m_content, en_argument_digest = id, en_output_json = (\<lambda>_. []), en_outcome_json = (\<lambda>_. []),
     en_artifact_json = (\<lambda>_. [])\<rparr>"

definition sample_chat :: "message list" where
  "sample_chat = [message_new System (lit ''rules'') 1, message_new User (lit ''list the files'') 1,
     (message_new Assistant [] 2)\<lparr>m_tool_calls := [\<lparr>tc_id = lit ''c1'', tc_name = lit ''ls'', tc_arguments = lit ''{}''\<rparr>]\<rparr>,
     message_tool (lit ''c1'') (lit ''a b c'') 3]"

definition sample_context :: working_context where
  "sample_context = \<lparr>wc_generation = 1, wc_reason = Some Manual,
     wc_entries = [\<lparr>re_start = 1, re_fingerprints = [[], lit ''a b c''],
       re_replacement = message_new Assistant (lit ''listed'') 2\<rparr>]\<rparr>"

lemma sample_valid: "validate_context sample_encoder sample_chat sample_context = Inr ()"
  by code_simp

text \<open>C34. On a valid context every reduction (compaction, preparation before a request and recovery after
  a rejection) succeeds and returns a valid context: the same one when it reports no change, one
  of a later generation otherwise.\<close>

theorem context_reductions_keep_valid:
  assumes "validate_context en canonical w = Inr ()" "length canonical \<le> usize_max" "wc_generation w + 1 < u64_max"
    and "r = compact en canonical retain w \<or> r = prepare_context en show_id canonical w \<or>
      r = recover_context en canonical attempt w"
  shows "\<exists>changed w'. r = Inr (changed, w') \<and> validate_context en canonical w' = Inr () \<and>
    (if changed = 0 then w' = w else wc_generation w < wc_generation w')"
proof -
  note v = validate_context_Inr [OF assms(2)]
  have ok: "context_ok en canonical w" "wc_generation w < u64_max" using assms(1,3) v by auto
  consider (reduction) "sound_reduction en canonical w r" | (preparation) "r = prepare_context en show_id canonical w"
    using assms(4) compact_sound(1) [OF ok(1) assms(2) ok(2)] recover_sound(1) [OF ok(1) assms(2) ok(2)] by blast
  then show ?thesis
  proof cases
    case reduction
    then obtain changed w' where "r = Inr (changed, w')" "context_ok en canonical w'"
      "if changed = 0 then w' = w else wc_generation w' = wc_generation w + 1"
      unfolding sound_reduction_def by blast
    then show ?thesis using v [of en w'] by (intro exI [of _ changed] exI [of _ w']) (simp split: if_splits)
  next
    case preparation
    with prepare_sound [OF ok(1) assms(2,3), of show_id] v show ?thesis by (metis neq0_conv)
  qed
qed

lemma context_reductions_keep_valid_witness:
  "\<exists>changed w'. prepare_context sample_encoder (\<lambda>_. []) sample_chat sample_context = Inr (changed, w') \<and>
    validate_context sample_encoder sample_chat w' = Inr () \<and>
    (if changed = 0 then w' = sample_context else wc_generation sample_context < wc_generation w')"
  by (rule context_reductions_keep_valid [where retain = 0 and attempt = 0 and show_id = "\<lambda>_. []",
        OF sample_valid])
    (simp_all add: sample_chat_def sample_context_def)

text \<open>C35. A projection keeps every instruction: the user and system messages of the conversation are those of
  the request, in their order and unchanged up to the provider's replay state.\<close>

theorem projection_keeps_instructions:
  assumes "project en canonical w = Inr out" "length canonical \<le> usize_max"
  shows "map clear_state (filter (\<lambda>m. m_role m \<in> {User, System}) out) =
    map clear_state (filter (\<lambda>m. m_role m \<in> {User, System}) canonical)"
proof -
  have "validate_context en canonical w = Inr ()" and out: "out = projection canonical w"
    using assms(1) by (auto simp: project_Inr)
  then have "context_ok en canonical w" using validate_context_Inr [OF assms(2)] by blast
  then show ?thesis unfolding out by (rule projection_instructions)
qed

lemma projection_keeps_instructions_witness:
  "\<exists>out. project sample_encoder sample_chat sample_context = Inr out \<and> length out = 3 \<and>
    map clear_state (filter (\<lambda>m. m_role m \<in> {User, System}) out) =
    map clear_state (filter (\<lambda>m. m_role m \<in> {User, System}) sample_chat)"
proof -
  let ?out = "projection sample_chat sample_context"
  have p: "project sample_encoder sample_chat sample_context = Inr ?out" by (rule project_eq [OF sample_valid])
  have "length ?out = 3" by code_simp
  with p projection_keeps_instructions [OF p] show ?thesis by (auto simp: sample_chat_def)
qed

text \<open>C36. A projection never splits a call from its result: a conversation without outstanding calls is sent
  as one without outstanding calls, although groups and results have been replaced.\<close>

theorem projection_keeps_tool_pairs:
  assumes "project en canonical w = Inr out" "length canonical \<le> usize_max" "\<not> has_pending_tools canonical"
  shows "\<not> has_pending_tools out"
proof -
  have "validate_context en canonical w = Inr ()" and out: "out = projection canonical w"
    using assms(1) by (auto simp: project_Inr)
  then have "context_ok en canonical w" using validate_context_Inr [OF assms(2)] by blast
  then show ?thesis unfolding out by (rule projection_no_pending [OF _ assms(3)])
qed

lemma projection_keeps_tool_pairs_witness:
  "\<not> has_pending_tools (projection sample_chat sample_context) \<and> \<not> has_pending_tools sample_chat"
proof -
  have p: "project sample_encoder sample_chat sample_context = Inr (projection sample_chat sample_context)"
    by (rule project_eq [OF sample_valid])
  have "\<not> has_pending_tools sample_chat" "length sample_chat \<le> usize_max"
    by (auto simp: sample_chat_def has_pending_tools_def message_new_def message_tool_def message_tool_result_def lit_def)
  with projection_keeps_tool_pairs [OF p] show ?thesis by blast
qed

text \<open>C37. A reduction that reports a change makes the request strictly smaller: after a compaction or a
  recovery the serialised projection is more than 128 bytes shorter than before.\<close>

theorem reductions_shrink_request:
  assumes "validate_context en canonical w = Inr ()" "length canonical \<le> usize_max" "wc_generation w < u64_max"
    and "compact en canonical retain w = Inr (changed, w') \<or> recover_context en canonical attempt w = Inr (changed, w')"
    and "0 < changed"
  shows "\<exists>old new. project en canonical w = Inr old \<and> project en canonical w' = Inr new \<and>
    sat_add (size_all en new) 128 < size_all en old"
proof -
  note v = validate_context_Inr [OF assms(2)]
  have ok: "context_ok en canonical w" using assms(1) v by auto
  have "context_ok en canonical w' \<and>
    sat_add (size_all en (projection canonical w')) 128 < size_all en (projection canonical w)"
    using assms(4,5) compact_sound [OF ok assms(2,3), of retain] recover_sound [OF ok assms(2,3), of attempt]
    by (auto simp: sound_reduction_def shrinking_def)
  with assms(1) v show ?thesis using project_eq by blast
qed

definition long_chat :: "message list" where
  "long_chat = [message_new User (lit ''list the files'') 1,
     (message_new Assistant [] 2)\<lparr>m_tool_calls :=
        [\<lparr>tc_id = lit ''c1'', tc_name = lit ''ls'', tc_arguments = replicate 600 97\<rparr>]\<rparr>,
     message_tool (lit ''c1'') (lit ''a b c'') 3]"

definition fresh_context :: working_context where
  "fresh_context = \<lparr>wc_generation = 0, wc_reason = None, wc_entries = []\<rparr>"

lemma reductions_shrink_request_witness:
  "\<exists>w' old new. compact (sample_encoder\<lparr>en_argument_digest := (\<lambda>_. lit ''d'')\<rparr>) long_chat 0 fresh_context = Inr (2, w') \<and>
    project (sample_encoder\<lparr>en_argument_digest := (\<lambda>_. lit ''d'')\<rparr>) long_chat fresh_context = Inr old \<and>
    project (sample_encoder\<lparr>en_argument_digest := (\<lambda>_. lit ''d'')\<rparr>) long_chat w' = Inr new \<and>
    sat_add (size_all (sample_encoder\<lparr>en_argument_digest := (\<lambda>_. lit ''d'')\<rparr>) new) 128 <
      size_all (sample_encoder\<lparr>en_argument_digest := (\<lambda>_. lit ''d'')\<rparr>) old"
proof -
  let ?en = "sample_encoder\<lparr>en_argument_digest := (\<lambda>_. lit ''d'')\<rparr>"
  have "case compact ?en long_chat 0 fresh_context of Inr (n, w') \<Rightarrow> n = 2 | _ \<Rightarrow> False"
    by code_simp
  then obtain w' where c: "compact ?en long_chat 0 fresh_context = Inr (2, w')"
    by (auto split: sum.splits)
  have "validate_context ?en long_chat fresh_context = Inr ()"
    by (simp add: validate_context_def fresh_context_def)
  from reductions_shrink_request [OF this _ _ disjI1 [OF c]] c show ?thesis
    by (simp add: long_chat_def fresh_context_def)
qed

end
