(* ===== verification/Provider_Attempts.thy ===== *)
theory Provider_Attempts
  imports Messages "HOL-Library.Code_Target_Nat"
begin

text \<open>
  Requests to a provider: the errors and what may be retried (\<open>voyage/src/provider/mod.rs\<close>), the observation of
  an attempt (\<open>crates/voyage-protocol/src/provider_attempt.rs\<close>), jitter (\<open>voyage/src/agent/retry.rs\<close>) and the loop
  of attempts with its recovery state (\<open>voyage/src/agent/provider_attempts.rs\<close>).

  The loop is a function of what it meets: an \<open>attempt_world\<close> holds the clock readings, the checks and the stream
  events of one attempt, and \<open>checkpoint\<close> is the store that keeps the observations. A log records the saved
  observations and the requests in their order.
\<close>

section \<open>Errors of a provider\<close>

text \<open>A duration counts nanoseconds.\<close>

type_synonym duration = nat

abbreviation duration_max :: nat where "duration_max \<equiv> u64_max * 1000000000 + 999999999"

definition duration_add :: "duration \<Rightarrow> duration \<Rightarrow> duration" where
  "duration_add a b = min (a + b) duration_max"

definition millis :: "duration \<Rightarrow> nat" where
  "millis d = min (d div 1000000) u64_max"

datatype provider_error =
  Authentication rstring | AuthenticationRefreshed | AccessDenied | UsageLimit | ContextLength |
  RateLimit rstring "duration option" | Unavailable rstring | RetryAfter provider_error duration |
  Timeout rstring | TransportTimeout | StreamInterrupted | Transport rstring | Connection |
  HttpStatus provider_error nat "rstring option" | Code provider_error rstring |
  Request rstring | InvalidResponse rstring | Response_Incomplete

fun device_poll_delay :: "provider_error \<Rightarrow> nat \<Rightarrow> nat option" where
  "device_poll_delay (Code source _) interval = device_poll_delay source interval"
| "device_poll_delay (HttpStatus source _ _) interval = device_poll_delay source interval"
| "device_poll_delay (RetryAfter source _) interval = device_poll_delay source interval"
| "device_poll_delay (Unavailable text) interval =
     (if text = lit ''device authorization pending'' then Some (max 1 (min 600 interval))
      else if text = lit ''device authorization slow_down'' then Some (max 1 (min 600 (sat_add interval 5)))
      else None)"
| "device_poll_delay _ interval = None"

fun into_semantic :: "provider_error \<Rightarrow> provider_error" where
  "into_semantic (Code source _) = into_semantic source"
| "into_semantic (HttpStatus source _ _) = into_semantic source"
| "into_semantic (RetryAfter source _) = into_semantic source"
| "into_semantic other = other"

fun upstream_request_id :: "provider_error \<Rightarrow> rstring option" where
  "upstream_request_id (HttpStatus source _ request_id) =
     (case request_id of Some i \<Rightarrow> Some i | None \<Rightarrow> upstream_request_id source)"
| "upstream_request_id (Code source _) = upstream_request_id source"
| "upstream_request_id (RetryAfter source _) = upstream_request_id source"
| "upstream_request_id _ = None"

fun with_upstream_id :: "provider_error \<Rightarrow> rstring option \<Rightarrow> provider_error" where
  "with_upstream_id (HttpStatus source status _) request_id = HttpStatus source status request_id"
| "with_upstream_id other request_id = other"

fun safe_code :: "provider_error \<Rightarrow> rstring option" where
  "safe_code (Code _ code) = Some code"
| "safe_code (HttpStatus source _ _) = safe_code source"
| "safe_code (RetryAfter source _) = safe_code source"
| "safe_code _ = None"

fun category :: "provider_error \<Rightarrow> string" where
  "category (Code source _) = category source"
| "category (HttpStatus source _ _) = category source"
| "category (RetryAfter source _) = category source"
| "category (Authentication _) = ''authentication''"
| "category AuthenticationRefreshed = ''authentication''"
| "category AccessDenied = ''access_denied''"
| "category UsageLimit = ''usage_limit''"
| "category ContextLength = ''context_length''"
| "category (RateLimit _ _) = ''rate_limit''"
| "category (Unavailable _) = ''unavailable''"
| "category (Timeout _) = ''timeout''"
| "category TransportTimeout = ''transport_timeout''"
| "category StreamInterrupted = ''stream_interrupted''"
| "category (Transport _) = ''transport''"
| "category Connection = ''connection''"
| "category (Request _) = ''request''"
| "category (InvalidResponse _) = ''invalid_response''"
| "category Response_Incomplete = ''incomplete''"

fun is_context_length :: "provider_error \<Rightarrow> bool" where
  "is_context_length (Code source _) = is_context_length source"
| "is_context_length (HttpStatus source _ _) = is_context_length source"
| "is_context_length (RetryAfter source _) = is_context_length source"
| "is_context_length ContextLength = True"
| "is_context_length _ = False"

fun is_incomplete :: "provider_error \<Rightarrow> bool" where
  "is_incomplete (Code source _) = is_incomplete source"
| "is_incomplete (HttpStatus source _ _) = is_incomplete source"
| "is_incomplete (RetryAfter source _) = is_incomplete source"
| "is_incomplete Response_Incomplete = True"
| "is_incomplete _ = False"

fun http_status :: "provider_error \<Rightarrow> nat option" where
  "http_status (HttpStatus _ status _) = Some status"
| "http_status (Code source _) = http_status source"
| "http_status (RetryAfter source _) = http_status source"
| "http_status _ = None"

definition with_http_status :: "provider_error \<Rightarrow> nat \<Rightarrow> provider_error" where
  "with_http_status e status = HttpStatus e status None"

fun is_retryable :: "provider_error \<Rightarrow> bool" where
  "is_retryable (Code source _) = is_retryable source"
| "is_retryable (RetryAfter source _) = is_retryable source"
| "is_retryable (HttpStatus source _ _) = is_retryable source"
| "is_retryable (RateLimit _ _) = True"
| "is_retryable (Unavailable _) = True"
| "is_retryable (Timeout _) = True"
| "is_retryable TransportTimeout = True"
| "is_retryable StreamInterrupted = True"
| "is_retryable Connection = True"
| "is_retryable AuthenticationRefreshed = True"
| "is_retryable _ = False"

fun retry_after :: "provider_error \<Rightarrow> duration option" where
  "retry_after (Code source _) = retry_after source"
| "retry_after (HttpStatus source _ _) = retry_after source"
| "retry_after (RateLimit _ wait) = wait"
| "retry_after (RetryAfter _ delay) = Some delay"
| "retry_after _ = None"

lemma semantic_classification:
  "category (into_semantic e) = category e" "is_retryable (into_semantic e) = is_retryable e"
  "is_context_length (into_semantic e) = is_context_length e" "is_incomplete (into_semantic e) = is_incomplete e"
  "device_poll_delay (into_semantic e) n = device_poll_delay e n"
  by (induction e) auto

section \<open>Observations\<close>

datatype attempt_phase = Phase_Dispatch | Phase_Stream | Phase_Backoff

datatype retry_decision =
  InFlight | Attempt_Completed | RetryScheduled | ContinuationScheduled | RecoveryInterrupted |
  AttemptsExhausted | ElapsedBudget | ServerDelayLimit | NonRetryable | PartialResponse |
  Attempt_Cancelled | PolicyRevoked | LocalFailure

record request_bytes =
  rb_total :: nat
  rb_instructions :: nat
  rb_schemas :: nat
  rb_history :: nat
  rb_envelope :: nat

record retry_observation =
  ro_request_bytes :: "request_bytes option"
  ro_recovery_of :: "uuid option"
  ro_recovery_deadline_at_ms :: "nat option"
  ro_upstream_request_id :: "rstring option"
  ro_response_timeout_ms :: "nat option"
  ro_stream_idle_ms :: "nat option"
  ro_server_delay_ms :: "nat option"
  ro_max_delay_ms :: "nat option"
  ro_max_elapsed_ms :: "nat option"
  ro_elapsed_ms :: "nat option"
  ro_backoff_ms :: "nat option"
  ro_eligible :: bool
  ro_failure_phase :: "attempt_phase option"
  ro_provider_code :: "rstring option"

record provider_attempt =
  pa_retry :: retry_observation
  pa_request_id :: uuid
  pa_attempt_id :: uuid
  pa_provider :: rstring
  pa_model :: rstring
  pa_attempt :: nat
  pa_limit :: nat
  pa_started_at_ms :: nat
  pa_duration_ms :: nat
  pa_phase :: attempt_phase
  pa_category :: "rstring option"
  pa_http_status :: "nat option"
  pa_text_observed :: bool
  pa_tool_fragment_observed :: bool
  pa_retry_delay_ms :: "nat option"
  pa_decision :: retry_decision

abbreviation on_retry :: "(retry_observation \<Rightarrow> retry_observation) \<Rightarrow> provider_attempt \<Rightarrow> provider_attempt" where
  "on_retry f a \<equiv> a\<lparr>pa_retry := f (pa_retry a)\<rparr>"

definition observed :: "provider_attempt \<Rightarrow> bool" where
  "observed a \<longleftrightarrow> pa_text_observed a \<or> pa_tool_fragment_observed a"

text \<open>The text shown for an attempt. The separator is a middle dot.\<close>

definition dot :: rstring where "dot = [32, 183, 32]"

definition decision_detail :: "provider_attempt \<Rightarrow> string" where
  "decision_detail a = (case pa_decision a of
     InFlight \<Rightarrow> (case pa_phase a of
         Phase_Dispatch \<Rightarrow> ''dispatch recorded; outcome not yet recorded''
       | Phase_Stream \<Rightarrow> ''response started; outcome not yet recorded''
       | Phase_Backoff \<Rightarrow> ''backoff recorded; next dispatch not yet recorded'')
   | Attempt_Completed \<Rightarrow> ''response completed''
   | RetryScheduled \<Rightarrow> ''reconnection retry scheduled''
   | ContinuationScheduled \<Rightarrow> ''partial response retained; history-based continuation scheduled''
   | RecoveryInterrupted \<Rightarrow>
       ''recovery interrupted; previous request is not active; review saved outcomes before continuing''
   | AttemptsExhausted \<Rightarrow> ''attempt limit reached; try again later''
   | ElapsedBudget \<Rightarrow> ''retry time budget reached; try again later''
   | ServerDelayLimit \<Rightarrow> ''server wait exceeds retry limit; try again later''
   | NonRetryable \<Rightarrow>
       if pa_category a = Some (lit ''transport'')
       then ''request not replayed automatically; review saved tool outcomes before continuing''
       else ''request cannot be retried automatically; check provider configuration''
   | PartialResponse \<Rightarrow>
       ''partial response retained; failure does not permit automatic continuation; review saved output before continuing''
   | Attempt_Cancelled \<Rightarrow> ''cancelled; no further automatic retry''
   | LocalFailure \<Rightarrow>
       ''local admission, accounting, or checkpoint failed; check the executing host before retrying''
   | PolicyRevoked \<Rightarrow> ''execution policy revoked; no further automatic retry'')"

definition category_labels :: "(string \<times> string) list" where
  "category_labels =
     [(''authentication'', ''authentication failure''), (''access_denied'', ''account access denied''),
      (''usage_limit'', ''account usage limit''), (''context_length'', ''context rejection''),
      (''rate_limit'', ''rate limit''), (''unavailable'', ''service unavailable''), (''timeout'', ''timeout''),
      (''transport_timeout'', ''connection timeout''), (''stream_interrupted'', ''response stream interrupted''),
      (''connection'', ''connection establishment failed''),
      (''transport'', ''transport failure; remote outcome uncertain''), (''request'', ''request failure''),
      (''invalid_response'', ''invalid or truncated response''), (''incomplete'', ''incomplete response'')]"

definition category_label :: "rstring option \<Rightarrow> string" where
  "category_label c = (case c of None \<Rightarrow> ''provider observation''
     | Some s \<Rightarrow> (case map_of (map (\<lambda>(k, v). (lit k, v)) category_labels) s of
         Some v \<Rightarrow> v | None \<Rightarrow> ''provider observation''))"

definition timed :: "string \<Rightarrow> nat option \<Rightarrow> rstring" where
  "timed text value = (case value of None \<Rightarrow> [] | Some n \<Rightarrow> dot @ lit text @ decimal n @ lit '' ms'')"

definition attempt_summary :: "provider_attempt \<Rightarrow> rstring" where
  "attempt_summary a =
     (let r = pa_retry a;
          phase = (case pa_phase a of Phase_Dispatch \<Rightarrow> ''dispatch'' | Phase_Stream \<Rightarrow> ''stream'' | Phase_Backoff \<Rightarrow> ''backoff'')
      in lit ''Provider attempt '' @ decimal (pa_attempt a) @ lit ''/'' @ decimal (pa_limit a) @ dot @ lit phase @ dot @
         lit (category_label (pa_category a)) @ dot @ lit (decision_detail a) @ dot @ decimal (pa_duration_ms a) @ lit '' ms'' @
         (case pa_http_status a of None \<Rightarrow> [] | Some s \<Rightarrow> dot @ lit ''HTTP '' @ decimal s) @
         (if pa_decision a \<in> {RetryScheduled, ContinuationScheduled} then timed ''wait '' (pa_retry_delay_ms a) else []) @
         timed ''server wait '' (ro_server_delay_ms r) @
         timed ''response-start limit '' (ro_response_timeout_ms r) @
         timed ''stream idle limit '' (ro_stream_idle_ms r) @
         timed ''retry delay limit '' (ro_max_delay_ms r) @
         timed ''retry window '' (ro_max_elapsed_ms r) @
         (case (ro_max_elapsed_ms r, ro_elapsed_ms r) of
            (Some most, Some elapsed) \<Rightarrow> timed ''recovery budget at observation '' (Some (sat_sub most elapsed))
          | _ \<Rightarrow> []) @
         (if ro_recovery_of r \<noteq> None then dot @ lit ''continues an earlier interrupted response'' else []))"

text \<open>Nothing a provider wrote is shown: a summary does not depend on the free text of the observation.\<close>

definition without_provider_text :: "provider_attempt \<Rightarrow> provider_attempt" where
  "without_provider_text a =
     (on_retry (\<lambda>r. r\<lparr>ro_upstream_request_id := None, ro_provider_code := None\<rparr>) a)
       \<lparr>pa_provider := [], pa_model := [],
        pa_category := (if pa_category a \<in> (\<lambda>(k, _). Some (lit k)) ` set category_labels then pa_category a else None)\<rparr>"

lemma without_provider_text_fields:
  fixes a :: provider_attempt
  defines "b \<equiv> without_provider_text a"
  shows "pa_attempt b = pa_attempt a" "pa_limit b = pa_limit a" "pa_phase b = pa_phase a"
    "pa_duration_ms b = pa_duration_ms a" "pa_http_status b = pa_http_status a" "pa_decision b = pa_decision a"
    "pa_retry_delay_ms b = pa_retry_delay_ms a"
    "ro_server_delay_ms (pa_retry b) = ro_server_delay_ms (pa_retry a)"
    "ro_response_timeout_ms (pa_retry b) = ro_response_timeout_ms (pa_retry a)"
    "ro_stream_idle_ms (pa_retry b) = ro_stream_idle_ms (pa_retry a)"
    "ro_max_delay_ms (pa_retry b) = ro_max_delay_ms (pa_retry a)"
    "ro_max_elapsed_ms (pa_retry b) = ro_max_elapsed_ms (pa_retry a)"
    "ro_elapsed_ms (pa_retry b) = ro_elapsed_ms (pa_retry a)"
    "ro_recovery_of (pa_retry b) = ro_recovery_of (pa_retry a)"
  by (simp_all add: b_def without_provider_text_def)

lemma summary_authored: "attempt_summary (without_provider_text a) = attempt_summary a"
proof -
  have label: "category_label (pa_category (without_provider_text a)) = category_label (pa_category a)"
  proof (cases "pa_category a")
    case None
    then show ?thesis by (simp add: without_provider_text_def)
  next
    case (Some s)
    show ?thesis
    proof (cases "Some s \<in> (\<lambda>(k, _). Some (lit k)) ` set category_labels")
      case True
      with Some show ?thesis by (simp add: without_provider_text_def)
    next
      case False
      then have "map_of (map (\<lambda>(k, v). (lit k, v)) category_labels) s = None"
        by (auto simp: map_of_eq_None_iff image_iff)
      with Some False show ?thesis by (simp add: without_provider_text_def category_label_def)
    qed
  qed
  have "Some (lit ''transport'') \<in> (\<lambda>(k, _). Some (lit k)) ` set category_labels"
    by (rule image_eqI [of _ _ "(''transport'', ''transport failure; remote outcome uncertain'')"])
      (simp_all add: category_labels_def)
  then have "decision_detail (without_provider_text a) = decision_detail a"
    by (auto simp: decision_detail_def without_provider_text_def split: retry_decision.split)
  with label show ?thesis
    unfolding attempt_summary_def Let_def by (simp only: without_provider_text_fields)
qed

section \<open>Decisions\<close>

record retry_policy =
  rp_max_attempts :: nat
  rp_initial_delay :: duration
  rp_max_delay :: duration
  rp_max_elapsed :: duration
  rp_response_timeout :: duration
  rp_stream_idle :: duration

definition default_retry_policy :: retry_policy where
  "default_retry_policy =
     \<lparr>rp_max_attempts = 8, rp_initial_delay = 1 * 1000000000, rp_max_delay = 30 * 1000000000,
      rp_max_elapsed = 120 * 1000000000, rp_response_timeout = 60 * 1000000000, rp_stream_idle = 300 * 1000000000\<rparr>"

definition attempt_limit :: "retry_policy \<Rightarrow> nat" where
  "attempt_limit p = max (rp_max_attempts p) 1"

definition jittered :: "duration \<Rightarrow> nat \<Rightarrow> duration" where
  "jittered ceiling sample = (let lower = ceiling div 2 in lower + (ceiling - lower) * sample div u32_max)"

lemma scaled_le: "s \<le> u \<Longrightarrow> n * s div u \<le> (n :: nat)"
proof (cases "u = 0")
  case False
  assume "s \<le> u"
  then have "n * s div u \<le> n * u div u" by (intro div_le_mono mult_le_mono2)
  with False show ?thesis by simp
qed simp

lemma jittered_bounds:
  assumes "sample \<le> u32_max"
  shows "ceiling div 2 \<le> jittered ceiling sample" "jittered ceiling sample \<le> ceiling"
  using scaled_le [OF assms, of "ceiling - ceiling div 2"] div_le_dividend [of ceiling 2]
  by (simp_all only: jittered_def Let_def le_add1 le_diff_conv2 add.commute)

definition decide_retry :: "retry_policy \<Rightarrow> provider_error \<Rightarrow> provider_attempt \<Rightarrow> duration \<Rightarrow> duration \<Rightarrow> nat \<Rightarrow>
    retry_decision \<times> duration option" where
  "decide_retry p e a elapsed delay sample =
     (if observed a \<and> \<not> is_retryable e then (PartialResponse, None)
      else if \<not> is_retryable e then (NonRetryable, None)
      else if pa_limit a \<le> pa_attempt a then (AttemptsExhausted, None)
      else if is_some_and (retry_after e) (\<lambda>wait. rp_max_delay p < wait) then (ServerDelayLimit, None)
      else let wait = (case retry_after e of Some w \<Rightarrow> w | None \<Rightarrow> jittered (min delay (rp_max_delay p)) sample) in
        if rp_max_elapsed p \<le> duration_add elapsed wait then (ElapsedBudget, None)
        else (if observed a then ContinuationScheduled else RetryScheduled, Some wait))"

text \<open>When another attempt is scheduled.\<close>

lemma decide_retry_Some:
  assumes "decide_retry p e a elapsed delay sample = (d, Some wait)" "sample \<le> u32_max"
    "rp_max_elapsed p \<le> duration_max"
  shows "is_retryable e" "pa_attempt a < pa_limit a" "wait \<le> rp_max_delay p" "elapsed + wait < rp_max_elapsed p"
    "d = (if observed a then ContinuationScheduled else RetryScheduled)"
proof -
  have a: "is_retryable e" "pa_attempt a < pa_limit a" "rp_max_elapsed p > duration_add elapsed wait"
    "d = (if observed a then ContinuationScheduled else RetryScheduled)"
    "wait = (case retry_after e of Some w \<Rightarrow> w | None \<Rightarrow> jittered (min delay (rp_max_delay p)) sample)"
    "\<not> is_some_and (retry_after e) (\<lambda>wait. rp_max_delay p < wait)"
    using assms(1) by (auto simp: decide_retry_def Let_def split: if_splits)
  then show "is_retryable e" "pa_attempt a < pa_limit a"
    "d = (if observed a then ContinuationScheduled else RetryScheduled)" by simp_all
  show "wait \<le> rp_max_delay p"
    using a(5,6) jittered_bounds(2) [OF assms(2), of "min delay (rp_max_delay p)"]
    by (cases "retry_after e") auto
  show "elapsed + wait < rp_max_elapsed p"
    using a(3) assms(3) by (simp add: duration_add_def min_def split: if_splits)
qed

lemma decide_retry_None:
  "decide_retry p e a elapsed delay sample = (d, None) \<Longrightarrow>
     d \<in> {PartialResponse, NonRetryable, AttemptsExhausted, ServerDelayLimit, ElapsedBudget}"
  by (auto simp: decide_retry_def Let_def split: if_splits)

section \<open>Recovery\<close>

datatype agent_error =
  Err_Finalization agent_error | Err_Completion rstring | Err_Context | Err_Provider provider_error |
  Err_Policy rstring | Err_Instructions rstring | Err_Cancelled | Err_Checkpoint | Err_Exhausted | Err_Usage

text \<open>The window is the instant at which the recovery group began.\<close>

record recovery_state =
  rs_request_id :: uuid
  rs_next_attempt :: nat
  rs_window :: "duration option"
  rs_delay :: duration
  rs_recovery_of :: "uuid option"
  rs_deadline_at_ms :: "nat option"
  rs_pending :: "provider_attempt option"
  rs_previous_request_size :: "nat option"

definition recovery_new :: "retry_policy \<Rightarrow> uuid \<Rightarrow> recovery_state" where
  "recovery_new p i =
     \<lparr>rs_request_id = i, rs_next_attempt = 1, rs_window = None, rs_delay = rp_initial_delay p, rs_recovery_of = None,
      rs_deadline_at_ms = None, rs_pending = None, rs_previous_request_size = None\<rparr>"

definition rs_elapsed :: "recovery_state \<Rightarrow> duration \<Rightarrow> duration" where
  "rs_elapsed rs now = (case rs_window rs of None \<Rightarrow> 0 | Some start \<Rightarrow> now - start)"

definition rs_begin :: "retry_policy \<Rightarrow> duration \<Rightarrow> nat \<Rightarrow> recovery_state \<Rightarrow> recovery_state" where
  "rs_begin p now wall_ms rs =
     (if rs_window rs = None
      then rs\<lparr>rs_window := Some now, rs_deadline_at_ms := Some (sat_add wall_ms (millis (rp_max_elapsed p)))\<rparr>
      else rs)"

definition rs_next_request :: "uuid \<Rightarrow> recovery_state \<Rightarrow> recovery_state" where
  "rs_next_request i rs = rs\<lparr>rs_request_id := i\<rparr>"

definition rs_has_attempt :: "retry_policy \<Rightarrow> recovery_state \<Rightarrow> bool" where
  "rs_has_attempt p rs \<longleftrightarrow> rs_next_attempt rs \<le> attempt_limit p"

definition rs_continuing :: "recovery_state \<Rightarrow> bool" where
  "rs_continuing rs \<longleftrightarrow> rs_recovery_of rs \<noteq> None"

text \<open>What an execution does, and the store the observations go to.\<close>

datatype action = Saved provider_attempt | Dispatched nat uuid uuid duration | Announced nat duration

record 's execution =
  ex_store :: 's
  ex_recovery :: recovery_state
  ex_log :: "action list"

type_synonym 's checkpoint = "provider_attempt \<Rightarrow> 's \<Rightarrow> 's \<times> agent_error option"

definition record_attempt :: "'s checkpoint \<Rightarrow> provider_attempt \<Rightarrow> 's execution \<Rightarrow>
    's execution \<times> agent_error option" where
  "record_attempt cp a ex =
     (case cp a (ex_store ex) of
        (s, None) \<Rightarrow> (ex\<lparr>ex_store := s, ex_log := ex_log ex @ [Saved a]\<rparr>, None)
      | (s, Some e) \<Rightarrow> (ex\<lparr>ex_store := s\<rparr>, Some e))"

definition stop_decision :: "agent_error \<Rightarrow> retry_decision" where
  "stop_decision e = (case e of Err_Cancelled \<Rightarrow> Attempt_Cancelled | Err_Policy _ \<Rightarrow> PolicyRevoked | _ \<Rightarrow> LocalFailure)"

definition stop_pending :: "'s checkpoint \<Rightarrow> agent_error \<Rightarrow> 's execution \<Rightarrow> 's execution \<times> agent_error option" where
  "stop_pending cp e ex =
     (case rs_pending (ex_recovery ex) of
        None \<Rightarrow> (ex, None)
      | Some a \<Rightarrow> record_attempt cp (on_retry (\<lambda>r. r\<lparr>ro_eligible := False\<rparr>) (a\<lparr>pa_decision := stop_decision e\<rparr>))
          (ex\<lparr>ex_recovery := (ex_recovery ex)\<lparr>rs_pending := None\<rparr>\<rparr>))"

section \<open>The stream of one request\<close>

text \<open>
  An event carries what the code around it returned: the publication of a delta, the redaction of the
  response, or the wait for the next event, each of which may stop the request. An exhausted stream
  was interrupted.
\<close>

datatype 'r stream_event =
  Ev_Metadata nat "rstring option" | Ev_Activity | Ev_Usage | Ev_Text rstring "agent_error option" |
  Ev_Tool "agent_error option" | Ev_Reasoning "agent_error option" | Ev_Completed 'r "agent_error option" |
  Ev_Error provider_error | Ev_Wait agent_error

text \<open>The observation after an event, whether it is saved, and the end of the request.\<close>

definition event_step :: "(rstring \<Rightarrow> bool) \<Rightarrow> 'r stream_event \<Rightarrow> provider_attempt \<Rightarrow>
    provider_attempt \<times> bool \<times> (agent_error, 'r) result option" where
  "event_step secret ev a = (case ev of
     Ev_Metadata status request_id \<Rightarrow>
       (on_retry (\<lambda>r. r\<lparr>ro_upstream_request_id :=
            (case request_id of Some i \<Rightarrow> if secret i then None else Some i | None \<Rightarrow> None)\<rparr>)
          (a\<lparr>pa_http_status := Some status\<rparr>), True, None)
   | Ev_Activity \<Rightarrow> (a, False, None)
   | Ev_Usage \<Rightarrow> (a, False, None)
   | Ev_Text text published \<Rightarrow>
       if text = [] then (a, False, None)
       else (a\<lparr>pa_text_observed := True\<rparr>, \<not> pa_text_observed a, map_option Inl published)
   | Ev_Tool published \<Rightarrow>
       (a\<lparr>pa_tool_fragment_observed := True\<rparr>, \<not> pa_tool_fragment_observed a, map_option Inl published)
   | Ev_Reasoning published \<Rightarrow> (a, False, map_option Inl published)
   | Ev_Completed response redacted \<Rightarrow> (a, False, Some (case redacted of None \<Rightarrow> Inr response | Some e \<Rightarrow> Inl e))
   | Ev_Error e \<Rightarrow> (a, False, Some (Inl (Err_Provider e)))
   | Ev_Wait e \<Rightarrow> (a, False, Some (Inl e)))"

abbreviation save_if :: "bool \<Rightarrow> 's checkpoint \<Rightarrow> provider_attempt \<Rightarrow> 's execution \<Rightarrow> 's execution \<times> agent_error option" where
  "save_if b cp a ex \<equiv> (if b then record_attempt cp a ex else (ex, None))"

fun stream_events :: "'s checkpoint \<Rightarrow> (rstring \<Rightarrow> bool) \<Rightarrow> 'r stream_event list \<Rightarrow> provider_attempt \<Rightarrow> 's execution \<Rightarrow>
    's execution \<times> provider_attempt \<times> (agent_error, 'r) result" where
  "stream_events cp secret [] a ex = (ex, a, Inl (Err_Provider StreamInterrupted))"
| "stream_events cp secret (ev # evs) a ex =
     (case event_step secret ev a of (a', save, stop) \<Rightarrow>
      case save_if save cp a' ex of
        (ex', Some e) \<Rightarrow> (ex', a', Inl e)
      | (ex', None) \<Rightarrow> (case stop of Some r \<Rightarrow> (ex', a', r) | None \<Rightarrow> stream_events cp secret evs a' ex'))"

text \<open>
  Opening the stream: refused by policy before the request, failed (the wait, or the provider), or open.
\<close>

datatype 'r response_start = Refused agent_error | Failed agent_error | Opened "'r stream_event list"

definition attempt_stream :: "'s checkpoint \<Rightarrow> (rstring \<Rightarrow> bool) \<Rightarrow> 'r response_start \<Rightarrow> duration \<Rightarrow> provider_attempt \<Rightarrow>
    's execution \<Rightarrow> 's execution \<times> provider_attempt \<times> (agent_error, 'r) result" where
  "attempt_stream cp secret response elapsed a ex =
     (let sent = ex\<lparr>ex_log := ex_log ex @ [Dispatched (pa_attempt a) (pa_attempt_id a) (pa_request_id a) elapsed]\<rparr> in
      case response of
        Refused e \<Rightarrow> (ex, a, Inl e)
      | Failed e \<Rightarrow> (sent, a, Inl e)
      | Opened evs \<Rightarrow>
          let a' = a\<lparr>pa_phase := Phase_Stream\<rparr> in
          (case record_attempt cp a' sent of
             (ex', Some e) \<Rightarrow> (ex', a', Inl e)
           | (ex', None) \<Rightarrow> stream_events cp secret evs a' ex'))"

section \<open>The loop\<close>

record attempt_setup =
  su_policy :: retry_policy
  su_provider :: rstring
  su_redact :: "rstring \<Rightarrow> rstring"
  su_secret :: "rstring \<Rightarrow> bool"

text \<open>One attempt's surroundings: checks, identifiers, the response, and the clock at each reading.\<close>

record 'r attempt_world =
  aw_cancelled :: bool
  aw_policy :: "rstring option"
  aw_authority :: bool
  aw_attempt_id :: uuid
  aw_started_at_ms :: nat
  aw_check :: duration
  aw_check_again :: duration
  aw_response :: "'r response_start"
  aw_request_bytes :: "request_bytes option"
  aw_duration :: duration
  aw_fail :: duration
  aw_wall_ms :: nat
  aw_observe :: duration
  aw_decide :: duration
  aw_sample :: "32 word"
  aw_stop :: "agent_error option"
  aw_backoff :: duration
  aw_resume :: duration
  aw_late :: duration
  aw_request_id :: uuid

datatype 'r request_outcome = Request_Completed 'r | Request_Interrupted uuid

text \<open>The end of the request, with the panic of the exhausted loop, or another attempt.\<close>

datatype 'r turn = Turn_Err agent_error | Turn_Ok "'r request_outcome" | Turn_Panic

datatype 'r step = Finish "'r turn" | Again

definition new_attempt :: "attempt_setup \<Rightarrow> rstring \<Rightarrow> nat \<Rightarrow> 'r attempt_world \<Rightarrow> recovery_state \<Rightarrow> provider_attempt" where
  "new_attempt su model attempt w rs =
     \<lparr>pa_retry = \<lparr>ro_request_bytes = None, ro_recovery_of = rs_recovery_of rs,
        ro_recovery_deadline_at_ms = rs_deadline_at_ms rs, ro_upstream_request_id = None,
        ro_response_timeout_ms = Some (millis (rp_response_timeout (su_policy su))),
        ro_stream_idle_ms = Some (millis (rp_stream_idle (su_policy su))), ro_server_delay_ms = None,
        ro_max_delay_ms = Some (millis (rp_max_delay (su_policy su))),
        ro_max_elapsed_ms = Some (millis (rp_max_elapsed (su_policy su))), ro_elapsed_ms = None, ro_backoff_ms = None,
        ro_eligible = False, ro_failure_phase = None, ro_provider_code = None\<rparr>,
      pa_request_id = rs_request_id rs, pa_attempt_id = aw_attempt_id w, pa_provider = su_provider su,
      pa_model = take 256 (filter (\<lambda>c. \<not> is_control c) (su_redact su model)),
      pa_attempt = attempt, pa_limit = attempt_limit (su_policy su), pa_started_at_ms = aw_started_at_ms w,
      pa_duration_ms = 0, pa_phase = Phase_Dispatch, pa_category = None, pa_http_status = None,
      pa_text_observed = False, pa_tool_fragment_observed = False, pa_retry_delay_ms = None, pa_decision = InFlight\<rparr>"

abbreviation save_or_stop where
  "save_or_stop cp a ex k \<equiv>
     (case record_attempt cp a ex of (ex', None) \<Rightarrow> k ex' | (ex', Some e) \<Rightarrow> (ex', Finish (Turn_Err e)))"

text \<open>What the observation says of a failure.\<close>

definition failed_attempt :: "attempt_setup \<Rightarrow> provider_error \<Rightarrow> 'r attempt_world \<Rightarrow> recovery_state \<Rightarrow> provider_attempt \<Rightarrow>
    provider_attempt" where
  "failed_attempt su e w rs a =
     on_retry (\<lambda>r. r\<lparr>ro_recovery_deadline_at_ms := rs_deadline_at_ms rs,
         ro_upstream_request_id := (case upstream_request_id e of
             Some i \<Rightarrow> if su_secret su i then ro_upstream_request_id r else Some i
           | None \<Rightarrow> ro_upstream_request_id r),
         ro_server_delay_ms := map_option millis (retry_after e),
         ro_elapsed_ms := Some (millis (rs_elapsed rs (aw_observe w))),
         ro_failure_phase := Some (pa_phase a), ro_eligible := is_retryable e, ro_provider_code := safe_code e\<rparr>)
       (a\<lparr>pa_category := Some (lit (category e)),
          pa_http_status := (case http_status e of Some s \<Rightarrow> Some s | None \<Rightarrow> pa_http_status a)\<rparr>)"

text \<open>After the wait: stopped, too late, a continuation, or another attempt of the same request.\<close>

definition after_wait :: "'s checkpoint \<Rightarrow> attempt_setup \<Rightarrow> provider_error \<Rightarrow> 'r attempt_world \<Rightarrow> provider_attempt \<Rightarrow>
    's execution \<Rightarrow> 's execution \<times> 'r step" where
  "after_wait cp su e w a ex =
     (let rs = ex_recovery ex; p = su_policy su;
          a = on_retry (\<lambda>r. r\<lparr>ro_backoff_ms := Some (millis (aw_backoff w)),
                ro_elapsed_ms := Some (millis (rs_elapsed rs (aw_resume w)))\<rparr>) a in
      case aw_stop w of
        Some stop \<Rightarrow>
          save_or_stop cp (a\<lparr>pa_phase := Phase_Backoff,
              pa_decision := (if stop = Err_Cancelled then Attempt_Cancelled else PolicyRevoked)\<rparr>) ex
            (\<lambda>ex. (ex, Finish (Turn_Err stop)))
      | None \<Rightarrow>
          if rp_max_elapsed p \<le> rs_elapsed rs (aw_late w)
          then save_or_stop cp (a\<lparr>pa_phase := Phase_Backoff, pa_decision := ElapsedBudget\<rparr>) ex
                 (\<lambda>ex. (ex, Finish (Turn_Err (Err_Provider e))))
          else save_or_stop cp a ex (\<lambda>ex.
            let rs = (ex_recovery ex)\<lparr>rs_delay := min (min (rs_delay rs * 2) duration_max) (rp_max_delay p)\<rparr> in
            if observed a
            then (ex\<lparr>ex_recovery := rs\<lparr>rs_pending := Some a, rs_recovery_of := Some (pa_attempt_id a),
                     rs_request_id := aw_request_id w\<rparr>\<rparr>, Finish (Turn_Ok (Request_Interrupted (pa_attempt_id a))))
            else (ex\<lparr>ex_recovery := rs\<rparr>, Again)))"

definition provider_failed :: "'s checkpoint \<Rightarrow> attempt_setup \<Rightarrow> provider_error \<Rightarrow> 'r attempt_world \<Rightarrow> provider_attempt \<Rightarrow>
    's execution \<Rightarrow> 's execution \<times> 'r step" where
  "provider_failed cp su e w a ex =
     (let p = su_policy su;
          rs = (if is_retryable e then rs_begin p (aw_fail w) (aw_wall_ms w) (ex_recovery ex) else ex_recovery ex);
          a = failed_attempt su e w rs a;
          (decision, wait) = decide_retry p e a (rs_elapsed rs (aw_decide w)) (rs_delay rs) (unat (aw_sample w));
          a = a\<lparr>pa_decision := decision, pa_retry_delay_ms := map_option millis wait\<rparr> in
      save_or_stop cp a (ex\<lparr>ex_recovery := rs\<rparr>) (\<lambda>ex.
        case wait of
          None \<Rightarrow> (ex, Finish (Turn_Err (Err_Provider
            (if observed a \<and> is_context_length e then Response_Incomplete else e))))
        | Some d \<Rightarrow> after_wait cp su e w a (ex\<lparr>ex_log := ex_log ex @ [Announced (pa_attempt a) d]\<rparr>)))"

fun provider_cause :: "agent_error \<Rightarrow> provider_error option" where
  "provider_cause (Err_Provider e) = Some e"
| "provider_cause _ = None"

text \<open>After the stream: completed, failed at the provider, or stopped locally.\<close>

definition conclude_attempt :: "'s checkpoint \<Rightarrow> attempt_setup \<Rightarrow> 'r attempt_world \<Rightarrow> provider_attempt \<Rightarrow>
    (agent_error, 'r) result \<Rightarrow> 's execution \<Rightarrow> 's execution \<times> 'r step" where
  "conclude_attempt cp su w a outcome ex =
     (case outcome of
        Inr response \<Rightarrow> save_or_stop cp (a\<lparr>pa_decision := Attempt_Completed\<rparr>) ex
          (\<lambda>ex. (ex, Finish (Turn_Ok (Request_Completed response))))
      | Inl err \<Rightarrow>
          (case provider_cause err of
             Some e \<Rightarrow> provider_failed cp su e w a ex
           | None \<Rightarrow> save_or_stop cp (a\<lparr>pa_decision := stop_decision err\<rparr>) ex (\<lambda>ex. (ex, Finish (Turn_Err err)))))"

text \<open>After the intent is saved: too late, or the request.\<close>

definition dispatch_attempt :: "'s checkpoint \<Rightarrow> attempt_setup \<Rightarrow> nat \<Rightarrow> 'r attempt_world \<Rightarrow> provider_attempt \<Rightarrow>
    's execution \<Rightarrow> 's execution \<times> 'r step" where
  "dispatch_attempt cp su attempt w a ex =
     (let rs = ex_recovery ex; t = rs_elapsed rs (aw_check w) in
      if 1 < attempt \<and> rp_max_elapsed (su_policy su) \<le> t
      then save_or_stop cp (on_retry (\<lambda>r. r\<lparr>ro_elapsed_ms := Some (millis (rs_elapsed rs (aw_check_again w)))\<rparr>)
             (a\<lparr>pa_decision := ElapsedBudget\<rparr>)) ex
             (\<lambda>ex. (ex, Finish (Turn_Err (Err_Provider (Timeout (lit ''retry admission window elapsed before dispatch''))))))
      else case attempt_stream cp (su_secret su) (aw_response w) t a ex of
        (ex, a, outcome) \<Rightarrow>
          conclude_attempt cp su w
            (on_retry (\<lambda>r. r\<lparr>ro_request_bytes := aw_request_bytes w\<rparr>) (a\<lparr>pa_duration_ms := millis (aw_duration w)\<rparr>)) outcome ex)"

definition one_attempt :: "'s checkpoint \<Rightarrow> attempt_setup \<Rightarrow> rstring \<Rightarrow> nat \<Rightarrow> 'r attempt_world \<Rightarrow> 's execution \<Rightarrow>
    's execution \<times> 'r step" where
  "one_attempt cp su model attempt w ex0 =
     (let ex = ex0\<lparr>ex_recovery := (ex_recovery ex0)\<lparr>rs_next_attempt := sat_add attempt 1\<rparr>\<rparr> in
      if aw_cancelled w then (ex, Finish (Turn_Err Err_Cancelled))
      else case aw_policy w of
        Some reason \<Rightarrow> (ex, Finish (Turn_Err (Err_Policy reason)))
      | None \<Rightarrow>
        if \<not> aw_authority w
        then (ex, Finish (Turn_Err (Err_Policy (lit ''foreground execution authority unavailable''))))
        else let a = new_attempt su model attempt w (ex_recovery ex) in
        save_or_stop cp a ex (\<lambda>ex.
          dispatch_attempt cp su attempt w a (ex\<lparr>ex_recovery := (ex_recovery ex)\<lparr>rs_pending := None\<rparr>\<rparr>)))"

function attempts_from :: "'s checkpoint \<Rightarrow> attempt_setup \<Rightarrow> rstring \<Rightarrow> (nat \<Rightarrow> 'r attempt_world) \<Rightarrow> nat \<Rightarrow> 's execution \<Rightarrow>
    's execution \<times> 'r turn" where
  "attempts_from cp su model world attempt ex =
     (if attempt_limit (su_policy su) < attempt then (ex, Turn_Panic)
      else case one_attempt cp su model attempt (world attempt) ex of
        (ex', Finish t) \<Rightarrow> (ex', t)
      | (ex', Again) \<Rightarrow> attempts_from cp su model world (attempt + 1) ex')"
  by pat_completeness auto

termination attempts_from
  by (relation "measure (\<lambda>(_, su, _, _, attempt, _). attempt_limit (su_policy su) + 1 - attempt)") auto

declare attempts_from.simps [simp del]

definition provider_request_attempts :: "'s checkpoint \<Rightarrow> attempt_setup \<Rightarrow> rstring \<Rightarrow> (nat \<Rightarrow> 'r attempt_world) \<Rightarrow>
    's execution \<Rightarrow> 's execution \<times> 'r turn" where
  "provider_request_attempts cp su model world ex =
     attempts_from cp su model world (rs_next_attempt (ex_recovery ex)) ex"

section \<open>What the log shows\<close>

definition extends :: "(action \<Rightarrow> bool) \<Rightarrow> 's execution \<Rightarrow> 's execution \<Rightarrow> bool" where
  "extends ok ex ex' \<longleftrightarrow> (\<exists>l. ex_log ex' = ex_log ex @ l \<and> (\<forall>x \<in> set l. ok x))"

lemma extends_refl [intro, simp]: "extends ok ex ex"
  by (auto simp: extends_def)

lemma extends_same_log: "ex_log ex' = ex_log ex \<Longrightarrow> extends ok ex ex'"
  by (auto simp: extends_def)

lemma extends_trans: "extends ok a b \<Longrightarrow> extends ok b c \<Longrightarrow> extends ok a c"
  by (auto simp: extends_def)

lemma extends_mono: "extends ok a b \<Longrightarrow> (\<And>x. ok x \<Longrightarrow> ok' x) \<Longrightarrow> extends ok' a b"
  by (auto simp: extends_def)

lemma extends_recovery [simp]:
  "extends ok (a\<lparr>ex_recovery := r\<rparr>) b = extends ok a b" "extends ok a (b\<lparr>ex_recovery := r\<rparr>) = extends ok a b"
  by (simp_all add: extends_def)

lemma record_attempt_extends:
  assumes "record_attempt cp a ex = (ex', r)"
  shows "ok (Saved a) \<Longrightarrow> extends ok ex ex'" "ex_recovery ex' = ex_recovery ex"
    "r = None \<Longrightarrow> ex_log ex' = ex_log ex @ [Saved a]"
  using assms by (auto simp: record_attempt_def extends_def split: prod.splits option.splits)

definition same_attempt :: "provider_attempt \<Rightarrow> provider_attempt \<Rightarrow> bool" where
  "same_attempt a b \<longleftrightarrow> pa_attempt_id a = pa_attempt_id b \<and> pa_request_id a = pa_request_id b \<and>
     pa_attempt a = pa_attempt b \<and> pa_limit a = pa_limit b \<and> pa_provider a = pa_provider b \<and>
     pa_model a = pa_model b \<and> pa_started_at_ms a = pa_started_at_ms b \<and>
     ro_recovery_of (pa_retry a) = ro_recovery_of (pa_retry b)"

lemma same_attempt_refl [simp]: "same_attempt a a"
  by (simp add: same_attempt_def)

lemma same_attempt_trans: "same_attempt a b \<Longrightarrow> same_attempt b c \<Longrightarrow> same_attempt a c"
  by (simp add: same_attempt_def)

lemma event_step_same:
  "event_step secret ev a = (a', save, stop) \<Longrightarrow> same_attempt a a' \<and> (observed a \<longrightarrow> observed a')"
  by (cases ev) (auto simp: event_step_def same_attempt_def observed_def split: if_splits)

text \<open>What the events of a stream save: observations of this attempt that say no more than its final one.\<close>

definition stream_save :: "provider_attempt \<Rightarrow> provider_attempt \<Rightarrow> action \<Rightarrow> bool" where
  "stream_save a final x \<longleftrightarrow> (\<exists>b. x = Saved b \<and> same_attempt a b \<and> (observed b \<longrightarrow> observed final))"

lemma save_if_extends:
  assumes "save_if b cp a ex = (ex', r)"
  shows "ok (Saved a) \<Longrightarrow> extends ok ex ex'" "ex_recovery ex' = ex_recovery ex"
  using assms record_attempt_extends [of cp a ex ex' r] by (auto split: if_splits)

lemma stream_events_log:
  assumes "stream_events cp secret evs a ex = (ex', a', r)"
  shows "extends (stream_save a a') ex ex' \<and> same_attempt a a' \<and> (observed a \<longrightarrow> observed a') \<and>
    ex_recovery ex' = ex_recovery ex"
  using assms
proof (induction cp secret evs a ex arbitrary: ex' a' r rule: stream_events.induct)
  case (1 cp secret a ex)
  then show ?case by simp
next
  case (2 cp secret ev evs a ex)
  obtain b save stop where step: "event_step secret ev a = (b, save, stop)" by (metis prod_cases3)
  obtain ex1 e where rec: "save_if save cp b ex = (ex1, e)" by (metis surj_pair)
  note same = event_step_same [OF step]
  have "(e \<noteq> None \<or> stop \<noteq> None) \<and> ex' = ex1 \<and> a' = b \<or>
    e = None \<and> stop = None \<and> stream_events cp secret evs b ex1 = (ex', a', r)"
    using "2.prems" by (auto simp: step rec split: option.splits)
  then have rest: "extends (stream_save b a') ex1 ex' \<and> same_attempt b a' \<and> (observed b \<longrightarrow> observed a') \<and>
      ex_recovery ex' = ex_recovery ex1"
    using "2.IH" [OF step [symmetric] refl rec [symmetric]] by auto
  have "extends (stream_save a a') ex ex1"
    using save_if_extends(1) [OF rec] same rest by (simp add: stream_save_def)
  moreover have "extends (stream_save a a') ex1 ex'"
    by (rule extends_mono [of "stream_save b a'"]) (use rest same same_attempt_trans in \<open>auto simp: stream_save_def\<close>)
  ultimately show ?case
    using rest same same_attempt_trans save_if_extends(2) [OF rec] by (metis extends_trans)
qed

definition settles :: "provider_attempt \<Rightarrow> retry_policy \<Rightarrow> action \<Rightarrow> bool" where
  "settles final p x \<longleftrightarrow>
     (case x of Saved b \<Rightarrow> observed b \<longrightarrow> observed final
      | Announced n d \<Rightarrow> n = pa_attempt final \<and> n < pa_limit final \<and> d \<le> rp_max_delay p
      | Dispatched _ _ _ _ \<Rightarrow> False)"

lemma attempt_stream_log:
  assumes "attempt_stream cp secret response elapsed a ex = (ex', a', r)"
  shows "\<exists>sent. ex_log sent \<in> {ex_log ex, ex_log ex @ [Dispatched (pa_attempt a) (pa_attempt_id a) (pa_request_id a) elapsed]} \<and>
    extends (stream_save a a') sent ex' \<and> same_attempt a a' \<and> ex_recovery ex' = ex_recovery ex"
proof -
  let ?sent = "ex\<lparr>ex_log := ex_log ex @ [Dispatched (pa_attempt a) (pa_attempt_id a) (pa_request_id a) elapsed]\<rparr>"
  let ?b = "a\<lparr>pa_phase := Phase_Stream\<rparr>"
  show ?thesis
  proof (cases response)
    case (Refused e)
    with assms show ?thesis by (intro exI [of _ ex]) (simp add: attempt_stream_def)
  next
    case (Failed e)
    with assms show ?thesis by (intro exI [of _ ?sent]) (auto simp: attempt_stream_def)
  next
    case (Opened evs)
    obtain ex1 e where rec: "record_attempt cp ?b ?sent = (ex1, e)" by fastforce
    have same: "same_attempt a ?b" "observed ?b = observed a" by (simp_all add: same_attempt_def observed_def)
    have "e \<noteq> None \<and> ex' = ex1 \<and> a' = ?b \<or> e = None \<and> stream_events cp secret evs ?b ex1 = (ex', a', r)"
      using assms Opened by (auto simp: attempt_stream_def Let_def rec split: option.splits)
    then have rest: "extends (stream_save ?b a') ex1 ex'" "same_attempt ?b a'" "observed ?b \<longrightarrow> observed a'"
      "ex_recovery ex' = ex_recovery ex1"
      using stream_events_log [of cp secret evs ?b ex1 ex' a' r] by auto
    have "extends (stream_save a a') ?sent ex1"
      using record_attempt_extends(1) [OF rec] same rest(3) by (auto simp: stream_save_def)
    moreover have "extends (stream_save a a') ex1 ex'"
      by (rule extends_mono [OF rest(1)]) (use same same_attempt_trans in \<open>auto simp: stream_save_def\<close>)
    ultimately have "extends (stream_save a a') ?sent ex'" by (rule extends_trans)
    with rest same record_attempt_extends(2) [OF rec] same_attempt_trans show ?thesis
      by (intro exI [of _ ?sent]) auto
  qed
qed

lemma after_wait_log:
  assumes "after_wait cp su e w a ex = (ex', st)"
  shows "extends (settles a (su_policy su)) ex ex'"
    "st = Again \<Longrightarrow> \<not> observed a"
    "rs_next_attempt (ex_recovery ex') = rs_next_attempt (ex_recovery ex)"
    "st = Finish (Turn_Ok t) \<Longrightarrow> t = Request_Interrupted (pa_attempt_id a) \<and> observed a \<and>
       rs_recovery_of (ex_recovery ex') = Some (pa_attempt_id a) \<and> rs_request_id (ex_recovery ex') = aw_request_id w"
    "st \<noteq> Finish Turn_Panic"
proof -
  let ?rs = "ex_recovery ex"
  let ?b = "on_retry (\<lambda>r. r\<lparr>ro_backoff_ms := Some (millis (aw_backoff w)),
                ro_elapsed_ms := Some (millis (rs_elapsed ?rs (aw_resume w)))\<rparr>) a"
  have saved: "extends (settles a (su_policy su)) ex ex1"
    if "record_attempt cp c ex = (ex1, r)" "observed c = observed a" for c ex1 r
    using record_attempt_extends(1) [OF that(1), of "settles a (su_policy su)"] that(2) by (simp add: settles_def)
  have concl: "extends (settles a (su_policy su)) ex ex' \<and> (st = Again \<longrightarrow> \<not> observed a) \<and>
    rs_next_attempt (ex_recovery ex') = rs_next_attempt (ex_recovery ex) \<and>
    (st = Finish (Turn_Ok t) \<longrightarrow> t = Request_Interrupted (pa_attempt_id a) \<and> observed a \<and>
       rs_recovery_of (ex_recovery ex') = Some (pa_attempt_id a) \<and> rs_request_id (ex_recovery ex') = aw_request_id w) \<and>
    st \<noteq> Finish Turn_Panic" for t
  proof (cases "aw_stop w")
    case (Some stop)
    obtain ex1 r where rec: "record_attempt cp (?b\<lparr>pa_phase := Phase_Backoff,
        pa_decision := (if stop = Err_Cancelled then Attempt_Cancelled else PolicyRevoked)\<rparr>) ex = (ex1, r)" by fastforce
    from record_attempt_extends(2) [OF rec] saved [OF rec] assms Some show ?thesis
      by (auto simp: after_wait_def Let_def rec observed_def split: option.splits)
  next
    case None
    show ?thesis
    proof (cases "rp_max_elapsed (su_policy su) \<le> rs_elapsed ?rs (aw_late w)")
      case True
      obtain ex1 r where rec: "record_attempt cp (?b\<lparr>pa_phase := Phase_Backoff, pa_decision := ElapsedBudget\<rparr>) ex = (ex1, r)"
        by fastforce
      from record_attempt_extends(2) [OF rec] saved [OF rec] assms None True show ?thesis
        by (auto simp: after_wait_def Let_def rec observed_def split: option.splits)
    next
      case False
      obtain ex1 r where rec: "record_attempt cp ?b ex = (ex1, r)" by fastforce
      have "observed ?b = observed a" by (simp add: observed_def)
      with record_attempt_extends(2) [OF rec] saved [OF rec] assms None False show ?thesis
        by (auto simp: after_wait_def Let_def rec split: option.splits if_splits)
    qed
  qed
  from concl show "extends (settles a (su_policy su)) ex ex'" "st = Again \<Longrightarrow> \<not> observed a"
    "rs_next_attempt (ex_recovery ex') = rs_next_attempt (ex_recovery ex)"
    "st = Finish (Turn_Ok t) \<Longrightarrow> t = Request_Interrupted (pa_attempt_id a) \<and> observed a \<and>
       rs_recovery_of (ex_recovery ex') = Some (pa_attempt_id a) \<and> rs_request_id (ex_recovery ex') = aw_request_id w"
    "st \<noteq> Finish Turn_Panic" by blast+
qed


lemma provider_failed_log:
  assumes "provider_failed cp su e w a ex = (ex', st)" "rp_max_elapsed (su_policy su) \<le> duration_max"
  shows "extends (settles a (su_policy su)) ex ex' \<and>
    (st = Again \<longrightarrow> \<not> observed a \<and> pa_attempt a < pa_limit a) \<and>
    rs_next_attempt (ex_recovery ex') = rs_next_attempt (ex_recovery ex) \<and>
    (st = Finish (Turn_Ok t) \<longrightarrow> t = Request_Interrupted (pa_attempt_id a) \<and> observed a \<and> pa_attempt a < pa_limit a \<and>
       rs_recovery_of (ex_recovery ex') = Some (pa_attempt_id a) \<and> rs_request_id (ex_recovery ex') = aw_request_id w) \<and>
    st \<noteq> Finish Turn_Panic"
proof -
  define rs where "rs = (if is_retryable e then rs_begin (su_policy su) (aw_fail w) (aw_wall_ms w) (ex_recovery ex)
    else ex_recovery ex)"
  define b where "b = failed_attempt su e w rs a"
  obtain d wait where dec: "decide_retry (su_policy su) e b (rs_elapsed rs (aw_decide w)) (rs_delay rs) (unat (aw_sample w)) = (d, wait)"
    by fastforce
  define c where "c = b\<lparr>pa_decision := d, pa_retry_delay_ms := map_option millis wait\<rparr>"
  have same: "observed c = observed a" "pa_attempt c = pa_attempt a" "pa_limit c = pa_limit a"
    "pa_attempt_id c = pa_attempt_id a" "pa_attempt b = pa_attempt a" "pa_limit b = pa_limit a"
    by (simp_all add: c_def b_def failed_attempt_def observed_def)
  then have settles: "settles c = settles a" by (intro ext) (simp add: settles_def split: action.split)
  have counter: "rs_next_attempt rs = rs_next_attempt (ex_recovery ex)" by (simp add: rs_def rs_begin_def)
  obtain ex1 r where rec: "record_attempt cp c (ex\<lparr>ex_recovery := rs\<rparr>) = (ex1, r)" by fastforce
  have ex1: "extends (settles a (su_policy su)) ex ex1" "ex_recovery ex1 = rs"
    using record_attempt_extends(1) [OF rec, of "settles a (su_policy su)"] record_attempt_extends(2) [OF rec] same
    by (simp_all add: settles_def)
  have run: "provider_failed cp su e w a ex = (case r of
      Some x \<Rightarrow> (ex1, Finish (Turn_Err x))
    | None \<Rightarrow> (case wait of
        None \<Rightarrow> (ex1, Finish (Turn_Err (Err_Provider (if observed c \<and> is_context_length e then Response_Incomplete else e))))
      | Some d \<Rightarrow> after_wait cp su e w c (ex1\<lparr>ex_log := ex_log ex1 @ [Announced (pa_attempt c) d]\<rparr>)))"
    unfolding provider_failed_def Let_def rs_def [symmetric] b_def [symmetric] dec prod.case c_def [symmetric] rec
    by (auto split: option.splits)
  show ?thesis
  proof (cases "r = None \<and> wait \<noteq> None")
    case False
    with assms(1) ex1 counter show ?thesis unfolding run by (auto split: option.splits)
  next
    case True
    then obtain delay where wait: "wait = Some delay" by auto
    let ?ex2 = "ex1\<lparr>ex_log := ex_log ex1 @ [Announced (pa_attempt c) delay]\<rparr>"
    have after: "after_wait cp su e w c ?ex2 = (ex', st)" using assms(1) True wait unfolding run by simp
    have "unat (aw_sample w) \<le> u32_max" using unsigned_less [of "aw_sample w", where ?'a = nat] by simp
    note bounds = decide_retry_Some [OF dec [unfolded wait] this assms(2)]
    have "extends (settles a (su_policy su)) ex1 ?ex2"
      using bounds same by (auto simp: extends_def settles_def)
    then have "extends (settles a (su_policy su)) ex ex'"
      using ex1(1) after_wait_log(1) [OF after] extends_trans unfolding settles by blast
    with after_wait_log(2-5) [OF after] bounds(2) same counter ex1(2) show ?thesis by auto
  qed
qed

text \<open>What a step leaves behind, whatever it met.\<close>

definition step_facts :: "attempt_setup \<Rightarrow> nat \<Rightarrow> 'r attempt_world \<Rightarrow> 'r step \<Rightarrow> 's execution \<Rightarrow> bool" where
  "step_facts su attempt w st ex' \<longleftrightarrow>
     rs_next_attempt (ex_recovery ex') = sat_add attempt 1 \<and> st \<noteq> Finish Turn_Panic \<and>
     (st = Again \<longrightarrow> attempt < attempt_limit (su_policy su)) \<and>
     (\<forall>i. st = Finish (Turn_Ok (Request_Interrupted i)) \<longrightarrow> attempt < attempt_limit (su_policy su) \<and>
        i = aw_attempt_id w \<and> rs_recovery_of (ex_recovery ex') = Some i \<and> rs_request_id (ex_recovery ex') = aw_request_id w)"

lemma step_facts_error:
  "rs_next_attempt (ex_recovery ex') = sat_add attempt 1 \<Longrightarrow> step_facts su attempt w (Finish (Turn_Err e)) ex'"
  by (simp add: step_facts_def)

lemma save_or_stop_log:
  assumes "(case record_attempt cp a ex of (ex', None) \<Rightarrow> (ex', Finish t) | (ex', Some e) \<Rightarrow> (ex', Finish (Turn_Err e))) = (ex', st)"
    and "observed a = observed final" "\<nexists>i. t = Turn_Ok (Request_Interrupted i)" "t \<noteq> Turn_Panic"
    and "rs_next_attempt (ex_recovery ex) = sat_add attempt 1"
  shows "extends (settles final p) ex ex'" "st \<noteq> Again" "step_facts su attempt w st ex'"
proof -
  obtain ex1 r where rec: "record_attempt cp a ex = (ex1, r)" by fastforce
  have st: "ex' = ex1" "st = Finish t \<or> (\<exists>e. st = Finish (Turn_Err e))"
    using assms(1) by (auto simp: rec split: option.splits)
  then show "st \<noteq> Again" by auto
  show "extends (settles final p) ex ex'"
    using record_attempt_extends(1) [OF rec, of "settles final p"] assms(2) st(1) by (simp add: settles_def)
  show "step_facts su attempt w st ex'"
    using record_attempt_extends(2) [OF rec] assms(3-5) st by (auto simp: step_facts_def)
qed

lemma conclude_attempt_log:
  assumes run: "conclude_attempt cp su w a outcome ex = (ex', st)"
    and w: "rp_max_elapsed (su_policy su) \<le> duration_max"
    and a: "pa_attempt a = attempt" "pa_limit a = attempt_limit (su_policy su)" "pa_attempt_id a = aw_attempt_id w"
    and ex: "rs_next_attempt (ex_recovery ex) = sat_add attempt 1"
  shows "extends (settles a (su_policy su)) ex ex' \<and> (st = Again \<longrightarrow> \<not> observed a) \<and> step_facts su attempt w st ex'"
proof -
  have local: "extends (settles a (su_policy su)) ex ex' \<and> (st = Again \<longrightarrow> \<not> observed a) \<and> step_facts su attempt w st ex'"
    if "(case record_attempt cp (a\<lparr>pa_decision := d\<rparr>) ex of (ex', None) \<Rightarrow> (ex', Finish t)
        | (ex', Some e) \<Rightarrow> (ex', Finish (Turn_Err e))) = (ex', st)"
      "\<nexists>i. t = Turn_Ok (Request_Interrupted i)" "t \<noteq> Turn_Panic" for d t
    using save_or_stop_log [OF that(1) _ that(2,3) ex, of a] by (simp add: observed_def)
  show ?thesis
  proof (cases outcome)
    case (Inr response)
    then show ?thesis by (intro local) (use run in \<open>auto simp: conclude_attempt_def\<close>)
  next
    case (Inl err)
    show ?thesis
    proof (cases "provider_cause err")
      case None
      with Inl show ?thesis by (intro local [where d = "stop_decision err" and t = "Turn_Err err"]) (use run in \<open>auto simp: conclude_attempt_def\<close>)
    next
      case (Some e)
      then have "provider_failed cp su e w a ex = (ex', st)" using run Inl by (simp add: conclude_attempt_def)
      from provider_failed_log [OF this w] a ex show ?thesis by (auto simp: step_facts_def)
    qed
  qed
qed

text \<open>
  The part of the log that follows an intent: observations and waits, after at most one request.
\<close>

definition request_part :: "retry_policy \<Rightarrow> provider_attempt \<Rightarrow> bool \<Rightarrow> action list \<Rightarrow> bool" where
  "request_part p a again l \<longleftrightarrow>
     (\<exists>final. pa_attempt final = pa_attempt a \<and> pa_limit final = attempt_limit p \<and> (again \<longrightarrow> \<not> observed final) \<and>
        ((\<forall>x \<in> set l. settles final p x) \<or>
         (\<exists>t rest. l = Dispatched (pa_attempt a) (pa_attempt_id a) (pa_request_id a) t # rest \<and>
            (\<forall>x \<in> set rest. settles final p x) \<and> (1 < pa_attempt a \<longrightarrow> t < rp_max_elapsed p))))"

lemma dispatch_attempt_log:
  assumes run: "dispatch_attempt cp su attempt w a ex = (ex', st)"
    and w: "rp_max_elapsed (su_policy su) \<le> duration_max"
    and a: "pa_attempt a = attempt" "pa_limit a = attempt_limit (su_policy su)" "pa_attempt_id a = aw_attempt_id w"
      "\<not> observed a"
    and ex: "rs_next_attempt (ex_recovery ex) = sat_add attempt 1"
  shows "(\<exists>l. ex_log ex' = ex_log ex @ l \<and> request_part (su_policy su) a (st = Again) l) \<and> step_facts su attempt w st ex'"
proof -
  define p where "p = su_policy su"
  define t where "t = rs_elapsed (ex_recovery ex) (aw_check w)"
  let ?sent = "[Dispatched attempt (pa_attempt_id a) (pa_request_id a) t]"
  have part: "\<exists>l. ex_log ex' = ex_log ex @ l \<and> request_part p a (st = Again) l"
    if ext: "extends (settles final p) ex1 ex'" and rest: "pa_attempt final = attempt" "pa_limit final = attempt_limit p"
      "st = Again \<longrightarrow> \<not> observed final"
      "ex_log ex1 = ex_log ex \<or> ex_log ex1 = ex_log ex @ ?sent \<and> (1 < attempt \<longrightarrow> t < rp_max_elapsed p)" for final ex1
  proof -
    obtain l where l: "ex_log ex' = ex_log ex1 @ l" "\<forall>x \<in> set l. settles final p x"
      using ext by (auto simp: extends_def)
    show ?thesis
      using rest(4)
    proof
      assume "ex_log ex1 = ex_log ex"
      with l rest a show ?thesis by (intro exI [of _ l]) (auto simp: request_part_def)
    next
      assume "ex_log ex1 = ex_log ex @ ?sent \<and> (1 < attempt \<longrightarrow> t < rp_max_elapsed p)"
      with l rest a show ?thesis by (intro exI [of _ "?sent @ l"]) (auto simp: request_part_def)
    qed
  qed
  show ?thesis
  proof (cases "1 < attempt \<and> rp_max_elapsed p \<le> t")
    case True
    let ?c = "on_retry (\<lambda>r. r\<lparr>ro_elapsed_ms := Some (millis (rs_elapsed (ex_recovery ex) (aw_check_again w)))\<rparr>)
      (a\<lparr>pa_decision := ElapsedBudget\<rparr>)"
    let ?t = "Turn_Err (Err_Provider (Timeout (lit ''retry admission window elapsed before dispatch'')))"
    have "(case record_attempt cp ?c ex of (ex', None) \<Rightarrow> (ex', Finish ?t)
        | (ex', Some e) \<Rightarrow> (ex', Finish (Turn_Err e))) = (ex', st)"
      using run True by (simp add: dispatch_attempt_def Let_def t_def p_def)
    from save_or_stop_log [OF this _ _ _ ex, of a]
    have "extends (settles a p) ex ex'" "st \<noteq> Again" "step_facts su attempt w st ex'"
      by (simp_all add: observed_def)
    with part [of a ex] a show ?thesis by (simp add: p_def)
  next
    case False
    obtain ex1 b outcome where str: "attempt_stream cp (su_secret su) (aw_response w) t a ex = (ex1, b, outcome)"
      by (metis prod_cases3)
    then obtain sent where sent: "ex_log sent = ex_log ex \<or> ex_log sent = ex_log ex @ ?sent"
      "extends (stream_save a b) sent ex1" "same_attempt a b" "ex_recovery ex1 = ex_recovery ex"
      using attempt_stream_log [OF str] a by auto
    define c where "c = on_retry (\<lambda>r. r\<lparr>ro_request_bytes := aw_request_bytes w\<rparr>) (b\<lparr>pa_duration_ms := millis (aw_duration w)\<rparr>)"
    have c: "observed c = observed b" "pa_attempt c = attempt" "pa_limit c = attempt_limit p"
      "pa_attempt_id c = aw_attempt_id w"
      using sent(3) a by (simp_all add: c_def observed_def same_attempt_def p_def)
    have "extends (settles c p) sent ex1"
      by (rule extends_mono [OF sent(2)]) (auto simp: stream_save_def settles_def c)
    moreover have "conclude_attempt cp su w c outcome ex1 = (ex', st)"
      using run unfolding dispatch_attempt_def Let_def t_def [symmetric] p_def [symmetric] if_not_P [OF False] str c_def
      by simp
    from conclude_attempt_log [OF this w] c ex sent(4)
    have "extends (settles c p) ex1 ex' \<and> (st = Again \<longrightarrow> \<not> observed c) \<and> step_facts su attempt w st ex'"
      by (simp add: p_def)
    ultimately show ?thesis
      using part [of c sent] c sent(1) False extends_trans by (fastforce simp: p_def [symmetric])
  qed
qed

text \<open>The part of the log one attempt adds: nothing, or its intent and what follows it.\<close>

definition attempt_part :: "retry_policy \<Rightarrow> nat \<Rightarrow> bool \<Rightarrow> action list \<Rightarrow> bool" where
  "attempt_part p attempt again l \<longleftrightarrow>
     (l = [] \<and> \<not> again) \<or>
     (\<exists>a rest. l = Saved a # rest \<and> pa_decision a = InFlight \<and> pa_attempt a = attempt \<and> \<not> observed a \<and>
        request_part p a again rest)"

lemma one_attempt_log:
  assumes run: "one_attempt cp su model attempt w ex0 = (ex', st)"
    and w: "rp_max_elapsed (su_policy su) \<le> duration_max"
  shows "(\<exists>l. ex_log ex' = ex_log ex0 @ l \<and> attempt_part (su_policy su) attempt (st = Again) l) \<and>
    step_facts su attempt w st ex'"
proof -
  define ex1 where "ex1 = ex0\<lparr>ex_recovery := (ex_recovery ex0)\<lparr>rs_next_attempt := sat_add attempt 1\<rparr>\<rparr>"
  have e1: "ex_log ex1 = ex_log ex0" "rs_next_attempt (ex_recovery ex1) = sat_add attempt 1" by (simp_all add: ex1_def)
  define a where "a = new_attempt su model attempt w (ex_recovery ex1)"
  have a: "pa_decision a = InFlight" "pa_attempt a = attempt" "\<not> observed a"
    "pa_limit a = attempt_limit (su_policy su)" "pa_attempt_id a = aw_attempt_id w"
    by (simp_all add: a_def new_attempt_def observed_def)
  have refused: ?thesis if "ex' = ex1" "st = Finish (Turn_Err e)" for e
    using that e1 by (auto simp: attempt_part_def intro: step_facts_error)
  show ?thesis
  proof (cases "aw_cancelled w \<or> aw_policy w \<noteq> None \<or> \<not> aw_authority w")
    case True
    then have "ex' = ex1 \<and> (\<exists>e. st = Finish (Turn_Err e))"
      using run unfolding one_attempt_def Let_def ex1_def [symmetric] by (auto split: option.splits if_splits)
    then show ?thesis using refused by blast
  next
    case False
    obtain ex2 r where rec: "record_attempt cp a ex1 = (ex2, r)" by fastforce
    let ?ex3 = "ex2\<lparr>ex_recovery := (ex_recovery ex2)\<lparr>rs_pending := None\<rparr>\<rparr>"
    have step: "(case r of Some e \<Rightarrow> (ex2, Finish (Turn_Err e)) | None \<Rightarrow> dispatch_attempt cp su attempt w a ?ex3) = (ex', st)"
      using run False unfolding one_attempt_def Let_def ex1_def [symmetric] a_def [symmetric] rec by auto
    show ?thesis
    proof (cases r)
      case (Some e)
      then have "ex_log ex2 = ex_log ex0" "rs_next_attempt (ex_recovery ex2) = sat_add attempt 1"
        using rec e1 by (auto simp: record_attempt_def split: prod.splits option.splits)
      with Some step show ?thesis by (auto simp: attempt_part_def intro: step_facts_error)
    next
      case None
      then have "dispatch_attempt cp su attempt w a ?ex3 = (ex', st)" using step by simp
      moreover have log: "ex_log ?ex3 = ex_log ex0 @ [Saved a]" "rs_next_attempt (ex_recovery ?ex3) = sat_add attempt 1"
        using record_attempt_extends(2,3) [OF rec] None e1 by simp_all
      ultimately obtain l where "ex_log ex' = ex_log ex0 @ Saved a # l" "request_part (su_policy su) a (st = Again) l"
        "step_facts su attempt w st ex'"
        using dispatch_attempt_log [OF _ w a(2,4,5,3) log(2)] by fastforce
      with a show ?thesis by (auto simp: attempt_part_def)
    qed
  qed
qed

section \<open>Properties of the log\<close>

text \<open>Every request is preceded by the saved intent of the same attempt.\<close>

fun intent_first :: "provider_attempt list \<Rightarrow> action list \<Rightarrow> bool" where
  "intent_first seen [] = True"
| "intent_first seen (Saved a # l) = intent_first (a # seen) l"
| "intent_first seen (Dispatched n i q t # l) =
     (list_ex (\<lambda>a. pa_decision a = InFlight \<and> pa_attempt a = n \<and> pa_attempt_id a = i \<and> pa_request_id a = q) seen \<and>
      intent_first seen l)"
| "intent_first seen (Announced n d # l) = intent_first seen l"

text \<open>Nothing is requested again once a part of a response has been observed.\<close>

fun is_dispatch :: "action \<Rightarrow> bool" where
  "is_dispatch (Dispatched _ _ _ _) = True"
| "is_dispatch _ = False"

fun shows_output :: "action \<Rightarrow> bool" where
  "shows_output (Saved a) = observed a"
| "shows_output _ = False"

fun replay_free :: "action list \<Rightarrow> bool" where
  "replay_free [] = True"
| "replay_free (x # l) = ((shows_output x \<longrightarrow> \<not> list_ex is_dispatch l) \<and> replay_free l)"

fun attempt_numbers :: "action list \<Rightarrow> nat list" where
  "attempt_numbers [] = []"
| "attempt_numbers (Dispatched n i q t # l) = n # attempt_numbers l"
| "attempt_numbers (_ # l) = attempt_numbers l"

definition in_bounds :: "retry_policy \<Rightarrow> action \<Rightarrow> bool" where
  "in_bounds p x \<longleftrightarrow> (case x of
     Dispatched n i q t \<Rightarrow> n \<le> attempt_limit p \<and> (1 < n \<longrightarrow> t < rp_max_elapsed p)
   | Announced n d \<Rightarrow> n < attempt_limit p \<and> d \<le> rp_max_delay p
   | Saved a \<Rightarrow> True)"

lemma intent_first_more: "intent_first seen l \<Longrightarrow> set seen \<subseteq> set seen' \<Longrightarrow> intent_first seen' l"
proof (induction seen l arbitrary: seen' rule: intent_first.induct)
  case (2 seen a l)
  then show ?case by (auto intro!: "2.IH")
next
  case (3 seen n i q t l)
  then show ?case by (auto simp: list_ex_iff)
qed auto

lemma intent_first_append: "intent_first seen a \<Longrightarrow> intent_first [] b \<Longrightarrow> intent_first seen (a @ b)"
  by (induction seen a rule: intent_first.induct) (auto intro: intent_first_more)

lemma replay_free_append:
  "replay_free (a @ b) \<longleftrightarrow> replay_free a \<and> replay_free b \<and> (list_ex shows_output a \<longrightarrow> \<not> list_ex is_dispatch b)"
  by (induction a) auto

lemma attempt_numbers_append: "attempt_numbers (a @ b) = attempt_numbers a @ attempt_numbers b"
  by (induction a rule: attempt_numbers.induct) auto

lemma settles_log:
  assumes "\<forall>x \<in> set l. settles final p x"
  shows "intent_first seen l" "\<not> list_ex is_dispatch l" "attempt_numbers l = []" "replay_free l"
    "\<not> observed final \<Longrightarrow> \<not> list_ex shows_output l"
proof -
  have "intent_first seen l \<and> \<not> list_ex is_dispatch l \<and> attempt_numbers l = [] \<and> replay_free l \<and>
    (\<not> observed final \<longrightarrow> \<not> list_ex shows_output l)" for seen
    using assms
  proof (induction l arbitrary: seen)
    case (Cons x l)
    then show ?case by (cases x) (auto simp: settles_def)
  qed simp
  then show "intent_first seen l" "\<not> list_ex is_dispatch l" "attempt_numbers l = []" "replay_free l"
    "\<not> observed final \<Longrightarrow> \<not> list_ex shows_output l" by blast+
qed

lemma settles_in_bounds:
  "settles final p x \<Longrightarrow> pa_limit final = attempt_limit p \<Longrightarrow> in_bounds p x"
  by (auto simp: settles_def in_bounds_def split: action.splits)

lemma attempt_part_log:
  assumes "attempt_part p n again l" "n \<le> attempt_limit p"
  shows "intent_first [] l" "replay_free l" "attempt_numbers l \<in> {[], [n]}" "\<forall>x \<in> set l. in_bounds p x"
    "again \<Longrightarrow> \<not> list_ex shows_output l"
proof -
  have "intent_first [] l \<and> replay_free l \<and> attempt_numbers l \<in> {[], [n]} \<and> (\<forall>x \<in> set l. in_bounds p x) \<and>
    (again \<longrightarrow> \<not> list_ex shows_output l)"
  proof (cases "l = [] \<and> \<not> again")
    case False
    then obtain a rest final where l: "l = Saved a # rest" "pa_decision a = InFlight" "pa_attempt a = n" "\<not> observed a"
      "pa_limit final = attempt_limit p" "again \<longrightarrow> \<not> observed final"
      "(\<forall>x \<in> set rest. settles final p x) \<or>
       (\<exists>t rest'. rest = Dispatched (pa_attempt a) (pa_attempt_id a) (pa_request_id a) t # rest' \<and>
          (\<forall>x \<in> set rest'. settles final p x) \<and> (1 < pa_attempt a \<longrightarrow> t < rp_max_elapsed p))"
      using assms(1) unfolding attempt_part_def request_part_def by blast
    from l(7) show ?thesis
    proof
      assume "\<forall>x \<in> set rest. settles final p x"
      with settles_log [OF this] settles_in_bounds l show ?thesis by (auto simp: in_bounds_def)
    next
      assume "\<exists>t rest'. rest = Dispatched (pa_attempt a) (pa_attempt_id a) (pa_request_id a) t # rest' \<and>
          (\<forall>x \<in> set rest'. settles final p x) \<and> (1 < pa_attempt a \<longrightarrow> t < rp_max_elapsed p)"
      then obtain t rest' where r: "rest = Dispatched n (pa_attempt_id a) (pa_request_id a) t # rest'"
        "\<forall>x \<in> set rest'. settles final p x" "1 < n \<longrightarrow> t < rp_max_elapsed p"
        using l(3) by auto
      with settles_log [OF r(2)] settles_in_bounds l assms(2) show ?thesis by (auto simp: in_bounds_def)
    qed
  qed auto
  then show "intent_first [] l" "replay_free l" "attempt_numbers l \<in> {[], [n]}" "\<forall>x \<in> set l. in_bounds p x"
    "again \<Longrightarrow> \<not> list_ex shows_output l" by blast+
qed

lemma attempts_from_log:
  assumes "attempts_from cp su model world attempt ex = (ex', t)" "rp_max_elapsed (su_policy su) \<le> duration_max"
  shows "\<exists>l. ex_log ex' = ex_log ex @ l \<and> intent_first [] l \<and> replay_free l \<and>
    (\<forall>x \<in> set l. in_bounds (su_policy su) x) \<and> (\<forall>n \<in> set (attempt_numbers l). attempt \<le> n) \<and>
    sorted_wrt (<) (attempt_numbers l)"
  using assms
proof (induction cp su model world attempt ex arbitrary: ex' t rule: attempts_from.induct)
  case (1 cp su model world attempt ex)
  let ?p = "su_policy su"
  show ?case
  proof (cases "attempt_limit ?p < attempt")
    case True
    with "1.prems" show ?thesis by (subst (asm) attempts_from.simps) simp
  next
    case False
    obtain ex1 st where one: "one_attempt cp su model attempt (world attempt) ex = (ex1, st)" by fastforce
    from one_attempt_log [OF one "1.prems"(2)] obtain l where
      l: "ex_log ex1 = ex_log ex @ l" "attempt_part ?p attempt (st = Again) l" by auto
    note part = attempt_part_log [OF l(2)]
    show ?thesis
    proof (cases st)
      case (Finish r)
      then have "ex' = ex1" using "1.prems"(1) False one by (subst (asm) attempts_from.simps) simp
      with l part False show ?thesis by (intro exI [of _ l]) auto
    next
      case Again
      then have "attempts_from cp su model world (attempt + 1) ex1 = (ex', t)"
        using "1.prems"(1) False one by (subst (asm) attempts_from.simps) simp
      from "1.IH" [OF False one [symmetric] Again this "1.prems"(2)] obtain l' where
        l': "ex_log ex' = ex_log ex1 @ l'" "intent_first [] l'" "replay_free l'" "\<forall>x \<in> set l'. in_bounds ?p x"
          "\<forall>n \<in> set (attempt_numbers l'). attempt + 1 \<le> n" "sorted_wrt (<) (attempt_numbers l')" by blast
      have "attempt_numbers l = [] \<or> attempt_numbers l = [attempt]" using part(3) False by auto
      with l l' part False Again show ?thesis
        by (intro exI [of _ "l @ l'"])
          (auto simp: intent_first_append replay_free_append attempt_numbers_append sorted_wrt_append Suc_le_eq)
    qed
  qed
qed

lemma attempts_from_result:
  assumes "attempts_from cp su model world attempt ex = (ex', t)" "attempt \<le> attempt_limit (su_policy su)"
    "rp_max_elapsed (su_policy su) \<le> duration_max" "rp_max_attempts (su_policy su) \<le> usize_max"
  shows "t \<noteq> Turn_Panic \<and> (\<forall>i. t = Turn_Ok (Request_Interrupted i) \<longrightarrow>
    rs_has_attempt (su_policy su) (ex_recovery ex') \<and> rs_recovery_of (ex_recovery ex') = Some i)"
  using assms
proof (induction cp su model world attempt ex arbitrary: ex' t rule: attempts_from.induct)
  case (1 cp su model world attempt ex)
  obtain ex1 st where one: "one_attempt cp su model attempt (world attempt) ex = (ex1, st)" by fastforce
  from one_attempt_log [OF one "1.prems"(3)] have facts: "step_facts su attempt (world attempt) st ex1" by simp
  have lim: "attempt_limit (su_policy su) \<le> u64_max" using "1.prems"(4) by (simp add: attempt_limit_def)
  have not: "\<not> attempt_limit (su_policy su) < attempt" using "1.prems"(2) by simp
  show ?case
  proof (cases st)
    case (Finish r)
    then have "attempts_from cp su model world attempt ex = (ex1, r)"
      using not one by (subst attempts_from.simps) simp
    with "1.prems"(1) have "ex' = ex1" "t = r" by simp_all
    moreover have f: "rs_next_attempt (ex_recovery ex1) = sat_add attempt 1" "r \<noteq> Turn_Panic"
      "\<And>i. r = Turn_Ok (Request_Interrupted i) \<Longrightarrow>
        attempt < attempt_limit (su_policy su) \<and> rs_recovery_of (ex_recovery ex1) = Some i"
      using facts Finish unfolding step_facts_def by blast+
    moreover have "rs_has_attempt (su_policy su) (ex_recovery ex1)" if "attempt < attempt_limit (su_policy su)"
      using that lim f(1) by (simp add: rs_has_attempt_def sat_add_exact Suc_le_eq)
    ultimately show ?thesis by blast
  next
    case Again
    then have "attempts_from cp su model world (attempt + 1) ex1 = (ex', t)"
      using "1.prems"(1) not one by (subst (asm) attempts_from.simps) simp
    from "1.IH" [OF not one [symmetric] Again this] "1.prems" facts Again show ?thesis
      by (auto simp: step_facts_def)
  qed
qed

section \<open>Properties\<close>

text \<open>A store that keeps every observation, and a provider that drops the first response after some text.\<close>

definition sample_setup :: attempt_setup where
  "sample_setup = \<lparr>su_policy = default_retry_policy, su_provider = lit ''p'', su_redact = id, su_secret = (\<lambda>_. False)\<rparr>"

definition sample_world :: "nat \<Rightarrow> rstring attempt_world" where
  "sample_world n = \<lparr>aw_cancelled = False, aw_policy = None, aw_authority = True, aw_attempt_id = of_nat n,
     aw_started_at_ms = n, aw_check = n, aw_check_again = n,
     aw_response = (if n = 1 then Failed (Err_Provider Connection) else Opened [Ev_Text (lit ''hi'') None, Ev_Error StreamInterrupted]),
     aw_request_bytes = None, aw_duration = 1, aw_fail = n, aw_wall_ms = n, aw_observe = n, aw_decide = n, aw_sample = 0,
     aw_stop = None, aw_backoff = 1, aw_resume = n, aw_late = n, aw_request_id = 99\<rparr>"

definition sample_execution :: "nat execution" where
  "sample_execution = \<lparr>ex_store = 0, ex_recovery = recovery_new default_retry_policy 7, ex_log = []\<rparr>"

definition sample_run :: "nat execution \<times> rstring turn" where
  "sample_run = provider_request_attempts (\<lambda>_ n. (n + 1, None)) sample_setup (lit ''m'') sample_world sample_execution"

lemma sample_bounds:
  "rp_max_elapsed (su_policy sample_setup) \<le> duration_max" "rp_max_attempts (su_policy sample_setup) \<le> usize_max"
  "ex_log sample_execution = []" "rs_has_attempt (su_policy sample_setup) (ex_recovery sample_execution)"
  by (simp_all add: sample_setup_def default_retry_policy_def sample_execution_def rs_has_attempt_def
      recovery_new_def attempt_limit_def)

text \<open>C38. A request is sent only after the store has accepted the intent of the same attempt, and nothing is
  requested again after a part of a response (text, or a fragment of a tool call) has been observed.\<close>

theorem requests_follow_intent:
  assumes "provider_request_attempts cp su model world ex = (ex', t)" "ex_log ex = []"
    "rp_max_elapsed (su_policy su) \<le> duration_max"
  shows "intent_first [] (ex_log ex') \<and> replay_free (ex_log ex')"
  using attempts_from_log [OF assms(1) [unfolded provider_request_attempts_def] assms(3)] assms(2) by auto

lemma requests_follow_intent_witness:
  "intent_first [] (ex_log (fst sample_run)) \<and> replay_free (ex_log (fst sample_run)) \<and>
   attempt_numbers (ex_log (fst sample_run)) = [1, 2] \<and> list_ex shows_output (ex_log (fst sample_run))"
proof -
  have "attempt_numbers (ex_log (fst sample_run)) = [1, 2] \<and> list_ex shows_output (ex_log (fst sample_run))"
    by code_simp
  with requests_follow_intent [OF surjective_pairing sample_bounds(3,1)] show ?thesis
    unfolding sample_run_def by blast
qed

text \<open>The attempts of a request are bounded: their numbers increase, lie between the next attempt and the
  limit, all but the first start within the recovery window, and an announced wait is at most the longest allowed one.\<close>

theorem attempts_bounded:
  assumes "provider_request_attempts cp su model world ex = (ex', t)" "ex_log ex = []"
    "rp_max_elapsed (su_policy su) \<le> duration_max"
  shows "sorted_wrt (<) (attempt_numbers (ex_log ex')) \<and>
    list_all (\<lambda>n. rs_next_attempt (ex_recovery ex) \<le> n) (attempt_numbers (ex_log ex')) \<and>
    list_all (in_bounds (su_policy su)) (ex_log ex')"
  using attempts_from_log [OF assms(1) [unfolded provider_request_attempts_def] assms(3)] assms(2)
  by (auto simp: list_all_iff)

text \<open>C39. A request with an attempt left always ends with an answer or an error, never by running off the end of
  the attempts; and an interrupted response leaves another attempt for its continuation.\<close>

theorem attempts_conclude:
  assumes "provider_request_attempts cp su model world ex = (ex', t)"
    "rs_has_attempt (su_policy su) (ex_recovery ex)" "rp_max_elapsed (su_policy su) \<le> duration_max"
    "rp_max_attempts (su_policy su) \<le> usize_max"
  shows "t \<noteq> Turn_Panic \<and> (\<forall>i. t = Turn_Ok (Request_Interrupted i) \<longrightarrow>
    rs_has_attempt (su_policy su) (ex_recovery ex') \<and> rs_recovery_of (ex_recovery ex') = Some i)"
  using attempts_from_result [OF assms(1) [unfolded provider_request_attempts_def] _ assms(3,4)] assms(2)
  by (simp add: rs_has_attempt_def)

lemma attempts_conclude_witness:
  "snd sample_run = Turn_Ok (Request_Interrupted 2) \<and> snd sample_run \<noteq> Turn_Panic \<and>
   rs_has_attempt (su_policy sample_setup) (ex_recovery (fst sample_run)) \<and>
   rs_recovery_of (ex_recovery (fst sample_run)) = Some 2"
proof -
  have run: "snd sample_run = Turn_Ok (Request_Interrupted 2)" by code_simp
  moreover have "provider_request_attempts (\<lambda>_ n. (n + 1, None)) sample_setup (lit ''m'') sample_world sample_execution =
    (fst sample_run, snd sample_run)" unfolding sample_run_def by simp
  from attempts_conclude [OF this sample_bounds(4,1,2)] run show ?thesis by simp
qed

end
