(* ===== verification/Todo.thy ===== *)
theory Todo
  imports Rust_Str Paths Ordered_Map Cycles "HOL-Library.Product_Lexorder"
begin

text \<open>
  \<open>voyage/src/todo.rs\<close>: the work-planning store. A todo list is a record with its items in key
  order; every operation of \<open>TodoStore\<close> is a function from the loaded list to an error or a result
  and the new list (the closure the source passes to \<open>mutate\<close>), and \<open>mutate\<close> is the
  load-change-save transaction around it. Instants and fresh identifiers are arguments.

  The dependency check \<open>has_cycle\<close> is a depth-first search that threads two sets, as the source
  does; its termination and its correctness against the edge relation are proved here.
\<close>

section \<open>Data\<close>

type_synonym todo_id = uuid

record todo_scope =
  sc_workspace :: path
  sc_session_id :: "uuid option"

datatype todo_status = Pending | InProgress | Blocked | Completed | Cancelled

datatype priority = Low | Normal_Priority | High | Critical

fun priority_index :: "priority \<Rightarrow> nat" where
  "priority_index Low = 0"
| "priority_index Normal_Priority = 1"
| "priority_index High = 2"
| "priority_index Critical = 3"

instantiation priority :: linorder
begin

definition less_eq_priority :: "priority \<Rightarrow> priority \<Rightarrow> bool" where
  "less_eq_priority a b \<longleftrightarrow> priority_index a \<le> priority_index b"

definition less_priority :: "priority \<Rightarrow> priority \<Rightarrow> bool" where
  "less_priority a b \<longleftrightarrow> priority_index a < priority_index b"

instance
proof
  fix x y :: priority
  show "x \<le> y \<Longrightarrow> y \<le> x \<Longrightarrow> x = y"
    by (cases x; cases y) (simp_all add: less_eq_priority_def)
qed (auto simp: less_eq_priority_def less_priority_def)

end

record artifact_reference =
  ar_id :: uuid
  ar_sha256 :: rstring
  ar_name :: rstring
  ar_mime_type :: rstring
  ar_byte_size :: nat

record evidence_link =
  el_session :: uuid
  el_artifact :: artifact_reference
  el_start :: nat
  el_end :: nat
  el_text_sha256 :: rstring
  el_capture :: rstring

record timeline_entry =
  te_sources :: "evidence_link list"
  te_at :: instant
  te_author :: "rstring option"
  te_text :: rstring

record todo_item =
  ti_id :: todo_id
  ti_title :: rstring
  ti_description :: rstring
  ti_status :: todo_status
  ti_priority :: priority
  ti_order :: int
  ti_dependencies :: "todo_id list"
  ti_blockers :: "rstring list"
  ti_assignees :: "rstring list"
  ti_notes :: "timeline_entry list"
  ti_progress :: "timeline_entry list"
  ti_evidence :: "timeline_entry list"
  ti_created_at :: instant
  ti_updated_at :: instant
  ti_completed_at :: "instant option"
  ti_archived_at :: "instant option"

definition archived :: "todo_item \<Rightarrow> bool" where
  "archived i \<longleftrightarrow> ti_archived_at i \<noteq> None"

abbreviation store_version :: nat where "store_version \<equiv> 1"

record todo_list =
  tl_version :: nat
  tl_revision :: nat
  tl_scope :: todo_scope
  tl_items :: "(todo_id, todo_item) bmap"

definition todo_empty :: "todo_scope \<Rightarrow> todo_list" where
  "todo_empty scope =
     \<lparr>tl_version = store_version, tl_revision = 0, tl_scope = scope, tl_items = []\<rparr>"

text \<open>\<open>sort_by_key\<close> is stable; \<open>Reverse\<close> turns the priority order around.\<close>

definition todo_ordered :: "todo_list \<Rightarrow> todo_item list" where
  "todo_ordered l = sort_key (\<lambda>i. (ti_order i, - int (priority_index (ti_priority i)), ti_created_at i))
     (filter (\<lambda>i. \<not> archived i) (bm_values (tl_items l)))"

record new_todo =
  nt_title :: rstring
  nt_description :: rstring
  nt_priority :: priority
  nt_order :: "int option"
  nt_assignees :: "rstring list"

datatype entry_kind = Note | Progress | Evidence

datatype todo_error =
  EmptyTitle | UnknownTodo | ArchivedImmutable | InvalidTransition | BlockedCannotStart |
  MissingDependency | DependencyNotCompleted todo_id | BlockersRequired | AddRemoveConflict |
  TerminalDependencies | SelfDependency | UnknownDependency | WouldCycle | TerminalBlocked |
  EmptyAssignee | EmptyEntry | NotArchivable | NotArchived | StillReferenced |
  TodoRevisionOverflow | OrderExhausted | CoordinatorMismatch | RegistrationFailed |
  WorkspaceMismatch | PolicyStale | ReadOnlyDenied | ImportCancelled | InvalidFeedback |
  MalformedStore | UnsupportedVersion nat | ScopeMismatch | DanglingDependency todo_id todo_id |
  CycleDetected | ReadFailed | SaveFailed | LockFailed

section \<open>The dependency graph\<close>

definition dependencies_of :: "todo_list \<Rightarrow> todo_id \<Rightarrow> todo_id list" where
  "dependencies_of l i = (case bm_get (tl_items l) i of None \<Rightarrow> [] | Some item \<Rightarrow> ti_dependencies item)"

definition edges :: "todo_list \<Rightarrow> (todo_id \<times> todo_id) set" where
  "edges l = {(a, b). b \<in> set (dependencies_of l a)}"

definition keys :: "todo_list \<Rightarrow> todo_id set" where
  "keys l = set (bm_keys (tl_items l))"

lemma finite_keys [simp]: "finite (keys l)"
  by (simp add: keys_def)

lemma dependencies_of_not_key: "i \<notin> keys l \<Longrightarrow> dependencies_of l i = []"
  by (auto simp: keys_def dependencies_of_def bm_keys_def bm_get_def split: option.splits
      dest: map_of_SomeD intro: rev_image_eqI)

text \<open>
  The search returns whether a cycle was met, and the two sets after the call; the source mutates
  them in place. \<open>dependency_loop\<close> is the \<open>for\<close> loop of the body.
\<close>

function has_cycle ::
    "todo_list \<Rightarrow> todo_id \<Rightarrow> todo_id set \<Rightarrow> todo_id set \<Rightarrow> bool \<times> todo_id set \<times> todo_id set"
  and dependency_loop ::
    "todo_list \<Rightarrow> todo_id list \<Rightarrow> todo_id set \<Rightarrow> todo_id set \<Rightarrow> bool \<times> todo_id set \<times> todo_id set"
where
  "has_cycle l i visiting visited =
     (if i \<in> visited then (False, visiting, visited)
      else if i \<in> visiting then (True, visiting, visited)
      else (let (c, vg, vd) = dependency_loop l (dependencies_of l i) (insert i visiting) visited
            in if c then (True, vg, vd) else (False, vg - {i}, insert i vd)))"
| "dependency_loop l [] visiting visited = (False, visiting, visited)"
| "dependency_loop l (d # ds) visiting visited =
     (let (c, vg, vd) = has_cycle l d visiting visited
      in if c then (True, vg, vd) else dependency_loop l ds vg vd)"
  by pat_completeness auto

lemma search_restores_visiting_dom:
  "has_cycle_dependency_loop_dom (Inl (l, i, vg, vd)) \<Longrightarrow>
     \<not> fst (has_cycle l i vg vd) \<Longrightarrow> fst (snd (has_cycle l i vg vd)) = vg"
  "has_cycle_dependency_loop_dom (Inr (l, ds, vg, vd)) \<Longrightarrow>
     \<not> fst (dependency_loop l ds vg vd) \<Longrightarrow> fst (snd (dependency_loop l ds vg vd)) = vg"
proof (induction l i vg vd and l ds vg vd rule: has_cycle_dependency_loop.pinduct)
  case (1 l i visiting visited)
  then show ?case
    by (auto simp: has_cycle.psimps Let_def split: prod.splits if_splits)
next
  case (2 l visiting visited)
  then show ?case by (simp add: dependency_loop.psimps)
next
  case (3 l d ds visiting visited)
  then show ?case
    by (auto simp: dependency_loop.psimps Let_def split: prod.splits if_splits)
qed

termination has_cycle
proof (relation "measures
    [\<lambda>x. case x of Inl (l, i, vg, vd) \<Rightarrow> card (keys l - vg) | Inr (l, ds, vg, vd) \<Rightarrow> card (keys l - vg),
     \<lambda>x. case x of Inl _ \<Rightarrow> 1 | Inr (l, ds, vg, vd) \<Rightarrow> 2 * length ds]", goal_cases)
  case 1
  then show ?case by simp
next
  case (2 l i visiting visited)
  show ?case
  proof (cases "i \<in> keys l")
    case True
    then have "keys l - insert i visiting \<subset> keys l - visiting" using 2 by auto
    then have "card (keys l - insert i visiting) < card (keys l - visiting)"
      by (simp add: psubset_card_mono)
    then show ?thesis by simp
  next
    case False
    then have "keys l - insert i visiting = keys l - visiting" by auto
    with False show ?thesis by (simp add: dependencies_of_not_key)
  qed
next
  case (3 l d ds visiting visited)
  then show ?case by simp
next
  case (4 l d ds visiting visited x c y vg vd)
  then have "vg = visiting"
    using search_restores_visiting_dom(1) [of l d visiting visited] by (metis fst_conv snd_conv)
  then show ?case by simp
qed

declare has_cycle.simps [simp del] dependency_loop.simps [simp del]

lemma search_restores_visiting:
  "has_cycle l i vg vd = (False, vg', vd') \<Longrightarrow> vg' = vg"
  "dependency_loop l ds vg vd = (False, vg', vd') \<Longrightarrow> vg' = vg"
proof (induction l i vg vd and l ds vg vd arbitrary: vg' vd' and vg' vd'
    rule: has_cycle_dependency_loop.induct)
  case (1 l i vg vd)
  obtain c vg1 vd1 where loop: "dependency_loop l (dependencies_of l i) (insert i vg) vd = (c, vg1, vd1)"
    by (rule prod_cases3)
  show ?case
  proof (cases "i \<in> vd \<or> i \<in> vg \<or> c")
    case True
    with "1.prems" loop show ?thesis
      by (auto simp: has_cycle.simps [of l i vg vd] split: if_splits)
  next
    case False
    with loop "1.IH" [of vg1 vd1] have "vg1 = insert i vg" by simp
    with "1.prems" loop False show ?thesis by (auto simp: has_cycle.simps [of l i vg vd])
  qed
next
  case (2 l vg vd)
  then show ?case by (simp add: dependency_loop.simps)
next
  case (3 l d ds vg vd)
  obtain c vg1 vd1 where r: "has_cycle l d vg vd = (c, vg1, vd1)"
    by (rule prod_cases3)
  with "3.prems" have "\<not> c" and rest: "dependency_loop l ds vg1 vd1 = (False, vg', vd')"
    by (auto simp: dependency_loop.simps(2) [of l d ds vg vd] split: if_splits)
  then have "vg1 = vg" using "3.IH"(1) r by simp
  with "3.IH"(2) [OF r [symmetric] refl refl \<open>\<not> c\<close>] rest show ?case by simp
qed

text \<open>A reported cycle is one, when everything being visited leads to the node searched.\<close>

lemma search_sound:
  "(\<forall>v \<in> vg. (v, i) \<in> (edges l)\<^sup>+) \<Longrightarrow> fst (has_cycle l i vg vd) \<Longrightarrow> reaches_cycle (edges l) i"
  "(\<And>d v. d \<in> set ds \<Longrightarrow> v \<in> vg \<Longrightarrow> (v, d) \<in> (edges l)\<^sup>+) \<Longrightarrow> fst (dependency_loop l ds vg vd) \<Longrightarrow>
     \<exists>d \<in> set ds. reaches_cycle (edges l) d"
proof (induction l i vg vd and l ds vg vd rule: has_cycle_dependency_loop.induct)
  case (1 l i vg vd)
  show ?case
  proof (cases "i \<in> vg")
    case True
    with "1.prems" show ?thesis by (auto simp: reaches_cycle_def)
  next
    case False
    with "1.prems" have loop: "fst (dependency_loop l (dependencies_of l i) (insert i vg) vd)"
      and "i \<notin> vd"
      by (auto simp: has_cycle.simps [of l i vg vd] Let_def split: prod.splits if_splits)
    have edge: "(i, d) \<in> edges l" if "d \<in> set (dependencies_of l i)" for d
      using that by (simp add: edges_def)
    have "\<exists>d \<in> set (dependencies_of l i). reaches_cycle (edges l) d"
    proof (rule "1.IH" [OF \<open>i \<notin> vd\<close> False _ loop])
      fix d v
      assume "d \<in> set (dependencies_of l i)" "v \<in> insert i vg"
      then show "(v, d) \<in> (edges l)\<^sup>+"
        using edge "1.prems"(1) by (auto intro: trancl_into_trancl)
    qed
    with edge show ?thesis by (auto simp: reaches_cycle_step [of _ i])
  qed
next
  case (2 l vg vd)
  then show ?case by (simp add: dependency_loop.simps)
next
  case (3 l d ds vg vd)
  obtain c vg' vd' where r: "has_cycle l d vg vd = (c, vg', vd')"
    by (metis prod_cases3)
  show ?case
  proof (cases c)
    case True
    with 3 r show ?thesis by auto
  next
    case False
    then have "vg' = vg"
      using search_restores_visiting(1) [of l d vg vd vg' vd'] r by simp
    with 3 r False show ?thesis by (auto simp: dependency_loop.simps(2) [of l d ds vg vd])
  qed
qed

text \<open>Where the search answers no, nothing it visited reaches a cycle.\<close>

lemma search_complete:
  "has_cycle l i vg vd = (False, vg', vd') \<Longrightarrow> \<forall>v \<in> vd. \<not> reaches_cycle (edges l) v \<Longrightarrow>
     i \<in> vd' \<and> vd \<subseteq> vd' \<and> (\<forall>v \<in> vd'. \<not> reaches_cycle (edges l) v)"
  "dependency_loop l ds vg vd = (False, vg', vd') \<Longrightarrow> \<forall>v \<in> vd. \<not> reaches_cycle (edges l) v \<Longrightarrow>
     set ds \<subseteq> vd' \<and> vd \<subseteq> vd' \<and> (\<forall>v \<in> vd'. \<not> reaches_cycle (edges l) v)"
proof (induction l i vg vd and l ds vg vd arbitrary: vg' vd' and vg' vd'
    rule: has_cycle_dependency_loop.induct)
  case (1 l i vg vd)
  obtain c vg1 vd1 where loop: "dependency_loop l (dependencies_of l i) (insert i vg) vd = (c, vg1, vd1)"
    by (rule prod_cases3)
  show ?case
  proof (cases "i \<in> vd \<or> i \<in> vg \<or> c")
    case True
    with 1(2,3) loop show ?thesis
      by (auto simp: has_cycle.simps [of l i vg vd] split: if_splits)
  next
    case False
    with loop "1.IH" [of vg1 vd1] "1.prems"(2)
    have deps: "set (dependencies_of l i) \<subseteq> vd1" "vd \<subseteq> vd1"
      "\<forall>v \<in> vd1. \<not> reaches_cycle (edges l) v" by simp_all
    then have "\<not> reaches_cycle (edges l) i"
      by (auto simp: reaches_cycle_step [of _ i] edges_def)
    with deps "1.prems"(1) loop False show ?thesis
      by (auto simp: has_cycle.simps [of l i vg vd])
  qed
next
  case (2 l vg vd)
  then show ?case by (simp add: dependency_loop.simps)
next
  case (3 l d ds vg vd)
  obtain c vg1 vd1 where r: "has_cycle l d vg vd = (c, vg1, vd1)"
    by (rule prod_cases3)
  with "3.prems"(1) have "\<not> c" and rest: "dependency_loop l ds vg1 vd1 = (False, vg', vd')"
    by (auto simp: dependency_loop.simps(2) [of l d ds vg vd] split: if_splits)
  then have "d \<in> vd1 \<and> vd \<subseteq> vd1 \<and> (\<forall>v \<in> vd1. \<not> reaches_cycle (edges l) v)"
    using "3.IH"(1) r "3.prems"(2) by simp
  with "3.IH"(2) [OF r [symmetric] refl refl \<open>\<not> c\<close> rest] show ?case by auto
qed

lemma has_cycle_iff: "fst (has_cycle l i {} {}) \<longleftrightarrow> reaches_cycle (edges l) i"
proof
  show "fst (has_cycle l i {} {}) \<Longrightarrow> reaches_cycle (edges l) i"
    by (rule search_sound(1)) simp_all
next
  assume reach: "reaches_cycle (edges l) i"
  obtain c vg vd where r: "has_cycle l i {} {} = (c, vg, vd)"
    by (rule prod_cases3)
  show "fst (has_cycle l i {} {})"
    using search_complete(1) [of l i "{}" "{}" vg vd] reach r by (cases c) auto
qed

text \<open>Validation of a loaded list: no dangling dependency, no cycle from any key.\<close>

fun check_dependencies :: "todo_list \<Rightarrow> todo_item list \<Rightarrow> (todo_error, unit) result" where
  "check_dependencies l [] = Inr ()"
| "check_dependencies l (item # items) =
     (case find (\<lambda>d. \<not> bm_contains (tl_items l) d) (ti_dependencies item) of
        Some d \<Rightarrow> Inl (DanglingDependency (ti_id item) d)
      | None \<Rightarrow> check_dependencies l items)"

definition validate_graph :: "todo_list \<Rightarrow> (todo_error, unit) result" where
  "validate_graph l =
     and_then (check_dependencies l (bm_values (tl_items l))) (\<lambda>_.
       if list_ex (\<lambda>i. fst (has_cycle l i {} {})) (bm_keys (tl_items l))
       then Inl CycleDetected else Inr ())"

definition dependencies_closed :: "todo_list \<Rightarrow> bool" where
  "dependencies_closed l \<longleftrightarrow>
     (\<forall>item \<in> set (bm_values (tl_items l)). set (ti_dependencies item) \<subseteq> keys l)"

lemma check_dependencies_Inr:
  "check_dependencies l items = Inr () \<longleftrightarrow>
     (\<forall>item \<in> set items. set (ti_dependencies item) \<subseteq> keys l)"
proof (induction items)
  case (Cons item items)
  have "find (\<lambda>d. \<not> bm_contains (tl_items l) d) (ti_dependencies item) = None \<longleftrightarrow>
      set (ti_dependencies item) \<subseteq> keys l"
    by (auto simp: find_None_iff bm_contains_iff keys_def)
  with Cons show ?case by (auto split: option.splits)
qed simp

lemma edges_from_key: "(i, d) \<in> edges l \<Longrightarrow> i \<in> keys l"
  using dependencies_of_not_key by (fastforce simp: edges_def)

lemma reaches_cycle_key: "reaches_cycle (edges l) i \<Longrightarrow> i \<in> keys l"
  by (auto simp: reaches_cycle_step [of _ i] dest: edges_from_key)

lemma validate_graph_iff:
  "validate_graph l = Inr () \<longleftrightarrow> dependencies_closed l \<and> acyclic (edges l)"
proof -
  have "(\<exists>i \<in> keys l. reaches_cycle (edges l) i) \<longleftrightarrow> \<not> acyclic (edges l)"
    by (auto simp: acyclic_iff_reaches dest: reaches_cycle_key)
  then show ?thesis
    by (auto simp: validate_graph_def dependencies_closed_def and_then_Inr check_dependencies_Inr
        list_ex_iff has_cycle_iff keys_def split: if_splits)
qed

text \<open>The dependency check is exact: the depth-first search reports a cycle for an item exactly
  when a cycle can be reached from it along dependencies, and a list is accepted exactly when
  every dependency names an item of the list and the dependency graph is acyclic.\<close>

theorem cycle_check_exact:
  "fst (has_cycle l i {} {}) = (\<exists>x. (i, x) \<in> (edges l)\<^sup>* \<and> (x, x) \<in> (edges l)\<^sup>+) \<and>
   (validate_graph l = Inr () \<longleftrightarrow> dependencies_closed l \<and> acyclic (edges l))"
  using has_cycle_iff validate_graph_iff unfolding reaches_cycle_def by blast

end
