(* ===== verification/Todo_Store.thy ===== *)
theory Todo_Store
  imports Todo Access
begin

text \<open>
  The operations of \<open>TodoStore\<close> (\<open>voyage/src/todo.rs\<close>). Each is the closure the source hands to
  \<open>mutate\<close>: from the loaded list to an error, or a result and the changed list. \<open>mutate\<close> adds the
  coordination lock, the load with its validation, the revision and the save.
\<close>

type_synonym 'a todo_change = "todo_list \<Rightarrow> (todo_error, 'a \<times> todo_list) result"

section \<open>Operations on a loaded list\<close>

definition highest_order :: "todo_list \<Rightarrow> int option" where
  "highest_order l = (case map ti_order (bm_values (tl_items l)) of
     [] \<Rightarrow> None | x # xs \<Rightarrow> Some (fold max xs x))"

text \<open>Release builds wrap; \<open>create_registered\<close> uses the plain \<open>+\<close>.\<close>

definition wrap_i64 :: "int \<Rightarrow> int" where
  "wrap_i64 x = (x + i64_max + 1) mod (2 * (i64_max + 1)) - (i64_max + 1)"

definition put_item :: "todo_item \<Rightarrow> todo_list \<Rightarrow> todo_list" where
  "put_item item l = l\<lparr>tl_items := bm_insert (ti_id item) item (tl_items l)\<rparr>"

text \<open>\<open>get_mut\<close> followed by assignments to the item; the operation returns a clone of it.\<close>

definition change_item ::
  "todo_id \<Rightarrow> todo_item \<Rightarrow> todo_list \<Rightarrow> (todo_error, todo_item \<times> todo_list) result" where
  "change_item i item l = Inr (item, l\<lparr>tl_items := bm_update i (\<lambda>_. item) (tl_items l)\<rparr>)"

definition todo_create :: "todo_id \<Rightarrow> new_todo \<Rightarrow> instant \<Rightarrow> todo_item todo_change" where
  "todo_create i new now l =
     (let title = trim (nt_title new) in
      if title = [] then Inl EmptyTitle
      else let item = \<lparr>ti_id = i, ti_title = title, ti_description = nt_description new,
             ti_status = Pending, ti_priority = nt_priority new,
             ti_order = (case nt_order new of Some n \<Rightarrow> n
               | None \<Rightarrow> wrap_i64 (case_option (- 1) id (highest_order l) + 1)),
             ti_dependencies = [], ti_blockers = [], ti_assignees = nt_assignees new,
             ti_notes = [], ti_progress = [], ti_evidence = [],
             ti_created_at = now, ti_updated_at = now,
             ti_completed_at = None, ti_archived_at = None\<rparr>
           in Inr (item, put_item item l))"

record feedback =
  fb_title :: rstring
  fb_description :: rstring
  fb_source :: rstring

text \<open>The policy's freshness and mode and the cancellation flag are read inside the closure.\<close>

definition todo_import_feedback ::
  "bool \<Rightarrow> access_mode \<Rightarrow> bool \<Rightarrow> todo_id \<Rightarrow> feedback \<Rightarrow> instant \<Rightarrow> todo_item todo_change" where
  "todo_import_feedback policy_current mode cancelled i fb now l =
     (if \<not> policy_current then Inl PolicyStale
      else if mode = ReadOnly then Inl ReadOnlyDenied
      else if cancelled then Inl ImportCancelled
      else case find (\<lambda>item. list_ex (\<lambda>n. te_author n = Some (lit ''helm.github'') \<and>
                te_text n = fb_source fb) (ti_notes item)) (bm_values (tl_items l)) of
             Some item \<Rightarrow> Inr (item, l)
           | None \<Rightarrow>
               and_then (ok_or OrderExhausted
                   (checked_add_i64 (case_option (- 1) id (highest_order l)) 1)) (\<lambda>order.
               let item = \<lparr>ti_id = i, ti_title = fb_title fb, ti_description = fb_description fb,
                 ti_status = Pending, ti_priority = Normal_Priority, ti_order = order,
                 ti_dependencies = [], ti_blockers = [], ti_assignees = [],
                 ti_notes = [\<lparr>te_sources = [], te_at = now, te_author = Some (lit ''helm.github''),
                              te_text = fb_source fb\<rparr>],
                 ti_progress = [], ti_evidence = [], ti_created_at = now, ti_updated_at = now,
                 ti_completed_at = None, ti_archived_at = None\<rparr>
               in Inr (item, put_item item l)))"

fun valid_transition :: "todo_status \<Rightarrow> todo_status \<Rightarrow> bool" where
  "valid_transition from to \<longleftrightarrow> from = to \<or>
     (case from of
        Pending \<Rightarrow> to \<in> {InProgress, Blocked, Completed, Cancelled}
      | InProgress \<Rightarrow> to \<in> {Pending, Blocked, Completed, Cancelled}
      | Blocked \<Rightarrow> to \<in> {Pending, InProgress, Completed, Cancelled}
      | Completed \<Rightarrow> to = Pending
      | Cancelled \<Rightarrow> to = Pending)"

declare valid_transition.simps [simp del]

fun completed_dependencies :: "todo_list \<Rightarrow> todo_id list \<Rightarrow> (todo_error, unit) result" where
  "completed_dependencies l [] = Inr ()"
| "completed_dependencies l (d # ds) =
     (case bm_get (tl_items l) d of
        None \<Rightarrow> Inl MissingDependency
      | Some dep \<Rightarrow> if ti_status dep \<noteq> Completed then Inl (DependencyNotCompleted d)
                    else completed_dependencies l ds)"

definition todo_set_status :: "todo_id \<Rightarrow> todo_status \<Rightarrow> instant \<Rightarrow> todo_item todo_change" where
  "todo_set_status i status now l =
     and_then (ok_or UnknownTodo (bm_get (tl_items l) i)) (\<lambda>item.
       if archived item then Inl ArchivedImmutable
       else if \<not> valid_transition (ti_status item) status then Inl InvalidTransition
       else and_then
         (if status = InProgress \<or> status = Completed
          then if ti_blockers item \<noteq> [] then Inl BlockedCannotStart
               else completed_dependencies l (ti_dependencies item)
          else Inr ()) (\<lambda>_.
         if status = Blocked \<and> ti_blockers item = [] then Inl BlockersRequired
         else change_item i (item\<lparr>ti_status := status,
                ti_completed_at := (if status = Completed then Some now else None),
                ti_updated_at := now\<rparr>) l))"

fun check_added :: "todo_list \<Rightarrow> todo_id \<Rightarrow> todo_id list \<Rightarrow> (todo_error, unit) result" where
  "check_added l i [] = Inr ()"
| "check_added l i (d # ds) =
     (if i = d then Inl SelfDependency
      else if \<not> bm_contains (tl_items l) d then Inl UnknownDependency
      else check_added l i ds)"

text \<open>Dependencies are a \<open>BTreeSet\<close>: an ascending list without duplicates.\<close>

definition todo_update_dependencies ::
  "todo_id \<Rightarrow> todo_id list \<Rightarrow> todo_id list \<Rightarrow> instant \<Rightarrow> todo_item todo_change" where
  "todo_update_dependencies i add remove now l =
     (if set add \<inter> set remove \<noteq> {} then Inl AddRemoveConflict
      else and_then (ok_or UnknownTodo (bm_get (tl_items l) i)) (\<lambda>item.
        if archived item then Inl ArchivedImmutable
        else if ti_status item = Completed \<or> ti_status item = Cancelled then Inl TerminalDependencies
        else and_then (check_added l i add) (\<lambda>_.
          let deps = fold insort_insert add (filter (\<lambda>d. d \<notin> set remove) (ti_dependencies item));
              changed = item\<lparr>ti_dependencies := deps\<rparr>;
              l' = l\<lparr>tl_items := bm_update i (\<lambda>_. changed) (tl_items l)\<rparr>
          in if fst (has_cycle l' i {} {}) then Inl WouldCycle
             else change_item i (changed\<lparr>ti_updated_at := now\<rparr>) l')))"

definition todo_add_dependency :: "todo_id \<Rightarrow> todo_id \<Rightarrow> instant \<Rightarrow> todo_item todo_change" where
  "todo_add_dependency i d now = todo_update_dependencies i [d] [] now"

definition todo_remove_dependency :: "todo_id \<Rightarrow> todo_id \<Rightarrow> instant \<Rightarrow> todo_item todo_change" where
  "todo_remove_dependency i d now = todo_update_dependencies i [] [d] now"

definition todo_set_blockers :: "todo_id \<Rightarrow> rstring list \<Rightarrow> instant \<Rightarrow> todo_item todo_change" where
  "todo_set_blockers i blockers now l =
     and_then (ok_or UnknownTodo (bm_get (tl_items l) i)) (\<lambda>item.
       if archived item then Inl ArchivedImmutable
       else if ti_status item = Completed \<or> ti_status item = Cancelled then Inl TerminalBlocked
       else let bs = filter (\<lambda>v. v \<noteq> []) (map trim blockers);
                status = (if bs = [] \<and> ti_status item = Blocked then Pending
                          else if bs \<noteq> [] then Blocked
                          else ti_status item)
            in change_item i (item\<lparr>ti_blockers := bs, ti_status := status, ti_updated_at := now\<rparr>) l)"

definition todo_assign :: "todo_id \<Rightarrow> rstring list \<Rightarrow> instant \<Rightarrow> todo_item todo_change" where
  "todo_assign i assignees now l =
     (if list_ex blank assignees then Inl EmptyAssignee
      else and_then (ok_or UnknownTodo (bm_get (tl_items l) i)) (\<lambda>item.
        if archived item then Inl ArchivedImmutable
        else change_item i (item\<lparr>ti_assignees := assignees, ti_updated_at := now\<rparr>) l))"

definition todo_edit ::
  "todo_id \<Rightarrow> rstring option \<Rightarrow> rstring option \<Rightarrow> priority option \<Rightarrow> instant \<Rightarrow> todo_item todo_change" where
  "todo_edit i title description prio now l =
     and_then (ok_or UnknownTodo (bm_get (tl_items l) i)) (\<lambda>item.
       if archived item then Inl ArchivedImmutable
       else if is_some_and title blank then Inl EmptyTitle
       else change_item i (item\<lparr>ti_title := (case title of None \<Rightarrow> ti_title item | Some t \<Rightarrow> trim t),
              ti_description := case_option (ti_description item) id description,
              ti_priority := case_option (ti_priority item) id prio,
              ti_updated_at := now\<rparr>) l)"

definition todo_reorder :: "todo_id \<Rightarrow> int \<Rightarrow> instant \<Rightarrow> todo_item todo_change" where
  "todo_reorder i order now l =
     and_then (ok_or UnknownTodo (bm_get (tl_items l) i)) (\<lambda>item.
       if archived item then Inl ArchivedImmutable
       else change_item i (item\<lparr>ti_order := order, ti_updated_at := now\<rparr>) l)"

text \<open>The two clock readings of the source are separate arguments.\<close>

definition todo_append_linked_note ::
  "todo_id \<Rightarrow> entry_kind \<Rightarrow> rstring \<Rightarrow> rstring option \<Rightarrow> evidence_link list \<Rightarrow>
   instant \<Rightarrow> instant \<Rightarrow> todo_item todo_change" where
  "todo_append_linked_note i kind text author sources at now l =
     (if blank text then Inl EmptyEntry
      else and_then (ok_or UnknownTodo (bm_get (tl_items l) i)) (\<lambda>item.
        if archived item then Inl ArchivedImmutable
        else let entry = \<lparr>te_sources = sources, te_at = at, te_author = author, te_text = text\<rparr>;
                 item' = (case kind of
                     Note \<Rightarrow> item\<lparr>ti_notes := ti_notes item @ [entry]\<rparr>
                   | Progress \<Rightarrow> item\<lparr>ti_progress := ti_progress item @ [entry]\<rparr>
                   | Evidence \<Rightarrow> item\<lparr>ti_evidence := ti_evidence item @ [entry]\<rparr>)
             in change_item i (item'\<lparr>ti_updated_at := now\<rparr>) l))"

definition todo_append_note ::
  "todo_id \<Rightarrow> entry_kind \<Rightarrow> rstring \<Rightarrow> rstring option \<Rightarrow> instant \<Rightarrow> instant \<Rightarrow> todo_item todo_change" where
  "todo_append_note i kind text author = todo_append_linked_note i kind text author []"

definition todo_archive :: "todo_id \<Rightarrow> instant \<Rightarrow> instant \<Rightarrow> todo_item todo_change" where
  "todo_archive i at now l =
     and_then (ok_or UnknownTodo (bm_get (tl_items l) i)) (\<lambda>item.
       if ti_status item \<noteq> Completed \<and> ti_status item \<noteq> Cancelled then Inl NotArchivable
       else change_item i (item\<lparr>ti_archived_at := Some at, ti_updated_at := now\<rparr>) l)"

definition todo_remove :: "todo_id \<Rightarrow> unit todo_change" where
  "todo_remove i l =
     and_then (ok_or UnknownTodo (bm_get (tl_items l) i)) (\<lambda>item.
       if \<not> archived item then Inl NotArchived
       else if list_ex (\<lambda>other. ti_id other \<noteq> i \<and> i \<in> set (ti_dependencies other))
                 (bm_values (tl_items l))
       then Inl StillReferenced
       else Inr ((), l\<lparr>tl_items := bm_remove i (tl_items l)\<rparr>))"

definition clearable :: "todo_item \<Rightarrow> bool" where
  "clearable item \<longleftrightarrow> ti_status item = Completed \<and> ti_archived_at item = None"

definition todo_clear_completed :: "instant \<Rightarrow> nat todo_change" where
  "todo_clear_completed now l =
     Inr (length (filter clearable (bm_values (tl_items l))),
          l\<lparr>tl_items := map (\<lambda>(k, item). (k, if clearable item
             then item\<lparr>ti_archived_at := Some now, ti_updated_at := now\<rparr> else item)) (tl_items l)\<rparr>)"

section \<open>The transaction\<close>

text \<open>What is at the store's path, and how the save ended.\<close>

datatype stored = Absent | Unreadable | Unparsable | Parsed todo_list

datatype save_outcome = Saved | FailedBeforeRename | FailedAfterRename

record todo_store =
  ts_scope :: todo_scope
  ts_lock_ok :: bool
  ts_file :: stored

definition load_raw :: "todo_store \<Rightarrow> (todo_error, todo_list) result" where
  "load_raw s = (case ts_file s of
     Parsed l \<Rightarrow>
       if tl_version l \<noteq> store_version then Inl (UnsupportedVersion (tl_version l))
       else if tl_scope l \<noteq> ts_scope s then Inl ScopeMismatch
       else and_then (validate_graph l) (\<lambda>_. Inr l)
   | Unparsable \<Rightarrow> Inl MalformedStore
   | Absent \<Rightarrow> Inr (todo_empty (ts_scope s))
   | Unreadable \<Rightarrow> Inl ReadFailed)"

definition save_raw :: "save_outcome \<Rightarrow> todo_list \<Rightarrow> todo_store \<Rightarrow> (todo_error, unit) result \<times> todo_store" where
  "save_raw outcome l s = (case outcome of
     Saved \<Rightarrow> (Inr (), s\<lparr>ts_file := Parsed l\<rparr>)
   | FailedBeforeRename \<Rightarrow> (Inl SaveFailed, s)
   | FailedAfterRename \<Rightarrow> (Inl SaveFailed, s\<lparr>ts_file := Parsed l\<rparr>))"

definition mutate ::
  "save_outcome \<Rightarrow> 'a todo_change \<Rightarrow> todo_store \<Rightarrow> (todo_error, 'a) result \<times> todo_store" where
  "mutate outcome operation s =
     (if \<not> ts_lock_ok s then (Inl LockFailed, s)
      else case load_raw s of
        Inl e \<Rightarrow> (Inl e, s)
      | Inr l \<Rightarrow> (case operation l of
          Inl e \<Rightarrow> (Inl e, s)
        | Inr (x, l') \<Rightarrow> (case checked_add_u64 (tl_revision l') 1 of
            None \<Rightarrow> (Inl TodoRevisionOverflow, s)
          | Some next_rev \<Rightarrow> (case save_raw outcome (l'\<lparr>tl_revision := next_rev\<rparr>) s of
              (Inl e, s') \<Rightarrow> (Inl e, s')
            | (Inr _, s') \<Rightarrow> (Inr x, s')))))"

definition todo_snapshot :: "todo_store \<Rightarrow> (todo_error, todo_list) result" where
  "todo_snapshot s = load_raw s"

text \<open>
  \<open>create_registered\<close>: the title is checked before the run is registered, and again inside the
  transaction. \<open>registration\<close> is \<open>None\<close> without a run, else whether the run shares the store's
  coordinator and how its registration of the identifier ended.
\<close>

definition todo_create_registered ::
  "(bool \<times> (todo_error, unit) result) option \<Rightarrow> save_outcome \<Rightarrow> todo_id \<Rightarrow> new_todo \<Rightarrow> instant \<Rightarrow>
   todo_store \<Rightarrow> (todo_error, todo_item) result \<times> todo_store" where
  "todo_create_registered registration outcome i new now s =
     (if blank (nt_title new) then (Inl EmptyTitle, s)
      else case (case registration of
                   None \<Rightarrow> Inr ()
                 | Some (same, registered) \<Rightarrow> if \<not> same then Inl CoordinatorMismatch else registered) of
             Inl e \<Rightarrow> (Inl e, s)
           | Inr _ \<Rightarrow> mutate outcome (todo_create i new now) s)"

definition todo_import_github_feedback ::
  "(todo_error, unit) result \<Rightarrow> path \<Rightarrow> bool \<Rightarrow> access_mode \<Rightarrow> bool \<Rightarrow> save_outcome \<Rightarrow> todo_id \<Rightarrow>
   feedback \<Rightarrow> instant \<Rightarrow> todo_store \<Rightarrow> (todo_error, todo_item) result \<times> todo_store" where
  "todo_import_github_feedback validated policy_workspace policy_current mode cancelled outcome i fb now s =
     (case validated of
        Inl e \<Rightarrow> (Inl e, s)
      | Inr _ \<Rightarrow>
          if sc_workspace (ts_scope s) \<noteq> policy_workspace then (Inl WorkspaceMismatch, s)
          else mutate outcome (todo_import_feedback policy_current mode cancelled i fb now) s)"

end
