(* ===== verification/Todo_Invariant.thy ===== *)
theory Todo_Invariant
  imports Todo_Store
begin

text \<open>
  What every operation of the todo store keeps: the well-formedness of items and lists, archived
  items, and the loadability of what the store writes. The operations are collected in one
  datatype, so that a store used by any sequence of them is a step relation.
\<close>

section \<open>Well-formed lists\<close>

definition item_wf :: "todo_item \<Rightarrow> bool" where
  "item_wf item \<longleftrightarrow>
     (ti_status item \<in> {InProgress, Completed} \<longrightarrow> ti_blockers item = []) \<and>
     (ti_status item = Blocked \<longrightarrow> ti_blockers item \<noteq> []) \<and>
     (ti_completed_at item \<noteq> None \<longleftrightarrow> ti_status item = Completed) \<and>
     (archived item \<longrightarrow> ti_status item \<in> {Completed, Cancelled})"

definition list_wf :: "todo_list \<Rightarrow> bool" where
  "list_wf l \<longleftrightarrow> bm_sorted (tl_items l) \<and>
     (\<forall>k item. bm_get (tl_items l) k = Some item \<longrightarrow> ti_id item = k \<and> item_wf item) \<and>
     dependencies_closed l \<and> acyclic (edges l)"

lemma list_wfD:
  assumes "list_wf l"
  shows "bm_sorted (tl_items l)" "dependencies_closed l" "acyclic (edges l)"
    and "bm_get (tl_items l) k = Some item \<Longrightarrow> ti_id item = k"
    and "bm_get (tl_items l) k = Some item \<Longrightarrow> item_wf item"
  using assms by (auto simp: list_wf_def)

lemma list_wf_empty: "list_wf (todo_empty scope)"
  by (simp add: list_wf_def todo_empty_def dependencies_closed_def bm_values_def bm_get_def
      edges_def dependencies_of_def acyclic_def)

text \<open>Closure and edges, read through lookups.\<close>

lemma keys_iff: "i \<in> keys l \<longleftrightarrow> bm_get (tl_items l) i \<noteq> None"
  unfolding keys_def using bm_contains_iff bm_contains_get by (metis not_None_eq)

lemma dependencies_closed_get:
  assumes "bm_sorted (tl_items l)"
  shows "dependencies_closed l \<longleftrightarrow>
     (\<forall>k item. bm_get (tl_items l) k = Some item \<longrightarrow> set (ti_dependencies item) \<subseteq> keys l)"
  unfolding dependencies_closed_def using bm_values_get [OF assms] by metis

lemma edges_get:
  "(a, b) \<in> edges l \<longleftrightarrow> (\<exists>item. bm_get (tl_items l) a = Some item \<and> b \<in> set (ti_dependencies item))"
  by (cases "bm_get (tl_items l) a") (simp_all add: edges_def dependencies_of_def)

lemma list_wfI:
  assumes "bm_sorted (tl_items l)" "acyclic (edges l)"
    and "\<And>k item. bm_get (tl_items l) k = Some item \<Longrightarrow> ti_id item = k"
    and "\<And>k item. bm_get (tl_items l) k = Some item \<Longrightarrow> item_wf item"
    and "\<And>k item. bm_get (tl_items l) k = Some item \<Longrightarrow> set (ti_dependencies item) \<subseteq> keys l"
  shows "list_wf l"
  using assms(2-5) dependencies_closed_get [OF assms(1)] assms(1) unfolding list_wf_def by simp

lemma list_wf_deps:
  "list_wf l \<Longrightarrow> bm_get (tl_items l) k = Some item \<Longrightarrow> set (ti_dependencies item) \<subseteq> keys l"
  using dependencies_closed_get [OF list_wfD(1)] list_wfD(2) by blast

text \<open>
  One item put in the place of another, or a new one, with at most the dependencies that were
  there: \<open>put\<close> stands for an update in place or an insertion.
\<close>

lemma list_wf_change:
  assumes wf: "list_wf l" and sorted: "bm_sorted m"
    and get: "\<And>j. bm_get m j = (if j = i then Some item' else bm_get (tl_items l) j)"
    and deps: "set (ti_dependencies item') \<subseteq> set (dependencies_of l i)"
    and item': "ti_id item' = i" "item_wf item'"
  shows "list_wf (l\<lparr>tl_items := m\<rparr>)"
proof -
  let ?l = "l\<lparr>tl_items := m\<rparr>"
  have keys: "keys l \<subseteq> keys ?l"
    by (auto simp: keys_iff get)
  have "(a, b) \<in> edges l" if "(a, b) \<in> edges ?l" for a b
    using that deps by (cases "a = i") (auto simp: edges_def dependencies_of_def get)
  then have "edges ?l \<subseteq> edges l" by auto
  with list_wfD(3) [OF wf] have "acyclic (edges ?l)" by (rule acyclic_subset)
  moreover have "set (ti_dependencies x) \<subseteq> keys ?l" if "bm_get m j = Some x" for j x
  proof (cases "j = i")
    case True
    with that deps have "b \<in> set (ti_dependencies x) \<Longrightarrow> (i, b) \<in> edges l" for b
      by (auto simp: get edges_def)
    then show ?thesis
      using list_wfD(1,2) [OF wf] keys by (fastforce simp: dependencies_closed_get edges_get)
  next
    case False
    with that list_wfD(1,2) [OF wf] keys show ?thesis
      by (auto simp: get dependencies_closed_get)
  qed
  ultimately show ?thesis
    using sorted item' list_wfD(4,5) [OF wf]
    by (simp add: list_wf_def get dependencies_closed_get)
qed

lemma list_wf_replace:
  assumes "list_wf l" "bm_get (tl_items l) i = Some item"
    and "ti_dependencies item' = ti_dependencies item" "ti_id item' = ti_id item"
    and "item_wf item \<Longrightarrow> item_wf item'"
  shows "list_wf (l\<lparr>tl_items := bm_update i (\<lambda>_. item') (tl_items l)\<rparr>)"
  using assms list_wfD [OF assms(1)]
  by (intro list_wf_change [where i = i and item' = item']) (simp_all add: dependencies_of_def)

lemma list_wf_put:
  assumes "list_wf l" "ti_dependencies item = []" "item_wf item"
  shows "list_wf (put_item item l)"
  using assms list_wfD(1) [OF assms(1)] unfolding put_item_def
  by (intro list_wf_change [where i = "ti_id item" and item' = item]) auto

text \<open>What a change of an item that is not archived must keep.\<close>

lemma item_wf_open:
  "\<not> archived item \<Longrightarrow> item_wf item \<longleftrightarrow>
     (ti_status item \<in> {InProgress, Completed} \<longrightarrow> ti_blockers item = []) \<and>
     (ti_status item = Blocked \<longrightarrow> ti_blockers item \<noteq> []) \<and>
     (ti_completed_at item \<noteq> None \<longleftrightarrow> ti_status item = Completed)"
  by (simp add: item_wf_def)

lemma archived_update [simp]:
  "archived (item\<lparr>ti_status := s\<rparr>) = archived item"
  "archived (item\<lparr>ti_completed_at := c\<rparr>) = archived item"
  "archived (item\<lparr>ti_updated_at := now\<rparr>) = archived item"
  "archived (item\<lparr>ti_blockers := bs\<rparr>) = archived item"
  "archived (item\<lparr>ti_dependencies := ds\<rparr>) = archived item"
  "archived (item\<lparr>ti_title := t\<rparr>) = archived item"
  "archived (item\<lparr>ti_description := d\<rparr>) = archived item"
  "archived (item\<lparr>ti_priority := p\<rparr>) = archived item"
  "archived (item\<lparr>ti_order := n\<rparr>) = archived item"
  "archived (item\<lparr>ti_assignees := as\<rparr>) = archived item"
  "archived (item\<lparr>ti_notes := ns\<rparr>) = archived item"
  "archived (item\<lparr>ti_progress := ns\<rparr>) = archived item"
  "archived (item\<lparr>ti_evidence := ns\<rparr>) = archived item"
  by (simp_all add: archived_def)

section \<open>Every operation keeps it\<close>

lemmas op_simps = change_item_def and_then_Inr Let_def if_distrib [where f = "\<lambda>r. r = Inr y" for y]

lemma todo_create_wf:
  "list_wf l \<Longrightarrow> todo_create i new now l = Inr (x, l') \<Longrightarrow> list_wf l'"
  by (auto simp: todo_create_def Let_def item_wf_def archived_def intro!: list_wf_put)

lemma todo_import_feedback_wf:
  "list_wf l \<Longrightarrow> todo_import_feedback cur mode can i fb now l = Inr (x, l') \<Longrightarrow> list_wf l'"
  by (auto simp: todo_import_feedback_def Let_def item_wf_def archived_def and_then_Inr
      split: option.splits intro!: list_wf_put)

lemma todo_set_status_wf:
  assumes "list_wf l" "todo_set_status i status now l = Inr (x, l')"
  shows "list_wf l'"
proof -
  obtain item where item: "bm_get (tl_items l) i = Some item" "\<not> archived item"
    "status = InProgress \<or> status = Completed \<longrightarrow> ti_blockers item = []"
    "status = Blocked \<longrightarrow> ti_blockers item \<noteq> []"
    and l': "l' = l\<lparr>tl_items := bm_update i (\<lambda>_. item\<lparr>ti_status := status,
                ti_completed_at := (if status = Completed then Some now else None),
                ti_updated_at := now\<rparr>) (tl_items l)\<rparr>"
    using assms(2) by (auto simp: todo_set_status_def change_item_def and_then_Inr split: if_splits)
  then show ?thesis
    by (auto intro!: list_wf_replace [OF assms(1) item(1)] simp: item_wf_open)
qed


text \<open>
  The remaining operations on one item: whatever they change, they leave its identity, its
  dependencies and the fields \<open>item_wf\<close> speaks of, except for the blockers and the archive time.
\<close>

lemma todo_change_item_wf:
  assumes "list_wf l" "bm_get (tl_items l) i = Some item"
    and "change_item i item' l = Inr (x, l')"
    and "ti_dependencies item' = ti_dependencies item" "ti_id item' = ti_id item"
    and "item_wf item \<Longrightarrow> item_wf item'"
  shows "list_wf l'"
  using assms list_wf_replace [OF assms(1,2,4,5,6)] by (auto simp: change_item_def)

lemma todo_set_blockers_wf:
  assumes "list_wf l" "todo_set_blockers i bs now l = Inr (x, l')"
  shows "list_wf l'"
  using assms(2)
  by (auto simp: todo_set_blockers_def and_then_Inr Let_def item_wf_open
      elim!: todo_change_item_wf [OF assms(1)])

lemma todo_assign_wf:
  assumes "list_wf l" "todo_assign i as now l = Inr (x, l')"
  shows "list_wf l'"
  using assms(2)
  by (auto simp: todo_assign_def and_then_Inr item_wf_open
      elim!: todo_change_item_wf [OF assms(1)])

lemma todo_edit_wf:
  assumes "list_wf l" "todo_edit i t d p now l = Inr (x, l')"
  shows "list_wf l'"
  using assms(2)
  by (auto simp: todo_edit_def and_then_Inr item_wf_open
      elim!: todo_change_item_wf [OF assms(1)])

lemma todo_reorder_wf:
  assumes "list_wf l" "todo_reorder i n now l = Inr (x, l')"
  shows "list_wf l'"
  using assms(2)
  by (auto simp: todo_reorder_def and_then_Inr item_wf_open
      elim!: todo_change_item_wf [OF assms(1)])

lemma todo_append_linked_note_wf:
  assumes "list_wf l" "todo_append_linked_note i kind text author sources at now l = Inr (x, l')"
  shows "list_wf l'"
  using assms(2)
  by (cases kind) (auto simp: todo_append_linked_note_def and_then_Inr Let_def item_wf_open
      elim!: todo_change_item_wf [OF assms(1)])

lemma todo_archive_wf:
  assumes "list_wf l" "todo_archive i at now l = Inr (x, l')"
  shows "list_wf l'"
  using assms(2)
  by (auto simp: todo_archive_def and_then_Inr item_wf_def archived_def
      elim!: todo_change_item_wf [OF assms(1)])

text \<open>Dependencies: the new edges all leave the item, and the search found no cycle from it.\<close>

lemma todo_update_dependencies_Inr:
  assumes "todo_update_dependencies i add remove now l = Inr (x, l')"
  obtains item where "bm_get (tl_items l) i = Some item" "\<not> archived item"
    "ti_status item \<notin> {Completed, Cancelled}" "check_added l i add = Inr ()"
    "x = item\<lparr>ti_dependencies := fold insort_insert add
          (filter (\<lambda>d. d \<notin> set remove) (ti_dependencies item)), ti_updated_at := now\<rparr>"
    "l' = l\<lparr>tl_items := bm_update i (\<lambda>_. x) (tl_items l)\<rparr>"
    "\<not> fst (has_cycle (l\<lparr>tl_items := bm_update i (\<lambda>_. x\<lparr>ti_updated_at := ti_updated_at item\<rparr>)
          (tl_items l)\<rparr>) i {} {})"
  using assms
  by (auto simp: todo_update_dependencies_def and_then_Inr Let_def change_item_def)

lemma check_added_Inr:
  "check_added l i add = Inr () \<longleftrightarrow> i \<notin> set add \<and> set add \<subseteq> keys l"
  by (induction add) (auto simp: bm_contains_iff keys_def)


lemma set_fold_insort_insert: "set (fold insort_insert xs ys) = set xs \<union> set ys"
  by (induction xs arbitrary: ys) (auto simp: set_insort_insert)

lemma todo_update_dependencies_wf:
  assumes wf: "list_wf l" and run: "todo_update_dependencies i add remove now l = Inr (x, l')"
  shows "list_wf l'"
proof -
  obtain item where item: "bm_get (tl_items l) i = Some item" "\<not> archived item"
    and added: "check_added l i add = Inr ()"
    and x: "x = item\<lparr>ti_dependencies := fold insort_insert add
          (filter (\<lambda>d. d \<notin> set remove) (ti_dependencies item)), ti_updated_at := now\<rparr>"
    and l': "l' = l\<lparr>tl_items := bm_update i (\<lambda>_. x) (tl_items l)\<rparr>"
    and search: "\<not> fst (has_cycle (l\<lparr>tl_items := bm_update i
          (\<lambda>_. x\<lparr>ti_updated_at := ti_updated_at item\<rparr>) (tl_items l)\<rparr>) i {} {})" (is "\<not> fst (has_cycle ?l _ _ _)")
    by (rule todo_update_dependencies_Inr [OF run])
  have get: "bm_get (tl_items l') j = (if j = i then Some x else bm_get (tl_items l) j)" for j
    using item by (simp add: l')
  have keys: "keys l' = keys l"
    using item by (simp add: set_eq_iff keys_iff get)
  have "edges ?l = edges l'"
    by (auto simp: edges_get l' split: if_splits)
  then have "\<not> reaches_cycle (edges l') i"
    using search by (simp add: has_cycle_iff)
  then have "acyclic (edges l')"
    by (rule acyclic_change_node [OF list_wfD(3) [OF wf], rotated]) (auto simp: edges_get get)
  moreover have "set (ti_dependencies y) \<subseteq> keys l'" if "bm_get (tl_items l') j = Some y" for j y
    using that item(1) added list_wf_deps [OF wf item(1)] list_wf_deps [OF wf, of j]
    by (cases "j = i") (auto simp: get keys x check_added_Inr set_fold_insort_insert subset_iff)
  moreover have "ti_id y = j" "item_wf y" if "bm_get (tl_items l') j = Some y" for j y
    using that item list_wfD(4,5) [OF wf, of j] list_wfD(4,5) [OF wf item(1)]
    by (cases "j = i"; auto simp: get x item_wf_open)+
  ultimately show ?thesis
    using list_wfD(1) [OF wf] by (intro list_wfI) (simp_all add: l')
qed

lemma todo_remove_wf:
  assumes wf: "list_wf l" and run: "todo_remove i l = Inr (x, l')"
  shows "list_wf l'"
proof -
  obtain item where "bm_get (tl_items l) i = Some item"
    and free: "\<forall>other \<in> set (bm_values (tl_items l)). ti_id other \<noteq> i \<longrightarrow> i \<notin> set (ti_dependencies other)"
    and l': "l' = l\<lparr>tl_items := bm_remove i (tl_items l)\<rparr>"
    using run by (auto simp: todo_remove_def and_then_Inr list_ex_iff)
  have get: "bm_get (tl_items l') j = (if j = i then None else bm_get (tl_items l) j)" for j
    by (simp add: l')
  have "edges l' \<subseteq> edges l"
    by (auto simp: edges_get get split: if_splits)
  then have "acyclic (edges l')"
    using list_wfD(3) [OF wf] by (rule acyclic_subset [rotated])
  moreover have "set (ti_dependencies y) \<subseteq> keys l'" if y: "bm_get (tl_items l') j = Some y" for j y
  proof -
    from y have *: "j \<noteq> i" "bm_get (tl_items l) j = Some y"
      by (auto simp: get split: if_splits)
    then have "i \<notin> set (ti_dependencies y)"
      using free list_wfD(1) [OF wf] list_wfD(4) [OF wf *(2)] by (auto simp: bm_values_get)
    moreover have "set (ti_dependencies y) \<subseteq> keys l"
      using list_wf_deps [OF wf] * by blast
    ultimately show ?thesis by (auto simp: keys_iff get)
  qed
  moreover have "ti_id y = j" "item_wf y" if "bm_get (tl_items l') j = Some y" for j y
    using that list_wfD(4,5) [OF wf, of j] by (auto simp: get split: if_splits)
  ultimately show ?thesis
    using list_wfD(1) [OF wf] by (intro list_wfI) (auto simp: l')
qed

lemma bm_get_map: "bm_get (map (\<lambda>(k, v). (k, f v)) m) j = map_option f (bm_get m j)"
  by (induction m) (auto simp: bm_get_def)

lemma todo_clear_completed_wf:
  assumes wf: "list_wf l" and run: "todo_clear_completed now l = Inr (n, l')"
  shows "list_wf l'"
proof -
  define f where "f item = (if clearable item
    then item\<lparr>ti_archived_at := Some now, ti_updated_at := now\<rparr> else item)" for item
  have l': "l' = l\<lparr>tl_items := map (\<lambda>(k, v). (k, f v)) (tl_items l)\<rparr>"
    using run by (auto simp: todo_clear_completed_def f_def)
  have get: "bm_get (tl_items l') j = map_option f (bm_get (tl_items l) j)" for j
    by (simp add: l' bm_get_map)
  have f: "ti_dependencies (f y) = ti_dependencies y" "ti_id (f y) = ti_id y" "item_wf y \<Longrightarrow> item_wf (f y)" for y
    by (auto simp: f_def clearable_def item_wf_def archived_def)
  have "edges l' = edges l" "keys l' = keys l"
    by (auto simp: edges_get keys_iff get f)
  moreover have "map fst (tl_items l') = map fst (tl_items l)"
    by (simp add: l' case_prod_unfold)
  moreover have "ti_id y = j \<and> item_wf y \<and> set (ti_dependencies y) \<subseteq> keys l"
    if "bm_get (tl_items l') j = Some y" for j y
    using that list_wfD(4,5) [OF wf, of j] list_wf_deps [OF wf, of j]
    by (auto simp: get f subset_iff)
  ultimately show ?thesis
    using list_wfD(1,3) [OF wf] by (intro list_wfI) (simp_all add: bm_sorted_def)
qed

section \<open>All operations as one\<close>

datatype todo_op =
  Op_Create todo_id new_todo instant
| Op_Import bool access_mode bool todo_id feedback instant
| Op_Set_Status todo_id todo_status instant
| Op_Update_Dependencies todo_id "todo_id list" "todo_id list" instant
| Op_Set_Blockers todo_id "rstring list" instant
| Op_Assign todo_id "rstring list" instant
| Op_Edit todo_id "rstring option" "rstring option" "priority option" instant
| Op_Reorder todo_id int instant
| Op_Append todo_id entry_kind rstring "rstring option" "evidence_link list" instant instant
| Op_Archive todo_id instant instant
| Op_Remove todo_id
| Op_Clear_Completed instant

definition list_of :: "(todo_error, 'a \<times> todo_list) result \<Rightarrow> (todo_error, todo_list) result" where
  "list_of r = map_sum id snd r"

lemma list_of_Inr [simp]: "list_of r = Inr l \<longleftrightarrow> (\<exists>x. r = Inr (x, l))"
  by (cases r) (auto simp: list_of_def)

fun apply_op :: "todo_op \<Rightarrow> todo_list \<Rightarrow> (todo_error, todo_list) result" where
  "apply_op (Op_Create i new now) l = list_of (todo_create i new now l)"
| "apply_op (Op_Import cur mode can i fb now) l = list_of (todo_import_feedback cur mode can i fb now l)"
| "apply_op (Op_Set_Status i s now) l = list_of (todo_set_status i s now l)"
| "apply_op (Op_Update_Dependencies i a r now) l = list_of (todo_update_dependencies i a r now l)"
| "apply_op (Op_Set_Blockers i bs now) l = list_of (todo_set_blockers i bs now l)"
| "apply_op (Op_Assign i who now) l = list_of (todo_assign i who now l)"
| "apply_op (Op_Edit i t d p now) l = list_of (todo_edit i t d p now l)"
| "apply_op (Op_Reorder i n now) l = list_of (todo_reorder i n now l)"
| "apply_op (Op_Append i k t a src at now) l = list_of (todo_append_linked_note i k t a src at now l)"
| "apply_op (Op_Archive i at now) l = list_of (todo_archive i at now l)"
| "apply_op (Op_Remove i) l = list_of (todo_remove i l)"
| "apply_op (Op_Clear_Completed now) l = list_of (todo_clear_completed now l)"

lemmas todo_op_wf = todo_create_wf todo_import_feedback_wf todo_set_status_wf
  todo_update_dependencies_wf todo_set_blockers_wf todo_assign_wf todo_edit_wf todo_reorder_wf
  todo_append_linked_note_wf todo_archive_wf todo_remove_wf todo_clear_completed_wf

lemma apply_op_wf: "list_wf l \<Longrightarrow> apply_op op l = Inr l' \<Longrightarrow> list_wf l'"
  by (cases op) (auto intro: todo_op_wf)

text \<open>The identifiers an operation may touch although the item is archived.\<close>

fun op_reopens :: "todo_op \<Rightarrow> todo_id \<Rightarrow> bool" where
  "op_reopens (Op_Create i _ _) k \<longleftrightarrow> i = k"
| "op_reopens (Op_Import _ _ _ i _ _) k \<longleftrightarrow> i = k"
| "op_reopens (Op_Archive i _ _) k \<longleftrightarrow> i = k"
| "op_reopens (Op_Remove i) k \<longleftrightarrow> i = k"
| "op_reopens _ k \<longleftrightarrow> False"

text \<open>
  An operation puts a new item, changes one item that is not archived (\<open>archive\<close> apart), removes
  one, or archives the completed ones.
\<close>

definition one_change :: "todo_op \<Rightarrow> todo_list \<Rightarrow> todo_list \<Rightarrow> bool" where
  "one_change op l l' \<longleftrightarrow> (\<exists>k item item'. bm_get (tl_items l) k = Some item \<and>
     (archived item \<longrightarrow> op_reopens op k) \<and>
     l' = l\<lparr>tl_items := bm_update k (\<lambda>_. item') (tl_items l)\<rparr>)"

lemma one_changeI:
  "bm_get (tl_items l) k = Some item \<Longrightarrow> change_item k item' l = Inr (x, l') \<Longrightarrow>
     (archived item \<Longrightarrow> op_reopens op k) \<Longrightarrow> one_change op l l'"
  by (auto simp: one_change_def change_item_def)

lemma set_status_one: "apply_op (Op_Set_Status i s now) l = Inr l' \<Longrightarrow> one_change (Op_Set_Status i s now) l l'"
  by (auto simp: todo_set_status_def and_then_Inr elim: one_changeI)

lemma update_dependencies_one:
  "apply_op (Op_Update_Dependencies i a r now) l = Inr l' \<Longrightarrow> one_change (Op_Update_Dependencies i a r now) l l'"
  by (auto elim!: todo_update_dependencies_Inr simp: one_change_def)

lemma set_blockers_one: "apply_op (Op_Set_Blockers i bs now) l = Inr l' \<Longrightarrow> one_change (Op_Set_Blockers i bs now) l l'"
  by (auto simp: todo_set_blockers_def and_then_Inr Let_def elim: one_changeI)

lemma assign_one: "apply_op (Op_Assign i w now) l = Inr l' \<Longrightarrow> one_change (Op_Assign i w now) l l'"
  by (auto simp: todo_assign_def and_then_Inr elim: one_changeI)

lemma edit_one: "apply_op (Op_Edit i t d p now) l = Inr l' \<Longrightarrow> one_change (Op_Edit i t d p now) l l'"
  by (auto simp: todo_edit_def and_then_Inr elim: one_changeI)

lemma reorder_one: "apply_op (Op_Reorder i n now) l = Inr l' \<Longrightarrow> one_change (Op_Reorder i n now) l l'"
  by (auto simp: todo_reorder_def and_then_Inr elim: one_changeI)

lemma append_one:
  "apply_op (Op_Append i k t a src at now) l = Inr l' \<Longrightarrow> one_change (Op_Append i k t a src at now) l l'"
  by (auto simp: todo_append_linked_note_def and_then_Inr Let_def elim: one_changeI)

lemma archive_one: "apply_op (Op_Archive i at now) l = Inr l' \<Longrightarrow> one_change (Op_Archive i at now) l l'"
  by (auto simp: todo_archive_def and_then_Inr elim: one_changeI)

definition one_put :: "todo_id \<Rightarrow> todo_list \<Rightarrow> todo_list \<Rightarrow> bool" where
  "one_put i l l' \<longleftrightarrow> (\<exists>item. ti_id item = i \<and> l' = put_item item l)"

lemma one_putI: "ti_id item = i \<Longrightarrow> one_put i l (put_item item l)"
  by (auto simp: one_put_def)

lemma create_put: "apply_op (Op_Create i new now) l = Inr l' \<Longrightarrow> one_put i l l'"
  by (auto simp: todo_create_def Let_def intro!: one_putI)

lemma import_put:
  "apply_op (Op_Import cur mode can i fb now) l = Inr l' \<Longrightarrow>
     l' = l \<or> one_put i l l'"
  by (auto simp: todo_import_feedback_def and_then_Inr Let_def split: option.splits intro!: one_putI)

lemma remove_change:
  "apply_op (Op_Remove i) l = Inr l' \<Longrightarrow> l' = l\<lparr>tl_items := bm_remove i (tl_items l)\<rparr>"
  by (auto simp: todo_remove_def and_then_Inr)

lemmas one_changes = set_status_one update_dependencies_one set_blockers_one assign_one edit_one
  reorder_one append_one archive_one

lemma apply_op_cases:
  assumes "apply_op op l = Inr l'"
  obtains (same) "l' = l"
  | (put) item where "op_reopens op (ti_id item)" "l' = put_item item l"
  | (change) "one_change op l l'"
  | (del) i where "op = Op_Remove i" "l' = l\<lparr>tl_items := bm_remove i (tl_items l)\<rparr>"
  | (clear) now where "op = Op_Clear_Completed now" "apply_op (Op_Clear_Completed now) l = Inr l'"
proof (cases op)
  case (Op_Create i new now)
  with assms create_put [of i new now l l'] put show thesis by (auto simp: one_put_def)
next
  case (Op_Import cur mode can i fb now)
  with assms import_put [of cur mode can i fb now l l'] put same show thesis
    by (auto simp: one_put_def)
next
  case (Op_Remove i)
  with assms remove_change [of i l l'] del show thesis by blast
next
  case (Op_Clear_Completed now)
  with assms clear show thesis by blast
qed (use assms in \<open>blast intro: change one_changes\<close>)+

lemma apply_op_frame:
  "apply_op op l = Inr l' \<Longrightarrow>
     tl_version l' = tl_version l \<and> tl_scope l' = tl_scope l \<and> tl_revision l' = tl_revision l"
  by (erule apply_op_cases) (auto simp: put_item_def one_change_def todo_clear_completed_def)

lemma apply_op_archived:
  assumes "apply_op op l = Inr l'" "bm_sorted (tl_items l)"
    and "bm_get (tl_items l) k = Some item" "archived item" "\<not> op_reopens op k"
  shows "bm_get (tl_items l') k = Some item"
  using assms(1)
proof (cases rule: apply_op_cases)
  case (put new)
  with assms(2-5) show ?thesis by (auto simp: put_item_def)
next
  case change
  with assms(3-5) show ?thesis by (auto simp: one_change_def)
next
  case (clear now)
  with assms(3,4) show ?thesis
    by (auto simp: todo_clear_completed_def bm_get_map clearable_def archived_def)
qed (use assms in auto)

section \<open>The store\<close>

definition run_op :: "save_outcome \<Rightarrow> todo_op \<Rightarrow> todo_store \<Rightarrow> (todo_error, unit) result \<times> todo_store" where
  "run_op outcome op = mutate outcome (\<lambda>l. map_sum id (Pair ()) (apply_op op l))"

inductive todo_step :: "todo_store \<Rightarrow> todo_store \<Rightarrow> bool" where
  operate: "run_op outcome op s = (r, s') \<Longrightarrow> todo_step s s'"
| lock_lost: "todo_step s (s\<lparr>ts_lock_ok := ok\<rparr>)"

inductive_cases todo_stepE: "todo_step s s'"

definition store_ok :: "todo_store \<Rightarrow> bool" where
  "store_ok s = (case ts_file s of
     Parsed l \<Rightarrow> list_wf l \<and> tl_version l = store_version \<and> tl_scope l = ts_scope s \<and> tl_revision l \<le> u64_max
   | Absent \<Rightarrow> True | _ \<Rightarrow> False)"

definition store_list :: "todo_store \<Rightarrow> todo_list" where
  "store_list s = (case ts_file s of Parsed l \<Rightarrow> l | _ \<Rightarrow> todo_empty (ts_scope s))"

lemma load_raw_ok: "store_ok s \<Longrightarrow> load_raw s = Inr (store_list s)"
  by (auto simp: store_ok_def load_raw_def store_list_def list_wf_def validate_graph_iff [THEN iffD2]
      split: stored.splits)

lemma store_list_wf: "store_ok s \<Longrightarrow> list_wf (store_list s)"
  by (auto simp: store_ok_def store_list_def list_wf_empty split: stored.splits)

definition saved :: "todo_list \<Rightarrow> todo_store \<Rightarrow> todo_store" where
  "saved l s = s\<lparr>ts_file := Parsed (l\<lparr>tl_revision := tl_revision l + 1\<rparr>)\<rparr>"

lemma saved_simps [simp]:
  "ts_scope (saved l s) = ts_scope s"
  "store_list (saved l s) = l\<lparr>tl_revision := tl_revision l + 1\<rparr>"
  by (simp_all add: saved_def store_list_def)

lemma run_op_eq:
  assumes "store_ok s"
  shows "run_op outcome op s = (if \<not> ts_lock_ok s then (Inl LockFailed, s)
      else case apply_op op (store_list s) of Inl e \<Rightarrow> (Inl e, s)
      | Inr l' \<Rightarrow> if u64_max < tl_revision l' + 1 then (Inl TodoRevisionOverflow, s)
         else case outcome of Saved \<Rightarrow> (Inr (), saved l' s)
           | FailedBeforeRename \<Rightarrow> (Inl SaveFailed, s)
           | FailedAfterRename \<Rightarrow> (Inl SaveFailed, saved l' s))"
  unfolding run_op_def mutate_def load_raw_ok [OF assms] save_raw_def checked_add_u64_def saved_def
  by (cases "apply_op op (store_list s)"; cases outcome) (simp_all add: not_less)

lemma run_op_result:
  assumes "store_ok s" "run_op outcome op s = (r, s')"
  obtains (failed) e where "r = Inl e" "s' = s"
  | (late) e l' where "r = Inl e" "apply_op op (store_list s) = Inr l'"
      "tl_revision l' + 1 \<le> u64_max" "s' = saved l' s"
      "outcome = FailedAfterRename"
  | (success) l' where "r = Inr ()" "apply_op op (store_list s) = Inr l'"
      "tl_revision l' + 1 \<le> u64_max" "s' = saved l' s"
proof (cases "ts_lock_ok s")
  case False
  then show thesis
    using failed assms(2) by (simp add: run_op_eq [OF assms(1)] eq_commute [of _ r] eq_commute [of _ s'])
next
  case True
  show thesis
  proof (cases "apply_op op (store_list s)")
    case (Inl e)
    with True failed assms(2) show thesis
      by (simp add: run_op_eq [OF assms(1)] eq_commute [of _ r] eq_commute [of _ s'])
  next
    case (Inr l')
    show thesis
    proof (cases "tl_revision l' + 1 \<le> u64_max")
      case False
      with True Inr failed assms(2) show thesis
        by (simp add: run_op_eq [OF assms(1)] eq_commute [of _ r] eq_commute [of _ s'])
    next
      case fits: True
      have "(r, s') = (case outcome of Saved \<Rightarrow> (Inr (), saved l' s)
           | FailedBeforeRename \<Rightarrow> (Inl SaveFailed, s)
           | FailedAfterRename \<Rightarrow> (Inl SaveFailed, saved l' s))"
        using True Inr fits assms(2) by (simp add: run_op_eq [OF assms(1)])
      then show thesis
        using failed late [OF _ Inr fits] success [OF _ Inr fits] by (cases outcome) simp_all
    qed
  qed
qed

lemma list_wf_revision [simp]: "list_wf (l\<lparr>tl_revision := n\<rparr>) = list_wf l"
  by (simp add: list_wf_def dependencies_closed_def edges_def dependencies_of_def keys_def)

lemma store_list_meta:
  assumes "store_ok s"
  shows "tl_version (store_list s) = store_version" "tl_scope (store_list s) = ts_scope s"
  using assms by (auto simp: store_ok_def store_list_def todo_empty_def split: stored.splits)

lemma saved_ok:
  assumes "store_ok s" "apply_op op (store_list s) = Inr l'" "tl_revision l' + 1 \<le> u64_max"
  shows "store_ok (saved l' s) \<and> tl_revision l' = tl_revision (store_list s)"
proof -
  have "list_wf l'"
    by (rule apply_op_wf [OF store_list_wf [OF assms(1)] assms(2)])
  then show ?thesis
    using apply_op_frame [OF assms(2)] store_list_meta [OF assms(1)] assms(3)
    unfolding store_ok_def saved_def by simp
qed

lemma todo_step_ok:
  assumes "store_ok s" "todo_step s s'"
  shows "store_ok s' \<and> ts_scope s' = ts_scope s \<and>
         tl_revision (store_list s) \<le> tl_revision (store_list s')"
  using assms(2)
proof (cases rule: todo_step.cases)
  case (operate outcome op r)
  from assms(1) operate show ?thesis
  proof (rule run_op_result)
    fix e l'
    assume "apply_op op (store_list s) = Inr l'" "tl_revision l' + 1 \<le> u64_max"
      and s': "s' = saved l' s"
    from saved_ok [OF assms(1) this(1,2)] s' show ?thesis by simp
  next
    fix l'
    assume "apply_op op (store_list s) = Inr l'" "tl_revision l' + 1 \<le> u64_max"
      and s': "s' = saved l' s"
    from saved_ok [OF assms(1) this(1,2)] s' show ?thesis by simp
  qed (use assms(1) in simp)
next
  case (lock_lost ok)
  with assms(1) show ?thesis
    by (auto simp: store_ok_def store_list_def split: stored.splits)
qed

lemma todo_steps_ok:
  "todo_step\<^sup>*\<^sup>* s s' \<Longrightarrow> store_ok s \<Longrightarrow>
     store_ok s' \<and> ts_scope s' = ts_scope s \<and> tl_revision (store_list s) \<le> tl_revision (store_list s')"
proof (induction rule: rtranclp_induct)
  case (step s1 s2)
  with todo_step_ok [of s1 s2] show ?case by simp
qed simp

section \<open>Properties\<close>

text \<open>
  C23. A todo store that starts without a file, and is then used by any sequence of operations
  (each of which may fail, may lose its save before or after the rename, or may find the
  coordination lock unavailable), can always be loaded again: the list it holds has its entries
  in key order under their own identifiers, depends only on items it holds, has no dependency
  cycle, and every item is well formed (an item in progress or completed has no blockers, a
  blocked one has some, the completion time is present exactly on completed items, and only
  completed or cancelled items are archived). The revision never decreases.
\<close>

theorem todo_store_always_loads:
  assumes "todo_step\<^sup>*\<^sup>* \<lparr>ts_scope = scope, ts_lock_ok = ok, ts_file = Absent\<rparr> s"
    and "todo_step\<^sup>*\<^sup>* s s'"
  shows "\<exists>l l'. load_raw s = Inr l \<and> load_raw s' = Inr l' \<and> list_wf l \<and> tl_scope l = scope \<and>
    tl_revision l \<le> tl_revision l'"
proof -
  have s: "store_ok s" "ts_scope s = scope"
    using todo_steps_ok [OF assms(1)] by (simp_all add: store_ok_def)
  with todo_steps_ok [OF assms(2)] show ?thesis
    by (simp add: load_raw_ok store_list_wf store_list_meta)
qed

text \<open>An operation either leaves the stored list as it was and reports an error, or stores the
  changed list with the revision one higher; only a failure after the rename (the directory
  sync) both reports an error and stores the change.\<close>

theorem todo_mutate_all_or_nothing:
  assumes "store_ok s" "run_op outcome op s = (r, s')"
  shows "(\<exists>e. r = Inl e) \<and> s' = s \<or>
    (r = Inr () \<or> outcome = FailedAfterRename) \<and>
    (\<exists>l'. apply_op op (store_list s) = Inr l' \<and> store_ok s' \<and>
       store_list s' = l'\<lparr>tl_revision := tl_revision (store_list s) + 1\<rparr>)"
  using assms
proof (rule run_op_result)
  fix e l'
  assume "apply_op op (store_list s) = Inr l'" "tl_revision l' + 1 \<le> u64_max"
    and "s' = saved l' s" "outcome = FailedAfterRename"
  with saved_ok [OF assms(1) this(1,2)] show ?thesis by auto
next
  fix l'
  assume "r = Inr ()" "apply_op op (store_list s) = Inr l'" "tl_revision l' + 1 \<le> u64_max"
    and "s' = saved l' s"
  with saved_ok [OF assms(1) this(2,3)] show ?thesis by auto
qed auto

text \<open>An archived item stays as it is under every operation except those that name it: archiving
  it again, removing it, or creating an item under its identifier.\<close>

theorem archived_items_immutable:
  assumes "list_wf l" "apply_op op l = Inr l'"
    and "bm_get (tl_items l) k = Some item" "archived item" "\<not> op_reopens op k"
  shows "bm_get (tl_items l') k = Some item"
  using apply_op_archived [OF assms(2) list_wfD(1) [OF assms(1)] assms(3-5)] .

lemma completed_dependencies_Inr:
  "completed_dependencies l ds = Inr () \<longleftrightarrow>
     (\<forall>d \<in> set ds. \<exists>dep. bm_get (tl_items l) d = Some dep \<and> ti_status dep = Completed)"
  by (induction ds) (auto split: option.splits)

text \<open>The status machine, on every branch: a change of status succeeds exactly when the item
  exists and is not archived, the transition is allowed, blockers agree with the new status, and
  an item that starts or completes has only completed dependencies; it then stores the item
  with that status and its completion time set exactly when completed, and nothing else changes.\<close>

theorem set_status_exact:
  "todo_set_status i status now l = Inr (x, l') \<longleftrightarrow>
   (\<exists>item. bm_get (tl_items l) i = Some item \<and> ti_archived_at item = None \<and>
      valid_transition (ti_status item) status \<and>
      (status \<in> {InProgress, Completed} \<longrightarrow> ti_blockers item = [] \<and>
         (\<forall>d \<in> set (ti_dependencies item).
            \<exists>dep. bm_get (tl_items l) d = Some dep \<and> ti_status dep = Completed)) \<and>
      (status = Blocked \<longrightarrow> ti_blockers item \<noteq> []) \<and>
      x = item\<lparr>ti_status := status, ti_updated_at := now,
            ti_completed_at := (if status = Completed then Some now else None)\<rparr> \<and>
      l' = l\<lparr>tl_items := bm_update i (\<lambda>_. x) (tl_items l)\<rparr>)"
proof (cases "bm_get (tl_items l) i")
  case None
  then show ?thesis by (simp add: todo_set_status_def)
next
  case (Some item)
  let ?checks = "if status = InProgress \<or> status = Completed
     then if ti_blockers item \<noteq> [] then Inl BlockedCannotStart
          else completed_dependencies l (ti_dependencies item) else Inr ()"
  have checks: "?checks = Inr () \<longleftrightarrow> (status \<in> {InProgress, Completed} \<longrightarrow> ti_blockers item = [] \<and>
         (\<forall>d \<in> set (ti_dependencies item).
            \<exists>dep. bm_get (tl_items l) d = Some dep \<and> ti_status dep = Completed))"
    by (simp add: completed_dependencies_Inr)
  let ?new = "item\<lparr>ti_status := status,
      ti_completed_at := (if status = Completed then Some now else None), ti_updated_at := now\<rparr>"
  have new: "item\<lparr>ti_status := status, ti_updated_at := now,
      ti_completed_at := (if status = Completed then Some now else None)\<rparr> = ?new" by simp
  have "todo_set_status i status now l = Inr (x, l') \<longleftrightarrow>
      \<not> archived item \<and> valid_transition (ti_status item) status \<and> ?checks = Inr () \<and>
      \<not> (status = Blocked \<and> ti_blockers item = []) \<and> change_item i ?new l = Inr (x, l')"
    unfolding todo_set_status_def Some ok_or_simps and_then_simps if_Inl_Inr
    by (simp only: if_Inl_Inr and_then_unit simp_thms not_not)
  also have "change_item i ?new l = Inr (x, l') \<longleftrightarrow>
      x = ?new \<and> l' = l\<lparr>tl_items := bm_update i (\<lambda>_. x) (tl_items l)\<rparr>"
    unfolding change_item_def by blast
  finally show ?thesis
    unfolding checks archived_def by (simp add: Some new)
qed

section \<open>Examples\<close>

definition example_scope :: todo_scope where
  "example_scope = \<lparr>sc_workspace = [], sc_session_id = None\<rparr>"

definition example_item :: "todo_status \<Rightarrow> instant option \<Rightarrow> instant option \<Rightarrow> todo_item" where
  "example_item status finished put_away = \<lparr>ti_id = 1, ti_title = lit ''plan'', ti_description = [],
     ti_status = status, ti_priority = High, ti_order = 0, ti_dependencies = [], ti_blockers = [],
     ti_assignees = [], ti_notes = [], ti_progress = [], ti_evidence = [], ti_created_at = 10,
     ti_updated_at = 10, ti_completed_at = finished, ti_archived_at = put_away\<rparr>"

definition example_list :: "todo_item \<Rightarrow> todo_list" where
  "example_list item = put_item item (todo_empty example_scope)"

definition example_store :: "stored \<Rightarrow> todo_store" where
  "example_store content = \<lparr>ts_scope = example_scope, ts_lock_ok = True, ts_file = content\<rparr>"

lemma example_get:
  "bm_get (tl_items (example_list (example_item s f p))) k =
     (if k = 1 then Some (example_item s f p) else None)"
  by (simp add: example_list_def put_item_def todo_empty_def bm_get_def example_item_def)

lemma example_wf:
  "list_wf (example_list (example_item Pending None None))"
  "list_wf (example_list (example_item Completed (Some 20) (Some 30)))"
  by (simp_all add: example_list_def list_wf_put list_wf_empty example_item_def item_wf_def archived_def)

lemma example_ok: "store_ok (example_store (Parsed (example_list (example_item Pending None None))))"
  using example_wf
  by (simp add: store_ok_def example_store_def) (simp add: example_list_def put_item_def todo_empty_def)

lemma example_store_list [simp]: "store_list (example_store (Parsed l)) = l"
  by (simp add: example_store_def store_list_def)

lemma todo_store_always_loads_witness:
  "\<exists>s l l'. todo_step (example_store Absent) s \<and> load_raw s = Inr l \<and>
     load_raw (s\<lparr>ts_lock_ok := False\<rparr>) = Inr l' \<and> list_wf l \<and>
     tl_scope l = example_scope \<and> tl_revision l \<le> tl_revision l'"
proof -
  define s where "s = snd (run_op Saved (Op_Create 1 \<lparr>nt_title = lit ''plan'', nt_description = [],
    nt_priority = High, nt_order = None, nt_assignees = []\<rparr> 10) (example_store Absent))"
  have step: "todo_step (example_store Absent) s"
    unfolding s_def by (rule todo_step.operate, rule prod.collapse [symmetric])
  have "todo_step\<^sup>*\<^sup>* \<lparr>ts_scope = example_scope, ts_lock_ok = True, ts_file = Absent\<rparr> s"
    using step unfolding example_store_def by (rule r_into_rtranclp)
  moreover have "todo_step\<^sup>*\<^sup>* s (s\<lparr>ts_lock_ok := False\<rparr>)"
    by (rule r_into_rtranclp, rule todo_step.lock_lost)
  ultimately have "\<exists>l l'. load_raw s = Inr l \<and> load_raw (s\<lparr>ts_lock_ok := False\<rparr>) = Inr l' \<and>
      list_wf l \<and> tl_scope l = example_scope \<and> tl_revision l \<le> tl_revision l'"
    by (rule todo_store_always_loads)
  with step
  show ?thesis by blast
qed

end
