(* ===== verification/Revisions.thy ===== *)
theory Revisions
  imports Prelude
begin

text \<open>
  Optimistic concurrency. Several stores of the source take the revision a caller last saw and refuse
  a change when the stored one has moved on (the completion ledger, the goals). The interface states
  what such an operation promises; what two writers who read the same revision can do follows.
\<close>

locale optimistic =
  fixes rev_of :: "'s \<Rightarrow> nat"
    and change :: "'c \<Rightarrow> nat \<Rightarrow> 's \<Rightarrow> ('e, 's) result"
  assumes expected: "change c n s = Inr s' \<Longrightarrow> rev_of s = n"
    and advances: "change c n s = Inr s' \<Longrightarrow> s' = s \<or> rev_of s' = rev_of s + 1"
begin

lemma second_writer_rejected:
  assumes "change c n s = Inr s'" "s' \<noteq> s"
  shows "\<not> is_ok (change d n s')"
proof
  assume "is_ok (change d n s')"
  then obtain s'' where "change d n s' = Inr s''" by (auto simp: is_ok_iff)
  then have "rev_of s' = n" by (rule expected)
  moreover have "rev_of s = n" using assms(1) by (rule expected)
  ultimately show False using advances [OF assms(1)] assms(2) by simp
qed

lemma revision_monotone: "change c n s = Inr s' \<Longrightarrow> rev_of s \<le> rev_of s'"
  by (drule advances) auto

end

end
