(* ===== verification/Completion.thy ===== *)
theory Completion
  imports Todo_Invariant Agents Revisions
begin

text \<open>
  The completion-readiness contract (\<open>voyage/src/completion.rs\<close>): the ledger of a run's obligations,
  its reviews and its sealed decision, and the readiness snapshot against the todo list and the agent
  tree. The digests of records (\<open>digest\<close>: SHA-256 in hexadecimal of the serialized value) and the
  length of the serialized ledger are arguments of the operations that use them.
\<close>

section \<open>Data\<close>

datatype obligation = Ob_Todo todo_id | Ob_Agent agent_id

fun obligation_key :: "obligation \<Rightarrow> nat \<times> uuid" where
  "obligation_key (Ob_Todo i) = (0, i)"
| "obligation_key (Ob_Agent i) = (1, i)"

lemma obligation_key_inj [simp]: "obligation_key a = obligation_key b \<longleftrightarrow> a = b"
  by (cases a; cases b) auto

instantiation obligation :: linorder
begin

definition less_eq_obligation :: "obligation \<Rightarrow> obligation \<Rightarrow> bool" where
  "less_eq_obligation a b \<longleftrightarrow> obligation_key a \<le> obligation_key b"

definition less_obligation :: "obligation \<Rightarrow> obligation \<Rightarrow> bool" where
  "less_obligation a b \<longleftrightarrow> obligation_key a < obligation_key b"

instance
  by standard (auto simp: less_eq_obligation_def less_obligation_def simp del: less_eq_prod_simp
    dest: order.antisym)

end

datatype disposition_kind =
  CompletedWithEvidence | CancelledWithReason | BlockedWithImpact | DeferredWithImpact |
  Incorporated | FailureWithImpact | NotNeededWithReason

record disposition =
  di_kind :: disposition_kind
  di_reason :: rstring
  di_reviewed :: rstring

record ledger_entry =
  en_obligation :: obligation
  en_dispositions :: "disposition list"

datatype unresolved_reason =
  MissingRecord | ActiveAgent | NeedsDisposition | RecordChanged | InvalidDisposition

datatype work_status = Ws_Todo todo_status | Ws_Agent agent_status

record unresolved =
  un_obligation :: obligation
  un_reason :: unresolved_reason
  un_status :: "work_status option"

record readiness =
  rd_run_id :: uuid
  rd_revision :: nat
  rd_fingerprint :: rstring
  rd_total :: nat
  rd_accounted :: nat
  rd_completed :: nat
  rd_incomplete :: nat
  rd_incomplete_obligations :: "obligation list"
  rd_unresolved :: "unresolved list"
  rd_omitted_unresolved :: nat

definition ready :: "readiness \<Rightarrow> bool" where
  "ready r \<longleftrightarrow> rd_accounted r = rd_total r"

datatype final_outcome = Final_Completed | Final_Incomplete | Final_Interrupted

record final_decision =
  fd_outcome :: final_outcome
  fd_readiness :: readiness
  fd_reason :: "rstring option"

datatype ledger_state = Open | Sealed final_decision

record run_ledger =
  rl_version :: nat
  rl_run_id :: uuid
  rl_revision :: nat
  rl_entries :: "ledger_entry list"
  rl_state :: ledger_state

abbreviation ledger_version :: nat where "ledger_version \<equiv> 2"
abbreviation max_obligations :: nat where "max_obligations \<equiv> 1024"
abbreviation max_reason_bytes :: nat where "max_reason_bytes \<equiv> 4096"
abbreviation max_reviews :: nat where "max_reviews \<equiv> 16"
abbreviation max_ledger_bytes :: nat where "max_ledger_bytes \<equiv> 8 * 1024 * 1024"

datatype ledger_error =
  LedgerSealed | StaleRevision | LedgerOverflow | BadIdentity | BadFingerprint | BadCounts |
  BadObligations | NotSuccessful | MissingReason | ReasonRequired | ReasonTooLong | ReasonControl |
  TooLarge | MalformedLedger | LedgerVersion | TooManyObligations | DuplicateObligation |
  TooManyReviews | BadReviewed | IncompatibleState | NotOwned | OwnChild | ParentNotOwned |
  DispositionMismatch | RecordIdentity

section \<open>The ledger\<close>

definition ledger_with_id :: "uuid \<Rightarrow> run_ledger" where
  "ledger_with_id i = \<lparr>rl_version = ledger_version, rl_run_id = i, rl_revision = 0, rl_entries = [],
     rl_state = Open\<rparr>"

definition ledger_obligations :: "run_ledger \<Rightarrow> obligation list" where
  "ledger_obligations l = map en_obligation (rl_entries l)"

definition ledger_decision :: "run_ledger \<Rightarrow> final_decision option" where
  "ledger_decision l = (case rl_state l of Open \<Rightarrow> None | Sealed d \<Rightarrow> Some d)"

definition ensure_open :: "run_ledger \<Rightarrow> (ledger_error, unit) result" where
  "ensure_open l = (if ledger_decision l \<noteq> None then Inl LedgerSealed else Inr ())"

definition check_revision :: "run_ledger \<Rightarrow> nat \<Rightarrow> (ledger_error, unit) result" where
  "check_revision l expected =
     and_then (ensure_open l) (\<lambda>_. if rl_revision l \<noteq> expected then Inl StaleRevision else Inr ())"

definition bump :: "run_ledger \<Rightarrow> (ledger_error, run_ledger) result" where
  "bump l = and_then (ok_or LedgerOverflow (checked_add_u64 (rl_revision l) 1))
     (\<lambda>r. Inr (l\<lparr>rl_revision := r\<rparr>))"

definition validate_reason :: "rstring \<Rightarrow> (ledger_error, unit) result" where
  "validate_reason r =
     (if blank r then Inl ReasonRequired
      else if str_len r > max_reason_bytes then Inl ReasonTooLong
      else if has_control r then Inl ReasonControl
      else Inr ())"

definition is_hex_digest :: "rstring \<Rightarrow> bool" where
  "is_hex_digest s \<longleftrightarrow> str_len s = 64 \<and> list_all is_ascii_hexdigit s"

text \<open>The loop over the obligations the decision names: each owned, none twice.\<close>

fun check_named :: "obligation set \<Rightarrow> obligation set \<Rightarrow> obligation list \<Rightarrow> (ledger_error, unit) result" where
  "check_named owned seen [] = Inr ()"
| "check_named owned seen (i # is) =
     (if i \<in> owned \<and> i \<notin> seen then check_named owned (insert i seen) is else Inl BadObligations)"

definition validate_decision :: "run_ledger \<Rightarrow> (ledger_error, unit) result" where
  "validate_decision l = (case ledger_decision l of
     None \<Rightarrow> Inr ()
   | Some d \<Rightarrow>
       let obs = fd_readiness d in
       if \<not> (rd_run_id obs = rl_run_id l \<and> checked_add_u64 (rd_revision obs) 1 = Some (rl_revision l) \<and>
             rd_total obs = length (rl_entries l)) then Inl BadIdentity
       else if \<not> is_hex_digest (rd_fingerprint obs) then Inl BadFingerprint
       else if \<not> (checked_add_u64 (rd_completed obs) (rd_incomplete obs) = Some (rd_accounted obs) \<and>
             rd_accounted obs \<le> rd_total obs \<and> rd_omitted_unresolved obs = 0 \<and>
             length (rd_unresolved obs) = rd_total obs - rd_accounted obs \<and>
             length (rd_incomplete_obligations obs) = rd_incomplete obs) then Inl BadCounts
       else and_then (check_named (set (ledger_obligations l)) {}
              (map un_obligation (rd_unresolved obs) @ rd_incomplete_obligations obs)) (\<lambda>_.
         case fd_outcome d of
           Final_Completed \<Rightarrow>
             if ready obs \<and> rd_incomplete obs = 0 \<and> fd_reason d = None then Inr () else Inl NotSuccessful
         | _ \<Rightarrow> and_then (ok_or MissingReason (fd_reason d)) validate_reason))"

definition to_json_ok :: "(run_ledger \<Rightarrow> nat) \<Rightarrow> run_ledger \<Rightarrow> (ledger_error, unit) result" where
  "to_json_ok json_len l = (if json_len l > max_ledger_bytes then Inl TooLarge else Inr ())"

definition seal :: "(run_ledger \<Rightarrow> nat) \<Rightarrow> readiness \<Rightarrow> final_outcome \<Rightarrow> rstring option \<Rightarrow> run_ledger \<Rightarrow>
    (ledger_error, run_ledger) result" where
  "seal json_len r outcome reason l =
     and_then (check_revision l (rd_revision r)) (\<lambda>_.
     and_then (bump l) (\<lambda>next.
     let next = next\<lparr>rl_state := Sealed \<lparr>fd_outcome = outcome, fd_readiness = r, fd_reason = reason\<rparr>\<rparr> in
     and_then (validate_decision next) (\<lambda>_.
     and_then (to_json_ok json_len next) (\<lambda>_. Inr next))))"

definition adopt :: "(run_ledger \<Rightarrow> nat) \<Rightarrow> obligation \<Rightarrow> nat \<Rightarrow> run_ledger \<Rightarrow> (ledger_error, run_ledger) result" where
  "adopt json_len i expected l =
     and_then (check_revision l expected) (\<lambda>_.
     if list_ex (\<lambda>e. en_obligation e = i) (rl_entries l) then Inr l
     else if length (rl_entries l) \<ge> max_obligations then Inl TooManyObligations
     else and_then (bump l) (\<lambda>next.
       let next = next\<lparr>rl_entries := rl_entries next @ [\<lparr>en_obligation = i, en_dispositions = []\<rparr>]\<rparr> in
       and_then (to_json_ok json_len next) (\<lambda>_. Inr next)))"

definition adopt_child :: "(run_ledger \<Rightarrow> nat) \<Rightarrow> agent_id \<Rightarrow> agent_id \<Rightarrow> nat \<Rightarrow> run_ledger \<Rightarrow>
    (ledger_error, run_ledger) result" where
  "adopt_child json_len parent child expected l =
     (if parent = child then Inl OwnChild
      else if \<not> list_ex (\<lambda>e. en_obligation e = Ob_Agent parent) (rl_entries l) then Inl ParentNotOwned
      else adopt json_len (Ob_Agent child) expected l)"

fun position :: "('a \<Rightarrow> bool) \<Rightarrow> 'a list \<Rightarrow> nat option" where
  "position p [] = None"
| "position p (x # xs) = (if p x then Some 0 else map_option Suc (position p xs))"

definition account :: "(run_ledger \<Rightarrow> nat) \<Rightarrow> obligation \<Rightarrow> disposition_kind \<Rightarrow> rstring \<Rightarrow> rstring \<Rightarrow> nat \<Rightarrow>
    run_ledger \<Rightarrow> (ledger_error, run_ledger) result" where
  "account json_len i kind reason reviewed expected l =
     and_then (check_revision l expected) (\<lambda>_.
     and_then (validate_reason reason) (\<lambda>_.
     and_then (ok_or NotOwned (position (\<lambda>e. en_obligation e = i) (rl_entries l))) (\<lambda>index.
     if length (en_dispositions (rl_entries l ! index)) \<ge> max_reviews then Inl TooManyReviews
     else and_then (bump l) (\<lambda>next.
       let e = rl_entries next ! index;
           e' = e\<lparr>en_dispositions := en_dispositions e @
             [\<lparr>di_kind = kind, di_reason = reason, di_reviewed = reviewed\<rparr>]\<rparr>;
           next = next\<lparr>rl_entries := (rl_entries next)[index := e']\<rparr> in
       and_then (to_json_ok json_len next) (\<lambda>_. Inr next)))))"

definition valid_todo :: "todo_item \<Rightarrow> disposition_kind \<Rightarrow> bool" where
  "valid_todo item kind = (case (ti_status item, kind) of
     (Completed, CompletedWithEvidence) \<Rightarrow>
       ti_blockers item = [] \<and> list_ex (\<lambda>e. \<not> blank (te_text e)) (ti_evidence item)
   | (Cancelled, CancelledWithReason) \<Rightarrow> True
   | (Blocked, BlockedWithImpact) \<Rightarrow> list_ex (\<lambda>b. \<not> blank b) (ti_blockers item)
   | (Pending, DeferredWithImpact) \<Rightarrow> True
   | (InProgress, DeferredWithImpact) \<Rightarrow> True
   | (Blocked, DeferredWithImpact) \<Rightarrow> True
   | _ \<Rightarrow> False)"

definition valid_agent :: "agent_record \<Rightarrow> disposition_kind \<Rightarrow> bool" where
  "valid_agent r kind =
     (if \<not> is_terminal (ag_status r) then False
      else case kind of
        Incorporated \<Rightarrow> ag_status r = Agent_Completed \<and> is_some_and (ag_result r) (\<lambda>x. \<not> blank x)
      | FailureWithImpact \<Rightarrow> ag_status r \<noteq> Agent_Completed
      | NotNeededWithReason \<Rightarrow> True
      | _ \<Rightarrow> False)"

definition account_todo :: "(run_ledger \<Rightarrow> nat) \<Rightarrow> (todo_item \<Rightarrow> rstring) \<Rightarrow> todo_item \<Rightarrow> disposition_kind \<Rightarrow>
    rstring \<Rightarrow> nat \<Rightarrow> run_ledger \<Rightarrow> (ledger_error, run_ledger) result" where
  "account_todo json_len digest item kind reason expected l =
     (if \<not> valid_todo item kind then Inl DispositionMismatch
      else account json_len (Ob_Todo (ti_id item)) kind reason (digest item) expected l)"

definition account_agent :: "(run_ledger \<Rightarrow> nat) \<Rightarrow> (agent_record \<Rightarrow> rstring) \<Rightarrow> agent_record \<Rightarrow>
    disposition_kind \<Rightarrow> rstring \<Rightarrow> nat \<Rightarrow> run_ledger \<Rightarrow> (ledger_error, run_ledger) result" where
  "account_agent json_len digest r kind reason expected l =
     (if \<not> valid_agent r kind then Inl DispositionMismatch
      else account json_len (Ob_Agent (ag_id r)) kind reason (digest r) expected l)"

section \<open>Decoding\<close>

record ledger_wire =
  lw_version :: nat
  lw_run_id :: uuid
  lw_revision :: nat
  lw_entries :: "ledger_entry list"
  lw_state :: "ledger_state option"

fun check_dispositions :: "disposition list \<Rightarrow> (ledger_error, unit) result" where
  "check_dispositions [] = Inr ()"
| "check_dispositions (d # ds) =
     and_then (validate_reason (di_reason d)) (\<lambda>_.
       if \<not> is_hex_digest (di_reviewed d) then Inl BadReviewed else check_dispositions ds)"

fun check_entries :: "obligation set \<Rightarrow> ledger_entry list \<Rightarrow> (ledger_error, unit) result" where
  "check_entries seen [] = Inr ()"
| "check_entries seen (e # es) =
     (if en_obligation e \<in> seen then Inl DuplicateObligation
      else if length (en_dispositions e) > max_reviews then Inl TooManyReviews
      else and_then (check_dispositions (en_dispositions e))
             (\<lambda>_. check_entries (insert (en_obligation e) seen) es))"

text \<open>The bytes are given by their length and what they parse to.\<close>

definition from_json :: "nat \<Rightarrow> ledger_wire option \<Rightarrow> (ledger_error, run_ledger) result" where
  "from_json len parsed =
     (if len > max_ledger_bytes then Inl TooLarge
      else and_then (ok_or MalformedLedger parsed) (\<lambda>w.
        if \<not> (lw_version w = 1 \<or> lw_version w = ledger_version) then Inl LedgerVersion
        else if length (lw_entries w) > max_obligations then Inl TooManyObligations
        else and_then (check_entries {} (lw_entries w)) (\<lambda>_.
        and_then (if lw_version w = 1 \<and> lw_state w = None then Inr Open
                  else if lw_version w = ledger_version \<and> lw_state w \<noteq> None then Inr (the (lw_state w))
                  else Inl IncompatibleState) (\<lambda>state.
        let l = \<lparr>rl_version = ledger_version, rl_run_id = lw_run_id w, rl_revision = lw_revision w,
                 rl_entries = lw_entries w, rl_state = state\<rparr> in
        and_then (validate_decision l) (\<lambda>_. Inr l)))))"

text \<open>What the serialized ledger parses back to (\<open>to_json\<close> writes every field).\<close>

definition ledger_to_wire :: "run_ledger \<Rightarrow> ledger_wire" where
  "ledger_to_wire l = \<lparr>lw_version = rl_version l, lw_run_id = rl_run_id l, lw_revision = rl_revision l,
     lw_entries = rl_entries l, lw_state = Some (rl_state l)\<rparr>"

section \<open>The readiness snapshot\<close>

text \<open>Digest, live, successful, and whether the last review fits: the tuple of the source.\<close>

definition entry_record :: "(todo_item \<Rightarrow> rstring) \<Rightarrow> (agent_record \<Rightarrow> rstring) \<Rightarrow> todo_list \<Rightarrow> agent_tree \<Rightarrow>
    ledger_entry \<Rightarrow> (ledger_error, (rstring \<times> bool \<times> bool \<times> bool) option) result" where
  "entry_record dt da todos agents e =
     (let fits = \<lambda>valid. en_dispositions e \<noteq> [] \<and> valid (di_kind (last (en_dispositions e))) in
      case en_obligation e of
        Ob_Todo i \<Rightarrow> (case bm_get (tl_items todos) i of
            None \<Rightarrow> Inr None
          | Some item \<Rightarrow> if ti_id item \<noteq> i then Inl RecordIdentity
              else Inr (Some (dt item, False, ti_status item = Completed, fits (valid_todo item))))
      | Ob_Agent i \<Rightarrow> (case bm_get agents i of
            None \<Rightarrow> Inr None
          | Some r \<Rightarrow> if ag_id r \<noteq> i then Inl RecordIdentity
              else Inr (Some (da r, \<not> is_terminal (ag_status r), ag_status r = Agent_Completed,
                              fits (valid_agent r)))))"

datatype verdict = Accounted bool | Pending_Work unresolved_reason

definition entry_verdict :: "bool \<Rightarrow> disposition list \<Rightarrow> (rstring \<times> bool \<times> bool \<times> bool) option \<Rightarrow> verdict" where
  "entry_verdict require_reviews ds record = (case record of
     None \<Rightarrow> Pending_Work MissingRecord
   | Some (current, live, success, fits) \<Rightarrow>
       if live then Pending_Work ActiveAgent
       else if \<not> require_reviews then Accounted success
       else if ds = [] then Pending_Work NeedsDisposition
       else if current \<noteq> di_reviewed (last ds) then Pending_Work RecordChanged
       else if \<not> fits then Pending_Work InvalidDisposition
       else Accounted success)"

definition work_status_of :: "todo_list \<Rightarrow> agent_tree \<Rightarrow> obligation \<Rightarrow> work_status option" where
  "work_status_of todos agents i = (case i of
     Ob_Todo t \<Rightarrow> map_option (\<lambda>item. Ws_Todo (ti_status item)) (bm_get (tl_items todos) t)
   | Ob_Agent a \<Rightarrow> map_option (\<lambda>r. Ws_Agent (ag_status r)) (bm_get agents a))"

definition apply_verdict :: "todo_list \<Rightarrow> agent_tree \<Rightarrow> nat \<Rightarrow> obligation \<Rightarrow> verdict \<Rightarrow> readiness \<Rightarrow> readiness" where
  "apply_verdict todos agents max_unresolved i v s = (case v of
     Accounted success \<Rightarrow>
       let s = s\<lparr>rd_accounted := rd_accounted s + 1\<rparr> in
       if success then s\<lparr>rd_completed := rd_completed s + 1\<rparr>
       else s\<lparr>rd_incomplete := rd_incomplete s + 1,
              rd_incomplete_obligations := rd_incomplete_obligations s @ [i]\<rparr>
   | Pending_Work reason \<Rightarrow>
       if length (rd_unresolved s) < max_unresolved
       then s\<lparr>rd_unresolved := rd_unresolved s @
              [\<lparr>un_obligation = i, un_reason = reason, un_status = work_status_of todos agents i\<rparr>]\<rparr>
       else s\<lparr>rd_omitted_unresolved := rd_omitted_unresolved s + 1\<rparr>)"

fun snapshot_loop :: "(todo_item \<Rightarrow> rstring) \<Rightarrow> (agent_record \<Rightarrow> rstring) \<Rightarrow> todo_list \<Rightarrow> agent_tree \<Rightarrow> nat \<Rightarrow> bool \<Rightarrow>
    ledger_entry list \<Rightarrow> (obligation, rstring option) bmap \<Rightarrow> readiness \<Rightarrow>
    (ledger_error, (obligation, rstring option) bmap \<times> readiness) result" where
  "snapshot_loop dt da todos agents n reviews [] fps s = Inr (fps, s)"
| "snapshot_loop dt da todos agents n reviews (e # es) fps s =
     and_then (entry_record dt da todos agents e) (\<lambda>record.
       snapshot_loop dt da todos agents n reviews es
         (bm_insert (en_obligation e) (map_option fst record) fps)
         (apply_verdict todos agents n (en_obligation e)
            (entry_verdict reviews (en_dispositions e) record) s))"

definition snapshot_with_reviews :: "(todo_item \<Rightarrow> rstring) \<Rightarrow> (agent_record \<Rightarrow> rstring) \<Rightarrow>
    (run_ledger \<Rightarrow> (obligation, rstring option) bmap \<Rightarrow> rstring) \<Rightarrow> todo_list \<Rightarrow> agent_tree \<Rightarrow> nat \<Rightarrow> bool \<Rightarrow>
    run_ledger \<Rightarrow> (ledger_error, readiness) result" where
  "snapshot_with_reviews dt da dl todos agents n reviews l =
     and_then (snapshot_loop dt da todos agents n reviews (rl_entries l) []
        \<lparr>rd_run_id = rl_run_id l, rd_revision = rl_revision l, rd_fingerprint = [],
         rd_total = length (rl_entries l), rd_accounted = 0, rd_completed = 0, rd_incomplete = 0,
         rd_incomplete_obligations = [], rd_unresolved = [], rd_omitted_unresolved = 0\<rparr>)
       (\<lambda>(fps, s). Inr (s\<lparr>rd_fingerprint := dl l fps\<rparr>))"

definition snapshot :: "(todo_item \<Rightarrow> rstring) \<Rightarrow> (agent_record \<Rightarrow> rstring) \<Rightarrow>
    (run_ledger \<Rightarrow> (obligation, rstring option) bmap \<Rightarrow> rstring) \<Rightarrow> todo_list \<Rightarrow> agent_tree \<Rightarrow> nat \<Rightarrow>
    run_ledger \<Rightarrow> (ledger_error, readiness) result" where
  "snapshot dt da dl todos agents n = snapshot_with_reviews dt da dl todos agents n False"

section \<open>Lemmas\<close>

lemma check_revision_Inr: "check_revision l n = Inr u \<longleftrightarrow> rl_state l = Open \<and> rl_revision l = n"
  by (cases "rl_state l") (auto simp: check_revision_def ensure_open_def ledger_decision_def)

lemma bump_Inr: "bump l = Inr l' \<longleftrightarrow> rl_revision l < u64_max \<and> l' = l\<lparr>rl_revision := rl_revision l + 1\<rparr>"
  by (auto simp: bump_def and_then_Inr)

lemma to_json_ok_Inr: "to_json_ok len l = Inr u \<longleftrightarrow> len l \<le> max_ledger_bytes"
  by (auto simp: to_json_ok_def)

lemma position_Some:
  "position p xs = Some i \<Longrightarrow> i < length xs \<and> p (xs ! i) \<and> (\<forall>j < i. \<not> p (xs ! j))"
proof (induction xs arbitrary: i)
  case (Cons x xs)
  then show ?case by (cases i) (auto split: if_splits simp: less_Suc_eq_0_disj)
qed simp

lemma check_named_Inr:
  "check_named owned seen is = Inr () \<longleftrightarrow> set is \<subseteq> owned \<and> distinct is \<and> set is \<inter> seen = {}"
  by (induction "is" arbitrary: seen) auto

lemma check_dispositions_Inr:
  "check_dispositions ds = Inr () \<longleftrightarrow>
     (\<forall>d \<in> set ds. validate_reason (di_reason d) = Inr () \<and> is_hex_digest (di_reviewed d))"
  by (induction ds) (auto simp: and_then_Inr)

lemma check_entries_Inr:
  "check_entries seen es = Inr () \<longleftrightarrow>
     distinct (map en_obligation es) \<and> en_obligation ` set es \<inter> seen = {} \<and>
     (\<forall>e \<in> set es. length (en_dispositions e) \<le> max_reviews \<and> check_dispositions (en_dispositions e) = Inr ())"
  by (induction es arbitrary: seen) (auto simp: and_then_Inr)

text \<open>The operations in closed form.\<close>

lemma adopt_Inr:
  "adopt len i n l = Inr l' \<longleftrightarrow> rl_state l = Open \<and> rl_revision l = n \<and>
     (if i \<in> set (ledger_obligations l) then l' = l
      else length (rl_entries l) < max_obligations \<and> rl_revision l < u64_max \<and>
        l' = l\<lparr>rl_revision := rl_revision l + 1,
               rl_entries := rl_entries l @ [\<lparr>en_obligation = i, en_dispositions = []\<rparr>]\<rparr> \<and>
        len l' \<le> max_ledger_bytes)"
proof -
  have "list_ex (\<lambda>e. en_obligation e = i) (rl_entries l) \<longleftrightarrow> i \<in> set (ledger_obligations l)"
    by (auto simp: list_ex_iff ledger_obligations_def)
  then show ?thesis
    by (auto simp: adopt_def and_then_Inr check_revision_Inr bump_Inr to_json_ok_Inr Let_def not_le)
qed

lemma account_Inr:
  assumes "account len i kind reason reviewed n l = Inr l'"
  obtains k where "rl_state l = Open" "rl_revision l = n" "rl_revision l < u64_max"
    "validate_reason reason = Inr ()" "k < length (rl_entries l)" "en_obligation (rl_entries l ! k) = i"
    "length (en_dispositions (rl_entries l ! k)) < max_reviews"
    "l' = l\<lparr>rl_revision := rl_revision l + 1, rl_entries := (rl_entries l)[k :=
       (rl_entries l ! k)\<lparr>en_dispositions := en_dispositions (rl_entries l ! k) @
         [\<lparr>di_kind = kind, di_reason = reason, di_reviewed = reviewed\<rparr>]\<rparr>]\<rparr>"
    "len l' \<le> max_ledger_bytes"
  using assms by (auto simp: account_def and_then_Inr check_revision_Inr bump_Inr to_json_ok_Inr Let_def
      not_le dest!: position_Some)

lemma seal_Inr:
  "seal len r outcome reason l = Inr l' \<longleftrightarrow> rl_state l = Open \<and> rl_revision l = rd_revision r \<and>
     rl_revision l < u64_max \<and>
     l' = l\<lparr>rl_revision := rl_revision l + 1,
            rl_state := Sealed \<lparr>fd_outcome = outcome, fd_readiness = r, fd_reason = reason\<rparr>\<rparr> \<and>
     validate_decision l' = Inr () \<and> len l' \<le> max_ledger_bytes"
  by (auto simp: seal_def and_then_Inr check_revision_Inr bump_Inr to_json_ok_Inr Let_def)

section \<open>Changes of a ledger\<close>

datatype ledger_op =
  Lo_Adopt obligation
| Lo_Adopt_Child agent_id agent_id
| Lo_Account_Todo todo_item disposition_kind rstring
| Lo_Account_Agent agent_record disposition_kind rstring
| Lo_Seal readiness final_outcome "rstring option"

text \<open>\<open>seal\<close> takes its expected revision from the readiness it is given.\<close>

fun ledger_apply :: "(run_ledger \<Rightarrow> nat) \<Rightarrow> (todo_item \<Rightarrow> rstring) \<Rightarrow> (agent_record \<Rightarrow> rstring) \<Rightarrow> ledger_op \<Rightarrow> nat \<Rightarrow>
    run_ledger \<Rightarrow> (ledger_error, run_ledger) result" where
  "ledger_apply len dt da (Lo_Adopt i) n l = adopt len i n l"
| "ledger_apply len dt da (Lo_Adopt_Child p c) n l = adopt_child len p c n l"
| "ledger_apply len dt da (Lo_Account_Todo item k r) n l = account_todo len dt item k r n l"
| "ledger_apply len dt da (Lo_Account_Agent a k r) n l = account_agent len da a k r n l"
| "ledger_apply len dt da (Lo_Seal r out reason) n l =
     (if rd_revision r = n then seal len r out reason l else Inl StaleRevision)"

definition ledger_wf :: "run_ledger \<Rightarrow> bool" where
  "ledger_wf l \<longleftrightarrow> rl_version l = ledger_version \<and> length (rl_entries l) \<le> max_obligations \<and>
     check_entries {} (rl_entries l) = Inr () \<and> validate_decision l = Inr ()"

text \<open>What an operation does to the parts of the ledger.\<close>

inductive ledger_change :: "(run_ledger \<Rightarrow> nat) \<Rightarrow> rstring set \<Rightarrow> run_ledger \<Rightarrow> run_ledger \<Rightarrow> bool"
  for len digests l where
  adopted: "i \<notin> set (ledger_obligations l) \<Longrightarrow> length (rl_entries l) < max_obligations \<Longrightarrow>
    l' = l\<lparr>rl_revision := rl_revision l + 1,
           rl_entries := rl_entries l @ [\<lparr>en_obligation = i, en_dispositions = []\<rparr>]\<rparr> \<Longrightarrow>
    ledger_change len digests l l'"
| accounted: "k < length (rl_entries l) \<Longrightarrow> validate_reason (di_reason d) = Inr () \<Longrightarrow>
    length (en_dispositions (rl_entries l ! k)) < max_reviews \<Longrightarrow> di_reviewed d \<in> digests \<Longrightarrow>
    l' = l\<lparr>rl_revision := rl_revision l + 1, rl_entries := (rl_entries l)[k :=
       (rl_entries l ! k)\<lparr>en_dispositions := en_dispositions (rl_entries l ! k) @ [d]\<rparr>]\<rparr> \<Longrightarrow>
    ledger_change len digests l l'"
| sealed: "l' = l\<lparr>rl_revision := rl_revision l + 1, rl_state := Sealed d\<rparr> \<Longrightarrow>
    validate_decision l' = Inr () \<Longrightarrow> ledger_change len digests l l'"

lemma account_change:
  assumes "account len i k r reviewed n l = Inr l'" "reviewed \<in> digests"
  shows "rl_state l = Open \<and> rl_revision l = n \<and> len l' \<le> max_ledger_bytes \<and> ledger_change len digests l l'"
  using assms(1)
proof (rule account_Inr)
  fix j
  assume s: "rl_state l = Open" "rl_revision l = n" "len l' \<le> max_ledger_bytes"
    and j: "validate_reason r = Inr ()" "j < length (rl_entries l)"
      "length (en_dispositions (rl_entries l ! j)) < max_reviews"
      "l' = l\<lparr>rl_revision := rl_revision l + 1, rl_entries := (rl_entries l)[j :=
       (rl_entries l ! j)\<lparr>en_dispositions := en_dispositions (rl_entries l ! j) @
         [\<lparr>di_kind = k, di_reason = r, di_reviewed = reviewed\<rparr>]\<rparr>]\<rparr>"
  have "ledger_change len digests l l'"
    by (rule ledger_change.accounted [OF j(2) _ j(3) _ j(4)]) (simp_all add: j(1) assms(2))
  with s show ?thesis by blast
qed

lemma adopt_change:
  assumes "adopt len i n l = Inr l'"
  shows "rl_state l = Open \<and> rl_revision l = n \<and>
    (l' = l \<or> len l' \<le> max_ledger_bytes \<and> ledger_change len digests l l')"
proof (cases "i \<in> set (ledger_obligations l)")
  case True
  with assms show ?thesis by (simp add: adopt_Inr)
next
  case False
  with assms have s: "rl_state l = Open" "rl_revision l = n" "length (rl_entries l) < max_obligations"
    "l' = l\<lparr>rl_revision := rl_revision l + 1,
           rl_entries := rl_entries l @ [\<lparr>en_obligation = i, en_dispositions = []\<rparr>]\<rparr>"
    "len l' \<le> max_ledger_bytes"
    unfolding adopt_Inr if_not_P [OF False] by blast+
  have "ledger_change len digests l l'"
    by (rule ledger_change.adopted [OF False s(3,4)])
  with s(1,2,5) show ?thesis by blast
qed

lemma ledger_apply_change:
  assumes "ledger_apply len dt da op n l = Inr l'"
  shows "rl_state l = Open \<and> rl_revision l = n \<and>
    (l' = l \<or> len l' \<le> max_ledger_bytes \<and> ledger_change len (range dt \<union> range da) l l')"
proof (cases op)
  case (Lo_Adopt i)
  with assms have "adopt len i n l = Inr l'" by simp
  then show ?thesis by (rule adopt_change)
next
  case (Lo_Adopt_Child p c)
  with assms have "adopt len (Ob_Agent c) n l = Inr l'" by (simp add: adopt_child_def)
  then show ?thesis by (rule adopt_change)
next
  case (Lo_Account_Todo item k r)
  with assms have "account len (Ob_Todo (ti_id item)) k r (dt item) n l = Inr l'"
    by (simp add: account_todo_def)
  from account_change [OF this, of "range dt \<union> range da"] show ?thesis by simp
next
  case (Lo_Account_Agent a k r)
  with assms have "account len (Ob_Agent (ag_id a)) k r (da a) n l = Inr l'"
    by (simp add: account_agent_def)
  from account_change [OF this, of "range dt \<union> range da"] show ?thesis by simp
next
  case (Lo_Seal r out reason)
  with assms have run: "seal len r out reason l = Inr l'" and rev: "rd_revision r = n"
    by (auto split: if_splits)
  then have s: "rl_state l = Open" "rl_revision l = rd_revision r" "validate_decision l' = Inr ()"
    "l' = l\<lparr>rl_revision := rl_revision l + 1,
            rl_state := Sealed \<lparr>fd_outcome = out, fd_readiness = r, fd_reason = reason\<rparr>\<rparr>"
    "len l' \<le> max_ledger_bytes"
    unfolding seal_Inr by blast+
  have "ledger_change len (range dt \<union> range da) l l'"
    by (rule ledger_change.sealed [OF s(4,3)])
  with s(1,2,5) rev show ?thesis by simp
qed

lemma ledger_change_revision: "ledger_change len digests l l' \<Longrightarrow> rl_revision l' = rl_revision l + 1"
  by (auto elim: ledger_change.cases)

interpretation ledger_writer: optimistic rl_revision "ledger_apply len dt da"
proof unfold_locales
  fix c n s s'
  assume run: "ledger_apply len dt da c n s = Inr s'"
  show "rl_revision s = n" using ledger_apply_change [OF run] by blast
  show "s' = s \<or> rl_revision s' = rl_revision s + 1"
    using ledger_apply_change [OF run] ledger_change_revision by blast
qed

lemma validate_decision_open: "rl_state l = Open \<Longrightarrow> validate_decision l = Inr ()"
  by (simp add: validate_decision_def ledger_decision_def)

lemma obligations_update [simp]:
  "k < length es \<Longrightarrow> map en_obligation (es[k := (es ! k)\<lparr>en_dispositions := ds\<rparr>]) = map en_obligation es"
  by (simp add: map_update list_update_same_conv)

definition entry_ok :: "ledger_entry \<Rightarrow> bool" where
  "entry_ok e \<longleftrightarrow> length (en_dispositions e) \<le> max_reviews \<and> check_dispositions (en_dispositions e) = Inr ()"

lemma entries_ok_iff:
  "check_entries {} es = Inr () \<longleftrightarrow> distinct (map en_obligation es) \<and> (\<forall>e \<in> set es. entry_ok e)"
  by (simp add: check_entries_Inr entry_ok_def)

lemma ledger_change_wf:
  assumes wf: "ledger_wf l" and run: "ledger_change len digests l l'" and state: "rl_state l = Open"
    and hex: "\<And>x. x \<in> digests \<Longrightarrow> is_hex_digest x"
  shows "ledger_wf l' \<and> prefix (ledger_obligations l) (ledger_obligations l') \<and> rl_run_id l' = rl_run_id l"
  using run
proof (cases rule: ledger_change.cases)
  case (adopted i)
  then have "validate_decision l' = Inr ()" using state by (intro validate_decision_open) simp
  with adopted wf show ?thesis
    by (auto simp: ledger_wf_def entries_ok_iff ledger_obligations_def entry_ok_def)
next
  case (accounted k d)
  let ?e = "(rl_entries l ! k)\<lparr>en_dispositions := en_dispositions (rl_entries l ! k) @ [d]\<rparr>"
  have "rl_state l' = Open" using accounted(5) state by simp
  then have decision: "validate_decision l' = Inr ()" by (rule validate_decision_open)
  have "entry_ok (rl_entries l ! k)"
    using wf accounted(1) by (simp add: ledger_wf_def entries_ok_iff)
  then have "entry_ok ?e"
    using accounted(2-4) hex by (auto simp: entry_ok_def check_dispositions_Inr)
  then have "\<forall>e \<in> set ((rl_entries l)[k := ?e]). entry_ok e"
    using wf set_update_subset_insert [of "rl_entries l" k ?e] by (auto simp: ledger_wf_def entries_ok_iff)
  with decision wf accounted(1,5) show ?thesis
    by (simp add: ledger_wf_def entries_ok_iff ledger_obligations_def)
next
  case (sealed d)
  with wf show ?thesis by (simp add: ledger_wf_def ledger_obligations_def)
qed

section \<open>What a snapshot counts\<close>

definition obligation_successful :: "todo_list \<Rightarrow> agent_tree \<Rightarrow> obligation \<Rightarrow> bool" where
  "obligation_successful todos agents i = (case i of
     Ob_Todo t \<Rightarrow> is_some_and (bm_get (tl_items todos) t) (\<lambda>item. ti_status item = Completed)
   | Ob_Agent a \<Rightarrow> is_some_and (bm_get agents a) (\<lambda>r. ag_status r = Agent_Completed))"

text \<open>The counters of a readiness for the obligations gone through so far.\<close>

definition named_obligations :: "readiness \<Rightarrow> obligation list" where
  "named_obligations s = map un_obligation (rd_unresolved s) @ rd_incomplete_obligations s"

definition counts :: "nat \<Rightarrow> obligation list \<Rightarrow> readiness \<Rightarrow> bool" where
  "counts n seen s \<longleftrightarrow>
     rd_completed s + rd_incomplete s = rd_accounted s \<and>
     length (rd_incomplete_obligations s) = rd_incomplete s \<and>
     rd_accounted s + length (rd_unresolved s) + rd_omitted_unresolved s = length seen \<and>
     length (rd_unresolved s) \<le> n \<and> (0 < rd_omitted_unresolved s \<longrightarrow> length (rd_unresolved s) = n) \<and>
     set (named_obligations s) \<subseteq> set seen \<and> (distinct seen \<longrightarrow> distinct (named_obligations s))"

lemma counts_apply:
  assumes "counts n seen s"
  shows "counts n (seen @ [i]) (apply_verdict todos agents n i v s)"
  using assms
  by (cases v) (auto simp: counts_def named_obligations_def apply_verdict_def Let_def)

lemma apply_verdict_frame:
  "rd_total (apply_verdict todos agents n i v s) = rd_total s"
  "rd_run_id (apply_verdict todos agents n i v s) = rd_run_id s"
  "rd_revision (apply_verdict todos agents n i v s) = rd_revision s"
  by (cases v; simp add: apply_verdict_def Let_def)+

lemma verdict_success:
  assumes "entry_record dt da todos agents e = Inr rec"
  shows "entry_verdict False (en_dispositions e) rec = Accounted True \<longleftrightarrow>
    obligation_successful todos agents (en_obligation e)"
  using assms
  by (cases "en_obligation e") (auto simp: entry_record_def Let_def entry_verdict_def
      obligation_successful_def split: option.splits if_splits)

lemma apply_verdict_completed:
  "rd_completed (apply_verdict todos agents n i v s) =
     rd_completed s + (if v = Accounted True then 1 else 0)"
  by (cases v) (auto simp: apply_verdict_def Let_def)

lemma snapshot_loop_counts:
  "snapshot_loop dt da todos agents n reviews es fps s = Inr (fps', s') \<Longrightarrow> counts n seen s \<Longrightarrow>
     counts n (seen @ map en_obligation es) s' \<and> rd_total s' = rd_total s \<and>
     rd_run_id s' = rd_run_id s \<and> rd_revision s' = rd_revision s"
proof (induction es arbitrary: seen fps s)
  case (Cons e es)
  then obtain rec where
    "snapshot_loop dt da todos agents n reviews es
         (bm_insert (en_obligation e) (map_option fst rec) fps)
         (apply_verdict todos agents n (en_obligation e)
            (entry_verdict reviews (en_dispositions e) rec) s) = Inr (fps', s')"
    by (auto simp: and_then_Inr)
  from Cons.IH [OF this counts_apply [OF Cons.prems(2)]] show ?case
    by (simp add: apply_verdict_frame)
qed simp

lemma snapshot_loop_completed:
  "snapshot_loop dt da todos agents n False es fps s = Inr (fps', s') \<Longrightarrow>
     rd_completed s' = rd_completed s +
       length (filter (obligation_successful todos agents) (map en_obligation es))"
proof (induction es arbitrary: fps s)
  case (Cons e es)
  then obtain rec where rec: "entry_record dt da todos agents e = Inr rec"
    "snapshot_loop dt da todos agents n False es
         (bm_insert (en_obligation e) (map_option fst rec) fps)
         (apply_verdict todos agents n (en_obligation e)
            (entry_verdict False (en_dispositions e) rec) s) = Inr (fps', s')"
    by (auto simp: and_then_Inr)
  from Cons.IH [OF rec(2)] show ?case
    by (simp add: apply_verdict_completed verdict_success [OF rec(1)])
qed simp

lemma snapshot_counts:
  assumes "snapshot_with_reviews dt da dl todos agents n reviews l = Inr r"
  shows "counts n (ledger_obligations l) r \<and> rd_total r = length (rl_entries l) \<and>
    rd_run_id r = rl_run_id l \<and> rd_revision r = rl_revision l \<and> rd_fingerprint r \<in> range (dl l)"
proof -
  obtain fps s where s: "snapshot_loop dt da todos agents n reviews (rl_entries l) []
        \<lparr>rd_run_id = rl_run_id l, rd_revision = rl_revision l, rd_fingerprint = [],
         rd_total = length (rl_entries l), rd_accounted = 0, rd_completed = 0, rd_incomplete = 0,
         rd_incomplete_obligations = [], rd_unresolved = [], rd_omitted_unresolved = 0\<rparr> = Inr (fps, s)"
    and r: "r = s\<lparr>rd_fingerprint := dl l fps\<rparr>"
    using assms by (auto simp: snapshot_with_reviews_def and_then_Inr)
  have "counts n [] \<lparr>rd_run_id = rl_run_id l, rd_revision = rl_revision l, rd_fingerprint = [],
         rd_total = length (rl_entries l), rd_accounted = 0, rd_completed = 0, rd_incomplete = 0,
         rd_incomplete_obligations = [], rd_unresolved = [], rd_omitted_unresolved = 0\<rparr>"
    by (simp add: counts_def named_obligations_def)
  from snapshot_loop_counts [OF s this] show ?thesis
    by (simp add: r counts_def named_obligations_def ledger_obligations_def)
qed

lemma snapshot_completed:
  assumes "snapshot dt da dl todos agents n l = Inr r"
  shows "rd_completed r = length (filter (obligation_successful todos agents) (ledger_obligations l))"
proof -
  obtain fps s where s: "snapshot_loop dt da todos agents n False (rl_entries l) []
        \<lparr>rd_run_id = rl_run_id l, rd_revision = rl_revision l, rd_fingerprint = [],
         rd_total = length (rl_entries l), rd_accounted = 0, rd_completed = 0, rd_incomplete = 0,
         rd_incomplete_obligations = [], rd_unresolved = [], rd_omitted_unresolved = 0\<rparr> = Inr (fps, s)"
    and r: "r = s\<lparr>rd_fingerprint := dl l fps\<rparr>"
    using assms by (auto simp: snapshot_def snapshot_with_reviews_def and_then_Inr)
  from snapshot_loop_completed [OF s] show ?thesis by (simp add: r ledger_obligations_def)
qed

text \<open>A snapshot that lists every unresolved obligation passes the checks a seal makes of it.\<close>

lemma snapshot_decision:
  fixes out :: final_outcome and reason :: "rstring option"
  assumes wf: "ledger_wf l" and fits: "length (rl_entries l) \<le> n" "rl_revision l < u64_max"
    and snap: "snapshot dt da dl todos agents n l = Inr r"
    and hex: "\<And>x. is_hex_digest (dl l x)"
  defines "l' \<equiv> l\<lparr>rl_revision := rl_revision l + 1,
      rl_state := Sealed \<lparr>fd_outcome = out, fd_readiness = r, fd_reason = reason\<rparr>\<rparr>"
  shows "validate_decision l' =
    (case out of Final_Completed \<Rightarrow>
        if ready r \<and> rd_incomplete r = 0 \<and> reason = None then Inr () else Inl NotSuccessful
     | _ \<Rightarrow> and_then (ok_or MissingReason reason) validate_reason)"
proof -
  note facts = snapshot_counts [OF snap [unfolded snapshot_def]]
  then have c: "rd_completed r + rd_incomplete r = rd_accounted r"
    "length (rd_incomplete_obligations r) = rd_incomplete r"
    "rd_accounted r + length (rd_unresolved r) + rd_omitted_unresolved r = length (rl_entries l)"
    "length (rd_unresolved r) \<le> n" "0 < rd_omitted_unresolved r \<Longrightarrow> length (rd_unresolved r) = n"
    "set (named_obligations r) \<subseteq> set (ledger_obligations l)"
    "distinct (ledger_obligations l) \<Longrightarrow> distinct (named_obligations r)"
    by (auto simp: counts_def ledger_obligations_def)
  have small: "length (rl_entries l) \<le> max_obligations" and "distinct (ledger_obligations l)"
    using wf by (simp_all add: ledger_wf_def entries_ok_iff ledger_obligations_def)
  with c have named: "check_named (set (ledger_obligations l)) {} (named_obligations r) = Inr ()"
    by (simp add: check_named_Inr)
  have omitted: "rd_omitted_unresolved r = 0"
    using c(3,5) fits(1) by (cases "rd_omitted_unresolved r") auto
  have sum: "checked_add_u64 (rd_completed r) (rd_incomplete r) = Some (rd_accounted r)"
    using c(1,3) small by simp
  have rev: "checked_add_u64 (rl_revision l) (Suc 0) = Some (Suc (rl_revision l))"
    using fits(2) by simp
  have digest: "is_hex_digest (rd_fingerprint r)" using facts hex by auto
  have unresolved: "length (rd_unresolved r) = length (rl_entries l) - rd_accounted r"
    "rd_accounted r \<le> length (rl_entries l)"
    using c(3) omitted by simp_all
  have ident: "rd_run_id r = rl_run_id l" "rd_revision r = rl_revision l" "rd_total r = length (rl_entries l)"
    using facts by simp_all
  have obligations: "ledger_obligations l' = ledger_obligations l"
    by (simp add: l'_def ledger_obligations_def)
  show ?thesis
    unfolding validate_decision_def ledger_decision_def obligations
    by (cases out) (simp_all add: l'_def ident rev digest sum omitted unresolved c(2)
        named [unfolded named_obligations_def] del: checked_add_u64_Some)
qed

section \<open>Properties\<close>

inductive ledger_step :: "(run_ledger \<Rightarrow> nat) \<Rightarrow> (todo_item \<Rightarrow> rstring) \<Rightarrow> (agent_record \<Rightarrow> rstring) \<Rightarrow>
    run_ledger \<Rightarrow> run_ledger \<Rightarrow> bool" for len dt da where
  "ledger_apply len dt da op n l = Inr l' \<Longrightarrow> ledger_step len dt da l l'"

inductive_simps ledger_step_iff: "ledger_step len dt da l l'"

lemma ledger_steps_wf:
  assumes "(ledger_step len dt da)\<^sup>*\<^sup>* l l'" "ledger_wf l"
    and hex: "\<And>x. is_hex_digest (dt x)" "\<And>x. is_hex_digest (da x)"
  shows "ledger_wf l' \<and> prefix (ledger_obligations l) (ledger_obligations l') \<and>
    rl_run_id l' = rl_run_id l \<and> rl_revision l \<le> rl_revision l' \<and> (rl_state l \<noteq> Open \<longrightarrow> l' = l)"
  using assms(1)
proof (induction rule: rtranclp_induct)
  case base
  then show ?case using assms(2) by simp
next
  case (step l1 l2)
  then obtain op n where run: "ledger_apply len dt da op n l1 = Inr l2"
    by (auto simp: ledger_step_iff)
  note change = ledger_apply_change [OF run]
  show ?case
  proof (cases "l2 = l1")
    case True
    with step.IH show ?thesis by simp
  next
    case False
    with change have c: "ledger_change len (range dt \<union> range da) l1 l2" "rl_state l1 = Open" by blast+
    from step.IH have wf1: "ledger_wf l1" by blast
    have "\<And>x. x \<in> range dt \<union> range da \<Longrightarrow> is_hex_digest x" using hex by auto
    from ledger_change_wf [OF wf1 c(1,2) this] step.IH ledger_change_revision [OF c(1)] c(2)
    show ?thesis using prefix_order.trans by auto
  qed
qed

lemma ledger_wf_new: "ledger_wf (ledger_with_id i)"
  by (simp add: ledger_wf_def ledger_with_id_def validate_decision_open)

text \<open>A run's ledger is a history: whatever sequence of adoptions, reviews and seals it goes
  through, the obligations it has stay, in their order and without repetition, new ones are only
  added behind them; the run keeps its identity, the revision never goes back; and once sealed the
  ledger never changes again.\<close>

theorem ledger_is_append_only:
  assumes "\<And>x. is_hex_digest (dt x)" "\<And>x. is_hex_digest (da x)"
    and "(ledger_step len dt da)\<^sup>*\<^sup>* (ledger_with_id i) l" "(ledger_step len dt da)\<^sup>*\<^sup>* l l'"
  shows "prefix (ledger_obligations l) (ledger_obligations l') \<and> distinct (ledger_obligations l') \<and>
    length (ledger_obligations l') \<le> max_obligations \<and> rl_run_id l' = i \<and>
    rl_revision l \<le> rl_revision l' \<and> (ledger_decision l \<noteq> None \<longrightarrow> l' = l)"
proof -
  have l: "ledger_wf l" "rl_run_id l = i"
    using ledger_steps_wf [OF assms(3) ledger_wf_new assms(1,2)] by (simp_all add: ledger_with_id_def)
  from ledger_steps_wf [OF assms(4) l(1) assms(1,2)] l(2) show ?thesis
    by (cases "rl_state l") (auto simp: ledger_wf_def entries_ok_iff ledger_obligations_def ledger_decision_def)
qed

text \<open>
  C27. What is written can be read: a ledger reached by any sequence of operations, of a size that
  \<open>to_json\<close> accepts, is decoded to exactly itself, with every check of \<open>from_json\<close> passed.
\<close>

theorem ledger_round_trip:
  assumes "\<And>x. is_hex_digest (dt x)" "\<And>x. is_hex_digest (da x)"
    and "(ledger_step len dt da)\<^sup>*\<^sup>* (ledger_with_id i) l" "to_json_ok len l = Inr ()"
  shows "from_json (len l) (Some (ledger_to_wire l)) = Inr l"
proof -
  have "ledger_wf l"
    using ledger_steps_wf [OF assms(3) ledger_wf_new assms(1,2)] by simp
  moreover have "len l \<le> max_ledger_bytes"
    using assms(4) by (simp add: to_json_ok_Inr)
  ultimately show ?thesis
    by (cases l) (simp add: from_json_def ledger_to_wire_def ledger_wf_def Let_def)
qed

text \<open>Of two writers who read the same revision at most one changes the ledger: after the first
  change every further operation with that revision is refused.\<close>

theorem ledger_second_writer_rejected:
  assumes "ledger_apply len dt da op n l = Inr l'" "l' \<noteq> l"
  shows "\<not> is_ok (ledger_apply len dt da op' n l')"
  using assms by (rule ledger_writer.second_writer_rejected)

text \<open>The readiness counts add up, for any bound on the reported items and with or without
  required reviews: every obligation is accounted, reported as unresolved or counted as omitted;
  accounted ones are completed or incomplete, the incomplete ones are all named, no obligation is
  named twice, and none that the run does not own.\<close>

theorem readiness_counts:
  assumes "distinct (ledger_obligations l)"
    and "snapshot_with_reviews dt da dl todos agents n reviews l = Inr r"
  shows "rd_accounted r + length (rd_unresolved r) + rd_omitted_unresolved r = rd_total r \<and>
    rd_completed r + rd_incomplete r = rd_accounted r \<and>
    length (rd_incomplete_obligations r) = rd_incomplete r \<and>
    length (rd_unresolved r) \<le> n \<and> (rd_omitted_unresolved r > 0 \<longrightarrow> length (rd_unresolved r) = n) \<and>
    distinct (map un_obligation (rd_unresolved r) @ rd_incomplete_obligations r) \<and>
    set (map un_obligation (rd_unresolved r) @ rd_incomplete_obligations r) \<subseteq> set (ledger_obligations l)"
  using snapshot_counts [OF assms(2)] assms(1)
  unfolding counts_def named_obligations_def ledger_obligations_def length_map by simp

text \<open>A run can be sealed as completed exactly when it is: with a fresh snapshot that lists every
  unresolved obligation, the seal with outcome completed succeeds (size and revision permitting)
  if and only if every obligation's todo is completed and every obligation's agent has completed;
  sealing the same snapshot as incomplete or interrupted succeeds with every valid reason.\<close>

theorem seal_completed_iff_successful:
  assumes "ledger_wf l" "rl_state l = Open" "length (rl_entries l) \<le> n" "rl_revision l < u64_max"
    and "\<And>x. is_hex_digest (dl l x)" "\<And>x. len x \<le> max_ledger_bytes"
    and "snapshot dt da dl todos agents n l = Inr r"
  shows "(is_ok (seal len r Final_Completed None l) \<longleftrightarrow>
      (\<forall>i \<in> set (ledger_obligations l). obligation_successful todos agents i)) \<and>
    (validate_reason reason = Inr () \<longrightarrow> out \<noteq> Final_Completed \<longrightarrow> is_ok (seal len r out (Some reason) l))"
proof -
  note facts = snapshot_counts [OF assms(7) [unfolded snapshot_def]]
  then have c: "rd_completed r + rd_incomplete r = rd_accounted r" "rd_accounted r \<le> length (rl_entries l)"
    "rd_revision r = rl_revision l" "rd_total r = length (rl_entries l)"
    by (auto simp: counts_def ledger_obligations_def)
  have sealed: "is_ok (seal len r out reason l) \<longleftrightarrow> validate_decision (l\<lparr>rl_revision := rl_revision l + 1,
      rl_state := Sealed \<lparr>fd_outcome = out, fd_readiness = r, fd_reason = reason\<rparr>\<rparr>) = Inr ()" for out reason
    using assms(2,4,6) c(3) by (auto simp: is_ok_iff seal_Inr)
  note decision = snapshot_decision [OF assms(1,3,4,7,5)]
  have "ready r \<and> rd_incomplete r = 0 \<longleftrightarrow> rd_completed r = length (rl_entries l)"
    using c by (auto simp: ready_def)
  also have "\<dots> \<longleftrightarrow> (\<forall>i \<in> set (ledger_obligations l). obligation_successful todos agents i)"
    unfolding snapshot_completed [OF assms(7)]
    using filter_length_le_iff [of "obligation_successful todos agents" "ledger_obligations l"]
      length_filter_less [of _ "ledger_obligations l" "obligation_successful todos agents"]
    by (auto simp: ledger_obligations_def less_le)
  finally show ?thesis
    unfolding sealed decision by (cases out) simp_all
qed

section \<open>Examples\<close>

definition example_digest :: rstring where
  "example_digest = replicate 64 97"

lemma example_digest_hex [simp]: "is_hex_digest example_digest"
  by code_simp

definition example_ledger :: run_ledger where
  "example_ledger = (ledger_with_id 7)\<lparr>rl_revision := 1,
     rl_entries := [\<lparr>en_obligation = Ob_Todo 1, en_dispositions = []\<rparr>]\<rparr>"

abbreviation (input) example_len :: "run_ledger \<Rightarrow> nat" where "example_len \<equiv> \<lambda>_. 100"

lemma example_adopt: "adopt example_len (Ob_Todo 1) 0 (ledger_with_id 7) = Inr example_ledger"
  by (simp add: adopt_Inr) (simp add: ledger_with_id_def ledger_obligations_def example_ledger_def)

lemma example_adopt_step: "ledger_step example_len (\<lambda>_. example_digest) (\<lambda>_. example_digest) (ledger_with_id 7) example_ledger"
  by (rule ledger_step.intros [where op = "Lo_Adopt (Ob_Todo 1)" and n = 0]) (simp add: example_adopt)

lemma example_adopt_steps:
  "(ledger_step example_len (\<lambda>_. example_digest) (\<lambda>_. example_digest))\<^sup>*\<^sup>* (ledger_with_id 7) example_ledger"
  by (rule r_into_rtranclp) (rule example_adopt_step)

lemma example_ledger_wf: "ledger_wf example_ledger"
  using ledger_steps_wf [OF example_adopt_steps ledger_wf_new] by simp

lemma ledger_round_trip_witness: "from_json 100 (Some (ledger_to_wire example_ledger)) = Inr example_ledger"
  using ledger_round_trip [where dt = "\<lambda>_. example_digest" and da = "\<lambda>_. example_digest",
      OF _ _ example_adopt_steps]
  by (simp add: to_json_ok_def)

definition example_readiness :: readiness where
  "example_readiness = \<lparr>rd_run_id = 7, rd_revision = 1, rd_fingerprint = example_digest, rd_total = 1,
     rd_accounted = 1, rd_completed = 1, rd_incomplete = 0, rd_incomplete_obligations = [],
     rd_unresolved = [], rd_omitted_unresolved = 0\<rparr>"

lemma example_snapshot:
  "snapshot_with_reviews (\<lambda>_. example_digest) (\<lambda>_. example_digest) (\<lambda>_ _. example_digest)
     (example_list (example_item Completed (Some 20) None)) [] 4 False example_ledger = Inr example_readiness"
proof -
  have "ti_id (example_item s f p) = 1" "ti_status (example_item s f p) = s" for s f p
    by (simp_all add: example_item_def)
  then show ?thesis
    by (simp add: snapshot_with_reviews_def example_ledger_def ledger_with_id_def entry_record_def example_get
        entry_verdict_def apply_verdict_def Let_def example_readiness_def)
qed

end
