(* ===== verification/Session.thy ===== *)
theory Session
  imports Projection Provider_Attempts Completion
begin

text \<open>
  A session (\<open>voyage/src/session.rs\<close>) and the summaries of its runs (\<open>voyage/src/session/outcomes.rs\<close>): titles, the
  model in use, usage, and the annotation of ranges of the conversation with the outcome of the run
  that wrote them. Digests of messages and the checks of GitHub references are arguments.
\<close>

section \<open>State\<close>

record usage =
  us_input :: nat
  us_output :: nat

definition usage_zero :: usage where
  "usage_zero = \<lparr>us_input = 0, us_output = 0\<rparr>"

text \<open>\<open>checked_add\<close> on both counters.\<close>

definition usage_add :: "usage \<Rightarrow> usage \<Rightarrow> usage option" where
  "usage_add a b =
     Option.bind (checked_add_u64 (us_input a) (us_input b)) (\<lambda>i.
     Option.bind (checked_add_u64 (us_output a) (us_output b)) (\<lambda>out. Some \<lparr>us_input = i, us_output = out\<rparr>))"

record title_state =
  tt_user_messages :: nat
  tt_requested_by :: "uuid option"
  tt_automatic :: bool
  tt_generated :: rstring
  tt_usage :: usage

record title_result =
  tr_title :: "rstring option"
  tr_usage :: usage

record model_change =
  mc_from :: rstring
  mc_to :: rstring
  mc_changed_at :: instant

datatype completion_phase =
  Provisional | Reconciling | Phase_Completed | Phase_Incomplete | Phase_Failed | Phase_Interrupted

datatype stop_reason = Stop_Completed | Stop_Incomplete rstring "readiness option"

record run_summary =
  sm_run_id :: uuid
  sm_phase :: completion_phase
  sm_detail :: "rstring option"
  sm_readiness :: "readiness option"
  sm_message_start :: "nat option"
  sm_message_end :: "nat option"
  sm_started_at :: "instant option"
  sm_finished_at :: "instant option"
  sm_message_fingerprints :: "rstring list"
  sm_partial_output :: rstring
  sm_provider_attempts :: "provider_attempt list"

datatype terminal_state = Terminal_Running | Terminal_Exited "int option" | Disconnected

record terminal_summary =
  tm_id :: uuid
  tm_title :: rstring
  tm_state :: terminal_state

record session =
  ss_id :: uuid
  ss_revision :: nat
  ss_loaded_from :: "path option"
  ss_created_at :: instant
  ss_updated_at :: instant
  ss_workspace :: path
  ss_model :: rstring
  ss_pending_model :: "rstring option"
  ss_model_history :: "model_change list"
  ss_completion_runs :: "run_reference list"
  ss_run_summaries :: "run_summary list"
  ss_name :: "rstring option"
  ss_title_state :: "title_state option"
  ss_parent_id :: "uuid option"
  ss_workflow_runs :: "json list"
  ss_github_references :: "json list"
  ss_draft :: rstring
  ss_messages :: "message list"
  ss_working_context :: working_context
  ss_usage :: usage
  ss_terminals :: "terminal_summary list"

section \<open>Names and titles\<close>

definition hex_digit :: "nat \<Rightarrow> rchar" where
  "hex_digit n = (if n < 10 then 48 + n else 87 + n)"

text \<open>The first eight hexadecimal digits of the identifier.\<close>

definition generated_name :: "uuid \<Rightarrow> rstring" where
  "generated_name i = lit ''session-'' @ map (\<lambda>k. hex_digit (unat (drop_bit (4 * k) i) mod 16)) [31, 30, 29, 28, 27, 26, 25, 24]"

definition session_new :: "uuid \<Rightarrow> instant \<Rightarrow> path \<Rightarrow> rstring \<Rightarrow> session" where
  "session_new i now workspace model =
     \<lparr>ss_id = i, ss_revision = 0, ss_loaded_from = None, ss_created_at = now, ss_updated_at = now,
      ss_workspace = workspace, ss_model = model, ss_pending_model = None, ss_model_history = [],
      ss_completion_runs = [], ss_run_summaries = [], ss_name = Some (generated_name i),
      ss_title_state = Some \<lparr>tt_user_messages = 0, tt_requested_by = None, tt_automatic = True,
        tt_generated = generated_name i, tt_usage = usage_zero\<rparr>,
      ss_parent_id = None, ss_workflow_runs = [], ss_github_references = [], ss_draft = [], ss_messages = [],
      ss_working_context = \<lparr>wc_generation = 0, wc_reason = None, wc_entries = []\<rparr>, ss_usage = usage_zero, ss_terminals = []\<rparr>"

definition display_name :: "session \<Rightarrow> rstring" where
  "display_name s = (case ss_name s of
     Some name \<Rightarrow> if trim name = [] then generated_name (ss_id s) else name
   | None \<Rightarrow> generated_name (ss_id s))"

definition ensure_name :: "session \<Rightarrow> session" where
  "ensure_name s =
     (if is_none_or (ss_name s) (\<lambda>name. trim name = []) then s\<lparr>ss_name := Some (generated_name (ss_id s))\<rparr> else s)"

text \<open>The title state, made when it is absent.\<close>

definition title_state_of :: "session \<Rightarrow> title_state" where
  "title_state_of s = (case ss_title_state s of
     Some t \<Rightarrow> t
   | None \<Rightarrow> \<lparr>tt_user_messages = 0, tt_requested_by = None, tt_automatic = (display_name s = generated_name (ss_id s)),
       tt_generated = generated_name (ss_id s), tt_usage = usage_zero\<rparr>)"

definition set_name :: "rstring \<Rightarrow> session \<Rightarrow> session" where
  "set_name name s = s\<lparr>ss_title_state := Some ((title_state_of s)\<lparr>tt_automatic := False\<rparr>), ss_name := Some name\<rparr>"

definition automatic_title_enabled :: "session \<Rightarrow> bool" where
  "automatic_title_enabled s = (case ss_title_state s of
     None \<Rightarrow> display_name s = generated_name (ss_id s)
   | Some t \<Rightarrow> tt_automatic t \<and> display_name s = tt_generated t)"

text \<open>Automatic titles are requested at Fibonacci counts. The current number is \<open>Suc n\<close>: it starts at one.\<close>

function checkpoint_walk :: "nat \<Rightarrow> nat \<Rightarrow> nat \<Rightarrow> bool" where
  "checkpoint_walk count previous n =
     (if Suc n < count then
        (if u64_max < previous + Suc n then False else checkpoint_walk count (Suc n) (previous + n))
      else count \<noteq> 0 \<and> Suc n = count)"
  by pat_completeness auto

termination checkpoint_walk
  by (relation "measures [\<lambda>(count, previous, n). count - n, \<lambda>(count, previous, n). if previous = 0 then 1 else 0]") auto

declare checkpoint_walk.simps [simp del]

definition is_title_checkpoint :: "nat \<Rightarrow> bool" where
  "is_title_checkpoint count = checkpoint_walk count 0 0"

fun fib :: "nat \<Rightarrow> nat" where
  "fib 0 = 0"
| "fib (Suc 0) = 1"
| "fib (Suc (Suc n)) = fib n + fib (Suc n)"

lemma fib_pos: "0 < fib (Suc k)"
  by (induction k rule: fib.induct) auto

lemma fib_mono: "fib k \<le> fib (Suc k)"
  by (cases k) auto

lemma fib_le: "j \<le> k \<Longrightarrow> fib j \<le> fib k"
  by (rule lift_Suc_mono_le [of fib, OF fib_mono])

lemma checkpoint_walk_fib:
  assumes "count \<le> u64_max" "Suc n = fib (Suc k)" "fib k < count \<or> k = 0" "count \<noteq> 0"
  shows "checkpoint_walk count (fib k) n \<longleftrightarrow> (\<exists>j. Suc k \<le> j \<and> count = fib j)"
  using assms
proof (induction count "fib k" n arbitrary: k rule: checkpoint_walk.induct)
  case (1 count n)
  show ?case
  proof (cases "Suc n < count")
    case False
    have "count = fib (Suc k)" if "Suc k \<le> j" "count = fib j" for j
      using that fib_le [of "Suc k" j] 1(3) False by simp
    with False 1 show ?thesis by (subst checkpoint_walk.simps) auto
  next
    case True
    have nxt: "fib k + Suc n = fib (Suc (Suc k))" using 1(3) by simp
    have above: "Suc (Suc k) \<le> j" if "Suc k \<le> j" "count = fib j" for j
      using that True 1(3) by (metis Suc_leI le_neq_implies_less less_irrefl)
    show ?thesis
    proof (cases "u64_max < fib k + Suc n")
      case over: True
      have "\<not> (\<exists>j. Suc k \<le> j \<and> count = fib j)"
        using above fib_le [of "Suc (Suc k)"] over nxt 1(2) by fastforce
      with True over show ?thesis by (subst checkpoint_walk.simps) simp
    next
      case False
      have "Suc (fib k + n) = fib (Suc (Suc k))" using nxt by simp
      moreover have "fib (Suc k) < count" using True 1(3) by simp
      ultimately have "checkpoint_walk count (fib (Suc k)) (fib k + n) \<longleftrightarrow> (\<exists>j. Suc (Suc k) \<le> j \<and> count = fib j)"
        using 1(1) [OF True False, of "Suc k"] 1(2,3,5) by simp
      then show ?thesis
        using True False above 1(3) by (subst checkpoint_walk.simps) (auto intro: Suc_leD)
    qed
  qed
qed

text \<open>Titles are requested exactly at the Fibonacci numbers of accepted messages.\<close>

lemma title_checkpoint_iff:
  assumes "count \<le> u64_max" "count \<noteq> 0"
  shows "is_title_checkpoint count \<longleftrightarrow> (\<exists>j. 0 < j \<and> count = fib j)"
  using checkpoint_walk_fib [OF assms(1), of 0 0] assms(2) by (auto simp: is_title_checkpoint_def Suc_le_eq)

definition request_title :: "uuid \<Rightarrow> session \<Rightarrow> session" where
  "request_title input_id s =
     (let t = title_state_of s; n = sat_add (tt_user_messages t) 1 in
      s\<lparr>ss_title_state := Some (t\<lparr>tt_user_messages := n,
          tt_requested_by := (if is_title_checkpoint n then Some input_id else None)\<rparr>)\<rparr>)"

definition apply_generated_title :: "uuid \<Rightarrow> title_result \<Rightarrow> session \<Rightarrow> session" where
  "apply_generated_title input_id r s =
     (let t = title_state_of s;
          t = (case usage_add (tt_usage t) (tr_usage r) of Some u \<Rightarrow> t\<lparr>tt_usage := u\<rparr> | None \<Rightarrow> t) in
      case tr_title r of
        Some title \<Rightarrow>
          if tt_automatic t \<and> tt_requested_by t = Some input_id \<and> tt_generated t = display_name s
          then s\<lparr>ss_title_state := Some (t\<lparr>tt_generated := title\<rparr>), ss_name := Some title\<rparr>
          else s\<lparr>ss_title_state := Some t\<rparr>
      | None \<Rightarrow> s\<lparr>ss_title_state := Some t\<rparr>)"

definition clear_conversation :: "session \<Rightarrow> session" where
  "clear_conversation s =
     (let t = title_state_of s; automatic = tt_automatic t \<and> tt_generated t = display_name s;
          t = t\<lparr>tt_requested_by := None, tt_user_messages := 0\<rparr>; fallback = generated_name (ss_id s);
          s = s\<lparr>ss_messages := [], ss_run_summaries := [],
                ss_working_context := \<lparr>wc_generation = 0, wc_reason = None, wc_entries = []\<rparr>\<rparr> in
      if automatic then s\<lparr>ss_title_state := Some (t\<lparr>tt_generated := fallback\<rparr>), ss_name := Some fallback\<rparr>
      else s\<lparr>ss_title_state := Some t\<rparr>)"

datatype session_error =
  Empty_Model | Usage_Overflow | Attempt_Identity | Attempt_Ordinal | Attempt_Label | Attempt_Category |
  Upstream_Identity | Provider_Code | No_Summary | Run_Mismatch | Unknown_Interrupted | Bad_Continuation |
  Identity_Changed | Partial_Too_Large

definition switch_model :: "rstring \<Rightarrow> instant \<Rightarrow> session \<Rightarrow> (session_error, bool \<times> session) result" where
  "switch_model model now s =
     (let model = trim model in
      if model = [] then Inl Empty_Model
      else if ss_model s = model then Inr (False, s)
      else Inr (True, s\<lparr>ss_model_history := ss_model_history s @ [\<lparr>mc_from = ss_model s, mc_to = model, mc_changed_at = now\<rparr>],
                        ss_messages := map clear_state (ss_messages s), ss_model := model\<rparr>))"

section \<open>Summaries of runs\<close>

text \<open>The fields a fingerprint covers; the digest is an argument.\<close>

type_synonym summary_digest = "role \<times> rstring \<times> tool_call list \<times> rstring option \<times> content_part list \<Rightarrow> rstring"

definition summary_fingerprint :: "summary_digest \<Rightarrow> message \<Rightarrow> rstring" where
  "summary_fingerprint h m = h (m_role m, m_content m, m_tool_calls m, m_tool_call_id m, m_parts m)"

definition begin_run_summary :: "summary_digest \<Rightarrow> uuid \<Rightarrow> instant \<Rightarrow> session \<Rightarrow> session" where
  "begin_run_summary h run_id now s =
     (let start = sat_sub (length (ss_messages s)) 1 in
      s\<lparr>ss_run_summaries := ss_run_summaries s @
        [\<lparr>sm_run_id = run_id, sm_phase = Provisional, sm_detail = None, sm_readiness = None,
          sm_message_start = Some start, sm_message_end = Some (length (ss_messages s)), sm_started_at = Some now,
          sm_finished_at = None, sm_message_fingerprints = map (summary_fingerprint h) (drop start (ss_messages s)),
          sm_partial_output = [], sm_provider_attempts = []\<rparr>]\<rparr>)"

text \<open>Operations on the last summary.\<close>

definition on_last :: "(run_summary \<Rightarrow> run_summary) \<Rightarrow> session \<Rightarrow> session" where
  "on_last f s =
     (if ss_run_summaries s = [] then s
      else s\<lparr>ss_run_summaries := butlast (ss_run_summaries s) @ [f (last (ss_run_summaries s))]\<rparr>)"

definition attempt_categories :: "rstring list" where
  "attempt_categories = map lit [''authentication'', ''usage_limit'', ''context_length'', ''rate_limit'', ''unavailable'',
     ''timeout'', ''transport_timeout'', ''stream_interrupted'', ''connection'', ''transport'', ''request'',
     ''invalid_response'', ''incomplete'']"

definition provider_codes :: "rstring list" where
  "provider_codes = map lit [''insufficient_quota'', ''usage_limit_reached'', ''context_length_exceeded'']"

definition upstream_id_ok :: "rstring \<Rightarrow> bool" where
  "upstream_id_ok i \<longleftrightarrow> i \<noteq> [] \<and> str_len i \<le> 128 \<and> list_all (\<lambda>c. is_ascii_alphanumeric c \<or> c \<in> set (lit ''_-.:'')) i"

text \<open>The checks of \<open>upsert_provider_attempt\<close> that do not look at the session.\<close>

definition attempt_well_formed :: "uuid \<Rightarrow> provider_attempt \<Rightarrow> (session_error, unit) result" where
  "attempt_well_formed run_id a =
     (if is_nil run_id \<or> is_nil (pa_request_id a) \<or> is_nil (pa_attempt_id a) then Inl Attempt_Identity
      else if \<not> (0 < pa_attempt a \<and> pa_attempt a \<le> pa_limit a) then Inl Attempt_Ordinal
      else if \<not> (str_len (pa_provider a) \<le> 256 \<and> str_len (pa_model a) \<le> 1024 \<and>
                \<not> list_ex is_control (pa_provider a @ pa_model a)) then Inl Attempt_Label
      else if \<not> is_none_or (pa_category a) (\<lambda>c. c \<in> set attempt_categories) then Inl Attempt_Category
      else if \<not> is_none_or (ro_upstream_request_id (pa_retry a)) upstream_id_ok then Inl Upstream_Identity
      else if \<not> is_none_or (ro_provider_code (pa_retry a)) (\<lambda>c. c \<in> set provider_codes) then Inl Provider_Code
      else Inr ())"

definition continues :: "provider_attempt \<Rightarrow> provider_attempt \<Rightarrow> bool" where
  "continues interrupted a \<longleftrightarrow> pa_attempt interrupted < pa_attempt a \<and> pa_request_id interrupted \<noteq> pa_request_id a \<and>
     pa_provider interrupted = pa_provider a \<and> pa_model interrupted = pa_model a \<and>
     pa_decision interrupted = ContinuationScheduled"

definition same_identity :: "provider_attempt \<Rightarrow> provider_attempt \<Rightarrow> bool" where
  "same_identity previous a \<longleftrightarrow> pa_request_id previous = pa_request_id a \<and> pa_attempt previous = pa_attempt a \<and>
     pa_limit previous = pa_limit a \<and> pa_started_at_ms previous = pa_started_at_ms a \<and>
     pa_provider previous = pa_provider a \<and> pa_model previous = pa_model a \<and>
     ro_recovery_of (pa_retry previous) = ro_recovery_of (pa_retry a) \<and>
     is_none_or (ro_recovery_deadline_at_ms (pa_retry previous))
       (\<lambda>d. ro_recovery_deadline_at_ms (pa_retry a) = Some d)"

definition upsert_attempt :: "provider_attempt \<Rightarrow> provider_attempt list \<Rightarrow> (session_error, provider_attempt list) result" where
  "upsert_attempt a attempts =
     (case position (\<lambda>b. pa_attempt_id b = pa_attempt_id a) attempts of
        Some i \<Rightarrow> if same_identity (attempts ! i) a then Inr (attempts[i := a]) else Inl Identity_Changed
      | None \<Rightarrow> Inr (attempts @ [a]))"

definition upsert_provider_attempt :: "uuid \<Rightarrow> provider_attempt \<Rightarrow> session \<Rightarrow> (session_error, session) result" where
  "upsert_provider_attempt run_id a s =
     and_then (attempt_well_formed run_id a) (\<lambda>_.
     if ss_run_summaries s = [] then Inl No_Summary
     else let sm = last (ss_run_summaries s); attempts = sm_provider_attempts sm in
     if sm_run_id sm \<noteq> run_id then Inl Run_Mismatch
     else and_then
       (case ro_recovery_of (pa_retry a) of
          None \<Rightarrow> Inr ()
        | Some i \<Rightarrow> (case find (\<lambda>b. pa_attempt_id b = i) attempts of
            None \<Rightarrow> Inl Unknown_Interrupted
          | Some b \<Rightarrow> if continues b a then Inr () else Inl Bad_Continuation)) (\<lambda>_.
     and_then (upsert_attempt a attempts) (\<lambda>attempts'.
     Inr (on_last (\<lambda>sm. sm\<lparr>sm_provider_attempts := attempts'\<rparr>) s))))"

definition set_run_partial_output :: "rstring \<Rightarrow> session \<Rightarrow> (session_error, session) result" where
  "set_run_partial_output text s =
     (if 1024 * 1024 < str_len text then Inl Partial_Too_Large
      else if ss_run_summaries s = [] then Inl No_Summary
      else Inr (on_last (\<lambda>sm. sm\<lparr>sm_partial_output := text\<rparr>) s))"

definition phase_final :: "completion_phase \<Rightarrow> bool" where
  "phase_final p \<longleftrightarrow> p \<in> {Phase_Completed, Phase_Incomplete, Phase_Failed, Phase_Interrupted}"

definition update_run_summary :: "completion_phase \<Rightarrow> readiness option \<Rightarrow> rstring option \<Rightarrow> instant \<Rightarrow> session \<Rightarrow> session" where
  "update_run_summary phase rd detail now =
     on_last (\<lambda>sm. sm\<lparr>sm_finished_at := (if phase_final phase \<and> sm_finished_at sm = None then Some now else sm_finished_at sm),
       sm_phase := phase, sm_readiness := rd,
       sm_detail := map_option (\<lambda>s. take 4000 (filter (\<lambda>c. \<not> is_control c) s)) detail\<rparr>)"

definition extend_run_summary :: "summary_digest \<Rightarrow> session \<Rightarrow> session" where
  "extend_run_summary h s =
     on_last (\<lambda>sm. case sm_message_start sm of
        Some start \<Rightarrow>
          if start < length (ss_messages s)
          then sm\<lparr>sm_message_end := Some (length (ss_messages s)),
                  sm_message_fingerprints := map (summary_fingerprint h) (drop start (ss_messages s))\<rparr>
          else sm
      | None \<Rightarrow> sm) s"

abbreviation last_readiness :: "session \<Rightarrow> readiness option" where
  "last_readiness s \<equiv> (if ss_run_summaries s = [] then None else sm_readiness (last (ss_run_summaries s)))"

definition finish_run_summary :: "summary_digest \<Rightarrow> stop_reason \<Rightarrow> instant \<Rightarrow> session \<Rightarrow> session" where
  "finish_run_summary h stop now s =
     (let s = on_last (\<lambda>sm. sm\<lparr>sm_partial_output := []\<rparr>) (extend_run_summary h s) in
      case stop of
        Stop_Completed \<Rightarrow> update_run_summary Phase_Completed None None now s
      | Stop_Incomplete reason rd \<Rightarrow> update_run_summary Phase_Incomplete rd (Some reason) now s)"

text \<open>Only the latest attempt can be pending.\<close>

definition interrupt_provider_recovery :: "run_summary \<Rightarrow> run_summary" where
  "interrupt_provider_recovery sm =
     (if sm_provider_attempts sm = [] then sm
      else let a = last (sm_provider_attempts sm) in
        if pa_decision a \<in> {InFlight, RetryScheduled, ContinuationScheduled}
        then sm\<lparr>sm_provider_attempts := butlast (sm_provider_attempts sm) @
               [on_retry (\<lambda>r. r\<lparr>ro_eligible := False\<rparr>) (a\<lparr>pa_decision := RecoveryInterrupted\<rparr>)]\<rparr>
        else sm)"

definition interrupt_run_summary :: "summary_digest \<Rightarrow> rstring \<Rightarrow> instant \<Rightarrow> session \<Rightarrow> session" where
  "interrupt_run_summary h detail now s =
     (let s = extend_run_summary h s in
      on_last interrupt_provider_recovery (update_run_summary Phase_Interrupted (last_readiness s) (Some detail) now s))"

definition fail_run_summary :: "summary_digest \<Rightarrow> rstring \<Rightarrow> instant \<Rightarrow> session \<Rightarrow> session" where
  "fail_run_summary h detail now s =
     (let s = extend_run_summary h s in update_run_summary Phase_Failed (last_readiness s) (Some detail) now s)"

section \<open>Anchors\<close>

text \<open>The positions at which a list occurs in another, as \<open>windows\<close> enumerates them.\<close>

definition occurrences :: "'a list \<Rightarrow> 'a list \<Rightarrow> nat list" where
  "occurrences expected hashes =
     filter (\<lambda>i. take (length expected) (drop i hashes) = expected) [0..<length hashes + 1 - length expected]"

definition reanchor_summary :: "rstring list \<Rightarrow> run_summary \<Rightarrow> run_summary" where
  "reanchor_summary hashes sm =
     (let expected = sm_message_fingerprints sm;
          old = (case (sm_message_start sm, sm_message_end sm) of
              (Some start, Some stop) \<Rightarrow>
                if start \<le> stop \<and> stop \<le> length hashes \<and> slice hashes start stop = expected then Some start else None
            | _ \<Rightarrow> None);
          start = (if old \<noteq> None then old
                   else if expected = [] \<or> length hashes < length expected then None
                   else case occurrences expected hashes of [i] \<Rightarrow> Some i | _ \<Rightarrow> None)
      in sm\<lparr>sm_message_start := start, sm_message_end := map_option (\<lambda>i. i + length expected) start\<rparr>)"

definition reanchor_run_summaries :: "summary_digest \<Rightarrow> session \<Rightarrow> session" where
  "reanchor_run_summaries h s =
     s\<lparr>ss_run_summaries :=
        map (reanchor_summary (map (summary_fingerprint h) (ss_messages s))) (ss_run_summaries s)\<rparr>"

definition replace_messages :: "summary_digest \<Rightarrow> message list \<Rightarrow> session \<Rightarrow> session" where
  "replace_messages h ms s = reanchor_run_summaries h (s\<lparr>ss_messages := ms\<rparr>)"

definition is_answer :: "message \<Rightarrow> bool" where
  "is_answer m \<longleftrightarrow> m_role m = Assistant \<and> m_tool_calls m = []"

definition phase_label :: "completion_phase \<Rightarrow> string" where
  "phase_label p = (case p of Phase_Completed \<Rightarrow> ''completed'' | Phase_Incomplete \<Rightarrow> ''incomplete'' |
     Phase_Failed \<Rightarrow> ''failed'' | Phase_Interrupted \<Rightarrow> ''interrupted'' | _ \<Rightarrow> ''provisional'')"

definition covering_summary :: "summary_digest \<Rightarrow> message list \<Rightarrow> nat \<Rightarrow> run_summary \<Rightarrow> bool" where
  "covering_summary h ms i sm \<longleftrightarrow>
     (case (sm_message_start sm, sm_message_end sm) of
        (Some start, Some stop) \<Rightarrow> start \<le> i \<and> i < stop \<and> stop \<le> length ms \<and>
          i - start < length (sm_message_fingerprints sm) \<and>
          sm_message_fingerprints sm ! (i - start) = summary_fingerprint h (ms ! i)
      | _ \<Rightarrow> False)"

definition assistant_classification :: "summary_digest \<Rightarrow> session \<Rightarrow> nat \<Rightarrow> string option" where
  "assistant_classification h s i =
     (let ms = ss_messages s in
      if length ms \<le> i \<or> \<not> is_answer (ms ! i) then None
      else case find (covering_summary h ms i) (List.rev (ss_run_summaries s)) of
        None \<Rightarrow> None
      | Some sm \<Rightarrow>
          let answers = filter (\<lambda>k. is_answer (ms ! k)) [the (sm_message_start sm)..<the (sm_message_end sm)] in
          Some (if answers \<noteq> [] \<and> last answers = i then phase_label (sm_phase sm) else ''provisional''))"

definition recover_run_summaries :: "summary_digest \<Rightarrow> session \<Rightarrow> session" where
  "recover_run_summaries h s =
     (let s = reanchor_run_summaries h s in
      s\<lparr>ss_run_summaries := map (\<lambda>sm.
          if sm_phase sm \<in> {Provisional, Reconciling}
          then (interrupt_provider_recovery sm)\<lparr>sm_phase := Phase_Interrupted,
                 sm_detail := Some (lit ''Execution was not durably finalized before restart'')\<rparr>
          else sm) (ss_run_summaries s)\<rparr>)"

text \<open>History kept by a stopped run replaces the session's; inputs still queued stay visible.\<close>

definition recover_context_failure :: "summary_digest \<Rightarrow> message list \<Rightarrow> usage \<Rightarrow> session \<Rightarrow> (session_error, session) result" where
  "recover_context_failure h recovered u s =
     and_then (ok_or Usage_Overflow (usage_add (ss_usage s) u)) (\<lambda>total.
       let waiting = fold (\<lambda>m acc.
             case m_steering m of
               Some r \<Rightarrow> if sr_status r = steering_status.Queued \<and>
                   \<not> list_ex (\<lambda>other. is_some_and (m_steering other) (\<lambda>q. sr_id q = sr_id r)) acc
                 then acc @ [m] else acc
             | None \<Rightarrow> acc) (ss_messages s) recovered in
       Inr ((replace_messages h waiting s)\<lparr>ss_usage := total\<rparr>))"

section \<open>What the summaries mean\<close>

definition anchored_at :: "summary_digest \<Rightarrow> message list \<Rightarrow> run_summary \<Rightarrow> nat \<Rightarrow> bool" where
  "anchored_at h ms sm start \<longleftrightarrow>
     (let stop = start + length (sm_message_fingerprints sm) in
      stop \<le> length ms \<and> slice (map (summary_fingerprint h) ms) start stop = sm_message_fingerprints sm)"

definition last_answer :: "message list \<Rightarrow> nat \<Rightarrow> nat \<Rightarrow> nat \<Rightarrow> bool" where
  "last_answer ms start stop i \<longleftrightarrow>
     (let answers = filter (\<lambda>k. is_answer (ms ! k)) [start..<stop] in answers \<noteq> [] \<and> last answers = i)"

lemma reanchor_summary_frame:
  "sm_message_fingerprints (reanchor_summary hashes sm) = sm_message_fingerprints sm"
  "sm_phase (reanchor_summary hashes sm) = sm_phase sm" "sm_run_id (reanchor_summary hashes sm) = sm_run_id sm"
  by (simp_all add: reanchor_summary_def Let_def)

lemma occurrences_iff:
  "i \<in> set (occurrences expected hashes) \<longleftrightarrow>
     i + length expected \<le> length hashes \<and> slice hashes i (i + length expected) = expected"
  by (auto simp: occurrences_def)

lemma reanchor_summary_range:
  assumes "sm_message_start (reanchor_summary hashes sm) = Some i"
  shows "sm_message_end (reanchor_summary hashes sm) = Some (i + length (sm_message_fingerprints sm))"
    "i + length (sm_message_fingerprints sm) \<le> length hashes"
    "slice hashes i (i + length (sm_message_fingerprints sm)) = sm_message_fingerprints sm"
proof -
  let ?e = "sm_message_fingerprints sm"
  define old where "old = (case (sm_message_start sm, sm_message_end sm) of
      (Some start, Some stop) \<Rightarrow>
        if start \<le> stop \<and> stop \<le> length hashes \<and> slice hashes start stop = ?e then Some start else None
    | _ \<Rightarrow> None)"
  define start where "start = (if old \<noteq> None then old
      else if ?e = [] \<or> length hashes < length ?e then None
      else case occurrences ?e hashes of [i] \<Rightarrow> Some i | _ \<Rightarrow> None)"
  have sm: "reanchor_summary hashes sm = sm\<lparr>sm_message_start := start,
      sm_message_end := map_option (\<lambda>i. i + length ?e) start\<rparr>"
    by (simp add: reanchor_summary_def Let_def old_def start_def)
  then have i: "start = Some i" using assms by simp
  with sm show "sm_message_end (reanchor_summary hashes sm) = Some (i + length ?e)" by simp
  have "i + length ?e \<le> length hashes \<and> slice hashes i (i + length ?e) = ?e"
  proof (cases "old = None")
    case True
    then have "i \<in> set (occurrences ?e hashes)"
      using i by (auto simp: start_def split: if_splits list.splits)
    then show ?thesis by (simp add: occurrences_iff)
  next
    case False
    then obtain stop where stop: "i \<le> stop" "stop \<le> length hashes" "slice hashes i stop = ?e"
      using i by (auto simp: start_def old_def split: option.splits if_splits)
    then have "length ?e = stop - i" by (metis length_drop length_take min.absorb2 diff_le_mono)
    with stop show ?thesis by simp
  qed
  then show "i + length ?e \<le> length hashes" "slice hashes i (i + length ?e) = ?e" by simp_all
qed

lemma reanchor_summary_unique:
  assumes "sm_message_fingerprints sm \<noteq> []" "occurrences (sm_message_fingerprints sm) hashes = [i]"
  shows "sm_message_start (reanchor_summary hashes sm) = Some i"
proof -
  let ?e = "sm_message_fingerprints sm"
  have len: "\<not> length hashes < length ?e" using occurrences_iff [of i ?e hashes] assms(2) by auto
  show ?thesis
  proof (cases "sm_message_start (reanchor_summary hashes sm)")
    case (Some j)
    then have "j \<in> set (occurrences ?e hashes)" using reanchor_summary_range [OF Some] by (simp add: occurrences_iff)
    with assms(2) Some show ?thesis by simp
  next
    case None
    with assms len show ?thesis
      by (auto simp: reanchor_summary_def Let_def split: if_splits option.splits)
  qed
qed

section \<open>Recording attempts in a session\<close>

text \<open>
  The checkpoint of a run that keeps its observations in the session; a refusal of \<open>upsert_provider_attempt\<close> is a
  checkpoint error. So is every other failure of \<open>checkpoint_provider_attempt\<close> (a lost lease, a run that is not
  running, a session that changed or is too large), which is not told apart from a refusal here and is left out.
\<close>

definition session_checkpoint :: "uuid \<Rightarrow> session checkpoint" where
  "session_checkpoint run_id a s =
     (case upsert_provider_attempt run_id a s of Inr s' \<Rightarrow> (s', None) | Inl _ \<Rightarrow> (s, Some Err_Checkpoint))"

lemma well_formed_category:
  "attempt_well_formed run_id a = Inr () \<Longrightarrow> pa_category a = Some c \<Longrightarrow> c \<in> set attempt_categories"
  by (auto simp: attempt_well_formed_def split: if_splits)

lemma access_denied_refused:
  "pa_category a = Some (lit ''access_denied'') \<Longrightarrow> session_checkpoint run_id a s = (s, Some Err_Checkpoint)"
proof -
  assume c: "pa_category a = Some (lit ''access_denied'')"
  have "lit ''access_denied'' \<notin> set attempt_categories" by (simp add: attempt_categories_def lit_def)
  with c have "attempt_well_formed run_id a \<noteq> Inr ()" using well_formed_category by blast
  then obtain e where "attempt_well_formed run_id a = Inl e" by (cases "attempt_well_formed run_id a") auto
  then show ?thesis by (simp add: session_checkpoint_def upsert_provider_attempt_def)
qed

section \<open>Properties\<close>

text \<open>A question answered by a completed run; in the history that replaces it a message precedes both.\<close>

definition sample_history :: "message list" where
  "sample_history = map (\<lambda>(r, t). message_new r (lit t) 0) [(System, ''s''), (User, ''hi''), (Assistant, ''ok'')]"

definition sample_session :: session where
  "sample_session =
     (let started = begin_run_summary (\<lambda>(r, c, _). c) 5 0
            ((session_new 3 0 [RootDir, Normal (lit ''w'')] (lit ''m''))\<lparr>ss_messages := [message_new User (lit ''hi'') 0]\<rparr>)
      in finish_run_summary (\<lambda>(r, c, _). c) Stop_Completed 1 (started\<lparr>ss_messages := drop 1 sample_history\<rparr>))"

text \<open>C40. An attempt that the provider answers with a denial of access cannot be recorded by a session: the request
  then ends with a checkpoint error, and the error of the provider is lost.\<close>

theorem access_denied_is_masked:
  assumes "category e = ''access_denied''"
  shows "snd (provider_failed (session_checkpoint run_id) su e w a ex) = Finish (Turn_Err Err_Checkpoint)"
proof -
  have "session_checkpoint run_id b s = (s, Some Err_Checkpoint)"
    if "pa_category b = Some (lit (category e))" for b s
    using access_denied_refused that assms by simp
  then show ?thesis
    by (simp add: provider_failed_def record_attempt_def failed_attempt_def Let_def split: prod.split)
qed


lemma access_denied_is_masked_witness:
  "snd (provider_failed (session_checkpoint 5) sample_setup AccessDenied (sample_world 1)
      (new_attempt sample_setup (lit ''m'') 1 (sample_world 1) (recovery_new default_retry_policy 7))
      \<lparr>ex_store = sample_session, ex_recovery = recovery_new default_retry_policy 7, ex_log = []\<rparr>) =
   (Finish (Turn_Err Err_Checkpoint) :: rstring step)"
  by (rule access_denied_is_masked) simp

text \<open>After a replacement of the messages an answer is classified as completed only where a completed run left it:
  the fingerprints of the run match the messages around it, and it is the last answer among them.\<close>

theorem completed_is_anchored:
  assumes "assistant_classification h (replace_messages h ms s) i = Some ''completed''"
  shows "\<exists>sm \<in> set (ss_run_summaries s). \<exists>start. sm_phase sm = Phase_Completed \<and>
    anchored_at h ms sm start \<and> last_answer ms start (start + length (sm_message_fingerprints sm)) i"
proof -
  let ?s = "replace_messages h ms s"
  have ms: "ss_messages ?s = ms" by (simp add: replace_messages_def reanchor_run_summaries_def)
  from assms obtain rs where find: "find (covering_summary h ms i) (List.rev (ss_run_summaries ?s)) = Some rs"
    and answer: "filter (\<lambda>k. is_answer (ms ! k)) [the (sm_message_start rs)..<the (sm_message_end rs)] \<noteq> []"
      "last (filter (\<lambda>k. is_answer (ms ! k)) [the (sm_message_start rs)..<the (sm_message_end rs)]) = i"
    and phase: "phase_label (sm_phase rs) = ''completed''"
    by (auto simp: assistant_classification_def Let_def ms split: if_splits option.splits)
  from find have rs: "rs \<in> set (ss_run_summaries ?s)" "covering_summary h ms i rs"
    by (metis find_Some_iff nth_mem set_rev)+
  then obtain sm where sm: "sm \<in> set (ss_run_summaries s)" "rs = reanchor_summary (map (summary_fingerprint h) ms) sm"
    by (auto simp: replace_messages_def reanchor_run_summaries_def)
  from rs(2) obtain start where start: "sm_message_start rs = Some start"
    by (auto simp: covering_summary_def split: option.splits)
  note range = reanchor_summary_range [OF start [unfolded sm(2)]]
  have "anchored_at h ms sm start" using range by (simp add: anchored_at_def)
  moreover have "sm_phase sm = Phase_Completed"
    using phase sm(2) by (simp add: reanchor_summary_frame phase_label_def split: completion_phase.splits)
  moreover have "last_answer ms start (start + length (sm_message_fingerprints sm)) i"
    using answer start range(1) sm(2) by (simp add: last_answer_def)
  ultimately show ?thesis using sm(1) by blast
qed

end
