(* ===== verification/Journal.thy ===== *)
theory Journal
  imports Session Content Ordered_Map
begin

text \<open>
  The journal of a session (\<open>voyage/src/attachment/journal.rs\<close> and the tables of \<open>journal/steering.rs\<close>,
  \<open>journal/catalogue.rs\<close>, \<open>journal/goals.rs\<close>, \<open>journal/lifecycle.rs\<close>, \<open>journal/assignments.rs\<close>): its tables, the
  rows a transaction reads and writes, events and their replay.

  A transaction is a function from the journal to a result with the new journal: an error is a rollback,
  a success is the commit. A table that has not been created is empty. A row holds the record it stores;
  the columns that repeat fields of the record are kept where the source compares or queries them.
  The lengths of the JSON texts and the digests are functions of the environment. The SQL triggers that
  copy changes of tables to the observers, the pages that readers ask for, and I/O failures are left out.
\<close>

section \<open>Constants\<close>

definition max_sessions :: nat where "max_sessions = 4096"
definition max_commands :: nat where "max_commands = 100000"
definition max_snapshot :: nat where "max_snapshot = 16 * 1024 * 1024"
definition max_prompt :: nat where "max_prompt = 64 * 1024"
definition max_partial :: nat where "max_partial = 1024 * 1024"
definition replay_limit :: nat where "replay_limit = 1024"
definition schema_version :: nat where "schema_version = 20"
definition steering_schema_version :: nat where "steering_schema_version = 4"
definition max_pending_steering :: nat where "max_pending_steering = 64"
definition max_steering_per_run :: nat where "max_steering_per_run = 1024"
definition max_steering_bytes :: nat where "max_steering_bytes = 64 * 1024"

abbreviation i64_top :: nat where "i64_top \<equiv> 9223372036854775807"

text \<open>The checked increment of a revision or of a sequence kept in a signed column.\<close>

definition next_i64 :: "nat \<Rightarrow> nat option" where
  "next_i64 n = (if n < i64_top then Some (n + 1) else None)"

lemma next_i64_Some [simp]: "next_i64 n = Some m \<longleftrightarrow> m = n + 1 \<and> n < i64_top"
  by (auto simp: next_i64_def)

section \<open>Records\<close>

datatype run_state =
  Run_Accepted | Run_Running | Run_Completed | Run_Incomplete | Run_Cancelled | Run_Failed | Run_Interrupted

definition run_active :: "run_state \<Rightarrow> bool" where
  "run_active s \<longleftrightarrow> s = Run_Accepted \<or> s = Run_Running"

record run_record =
  rn_source_incarnation :: "uuid option"
  rn_id :: uuid
  rn_command_id :: uuid
  rn_machine_id :: uuid
  rn_principal_id :: uuid
  rn_session_id :: uuid
  rn_state :: run_state
  rn_partial_text :: rstring
  rn_tool_previews :: "tool_preview list"
  rn_reasoning_previews :: "reasoning_preview list"
  rn_terminal_reason :: "rstring option"
  rn_usage :: usage
  rn_final_checkpointed :: bool

record turn_admission =
  ta_budget :: "execution_budget option"
  ta_coordination :: "coordination_source option"
  ta_operator_name :: "rstring option"
  ta_command_id :: uuid
  ta_machine_id :: uuid
  ta_principal_id :: uuid
  ta_session_id :: uuid
  ta_expected_revision :: nat
  ta_expires_at_ms :: int
  ta_prompt :: rstring
  ta_parts :: "content_part list"

record admission =
  ad_duplicate :: bool
  ad_run :: run_record

record steering_actor =
  sa_machine_id :: uuid
  sa_principal_id :: uuid

record steering_admission =
  sg_coordination :: "coordination_source option"
  sg_receipt_id :: uuid
  sg_session_id :: uuid
  sg_run_id :: uuid
  sg_actor :: steering_actor
  sg_expected_revision :: nat
  sg_expires_at_ms :: int
  sg_text :: rstring
  sg_parts :: "content_part list"

datatype steering_rejection =
  Rej_Expired | Rej_QueueFull | Rej_Closed | Rej_Cancelled | Rej_Interrupted | Rej_RunFailed | Rej_RunCompleted

record steering_record =
  st_queued_at :: "instant option"
  st_request :: steering_admission
  st_ordinal :: nat
  st_revision :: nat
  st_status :: steering_status
  st_reason :: "steering_rejection option"
  st_canonical_index :: "nat option"

datatype event_kind =
  Ev_Accepted | Ev_Started | Ev_CanonicalCheckpoint | Ev_SteeringQueued uuid | Ev_SteeringApplied uuid |
  Ev_SteeringRejected uuid steering_rejection | Ev_TextDelta rstring | Ev_Terminal run_state

record journal_event =
  je_sequence :: nat
  je_run_id :: uuid
  je_kind :: event_kind

datatype replay = Replay_Events "journal_event list" | SnapshotRequired nat

section \<open>Goals\<close>

record goal_limits =
  gl_runs :: nat
  gl_tokens :: nat
  gl_elapsed_ms :: nat
  gl_no_progress_runs :: nat

definition goal_limits_valid :: "goal_limits \<Rightarrow> bool" where
  "goal_limits_valid l \<longleftrightarrow>
     1 \<le> gl_runs l \<and> gl_runs l \<le> 1000 \<and> 1 \<le> gl_tokens l \<and> gl_tokens l \<le> 10000000 \<and>
     1000 \<le> gl_elapsed_ms l \<and> gl_elapsed_ms l \<le> 86400000 \<and> 1 \<le> gl_no_progress_runs l \<and> gl_no_progress_runs l \<le> 10"

record goal_usage =
  gu_runs :: nat
  gu_input_tokens :: nat
  gu_output_tokens :: nat
  gu_elapsed_ms :: nat
  gu_no_progress_runs :: nat
  gu_unmeasured_runs :: nat

datatype goal_status = Goal_Active | Goal_Paused | Goal_Complete | Goal_Blocked | Goal_Limited | NeedsAttention

datatype goal_stop_reason =
  Stop_UserPaused | Stop_UserInput | Stop_RunLimit | Stop_TokenLimit | Stop_TimeLimit | Stop_NoProgress |
  Stop_Interrupted | Stop_Cancelled | Stop_AuthorityRevoked | Stop_ApprovalRequired | Stop_ProviderFailure |
  Stop_UsageUnknown | Stop_UnresolvedEffects

record goal =
  go_id :: uuid
  go_session_id :: uuid
  go_objective :: rstring
  go_status :: goal_status
  go_continuation_authorized :: bool
  go_limits :: goal_limits
  go_usage :: goal_usage
  go_created_at_ms :: nat
  go_updated_at_ms :: nat
  go_stop_reason :: "goal_stop_reason option"
  go_assessment :: "json option"

definition goal_limit_reached :: "goal \<Rightarrow> goal_stop_reason option" where
  "goal_limit_reached g =
     (let u = go_usage g; l = go_limits g in
      if gl_runs l \<le> gu_runs u then Some Stop_RunLimit
      else if gl_tokens l \<le> sat_add (gu_input_tokens u) (gu_output_tokens u) then Some Stop_TokenLimit
      else if gl_elapsed_ms l \<le> gu_elapsed_ms u then Some Stop_TimeLimit
      else if gl_no_progress_runs l \<le> gu_no_progress_runs u then Some Stop_NoProgress
      else None)"

definition valid_objective :: "rstring \<Rightarrow> bool" where
  "valid_objective t \<longleftrightarrow> trim t \<noteq> [] \<and> str_len t \<le> 8192 \<and> \<not> list_ex (\<lambda>c. is_control c \<and> c \<noteq> 10 \<and> c \<noteq> 9) t"

record goal_authority =
  ga_installation_id :: uuid
  ga_principal_id :: uuid
  ga_grant :: "(uuid \<times> uuid) option"

definition goal_authority_valid :: "goal_authority \<Rightarrow> bool" where
  "goal_authority_valid a \<longleftrightarrow>
     \<not> is_nil (ga_installation_id a) \<and> \<not> is_nil (ga_principal_id a) \<and>
     is_none_or (ga_grant a) (\<lambda>(grant_id, principal). \<not> is_nil grant_id \<and> principal = ga_principal_id a)"

record goal_snapshot =
  gs_revision :: nat
  gs_goal :: "goal option"

datatype goal_turn_state = Turn_Reserved | Turn_Settled | Turn_Abandoned

section \<open>Tables\<close>

record session_row =
  sw_revision :: nat
  sw_session :: session
  sw_next_sequence :: nat

record run_row =
  rw_session_id :: uuid
  rw_record :: run_record
  rw_active :: bool

record command_row =
  cw_digest :: rstring
  cw_run_id :: uuid

record event_row =
  ew_session_id :: uuid
  ew_sequence :: nat
  ew_event :: journal_event

record steering_row =
  sw_digest :: rstring
  sw_record :: steering_record

record cancel_intent =
  ci_session_id :: uuid
  ci_installation_id :: uuid
  ci_principal_id :: uuid
  ci_requested_at_ms :: int
  ci_expires_at_ms :: int

datatype cleanup_confirmation = Cleanup_Observed | Cleanup_Attested

record cleanup_row =
  cu_session_id :: uuid
  cu_installation_id :: uuid
  cu_principal_id :: uuid
  cu_confirmation :: "cleanup_confirmation option"

record goal_row =
  gw_snapshot :: goal_snapshot
  gw_authority :: "goal_authority option"

record goal_turn =
  gt_session_id :: uuid
  gt_goal_id :: uuid
  gt_state :: goal_turn_state

datatype resource_state = Resource_Open | CleanupUnknown | RetainedUnknown | OperatorAttested

text \<open>What the observers of a session are told.\<close>

datatype public_event =
  Message_Created uuid uuid nat rstring bool |
  Message_Finalized uuid uuid nat rstring bool |
  Tool_Activity uuid uuid "(rstring option \<times> rstring) list" nat |
  Command_Accepted uuid uuid uuid |
  Text_Piece uuid uuid nat rstring |
  Goal_Changed uuid nat "goal option"

record notice =
  no_sequence :: nat
  no_session_id :: uuid
  no_run_id :: uuid
  no_incarnation :: "uuid option"
  no_outcome :: run_state

record journal =
  jn_directory :: path
  jn_opened :: nat
  jn_schema :: nat
  jn_sessions :: "(uuid, session_row) bmap"
  jn_runs :: "(uuid, run_row) bmap"
  jn_commands :: "(uuid, command_row) bmap"
  jn_events :: "event_row list"
  jn_steering :: "(uuid, steering_row) bmap"
  jn_cancels :: "(uuid, cancel_intent) bmap"
  jn_cleanups :: "(uuid, cleanup_row) bmap"
  jn_retained :: "(uuid, cleanup_row) bmap"
  jn_resources :: "(uuid \<times> resource_state) list"
  jn_lifecycle :: "(uuid, bool \<times> bool) bmap"
  jn_assignments :: "(uuid \<times> bool) list"
  jn_assignment_cleanup :: "uuid list"
  jn_process_commands :: "uuid list"
  jn_bindings :: "(uuid \<times> string) list"
  jn_decisions :: "(uuid \<times> bool) list"
  jn_goals :: "(uuid, goal_row) bmap"
  jn_goal_turns :: "(uuid, goal_turn) bmap"
  jn_goal_requests :: "(uuid \<times> uuid) list"
  jn_goal_allocations :: "(uuid \<times> bool) list"
  jn_observing :: bool
  jn_public :: "public_event list"
  jn_notice_cursor :: nat
  jn_notices :: "notice list"

record journal_env =
  jv_snapshot_size :: "session \<Rightarrow> nat"
  jv_run_size :: "run_record \<Rightarrow> nat"
  jv_event_size :: "journal_event \<Rightarrow> nat"
  jv_steering_size :: "steering_record \<Rightarrow> nat"
  jv_digest :: "turn_admission \<Rightarrow> rstring"
  jv_steering_digest :: "steering_admission \<Rightarrow> rstring"
  jv_fingerprint :: summary_digest

record execution_guard =
  eg_incarnation :: "uuid option"
  eg_directory :: path
  eg_session_id :: uuid

type_synonym 'a tx = "(string, 'a \<times> journal) result"

section \<open>Checks\<close>

definition check_schema :: "journal \<Rightarrow> (string, unit) result" where
  "check_schema j = (if jn_schema j = jn_opened j then Inr ()
     else Inl ''journal schema changed; reopen after quiescent upgrade'')"

definition check_guard :: "journal \<Rightarrow> execution_guard \<Rightarrow> uuid \<Rightarrow> (string, unit) result" where
  "check_guard j g s =
     and_then (check_schema j) (\<lambda>_.
       if eg_directory g = jn_directory j \<and> eg_session_id g = s then Inr ()
       else Inl ''execution guard belongs to another journal or session'')"

section \<open>Sessions\<close>

text \<open>What a session row keeps: the conversation without its system messages, as it is after serialisation.\<close>

definition stored_session :: "session \<Rightarrow> session" where
  "stored_session s = s\<lparr>ss_messages := map wire (spoken (ss_messages s)), ss_loaded_from := None\<rparr>"

definition snapshot_session :: "journal_env \<Rightarrow> session \<Rightarrow> (string, session) result" where
  "snapshot_session v s =
     (let value = stored_session s in
      if jv_snapshot_size v value \<le> max_snapshot then Inr value else Inl ''session snapshot capacity reached'')"

definition read_session :: "journal_env \<Rightarrow> journal \<Rightarrow> uuid \<Rightarrow> (string, nat \<times> session) result" where
  "read_session v j i =
     (case bm_get (jn_sessions j) i of
        None \<Rightarrow> Inl ''Query returned no rows''
      | Some w \<Rightarrow>
          if max_snapshot < jv_snapshot_size v (sw_session w) then Inl ''Query returned no rows''
          else if ss_id (sw_session w) \<noteq> i then Inl ''session record identity mismatch''
          else Inr (sw_revision w, sw_session w))"

text \<open>The new revision is the one read plus one, and only if no other writer came first.\<close>

definition update_session :: "journal_env \<Rightarrow> instant \<Rightarrow> nat \<Rightarrow> session \<Rightarrow> journal \<Rightarrow> (string, journal) result" where
  "update_session v now seen s j =
     and_then (ok_or ''revision overflow'' (next_i64 seen)) (\<lambda>nxt.
     and_then (snapshot_session v (s\<lparr>ss_updated_at := now\<rparr>)) (\<lambda>value.
       case bm_get (jn_sessions j) (ss_id s) of
         Some w \<Rightarrow>
           if sw_revision w = seen
           then Inr (j\<lparr>jn_sessions := bm_update (ss_id s) (\<lambda>w. w\<lparr>sw_session := value, sw_revision := nxt\<rparr>) (jn_sessions j)\<rparr>)
           else Inl ''stale session revision''
       | None \<Rightarrow> Inl ''stale session revision''))"

section \<open>Runs and events\<close>

definition run_command :: "journal \<Rightarrow> uuid \<Rightarrow> uuid option" where
  "run_command j i = map_option fst (find (\<lambda>(_, c). cw_run_id c = i) (jn_commands j))"

definition read_run :: "journal_env \<Rightarrow> journal \<Rightarrow> uuid \<Rightarrow> (string, run_record) result" where
  "read_run v j i =
     (case (bm_get (jn_runs j) i, run_command j i) of
        (Some w, Some command) \<Rightarrow>
          let run = rw_record w in
          if max_partial * 6 + 4096 < jv_run_size v run then Inl ''Query returned no rows''
          else if \<not> (rn_id run = i \<and> rn_session_id run = rw_session_id w \<and> rn_command_id run = command)
          then Inl ''run record identity mismatch''
          else if is_nil (rn_machine_id run) \<or> is_nil (rn_principal_id run) then Inl ''invalid stored run authority''
          else if rw_active w \<noteq> run_active (rn_state run) then Inl ''inconsistent stored run lifecycle''
          else if max_partial < str_len (rn_partial_text run) then Inl ''stored partial output capacity exceeded''
          else Inr run
      | _ \<Rightarrow> Inl ''Query returned no rows'')"

definition write_run :: "run_record \<Rightarrow> journal \<Rightarrow> journal" where
  "write_run run j = j\<lparr>jn_runs := bm_update (rn_id run) (\<lambda>w. w\<lparr>rw_record := run\<rparr>) (jn_runs j)\<rparr>"

text \<open>An event takes the next sequence of its session; older events than the limit are dropped.\<close>

definition event_at :: "uuid \<Rightarrow> nat \<Rightarrow> event_row list \<Rightarrow> bool" where
  "event_at s n E \<longleftrightarrow> list_ex (\<lambda>e. ew_session_id e = s \<and> ew_sequence e = n) E"

definition event_row_of :: "run_record \<Rightarrow> nat \<Rightarrow> event_kind \<Rightarrow> event_row" where
  "event_row_of run n kind =
     \<lparr>ew_session_id = rn_session_id run, ew_sequence = n,
      ew_event = \<lparr>je_sequence = n, je_run_id = rn_id run, je_kind = kind\<rparr>\<rparr>"

definition prune_events :: "uuid \<Rightarrow> nat \<Rightarrow> event_row list \<Rightarrow> event_row list" where
  "prune_events s n E = filter (\<lambda>e. \<not> (ew_session_id e = s \<and> ew_sequence e \<le> n)) E"

definition append_event :: "run_record \<Rightarrow> event_kind \<Rightarrow> journal \<Rightarrow> nat tx" where
  "append_event run kind j =
     (case bm_get (jn_sessions j) (rn_session_id run) of
        None \<Rightarrow> Inl ''Query returned no rows''
      | Some w \<Rightarrow>
          let s = rn_session_id run; n = sw_next_sequence w in
          if n = 0 then Inl ''invalid event sequence''
          else and_then (ok_or ''event sequence overflow'' (next_i64 n)) (\<lambda>nxt.
            if event_at s n (jn_events j) then Inl ''UNIQUE constraint failed: events.session_id, events.sequence''
            else Inr (n, j\<lparr>jn_events := prune_events s (n - replay_limit) (jn_events j @ [event_row_of run n kind]),
                           jn_sessions := bm_update s (\<lambda>w. w\<lparr>sw_next_sequence := nxt\<rparr>) (jn_sessions j)\<rparr>)))"

section \<open>Replay\<close>

definition session_events :: "journal \<Rightarrow> uuid \<Rightarrow> event_row list" where
  "session_events j s = filter (\<lambda>e. ew_session_id e = s) (jn_events j)"

fun replay_walk :: "journal_env \<Rightarrow> journal \<Rightarrow> uuid \<Rightarrow> nat \<Rightarrow> nat \<Rightarrow> event_row list \<Rightarrow> journal_event list \<Rightarrow>
    (string, replay) result" where
  "replay_walk v j s latest previous [] events =
     (if previous \<noteq> latest then Inr (SnapshotRequired latest) else Inr (Replay_Events events))"
| "replay_walk v j s latest previous (e # rows) events =
     (if max_prompt * 6 + 4096 < jv_event_size v (ew_event e) then Inl ''stored replay event capacity exceeded''
      else if \<not> (0 < ew_sequence e \<and> je_sequence (ew_event e) = ew_sequence e)
      then Inl ''stored replay event identity mismatch''
      else if \<not> is_some_and (bm_get (jn_runs j) (je_run_id (ew_event e))) (\<lambda>w. rw_session_id w = s)
      then Inl ''stored replay event belongs to another session''
      else if ew_sequence e \<noteq> previous + 1 then Inr (SnapshotRequired latest)
      else replay_walk v j s latest (ew_sequence e) rows (events @ [ew_event e]))"

definition replay_events :: "journal_env \<Rightarrow> journal \<Rightarrow> uuid \<Rightarrow> nat \<Rightarrow> (string, replay) result" where
  "replay_events v j s after =
     (if i64_top < after then Inl ''event cursor overflow''
      else case bm_get (jn_sessions j) s of
        None \<Rightarrow> Inl ''Query returned no rows''
      | Some w \<Rightarrow>
          let latest = sw_next_sequence w - 1; rows = session_events j s in
          if latest < after then Inl ''event cursor is ahead of journal''
          else if (rows \<noteq> [] \<and> after + 1 < Min (set (map ew_sequence rows))) \<or> (rows = [] \<and> after < latest)
          then Inr (SnapshotRequired latest)
          else replay_walk v j s latest after
            (take replay_limit (sort_key ew_sequence (filter (\<lambda>e. after < ew_sequence e) rows))) [])"

section \<open>Observers\<close>

definition publish :: "public_event list \<Rightarrow> journal \<Rightarrow> journal" where
  "publish events j = (if jn_observing j then j\<lparr>jn_public := jn_public j @ events\<rparr> else j)"

definition append_public_message_created :: "run_record \<Rightarrow> nat \<Rightarrow> message \<Rightarrow> journal \<Rightarrow> journal" where
  "append_public_message_created run i m =
     (let (content, truncated) = text_prefix (m_content m) 4096 in
      publish [Message_Created (rn_session_id run) (rn_id run) i content (truncated \<or> m_parts m \<noteq> [])])"

text \<open>What a tool answered is never shown.\<close>

definition append_public_message :: "run_record \<Rightarrow> nat \<Rightarrow> message \<Rightarrow> journal \<Rightarrow> journal" where
  "append_public_message run i m =
     (let (content, truncated) = (if m_role m \<noteq> Tool then text_prefix (m_content m) 4096 else ([], m_content m \<noteq> [])) in
      publish [Message_Finalized (rn_session_id run) (rn_id run) i content
        (truncated \<or> m_tool_calls m \<noteq> [] \<or> m_tool_output m \<noteq> None)])"

definition append_public_tool_activity :: "run_record \<Rightarrow> journal \<Rightarrow> journal" where
  "append_public_tool_activity run =
     publish [Tool_Activity (rn_session_id run) (rn_id run)
       (map (\<lambda>p. (tp_call_id p, tp_name p)) (take 32 (rn_tool_previews run))) (length (rn_tool_previews run))]"

definition append_public_run_command :: "run_record \<Rightarrow> journal \<Rightarrow> journal" where
  "append_public_run_command run = publish [Command_Accepted (rn_session_id run) (rn_id run) (rn_command_id run)]"

definition append_public_text :: "run_record \<Rightarrow> nat \<Rightarrow> rstring \<Rightarrow> journal \<Rightarrow> (string, journal) result" where
  "append_public_text run offset delta j =
     (if \<not> jn_observing j then Inr j
      else and_then (text_chunks 4096 offset delta) (\<lambda>pieces.
        Inr (publish (map (\<lambda>(at, t). Text_Piece (rn_session_id run) (rn_id run) at t) pieces) j)))"

text \<open>The ring of notices: a terminal run takes the next of 256 slots.\<close>

definition append_notice :: "run_record \<Rightarrow> journal \<Rightarrow> (string, journal) result" where
  "append_notice run j =
     and_then (ok_or ''notification sequence exhausted'' (next_i64 (jn_notice_cursor j))) (\<lambda>n.
       if run_active (rn_state run) then Inl ''nonterminal notification''
       else if \<not> (n - 1) mod 256 < length (jn_notices j) then Inl ''reserved notification slot missing''
       else Inr (j\<lparr>jn_notices := (jn_notices j)[(n - 1) mod 256 := \<lparr>no_sequence = n, no_session_id = rn_session_id run,
              no_run_id = rn_id run, no_incarnation = rn_source_incarnation run, no_outcome = rn_state run\<rparr>],
            jn_notice_cursor := n\<rparr>))"

section \<open>Opening and creating\<close>

definition empty_notice :: notice where
  "empty_notice = \<lparr>no_sequence = 0, no_session_id = 0, no_run_id = 0, no_incarnation = None, no_outcome = Run_Interrupted\<rparr>"

text \<open>A database made by this version.\<close>

definition journal_created :: "path \<Rightarrow> journal" where
  "journal_created directory =
     \<lparr>jn_directory = directory, jn_opened = schema_version, jn_schema = schema_version, jn_sessions = [], jn_runs = [],
      jn_commands = [], jn_events = [], jn_steering = [], jn_cancels = [], jn_cleanups = [], jn_retained = [],
      jn_resources = [], jn_lifecycle = [], jn_assignments = [], jn_assignment_cleanup = [], jn_process_commands = [],
      jn_bindings = [], jn_decisions = [], jn_goals = [], jn_goal_turns = [], jn_goal_requests = [],
      jn_goal_allocations = [], jn_observing = False, jn_public = [], jn_notice_cursor = 0,
      jn_notices = replicate 256 empty_notice\<rparr>"

definition receipts_of :: "session \<Rightarrow> uuid list" where
  "receipts_of s = List.map_filter (\<lambda>m. map_option sr_id (m_steering m)) (ss_messages s)"

definition validate_snapshot_ids :: "journal \<Rightarrow> session \<Rightarrow> (string, unit) result" where
  "validate_snapshot_ids j s =
     (if list_ex (bm_contains (jn_commands j)) (receipts_of s) then Inl ''historical receipt collides with turn command''
      else Inr ())"

definition create_session :: "journal_env \<Rightarrow> session \<Rightarrow> journal \<Rightarrow> (string, journal) result" where
  "create_session v s j =
     and_then (check_schema j) (\<lambda>_.
       if is_nil (ss_id s) then Inl ''nil session identity''
       else if jn_opened j \<noteq> schema_version \<and> list_ex (\<lambda>m. m_tool_outcome m \<noteq> None) (ss_messages s)
       then Inl ''outcome metadata requires an explicit quiescent journal upgrade''
       else and_then (snapshot_session v s) (\<lambda>value.
         and_then (if steering_schema_version \<le> jn_opened j then validate_snapshot_ids j s else Inr ()) (\<lambda>_.
           if max_sessions \<le> length (jn_sessions j) then Inl ''attachment session capacity reached''
           else if bm_contains (jn_sessions j) (ss_id s) then Inl ''UNIQUE constraint failed: sessions.id''
           else Inr (j\<lparr>jn_sessions := bm_insert (ss_id s)
             \<lparr>sw_revision = 0, sw_session = value, sw_next_sequence = 1\<rparr> (jn_sessions j)\<rparr>))))"

end
