(* ===== verification/Journal_Steering.thy ===== *)
theory Journal_Steering
  imports Journal
begin

text \<open>
  Steering of an active run (\<open>voyage/src/attachment/journal/steering.rs\<close>): receipts queued for a run, applied in
  order by a checkpoint, or settled as not applied. The goal of a session and the gates of admission
  (\<open>journal/goals.rs\<close>, \<open>goals/scheduling.rs\<close>, \<open>journal/catalogue.rs\<close>, \<open>journal/lifecycle.rs\<close>) are here because both
  admissions pass them.
\<close>

section \<open>Gates\<close>

definition process_receipt_exists :: "journal \<Rightarrow> uuid \<Rightarrow> bool" where
  "process_receipt_exists j i \<longleftrightarrow> i \<in> set (jn_process_commands j)"

definition ensure_admissible :: "journal \<Rightarrow> uuid \<Rightarrow> (string, unit) result" where
  "ensure_admissible j s =
     (if list_ex (\<lambda>(owner, state). owner = s \<and> state = CleanupUnknown) (jn_resources j)
      then Inl ''session resource cleanup unknown''
      else if is_some_and (bm_get (jn_lifecycle j) s) (\<lambda>(archived, deleted). archived \<or> deleted)
      then Inl ''session is archived or deleted'' else Inr ())"

definition pending_assignments :: "journal \<Rightarrow> uuid \<Rightarrow> nat" where
  "pending_assignments j run = length (filter (\<lambda>(r, cleanup). r = run \<and> \<not> cleanup) (jn_assignments j))"

text \<open>The binding of a run, without its text and history.\<close>

record target =
  tg_session_id :: uuid
  tg_installation_id :: uuid
  tg_principal_id :: uuid
  tg_state :: run_state

definition run_target :: "journal_env \<Rightarrow> journal \<Rightarrow> uuid \<Rightarrow> (string, target) result" where
  "run_target v j i =
     (case (bm_get (jn_runs j) i, run_command j i) of
        (Some w, Some command) \<Rightarrow>
          let run = rw_record w in
          if max_partial * 6 + 4096 < jv_run_size v run then Inl ''Query returned no rows''
          else if \<not> (rn_id run = i \<and> rn_session_id run = rw_session_id w \<and> rn_command_id run = command \<and>
              \<not> is_nil (rn_machine_id run) \<and> \<not> is_nil (rn_principal_id run)) then Inl ''invalid run binding''
          else if rw_active w \<noteq> run_active (rn_state run) then Inl ''invalid run activity''
          else Inr \<lparr>tg_session_id = rn_session_id run, tg_installation_id = rn_machine_id run,
            tg_principal_id = rn_principal_id run, tg_state = rn_state run\<rparr>
      | _ \<Rightarrow> Inl ''Query returned no rows'')"

definition cancel_requested :: "journal \<Rightarrow> uuid \<Rightarrow> target \<Rightarrow> (string, bool) result" where
  "cancel_requested j i t =
     (case bm_get (jn_cancels j) i of
        None \<Rightarrow> Inr False
      | Some c \<Rightarrow>
          if ci_session_id c = tg_session_id t \<and> ci_installation_id c = tg_installation_id t \<and>
             ci_principal_id c = tg_principal_id t \<and> 0 \<le> ci_requested_at_ms c \<and>
             ci_requested_at_ms c < ci_expires_at_ms c \<and> ci_expires_at_ms c - ci_requested_at_ms c \<le> 300000
          then Inr True else Inl ''invalid cancellation binding'')"

definition cancel_pending :: "journal_env \<Rightarrow> journal \<Rightarrow> uuid \<Rightarrow> uuid \<Rightarrow> (string, bool) result" where
  "cancel_pending v j s i =
     and_then (run_target v j i) (\<lambda>t.
       if tg_session_id t \<noteq> s then Inl ''cancellation session mismatch'' else cancel_requested j i t)"

text \<open>The obligation to clean up after a run, or the one retained for a moved session.\<close>

definition cleanup_confirmation_of :: "journal \<Rightarrow> uuid \<Rightarrow> target \<Rightarrow> (string, cleanup_confirmation option option) result" where
  "cleanup_confirmation_of j i t =
     (case (case bm_get (jn_cleanups j) i of Some c \<Rightarrow> Some c | None \<Rightarrow> bm_get (jn_retained j) i) of
        None \<Rightarrow> Inr None
      | Some c \<Rightarrow>
          if cu_session_id c = tg_session_id t \<and> cu_installation_id c = tg_installation_id t \<and>
             cu_principal_id c = tg_principal_id t
          then Inr (Some (cu_confirmation c)) else Inl ''invalid cleanup binding'')"

definition pending_cleanup :: "journal_env \<Rightarrow> journal \<Rightarrow> uuid \<Rightarrow> (string, uuid option) result" where
  "pending_cleanup v j s =
     (case find (\<lambda>(_, c). cu_session_id c = s \<and> cu_confirmation c = None) (jn_cleanups j) of
        None \<Rightarrow> Inr None
      | Some (i, _) \<Rightarrow>
          and_then (run_target v j i) (\<lambda>t.
          and_then (cleanup_confirmation_of j i t) (\<lambda>c.
            if tg_session_id t = s \<and> c = Some None then Inr (Some i) else Inl ''invalid pending cleanup'')))"

section \<open>Goals\<close>

definition goal_of :: "journal \<Rightarrow> uuid \<Rightarrow> (string, goal_snapshot) result" where
  "goal_of j s =
     (case bm_get (jn_goals j) s of
        None \<Rightarrow> Inr \<lparr>gs_revision = 0, gs_goal = None\<rparr>
      | Some w \<Rightarrow>
          if is_none_or (gs_goal (gw_snapshot w)) (\<lambda>g. go_session_id g = s) then Inr (gw_snapshot w)
          else Inl ''goal session mismatch'')"

definition persist_goal :: "uuid \<Rightarrow> goal_snapshot \<Rightarrow> goal_authority option \<Rightarrow> journal \<Rightarrow> (string, journal) result" where
  "persist_goal s gs authority j =
     (if i64_top < gs_revision gs then Inl ''out of range integral type conversion attempted''
      else if \<not> bm_contains (jn_sessions j) s then Inl ''FOREIGN KEY constraint failed''
      else Inr (publish [Goal_Changed s (gs_revision gs) (gs_goal gs)]
        (j\<lparr>jn_goals := bm_insert s \<lparr>gw_snapshot = gs, gw_authority = authority\<rparr> (jn_goals j)\<rparr>)))"

definition stop_status :: "goal_stop_reason \<Rightarrow> goal_status" where
  "stop_status r = (if r \<in> {Stop_RunLimit, Stop_TokenLimit, Stop_TimeLimit, Stop_NoProgress} then Goal_Limited
     else NeedsAttention)"

text \<open>Continuation stops; usage and the current run are untouched.\<close>

definition stop_continuation :: "uuid \<Rightarrow> goal_stop_reason \<Rightarrow> int \<Rightarrow> journal \<Rightarrow> (string, journal) result" where
  "stop_continuation s reason now j =
     and_then (goal_of j s) (\<lambda>gs.
       case gs_goal gs of
         None \<Rightarrow> Inr j
       | Some g \<Rightarrow>
           if go_status g \<noteq> Goal_Active then Inr j
           else if now < 0 then Inl ''out of range integral type conversion attempted''
           else
             let g = g\<lparr>go_status := stop_status reason, go_continuation_authorized := False,
                   go_stop_reason := Some reason, go_updated_at_ms := max (go_updated_at_ms g) (nat now)\<rparr> in
             and_then (ok_or ''Goal revision overflow'' (checked_add_u64 (gs_revision gs) 1)) (\<lambda>revision.
               persist_goal s \<lparr>gs_revision = revision, gs_goal = Some g\<rparr> None j))"

definition confirmed_observed :: "uuid \<Rightarrow> (uuid, cleanup_row) bmap \<Rightarrow> bool" where
  "confirmed_observed s rows \<longleftrightarrow>
     list_all (\<lambda>(_, c). cu_session_id c = s \<longrightarrow> cu_confirmation c = Some Cleanup_Observed) rows"

definition run_in_session :: "journal \<Rightarrow> uuid \<Rightarrow> uuid \<Rightarrow> bool" where
  "run_in_session j s run \<longleftrightarrow> is_some_and (bm_get (jn_runs j) run) (\<lambda>w. rw_session_id w = s)"

definition cleanup_ready :: "journal \<Rightarrow> uuid \<Rightarrow> bool" where
  "cleanup_ready j s \<longleftrightarrow>
     list_all (\<lambda>(request, observed). \<not> observed \<longrightarrow>
       \<not> is_some_and (map_of (jn_goal_requests j) request) (\<lambda>command.
           is_some_and (bm_get (jn_commands j) command) (\<lambda>c. run_in_session j s (cw_run_id c)))) (jn_goal_allocations j) \<and>
     confirmed_observed s (jn_cleanups j) \<and>
     list_all (\<lambda>(owner, state). owner = s \<longrightarrow> state = Resource_Open) (jn_resources j) \<and>
     confirmed_observed s (jn_retained j)"

definition input_operations :: "string list" where
  "input_operations = [''submit'', ''submit_content'', ''workflow_submit'', ''operator_tool'', ''execute_tool'', ''steer'', ''cancel'']"

definition goal_obstruction :: "journal_env \<Rightarrow> journal \<Rightarrow> uuid \<Rightarrow> (string, goal_stop_reason option) result" where
  "goal_obstruction v j s =
     (if list_ex (\<lambda>(i, operation). List.member input_operations operation \<and> \<not> bm_contains (jn_commands j) i \<and>
          \<not> bm_contains (jn_steering j) i \<and> \<not> process_receipt_exists j i \<and> \<not> bm_contains (jn_goal_turns j) i) (jn_bindings j)
      then Inr (Some Stop_UserInput)
      else if list_ex (\<lambda>(run, answered). run_in_session j s run \<and> \<not> answered) (jn_decisions j)
      then Inr (Some Stop_ApprovalRequired)
      else if \<not> cleanup_ready j s then Inr (Some Stop_UnresolvedEffects)
      else and_then (read_session v j s) (\<lambda>(_, current).
        if has_pending_tools (ss_messages current) then Inr (Some Stop_UnresolvedEffects) else Inr None))"

text \<open>A turn reserved by the scheduler needs the authority it was reserved under; any other input stops the goal.\<close>

definition admit_goal :: "journal_env \<Rightarrow> turn_admission \<Rightarrow> int \<Rightarrow> journal \<Rightarrow> (string, journal) result" where
  "admit_goal v r now j =
     and_then (goal_of j (ta_session_id r)) (\<lambda>gs.
       case gs_goal gs of
         None \<Rightarrow> Inr j
       | Some g \<Rightarrow>
           (case bm_get (jn_goal_turns j) (ta_command_id r) of
              Some t \<Rightarrow>
                if gt_session_id t = ta_session_id r \<and> gt_state t = Turn_Reserved then
                  if \<not> (go_id g = gt_goal_id t \<and> go_status g = Goal_Active \<and> go_continuation_authorized g)
                  then Inl ''Goal continuation is no longer authorized''
                  else and_then (goal_obstruction v j (ta_session_id r)) (\<lambda>obstruction.
                    if obstruction \<noteq> None then Inl ''Goal continuation blocked by pending input or effects''
                    else case Option.bind (bm_get (jn_goals j) (ta_session_id r)) gw_authority of
                      None \<Rightarrow> Inl ''Invalid column type''
                    | Some a \<Rightarrow>
                        if ga_installation_id a = ta_machine_id r \<and> ga_principal_id a = ta_principal_id r then Inr j
                        else Inl ''Goal continuation actor changed'')
                else stop_continuation (ta_session_id r) Stop_UserInput now j
            | None \<Rightarrow> stop_continuation (ta_session_id r) Stop_UserInput now j))"

section \<open>Steering receipts\<close>

text \<open>Delivery and verification build the same message, whatever time passed between them.\<close>

definition steering_message :: "steering_status \<Rightarrow> steering_record \<Rightarrow> message" where
  "steering_message status r =
     (message_new User (sg_text (st_request r)) 0)
       \<lparr>m_parts := sg_parts (st_request r), m_coordination := sg_coordination (st_request r),
        m_created_at := st_queued_at r,
        m_steering := Some \<lparr>sr_id = sg_receipt_id (st_request r), sr_status = status\<rparr>\<rparr>"

definition applied_message :: "steering_record \<Rightarrow> message" where
  "applied_message r = steering_message Applied r"

definition queued_message :: "steering_record \<Rightarrow> message" where
  "queued_message r = steering_message steering_status.Queued r"

definition validate_steering :: "steering_admission \<Rightarrow> (string, unit) result" where
  "validate_steering q =
     (if \<not> is_none_or (sg_coordination q) (coordination_valid (sg_receipt_id q)) then Inl ''invalid coordination source''
      else if is_nil (sg_receipt_id q) \<or> is_nil (sg_session_id q) \<or> is_nil (sg_run_id q) \<or>
          is_nil (sa_machine_id (sg_actor q)) \<or> is_nil (sa_principal_id (sg_actor q)) then Inl ''nil steering identity''
      else if \<not> ((trim (sg_text q) \<noteq> [] \<or> sg_parts q \<noteq> []) \<and> str_len (sg_text q) \<le> max_steering_bytes)
      then Inl ''invalid steering size''
      else if sg_parts q \<noteq> [] then
        (case validate_parts (sg_parts q) of
           Inl _ \<Rightarrow> Inl ''invalid content''
         | Inr _ \<Rightarrow> if parts_text (sg_parts q) = sg_text q then Inr () else Inl ''steering text/content mismatch'')
      else Inr ())"

definition steering_transition_ok :: "steering_record \<Rightarrow> bool" where
  "steering_transition_ok r \<longleftrightarrow>
     (case st_status r of
        steering_status.Queued \<Rightarrow> st_reason r = None \<and> st_canonical_index r = None
      | Applied \<Rightarrow> st_reason r = None \<and> st_canonical_index r \<noteq> None
      | NotApplied \<Rightarrow> st_reason r \<noteq> None \<and> st_canonical_index r = None
      | UnknownAfterRestart \<Rightarrow> False)"

definition read_steering :: "journal_env \<Rightarrow> journal \<Rightarrow> uuid \<Rightarrow> (string, steering_record) result" where
  "read_steering v j i =
     (case bm_get (jn_steering j) i of
        None \<Rightarrow> Inl ''Query returned no rows''
      | Some w \<Rightarrow>
          let r = sw_record w in
          if max_steering_bytes * 6 + 4096 < jv_steering_size v r then Inl ''stored steering capacity exceeded''
          else and_then (validate_steering (st_request r)) (\<lambda>_.
            if \<not> (sg_receipt_id (st_request r) = i \<and> 0 < st_ordinal r \<and> st_ordinal r \<le> i64_top \<and> 0 < st_revision r \<and>
                st_status r \<noteq> UnknownAfterRestart \<and> sw_digest w = jv_steering_digest v (st_request r))
            then Inl ''corrupt steering evidence''
            else if \<not> steering_transition_ok r then Inl ''corrupt steering transition''
            else Inr r))"

definition write_steering :: "steering_record \<Rightarrow> journal \<Rightarrow> (string, journal) result" where
  "write_steering r j =
     (if st_status r = UnknownAfterRestart then Inl ''invalid journal steering status''
      else if \<not> bm_contains (jn_steering j) (sg_receipt_id (st_request r)) then Inl ''missing steering receipt''
      else Inr (j\<lparr>jn_steering := bm_update (sg_receipt_id (st_request r)) (\<lambda>w. w\<lparr>sw_record := r\<rparr>) (jn_steering j)\<rparr>))"

definition receipt_exists :: "journal \<Rightarrow> uuid \<Rightarrow> bool" where
  "receipt_exists j i \<longleftrightarrow> bm_contains (jn_steering j) i"

definition historical_receipt_exists :: "journal \<Rightarrow> uuid \<Rightarrow> bool" where
  "historical_receipt_exists j i \<longleftrightarrow> list_ex (\<lambda>(_, w). i \<in> set (receipts_of (sw_session w))) (jn_sessions j)"

definition reserved_receipt_exists :: "journal \<Rightarrow> uuid \<Rightarrow> bool" where
  "reserved_receipt_exists j i \<longleftrightarrow> receipt_exists j i \<or> historical_receipt_exists j i"

definition run_steering :: "journal \<Rightarrow> uuid \<Rightarrow> steering_record list" where
  "run_steering j run = filter (\<lambda>r. sg_run_id (st_request r) = run) (map (\<lambda>(_, w). sw_record w) (jn_steering j))"

definition queued_steering :: "journal \<Rightarrow> uuid \<Rightarrow> uuid list" where
  "queued_steering j run =
     map (\<lambda>r. sg_receipt_id (st_request r))
       (sort_key st_ordinal (filter (\<lambda>r. st_status r = steering_status.Queued) (run_steering j run)))"

text \<open>A deadline lies in the future, and at most five minutes ahead.\<close>

definition deadline_ok :: "int \<Rightarrow> int \<Rightarrow> (string, bool) result" where
  "deadline_ok now expires =
     (if \<not> (0 \<le> now \<and> now < expires) then Inr False
      else and_then (ok_or ''clock overflow'' (checked_add_i64 now 300000)) (\<lambda>limit. Inr (expires \<le> limit)))"

text \<open>The latest moment a \<open>DateTime<Utc>\<close> of chrono holds, in milliseconds; \<open>deadline_ok\<close> excludes negative ones.\<close>

definition latest_timestamp :: int where "latest_timestamp = 8210266876799999"

record steering_outcome =
  so_duplicate :: bool
  so_record :: steering_record

definition queue_steering :: "journal_env \<Rightarrow> instant \<Rightarrow> execution_guard \<Rightarrow> steering_admission \<Rightarrow> int \<Rightarrow> journal \<Rightarrow>
    steering_outcome tx" where
  "queue_steering v clock g q now j =
     and_then (check_guard j g (sg_session_id q)) (\<lambda>_.
       if jn_opened j < steering_schema_version then Inl ''steering requires quiescent journal upgrade''
       else and_then (validate_steering q) (\<lambda>_.
         if process_receipt_exists j (sg_receipt_id q) then Inl ''steering command collides with process command''
         else if bm_contains (jn_commands j) (sg_receipt_id q) then Inl ''receipt identity collides with a command''
         else if receipt_exists j (sg_receipt_id q) then
           and_then (read_steering v j (sg_receipt_id q)) (\<lambda>r.
             if st_request r = q then Inr (\<lparr>so_duplicate = True, so_record = r\<rparr>, j)
             else Inl ''steering identity reused with changed payload or authority'')
         else if historical_receipt_exists j (sg_receipt_id q)
         then Inl ''steering identity collides with historical receipt''
         else and_then (deadline_ok now (sg_expires_at_ms q)) (\<lambda>timely.
           if \<not> timely then Inl ''steering expired or deadline invalid''
           else and_then (read_run v j (sg_run_id q)) (\<lambda>run.
             if \<not> (rn_session_id run = sg_session_id q \<and> run_active (rn_state run))
             then Inl ''steering requires active matching run''
             else and_then (read_session v j (sg_session_id q)) (\<lambda>(seen, current).
               let total = length (run_steering j (rn_id run)); pending = length (queued_steering j (rn_id run)) in
               if seen < sg_expected_revision q then Inl ''steering observation is ahead of current session revision''
               else if \<not> (total < max_steering_per_run \<and> pending < max_pending_steering)
               then Inl ''steering queue/evidence capacity reached''
               else if max_commands \<le> length (jn_steering j) then Inl ''steering evidence capacity reached''
               else if latest_timestamp < now then Inl ''steering admission timestamp out of range''
               else and_then (ok_or ''revision overflow'' (checked_add_u64 seen 1)) (\<lambda>revision.
                 let r = \<lparr>st_queued_at = Some now, st_request = q, st_ordinal = total + 1, st_revision = revision,
                       st_status = steering_status.Queued, st_reason = None, st_canonical_index = None\<rparr> in
                 if list_ex (\<lambda>other. st_ordinal other = total + 1) (run_steering j (rn_id run))
                 then Inl ''UNIQUE constraint failed: steering.run_id, steering.ordinal''
                 else
                   let j = j\<lparr>jn_steering := bm_insert (sg_receipt_id q)
                         \<lparr>sw_digest = jv_steering_digest v q, sw_record = r\<rparr> (jn_steering j)\<rparr> in
                   and_then (update_session v clock seen (request_title (sg_receipt_id q) current) j) (\<lambda>j.
                   and_then (stop_continuation (sg_session_id q) Stop_UserInput now j) (\<lambda>j.
                   and_then (append_event run (Ev_SteeringQueued (sg_receipt_id q)) j) (\<lambda>(_, j).
                     Inr (\<lparr>so_duplicate = False, so_record = r\<rparr>, j))))))))))"

definition reject_steering :: "journal_env \<Rightarrow> instant \<Rightarrow> execution_guard \<Rightarrow> uuid \<Rightarrow> uuid \<Rightarrow> steering_rejection \<Rightarrow> journal \<Rightarrow>
    steering_record tx" where
  "reject_steering v clock g run_id i reason j =
     and_then (read_run v j run_id) (\<lambda>run.
     and_then (check_guard j g (rn_session_id run)) (\<lambda>_.
       if jn_opened j < steering_schema_version then Inl ''steering requires quiescent journal upgrade''
       else and_then (read_steering v j i) (\<lambda>r.
         if \<not> (sg_run_id (st_request r) = run_id \<and> sg_session_id (st_request r) = rn_session_id run)
         then Inl ''receipt belongs to another run''
         else if st_status r = NotApplied then
           (if st_reason r = Some reason then Inr (r, j) else Inl ''rejection outcome is immutable'')
         else if \<not> (st_status r = steering_status.Queued \<and> run_active (rn_state run)) then Inl ''receipt cannot be rejected''
         else and_then (read_session v j (rn_session_id run)) (\<lambda>(seen, current).
           and_then (ok_or ''revision overflow'' (checked_add_u64 seen 1)) (\<lambda>revision.
             let r = r\<lparr>st_status := NotApplied, st_reason := Some reason, st_revision := revision\<rparr> in
             and_then (write_steering r j) (\<lambda>j.
             and_then (update_session v clock seen current j) (\<lambda>j.
             and_then (append_event run (Ev_SteeringRejected i reason) j) (\<lambda>(_, j). Inr (r, j)))))))))"

text \<open>
  The messages a checkpoint appends: a steering message must be the first one queued, unchanged; one that
  has expired is settled and left out, if the caller allows it.
\<close>

fun apply_steering :: "journal_env \<Rightarrow> run_record \<Rightarrow> message list \<Rightarrow> nat \<Rightarrow> nat \<Rightarrow> int \<Rightarrow> bool \<Rightarrow> message list \<Rightarrow> journal \<Rightarrow>
    message list tx" where
  "apply_steering v run [] offset revision now reject accepted j = Inr (accepted, j)"
| "apply_steering v run (m # ms) offset revision now reject accepted j =
     (case m_steering m of
        None \<Rightarrow> apply_steering v run ms offset revision now reject (accepted @ [m]) j
      | Some receipt \<Rightarrow>
          and_then (read_steering v j (sr_id receipt)) (\<lambda>r.
            if \<not> (sg_run_id (st_request r) = rn_id run \<and> sg_session_id (st_request r) = rn_session_id run \<and>
                st_status r = steering_status.Queued) then Inl ''unknown, stale or duplicate steering receipt''
            else if wire m \<noteq> wire (applied_message r) then Inl ''steering canonical message changed''
            else if \<not> (queued_steering j (rn_id run) \<noteq> [] \<and> hd (queued_steering j (rn_id run)) = sr_id receipt)
            then Inl ''steering applied out of FIFO order''
            else if sg_expires_at_ms (st_request r) \<le> now then
              (if \<not> reject then Inl ''steering expired before application''
               else and_then (write_steering (r\<lparr>st_status := NotApplied, st_reason := Some Rej_Expired,
                     st_revision := revision\<rparr>) j) (\<lambda>j.
                 and_then (append_event run (Ev_SteeringRejected (sr_id receipt) Rej_Expired) j) (\<lambda>(_, j).
                   apply_steering v run ms offset revision now reject accepted j)))
            else and_then (ok_or ''canonical index overflow'' (checked_add_u64 offset (length accepted))) (\<lambda>i.
              and_then (write_steering (r\<lparr>st_status := Applied, st_canonical_index := Some i, st_revision := revision\<rparr>) j) (\<lambda>j.
              and_then (append_event run (Ev_SteeringApplied (sr_id receipt)) j) (\<lambda>(_, j).
                apply_steering v run ms offset revision now reject (accepted @ [m]) j)))))"

definition apply_receipts :: "journal_env \<Rightarrow> run_record \<Rightarrow> message list \<Rightarrow> nat \<Rightarrow> nat \<Rightarrow> int \<Rightarrow> bool \<Rightarrow> journal \<Rightarrow>
    message list tx" where
  "apply_receipts v run ms offset revision now reject j =
     (if now < 0 then Inl ''invalid steering application clock''
      else apply_steering v run ms offset revision now reject [] j)"

definition ensure_no_pending :: "journal \<Rightarrow> uuid \<Rightarrow> (string, unit) result" where
  "ensure_no_pending j run =
     (if queued_steering j run = [] then Inr () else Inl ''cannot accept completion with unapplied steering'')"

definition settle_reason :: "run_state \<Rightarrow> steering_rejection" where
  "settle_reason s = (case s of Run_Cancelled \<Rightarrow> Rej_Cancelled | Run_Interrupted \<Rightarrow> Rej_Interrupted |
     Run_Completed \<Rightarrow> Rej_RunCompleted | Run_Incomplete \<Rightarrow> Rej_RunCompleted | _ \<Rightarrow> Rej_RunFailed)"

fun settle_all :: "journal_env \<Rightarrow> run_record \<Rightarrow> steering_rejection \<Rightarrow> nat \<Rightarrow> uuid list \<Rightarrow> journal \<Rightarrow> (string, journal) result" where
  "settle_all v run reason revision [] j = Inr j"
| "settle_all v run reason revision (i # is) j =
     and_then (read_steering v j i) (\<lambda>r.
     and_then (write_steering (r\<lparr>st_status := NotApplied, st_reason := Some reason, st_revision := revision\<rparr>) j) (\<lambda>j.
     and_then (append_event run (Ev_SteeringRejected i reason) j) (\<lambda>(_, j).
       settle_all v run reason revision is j)))"

definition settle_steering :: "journal_env \<Rightarrow> run_record \<Rightarrow> run_state \<Rightarrow> nat \<Rightarrow> journal \<Rightarrow> (string, journal) result" where
  "settle_steering v run state revision j =
     settle_all v run (settle_reason state) revision (queued_steering j (rn_id run)) j"

end
