(* ===== verification/Journal_Runs.thy ===== *)
theory Journal_Runs
  imports Journal_Steering
begin

text \<open>
  The operations on runs (\<open>voyage/src/attachment/journal.rs\<close>, \<open>journal/provider_attempt.rs\<close>,
  \<open>journal/catalogue.rs\<close>): admission of a turn, dispatch, partial output, checkpoints, acceptance, the
  terminal outcome with its recovery, requests to cancel and obligations to clean up. A new identifier
  and the readings of the clock are arguments. A journal opened at an older schema is not upgraded here.
\<close>

section \<open>Admission\<close>

definition require_content_schema :: "execution_guard \<Rightarrow> journal \<Rightarrow> (string, unit) result" where
  "require_content_schema g j =
     and_then (check_guard j g (eg_session_id g)) (\<lambda>_.
       if jn_opened j = schema_version then Inr ()
       else Inl ''typed content requires an explicit quiescent journal upgrade'')"

definition budget_ok :: "turn_admission \<Rightarrow> bool" where
  "budget_ok r \<longleftrightarrow>
     is_none_or (ta_budget r) (\<lambda>b. budget_valid (ta_command_id r) b \<and> eb_session_id b = ta_session_id r)"

text \<open>The digest covers everything but the name of the operator.\<close>

definition turn_digest :: "journal_env \<Rightarrow> turn_admission \<Rightarrow> rstring" where
  "turn_digest v r = jv_digest v (r\<lparr>ta_operator_name := None\<rparr>)"

definition lookup_command :: "journal_env \<Rightarrow> turn_admission \<Rightarrow> journal \<Rightarrow> (string, run_record option) result" where
  "lookup_command v r j =
     and_then (check_schema j) (\<lambda>_.
       if \<not> budget_ok r then Inl ''invalid delegated execution budget''
       else if steering_schema_version \<le> jn_opened j \<and> reserved_receipt_exists j (ta_command_id r)
       then Inl ''turn command collides with steering receipt''
       else if \<not> is_none_or (ta_coordination r) (coordination_valid (ta_command_id r)) then Inl ''invalid coordination source''
       else if max_prompt < str_len (ta_prompt r) then Inl ''invalid prompt size''
       else case bm_get (jn_commands j) (ta_command_id r) of
         None \<Rightarrow> Inr None
       | Some c \<Rightarrow>
           if cw_digest c \<noteq> turn_digest v r then Inl ''command identity reused with different payload or authority''
           else and_then (read_run v j (cw_run_id c)) (\<lambda>run. Inr (Some run)))"

text \<open>What is checked of a request before the transaction.\<close>

definition check_turn :: "execution_guard \<Rightarrow> turn_admission \<Rightarrow> journal \<Rightarrow> (string, unit) result" where
  "check_turn g r j =
     (if \<not> budget_ok r then Inl ''invalid delegated execution budget''
      else if \<not> is_none_or (ta_coordination r) (coordination_valid (ta_command_id r)) then Inl ''invalid coordination source''
      else if is_nil (ta_command_id r) \<or> is_nil (ta_machine_id r) \<or> is_nil (ta_principal_id r)
      then Inl ''nil command authority identity''
      else if \<not> ((trim (ta_prompt r) \<noteq> [] \<or> ta_parts r \<noteq> []) \<and> str_len (ta_prompt r) \<le> max_prompt)
      then Inl ''invalid prompt size''
      else and_then (if ta_budget r \<noteq> None then require_content_schema g j else Inr ()) (\<lambda>_.
        if ta_parts r = [] then Inr ()
        else case validate_parts (ta_parts r) of
          Inl _ \<Rightarrow> Inl ''invalid content''
        | Inr _ \<Rightarrow> and_then (require_content_schema g j) (\<lambda>_.
            if parts_text (ta_parts r) = ta_prompt r then Inr () else Inl ''content text projection mismatch'')))"

definition active_run_exists :: "journal \<Rightarrow> uuid \<Rightarrow> bool" where
  "active_run_exists j s \<longleftrightarrow> list_ex (\<lambda>(_, w). rw_session_id w = s \<and> rw_active w) (jn_runs j)"

text \<open>The conditions for a new turn; a success gives the session it starts from.\<close>

definition turn_gates :: "journal_env \<Rightarrow> turn_admission \<Rightarrow> int \<Rightarrow> journal \<Rightarrow> (string, nat \<times> session) result" where
  "turn_gates v r now j =
     and_then (if 5 \<le> jn_opened j then pending_cleanup v j (ta_session_id r) else Inr None) (\<lambda>cleanup.
       if cleanup \<noteq> None then Inl ''session cleanup remains unconfirmed''
       else and_then (deadline_ok now (ta_expires_at_ms r)) (\<lambda>timely.
         if \<not> timely then Inl ''command expired or deadline invalid''
         else and_then (ensure_admissible j (ta_session_id r)) (\<lambda>_.
           if max_commands \<le> length (jn_commands j) then Inl ''command evidence capacity reached''
           else if active_run_exists j (ta_session_id r) then Inl ''session has an unresolved active run''
           else and_then (read_session v j (ta_session_id r)) (\<lambda>(seen, current).
             if has_pending_tools (ss_messages current)
             then Inl ''session has unresolved tool effects; explicit reconciliation is required before another turn''
             else if seen \<noteq> ta_expected_revision r then Inl ''stale session revision''
             else Inr (seen, current)))))"

text \<open>The session with the user turn: a deferred model applies now.\<close>

definition user_turn :: "journal_env \<Rightarrow> instant \<Rightarrow> turn_admission \<Rightarrow> uuid \<Rightarrow> session \<Rightarrow> (string, session) result" where
  "user_turn v clock r run_id s =
     and_then (case ss_pending_model s of
         None \<Rightarrow> Inr s
       | Some model \<Rightarrow> (case switch_model model clock (s\<lparr>ss_pending_model := None\<rparr>) of
           Inl _ \<Rightarrow> Inl ''model cannot be empty'' | Inr (_, s) \<Rightarrow> Inr s)) (\<lambda>s.
       let m = (message_new User (ta_prompt r) clock)\<lparr>m_coordination := ta_coordination r,
                 m_operator_name := ta_operator_name r, m_parts := ta_parts r\<rparr> in
       Inr (begin_run_summary (jv_fingerprint v) run_id clock
         (request_title (ta_command_id r) (s\<lparr>ss_messages := ss_messages s @ [m]\<rparr>))))"

definition new_run :: "execution_guard \<Rightarrow> turn_admission \<Rightarrow> uuid \<Rightarrow> run_record" where
  "new_run g r run_id =
     \<lparr>rn_source_incarnation = eg_incarnation g, rn_id = run_id, rn_command_id = ta_command_id r,
      rn_machine_id = ta_machine_id r, rn_principal_id = ta_principal_id r, rn_session_id = ta_session_id r,
      rn_state = Run_Accepted, rn_partial_text = [], rn_tool_previews = [], rn_reasoning_previews = [],
      rn_terminal_reason = None, rn_usage = usage_zero, rn_final_checkpointed = False\<rparr>"

definition insert_run :: "run_record \<Rightarrow> journal \<Rightarrow> (string, journal) result" where
  "insert_run run j =
     (if bm_contains (jn_runs j) (rn_id run) then Inl ''UNIQUE constraint failed: runs.id''
      else if \<not> bm_contains (jn_sessions j) (rn_session_id run) then Inl ''FOREIGN KEY constraint failed''
      else if active_run_exists j (rn_session_id run) then Inl ''UNIQUE constraint failed: index one_active_run''
      else Inr (j\<lparr>jn_runs := bm_insert (rn_id run)
        \<lparr>rw_session_id = rn_session_id run, rw_record = run, rw_active = True\<rparr> (jn_runs j)\<rparr>))"

definition insert_command :: "uuid \<Rightarrow> rstring \<Rightarrow> uuid \<Rightarrow> journal \<Rightarrow> (string, journal) result" where
  "insert_command i digest run_id j =
     (if bm_contains (jn_commands j) i then Inl ''UNIQUE constraint failed: commands.id''
      else if run_command j run_id \<noteq> None then Inl ''UNIQUE constraint failed: commands.run_id''
      else if \<not> bm_contains (jn_runs j) run_id then Inl ''FOREIGN KEY constraint failed''
      else Inr (j\<lparr>jn_commands := bm_insert i \<lparr>cw_digest = digest, cw_run_id = run_id\<rparr> (jn_commands j)\<rparr>))"

text \<open>The writes of an admission.\<close>

definition record_turn :: "journal_env \<Rightarrow> instant \<Rightarrow> uuid \<Rightarrow> execution_guard \<Rightarrow> turn_admission \<Rightarrow> int \<Rightarrow> nat \<Rightarrow> session \<Rightarrow>
    journal \<Rightarrow> run_record tx" where
  "record_turn v clock run_id g r now seen current j =
     and_then (user_turn v clock r run_id current) (\<lambda>s.
       let run = new_run g r run_id in
       and_then (update_session v clock seen s j) (\<lambda>j.
       and_then (insert_run run (append_public_message_created run (length (ss_messages s) - 1) (last (ss_messages s)) j)) (\<lambda>j.
       and_then (insert_command (ta_command_id r) (turn_digest v r) run_id j) (\<lambda>j.
       and_then (admit_goal v r now j) (\<lambda>j.
       and_then (append_event run Ev_Accepted (append_public_run_command run j)) (\<lambda>(_, j).
         Inr (run, j)))))))"

definition admit_turn :: "journal_env \<Rightarrow> instant \<Rightarrow> uuid \<Rightarrow> execution_guard \<Rightarrow> turn_admission \<Rightarrow> int \<Rightarrow> journal \<Rightarrow> admission tx" where
  "admit_turn v clock run_id g r now j =
     and_then (check_guard j g (ta_session_id r)) (\<lambda>_.
     and_then (check_turn g r j) (\<lambda>_.
       if process_receipt_exists j (ta_command_id r) then Inl ''turn command collides with process command''
       else if steering_schema_version \<le> jn_opened j \<and> reserved_receipt_exists j (ta_command_id r)
       then Inl ''turn command collides with steering receipt''
       else case bm_get (jn_commands j) (ta_command_id r) of
         Some c \<Rightarrow>
           if cw_digest c \<noteq> turn_digest v r then Inl ''command identity reused with different payload or authority''
           else and_then (read_run v j (cw_run_id c)) (\<lambda>run. Inr (\<lparr>ad_duplicate = True, ad_run = run\<rparr>, j))
       | None \<Rightarrow>
           and_then (turn_gates v r now j) (\<lambda>(seen, current).
           and_then (record_turn v clock run_id g r now seen current j) (\<lambda>(run, j).
             Inr (\<lparr>ad_duplicate = False, ad_run = run\<rparr>, j)))))"

section \<open>Dispatch and partial output\<close>

text \<open>The run a guard owns. The transaction reads it again; nothing can have changed it in between.\<close>

definition owned_run :: "journal_env \<Rightarrow> execution_guard \<Rightarrow> uuid \<Rightarrow> journal \<Rightarrow> (string, run_record) result" where
  "owned_run v g i j =
     and_then (read_run v j i) (\<lambda>run. and_then (check_guard j g (rn_session_id run)) (\<lambda>_. Inr run))"

definition mark_running :: "journal_env \<Rightarrow> execution_guard \<Rightarrow> uuid \<Rightarrow> journal \<Rightarrow> (string, journal) result" where
  "mark_running v g i j =
     and_then (owned_run v g i j) (\<lambda>run.
       if rn_state run \<noteq> Run_Accepted then Inl ''run already dispatched or terminal''
       else and_then (if 5 \<le> jn_opened j then cancel_pending v j (rn_session_id run) i else Inr False) (\<lambda>cancelled.
         if cancelled then Inl ''run cancellation requested''
         else
           let run = run\<lparr>rn_state := Run_Running\<rparr> in
           and_then (append_event run Ev_Started (write_run run j)) (\<lambda>(_, j). Inr j)))"

definition append_text :: "journal_env \<Rightarrow> execution_guard \<Rightarrow> uuid \<Rightarrow> rstring \<Rightarrow> journal \<Rightarrow> nat tx" where
  "append_text v g i delta j =
     (if \<not> (delta \<noteq> [] \<and> str_len delta \<le> max_prompt) then Inl ''invalid output delta size''
      else and_then (owned_run v g i j) (\<lambda>run.
        if rn_state run \<noteq> Run_Running then Inl ''run is terminal''
        else if \<not> is_some_and (checked_add_u64 (str_len (rn_partial_text run)) (str_len delta)) (\<lambda>n. n \<le> max_partial)
        then Inl ''partial output capacity reached''
        else
          let offset = str_len (rn_partial_text run); run = run\<lparr>rn_partial_text := rn_partial_text run @ delta\<rparr> in
          and_then (append_public_text run offset delta (write_run run j)) (append_event run (Ev_TextDelta delta))))"

definition tool_preview_ok :: "tool_preview \<Rightarrow> bool" where
  "tool_preview_ok p \<longleftrightarrow> str_len (tp_name p) \<le> 128 \<and> is_none_or (tp_call_id p) (\<lambda>i. str_len i \<le> 1024) \<and>
     str_len (tp_arguments p) \<le> 16 * 1024"

definition set_tool_previews :: "journal_env \<Rightarrow> execution_guard \<Rightarrow> uuid \<Rightarrow> tool_preview list \<Rightarrow> journal \<Rightarrow>
    (string, journal) result" where
  "set_tool_previews v g i previews j =
     (if \<not> (length previews \<le> 32 \<and> list_all tool_preview_ok previews) then Inl ''preview capacity exceeded''
      else and_then (owned_run v g i j) (\<lambda>run.
        if rn_state run \<noteq> Run_Running then Inl ''run is terminal''
        else if rn_tool_previews run = previews then Inr j
        else
          let run = run\<lparr>rn_tool_previews := previews\<rparr> in
          and_then (append_event run Ev_CanonicalCheckpoint (write_run run (append_public_tool_activity run j)))
            (\<lambda>(_, j). Inr j)))"

definition same_block :: "reasoning_preview \<Rightarrow> reasoning_preview \<Rightarrow> bool" where
  "same_block p q \<longleftrightarrow> rv_attempt_id p = rv_attempt_id q \<and> rv_index p = rv_index q \<and> rv_kind p = rv_kind q"

text \<open>A block replaces its earlier state unless that is final; a new block may push out the oldest.\<close>

fun merge_reasoning :: "reasoning_preview list \<Rightarrow> reasoning_preview list \<Rightarrow> (string, reasoning_preview list) result" where
  "merge_reasoning [] kept = Inr kept"
| "merge_reasoning (p # ps) kept =
     (case position (\<lambda>q. same_block q p) kept of
        Some k \<Rightarrow> if rv_finalized (kept ! k) then Inl ''reasoning already finalized'' else merge_reasoning ps (kept[k := p])
      | None \<Rightarrow> merge_reasoning ps ((if length kept = 32 then drop 1 kept else kept) @ [p]))"

definition set_reasoning_previews :: "journal_env \<Rightarrow> execution_guard \<Rightarrow> uuid \<Rightarrow> reasoning_preview list \<Rightarrow> journal \<Rightarrow>
    (string, journal) result" where
  "set_reasoning_previews v g i previews j =
     (if \<not> (length previews \<le> 32 \<and> list_all (\<lambda>p. str_len (rv_text p) \<le> 16 * 1024 \<and> \<not> rv_finalized p) previews)
      then Inl ''reasoning capacity/state invalid''
      else and_then (owned_run v g i j) (\<lambda>run.
        if rn_state run \<noteq> Run_Running then Inl ''run is terminal''
        else and_then (merge_reasoning previews (rn_reasoning_previews run)) (\<lambda>kept.
          let run = run\<lparr>rn_reasoning_previews := kept\<rparr> in
          and_then (append_event run Ev_CanonicalCheckpoint (write_run run j)) (\<lambda>(_, j). Inr j))))"

definition record_provider_attempt :: "journal_env \<Rightarrow> instant \<Rightarrow> execution_guard \<Rightarrow> uuid \<Rightarrow> provider_attempt \<Rightarrow> journal \<Rightarrow>
    (string, journal) result" where
  "record_provider_attempt v clock g i a j =
     and_then (check_guard j g (eg_session_id g)) (\<lambda>_.
     and_then (read_run v j i) (\<lambda>run.
       if rn_session_id run \<noteq> eg_session_id g then Inl ''provider attempt run mismatch''
       else if rn_state run \<noteq> Run_Running then Inl ''provider attempt requires an owned running run''
       else and_then (read_session v j (rn_session_id run)) (\<lambda>(seen, current).
         case upsert_provider_attempt i a current of
           Inl _ \<Rightarrow> Inl ''invalid provider attempt''
         | Inr s \<Rightarrow> and_then (update_session v clock seen s j) (\<lambda>j.
             and_then (append_event run Ev_CanonicalCheckpoint j) (\<lambda>(_, j). Inr j)))))"

section \<open>Checkpoints\<close>

text \<open>The attempt whose answer the checkpoint makes canonical: the last of the run, once completed.\<close>

definition completed_attempt :: "session \<Rightarrow> uuid \<Rightarrow> uuid option" where
  "completed_attempt s i =
     Option.bind (find (\<lambda>sm. sm_run_id sm = i) (ss_run_summaries s)) (\<lambda>sm.
       if sm_provider_attempts sm = [] then None
       else let a = last (sm_provider_attempts sm) in
         if pa_decision a = Attempt_Completed then Some (pa_attempt_id a) else None)"

definition finalize_reasoning :: "session \<Rightarrow> message list \<Rightarrow> nat \<Rightarrow> run_record \<Rightarrow> run_record" where
  "finalize_reasoning s ms previous run =
     (if list_ex (\<lambda>m. m_role m = Assistant) (drop previous ms) then
        let run = run\<lparr>rn_tool_previews := []\<rparr> in
        if list_ex (\<lambda>m. m_role m = Assistant \<and> m_interrupted_attempt m = None) (drop previous ms)
        then run\<lparr>rn_reasoning_previews := map (\<lambda>p.
            if Some (rv_attempt_id p) = completed_attempt s (rn_id run) \<and>
               \<not> list_ex (\<lambda>m. m_interrupted_attempt m = Some (rv_attempt_id p)) ms
            then p\<lparr>rv_finalized := True\<rparr> else p) (rn_reasoning_previews run)\<rparr>
        else run
      else run)"

definition checked_sub :: "nat \<Rightarrow> nat \<Rightarrow> nat option" where
  "checked_sub a b = (if b \<le> a then Some (a - b) else None)"

lemma checked_sub_Some [simp]: "checked_sub a b = Some c \<longleftrightarrow> b \<le> a \<and> c = a - b"
  by (auto simp: checked_sub_def)

text \<open>The writes of a checkpoint over the history that it accepts.\<close>

definition save_checkpoint :: "journal_env \<Rightarrow> instant \<Rightarrow> run_record \<Rightarrow> nat \<Rightarrow> session \<Rightarrow> message list \<Rightarrow> nat \<Rightarrow> usage \<Rightarrow> nat \<Rightarrow>
    nat \<Rightarrow> journal \<Rightarrow> (string, journal) result" where
  "save_checkpoint v clock run seen current ms previous u input output j =
     (let run = finalize_reasoning current ms previous run;
          s = extend_run_summary (jv_fingerprint v) (replace_messages (jv_fingerprint v) ms current) in
      and_then (ok_or ''session usage overflow'' (usage_add (ss_usage s) \<lparr>us_input = input, us_output = output\<rparr>)) (\<lambda>total.
        let run = run\<lparr>rn_usage := u, rn_final_checkpointed := False\<rparr> in
        and_then (update_session v clock seen (s\<lparr>ss_usage := total\<rparr>) j) (\<lambda>j.
          let j = fold (\<lambda>k. append_public_message run k (ms ! k)) [previous..<length ms] j in
          and_then (append_event run Ev_CanonicalCheckpoint (write_run run j)) (\<lambda>(_, j). Inr j))))"

text \<open>What the checkpoint appends, after its receipts are applied.\<close>

definition accept_appended :: "journal_env \<Rightarrow> run_record \<Rightarrow> message list \<Rightarrow> nat \<Rightarrow> nat \<Rightarrow> int \<Rightarrow> bool \<Rightarrow> journal \<Rightarrow>
    message list tx" where
  "accept_appended v run new previous seen now reject j =
     (if steering_schema_version \<le> jn_opened j then
        and_then (ok_or ''revision overflow'' (checked_add_u64 seen 1)) (\<lambda>revision.
          apply_receipts v run new previous revision now reject j)
      else if list_all (\<lambda>m. m_steering m = None) new then Inr (new, j)
      else Inl ''steering requires quiescent journal upgrade'')"

definition checkpoint_reconciled :: "journal_env \<Rightarrow> instant \<Rightarrow> execution_guard \<Rightarrow> uuid \<Rightarrow> message list \<Rightarrow> usage \<Rightarrow> int \<Rightarrow> bool \<Rightarrow>
    journal \<Rightarrow> message list tx" where
  "checkpoint_reconciled v clock g i ms u now reject j =
     and_then (owned_run v g i j) (\<lambda>run.
     and_then (if list_ex (\<lambda>m. m_parts m \<noteq> [] \<or> m_tool_output m \<noteq> None \<or> m_tool_outcome m \<noteq> None) ms
               then require_content_schema g j else Inr ()) (\<lambda>_.
       if rn_state run \<noteq> Run_Running then Inl ''checkpoint requires a running run''
       else if list_ex (\<lambda>m. m_role m = System) ms then Inl ''runtime guidance cannot enter canonical checkpoints''
       else and_then (read_session v j (rn_session_id run)) (\<lambda>(seen, current).
         let previous = length (ss_messages current) in
         if \<not> (previous \<le> length ms \<and> map wire (take previous ms) = map wire (ss_messages current))
         then Inl ''canonical checkpoint rewrites accepted history''
         else and_then (ok_or ''run usage decreased'' (checked_sub (us_input u) (us_input (rn_usage run)))) (\<lambda>input.
           and_then (ok_or ''run usage decreased'' (checked_sub (us_output u) (us_output (rn_usage run)))) (\<lambda>output.
             if length ms = previous \<and> input = 0 \<and> output = 0 then Inr (ms, j)
             else and_then (accept_appended v run (drop previous ms) previous seen now reject j) (\<lambda>(appended, j).
               let ms = take previous ms @ appended in
               and_then (save_checkpoint v clock run seen current ms previous u input output j) (\<lambda>j. Inr (ms, j))))))))"

definition checkpoint_canonical :: "journal_env \<Rightarrow> instant \<Rightarrow> execution_guard \<Rightarrow> uuid \<Rightarrow> message list \<Rightarrow> usage \<Rightarrow> int \<Rightarrow>
    journal \<Rightarrow> (string, journal) result" where
  "checkpoint_canonical v clock g i ms u now j =
     and_then (checkpoint_reconciled v clock g i ms u now False j) (\<lambda>(_, j). Inr j)"

definition register_run_scope :: "journal_env \<Rightarrow> instant \<Rightarrow> execution_guard \<Rightarrow> uuid \<Rightarrow> run_reference \<Rightarrow> journal \<Rightarrow>
    (string, journal) result" where
  "register_run_scope v clock g i r j =
     and_then (owned_run v g i j) (\<lambda>run.
       if \<not> (rr_session_id r = rn_session_id run \<and> rr_run_id r = i)
       then Inl ''completion scope does not match admitted run''
       else if rn_state run \<noteq> Run_Running then Inl ''scope requires running admission''
       else and_then (read_session v j (rn_session_id run)) (\<lambda>(seen, current).
         if r \<in> set (ss_completion_runs current) then Inl ''scope already registered''
         else
           let s = (if ss_run_summaries current = [] \<or> sm_run_id (last (ss_run_summaries current)) \<noteq> rr_run_id r
                    then begin_run_summary (jv_fingerprint v) (rr_run_id r) clock current else current) in
           update_session v clock seen (s\<lparr>ss_completion_runs := ss_completion_runs s @ [r]\<rparr>) j))"

definition accept_checkpoint :: "journal_env \<Rightarrow> execution_guard \<Rightarrow> uuid \<Rightarrow> message list \<Rightarrow> usage \<Rightarrow> journal \<Rightarrow>
    (string, journal) result" where
  "accept_checkpoint v g i ms u j =
     and_then (owned_run v g i j) (\<lambda>run.
       if rn_state run \<noteq> Run_Running then Inl ''acceptance requires running admission''
       else and_then (if 5 \<le> jn_opened j then cancel_pending v j (rn_session_id run) i else Inr False) (\<lambda>cancelled.
         if cancelled then Inl ''run cancellation requested''
         else and_then (if steering_schema_version \<le> jn_opened j then ensure_no_pending j i else Inr ()) (\<lambda>_.
           and_then (read_session v j (rn_session_id run)) (\<lambda>(_, current).
             if \<not> (map wire ms = map wire (ss_messages current) \<and> u = rn_usage run)
             then Inl ''acceptance does not match canonical checkpoint''
             else if \<not> (ms \<noteq> [] \<and> is_answer (last ms) \<and> \<not> has_pending_tools ms)
             then Inl ''acceptance requires a final proposal without pending tools''
             else if rn_final_checkpointed run then Inl ''proposal already accepted''
             else
               let run = run\<lparr>rn_final_checkpointed := True\<rparr> in
               and_then (append_event run Ev_CanonicalCheckpoint (write_run run j)) (\<lambda>(_, j). Inr j)))))"

section \<open>The terminal outcome\<close>

record outcome =
  ot_state :: run_state
  ot_reason :: "rstring option"
  ot_final_text :: "rstring option"
  ot_classification :: "stop_reason option"

definition check_outcome :: "outcome \<Rightarrow> (string, unit) result" where
  "check_outcome out =
     (if run_active (ot_state out) then Inl ''finish requires terminal state''
      else if \<not> is_none_or (ot_reason out) (\<lambda>r. trim r \<noteq> [] \<and> str_len r \<le> 1024 \<and> \<not> has_control r)
      then Inl ''invalid terminal reason''
      else if \<not> (ot_state out = Run_Completed \<or> (ot_reason out \<noteq> None \<and> ot_final_text out = None))
      then Inl ''unsuccessful runs require a reason and cannot publish success''
      else if \<not> (ot_state out \<noteq> Run_Completed \<or> is_none_or (ot_final_text out) (\<lambda>t. str_len t \<le> max_partial))
      then Inl ''completed run requires bounded final text''
      else Inr ())"

text \<open>A pending cancellation or an assignment still to be cleaned up overrides the outcome.\<close>

definition adjust_outcome :: "journal_env \<Rightarrow> journal \<Rightarrow> run_record \<Rightarrow> outcome \<Rightarrow> (string, outcome) result" where
  "adjust_outcome v j run out =
     and_then (if 5 \<le> jn_opened j \<and> ot_state out \<noteq> Run_Interrupted then cancel_pending v j (rn_session_id run) (rn_id run)
               else Inr False) (\<lambda>cancelled.
       Inr (if cancelled then
              \<lparr>ot_state = Run_Cancelled, ot_reason = Some (lit ''local cancellation requested''), ot_final_text = None,
               ot_classification = None\<rparr>
            else if ot_state out = Run_Completed \<and> 0 < pending_assignments j (rn_id run) then
              \<lparr>ot_state = Run_Incomplete, ot_reason = Some (lit ''participant assignment cleanup pending''),
               ot_final_text = None, ot_classification = None\<rparr>
            else out))"

definition final_message :: "instant \<Rightarrow> session \<Rightarrow> rstring \<Rightarrow> message" where
  "final_message clock s text =
     (message_new Assistant text clock)\<lparr>m_operator_name :=
       (if ss_messages s = [] then None else m_operator_name (last (ss_messages s)))\<rparr>"

definition classification_agrees :: "run_state \<Rightarrow> stop_reason \<Rightarrow> bool" where
  "classification_agrees state c = (case c of
     Stop_Completed \<Rightarrow> state = Run_Completed | Stop_Incomplete _ _ \<Rightarrow> state = Run_Incomplete)"

text \<open>The session of a finished run: its final text, its terminals and its summary.\<close>

definition close_session :: "summary_digest \<Rightarrow> instant \<Rightarrow> uuid \<Rightarrow> outcome \<Rightarrow> session \<Rightarrow> (string, session) result" where
  "close_session h clock i out s =
     (let s = (case ot_final_text out of None \<Rightarrow> s
               | Some text \<Rightarrow> s\<lparr>ss_messages := ss_messages s @ [final_message clock s text]\<rparr>);
          s = (if ot_state out = Run_Interrupted
               then s\<lparr>ss_terminals := map (\<lambda>t. t\<lparr>tm_state := Disconnected\<rparr>) (ss_terminals s)\<rparr> else s);
          s = (if ss_run_summaries s = [] \<or> sm_run_id (last (ss_run_summaries s)) \<noteq> i
               then begin_run_summary h i clock s else s) in
      case ot_classification out of
        Some c \<Rightarrow>
          if classification_agrees (ot_state out) c then Inr (finish_run_summary h c clock s)
          else Inl ''run state and transcript classification disagree''
      | None \<Rightarrow> Inr (
          if ot_state out = Run_Completed then finish_run_summary h Stop_Completed clock s
          else if ot_state out = Run_Failed
          then fail_run_summary h (case ot_reason out of Some r \<Rightarrow> r | None \<Rightarrow> lit ''provider or runtime failed'') clock s
          else interrupt_run_summary h (case ot_reason out of Some r \<Rightarrow> r | None \<Rightarrow> lit ''run interrupted'') clock s))"

definition finish_steering :: "journal_env \<Rightarrow> run_record \<Rightarrow> run_state \<Rightarrow> nat \<Rightarrow> journal \<Rightarrow> (string, journal) result" where
  "finish_steering v run state seen j =
     (if jn_opened j < steering_schema_version then Inr j
      else and_then (if state = Run_Completed then ensure_no_pending j (rn_id run) else Inr ()) (\<lambda>_.
        and_then (ok_or ''revision overflow'' (checked_add_u64 seen 1)) (\<lambda>revision.
          settle_steering v run state revision j)))"

definition close_run :: "run_record \<Rightarrow> journal \<Rightarrow> journal" where
  "close_run run j =
     j\<lparr>jn_runs := bm_update (rn_id run) (\<lambda>w. w\<lparr>rw_record := run, rw_active := False\<rparr>) (jn_runs j)\<rparr>"

text \<open>The writes of a terminal outcome.\<close>

definition write_outcome :: "journal_env \<Rightarrow> instant \<Rightarrow> run_record \<Rightarrow> outcome \<Rightarrow> nat \<Rightarrow> session \<Rightarrow> journal \<Rightarrow> run_record tx" where
  "write_outcome v clock run out seen current j =
     and_then (close_session (jv_fingerprint v) clock (rn_id run) out current) (\<lambda>s.
     and_then (finish_steering v run (ot_state out) seen j) (\<lambda>j.
     and_then (update_session v clock seen s j) (\<lambda>j.
       let j = (if ot_final_text out \<noteq> None
                then append_public_message run (length (ss_messages s) - 1) (last (ss_messages s)) j else j);
           run = run\<lparr>rn_state := ot_state out, rn_terminal_reason := ot_reason out\<rparr> in
       and_then (if 12 \<le> jn_opened j then append_notice run (close_run run j) else Inr (close_run run j)) (\<lambda>j.
       and_then (append_event run (Ev_Terminal (ot_state out)) j) (\<lambda>(_, j). Inr (run, j))))))"

definition finish_classified :: "journal_env \<Rightarrow> instant \<Rightarrow> execution_guard \<Rightarrow> uuid \<Rightarrow> outcome \<Rightarrow> journal \<Rightarrow> run_record tx" where
  "finish_classified v clock g i out j =
     and_then (check_outcome out) (\<lambda>_.
     and_then (owned_run v g i j) (\<lambda>run.
       if \<not> run_active (rn_state run) then Inl ''run is already terminal''
       else and_then (adjust_outcome v j run out) (\<lambda>out.
         if ot_state out = Run_Completed \<and> rn_state run \<noteq> Run_Running then Inl ''undispatched run cannot complete''
         else if ot_state out = Run_Completed \<and> ot_final_text out = None \<and> \<not> rn_final_checkpointed run
         then Inl ''completed run requires a final checkpoint''
         else and_then (read_session v j (rn_session_id run)) (\<lambda>(seen, current).
           if ot_state out = Run_Completed \<and> has_pending_tools (ss_messages current)
           then Inl ''unresolved tool effects cannot be completed''
           else if ot_final_text out \<noteq> None \<and> ss_messages current \<noteq> [] \<and> is_answer (last (ss_messages current))
           then Inl ''final answer already checkpointed''
           else write_outcome v clock run out seen current j))))"

definition recover_interrupted :: "journal_env \<Rightarrow> instant \<Rightarrow> execution_guard \<Rightarrow> journal \<Rightarrow> run_record option tx" where
  "recover_interrupted v clock g j =
     and_then (check_guard j g (eg_session_id g)) (\<lambda>_.
       case find (\<lambda>(_, w). rw_session_id w = eg_session_id g \<and> rw_active w) (jn_runs j) of
         None \<Rightarrow> Inr (None, j)
       | Some (i, _) \<Rightarrow>
           and_then (finish_classified v clock g i
               \<lparr>ot_state = Run_Interrupted,
                ot_reason = Some (lit ''execution owner exited before terminal checkpoint''),
                ot_final_text = None, ot_classification = None\<rparr> j) (\<lambda>(run, j). Inr (Some run, j)))"

section \<open>Cancellation and cleanup\<close>

record cancel_request =
  cr_session_id :: uuid
  cr_run_id :: uuid
  cr_installation_id :: uuid
  cr_principal_id :: uuid
  cr_expires_at_ms :: int

datatype cancel_outcome = Cancel_Requested bool | AlreadyTerminal run_state

definition request_cancel :: "journal_env \<Rightarrow> cancel_request \<Rightarrow> int \<Rightarrow> journal \<Rightarrow> cancel_outcome tx" where
  "request_cancel v r now j =
     (if jn_opened j < 5 then Inl ''explicit quiescent journal upgrade required''
      else and_then (check_schema j) (\<lambda>_.
      and_then (run_target v j (cr_run_id r)) (\<lambda>t.
        if \<not> (tg_session_id t = cr_session_id r \<and> tg_installation_id t = cr_installation_id r \<and>
              tg_principal_id t = cr_principal_id r) then Inl ''cancellation actor or run mismatch''
        else and_then (cancel_requested j (cr_run_id r) t) (\<lambda>duplicate.
          if \<not> run_active (tg_state t) then Inr (AlreadyTerminal (tg_state t), j)
          else if duplicate then Inr (Cancel_Requested True, j)
          else if \<not> (0 \<le> now \<and> now < cr_expires_at_ms r \<and> cr_expires_at_ms r - now \<le> 300000)
          then Inl ''invalid cancellation deadline''
          else Inr (Cancel_Requested False, j\<lparr>jn_cancels := bm_insert (cr_run_id r)
            \<lparr>ci_session_id = cr_session_id r, ci_installation_id = cr_installation_id r,
             ci_principal_id = cr_principal_id r, ci_requested_at_ms = now, ci_expires_at_ms = cr_expires_at_ms r\<rparr>
            (jn_cancels j)\<rparr>)))))"

definition register_local_cleanup :: "journal_env \<Rightarrow> execution_guard \<Rightarrow> uuid \<Rightarrow> journal \<Rightarrow> (string, journal) result" where
  "register_local_cleanup v g i j =
     (if jn_opened j < 5 then Inl ''explicit quiescent journal upgrade required''
      else and_then (run_target v j i) (\<lambda>t.
      and_then (check_guard j g (tg_session_id t)) (\<lambda>_.
        if tg_state t \<noteq> Run_Accepted then Inl ''cleanup must be registered before dispatch''
        else and_then (cleanup_confirmation_of j i t) (\<lambda>c.
          case c of
            Some None \<Rightarrow> Inr j
          | Some (Some _) \<Rightarrow> Inl ''cleanup evidence is immutable''
          | None \<Rightarrow> and_then (pending_cleanup v j (tg_session_id t)) (\<lambda>p.
              if p \<noteq> None then Inl ''session cleanup remains unconfirmed''
              else Inr (j\<lparr>jn_cleanups := bm_insert i
                \<lparr>cu_session_id = tg_session_id t, cu_installation_id = tg_installation_id t,
                 cu_principal_id = tg_principal_id t, cu_confirmation = None\<rparr> (jn_cleanups j)\<rparr>))))))"

abbreviation confirm_row :: "cleanup_confirmation \<Rightarrow> cleanup_row \<Rightarrow> cleanup_row" where
  "confirm_row c w \<equiv> (if cu_confirmation w = None then w\<lparr>cu_confirmation := Some c\<rparr> else w)"

text \<open>An observation made while assignments are open is kept although the confirmation fails.\<close>

definition confirm_local_cleanup :: "journal_env \<Rightarrow> execution_guard \<Rightarrow> uuid \<Rightarrow> (uuid \<times> uuid) option \<Rightarrow> journal \<Rightarrow>
    journal \<times> (string, unit) result" where
  "confirm_local_cleanup v g i actor j =
     (let expected = (if actor = None then Cleanup_Observed else Cleanup_Attested);
          checked =
            (if jn_opened j < 5 then Inl ''explicit quiescent journal upgrade required''
             else and_then (run_target v j i) (\<lambda>t.
             and_then (check_guard j g (tg_session_id t)) (\<lambda>_.
               if run_active (tg_state t) then Inl ''cleanup confirmation requires terminal run''
               else if \<not> is_none_or actor (\<lambda>(installation, principal).
                   installation = tg_installation_id t \<and> principal = tg_principal_id t)
               then Inl ''cleanup attestation actor mismatch'' else Inr t))) in
      case checked of
        Inl e \<Rightarrow> (j, Inl e)
      | Inr t \<Rightarrow>
          if 0 < pending_assignments j i then
            ((if actor = None then j\<lparr>jn_assignment_cleanup := List.insert i (jn_assignment_cleanup j)\<rparr> else j),
             Inl ''participant cleanup remains pending; local observation retained'')
          else case cleanup_confirmation_of j i t of
            Inl e \<Rightarrow> (j, Inl e)
          | Inr None \<Rightarrow> (j, Inl ''cleanup obligation not registered'')
          | Inr (Some (Some prior)) \<Rightarrow> (j, if prior = expected then Inr () else Inl ''cleanup evidence is immutable'')
          | Inr (Some None) \<Rightarrow>
              (j\<lparr>jn_cleanups := bm_update i (confirm_row expected) (jn_cleanups j),
                 jn_retained := bm_update i (confirm_row expected) (jn_retained j)\<rparr>, Inr ()))"

end
