(* ===== verification/Journal_Invariant.thy ===== *)
theory Journal_Invariant
  imports Journal_Runs
begin

text \<open>
  What holds of every journal that the operations of \<open>Journal_Runs\<close> reach: its runs, commands, events and
  sessions fit together. The steps that leave the runs and the commands alone keep that (\<open>quiet\<close>); the others
  are in \<open>Journal_Protocol\<close>.
\<close>

section \<open>Well-formed tables\<close>

definition run_row_ok :: "(uuid, command_row) bmap \<Rightarrow> uuid \<Rightarrow> run_row \<Rightarrow> bool" where
  "run_row_ok C i w \<longleftrightarrow>
     (let run = rw_record w in
      rn_id run = i \<and> rn_session_id run = rw_session_id w \<and> rw_active w = run_active (rn_state run) \<and>
      \<not> is_nil (rn_machine_id run) \<and> \<not> is_nil (rn_principal_id run) \<and> str_len (rn_partial_text run) \<le> max_partial \<and>
      map_option cw_run_id (bm_get C (rn_command_id run)) = Some i)"

definition one_active :: "(uuid, run_row) bmap \<Rightarrow> bool" where
  "one_active R \<longleftrightarrow> (\<forall>i k w u. bm_get R i = Some w \<and> bm_get R k = Some u \<and> rw_active w \<and> rw_active u \<and>
     rw_session_id w = rw_session_id u \<longrightarrow> i = k)"

definition runs_wf :: "(uuid, session_row) bmap \<Rightarrow> (uuid, run_row) bmap \<Rightarrow> (uuid, command_row) bmap \<Rightarrow> bool" where
  "runs_wf S R C \<longleftrightarrow> bm_sorted R \<and> bm_sorted C \<and> one_active R \<and>
     (\<forall>i w. bm_get R i = Some w \<longrightarrow> run_row_ok C i w \<and> bm_contains S (rw_session_id w)) \<and>
     (\<forall>c cw. bm_get C c = Some cw \<longrightarrow>
        map_option (\<lambda>w. rn_command_id (rw_record w)) (bm_get R (cw_run_id cw)) = Some c)"

text \<open>
  The events of a session are the latest ones, without a gap, up to its next sequence; the text an event carries is
  not longer than a prompt.
\<close>

definition event_text :: "event_kind \<Rightarrow> rstring" where
  "event_text k = (case k of Ev_TextDelta t \<Rightarrow> t | _ \<Rightarrow> [])"

definition brief :: "event_kind \<Rightarrow> bool" where
  "brief k \<longleftrightarrow> str_len (event_text k) \<le> max_prompt"

lemma brief_simps [simp]:
  "brief Ev_Accepted" "brief Ev_Started" "brief Ev_CanonicalCheckpoint" "brief (Ev_SteeringQueued i)"
  "brief (Ev_SteeringApplied i)" "brief (Ev_SteeringRejected i r)" "brief (Ev_Terminal st)"
  "brief (Ev_TextDelta t) \<longleftrightarrow> str_len t \<le> max_prompt"
  by (simp_all add: brief_def event_text_def)

definition event_row_ok :: "(uuid, session_row) bmap \<Rightarrow> (uuid, run_row) bmap \<Rightarrow> event_row \<Rightarrow> bool" where
  "event_row_ok S R e \<longleftrightarrow>
     bm_contains S (ew_session_id e) \<and> je_sequence (ew_event e) = ew_sequence e \<and> brief (je_kind (ew_event e)) \<and>
     map_option rw_session_id (bm_get R (je_run_id (ew_event e))) = Some (ew_session_id e)"

definition sequences :: "event_row list \<Rightarrow> uuid \<Rightarrow> nat list" where
  "sequences E s = map ew_sequence (filter (\<lambda>e. ew_session_id e = s) E)"

definition window :: "nat \<Rightarrow> nat list" where
  "window n = [n - min (n - 1) replay_limit..<n]"

definition events_wf :: "(uuid, session_row) bmap \<Rightarrow> (uuid, run_row) bmap \<Rightarrow> event_row list \<Rightarrow> bool" where
  "events_wf S R E \<longleftrightarrow>
     (\<forall>s w. bm_get S s = Some w \<longrightarrow> 0 < sw_next_sequence w \<and> sequences E s = window (sw_next_sequence w)) \<and>
     list_all (event_row_ok S R) E"

definition sessions_wf :: "journal_env \<Rightarrow> (uuid, session_row) bmap \<Rightarrow> bool" where
  "sessions_wf v S \<longleftrightarrow> bm_sorted S \<and>
     (\<forall>s w. bm_get S s = Some w \<longrightarrow> ss_id (sw_session w) = s \<and> stored_session (sw_session w) = sw_session w \<and>
        jv_snapshot_size v (sw_session w) \<le> max_snapshot)"

definition journal_wf :: "journal_env \<Rightarrow> journal \<Rightarrow> bool" where
  "journal_wf v j \<longleftrightarrow> sessions_wf v (jn_sessions j) \<and> runs_wf (jn_sessions j) (jn_runs j) (jn_commands j) \<and>
     events_wf (jn_sessions j) (jn_runs j) (jn_events j)"

lemma stored_session_idem [simp]: "stored_session (stored_session s) = stored_session s"
proof -
  have "m_role (wire m) = m_role m" for m by simp
  then have "filter (\<lambda>m. m_role m \<noteq> System) (map wire (spoken ms)) = map wire (spoken ms)" for ms
    by (auto simp: spoken_def filter_id_conv)
  then show ?thesis by (simp add: stored_session_def spoken_def)
qed

lemma stored_session_id [simp]: "ss_id (stored_session s) = ss_id s"
  by (simp add: stored_session_def)

lemma bm_contains_update [simp]: "bm_contains (bm_update k f m) i = bm_contains m i"
  by (simp add: bm_contains_get)

lemma bm_contains_insert: "bm_sorted m \<Longrightarrow> bm_contains (bm_insert k v m) i \<longleftrightarrow> i = k \<or> bm_contains m i"
  by (simp add: bm_contains_get)

text \<open>Wellformedness depends on the keys of the sessions and on their sequences only.\<close>

lemma runs_wf_keys: "runs_wf S R C \<Longrightarrow> (\<And>s. bm_contains S s \<Longrightarrow> bm_contains S' s) \<Longrightarrow> runs_wf S' R C"
  by (auto simp: runs_wf_def)

lemma run_command_wf:
  assumes "runs_wf S R C" "bm_get R i = Some w" "jn_runs j = R" "jn_commands j = C"
  shows "run_command j i = Some (rn_command_id (rw_record w))"
proof -
  from assms have cmd: "map_option cw_run_id (bm_get C (rn_command_id (rw_record w))) = Some i"
    by (auto simp: runs_wf_def run_row_ok_def Let_def)
  then obtain cw where cw: "bm_get C (rn_command_id (rw_record w)) = Some cw" "cw_run_id cw = i" by auto
  have only: "c = rn_command_id (rw_record w)" if "(c, cw') \<in> set C" "cw_run_id cw' = i" for c cw'
  proof -
    have "bm_get C c = Some cw'" using assms(1) that(1) by (simp add: bm_get_iff runs_wf_def)
    with assms(1,2) that(2) show ?thesis by (fastforce simp: runs_wf_def)
  qed
  have "(rn_command_id (rw_record w), cw) \<in> set C" using cw(1) by (rule bm_get_SomeD)
  then have "find (\<lambda>(_, c). cw_run_id c = i) C \<noteq> None"
    using cw(2) by (auto simp: find_None_iff)
  then obtain c cw' where found: "find (\<lambda>(_, c). cw_run_id c = i) C = Some (c, cw')" by auto
  then have "(c, cw') \<in> set C" "cw_run_id cw' = i" by (auto simp: find_Some_iff in_set_conv_nth)
  with only found assms(4) show ?thesis by (simp add: run_command_def)
qed

section \<open>Reads\<close>

lemma read_session_Inr:
  "read_session v j i = Inr (seen, s) \<longleftrightarrow>
     (\<exists>w. bm_get (jn_sessions j) i = Some w \<and> jv_snapshot_size v (sw_session w) \<le> max_snapshot \<and>
       ss_id (sw_session w) = i \<and> seen = sw_revision w \<and> s = sw_session w)"
  by (auto simp: read_session_def split: option.splits if_splits)

lemma read_run_Inr:
  "read_run v j i = Inr run \<Longrightarrow> \<exists>w. bm_get (jn_runs j) i = Some w \<and> rw_record w = run \<and> rn_id run = i \<and>
     rn_session_id run = rw_session_id w \<and> rw_active w = run_active (rn_state run)"
  by (auto simp: read_run_def Let_def split: option.splits if_splits)

lemma owned_run_Inr:
  "owned_run v g i j = Inr run \<longleftrightarrow> read_run v j i = Inr run \<and> check_guard j g (rn_session_id run) = Inr ()"
  by (auto simp: owned_run_def and_then_Inr)

text \<open>In a well-formed journal a run is read exactly when it exists and its record is not oversized.\<close>

lemma read_run_wf:
  assumes "journal_wf v j" "bm_get (jn_runs j) i = Some w" "jv_run_size v (rw_record w) \<le> max_partial * 6 + 4096"
  shows "read_run v j i = Inr (rw_record w)"
proof -
  have "run_row_ok (jn_commands j) i w" using assms(1,2) by (auto simp: journal_wf_def runs_wf_def)
  moreover have "run_command j i = Some (rn_command_id (rw_record w))"
    using assms(1,2) by (auto simp: journal_wf_def intro: run_command_wf)
  ultimately show ?thesis using assms(2,3) by (simp add: read_run_def run_row_ok_def Let_def)
qed

section \<open>Writes\<close>

lemma snapshot_session_Inr:
  "snapshot_session v s = Inr x \<longleftrightarrow> x = stored_session s \<and> jv_snapshot_size v (stored_session s) \<le> max_snapshot"
  by (auto simp: snapshot_session_def Let_def)

lemma update_session_Inr:
  "update_session v now seen s j = Inr j' \<longleftrightarrow>
     (\<exists>w. bm_get (jn_sessions j) (ss_id s) = Some w \<and> sw_revision w = seen \<and> seen < i64_top \<and>
       jv_snapshot_size v (stored_session (s\<lparr>ss_updated_at := now\<rparr>)) \<le> max_snapshot \<and>
       j' = j\<lparr>jn_sessions := bm_update (ss_id s)
         (\<lambda>w. w\<lparr>sw_session := stored_session (s\<lparr>ss_updated_at := now\<rparr>), sw_revision := seen + 1\<rparr>) (jn_sessions j)\<rparr>)"
  by (auto simp: update_session_def and_then_Inr snapshot_session_Inr split: option.splits if_splits)

lemma event_at_iff: "event_at s n E \<longleftrightarrow> n \<in> set (sequences E s)"
  by (auto simp: event_at_def sequences_def list_ex_iff)

lemma append_event_Inr:
  "append_event run kind j = Inr (n, j') \<longleftrightarrow>
     (\<exists>w. bm_get (jn_sessions j) (rn_session_id run) = Some w \<and> n = sw_next_sequence w \<and> 0 < n \<and> n < i64_top \<and>
       n \<notin> set (sequences (jn_events j) (rn_session_id run)) \<and>
       j' = j\<lparr>jn_events := prune_events (rn_session_id run) (n - replay_limit) (jn_events j @ [event_row_of run n kind]),
         jn_sessions := bm_update (rn_session_id run) (\<lambda>w. w\<lparr>sw_next_sequence := n + 1\<rparr>) (jn_sessions j)\<rparr>)"
  by (auto simp: append_event_def and_then_Inr event_at_iff Let_def split: option.splits)

lemma sequences_simps:
  "sequences (E @ F) s = sequences E s @ sequences F s"
  "sequences [event_row_of run n kind] s = (if s = rn_session_id run then [n] else [])"
  by (auto simp: sequences_def event_row_of_def)

lemma sequences_prune:
  "sequences (prune_events r m E) s = (if s = r then filter (\<lambda>k. \<not> k \<le> m) (sequences E s) else sequences E s)"
  by (induction E) (auto simp: sequences_def prune_events_def)

lemma filter_upt_above: "filter (\<lambda>k. \<not> k \<le> m) [a..<b] = [max a (Suc m)..<b]"
proof (induction b)
  case (Suc b)
  then show ?case by (cases "a \<le> b") (auto simp: max_def upt_conv_Nil not_less_eq_eq)
qed simp

lemma window_Suc:
  assumes "0 < n"
  shows "filter (\<lambda>k. \<not> k \<le> n - replay_limit) (window n @ [n]) = window (Suc n)"
proof -
  have "window n @ [n] = [n - min (n - 1) replay_limit..<Suc n]" by (simp add: window_def)
  moreover have "max (n - min (n - 1) replay_limit) (Suc (n - replay_limit)) = Suc n - min n replay_limit"
    using assms by (auto simp: replay_limit_def)
  ultimately show ?thesis by (simp add: filter_upt_above window_def del: upt_Suc)
qed

lemma sequences_append_event:
  assumes "append_event run kind j = Inr (n, j')" "sequences (jn_events j) (rn_session_id run) = window n"
  shows "sequences (jn_events j') s = (if s = rn_session_id run then window (Suc n) else sequences (jn_events j) s)"
proof -
  obtain w where w: "0 < n"
    "jn_events j' = prune_events (rn_session_id run) (n - replay_limit) (jn_events j @ [event_row_of run n kind])"
    using assms(1) unfolding append_event_Inr by auto
  show ?thesis
    using window_Suc [OF w(1)] assms(2) by (simp only: w(2) sequences_prune sequences_simps) auto
qed

section \<open>Steps that leave the runs alone\<close>

definition quiet :: "journal_env \<Rightarrow> journal \<Rightarrow> journal \<Rightarrow> bool" where
  "quiet v j j' \<longleftrightarrow> (journal_wf v j \<longrightarrow> journal_wf v j') \<and> jn_runs j' = jn_runs j \<and> jn_commands j' = jn_commands j"

lemma quiet_refl [simp]: "quiet v j j"
  by (simp add: quiet_def)

lemma quiet_trans: "quiet v j k \<Longrightarrow> quiet v k l \<Longrightarrow> quiet v j l"
  by (auto simp: quiet_def)

lemma quiet_same_tables:
  "jn_sessions j' = jn_sessions j \<Longrightarrow> jn_runs j' = jn_runs j \<Longrightarrow> jn_commands j' = jn_commands j \<Longrightarrow>
   jn_events j' = jn_events j \<Longrightarrow> quiet v j j'"
  by (simp add: quiet_def journal_wf_def)

text \<open>The keys of a table of sessions, with their sequences, are what the other tables refer to.\<close>

lemma events_wf_sessions:
  assumes "events_wf S R E" "\<And>s. map_option sw_next_sequence (bm_get S' s) = map_option sw_next_sequence (bm_get S s)"
  shows "events_wf S' R E"
proof -
  have keys: "bm_contains S' s = bm_contains S s" for s
    using assms(2) [of s] by (cases "bm_get S s"; cases "bm_get S' s") (auto simp: bm_contains_get)
  have "0 < sw_next_sequence w \<and> sequences E s = window (sw_next_sequence w)" if w: "bm_get S' s = Some w" for s w
  proof -
    obtain u where "bm_get S s = Some u" "sw_next_sequence u = sw_next_sequence w"
      using assms(2) [of s] w by (cases "bm_get S s") auto
    with assms(1) show ?thesis by (metis events_wf_def)
  qed
  moreover have "event_row_ok S' R = event_row_ok S R" by (rule ext) (simp add: event_row_ok_def keys)
  ultimately show ?thesis using assms(1) by (simp add: events_wf_def)
qed

lemma quiet_update_session:
  assumes "update_session v now seen s j = Inr j'"
  shows "quiet v j j'"
proof -
  obtain w where j': "bm_get (jn_sessions j) (ss_id s) = Some w"
      "jv_snapshot_size v (stored_session (s\<lparr>ss_updated_at := now\<rparr>)) \<le> max_snapshot"
      "j' = j\<lparr>jn_sessions := bm_update (ss_id s)
         (\<lambda>w. w\<lparr>sw_session := stored_session (s\<lparr>ss_updated_at := now\<rparr>), sw_revision := seen + 1\<rparr>) (jn_sessions j)\<rparr>"
    using assms by (auto simp: update_session_Inr)
  have "sessions_wf v (jn_sessions j) \<Longrightarrow> sessions_wf v (jn_sessions j')"
    using j' by (auto simp: sessions_wf_def)
  moreover have "events_wf (jn_sessions j) R E \<Longrightarrow> events_wf (jn_sessions j') R E" for R E
    by (erule events_wf_sessions) (simp add: j'(3) option.map_comp comp_def)
  ultimately show ?thesis
    by (auto simp: quiet_def journal_wf_def j'(3) elim: runs_wf_keys)
qed

text \<open>The run whose events are appended is one of the session.\<close>

definition run_known :: "run_record \<Rightarrow> journal \<Rightarrow> bool" where
  "run_known run j \<longleftrightarrow> map_option rw_session_id (bm_get (jn_runs j) (rn_id run)) = Some (rn_session_id run)"

lemma run_known_quiet: "run_known run j \<Longrightarrow> quiet v j j' \<Longrightarrow> run_known run j'"
  by (simp add: run_known_def quiet_def)

lemma run_known_read: "read_run v j i = Inr run \<Longrightarrow> run_known run j"
  by (auto dest!: read_run_Inr simp: run_known_def)

lemma quiet_append_event:
  assumes "append_event run kind j = Inr (n, j')" "run_known run j" "brief kind"
  shows "quiet v j j'"
proof -
  let ?r = "rn_session_id run"
  obtain w where w: "bm_get (jn_sessions j) ?r = Some w" "n = sw_next_sequence w"
    and j': "j' = j\<lparr>jn_events := prune_events ?r (n - replay_limit) (jn_events j @ [event_row_of run n kind]),
         jn_sessions := bm_update ?r (\<lambda>w. w\<lparr>sw_next_sequence := n + 1\<rparr>) (jn_sessions j)\<rparr>"
    using assms(1) by (auto simp: append_event_Inr)
  have "journal_wf v j'" if wf: "journal_wf v j"
  proof -
    have "sequences (jn_events j) ?r = window n" using wf w by (auto simp: journal_wf_def events_wf_def)
    note seqs = sequences_append_event [OF assms(1) this]
    have "list_all (event_row_ok (jn_sessions j') (jn_runs j')) (jn_events j')"
      using wf w(1) assms(2,3) unfolding j'
      by (auto simp: journal_wf_def events_wf_def list_all_iff event_row_ok_def prune_events_def event_row_of_def
          run_known_def bm_contains_get)
    moreover have "0 < sw_next_sequence u \<and> sequences (jn_events j') s = window (sw_next_sequence u)"
      if "bm_get (jn_sessions j') s = Some u" for s u
      using that wf w seqs [of s] unfolding j'
      by (cases "s = ?r") (auto simp: journal_wf_def events_wf_def)
    moreover have "sessions_wf v (jn_sessions j')"
      using wf unfolding j' by (auto simp: journal_wf_def sessions_wf_def)
    moreover have "runs_wf (jn_sessions j') (jn_runs j') (jn_commands j')"
      using wf unfolding j' by (auto simp: journal_wf_def elim: runs_wf_keys)
    ultimately show ?thesis by (simp add: journal_wf_def events_wf_def)
  qed
  then show ?thesis by (simp add: quiet_def j')
qed

lemma quiet_publish: "quiet v j (publish es j)"
  by (rule quiet_same_tables) (simp_all add: publish_def)

lemma quiet_public [simp]:
  "quiet v j (append_public_message_created run i m j)" "quiet v j (append_public_message run i m j)"
  "quiet v j (append_public_tool_activity run j)" "quiet v j (append_public_run_command run j)"
  by (simp_all add: append_public_message_created_def append_public_message_def append_public_tool_activity_def
      append_public_run_command_def quiet_publish split_def Let_def)

lemma quiet_append_public_text: "append_public_text run offset delta j = Inr j' \<Longrightarrow> quiet v j j'"
  by (auto simp: append_public_text_def and_then_Inr quiet_publish split: if_splits)

lemma quiet_append_notice: "append_notice run j = Inr j' \<Longrightarrow> quiet v j j'"
  by (rule quiet_same_tables) (auto simp: append_notice_def and_then_Inr split: if_splits)

lemma quiet_persist_goal: "persist_goal s gs a j = Inr j' \<Longrightarrow> quiet v j j'"
  by (rule quiet_same_tables) (auto simp: persist_goal_def publish_def split: if_splits)

lemma quiet_stop_continuation: "stop_continuation s reason now j = Inr j' \<Longrightarrow> quiet v j j'"
  by (auto simp: stop_continuation_def and_then_Inr Let_def quiet_persist_goal split: option.splits if_splits)

lemma quiet_admit_goal:
  assumes "admit_goal v r now j = Inr j'"
  shows "quiet v' j j'"
proof -
  obtain gs where gs: "goal_of j (ta_session_id r) = Inr gs"
    using assms by (auto simp: admit_goal_def and_then_Inr)
  then have "j' = j \<or> stop_continuation (ta_session_id r) Stop_UserInput now j = Inr j'"
    using assms
    by (cases "gs_goal gs"; cases "bm_get (jn_goal_turns j) (ta_command_id r)")
      (auto simp: admit_goal_def and_then_Inr split: if_splits option.splits)
  then show ?thesis using quiet_stop_continuation by auto
qed

lemma quiet_write_steering: "write_steering r j = Inr j' \<Longrightarrow> quiet v j j'"
  by (rule quiet_same_tables) (auto simp: write_steering_def split: if_splits)

lemmas quiet_writes = quiet_update_session quiet_append_event quiet_append_public_text quiet_append_notice
  quiet_persist_goal quiet_stop_continuation quiet_admit_goal quiet_write_steering

lemma quiet_write_then_event:
  assumes "write_steering r j = Inr k" "append_event run kind k = Inr (n, l)" "run_known run j" "brief kind"
  shows "quiet v j l" "run_known run l"
proof -
  have k: "quiet v j k" by (rule quiet_write_steering [OF assms(1)])
  have "quiet v k l" by (rule quiet_append_event [OF assms(2) run_known_quiet [OF assms(3) k] assms(4)])
  with k show "quiet v j l" by (rule quiet_trans)
  then show "run_known run l" by (rule run_known_quiet [OF assms(3)])
qed

lemma quiet_apply_steering:
  "apply_steering v run ms offset revision now reject accepted j = Inr (out, j') \<Longrightarrow> run_known run j \<Longrightarrow> quiet v' j j'"
proof (induction ms arbitrary: accepted j)
  case (Cons m ms)
  show ?case
  proof (cases "m_steering m")
    case None
    then show ?thesis using Cons by simp
  next
    case (Some receipt)
    then obtain k l n r kind accepted' where
      "write_steering r j = Inr k" "append_event run kind k = Inr (n, l)" "brief kind"
      and rest: "apply_steering v run ms offset revision now reject accepted' l = Inr (out, j')"
      using Cons.prems(1) by (auto simp: and_then_Inr split: if_splits)
    note step = quiet_write_then_event [OF this(1,2) Cons.prems(2) this(3)]
    show ?thesis by (rule quiet_trans [OF step(1) Cons.IH [OF rest step(2)]])
  qed
qed simp

lemma quiet_apply_receipts:
  "apply_receipts v run ms offset revision now reject j = Inr (out, j') \<Longrightarrow> run_known run j \<Longrightarrow> quiet v' j j'"
  by (auto simp: apply_receipts_def quiet_apply_steering split: if_splits)

lemma quiet_settle_all:
  "settle_all v run reason revision is j = Inr j' \<Longrightarrow> run_known run j \<Longrightarrow> quiet v' j j'"
proof (induction "is" arbitrary: j)
  case (Cons i "is")
  then obtain k l n r kind where
    "write_steering r j = Inr k" "append_event run kind k = Inr (n, l)" "brief kind"
    and rest: "settle_all v run reason revision is l = Inr j'"
    by (auto simp: and_then_Inr)
  note step = quiet_write_then_event [OF this(1,2) Cons.prems(2) this(3)]
  show ?case by (rule quiet_trans [OF step(1) Cons.IH [OF rest step(2)]])
qed simp

lemma quiet_finish_steering:
  "finish_steering v run state seen j = Inr j' \<Longrightarrow> run_known run j \<Longrightarrow> quiet v' j j'"
  by (auto simp: finish_steering_def settle_steering_def and_then_Inr quiet_settle_all split: if_splits)

end
