(* ===== verification/Results.thy ===== *)
theory Results
  imports Prelude
begin

text \<open>
  Reasoning about operations that may fail: a condition holds of every success of a result. The rules follow
  the shape of an operation, so that what a step establishes is at hand when the next one is considered.
\<close>

definition on_ok :: "('e, 'a) result \<Rightarrow> ('a \<Rightarrow> bool) \<Rightarrow> bool" where
  "on_ok r P \<longleftrightarrow> (\<forall>x. r = Inr x \<longrightarrow> P x)"

lemma on_okI: "(\<And>x. r = Inr x \<Longrightarrow> P x) \<Longrightarrow> on_ok r P"
  by (simp add: on_ok_def)

lemma on_okD: "on_ok r P \<Longrightarrow> r = Inr x \<Longrightarrow> P x"
  by (simp add: on_ok_def)

lemma on_ok_simps [simp]: "on_ok (Inl e) P" "on_ok (Inr x) P = P x"
  by (simp_all add: on_ok_def)

lemma on_ok_bind: "on_ok (and_then r f) P = on_ok r (\<lambda>x. on_ok (f x) P)"
  by (cases r) simp_all

lemma on_ok_ok_or [simp]: "on_ok (ok_or e x) P \<longleftrightarrow> (\<forall>y. x = Some y \<longrightarrow> P y)"
  by (cases x) simp_all

lemma on_ok_mono: "on_ok r P \<Longrightarrow> (\<And>x. r = Inr x \<Longrightarrow> P x \<Longrightarrow> Q x) \<Longrightarrow> on_ok r Q"
  by (simp add: on_ok_def)

lemma on_ok_conj: "on_ok r P \<Longrightarrow> on_ok r Q \<Longrightarrow> on_ok r (\<lambda>x. P x \<and> Q x)"
  by (simp add: on_ok_def)

lemma on_ok_if: "(\<not> b \<Longrightarrow> on_ok r P) \<Longrightarrow> on_ok (if b then Inl e else r) P"
  by simp

lemma on_ok_step:
  assumes "on_ok r Q" "\<And>x. r = Inr x \<Longrightarrow> Q x \<Longrightarrow> on_ok (f x) P"
  shows "on_ok (and_then r f) P"
  using assms by (cases r) simp_all

lemma on_ok_any:
  assumes "\<And>x. r = Inr x \<Longrightarrow> on_ok (f x) P"
  shows "on_ok (and_then r f) P"
  using assms by (cases r) simp_all

end
