(* ===== verification/Protocol.thy ===== *)
theory Protocol
  imports Journal Results
begin

text \<open>
  What the journal promises about runs, without its tables: a command is admitted at most once, a session
  has at most one active run, and a run is dispatched once and ends once. It is the abstract
  side of a \<open>simulation\<close>.
\<close>

section \<open>The protocol\<close>

record protocol =
  pr_runs :: "uuid \<Rightarrow> (uuid \<times> run_state) option"
  pr_commands :: "uuid \<Rightarrow> (rstring \<times> uuid) option"

definition protocol_start :: protocol where
  "protocol_start = \<lparr>pr_runs = Map.empty, pr_commands = Map.empty\<rparr>"

inductive protocol_step :: "protocol \<Rightarrow> protocol \<Rightarrow> bool" where
  idle: "protocol_step p p"
| admit: "protocol_step p (p\<lparr>pr_runs := (pr_runs p)(i \<mapsto> (s, Run_Accepted)),
      pr_commands := (pr_commands p)(c \<mapsto> (d, i))\<rparr>)"
  if "pr_commands p c = None" "pr_runs p i = None"
    "\<And>k st. pr_runs p k = Some (s, st) \<Longrightarrow> \<not> run_active st"
| dispatch: "protocol_step p (p\<lparr>pr_runs := (pr_runs p)(i \<mapsto> (s, Run_Running))\<rparr>)"
  if "pr_runs p i = Some (s, Run_Accepted)"
| conclude: "protocol_step p (p\<lparr>pr_runs := (pr_runs p)(i \<mapsto> (s, st'))\<rparr>)"
  if "pr_runs p i = Some (s, st)" "run_active st" "\<not> run_active st'" "st' = Run_Completed \<longrightarrow> st = Run_Running"

inductive_cases protocol_stepE: "protocol_step p q"

text \<open>How the state of a run may change.\<close>

definition may_become :: "run_state \<Rightarrow> run_state \<Rightarrow> bool" where
  "may_become st st' \<longleftrightarrow> st' = st \<or> (st = Run_Accepted \<and> st' = Run_Running) \<or>
     (run_active st \<and> \<not> run_active st' \<and> (st' = Run_Completed \<longrightarrow> st = Run_Running))"

lemma protocol_advance:
  assumes "pr_runs p i = Some (s, st)" "may_become st st'"
  shows "protocol_step p (p\<lparr>pr_runs := (pr_runs p)(i \<mapsto> (s, st'))\<rparr>)"
proof (cases "st' = st")
  case True
  then have "p\<lparr>pr_runs := (pr_runs p)(i \<mapsto> (s, st'))\<rparr> = p" using assms(1) by (simp add: fun_upd_idem)
  then show ?thesis by (simp add: protocol_step.idle)
next
  case False
  with assms show ?thesis by (auto simp: may_become_def intro: protocol_step.intros)
qed

section \<open>Invariants\<close>

text \<open>Reachable states: every command names a run, no run is named twice, one active run a session.\<close>

definition commands_known :: "protocol \<Rightarrow> bool" where
  "commands_known p \<longleftrightarrow> (\<forall>c d i. pr_commands p c = Some (d, i) \<longrightarrow> i \<in> dom (pr_runs p))"

definition commands_injective :: "protocol \<Rightarrow> bool" where
  "commands_injective p \<longleftrightarrow>
     (\<forall>c c' d d' i. pr_commands p c = Some (d, i) \<longrightarrow> pr_commands p c' = Some (d', i) \<longrightarrow> c = c')"

definition active_at :: "protocol \<Rightarrow> uuid \<Rightarrow> uuid \<Rightarrow> bool" where
  "active_at p s i \<longleftrightarrow> (\<exists>st. pr_runs p i = Some (s, st) \<and> run_active st)"

definition single_active :: "protocol \<Rightarrow> bool" where
  "single_active p \<longleftrightarrow> (\<forall>s i k. active_at p s i \<longrightarrow> active_at p s k \<longrightarrow> i = k)"

definition protocol_inv :: "protocol \<Rightarrow> bool" where
  "protocol_inv p \<longleftrightarrow> commands_known p \<and> commands_injective p \<and> single_active p"

lemma protocol_inv_start: "protocol_inv protocol_start"
  by (simp add: protocol_inv_def commands_known_def commands_injective_def single_active_def active_at_def protocol_start_def)

lemma commands_known_step: "protocol_step p q \<Longrightarrow> commands_known p \<Longrightarrow> commands_known q"
  by (induction rule: protocol_step.induct) (auto simp: commands_known_def split: if_splits)

lemma commands_injective_step:
  assumes "protocol_step p q" "commands_known p" "commands_injective p"
  shows "commands_injective q"
  using assms
proof (induction rule: protocol_step.induct)
  case (admit p c i s d)
  have new: "pr_commands p e \<noteq> Some (d', i)" for e d'
    using admit(2,4) unfolding commands_known_def by (metis domIff)
  with admit(5) show ?case unfolding commands_injective_def by (simp split: if_splits) blast
qed (simp_all add: commands_injective_def)

lemma active_at_new:
  "protocol_step p q \<Longrightarrow> active_at q s i \<Longrightarrow> active_at q s k \<Longrightarrow> single_active p \<Longrightarrow> i = k"
proof (induction rule: protocol_step.induct)
  case (admit p c e t d)
  then show ?case by (cases "i = e"; cases "k = e") (auto simp: active_at_def single_active_def)
next
  case (dispatch p e t)
  have "run_active Run_Accepted" by (simp add: run_active_def)
  then have "active_at p s i" "active_at p s k"
    using dispatch(1-3) by (auto simp: active_at_def split: if_splits)
  with dispatch(4) show ?case by (auto simp: single_active_def)
next
  case (conclude p e t st st')
  then have "active_at p s i" "active_at p s k" by (auto simp: active_at_def split: if_splits)
  with conclude show ?case by (auto simp: single_active_def)
qed (auto simp: single_active_def)

lemma protocol_inv_step: "protocol_step p q \<Longrightarrow> protocol_inv p \<Longrightarrow> protocol_inv q"
  using commands_known_step commands_injective_step
  by (auto simp: protocol_inv_def single_active_def [of q] intro: active_at_new)

text \<open>What never changes again: a command, and the session of a run; a terminal state is final.\<close>

definition run_le :: "uuid \<times> run_state \<Rightarrow> uuid \<times> run_state \<Rightarrow> bool" where
  "run_le x y \<longleftrightarrow> fst y = fst x \<and> (\<not> run_active (snd x) \<longrightarrow> y = x) \<and> (snd y = Run_Accepted \<longrightarrow> snd x = Run_Accepted)"

definition protocol_le :: "protocol \<Rightarrow> protocol \<Rightarrow> bool" where
  "protocol_le p q \<longleftrightarrow> pr_commands p \<subseteq>\<^sub>m pr_commands q \<and>
     (\<forall>i x. pr_runs p i = Some x \<longrightarrow> (\<exists>y. pr_runs q i = Some y \<and> run_le x y))"

lemma run_le_trans: "run_le x y \<Longrightarrow> run_le y z \<Longrightarrow> run_le x z"
  unfolding run_le_def by (metis prod.collapse)

lemma protocol_le_refl: "protocol_le p p"
  by (simp add: protocol_le_def run_le_def)

lemma protocol_le_trans:
  assumes "protocol_le p q" "protocol_le q r"
  shows "protocol_le p r"
proof -
  have "\<exists>z. pr_runs r i = Some z \<and> run_le x z" if x: "pr_runs p i = Some x" for i x
  proof -
    obtain y where y: "pr_runs q i = Some y" "run_le x y" using assms(1) x unfolding protocol_le_def by blast
    obtain z where "pr_runs r i = Some z" "run_le y z" using assms(2) y(1) unfolding protocol_le_def by blast
    with y(2) run_le_trans show ?thesis by blast
  qed
  with assms show ?thesis by (auto simp: protocol_le_def intro: map_le_trans)
qed

lemma protocol_step_le: "protocol_step p q \<Longrightarrow> protocol_le p q"
  by (induction rule: protocol_step.induct) (auto simp: protocol_le_def run_le_def run_active_def map_le_def)

end
