(* ===== verification/Journal_Protocol.thy ===== *)
theory Journal_Protocol
  imports Journal_Invariant Protocol
begin

text \<open>
  The effect of every operation of the journal (\<open>Journal_Runs\<close>, \<open>Journal_Steering\<close>): it keeps the tables well
  formed, and what it does to the runs and the commands is one step of the protocol of \<open>Protocol\<close>.
\<close>

section \<open>Steps of the protocol\<close>

definition protocol_of :: "journal \<Rightarrow> protocol" where
  "protocol_of j =
     \<lparr>pr_runs = (\<lambda>i. map_option (\<lambda>w. (rw_session_id w, rn_state (rw_record w))) (bm_get (jn_runs j) i)),
      pr_commands = (\<lambda>c. map_option (\<lambda>w. (cw_digest w, cw_run_id w)) (bm_get (jn_commands j) c))\<rparr>"

text \<open>An operation keeps the tables well formed and is one step of the protocol.\<close>

definition effect :: "journal_env \<Rightarrow> journal \<Rightarrow> journal \<Rightarrow> bool" where
  "effect v j j' \<longleftrightarrow>
     (journal_wf v j \<longrightarrow> journal_wf v j' \<and> protocol_step (protocol_of j) (protocol_of j'))"

lemma quiet_protocol: "quiet v j j' \<Longrightarrow> protocol_of j' = protocol_of j"
  by (simp add: quiet_def protocol_of_def)

lemma effect_quiet: "quiet v j j' \<Longrightarrow> effect v j j'"
  using quiet_protocol [of v j j'] by (auto simp: effect_def quiet_def protocol_step.idle)

lemma effect_after_quiet: "quiet v j k \<Longrightarrow> effect v k l \<Longrightarrow> effect v j l"
  using quiet_protocol [of v j k] by (auto simp: effect_def quiet_def)

lemma effect_before_quiet: "effect v j k \<Longrightarrow> quiet v k l \<Longrightarrow> effect v j l"
  using quiet_protocol [of v k l] by (auto simp: effect_def quiet_def)

definition same_run :: "run_record \<Rightarrow> run_record \<Rightarrow> bool" where
  "same_run a b \<longleftrightarrow> rn_id a = rn_id b \<and> rn_command_id a = rn_command_id b \<and> rn_machine_id a = rn_machine_id b \<and>
     rn_principal_id a = rn_principal_id b \<and> rn_session_id a = rn_session_id b"

text \<open>A row of a run after a change of its record.\<close>

definition run_row_step :: "run_row \<Rightarrow> run_row \<Rightarrow> bool" where
  "run_row_step w u \<longleftrightarrow>
     rw_session_id u = rw_session_id w \<and> same_run (rw_record w) (rw_record u) \<and>
     rw_active u = run_active (rn_state (rw_record u)) \<and> may_become (rn_state (rw_record w)) (rn_state (rw_record u)) \<and>
     str_len (rn_partial_text (rw_record u)) \<le> max_partial"

lemma may_become_active: "may_become st st' \<Longrightarrow> run_active st' \<Longrightarrow> run_active st"
  by (auto simp: may_become_def run_active_def)

lemma runs_wf_update:
  assumes wf: "runs_wf S R C" and w: "bm_get R i = Some w" and step: "run_row_step w (f w)"
  shows "runs_wf S (bm_update i f R) C"
proof -
  have ok: "run_row_ok C i w" using wf w by (auto simp: runs_wf_def)
  then have "rw_active (f w) \<Longrightarrow> rw_active w"
    using step may_become_active by (auto simp: run_row_step_def run_row_ok_def Let_def)
  then have "one_active (bm_update i f R)"
    using wf w step unfolding runs_wf_def one_active_def run_row_step_def
    by (simp split: if_splits) metis
  moreover have "run_row_ok C i (f w)"
    using ok step by (simp add: run_row_step_def run_row_ok_def same_run_def Let_def)
  moreover have "rn_command_id (rw_record (f w)) = rn_command_id (rw_record w)" "rw_session_id (f w) = rw_session_id w"
    using step by (simp_all add: run_row_step_def same_run_def)
  moreover have "rn_command_id (rw_record w) = c" if "bm_get C c = Some cw" "cw_run_id cw = i" for c cw
  proof -
    have "map_option (\<lambda>w. rn_command_id (rw_record w)) (bm_get R (cw_run_id cw)) = Some c"
      using wf that(1) unfolding runs_wf_def by blast
    with w that(2) show ?thesis by simp
  qed
  ultimately show ?thesis using wf w by (auto simp: runs_wf_def comp_def)
qed

lemma events_wf_runs:
  assumes "events_wf S R E"
    "\<And>i w. bm_get R i = Some w \<Longrightarrow> map_option rw_session_id (bm_get R' i) = Some (rw_session_id w)"
  shows "events_wf S R' E"
proof -
  have "event_row_ok S R e \<Longrightarrow> event_row_ok S R' e" for e
    by (cases "bm_get R (je_run_id (ew_event e))") (auto simp: event_row_ok_def dest: assms(2))
  then show ?thesis using assms(1) by (auto simp: events_wf_def list_all_iff)
qed

lemma effect_update_run:
  assumes w: "bm_get (jn_runs j) i = Some w" and step: "run_row_step w (f w)"
    and j': "j' = j\<lparr>jn_runs := bm_update i f (jn_runs j)\<rparr>"
  shows "effect v j j'"
proof -
  have session: "rw_session_id (f w) = rw_session_id w" using step by (simp add: run_row_step_def)
  have "journal_wf v j'" if "journal_wf v j"
    using that w session unfolding j' journal_wf_def
    by (auto intro: runs_wf_update [where w = w] step elim!: events_wf_runs)
  moreover have "protocol_of j' = (protocol_of j)\<lparr>pr_runs := (pr_runs (protocol_of j))
      (i \<mapsto> (rw_session_id w, rn_state (rw_record (f w))))\<rparr>"
    using w session unfolding j' by (auto simp: protocol_of_def fun_eq_iff)
  moreover have "pr_runs (protocol_of j) i = Some (rw_session_id w, rn_state (rw_record w))"
    using w by (simp add: protocol_of_def)
  ultimately show ?thesis
    using step protocol_advance by (auto simp: effect_def run_row_step_def)
qed

text \<open>A record that keeps its identity and is still active; and one that ends.\<close>

lemma effect_write_run:
  assumes "read_run v j i = Inr run" "same_run run run'" "run_active (rn_state run') = run_active (rn_state run)"
    "may_become (rn_state run) (rn_state run')" "str_len (rn_partial_text run') \<le> max_partial"
  shows "effect v' j (write_run run' j)"
proof -
  obtain w where w: "bm_get (jn_runs j) i = Some w" "rw_record w = run" "rn_id run = i"
      "rw_active w = run_active (rn_state run)"
    using read_run_Inr [OF assms(1)] by auto
  show ?thesis
    by (rule effect_update_run [OF w(1), where f = "\<lambda>w. w\<lparr>rw_record := run'\<rparr>"])
      (use w assms in \<open>simp_all add: run_row_step_def write_run_def same_run_def\<close>)
qed

lemma effect_close_run:
  assumes "read_run v j i = Inr run" "same_run run run'" "\<not> run_active (rn_state run')"
    "may_become (rn_state run) (rn_state run')" "str_len (rn_partial_text run') \<le> max_partial"
  shows "effect v' j (close_run run' j)"
proof -
  obtain w where w: "bm_get (jn_runs j) i = Some w" "rw_record w = run" "rn_id run = i"
    using read_run_Inr [OF assms(1)] by auto
  show ?thesis
    by (rule effect_update_run [OF w(1), where f = "\<lambda>w. w\<lparr>rw_record := run', rw_active := False\<rparr>"])
      (use w assms in \<open>simp_all add: run_row_step_def close_run_def same_run_def\<close>)
qed

text \<open>The run is still the one read after steps that leave the runs alone.\<close>

lemma read_run_partial: "read_run v j i = Inr run \<Longrightarrow> str_len (rn_partial_text run) \<le> max_partial"
  by (auto simp: read_run_def Let_def split: option.splits if_splits)

lemma read_run_quiet: "read_run v j i = Inr run \<Longrightarrow> quiet v' j k \<Longrightarrow> read_run v k i = Inr run"
  by (simp add: read_run_def run_command_def quiet_def)

lemma run_known_write [simp]: "run_known run (write_run run' j) \<longleftrightarrow> run_known run j" "run_known run (close_run run' j) \<longleftrightarrow> run_known run j"
  by (cases "bm_get (jn_runs j) (rn_id run)"; auto simp: run_known_def write_run_def close_run_def)+

lemma run_known_same: "run_known run j \<Longrightarrow> same_run run run' \<Longrightarrow> run_known run' j"
  by (simp add: run_known_def same_run_def)

lemma same_run_updates [simp]:
  "same_run run run"
  "same_run run (run\<lparr>rn_state := st\<rparr>)" "same_run run (run\<lparr>rn_partial_text := t\<rparr>)"
  "same_run run (run\<lparr>rn_tool_previews := ps\<rparr>)" "same_run run (run\<lparr>rn_reasoning_previews := rs\<rparr>)"
  "same_run run (run\<lparr>rn_final_checkpointed := b\<rparr>)" "same_run run (run\<lparr>rn_usage := u, rn_final_checkpointed := b\<rparr>)"
  "same_run run (run\<lparr>rn_state := st, rn_terminal_reason := r\<rparr>)"
  by (simp_all add: same_run_def)

lemma may_become_refl [simp]: "may_become st st"
  by (simp add: may_become_def)

section \<open>The effect of every operation\<close>

lemma effect_write_event:
  assumes "read_run v j i = Inr run" "same_run run run'" "run_active (rn_state run') = run_active (rn_state run)"
    "may_become (rn_state run) (rn_state run')" "str_len (rn_partial_text run') \<le> max_partial"
    "append_event run' kind (write_run run' j) = Inr (n, j')" "brief kind"
  shows "effect v' j j'"
proof (rule effect_before_quiet [OF effect_write_run [OF assms(1-5)]])
  show "quiet v' (write_run run' j) j'"
    using quiet_append_event [OF assms(6) _ assms(7)] run_known_same [OF run_known_read [OF assms(1)] assms(2)] by simp
qed

lemma effect_create_session: "create_session v s j = Inr j' \<Longrightarrow> effect v j j'"
proof -
  assume create: "create_session v s j = Inr j'"
  from create obtain new: "\<not> bm_contains (jn_sessions j) (ss_id s)"
    and j': "j' = j\<lparr>jn_sessions := bm_insert (ss_id s)
      \<lparr>sw_revision = 0, sw_session = stored_session s, sw_next_sequence = 1\<rparr> (jn_sessions j)\<rparr>"
    and size: "jv_snapshot_size v (stored_session s) \<le> max_snapshot"
    by (auto simp: create_session_def and_then_Inr snapshot_session_Inr split: if_splits)
  have "journal_wf v j'" if wf: "journal_wf v j"
  proof -
    have sorted: "bm_sorted (jn_sessions j)" using wf by (simp add: journal_wf_def sessions_wf_def)
    have "filter (\<lambda>e. ew_session_id e = ss_id s) (jn_events j) = []"
      using wf new by (auto simp: journal_wf_def events_wf_def list_all_iff event_row_ok_def filter_empty_conv)
    then have "sequences (jn_events j) (ss_id s) = window 1" by (simp add: sequences_def window_def)
    then have "events_wf (jn_sessions j') (jn_runs j) (jn_events j)"
      using wf sorted unfolding j'
      by (auto simp: journal_wf_def events_wf_def list_all_iff event_row_ok_def bm_contains_insert split: if_splits)
    moreover have "sessions_wf v (jn_sessions j')"
      using wf size sorted unfolding j' by (auto simp: journal_wf_def sessions_wf_def split: if_splits)
    moreover have "runs_wf (jn_sessions j') (jn_runs j) (jn_commands j)"
      using wf sorted unfolding j' by (auto simp: journal_wf_def bm_contains_insert elim!: runs_wf_keys)
    ultimately show ?thesis by (simp add: journal_wf_def j')
  qed
  moreover have "protocol_of j' = protocol_of j" by (simp add: protocol_of_def j')
  ultimately show ?thesis by (simp add: effect_def protocol_step.idle)
qed

lemma active_run_exists_wf:
  assumes "journal_wf v j" "\<not> active_run_exists j s" "pr_runs (protocol_of j) k = Some (s, st)"
  shows "\<not> run_active st"
proof -
  obtain w where w: "bm_get (jn_runs j) k = Some w" "rw_session_id w = s" "rn_state (rw_record w) = st"
    using assms(3) by (auto simp: protocol_of_def)
  have "run_row_ok (jn_commands j) k w" using assms(1) w(1) by (auto simp: journal_wf_def runs_wf_def)
  moreover have "\<not> rw_active w"
    using assms(2) w(1,2) bm_get_SomeD by (fastforce simp: active_run_exists_def list_ex_iff)
  ultimately show ?thesis using w(3) by (simp add: run_row_ok_def Let_def)
qed

lemma one_active_insert:
  assumes "one_active R" "bm_sorted R" "\<And>k u. bm_get R k = Some u \<Longrightarrow> rw_session_id u = rw_session_id w \<Longrightarrow> \<not> rw_active u"
  shows "one_active (bm_insert i w R)"
  using assms unfolding one_active_def by (auto split: if_splits)

lemma runs_wf_insert:
  assumes wf: "runs_wf S R C" and fresh: "bm_get R i = None" "bm_get C c = None"
    and w: "bm_contains S (rw_session_id w)" "run_row_ok (bm_insert c cw C) i w"
    and cw: "cw_run_id cw = i" "rn_command_id (rw_record w) = c"
    and quiet: "\<And>k u. bm_get R k = Some u \<Longrightarrow> rw_session_id u = rw_session_id w \<Longrightarrow> \<not> rw_active u"
  shows "runs_wf S (bm_insert i w R) (bm_insert c cw C)"
proof -
  have sorted: "bm_sorted R" "bm_sorted C" using wf by (auto simp: runs_wf_def)
  have row: "run_row_ok (bm_insert c cw C) k u \<and> bm_contains S (rw_session_id u)"
    if u: "bm_get (bm_insert i w R) k = Some u" for k u
  proof (cases "k = i")
    case True
    with u w sorted show ?thesis by simp
  next
    case False
    with u sorted have old: "bm_get R k = Some u" by simp
    then have ok: "run_row_ok C k u" "bm_contains S (rw_session_id u)" using wf by (auto simp: runs_wf_def)
    then have "rn_command_id (rw_record u) \<noteq> c" using fresh(2) by (auto simp: run_row_ok_def Let_def)
    with ok sorted show ?thesis by (simp add: run_row_ok_def Let_def)
  qed
  have command: "map_option (\<lambda>w. rn_command_id (rw_record w)) (bm_get (bm_insert i w R) (cw_run_id b)) = Some a"
    if b: "bm_get (bm_insert c cw C) a = Some b" for a b
  proof (cases "a = c")
    case True
    with b cw sorted show ?thesis by simp
  next
    case False
    with b sorted have "bm_get C a = Some b" by simp
    then have old: "map_option (\<lambda>w. rn_command_id (rw_record w)) (bm_get R (cw_run_id b)) = Some a"
      using wf unfolding runs_wf_def by blast
    then have "cw_run_id b \<noteq> i" using fresh(1) by auto
    with old sorted show ?thesis by simp
  qed
  have "one_active (bm_insert i w R)"
    by (rule one_active_insert) (use wf quiet in \<open>auto simp: runs_wf_def\<close>)
  with row command sorted show ?thesis unfolding runs_wf_def by auto
qed

lemma admission_effect:
  assumes insert: "insert_run run j = Inr k" "insert_command c d (rn_id run) k = Inr l"
    and run: "rn_state run = Run_Accepted" "rn_command_id run = c" "\<not> is_nil (rn_machine_id run)"
      "\<not> is_nil (rn_principal_id run)" "rn_partial_text run = []"
    and wf: "journal_wf v j"
  shows "journal_wf v l" "protocol_step (protocol_of j) (protocol_of l)" "run_known run l"
proof -
  let ?i = "rn_id run" and ?s = "rn_session_id run"
  let ?w = "\<lparr>rw_session_id = ?s, rw_record = run, rw_active = True\<rparr>" and ?c = "\<lparr>cw_digest = d, cw_run_id = ?i\<rparr>"
  from insert have new: "\<not> bm_contains (jn_runs j) ?i" "bm_contains (jn_sessions j) ?s" "\<not> active_run_exists j ?s"
      "\<not> bm_contains (jn_commands j) c"
    and l: "l = j\<lparr>jn_runs := bm_insert ?i ?w (jn_runs j), jn_commands := bm_insert c ?c (jn_commands j)\<rparr>"
    by (auto simp: insert_run_def insert_command_def split: if_splits)
  have sorted: "bm_sorted (jn_runs j)" "bm_sorted (jn_commands j)" using wf by (auto simp: journal_wf_def runs_wf_def)
  have fresh: "bm_get (jn_runs j) ?i = None" "bm_get (jn_commands j) c = None"
    using new by (auto simp: bm_contains_get)
  have pr: "protocol_of l = (protocol_of j)\<lparr>pr_runs := (pr_runs (protocol_of j))(?i \<mapsto> (?s, Run_Accepted)),
      pr_commands := (pr_commands (protocol_of j))(c \<mapsto> (d, ?i))\<rparr>"
    using sorted run(1) by (auto simp: protocol_of_def l fun_eq_iff)
  show "protocol_step (protocol_of j) (protocol_of l)"
    unfolding pr
  proof (rule protocol_step.admit)
    show "\<not> run_active st" if "pr_runs (protocol_of j) k = Some (?s, st)" for k st
      using active_run_exists_wf [OF wf new(3) that] .
  qed (use fresh in \<open>simp_all add: protocol_of_def\<close>)
  have idle: "\<not> rw_active u" if "bm_get (jn_runs j) k = Some u" "rw_session_id u = ?s" for k u
    using new(3) that bm_get_SomeD by (fastforce simp: active_run_exists_def list_ex_iff)
  have "runs_wf (jn_sessions j) (bm_insert ?i ?w (jn_runs j)) (bm_insert c ?c (jn_commands j))"
  proof (rule runs_wf_insert)
    show "run_row_ok (bm_insert c ?c (jn_commands j)) ?i ?w"
      using run sorted by (simp add: run_row_ok_def run_active_def)
  qed (use wf fresh new(2) run(2) idle in \<open>auto simp: journal_wf_def\<close>)
  moreover have "events_wf (jn_sessions j) (bm_insert ?i ?w (jn_runs j)) (jn_events j)"
    by (rule events_wf_runs [of _ "jn_runs j"]) (use wf sorted fresh in \<open>auto simp: journal_wf_def\<close>)
  ultimately show "journal_wf v l" using wf by (simp add: journal_wf_def l)
  show "run_known run l" using sorted by (simp add: run_known_def l)
qed

lemma check_turn_ids:
  "check_turn g r j = Inr () \<Longrightarrow> \<not> is_nil (ta_machine_id r) \<and> \<not> is_nil (ta_principal_id r)"
  by (auto simp: check_turn_def split: if_splits)

lemma record_turn_effect:
  assumes "record_turn v clock i g r now seen current j = Inr (run, j')" "journal_wf v j"
    "\<not> is_nil (ta_machine_id r)" "\<not> is_nil (ta_principal_id r)"
  shows "journal_wf v j'" "protocol_step (protocol_of j) (protocol_of j')" "run = new_run g r i"
    "bm_get (jn_commands j') (ta_command_id r) = Some \<lparr>cw_digest = turn_digest v r, cw_run_id = i\<rparr>"
proof -
  let ?run = "new_run g r i"
  obtain s k l m e n where
    k: "update_session v clock seen s j = Inr k"
    and l: "insert_run ?run (append_public_message_created ?run (length (ss_messages s) - 1) (last (ss_messages s)) k) = Inr l"
    and m: "insert_command (ta_command_id r) (turn_digest v r) i l = Inr m"
    and e: "admit_goal v r now m = Inr e"
    and n: "append_event ?run Ev_Accepted (append_public_run_command ?run e) = Inr (n, j')"
    and run: "run = ?run"
    using assms(1) by (auto simp: record_turn_def and_then_Inr Let_def)
  let ?k = "append_public_message_created ?run (length (ss_messages s) - 1) (last (ss_messages s)) k"
  have jk: "quiet v j ?k" by (rule quiet_trans [OF quiet_update_session [OF k] quiet_public(1)])
  with assms(2) have wf: "journal_wf v ?k" by (simp add: quiet_def)
  have fields: "rn_state ?run = Run_Accepted" "rn_command_id ?run = ta_command_id r" "rn_id ?run = i"
      "rn_machine_id ?run = ta_machine_id r" "rn_principal_id ?run = ta_principal_id r" "rn_partial_text ?run = []"
    by (simp_all add: new_run_def)
  note admitted = admission_effect [OF l _ fields(1,2) _ _ fields(6) wf]
  have adm: "journal_wf v m" "protocol_step (protocol_of ?k) (protocol_of m)" "run_known ?run m"
    using admitted [of "turn_digest v r" m] m fields assms(3,4) by simp_all
  have me: "quiet v m (append_public_run_command ?run e)" by (rule quiet_trans [OF quiet_admit_goal [OF e] quiet_public(4)])
  then have mj: "quiet v m j'"
    by (rule quiet_trans) (rule quiet_append_event [OF n run_known_quiet [OF adm(3) me]], simp)
  show "journal_wf v j'" using mj adm(1) by (simp add: quiet_def)
  show "protocol_step (protocol_of j) (protocol_of j')"
    using adm(2) quiet_protocol [OF jk] quiet_protocol [OF mj] by simp
  show "run = ?run" by (rule run)
  have "jn_commands l = jn_commands ?k" using l by (auto simp: insert_run_def split: if_splits)
  moreover have "bm_sorted (jn_commands ?k)" using wf by (simp add: journal_wf_def runs_wf_def)
  ultimately have "bm_get (jn_commands m) (ta_command_id r) = Some \<lparr>cw_digest = turn_digest v r, cw_run_id = i\<rparr>"
    using m by (auto simp: insert_command_def split: if_splits)
  then show "bm_get (jn_commands j') (ta_command_id r) = Some \<lparr>cw_digest = turn_digest v r, cw_run_id = i\<rparr>"
    using mj by (simp add: quiet_def)
qed

lemma admit_turn_command:
  assumes "admit_turn v clock i g r now j = Inr (a, j')" "journal_wf v j"
  shows "bm_get (jn_commands j') (ta_command_id r) = Some \<lparr>cw_digest = turn_digest v r, cw_run_id = rn_id (ad_run a)\<rparr>"
proof (cases "bm_get (jn_commands j) (ta_command_id r)")
  case None
  have check: "check_turn g r j = Inr ()" using assms(1) by (auto simp: admit_turn_def and_then_Inr)
  obtain seen current run where run: "record_turn v clock i g r now seen current j = Inr (run, j')" "ad_run a = run"
    using None assms(1) by (auto simp: admit_turn_def and_then_Inr)
  note recorded = record_turn_effect [OF run(1) assms(2)]
  show ?thesis using recorded(3,4) check_turn_ids [OF check] run(2) by (simp add: new_run_def)
next
  case (Some c)
  then obtain run where "cw_digest c = turn_digest v r" "read_run v j (cw_run_id c) = Inr run" "ad_run a = run" "j' = j"
    using assms(1) by (auto simp: admit_turn_def and_then_Inr split: if_splits)
  with Some show ?thesis by (cases c) (auto dest: read_run_Inr)
qed

lemma effect_admit_turn: "admit_turn v clock i g r now j = Inr (a, j') \<Longrightarrow> effect v j j'"
proof -
  assume admit: "admit_turn v clock i g r now j = Inr (a, j')"
  then have check: "check_turn g r j = Inr ()" by (auto simp: admit_turn_def and_then_Inr)
  show ?thesis
  proof (cases "bm_get (jn_commands j) (ta_command_id r)")
    case None
    with admit obtain seen current run where
      "record_turn v clock i g r now seen current j = Inr (run, j')"
      by (auto simp: admit_turn_def and_then_Inr)
    then show ?thesis
      using record_turn_effect check_turn_ids [OF check] by (auto simp: effect_def)
  next
    case (Some c)
    with admit have "j' = j" by (auto simp: admit_turn_def and_then_Inr split: if_splits)
    then show ?thesis by (simp add: effect_quiet)
  qed
qed

lemma effect_mark_running: "mark_running v g i j = Inr j' \<Longrightarrow> effect v' j j'"
proof -
  assume mark: "mark_running v g i j = Inr j'"
  then obtain run n where "read_run v j i = Inr run" "rn_state run = Run_Accepted"
    "append_event (run\<lparr>rn_state := Run_Running\<rparr>) Ev_Started (write_run (run\<lparr>rn_state := Run_Running\<rparr>) j) = Inr (n, j')"
    by (auto simp: mark_running_def and_then_Inr owned_run_Inr Let_def)
  then show ?thesis
    using effect_write_event [of v j i run "run\<lparr>rn_state := Run_Running\<rparr>"] read_run_partial
    by (simp add: run_active_def may_become_def)
qed

lemma effect_append_text: "append_text v g i delta j = Inr (n, j') \<Longrightarrow> effect v' j j'"
proof -
  assume append: "append_text v g i delta j = Inr (n, j')"
  obtain run where run: "read_run v j i = Inr run" "rn_state run = Run_Running"
    using append by (auto simp: append_text_def and_then_Inr owned_run_Inr split: if_splits)
  let ?run = "run\<lparr>rn_partial_text := rn_partial_text run @ delta\<rparr>"
  obtain k where size: "str_len (rn_partial_text run @ delta) \<le> max_partial" and brief: "brief (Ev_TextDelta delta)"
    and k: "append_public_text ?run (str_len (rn_partial_text run)) delta (write_run ?run j) = Inr k"
    and event: "append_event ?run (Ev_TextDelta delta) k = Inr (n, j')"
    using append run
    by (auto simp: append_text_def and_then_Inr owned_run_def is_some_and_def Let_def split: if_splits option.splits)
  have w: "effect v' j (write_run ?run j)"
    by (rule effect_write_run [OF run(1)]) (use size in simp_all)
  have wk: "quiet v' (write_run ?run j) k" by (rule quiet_append_public_text [OF k])
  have "run_known ?run (write_run ?run j)"
    using run_known_same [OF run_known_read [OF run(1)], of ?run] by simp
  then have "quiet v' k j'" using quiet_append_event [OF event _ brief] run_known_quiet wk by blast
  then show ?thesis by (rule effect_before_quiet [OF effect_before_quiet [OF w wk]])
qed

lemma effect_set_tool_previews: "set_tool_previews v g i ps j = Inr j' \<Longrightarrow> effect v' j j'"
proof -
  assume set: "set_tool_previews v g i ps j = Inr j'"
  then obtain run where run: "read_run v j i = Inr run"
    by (auto simp: set_tool_previews_def and_then_Inr owned_run_Inr split: if_splits)
  let ?run = "run\<lparr>rn_tool_previews := ps\<rparr>"
  consider "j' = j"
    | n where "append_event ?run Ev_CanonicalCheckpoint (write_run ?run (append_public_tool_activity ?run j)) = Inr (n, j')"
    using set run by (auto simp: set_tool_previews_def and_then_Inr owned_run_Inr Let_def split: if_splits)
  then show ?thesis
  proof cases
    case 1
    then show ?thesis by (simp add: effect_quiet)
  next
    case 2
    have k: "quiet v' j (append_public_tool_activity ?run j)" by simp
    show ?thesis
      by (rule effect_after_quiet [OF k effect_write_event [OF read_run_quiet [OF run k] _ _ _ _ 2]])
        (use read_run_partial [OF run] in simp_all)
  qed
qed

lemma effect_set_reasoning_previews: "set_reasoning_previews v g i ps j = Inr j' \<Longrightarrow> effect v' j j'"
proof -
  assume set: "set_reasoning_previews v g i ps j = Inr j'"
  then obtain run kept n where run: "read_run v j i = Inr run"
    and event: "append_event (run\<lparr>rn_reasoning_previews := kept\<rparr>) Ev_CanonicalCheckpoint
      (write_run (run\<lparr>rn_reasoning_previews := kept\<rparr>) j) = Inr (n, j')"
    by (auto simp: set_reasoning_previews_def and_then_Inr owned_run_Inr Let_def split: if_splits)
  show ?thesis
    by (rule effect_write_event [OF run _ _ _ _ event]) (use read_run_partial [OF run] in simp_all)
qed

lemma effect_record_provider_attempt: "record_provider_attempt v clock g i a j = Inr j' \<Longrightarrow> effect v j j'"
proof -
  assume rp: "record_provider_attempt v clock g i a j = Inr j'"
  then obtain run seen current where run: "read_run v j i = Inr run"
      and current: "read_session v j (rn_session_id run) = Inr (seen, current)"
    by (auto simp: record_provider_attempt_def and_then_Inr split: if_splits)
  with rp obtain s where "upsert_provider_attempt i a current = Inr s"
    by (cases "upsert_provider_attempt i a current") (auto simp: record_provider_attempt_def and_then_Inr)
  with rp run current obtain k n where k: "update_session v clock seen s j = Inr k"
      and event: "append_event run Ev_CanonicalCheckpoint k = Inr (n, j')"
    by (auto simp: record_provider_attempt_def and_then_Inr split: if_splits)
  have jk: "quiet v j k" by (rule quiet_update_session [OF k])
  have "quiet v k j'" by (rule quiet_append_event [OF event run_known_quiet [OF run_known_read [OF run] jk]]) simp
  with jk show ?thesis by (rule effect_quiet [OF quiet_trans])
qed

lemma finalize_reasoning_same [simp]:
  "same_run run (finalize_reasoning s ms previous run)" "rn_state (finalize_reasoning s ms previous run) = rn_state run"
  "rn_partial_text (finalize_reasoning s ms previous run) = rn_partial_text run"
  by (simp_all add: finalize_reasoning_def same_run_def Let_def)

lemma quiet_fold_public: "quiet v j (fold (\<lambda>k. append_public_message run k (ms ! k)) ks j)"
proof (induction ks arbitrary: j)
  case (Cons k ks)
  then show ?case by simp (rule quiet_trans [OF quiet_public(2)])
qed simp

lemma effect_save_checkpoint:
  assumes "save_checkpoint v clock run seen current ms previous u a b j = Inr j'" "read_run v j i = Inr run"
  shows "effect v j j'"
proof -
  let ?run = "(finalize_reasoning current ms previous run)\<lparr>rn_usage := u, rn_final_checkpointed := False\<rparr>"
  obtain s k n where k: "update_session v clock seen s j = Inr k"
    and event: "append_event ?run Ev_CanonicalCheckpoint
      (write_run ?run (fold (\<lambda>k. append_public_message ?run k (ms ! k)) [previous..<length ms] k)) = Inr (n, j')"
    using assms(1) by (auto simp: save_checkpoint_def and_then_Inr Let_def)
  have q: "quiet v j (fold (\<lambda>k. append_public_message ?run k (ms ! k)) [previous..<length ms] k)"
    by (rule quiet_trans [OF quiet_update_session [OF k] quiet_fold_public])
  show ?thesis
    by (rule effect_after_quiet [OF q effect_write_event [OF read_run_quiet [OF assms(2) q] _ _ _ _ event]])
      (use read_run_partial [OF assms(2)] in \<open>simp_all add: same_run_def finalize_reasoning_def Let_def\<close>)
qed

lemma quiet_accept_appended:
  "accept_appended v run new previous seen now reject j = Inr (out, j') \<Longrightarrow> run_known run j \<Longrightarrow> quiet v' j j'"
  by (auto simp: accept_appended_def and_then_Inr quiet_apply_receipts split: if_splits)

text \<open>A checkpoint either changes nothing or saves the history it accepts.\<close>

lemma checkpoint_cases:
  assumes "checkpoint_reconciled v clock g i ms u now reject j = Inr (out, j')"
  obtains (same) run seen current where "owned_run v g i j = Inr run" "out = ms" "j' = j"
      "read_session v j (rn_session_id run) = Inr (seen, current)" "length ms = length (ss_messages current)"
      "map wire ms = map wire (ss_messages current)"
  | (saved) run seen current a b appended k where
      "owned_run v g i j = Inr run" "rn_state run = Run_Running"
      "read_session v j (rn_session_id run) = Inr (seen, current)"
      "length (ss_messages current) \<le> length ms"
      "map wire (take (length (ss_messages current)) ms) = map wire (ss_messages current)"
      "\<not> list_ex (\<lambda>m. m_role m = System) ms"
      "accept_appended v run (drop (length (ss_messages current)) ms) (length (ss_messages current)) seen now reject j =
        Inr (appended, k)"
      "out = take (length (ss_messages current)) ms @ appended"
      "save_checkpoint v clock run seen current out (length (ss_messages current)) u a b k = Inr j'"
proof -
  define content :: "(string, unit) result" where "content =
    (if list_ex (\<lambda>m. m_parts m \<noteq> [] \<or> m_tool_output m \<noteq> None \<or> m_tool_outcome m \<noteq> None) ms
     then require_content_schema g j else Inr ())"
  note [simp del] = checked_sub_Some list_ex_iff
  note E = assms [unfolded checkpoint_reconciled_def, folded content_def]
  obtain run where run: "owned_run v g i j = Inr run" and checked: "content = Inr ()"
    using E by (auto simp: and_then_Inr)
  have state: "rn_state run = Run_Running" and guidance: "\<not> list_ex (\<lambda>m. m_role m = System) ms"
    using E by (auto simp: run checked split: if_splits)
  obtain seen current where session: "read_session v j (rn_session_id run) = Inr (seen, current)"
    using E by (auto simp: run checked state guidance and_then_Inr)
  let ?n = "length (ss_messages current)"
  have rest: "?n \<le> length ms" "map wire (take ?n ms) = map wire (ss_messages current)"
    using E by (auto simp: run checked state guidance session Let_def
        split: if_splits)
  obtain a b where sub: "checked_sub (us_input u) (us_input (rn_usage run)) = Some a"
      "checked_sub (us_output u) (us_output (rn_usage run)) = Some b"
    using E by (auto simp: run checked state guidance session rest
        and_then_Inr Let_def)
  note known = run checked state guidance session rest sub Let_def
  show thesis
  proof (cases "length ms = ?n \<and> a = 0 \<and> b = 0")
    case True
    with E have "out = ms" "j' = j" by (simp_all add: known)
    with True run same session rest show thesis by simp
  next
    case False
    then obtain appended k where
      "accept_appended v run (drop ?n ms) ?n seen now reject j = Inr (appended, k)" "out = take ?n ms @ appended"
      "save_checkpoint v clock run seen current out ?n u a b k = Inr j'"
      using E by (auto simp: known and_then_Inr)
    with run state guidance session rest saved show thesis by blast
  qed
qed

lemma effect_checkpoint: "checkpoint_reconciled v clock g i ms u now reject j = Inr (out, j') \<Longrightarrow> effect v j j'"
proof (erule checkpoint_cases)
  fix run seen current
  assume "j' = j"
  then show ?thesis by (simp add: effect_quiet)
next
  fix run seen current a b appended k
  assume own: "owned_run v g i j = Inr run"
    and k: "accept_appended v run (drop (length (ss_messages current)) ms) (length (ss_messages current)) seen now reject j =
      Inr (appended, k)"
    and saved: "save_checkpoint v clock run seen current out (length (ss_messages current)) u a b k = Inr j'"
  have run: "read_run v j i = Inr run" using own by (simp add: owned_run_Inr)
  have q: "quiet v j k" by (rule quiet_accept_appended [OF k run_known_read [OF run]])
  show ?thesis by (rule effect_after_quiet [OF q effect_save_checkpoint [OF saved read_run_quiet [OF run q]]])
qed

lemma quiet_register_run_scope: "register_run_scope v clock g i r j = Inr j' \<Longrightarrow> quiet v j j'"
  by (auto simp: register_run_scope_def and_then_Inr Let_def quiet_update_session simp del: split_paired_Ex split: if_splits)

lemma accept_checkpoint_Inr:
  assumes "accept_checkpoint v g i ms u j = Inr j'"
  obtains run seen current n where "owned_run v g i j = Inr run" "rn_state run = Run_Running"
    "5 \<le> jn_opened j \<Longrightarrow> cancel_pending v j (rn_session_id run) i = Inr False"
    "steering_schema_version \<le> jn_opened j \<Longrightarrow> queued_steering j i = []"
    "read_session v j (rn_session_id run) = Inr (seen, current)"
    "map wire ms = map wire (ss_messages current)" "u = rn_usage run" "ms \<noteq> []" "is_answer (last ms)" "\<not> has_pending_tools ms"
    "\<not> rn_final_checkpointed run"
    "append_event (run\<lparr>rn_final_checkpointed := True\<rparr>) Ev_CanonicalCheckpoint
      (write_run (run\<lparr>rn_final_checkpointed := True\<rparr>) j) = Inr (n, j')"
proof -
  note E = assms [unfolded accept_checkpoint_def]
  obtain run where run: "owned_run v g i j = Inr run" using E by (auto simp: and_then_Inr)
  have state: "rn_state run = Run_Running" using E by (auto simp: run split: if_splits)
  have cancel: "(if 5 \<le> jn_opened j then cancel_pending v j (rn_session_id run) i else Inr False) = Inr False"
    using E by (auto simp: run state and_then_Inr split: if_splits)
  have steering: "(if steering_schema_version \<le> jn_opened j then ensure_no_pending j i else Inr ()) = Inr ()"
    using E by (auto simp: run state cancel and_then_Inr split: if_splits)
  obtain seen current where session: "read_session v j (rn_session_id run) = Inr (seen, current)"
    using E by (auto simp: run state cancel steering and_then_Inr)
  note known = run state cancel steering session
  have rest: "map wire ms = map wire (ss_messages current)" "u = rn_usage run" "ms \<noteq> []" "is_answer (last ms)"
      "\<not> has_pending_tools ms" "\<not> rn_final_checkpointed run"
    using E by (auto simp: known split: if_splits)
  obtain n where "append_event (run\<lparr>rn_final_checkpointed := True\<rparr>) Ev_CanonicalCheckpoint
      (write_run (run\<lparr>rn_final_checkpointed := True\<rparr>) j) = Inr (n, j')"
    using E by (auto simp: known rest and_then_Inr Let_def)
  with that run state cancel steering session rest show thesis by (auto simp: ensure_no_pending_def split: if_splits)
qed

lemma effect_accept_checkpoint: "accept_checkpoint v g i ms u j = Inr j' \<Longrightarrow> effect v j j'"
proof (erule accept_checkpoint_Inr)
  fix run n assume own: "owned_run v g i j = Inr run"
    and event: "append_event (run\<lparr>rn_final_checkpointed := True\<rparr>) Ev_CanonicalCheckpoint
      (write_run (run\<lparr>rn_final_checkpointed := True\<rparr>) j) = Inr (n, j')"
  have run: "read_run v j i = Inr run" using own by (simp add: owned_run_Inr)
  show "effect v j j'" by (rule effect_write_event [OF run _ _ _ _ event]) (use read_run_partial [OF run] in simp_all)
qed

text \<open>A terminal outcome: the receipts and the session first, then the run closes, then what reports it.\<close>

lemma effect_write_outcome:
  assumes "write_outcome v clock run out seen current j = Inr (run', j')" "read_run v j i = Inr run"
    "\<not> run_active (ot_state out)" "run_active (rn_state run)" "ot_state out = Run_Completed \<Longrightarrow> rn_state run = Run_Running"
  shows "effect v j j'" "run' = run\<lparr>rn_state := ot_state out, rn_terminal_reason := ot_reason out\<rparr>"
    "\<exists>w. bm_get (jn_runs j') i = Some w \<and> rw_record w = run' \<and> \<not> rw_active w"
proof -
  let ?run = "run\<lparr>rn_state := ot_state out, rn_terminal_reason := ot_reason out\<rparr>"
  obtain s k l m n where "close_session (jv_fingerprint v) clock (rn_id run) out current = Inr s"
    and k: "finish_steering v run (ot_state out) seen j = Inr k"
    and l: "update_session v clock seen s k = Inr l"
    and m: "(let l = if ot_final_text out \<noteq> None
          then append_public_message run (length (ss_messages s) - 1) (last (ss_messages s)) l else l in
        if 12 \<le> jn_opened l then append_notice ?run (close_run ?run l) else Inr (close_run ?run l)) = Inr m"
    and event: "append_event ?run (Ev_Terminal (ot_state out)) m = Inr (n, j')"
    and run': "run' = ?run"
    using assms(1) by (auto simp: write_outcome_def and_then_Inr Let_def)
  define p where "p = (if ot_final_text out \<noteq> None
          then append_public_message run (length (ss_messages s) - 1) (last (ss_messages s)) l else l)"
  have known: "run_known run j" by (rule run_known_read [OF assms(2)])
  have "quiet v l p" by (simp add: p_def)
  with quiet_finish_steering [OF k known] quiet_update_session [OF l]
  have jp: "quiet v j p" by (blast intro: quiet_trans)
  have close: "effect v p (close_run ?run p)"
    by (rule effect_close_run [OF read_run_quiet [OF assms(2) jp]])
      (use assms(3-5) read_run_partial [OF assms(2)] in \<open>auto simp: may_become_def\<close>)
  have "(if 12 \<le> jn_opened p then append_notice ?run (close_run ?run p) else Inr (close_run ?run p)) = Inr m"
    using m unfolding p_def Let_def .
  then have "quiet v (close_run ?run p) m" by (auto simp: quiet_append_notice split: if_splits)
  moreover have "run_known ?run (close_run ?run p)"
    using run_known_same [OF run_known_quiet [OF known jp], of ?run] by simp
  ultimately have "quiet v (close_run ?run p) j'"
    using quiet_append_event [OF event _ brief_simps(7)] run_known_quiet quiet_trans by blast
  then have quiet: "quiet v (close_run ?run p) j'" .
  then have "effect v p j'" using close effect_before_quiet by blast
  with jp show "effect v j j'" by (rule effect_after_quiet)
  show "run' = ?run" by (rule run')
  have "jn_runs j' = jn_runs (close_run ?run p)" "jn_runs p = jn_runs j" using quiet jp by (simp_all add: quiet_def)
  then show "\<exists>w. bm_get (jn_runs j') i = Some w \<and> rw_record w = run' \<and> \<not> rw_active w"
    using read_run_Inr [OF assms(2)] run' by (auto simp: close_run_def)
qed

lemma check_outcome_Inr: "check_outcome out = Inr () \<Longrightarrow> \<not> run_active (ot_state out)"
  by (simp add: check_outcome_def split: if_splits)

lemma adjust_outcome_Inr:
  assumes "adjust_outcome v j run out = Inr out'" "\<not> run_active (ot_state out)"
  shows "\<not> run_active (ot_state out')"
    "ot_state out' = Run_Completed \<Longrightarrow> out' = out \<and> pending_assignments j (rn_id run) = 0 \<and>
       (5 \<le> jn_opened j \<longrightarrow> cancel_pending v j (rn_session_id run) (rn_id run) = Inr False)"
  using assms by (auto simp: adjust_outcome_def and_then_Inr run_active_def split: if_splits)

text \<open>What a run that is finished passed.\<close>

lemma finish_classified_Inr:
  assumes "finish_classified v clock g i out j = Inr (run', j')"
  obtains run seen current out' where "owned_run v g i j = Inr run" "run_active (rn_state run)"
    "check_outcome out = Inr ()" "adjust_outcome v j run out = Inr out'"
    "ot_state out' = Run_Completed \<Longrightarrow> rn_state run = Run_Running"
    "ot_state out' = Run_Completed \<Longrightarrow> ot_final_text out' \<noteq> None \<or> rn_final_checkpointed run"
    "read_session v j (rn_session_id run) = Inr (seen, current)"
    "ot_state out' = Run_Completed \<Longrightarrow> \<not> has_pending_tools (ss_messages current)"
    "write_outcome v clock run out' seen current j = Inr (run', j')"
proof -
  note E = assms [unfolded finish_classified_def]
  obtain run where check: "check_outcome out = Inr ()" and run: "owned_run v g i j = Inr run"
    using E by (auto simp: and_then_Inr)
  have active: "run_active (rn_state run)" using E by (auto simp: check run split: if_splits)
  obtain out' where adjust: "adjust_outcome v j run out = Inr out'"
    using E by (auto simp: check run active and_then_Inr)
  have running: "\<not> (ot_state out' = Run_Completed \<and> rn_state run \<noteq> Run_Running)"
    using E by (auto simp: check run active adjust)
  have final: "\<not> (ot_state out' = Run_Completed \<and> ot_final_text out' = None \<and> \<not> rn_final_checkpointed run)"
    using E running by (auto simp: check run active adjust)
  obtain seen current where session: "read_session v j (rn_session_id run) = Inr (seen, current)"
    using E running final by (auto simp: check run active adjust and_then_Inr)
  have tools: "\<not> (ot_state out' = Run_Completed \<and> has_pending_tools (ss_messages current))"
    using E running final by (auto simp: check run active adjust session split: if_splits)
  have "write_outcome v clock run out' seen current j = Inr (run', j')"
    using E running final tools by (auto simp: check run active adjust session split: if_splits)
  with that run active check adjust running final session tools show thesis by blast
qed

lemma effect_finish_classified:
  assumes "finish_classified v clock g i out j = Inr (run', j')"
  shows "effect v j j'" "\<exists>w. bm_get (jn_runs j') i = Some w \<and> rw_record w = run' \<and> \<not> rw_active w" "\<not> run_active (rn_state run')"
proof -
  obtain run seen current out'
    where own: "owned_run v g i j = Inr run" and active: "run_active (rn_state run)"
    and check: "check_outcome out = Inr ()" and adjust: "adjust_outcome v j run out = Inr out'"
    and running: "ot_state out' = Run_Completed \<Longrightarrow> rn_state run = Run_Running"
    and outcome: "write_outcome v clock run out' seen current j = Inr (run', j')"
    using finish_classified_Inr [OF assms] by metis
  have run: "read_run v j i = Inr run" using own by (simp add: owned_run_Inr)
  have ended: "\<not> run_active (ot_state out')" by (rule adjust_outcome_Inr(1) [OF adjust check_outcome_Inr [OF check]])
  note written = effect_write_outcome [OF outcome run ended active running]
  show "effect v j j'" "\<exists>w. bm_get (jn_runs j') i = Some w \<and> rw_record w = run' \<and> \<not> rw_active w" by (rule written; assumption)+
  show "\<not> run_active (rn_state run')" using written(2) ended by simp
qed

lemma effect_recover_interrupted: "recover_interrupted v clock g j = Inr (r, j') \<Longrightarrow> effect v j j'"
  by (auto simp: recover_interrupted_def and_then_Inr effect_quiet effect_finish_classified split: option.splits)

text \<open>Steering and cancellation leave the runs alone.\<close>

lemma quiet_queue_steering:
  assumes "queue_steering v clock g q now j = Inr (out, j')"
  shows "quiet v j j'"
proof (cases "receipt_exists j (sg_receipt_id q)")
  case True
  with assms have "j' = j" by (auto simp: queue_steering_def and_then_Inr split: if_splits)
  then show ?thesis by simp
next
  case False
  obtain run where run: "read_run v j (sg_run_id q) = Inr run"
    using assms False by (auto simp: queue_steering_def and_then_Inr split: if_splits)
  obtain T seen s k l n where k: "update_session v clock seen s (j\<lparr>jn_steering := T\<rparr>) = Inr k"
    and l: "stop_continuation (sg_session_id q) Stop_UserInput now k = Inr l"
    and event: "append_event run (Ev_SteeringQueued (sg_receipt_id q)) l = Inr (n, j')"
    using assms False run by (auto simp: queue_steering_def and_then_Inr Let_def split: if_splits)
  have "quiet v j (j\<lparr>jn_steering := T\<rparr>)" by (rule quiet_same_tables) simp_all
  with quiet_update_session [OF k] quiet_stop_continuation [OF l] have jl: "quiet v j l" by (blast intro: quiet_trans)
  then have "quiet v l j'" by (rule quiet_append_event [OF event run_known_quiet [OF run_known_read [OF run]]]) simp
  with jl show ?thesis by (rule quiet_trans)
qed

lemma quiet_reject_steering:
  assumes "reject_steering v clock g run_id i reason j = Inr (r, j')"
  shows "quiet v j j'"
proof -
  obtain run r0 where run: "read_run v j run_id = Inr run" and r0: "read_steering v j i = Inr r0"
    using assms by (auto simp: reject_steering_def and_then_Inr split: if_splits)
  show ?thesis
  proof (cases "st_status r0 = NotApplied")
    case True
    with assms run r0 have "j' = j" by (auto simp: reject_steering_def and_then_Inr split: if_splits)
    then show ?thesis by simp
  next
    case False
    obtain r1 k seen s l n where k: "write_steering r1 j = Inr k" and l: "update_session v clock seen s k = Inr l"
      and event: "append_event run (Ev_SteeringRejected i reason) l = Inr (n, j')"
      using assms run r0 False by (auto simp: reject_steering_def and_then_Inr Let_def split: if_splits)
    have jl: "quiet v j l" using quiet_write_steering [OF k] quiet_update_session [OF l] by (rule quiet_trans)
    then have "quiet v l j'" by (rule quiet_append_event [OF event run_known_quiet [OF run_known_read [OF run]]]) simp
    with jl show ?thesis by (rule quiet_trans)
  qed
qed

lemma quiet_request_cancel: "request_cancel v r now j = Inr (out, j') \<Longrightarrow> quiet v j j'"
  by (rule quiet_same_tables) (auto simp: request_cancel_def and_then_Inr split: if_splits)

lemma quiet_register_local_cleanup: "register_local_cleanup v g i j = Inr j' \<Longrightarrow> quiet v j j'"
  by (rule quiet_same_tables)
    (auto simp: register_local_cleanup_def and_then_Inr split: if_splits option.splits)

lemma quiet_confirm_local_cleanup: "quiet v j (fst (confirm_local_cleanup v g i actor j))"
  by (rule quiet_same_tables) (auto simp: confirm_local_cleanup_def Let_def split: sum.splits option.splits)

end
