(* ===== verification/Journal_Sample.thy ===== *)
theory Journal_Sample
  imports Journal_Runs
begin

text \<open>
  One session, one turn: a small history of the journal with the facts that evaluate its operations, for the
  theorems that apply the properties of the journal at a concrete input.
\<close>

definition sample_env :: journal_env where
  "sample_env = \<lparr>jv_snapshot_size = (\<lambda>_. 1), jv_run_size = (\<lambda>_. 1), jv_event_size = (\<lambda>_. 1), jv_steering_size = (\<lambda>r. 12 * length (sg_text (st_request r))),
     jv_digest = ta_prompt, jv_steering_digest = sg_text, jv_fingerprint = (\<lambda>_. [])\<rparr>"

definition sample_guard :: execution_guard where
  "sample_guard = \<lparr>eg_incarnation = None, eg_directory = [], eg_session_id = 1\<rparr>"

definition sample_turn :: turn_admission where
  "sample_turn = \<lparr>ta_budget = None, ta_coordination = None, ta_operator_name = None, ta_command_id = 2, ta_machine_id = 3,
     ta_principal_id = 4, ta_session_id = 1, ta_expected_revision = 0, ta_expires_at_ms = 10, ta_prompt = lit ''hi'',
     ta_parts = []\<rparr>"

definition sample_outcome :: outcome where
  "sample_outcome = \<lparr>ot_state = Run_Completed, ot_reason = None, ot_final_text = Some (lit ''ok''), ot_classification = None\<rparr>"

text \<open>A receipt of text that JSON escapes: every character takes six bytes, in the text and in the part.\<close>

definition control_text :: rstring where
  "control_text = replicate 34000 1"

definition sample_steering :: steering_admission where
  "sample_steering = \<lparr>sg_coordination = None, sg_receipt_id = 7, sg_session_id = 1, sg_run_id = 5,
     sg_actor = \<lparr>sa_machine_id = 3, sa_principal_id = 4\<rparr>, sg_expected_revision = 0, sg_expires_at_ms = 10,
     sg_text = control_text, sg_parts = [Part_Text control_text]\<rparr>"

definition sample_start :: session where
  "sample_start = session_new 1 0 [] (lit ''m'')"

section \<open>Evaluation\<close>

lemma trim_hi: "trim [104, 105] = [104, 105]"
  by code_simp

lemma title_1: "is_title_checkpoint 1" "is_title_checkpoint (Suc 0)"
  by code_simp+

lemmas evaluate_base = bm_get_def bm_contains_get bm_insert.simps bm_update.simps is_nil_def lit_def Let_def split_def
  is_none_or_def is_some_and_def sample_env_def sample_start_def sample_guard_def sample_turn_def sample_outcome_def
  sample_steering_def session_new_def check_schema_def check_guard_def snapshot_session_def stored_session_def
  spoken_def validate_snapshot_ids_def receipts_of_def update_session_def read_session_def max_sessions_def
  max_snapshot_def max_prompt_def max_commands_def max_partial_def schema_version_def steering_schema_version_def

lemmas evaluate_admit = create_session_def journal_created_def admit_turn_def check_turn_def budget_ok_def
  process_receipt_exists_def reserved_receipt_exists_def receipt_exists_def historical_receipt_exists_def
  turn_gates_def pending_cleanup_def deadline_ok_def ensure_admissible_def active_run_exists_def record_turn_def
  user_turn_def new_run_def insert_run_def insert_command_def run_command_def admit_goal_def goal_of_def
  append_event_def event_row_of_def event_at_def prune_events_def append_public_run_command_def
  append_public_message_created_def publish_def turn_digest_def

lemmas evaluate_more = title_1 trim_hi len_utf8_def checked_add_i64_def has_pending_tools_def begin_run_summary_def
  request_title_def message_new_def usage_zero_def replay_limit_def mark_running_def owned_run_def read_run_def
  cancel_pending_def run_target_def cancel_requested_def write_run_def run_active_def finish_classified_def
  check_outcome_def adjust_outcome_def pending_assignments_def write_outcome_def finish_steering_def close_session_def
  close_run_def checked_add_u64_def ensure_no_pending_def queued_steering_def run_steering_def settle_steering_def
  append_notice_def append_public_message_def final_message_def is_answer_def finish_run_summary_def on_last_def
  next_i64_def sat_add_def extend_run_summary_def update_run_summary_def summary_fingerprint_def
  interrupt_run_summary_def fail_run_summary_def title_state_of_def

lemmas evaluate = evaluate_base evaluate_admit evaluate_more

lemma trim_control: "trim control_text = control_text"
  by (simp add: trim_def trim_start_def control_text_def is_whitespace_def dropWhile_replicate)

lemma control_text_size: "str_len control_text = 34000" "length control_text = 34000" "control_text \<noteq> []"
  by (simp_all add: control_text_def str_len_def len_utf8_def sum_list_replicate)

text \<open>The turn is admitted, dispatched and completed with a final text.\<close>

definition sample_running :: "(string, journal) result" where
  "sample_running =
     and_then (create_session sample_env sample_start (journal_created [])) (\<lambda>j0.
     and_then (admit_turn sample_env 1 5 sample_guard sample_turn 1 j0) (\<lambda>(a, j1).
       mark_running sample_env sample_guard 5 j1))"

definition turn_history :: "(string, journal \<times> admission \<times> journal \<times> journal \<times> run_record \<times> journal) result" where
  "turn_history =
     and_then (create_session sample_env sample_start (journal_created [])) (\<lambda>j0.
     and_then (admit_turn sample_env 1 5 sample_guard sample_turn 1 j0) (\<lambda>(a, j1).
     and_then (mark_running sample_env sample_guard 5 j1) (\<lambda>j2.
     and_then (finish_classified sample_env 2 sample_guard 5 sample_outcome j2) (\<lambda>(run, j3).
       Inr (j0, a, j1, j2, run, j3)))))"

lemma turn_history_ok:
  "case turn_history of
     Inl _ \<Rightarrow> False
   | Inr (j0, a, j1, j2, run, j3) \<Rightarrow>
       rn_id (ad_run a) = 5 \<and> rn_state run = Run_Completed \<and>
       map ew_sequence (jn_events j3) = [1, 2, 3] \<and> map (\<lambda>(i, w). (i, sw_next_sequence w)) (jn_sessions j3) = [(1, 4)]"
  unfolding turn_history_def by (simp add: evaluate)

lemma turn_history:
  obtains j0 a j1 j2 run j3 where
    "create_session sample_env sample_start (journal_created []) = Inr j0"
    "admit_turn sample_env 1 5 sample_guard sample_turn 1 j0 = Inr (a, j1)"
    "mark_running sample_env sample_guard 5 j1 = Inr j2"
    "finish_classified sample_env 2 sample_guard 5 sample_outcome j2 = Inr (run, j3)"
    "sample_running = Inr j2" "rn_id (ad_run a) = 5" "rn_state run = Run_Completed" "map ew_sequence (jn_events j3) = [1, 2, 3]"
    "map (\<lambda>(i, w). (i, sw_next_sequence w)) (jn_sessions j3) = [(1, 4)]"
  using turn_history_ok
  by (auto simp: turn_history_def sample_running_def split: sum.splits dest!: and_then_Inr [THEN iffD1])

text \<open>The turn after dispatch: a checkpoint of an answer that is accepted, and a receipt that is queued.\<close>

definition sample_answer :: "message list" where
  "sample_answer = [message_new User (lit ''hi'') 1, message_new Assistant (lit ''ok'') 2]"

lemmas evaluate_answer = sample_answer_def checkpoint_reconciled_def save_checkpoint_def accept_appended_def apply_receipts_def
  accept_checkpoint_def finalize_reasoning_def replace_messages_def reanchor_run_summaries_def usage_add_def
  require_content_schema_def checked_sub_def reanchor_summary_def has_pending_tools_def

lemma again_ok:
  "\<not> isl (and_then sample_running (\<lambda>j. admit_turn sample_env 9 6 sample_guard sample_turn 99 j))"
  unfolding sample_running_def by (simp add: evaluate)

lemma answer_ok:
  "\<not> isl (and_then sample_running (\<lambda>j.
     and_then (checkpoint_reconciled sample_env 2 sample_guard 5 sample_answer usage_zero 1 False j) (\<lambda>(_, j).
       accept_checkpoint sample_env sample_guard 5 sample_answer usage_zero j)))"
  unfolding sample_running_def by (simp add: evaluate evaluate_answer)

lemmas evaluate_steering = queue_steering_def latest_timestamp_def validate_steering_def trim_control control_text_size max_steering_bytes_def
  validate_parts_def validate_content_def content_walk.simps turn_limits_def parts_text_def max_steering_per_run_def max_pending_steering_def
  stop_continuation_def

lemma queue_ok:
  "case and_then sample_running (queue_steering sample_env 2 sample_guard sample_steering 1) of
     Inl _ \<Rightarrow> False
   | Inr (out, _) \<Rightarrow> so_record out = \<lparr>st_queued_at = Some 1, st_request = sample_steering, st_ordinal = 1, st_revision = 2,
       st_status = steering_status.Queued, st_reason = None, st_canonical_index = None\<rparr>"
  unfolding sample_running_def by (simp add: evaluate evaluate_steering)

end
