(* ===== verification/Journal_Safety.thy ===== *)
theory Journal_Safety
  imports Journal_Protocol Journal_Sample "HOL-Library.Sublist"
begin

text \<open>
  The journal as a transition system: any sequence of the operations of \<open>Journal_Runs\<close> and \<open>Journal_Steering\<close>, by
  any caller, from a journal just created. Imports, transfers and deletions of whole sessions are not steps, nor are
  the transition of an execution to another incarnation and the saving of a working context.
\<close>

section \<open>The journal as a transition system\<close>

inductive journal_step :: "journal_env \<Rightarrow> journal \<Rightarrow> journal \<Rightarrow> bool" for v :: journal_env where
  create: "create_session v s j = Inr j' \<Longrightarrow> journal_step v j j'"
| admit: "admit_turn v clock i g r now j = Inr (a, j') \<Longrightarrow> journal_step v j j'"
| start: "mark_running v g i j = Inr j' \<Longrightarrow> journal_step v j j'"
| delta: "append_text v g i t j = Inr (n, j') \<Longrightarrow> journal_step v j j'"
| tools: "set_tool_previews v g i ps j = Inr j' \<Longrightarrow> journal_step v j j'"
| reasoning: "set_reasoning_previews v g i rs j = Inr j' \<Longrightarrow> journal_step v j j'"
| attempt: "record_provider_attempt v clock g i p j = Inr j' \<Longrightarrow> journal_step v j j'"
| checkpoint: "checkpoint_reconciled v clock g i ms u now reject j = Inr (out, j') \<Longrightarrow> journal_step v j j'"
| scope: "register_run_scope v clock g i rr j = Inr j' \<Longrightarrow> journal_step v j j'"
| accept: "accept_checkpoint v g i ms u j = Inr j' \<Longrightarrow> journal_step v j j'"
| finish: "finish_classified v clock g i ot j = Inr (run, j') \<Longrightarrow> journal_step v j j'"
| recover: "recover_interrupted v clock g j = Inr (ro, j') \<Longrightarrow> journal_step v j j'"
| steer: "queue_steering v clock g q now j = Inr (so, j') \<Longrightarrow> journal_step v j j'"
| reject: "reject_steering v clock g i k reason j = Inr (sr, j') \<Longrightarrow> journal_step v j j'"
| cancel: "request_cancel v cr now j = Inr (co, j') \<Longrightarrow> journal_step v j j'"
| cleanup: "register_local_cleanup v g i j = Inr j' \<Longrightarrow> journal_step v j j'"
| cleaned: "fst (confirm_local_cleanup v g i actor j) = j' \<Longrightarrow> journal_step v j j'"
| change: "update_session v clock seen s j = Inr j' \<Longrightarrow> journal_step v j j'"
| elsewhere: "jn_sessions j' = jn_sessions j \<Longrightarrow> jn_runs j' = jn_runs j \<Longrightarrow> jn_commands j' = jn_commands j \<Longrightarrow>
    jn_events j' = jn_events j \<Longrightarrow> journal_step v j j'"

lemmas operation_effects = effect_create_session effect_admit_turn effect_mark_running effect_append_text
  effect_set_tool_previews effect_set_reasoning_previews effect_record_provider_attempt effect_checkpoint
  effect_accept_checkpoint effect_finish_classified effect_recover_interrupted
  quiet_register_run_scope [THEN effect_quiet] quiet_queue_steering [THEN effect_quiet]
  quiet_reject_steering [THEN effect_quiet] quiet_request_cancel [THEN effect_quiet]
  quiet_register_local_cleanup [THEN effect_quiet] quiet_update_session [THEN effect_quiet]

lemma journal_step_effect: "journal_step v j j' \<Longrightarrow> effect v j j'"
proof (induction rule: journal_step.induct)
  case (cleaned g i actor j j')
  then show ?case using effect_quiet [OF quiet_confirm_local_cleanup] by blast
next
  case elsewhere
  then show ?case by (intro effect_quiet quiet_same_tables)
qed (erule operation_effects)+

interpretation journal: simulation "journal_step v" "journal_wf v" protocol_of protocol_step for v
  by unfold_locales (auto dest: journal_step_effect simp: effect_def)

lemma journal_wf_created: "journal_wf v (journal_created d)"
  by (simp add: journal_wf_def journal_created_def sessions_wf_def runs_wf_def one_active_def events_wf_def)

lemma protocol_of_created: "protocol_of (journal_created d) = protocol_start"
  by (simp add: protocol_of_def journal_created_def protocol_start_def)

text \<open>The journals that any sequence of operations reaches.\<close>

definition reachable :: "journal_env \<Rightarrow> path \<Rightarrow> journal \<Rightarrow> bool" where
  "reachable v d j \<longleftrightarrow> (journal_step v)\<^sup>*\<^sup>* (journal_created d) j"

lemma reachable_wf: "reachable v d j \<Longrightarrow> journal_wf v j"
  unfolding reachable_def by (rule journal.run_wf [OF _ journal_wf_created])

lemma reachable_created: "reachable v d (journal_created d)"
  by (simp add: reachable_def)

lemma reachable_step: "reachable v d j \<Longrightarrow> journal_step v j j' \<Longrightarrow> reachable v d j'"
  unfolding reachable_def by (rule rtranclp.rtrancl_into_rtrancl)

lemma reachable_protocol_inv: "reachable v d j \<Longrightarrow> protocol_inv (protocol_of j)"
  unfolding reachable_def
  by (erule journal.run_invariant [OF _ journal_wf_created]) (simp_all add: protocol_of_created protocol_inv_start protocol_inv_step)

lemma steps_protocol_le:
  assumes "(journal_step v)\<^sup>*\<^sup>* j k" "journal_wf v j"
  shows "protocol_le (protocol_of j) (protocol_of k)"
  by (rule journal.run_preserves [OF assms, of protocol_le])
    (auto intro: protocol_le_refl protocol_step_le elim: protocol_le_trans)

section \<open>Replay\<close>

lemma session_events_wf:
  assumes "journal_wf v j" "bm_get (jn_sessions j) s = Some w"
  shows "0 < sw_next_sequence w" "map ew_sequence (session_events j s) = window (sw_next_sequence w)"
    "\<And>e. e \<in> set (session_events j s) \<Longrightarrow> je_sequence (ew_event e) = ew_sequence e"
    "\<And>e. e \<in> set (session_events j s) \<Longrightarrow> is_some_and (bm_get (jn_runs j) (je_run_id (ew_event e))) (\<lambda>u. rw_session_id u = s)"
  using assms
  by (auto simp: journal_wf_def events_wf_def session_events_def sequences_def list_all_iff event_row_ok_def is_some_and_def)

lemma window_above:
  assumes "0 < n" "k < n" "n \<le> Suc (k + replay_limit)"
  shows "filter (\<lambda>m. k < m) (window n) = [Suc k..<n]"
proof -
  have "filter (\<lambda>m. \<not> m \<le> k) (window n) = [max (n - min (n - 1) replay_limit) (Suc k)..<n]"
    unfolding window_def by (rule filter_upt_above)
  moreover have "max (n - min (n - 1) replay_limit) (Suc k) = Suc k" using assms by (auto simp: max_def min_def)
  ultimately show ?thesis by (simp add: not_le)
qed

lemma replay_walk_contiguous:
  assumes "map ew_sequence rows = [Suc k..<n]" "k < n"
    "\<And>e. e \<in> set rows \<Longrightarrow> jv_event_size v (ew_event e) \<le> max_prompt * 6 + 4096 \<and> je_sequence (ew_event e) = ew_sequence e \<and>
       is_some_and (bm_get (jn_runs j) (je_run_id (ew_event e))) (\<lambda>w. rw_session_id w = s)"
  shows "replay_walk v j s (n - 1) k rows events = Inr (Replay_Events (events @ map ew_event rows))"
  using assms
proof (induction rows arbitrary: k events)
  case Nil
  from Nil.prems(1) have "[Suc k..<n] = []" by simp
  then have "n = Suc k" using Nil.prems(2) by (simp only: upt_eq_Nil_conv) auto
  then show ?case by simp
next
  case (Cons e rows)
  have more: "Suc k < n" using Cons.prems(1) by (cases "Suc k < n") auto
  then have e: "ew_sequence e = Suc k" and rest: "map ew_sequence rows = [Suc (Suc k)..<n]"
    using Cons.prems(1) by (simp_all add: upt_conv_Cons del: upt_Suc)
  have ok: "jv_event_size v (ew_event e) \<le> max_prompt * 6 + 4096" "je_sequence (ew_event e) = ew_sequence e"
      "is_some_and (bm_get (jn_runs j) (je_run_id (ew_event e))) (\<lambda>w. rw_session_id w = s)"
    using Cons.prems(3) [of e] by auto
  have "replay_walk v j s (n - 1) (Suc k) rows (events @ [ew_event e]) =
      Inr (Replay_Events ((events @ [ew_event e]) @ map ew_event rows))"
    by (rule Cons.IH [OF rest more]) (use Cons.prems(3) in auto)
  with ok e show ?case by simp
qed

lemma sort_key_sorted: "sorted (map f xs) \<Longrightarrow> sort_key f xs = xs"
  by (induction xs) (auto simp: insort_is_Cons)

text \<open>
  The length of an event as JSON: a byte of its text is written as at most six, and its numbers, identifiers and
  names take less than 4096.
\<close>

definition json_event_sizes :: "journal_env \<Rightarrow> bool" where
  "json_event_sizes v \<longleftrightarrow> (\<forall>e. jv_event_size v e \<le> str_len (event_text (je_kind e)) * 6 + 4096)"

definition fits_replay :: "journal_env \<Rightarrow> journal \<Rightarrow> uuid \<Rightarrow> bool" where
  "fits_replay v j s \<longleftrightarrow> list_all (\<lambda>e. jv_event_size v (ew_event e) \<le> max_prompt * 6 + 4096) (session_events j s)"

lemma fits_replay_wf:
  assumes "json_event_sizes v" "journal_wf v j"
  shows "fits_replay v j s"
proof -
  have "jv_event_size v (ew_event e) \<le> max_prompt * 6 + 4096" if "e \<in> set (jn_events j)" for e
  proof -
    have "str_len (event_text (je_kind (ew_event e))) \<le> max_prompt"
      using assms(2) that by (auto simp: journal_wf_def events_wf_def list_all_iff event_row_ok_def brief_def)
    moreover have "jv_event_size v (ew_event e) \<le> str_len (event_text (je_kind (ew_event e))) * 6 + 4096"
      using assms(1) by (simp add: json_event_sizes_def)
    ultimately show ?thesis by linarith
  qed
  then show ?thesis by (simp add: fits_replay_def list_all_iff session_events_def)
qed

lemma replay_events_wf:
  assumes wf: "journal_wf v j" and w: "bm_get (jn_sessions j) s = Some w" and fits: "fits_replay v j s" and top: "k \<le> i64_top"
  shows "replay_events v j s k =
    (let latest = sw_next_sequence w - 1 in
     if latest < k then Inl ''event cursor is ahead of journal''
     else if k + replay_limit < latest then Inr (SnapshotRequired latest)
     else Inr (Replay_Events (filter (\<lambda>e. k < je_sequence e) (map ew_event (session_events j s)))))" (is ?replay)
   and "k < sw_next_sequence w \<Longrightarrow> sw_next_sequence w \<le> Suc (k + replay_limit) \<Longrightarrow>
     map je_sequence (filter (\<lambda>e. k < je_sequence e) (map ew_event (session_events j s))) = [Suc k..<sw_next_sequence w]"
     (is "_ \<Longrightarrow> _ \<Longrightarrow> ?sequences")
proof -
  let ?n = "sw_next_sequence w" and ?rows = "session_events j s"
  let ?later = "filter (\<lambda>e. k < ew_sequence e) ?rows"
  note rows = session_events_wf [OF wf w]
  have same: "filter (\<lambda>e. k < je_sequence e) (map ew_event ?rows) = map ew_event ?later"
    using rows(3) by (simp add: filter_map comp_def cong: filter_cong)
  have seqs: "map ew_sequence ?later = filter (\<lambda>m. k < m) (window ?n)"
    by (simp add: rows(2) [symmetric] filter_map comp_def)
  have later: "map ew_sequence ?later = [Suc k..<?n]" if "k < ?n" "?n \<le> Suc (k + replay_limit)"
    using window_above [OF rows(1) that] seqs by simp
  show ?sequences if "k < ?n" "?n \<le> Suc (k + replay_limit)"
  proof -
    have "map je_sequence (map ew_event ?later) = map ew_sequence ?later" using rows(3) by simp
    with later [OF that] same show ?thesis by simp
  qed
  have first: "?rows \<noteq> [] \<Longrightarrow> Min (set (map ew_sequence ?rows)) = ?n - min (?n - 1) replay_limit"
      "?rows = [] \<longleftrightarrow> ?n = 1"
  proof -
    have empty: "?rows = [] \<longleftrightarrow> window ?n = []" using rows(2) by (metis map_is_Nil_conv)
    with rows(1) show "?rows = [] \<longleftrightarrow> ?n = 1" by (auto simp: window_def replay_limit_def)
    show "Min (set (map ew_sequence ?rows)) = ?n - min (?n - 1) replay_limit" if "?rows \<noteq> []"
      using that empty unfolding rows(2) by (intro Min_eqI) (auto simp: window_def)
  qed
  show ?replay
  proof (cases "k < ?n \<and> ?n \<le> Suc (k + replay_limit)")
    case True
    then have seq: "map ew_sequence ?later = [Suc k..<?n]" using later by blast
    have "sorted (map ew_sequence ?later)" unfolding seq by simp
    then have "sort_key ew_sequence ?later = ?later" by (rule sort_key_sorted)
    moreover have "length ?later \<le> replay_limit" using arg_cong [OF seq, of length] True by auto
    ultimately have "take replay_limit (sort_key ew_sequence ?later) = ?later" by simp
    moreover have "replay_walk v j s (?n - 1) k ?later [] = Inr (Replay_Events ([] @ map ew_event ?later))"
      by (rule replay_walk_contiguous [OF seq]) (use True rows(3,4) fits in \<open>auto simp: fits_replay_def list_all_iff\<close>)
    moreover have "\<not> ((?rows \<noteq> [] \<and> k + 1 < Min (set (map ew_sequence ?rows))) \<or> (?rows = [] \<and> k < ?n - 1))"
      using True first rows(1) by (cases "?rows = []") auto
    moreover have "\<not> ?n - 1 < k" "\<not> k + replay_limit < ?n - 1" "\<not> i64_top < k" using True top by auto
    ultimately show ?thesis unfolding replay_events_def w option.case Let_def same by (simp only: if_False append_Nil)
  next
    case False
    then have "?n - 1 < k \<or> (\<not> ?n - 1 < k \<and> k + replay_limit < ?n - 1)" using rows(1) by auto
    moreover have "?rows \<noteq> [] \<and> k + 1 < Min (set (map ew_sequence ?rows))" if "k + replay_limit < ?n - 1"
      using that first rows(1) by auto
    moreover have "\<not> i64_top < k" using top by simp
    ultimately show ?thesis unfolding replay_events_def w option.case Let_def by (elim disjE conjE) (simp_all only: if_True if_False simp_thms)
  qed
qed

section \<open>What stays\<close>

lemma protocol_le_command:
  assumes "protocol_le (protocol_of j) (protocol_of k)" "bm_get (jn_commands j) c = Some w"
  shows "bm_get (jn_commands k) c = Some w"
proof -
  have "pr_commands (protocol_of j) c = Some (cw_digest w, cw_run_id w)" using assms(2) by (simp add: protocol_of_def)
  then have "pr_commands (protocol_of k) c = Some (cw_digest w, cw_run_id w)"
    using assms(1) unfolding protocol_le_def by (metis map_le_def domI)
  then obtain u where "bm_get (jn_commands k) c = Some u" "cw_digest u = cw_digest w" "cw_run_id u = cw_run_id w"
    by (auto simp: protocol_of_def)
  then show ?thesis by (cases u; cases w) simp
qed

lemma protocol_le_run:
  assumes "protocol_le (protocol_of j) (protocol_of k)" "bm_get (jn_runs j) i = Some w"
  obtains u where "bm_get (jn_runs k) i = Some u"
    "run_le (rw_session_id w, rn_state (rw_record w)) (rw_session_id u, rn_state (rw_record u))"
proof -
  have "pr_runs (protocol_of j) i = Some (rw_session_id w, rn_state (rw_record w))"
    using assms(2) by (simp add: protocol_of_def)
  then obtain y where "pr_runs (protocol_of k) i = Some y" "run_le (rw_session_id w, rn_state (rw_record w)) y"
    using assms(1) unfolding protocol_le_def by blast
  then show thesis using that by (auto simp: protocol_of_def)
qed

section \<open>Properties\<close>

text \<open>The sample history is reachable.\<close>

lemma turn_history_reachable:
  obtains j0 a j1 j2 run j3 where
    "admit_turn sample_env 1 5 sample_guard sample_turn 1 j0 = Inr (a, j1)"
    "mark_running sample_env sample_guard 5 j1 = Inr j2"
    "finish_classified sample_env 2 sample_guard 5 sample_outcome j2 = Inr (run, j3)"
    "reachable sample_env [] j0" "reachable sample_env [] j1" "reachable sample_env [] j2" "reachable sample_env [] j3"
    "sample_running = Inr j2" "rn_id (ad_run a) = 5" "rn_state run = Run_Completed"
    "map ew_sequence (jn_events j3) = [1, 2, 3]" "map (\<lambda>(i, w). (i, sw_next_sequence w)) (jn_sessions j3) = [(1, 4)]"
proof (rule turn_history)
  fix j0 a j1 j2 run j3
  assume ops: "create_session sample_env sample_start (journal_created []) = Inr j0"
    "admit_turn sample_env 1 5 sample_guard sample_turn 1 j0 = Inr (a, j1)"
    "mark_running sample_env sample_guard 5 j1 = Inr j2"
    "finish_classified sample_env 2 sample_guard 5 sample_outcome j2 = Inr (run, j3)"
    and rest: "sample_running = Inr j2" "rn_id (ad_run a) = 5" "rn_state run = Run_Completed"
    "map ew_sequence (jn_events j3) = [1, 2, 3]" "map (\<lambda>(i, w). (i, sw_next_sequence w)) (jn_sessions j3) = [(1, 4)]"
  have r0: "reachable sample_env [] j0" by (rule reachable_step [OF reachable_created journal_step.create [OF ops(1)]])
  have r1: "reachable sample_env [] j1" by (rule reachable_step [OF r0 journal_step.admit [OF ops(2)]])
  have r2: "reachable sample_env [] j2" by (rule reachable_step [OF r1 journal_step.start [OF ops(3)]])
  have "reachable sample_env [] j3" by (rule reachable_step [OF r2 journal_step.finish [OF ops(4)]])
  with that [OF ops(2-4) r0 r1 r2] rest show thesis by blast
qed

text \<open>C14. Every operation of the journal, in any journal that operations reach, is one step of the protocol of runs: it
  admits a new run under a new command in a session without an active run, dispatches an accepted run, ends an
  active one, or leaves runs and commands as they are.\<close>

theorem journal_refines_protocol:
  assumes "reachable v d j" "journal_step v j j'"
  shows "protocol_step (protocol_of j) (protocol_of j')"
  by (rule journal.simulates [OF reachable_wf [OF assms(1)] assms(2)])

lemma journal_refines_protocol_witness:
  "\<exists>j j' a. admit_turn sample_env 1 5 sample_guard sample_turn 1 j = Inr (a, j') \<and>
     protocol_step (protocol_of j) (protocol_of j')"
proof (rule turn_history_reachable)
  fix j0 a j1
  assume admit: "admit_turn sample_env 1 5 sample_guard sample_turn 1 j0 = Inr (a, j1)" and r0: "reachable sample_env [] j0"
  show ?thesis using admit journal_refines_protocol [OF r0 journal_step.admit [OF admit]] by blast
qed

text \<open>C15. In every journal that operations reach the tables fit together: a run has the identity, the session and the
  command of its row, its activity flag says whether its state is active, its command names it and no other, a
  session is stored under its own name as it was serialised and within the size limit, and the events of a session
  are the latest ones, contiguous up to its next sequence, each of a run of that session and with at most a prompt of
  text.\<close>

theorem reachable_tables_fit:
  assumes "reachable v d j"
  shows "journal_wf v j"
  unfolding reachable_def by (rule journal.run_wf [OF assms [unfolded reachable_def] journal_wf_created])

lemma reachable_tables_fit_witness:
  "\<exists>j. journal_wf sample_env j \<and> map ew_sequence (jn_events j) = [1, 2, 3]"
proof (rule turn_history_reachable)
  fix j3
  assume r3: "reachable sample_env [] j3" and events: "map ew_sequence (jn_events j3) = [1, 2, 3]"
  show ?thesis by (intro exI [of _ j3] conjI reachable_tables_fit [OF r3] events)
qed

text \<open>C16. A command is admitted once: whatever happens afterwards, by whichever caller, the same command finds the run
  it was admitted as, without a change, and only with the same payload.\<close>

theorem command_admitted_once:
  assumes "reachable v d j" "admit_turn v clock i g r now j = Inr (a, j1)" "(journal_step v)\<^sup>*\<^sup>* j1 k"
    "ta_command_id r' = ta_command_id r" "admit_turn v clock' i' g' r' now' k = Inr (a', k')"
  shows "turn_digest v r' = turn_digest v r \<and> rn_id (ad_run a') = rn_id (ad_run a) \<and> ad_duplicate a' \<and> k' = k"
proof -
  let ?row = "\<lparr>cw_digest = turn_digest v r, cw_run_id = rn_id (ad_run a)\<rparr>"
  have wf: "journal_wf v j" by (rule reachable_wf [OF assms(1)])
  have j1: "reachable v d j1" by (rule reachable_step [OF assms(1) journal_step.admit [OF assms(2)]])
  have "protocol_le (protocol_of j1) (protocol_of k)" by (rule steps_protocol_le [OF assms(3) reachable_wf [OF j1]])
  then have "bm_get (jn_commands k) (ta_command_id r) = Some ?row"
    using protocol_le_command admit_turn_command [OF assms(2) wf] by blast
  with assms(4,5) show ?thesis
    by (auto simp: admit_turn_def and_then_Inr split: if_splits dest: read_run_Inr)
qed

lemma command_admitted_once_witness:
  "\<exists>j1 a' j2. mark_running sample_env sample_guard 5 j1 = Inr j2 \<and> reachable sample_env [] j2 \<and>
     admit_turn sample_env 9 6 sample_guard sample_turn 99 j2 = Inr (a', j2) \<and> ad_duplicate a' \<and> rn_id (ad_run a') = 5"
proof (rule turn_history_reachable)
  fix j0 a j1 j2
  assume admit: "admit_turn sample_env 1 5 sample_guard sample_turn 1 j0 = Inr (a, j1)" and id: "rn_id (ad_run a) = 5"
    and start: "mark_running sample_env sample_guard 5 j1 = Inr j2" and running: "sample_running = Inr j2"
    and r0: "reachable sample_env [] j0" and r2: "reachable sample_env [] j2"
  have steps: "(journal_step sample_env)\<^sup>*\<^sup>* j1 j2" using journal_step.start [OF start] by blast
  obtain a' k where again: "admit_turn sample_env 9 6 sample_guard sample_turn 99 j2 = Inr (a', k)"
    using again_ok unfolding running by (cases "admit_turn sample_env 9 6 sample_guard sample_turn 99 j2") auto
  show ?thesis using command_admitted_once [OF r0 admit steps refl again] again id r2 start by metis
qed

text \<open>C17. A run that has ended stays as it ended: whatever happens afterwards it keeps its state, and no operation
  finishes it, dispatches it or adds text to it.\<close>

theorem terminal_run_is_final:
  assumes "reachable v d j" "finish_classified v clock g i out j = Inr (run, j1)" "(journal_step v)\<^sup>*\<^sup>* j1 k"
  shows "(\<exists>w. bm_get (jn_runs k) i = Some w \<and> rn_state (rw_record w) = rn_state run \<and> \<not> rw_active w) \<and>
    finish_classified v clock' g' i out' k \<noteq> Inr x \<and> mark_running v g' i k \<noteq> Inr y \<and> append_text v g' i t k \<noteq> Inr z"
proof -
  have j1: "reachable v d j1" by (rule reachable_step [OF assms(1) journal_step.finish [OF assms(2)]])
  note finished = effect_finish_classified(2,3) [OF assms(2)]
  obtain w where w: "bm_get (jn_runs j1) i = Some w" "rw_record w = run" using finished(1) by blast
  have le: "protocol_le (protocol_of j1) (protocol_of k)" by (rule steps_protocol_le [OF assms(3) reachable_wf [OF j1]])
  obtain u where u: "bm_get (jn_runs k) i = Some u" "rn_state (rw_record u) = rn_state run"
    by (rule protocol_le_run [OF le w(1)]) (use w(2) finished(2) in \<open>auto simp: run_le_def\<close>)
  have "reachable v d k" using j1 assms(3) unfolding reachable_def by (rule rtranclp_trans)
  then have "rw_active u = run_active (rn_state run)"
    using reachable_wf u by (fastforce simp: journal_wf_def runs_wf_def run_row_ok_def Let_def)
  moreover have ended: "rn_state r = rn_state run" if "read_run v k i = Inr r" for r
    using read_run_Inr [OF that] u by auto
  then have "finish_classified v clock' g' i out' k \<noteq> Inr x"
    using finished(2) by (cases x) (auto elim!: finish_classified_Inr simp: owned_run_Inr)
  moreover have "mark_running v g' i k \<noteq> Inr y"
    using ended finished(2) by (auto simp: mark_running_def and_then_Inr owned_run_Inr run_active_def split: if_splits)
  moreover have "append_text v g' i t k \<noteq> Inr z"
    using ended finished(2) by (auto simp: append_text_def and_then_Inr owned_run_Inr run_active_def split: if_splits)
  ultimately show ?thesis using u finished(2) by blast
qed

lemma terminal_run_is_final_witness:
  "\<exists>k run. (\<exists>w. bm_get (jn_runs k) 5 = Some w \<and> rn_state (rw_record w) = Run_Completed) \<and>
     finish_classified sample_env 3 sample_guard 5 sample_outcome k \<noteq> Inr (run, k)"
proof (rule turn_history_reachable)
  fix j2 run j3
  assume finish: "finish_classified sample_env 2 sample_guard 5 sample_outcome j2 = Inr (run, j3)"
    and r2: "reachable sample_env [] j2" and state: "rn_state run = Run_Completed"
  show ?thesis using terminal_run_is_final [OF r2 finish rtranclp.rtrancl_refl] state by metis
qed

text \<open>C18. A session never has two active runs.\<close>

theorem one_active_run:
  assumes "reachable v d j" "bm_get (jn_runs j) i = Some w" "bm_get (jn_runs j) k = Some u"
    "run_active (rn_state (rw_record w))" "run_active (rn_state (rw_record u))" "rw_session_id w = rw_session_id u"
  shows "i = k"
proof -
  have "active_at (protocol_of j) (rw_session_id w) i" "active_at (protocol_of j) (rw_session_id w) k"
    using assms(2-6) by (auto simp: active_at_def protocol_of_def)
  then show ?thesis using reachable_protocol_inv [OF assms(1)] unfolding protocol_inv_def single_active_def by blast
qed

lemma one_active_run_witness:
  "\<exists>j w. reachable sample_env [] j \<and> bm_get (jn_runs j) 5 = Some w \<and> run_active (rn_state (rw_record w)) \<and> (5 :: uuid) = 5"
proof (rule turn_history_reachable)
  fix j2 run j3
  assume finish: "finish_classified sample_env 2 sample_guard 5 sample_outcome j2 = Inr (run, j3)"
    and r2: "reachable sample_env [] j2"
  obtain r where "read_run sample_env j2 5 = Inr r" "run_active (rn_state r)"
    using finish by (rule finish_classified_Inr) (auto simp: owned_run_Inr)
  then obtain w where w: "bm_get (jn_runs j2) 5 = Some w" "run_active (rn_state (rw_record w))" using read_run_Inr by blast
  then show ?thesis using one_active_run [OF r2 w(1) w(1) w(2) w(2) refl] w r2 by blast
qed

text \<open>C19. Replay is exact for every session on record in a journal that the operations modelled here reach (deleting a
  session is not one of them): a cursor not ahead of the journal and at most 1024 events behind gets every event after it,
  numbered without a gap up to the latest; one further behind is told to take a snapshot, and one ahead is refused. No
  event is too large to be read back, as long as JSON writes at most six bytes for a byte of text and less than 4096 for
  the rest of an event, and the cursor is a 63-bit number.\<close>

theorem replay_is_exact:
  assumes "reachable v d j" "bm_get (jn_sessions j) s = Some w" "json_event_sizes v" "k \<le> i64_top"
  shows "let latest = sw_next_sequence w - 1; events = filter (\<lambda>e. k < je_sequence e) (map ew_event (session_events j s)) in
    replay_events v j s k =
      (if latest < k then Inl ''event cursor is ahead of journal''
       else if k + replay_limit < latest then Inr (SnapshotRequired latest) else Inr (Replay_Events events)) \<and>
    (latest < k \<or> k + replay_limit < latest \<or> map je_sequence events = [k + 1..<latest + 1])"
proof -
  note wf = reachable_wf [OF assms(1)]
  note fits = fits_replay_wf [OF assms(3) wf]
  have "0 < sw_next_sequence w" by (rule session_events_wf(1) [OF wf assms(2)])
  then have "map je_sequence (filter (\<lambda>e. k < je_sequence e) (map ew_event (session_events j s))) =
      [k + 1..<sw_next_sequence w - 1 + 1]" if "\<not> (sw_next_sequence w - 1 < k \<or> k + replay_limit < sw_next_sequence w - 1)"
    using replay_events_wf(2) [OF wf assms(2) fits assms(4)] that by auto
  with replay_events_wf(1) [OF wf assms(2) fits assms(4)] show ?thesis unfolding Let_def by blast
qed

lemma replay_is_exact_witness:
  "\<exists>j events. replay_events sample_env j 1 1 = Inr (Replay_Events events) \<and> map je_sequence events = [2, 3]"
proof (rule turn_history_reachable)
  fix j3
  assume r3: "reachable sample_env [] j3" and sessions: "map (\<lambda>(i, w). (i, sw_next_sequence w)) (jn_sessions j3) = [(1, 4)]"
  obtain w where w: "jn_sessions j3 = [(1, w)]" "sw_next_sequence w = 4" using sessions by auto
  have fits: "json_event_sizes sample_env" by (simp add: json_event_sizes_def sample_env_def)
  have row: "bm_get (jn_sessions j3) 1 = Some w" by (simp add: w(1) bm_get_def)
  show ?thesis
    using replay_is_exact [OF r3 row fits, of 1] unfolding w(2) Let_def
    by (intro exI conjI) (auto simp: replay_limit_def upt_rec simp del: map_eq_Cons_conv Cons_eq_map_conv)
qed

text \<open>C20. A run ends as completed only when it was running and nothing is left open: there is a final text or an accepted
  final message, no tool call without a result, no assignment of a participant to clean up, no request to cancel
  and no steering that has not been applied.\<close>

theorem completed_run_is_settled:
  assumes "finish_classified v clock g i out j = Inr (run', j')" "rn_state run' = Run_Completed"
  shows "\<exists>run seen current. read_run v j i = Inr run \<and> rn_state run = Run_Running \<and>
    (ot_final_text out \<noteq> None \<or> rn_final_checkpointed run) \<and>
    read_session v j (rn_session_id run) = Inr (seen, current) \<and> \<not> has_pending_tools (ss_messages current) \<and>
    pending_assignments j i = 0 \<and> (jn_opened j < 5 \<or> cancel_pending v j (rn_session_id run) i = Inr False) \<and>
    (jn_opened j < steering_schema_version \<or> queued_steering j i = [])"
proof -
  obtain run seen current out' where own: "owned_run v g i j = Inr run" and active: "run_active (rn_state run)"
    and check: "check_outcome out = Inr ()" and adjust: "adjust_outcome v j run out = Inr out'"
    and running: "ot_state out' = Run_Completed \<Longrightarrow> rn_state run = Run_Running"
    and final: "ot_state out' = Run_Completed \<Longrightarrow> ot_final_text out' \<noteq> None \<or> rn_final_checkpointed run"
    and session: "read_session v j (rn_session_id run) = Inr (seen, current)"
    and tools: "ot_state out' = Run_Completed \<Longrightarrow> \<not> has_pending_tools (ss_messages current)"
    and outcome: "write_outcome v clock run out' seen current j = Inr (run', j')"
    using finish_classified_Inr [OF assms(1)] by metis
  have read: "read_run v j i = Inr run" "rn_id run = i" using own read_run_Inr by (auto simp: owned_run_Inr)
  have ended: "\<not> run_active (ot_state out)" by (rule check_outcome_Inr [OF check])
  have state: "ot_state out' = Run_Completed"
    using effect_write_outcome(2) [OF outcome read(1) adjust_outcome_Inr(1) [OF adjust ended] active running] assms(2) by simp
  obtain k where "finish_steering v run (ot_state out') seen j = Inr k"
    using outcome by (auto simp: write_outcome_def and_then_Inr)
  then have "jn_opened j < steering_schema_version \<or> queued_steering j i = []"
    using state read(2) by (auto simp: finish_steering_def ensure_no_pending_def and_then_Inr split: if_splits)
  with read session state running final tools adjust_outcome_Inr(2) [OF adjust ended state] show ?thesis by force
qed

lemma completed_run_is_settled_witness:
  "\<exists>j run seen current. read_run sample_env j 5 = Inr run \<and> rn_state run = Run_Running \<and>
     read_session sample_env j (rn_session_id run) = Inr (seen, current) \<and> \<not> has_pending_tools (ss_messages current)"
proof (rule turn_history_reachable)
  fix j2 run j3
  assume finish: "finish_classified sample_env 2 sample_guard 5 sample_outcome j2 = Inr (run, j3)" "rn_state run = Run_Completed"
  show ?thesis using completed_run_is_settled [OF finish] by blast
qed

text \<open>What a checkpoint leaves of the session and of the messages it was given.\<close>

lemma subseq_set: "subseq xs ys \<Longrightarrow> set xs \<subseteq> set ys"
  by (induction rule: list_emb.induct) auto

lemma apply_steering_subseq:
  "apply_steering v run ms offset revision now reject accepted j = Inr (out, j') \<Longrightarrow>
   \<exists>new. out = accepted @ new \<and> subseq new ms \<and> (reject \<or> new = ms)"
proof (induction ms arbitrary: accepted j)
  case (Cons m ms)
  have "(\<exists>k. apply_steering v run ms offset revision now reject (accepted @ [m]) k = Inr (out, j')) \<or>
      (reject \<and> (\<exists>k. apply_steering v run ms offset revision now reject accepted k = Inr (out, j')))"
    using Cons.prems by (cases "m_steering m"; cases reject) (auto simp: and_then_Inr split: if_splits)
  then show ?case using Cons.IH by (fastforce intro: subseq_Cons')
qed simp

lemma accept_appended_subseq:
  "accept_appended v run new previous seen now reject j = Inr (out, j') \<Longrightarrow> subseq out new \<and> (reject \<or> out = new)"
  by (auto simp: accept_appended_def apply_receipts_def and_then_Inr dest!: apply_steering_subseq split: if_splits)

lemma session_frame [simp]:
  "ss_id (extend_run_summary h s) = ss_id s" "ss_messages (extend_run_summary h s) = ss_messages s"
  "ss_id (replace_messages h ms s) = ss_id s" "ss_messages (replace_messages h ms s) = ms"
  by (simp_all add: extend_run_summary_def update_run_summary_def on_last_def replace_messages_def reanchor_run_summaries_def)

lemma sessions_fold_public [simp]:
  "jn_sessions (fold (\<lambda>k. append_public_message run k (ms ! k)) ks j) = jn_sessions j"
  by (induction ks arbitrary: j) (simp_all add: append_public_message_def publish_def split_def Let_def)

lemma save_checkpoint_session:
  assumes "save_checkpoint v clock run seen current ms previous u a b j = Inr j'" "ss_id current = rn_session_id run"
  shows "\<exists>saved. read_session v j' (rn_session_id run) = Inr (seen + 1, saved) \<and> ss_messages saved = map wire (spoken ms)"
proof -
  let ?run = "(finalize_reasoning current ms previous run)\<lparr>rn_usage := u, rn_final_checkpointed := False\<rparr>"
  obtain total k n where
    k: "update_session v clock seen ((extend_run_summary (jv_fingerprint v) (replace_messages (jv_fingerprint v) ms current))
        \<lparr>ss_usage := total\<rparr>) j = Inr k"
    and event: "append_event ?run Ev_CanonicalCheckpoint
      (write_run ?run (fold (\<lambda>k. append_public_message ?run k (ms ! k)) [previous..<length ms] k)) = Inr (n, j')"
    using assms(1) by (auto simp: save_checkpoint_def and_then_Inr Let_def)
  have id: "rn_session_id ?run = rn_session_id run" using finalize_reasoning_same(1) by (simp add: same_run_def)
  show ?thesis
    using k event assms(2) unfolding update_session_Inr append_event_Inr id
    by (auto simp: read_session_Inr write_run_def stored_session_def)
qed

text \<open>C21. A checkpoint appends and never rewrites: the history after it is the history before it followed by messages it
  was given, in their order and without system messages; it leaves one out only where it may reject expired steering.\<close>

theorem checkpoint_only_appends:
  assumes "checkpoint_reconciled v clock g i ms u now reject j = Inr (out, j')"
  shows "\<exists>run seen current seen' saved new. read_run v j i = Inr run \<and>
    read_session v j (rn_session_id run) = Inr (seen, current) \<and>
    read_session v j' (rn_session_id run) = Inr (seen', saved) \<and>
    map wire (ss_messages saved) = map wire (ss_messages current) @ map wire new \<and>
    subseq new (drop (length (ss_messages current)) ms) \<and>
    (reject \<or> new = drop (length (ss_messages current)) ms) \<and> map wire out = map wire (ss_messages saved)"
  using assms
proof (cases rule: checkpoint_cases)
  case (same run seen current)
  then show ?thesis by (intro exI [of _ run] exI [of _ seen] exI [of _ current] exI [of _ "[]"]) (simp add: owned_run_Inr)
next
  case (saved run seen current a b appended k)
  let ?n = "length (ss_messages current)"
  have app: "subseq appended (drop ?n ms)" "reject \<or> appended = drop ?n ms"
    using accept_appended_subseq [OF saved(7)] by auto
  have id: "ss_id current = rn_session_id run" using saved(3) by (auto simp: read_session_Inr)
  obtain s where s: "read_session v j' (rn_session_id run) = Inr (seen + 1, s)" "ss_messages s = map wire (spoken out)"
    using save_checkpoint_session [OF saved(9) id] by blast
  have "set out \<subseteq> set ms"
    using set_take_subset [of ?n ms] set_drop_subset [of ?n ms] subseq_set [OF app(1)] unfolding saved(8) by auto
  then have "spoken out = out" using saved(6) by (auto simp: spoken_def filter_id_conv list_ex_iff)
  moreover have "map wire out = map wire (ss_messages current) @ map wire appended"
    unfolding saved(8) map_append saved(5) ..
  ultimately show ?thesis
    using saved(1,3) s app
    by (intro exI [of _ run] exI [of _ seen] exI [of _ current] exI [of _ "seen + 1"] exI [of _ s] exI [of _ appended])
      (simp add: owned_run_Inr comp_def)
qed

lemma checkpoint_only_appends_witness:
  "\<exists>j j' run seen current seen' saved new. read_run sample_env j 5 = Inr run \<and>
    read_session sample_env j (rn_session_id run) = Inr (seen, current) \<and>
    read_session sample_env j' (rn_session_id run) = Inr (seen', saved) \<and>
    map wire (ss_messages saved) = map wire (ss_messages current) @ map wire new"
proof (rule turn_history_reachable)
  fix j2 assume running: "sample_running = Inr j2"
  obtain out j' where "checkpoint_reconciled sample_env 2 sample_guard 5 sample_answer usage_zero 1 False j2 = Inr (out, j')"
    using answer_ok unfolding running
    by (cases "checkpoint_reconciled sample_env 2 sample_guard 5 sample_answer usage_zero 1 False j2") auto
  from checkpoint_only_appends [OF this] show ?thesis by metis
qed

text \<open>The table of receipts under the other writes of a transaction.\<close>

abbreviation same_steering :: "journal \<Rightarrow> journal \<Rightarrow> bool" where
  "same_steering j k \<equiv> jn_steering k = jn_steering j \<and> jn_opened k = jn_opened j"

lemma same_steering_update: "update_session v clock seen s j = Inr k \<Longrightarrow> same_steering j k"
  by (auto simp: update_session_Inr)

lemma same_steering_event: "append_event run kind j = Inr (n, k) \<Longrightarrow> same_steering j k"
  by (auto simp: append_event_Inr)

lemma same_steering_persist: "persist_goal i gs a j = Inr k \<Longrightarrow> same_steering j k"
  by (auto simp: persist_goal_def publish_def split: if_splits)

lemma same_steering_stop: "stop_continuation i reason now j = Inr k \<Longrightarrow> same_steering j k"
  by (auto simp: stop_continuation_def and_then_Inr Let_def same_steering_persist split: option.splits if_splits)

lemma read_steering_bound:
  "read_steering v j i = Inr r \<Longrightarrow> jv_steering_size v r \<le> max_steering_bytes * 6 + 4096 \<and> sg_receipt_id (st_request r) = i \<and>
     (\<exists>w. bm_get (jn_steering j) i = Some w \<and> sw_record w = r)"
  by (auto simp: read_steering_def Let_def and_then_Inr split: option.splits if_splits)

lemma settle_all_reads:
  assumes "settle_all v run reason revision is j = Inr j'" "i \<in> set is" "bm_get (jn_steering j) i = Some w"
  shows "jv_steering_size v (sw_record w) \<le> max_steering_bytes * 6 + 4096"
  using assms
proof (induction "is" arbitrary: j)
  case (Cons k "is")
  obtain r l m n where r: "read_steering v j k = Inr r"
    and l: "write_steering (r\<lparr>st_status := NotApplied, st_reason := Some reason, st_revision := revision\<rparr>) j = Inr l"
    and m: "append_event run (Ev_SteeringRejected k reason) l = Inr (n, m)"
    and rest: "settle_all v run reason revision is m = Inr j'"
    using Cons.prems(1) by (auto simp: and_then_Inr)
  note read = read_steering_bound [OF r]
  show ?case
  proof (cases "i = k")
    case True
    with read Cons.prems(3) show ?thesis by auto
  next
    case False
    with l read Cons.prems(3) have "bm_get (jn_steering l) i = Some w" by (auto simp: write_steering_def split: if_splits)
    with same_steering_event [OF m] have "bm_get (jn_steering m) i = Some w" by simp
    with Cons.IH [OF rest] Cons.prems(2) False show ?thesis by simp
  qed
qed simp

lemma queued_steering_get:
  "bm_get (jn_steering j) i = Some w \<Longrightarrow> st_status (sw_record w) = steering_status.Queued \<Longrightarrow>
   sg_receipt_id (st_request (sw_record w)) = i \<Longrightarrow> i \<in> set (queued_steering j (sg_run_id (st_request (sw_record w))))"
  by (force simp: queued_steering_def run_steering_def dest: bm_get_SomeD)

lemma queue_steering_queued:
  assumes "queue_steering v clock g q now j = Inr (out, j')" "max_steering_bytes * 6 + 4096 < jv_steering_size v (so_record out)"
  shows "steering_schema_version \<le> jn_opened j' \<and> sg_receipt_id q \<in> set (queued_steering j' (sg_run_id q)) \<and>
    (\<exists>w. bm_get (jn_steering j') (sg_receipt_id q) = Some w \<and> sw_record w = so_record out)"
proof -
  note E = assms(1) [unfolded queue_steering_def]
  have fresh: "\<not> receipt_exists j (sg_receipt_id q)"
  proof
    assume "receipt_exists j (sg_receipt_id q)"
    with E have "read_steering v j (sg_receipt_id q) = Inr (so_record out)"
      by (auto simp: and_then_Inr split: if_splits)
    from read_steering_bound [OF this] assms(2) show False by simp
  qed
  have opened: "steering_schema_version \<le> jn_opened j" using E fresh by (auto simp: and_then_Inr split: if_splits)
  obtain w seen s k l n run where
    k: "update_session v clock seen s (j\<lparr>jn_steering := bm_insert (sg_receipt_id q) w (jn_steering j)\<rparr>) = Inr k"
    and l: "stop_continuation (sg_session_id q) Stop_UserInput now k = Inr l"
    and event: "append_event run (Ev_SteeringQueued (sg_receipt_id q)) l = Inr (n, j')"
    and w: "st_request (sw_record w) = q" "st_status (sw_record w) = steering_status.Queued" "so_record out = sw_record w"
    using E fresh by (auto simp: and_then_Inr Let_def split: if_splits)
  have "jn_steering j' = bm_insert (sg_receipt_id q) w (jn_steering j)" "jn_opened j' = jn_opened j"
    using same_steering_update [OF k] same_steering_stop [OF l] same_steering_event [OF event] by simp_all
  then show ?thesis using opened w queued_steering_get [of j' "sg_receipt_id q" w] by (auto simp: bm_get_insert_same)
qed

text \<open>C22. A receipt is queued whatever the size of its record, and its record is read back only up to a limit; while a
  longer one is queued, its run can be finished by no outcome, not even by recovery after a crash.\<close>

theorem oversized_receipt_blocks_run:
  assumes "queue_steering v clock g q now j = Inr (out, j')" "max_steering_bytes * 6 + 4096 < jv_steering_size v (so_record out)"
  shows "isl (finish_classified v clock' g' (sg_run_id q) ot j')"
proof (rule ccontr)
  assume "\<not> isl (finish_classified v clock' g' (sg_run_id q) ot j')"
  then obtain run' l where finish: "finish_classified v clock' g' (sg_run_id q) ot j' = Inr (run', l)"
    by (cases "finish_classified v clock' g' (sg_run_id q) ot j'") auto
  obtain run seen current out' where own: "owned_run v g' (sg_run_id q) j' = Inr run"
    and outcome: "write_outcome v clock' run out' seen current j' = Inr (run', l)"
    using finish_classified_Inr [OF finish] by metis
  have id: "rn_id run = sg_run_id q" using own read_run_Inr by (auto simp: owned_run_Inr)
  note queued = queue_steering_queued [OF assms]
  obtain k where "finish_steering v run (ot_state out') seen j' = Inr k"
    using outcome by (auto simp: write_outcome_def and_then_Inr)
  then obtain reason revision where "settle_all v run reason revision (queued_steering j' (sg_run_id q)) j' = Inr k"
    using queued id by (auto simp: finish_steering_def settle_steering_def and_then_Inr split: if_splits)
  then show False using settle_all_reads queued assms(2) by fastforce
qed

lemma oversized_receipt_blocks_run_witness:
  "\<exists>j'. isl (finish_classified sample_env 3 sample_guard 5 sample_outcome j') \<and>
     sg_receipt_id sample_steering \<in> set (queued_steering j' 5)"
proof (rule turn_history_reachable)
  fix j2 assume running: "sample_running = Inr j2"
  obtain out j' where queue: "queue_steering sample_env 2 sample_guard sample_steering 1 j2 = Inr (out, j')"
    and size: "jv_steering_size sample_env (so_record out) = 408000"
    using queue_ok unfolding running
    by (auto simp: sample_env_def sample_steering_def control_text_size split: sum.splits)
  have big: "max_steering_bytes * 6 + 4096 < jv_steering_size sample_env (so_record out)"
    by (simp add: size max_steering_bytes_def)
  have "sg_run_id sample_steering = 5" by (simp add: sample_steering_def)
  then show ?thesis
    using oversized_receipt_blocks_run [OF queue big] queue_steering_queued [OF queue big] by metis
qed

end
