(* ===== verification/Pairing.thy ===== *)
theory Pairing
  imports Rust_Str Paths Ordered_Map
begin

text \<open>
  Invitations to connect to a Vessel, their redemption for a credential, and revocation
  (\<open>vessel/src/process/pairing.rs\<close>, \<open>pairing/audit.rs\<close>). An operation reads the state file and the files of
  connections, and writes them in several steps, any of which may fail; what was written before stays. The
  effect of an operation is therefore a function of the disk that returns the disk also with an error.
\<close>

section \<open>Records\<close>

datatype process_right =
  Catalogue | AccountUse | AccountEnroll | Create | Observe | History | WorkspaceRead | Execute | Steer | Decide |
  Cancel | Lifecycle | Terminal

definition all_rights :: "process_right list" where
  "all_rights = [Catalogue, AccountUse, AccountEnroll, Create, Observe, History, WorkspaceRead, Execute, Steer, Decide,
     Cancel, Lifecycle, Terminal]"

record approved_workspace =
  wk_id :: uuid
  wk_name :: rstring
  wk_path :: path
  wk_provider_ready :: "bool option"

record connection_grant =
  cg_full_access :: bool
  cg_schema_version :: nat
  cg_grant_id :: uuid
  cg_principal_id :: uuid
  cg_vessel_id :: uuid
  cg_revision :: nat
  cg_rights :: "process_right list"
  cg_accounts :: "uuid list"
  cg_enrollment_connections :: "uuid list"
  cg_expires_at_ms :: nat
  cg_revoked :: bool
  cg_token_hash :: rstring
  cg_workspaces :: "approved_workspace list"

record workspace_credential =
  cd_schema_version :: nat
  cd_kind :: rstring
  cd_endpoint :: rstring
  cd_grant_id :: uuid
  cd_principal_id :: uuid
  cd_vessel_id :: uuid
  cd_token :: rstring

record redemption =
  rd_command_id :: uuid
  rd_credential :: workspace_credential
  rd_grant :: connection_grant
  rd_publication_observed :: bool
  rd_audit_tracked :: bool

record pending_invitation =
  pi_full_access :: bool
  pi_invitation_id :: uuid
  pi_principal_id :: uuid
  pi_vessel_id :: uuid
  pi_endpoint :: rstring
  pi_expires_at_ms :: nat
  pi_code_hash :: rstring
  pi_attempts :: nat
  pi_workspaces :: "approved_workspace list"
  pi_rights :: "process_right list"
  pi_accounts :: "uuid list"
  pi_enrollment_connections :: "uuid list"
  pi_redemption :: "redemption option"

record revocation =
  rv_command_id :: uuid
  rv_grant_id :: uuid
  rv_expected_revision :: nat
  rv_publication_observed :: bool
  rv_audit_tracked :: bool

datatype audit_kind =
  AuditStarted | InvitationRecorded | GrantPublicationIntended | GrantPublicationObserved | RevocationIntended |
  RevocationObserved

record audit_event =
  ae_full_access :: bool
  ae_sequence :: nat
  ae_observed_at_ms :: nat
  ae_kind :: audit_kind
  ae_command_id :: "uuid option"
  ae_invitation_id :: "uuid option"
  ae_grant_id :: "uuid option"
  ae_principal_id :: "uuid option"
  ae_vessel_id :: uuid
  ae_revision :: "nat option"
  ae_expires_at_ms :: "nat option"
  ae_workspace_ids :: "uuid list"
  ae_rights :: "process_right list"
  ae_account_ids :: "uuid list"
  ae_enrollment_connection_ids :: "uuid list"

record audit_journal =
  au_version :: nat
  au_generation :: uuid
  au_vessel_id :: uuid
  au_legacy_history_unavailable :: bool
  au_first_sequence :: nat
  au_next_sequence :: nat
  au_events :: "audit_event list"

record pairing =
  ps_audit :: "audit_journal option"
  ps_invitations :: "pending_invitation list"
  ps_revocations :: "revocation list"
  ps_window_ms :: nat
  ps_attempts :: nat

section \<open>The audit journal\<close>

definition audit_retain :: nat where "audit_retain = 4096"

definition audit_new :: "uuid \<Rightarrow> uuid \<Rightarrow> bool \<Rightarrow> audit_journal" where
  "audit_new generation vessel legacy =
     \<lparr>au_version = 1, au_generation = generation, au_vessel_id = vessel, au_legacy_history_unavailable = legacy,
      au_first_sequence = 1, au_next_sequence = 1, au_events = []\<rparr>"

definition audit_event_ok :: "audit_journal \<Rightarrow> nat \<Rightarrow> audit_event \<Rightarrow> bool" where
  "audit_event_ok a i e \<longleftrightarrow>
     ae_sequence e = au_first_sequence a + i \<and> ae_vessel_id e = au_vessel_id a \<and> length (ae_workspace_ids e) \<le> 32 \<and>
     length (ae_rights e) \<le> 16 \<and> length (ae_account_ids e) \<le> 64 \<and> length (ae_enrollment_connection_ids e) \<le> 32"

definition audit_validate :: "audit_journal \<Rightarrow> (string, unit) result" where
  "audit_validate a =
     (if \<not> (au_version a = 1 \<and> \<not> is_nil (au_generation a) \<and> \<not> is_nil (au_vessel_id a) \<and> 0 < au_first_sequence a \<and>
           au_first_sequence a \<le> au_next_sequence a \<and> length (au_events a) \<le> audit_retain \<and>
           au_next_sequence a - au_first_sequence a = length (au_events a))
      then Inl ''invalid connection audit journal''
      else if \<not> list_all (\<lambda>(i, e). audit_event_ok a i e) (enumerate 0 (au_events a))
      then Inl ''connection audit sequence or metadata gap'' else Inr ())"

definition audit_append :: "audit_event \<Rightarrow> audit_journal \<Rightarrow> (string, audit_journal) result" where
  "audit_append e a =
     and_then (audit_validate a) (\<lambda>_.
     and_then (ok_or ''connection audit sequence exhausted'' (checked_add_u64 (au_next_sequence a) 1)) (\<lambda>nxt.
       let a = a\<lparr>au_next_sequence := nxt, au_events := au_events a @ [e\<lparr>ae_sequence := au_next_sequence a\<rparr>]\<rparr>;
           a = (if audit_retain < length (au_events a)
                then a\<lparr>au_events := tl (au_events a), au_first_sequence := au_first_sequence a + 1\<rparr> else a) in
       and_then (audit_validate a) (\<lambda>_. Inr a)))"

definition audit_event_of :: "audit_kind \<Rightarrow> nat \<Rightarrow> uuid \<Rightarrow> uuid option \<Rightarrow> uuid option \<Rightarrow> connection_grant option \<Rightarrow> audit_event" where
  "audit_event_of kind now vessel command invitation grant =
     \<lparr>ae_full_access = is_some_and grant cg_full_access, ae_sequence = 0, ae_observed_at_ms = now, ae_kind = kind,
      ae_command_id = command, ae_invitation_id = invitation, ae_grant_id = map_option cg_grant_id grant,
      ae_principal_id = map_option cg_principal_id grant, ae_vessel_id = vessel,
      ae_revision = map_option cg_revision grant, ae_expires_at_ms = map_option cg_expires_at_ms grant,
      ae_workspace_ids = (case grant of Some g \<Rightarrow> map wk_id (cg_workspaces g) | None \<Rightarrow> []),
      ae_rights = (case grant of Some g \<Rightarrow> cg_rights g | None \<Rightarrow> []),
      ae_account_ids = (case grant of Some g \<Rightarrow> cg_accounts g | None \<Rightarrow> []),
      ae_enrollment_connection_ids = (case grant of Some g \<Rightarrow> cg_enrollment_connections g | None \<Rightarrow> [])\<rparr>"

text \<open>A page of the events up to a horizon that the first page fixes; a cursor carries it on.\<close>

record audit_cursor =
  ac_version :: nat
  ac_generation :: uuid
  ac_vessel_id :: uuid
  ac_after :: nat
  ac_horizon :: nat
  ac_horizon_digest :: rstring
  ac_limit :: nat

record audit_page =
  ap_first_retained :: nat
  ap_horizon :: nat
  ap_events :: "audit_event list"
  ap_next :: "audit_cursor option"

definition check_cursor :: "(audit_event \<Rightarrow> rstring) \<Rightarrow> audit_journal \<Rightarrow> nat \<Rightarrow> audit_cursor \<Rightarrow> (string, unit) result" where
  "check_cursor digest a limit c =
     (if \<not> (ac_version c = 1 \<and> ac_generation c = au_generation a \<and> ac_vessel_id c = au_vessel_id a \<and> ac_limit c = limit \<and>
           ac_after c < ac_horizon c \<and> ac_horizon c < au_next_sequence a)
      then Inl ''audit cursor identity or horizon changed''
      else if ac_after c < au_first_sequence a - 1 then Inl ''audit history pruned; restart explicitly''
      else and_then (ok_or ''audit horizon pruned; restart explicitly'' (find (\<lambda>e. ae_sequence e = ac_horizon c) (au_events a)))
        (\<lambda>h. if ac_horizon_digest c = digest h then Inr ()
             else Inl ''audit history changed; original continuation unavailable''))"

definition audit_page_of :: "(audit_event \<Rightarrow> rstring) \<Rightarrow> audit_journal option \<Rightarrow> nat \<Rightarrow> audit_cursor option \<Rightarrow>
    (string, audit_page option) result" where
  "audit_page_of digest journal limit cursor =
     (if \<not> (1 \<le> limit \<and> limit \<le> 128) then Inl ''audit limit must be between 1 and 128''
      else case journal of
        None \<Rightarrow> if cursor = None then Inr None else Inl ''audit history unavailable for continuation''
      | Some a \<Rightarrow>
          and_then (audit_validate a) (\<lambda>_.
            if au_events a = [] then Inl ''audit history unavailable''
            else
              let latest = last (au_events a) in
              and_then (case cursor of
                  Some c \<Rightarrow> and_then (check_cursor digest a limit c) (\<lambda>_. Inr c)
                | None \<Rightarrow> Inr \<lparr>ac_version = 1, ac_generation = au_generation a, ac_vessel_id = au_vessel_id a,
                    ac_after = au_first_sequence a - 1, ac_horizon = ae_sequence latest,
                    ac_horizon_digest = digest latest, ac_limit = limit\<rparr>) (\<lambda>c.
                let events = take limit (filter (\<lambda>e. ac_after c < ae_sequence e \<and> ae_sequence e \<le> ac_horizon c) (au_events a));
                    reached = (if events = [] then ac_after c else ae_sequence (last events)) in
                Inr (Some \<lparr>ap_first_retained = au_first_sequence a, ap_horizon = ac_horizon c, ap_events = events,
                  ap_next = (if reached < ac_horizon c then Some (c\<lparr>ac_after := reached\<rparr>) else None)\<rparr>))))"

section \<open>Reading the journal page by page\<close>

text \<open>A reader follows the cursor of each page, at most \<open>n\<close> pages.\<close>

fun audit_read :: "(audit_event \<Rightarrow> rstring) \<Rightarrow> audit_journal \<Rightarrow> nat \<Rightarrow> audit_cursor option \<Rightarrow> nat \<Rightarrow> audit_event list" where
  "audit_read digest a limit c 0 = []"
| "audit_read digest a limit c (Suc n) =
     (case audit_page_of digest (Some a) limit c of
        Inr (Some p) \<Rightarrow> ap_events p @ (case ap_next p of None \<Rightarrow> [] | Some c \<Rightarrow> audit_read digest a limit (Some c) n)
      | _ \<Rightarrow> [])"

lemma audit_valid:
  assumes "is_ok (audit_validate a)"
  shows "i < length (au_events a) \<Longrightarrow> ae_sequence (au_events a ! i) = au_first_sequence a + i"
    and "0 < au_first_sequence a" and "au_next_sequence a = au_first_sequence a + length (au_events a)"
proof -
  have "list_all (\<lambda>(i, e). audit_event_ok a i e) (enumerate 0 (au_events a))"
    using assms by (auto simp: audit_validate_def split: if_splits)
  then have "audit_event_ok a i (au_events a ! i)" if "i < length (au_events a)" for i
    using that by (auto simp: list_all_iff in_set_enumerate_eq)
  then show "i < length (au_events a) \<Longrightarrow> ae_sequence (au_events a ! i) = au_first_sequence a + i"
    by (simp add: audit_event_ok_def)
  show "0 < au_first_sequence a" "au_next_sequence a = au_first_sequence a + length (au_events a)"
    using assms by (auto simp: audit_validate_def split: if_splits)
qed

lemma filter_after:
  assumes "\<And>i. i < length xs \<Longrightarrow> ae_sequence (xs ! i) = f + i" "0 < f" "k \<le> length xs" "xs \<noteq> []"
  shows "filter (\<lambda>e. f - 1 + k < ae_sequence e \<and> ae_sequence e \<le> f + length xs - 1) xs = drop k xs" (is "filter ?P xs = _")
proof -
  have "filter ?P (take k xs) = []"
  proof (rule filter_False, rule ballI)
    fix e
    assume "e \<in> set (take k xs)"
    then obtain i where "i < k" "e = xs ! i" using assms(3) by (auto simp: in_set_conv_nth)
    then show "\<not> ?P e" using assms(1) [of i] assms(2,3) by simp
  qed
  moreover have "filter ?P (drop k xs) = drop k xs"
  proof (rule filter_True, rule ballI)
    fix e
    assume "e \<in> set (drop k xs)"
    then obtain i where "i < length xs - k" "e = xs ! (k + i)" by (auto simp: in_set_conv_nth)
    then show "?P e" using assms(1) [of "k + i"] assms(2,4) by (cases f; cases "length xs") simp_all
  qed
  moreover have "filter ?P xs = filter ?P (take k xs) @ filter ?P (drop k xs)" by (metis append_take_drop_id filter_append)
  ultimately show ?thesis by simp
qed

definition audit_position :: "(audit_event \<Rightarrow> rstring) \<Rightarrow> audit_journal \<Rightarrow> nat \<Rightarrow> nat \<Rightarrow> audit_cursor" where
  "audit_position digest a limit k =
     \<lparr>ac_version = 1, ac_generation = au_generation a, ac_vessel_id = au_vessel_id a, ac_after = au_first_sequence a - 1 + k,
      ac_horizon = ae_sequence (last (au_events a)), ac_horizon_digest = digest (last (au_events a)), ac_limit = limit\<rparr>"

lemma find_last:
  assumes "xs \<noteq> []" "\<And>i. i < length xs \<Longrightarrow> ae_sequence (xs ! i) = f + i"
  shows "find (\<lambda>e. ae_sequence e = ae_sequence (last xs)) xs = Some (last xs)"
  using assms by (auto simp: find_Some_iff last_conv_nth intro!: exI [of _ "length xs - 1"])

lemma audit_page_at:
  assumes valid: "is_ok (audit_validate a)" "au_events a \<noteq> []" and limit: "1 \<le> limit" "limit \<le> 128"
    and k: "k < length (au_events a)" and c: "c = Some (audit_position digest a limit k) \<or> c = None \<and> k = 0"
  shows "audit_page_of digest (Some a) limit c = Inr (Some
     \<lparr>ap_first_retained = au_first_sequence a, ap_horizon = ae_sequence (last (au_events a)),
      ap_events = take limit (drop k (au_events a)),
      ap_next = (if k + limit < length (au_events a) then Some (audit_position digest a limit (k + limit)) else None)\<rparr>)"
proof -
  note seq = audit_valid [OF valid(1)]
  let ?xs = "au_events a"
  have last: "ae_sequence (last ?xs) = au_first_sequence a + length ?xs - 1"
    using seq(1) [of "length ?xs - 1"] seq(2) valid(2) by (cases "length ?xs") (simp_all add: last_conv_nth)
  have rest: "filter (\<lambda>e. au_first_sequence a - 1 + k < ae_sequence e \<and> ae_sequence e \<le> ae_sequence (last ?xs)) ?xs = drop k ?xs"
    unfolding last using filter_after [OF seq(1,2), of k] k valid(2) by simp
  have events: "take limit (drop k ?xs) \<noteq> []" using limit(1) k by simp
  have "last (take limit (drop k ?xs)) = ?xs ! (k + min limit (length ?xs - k) - 1)"
    using limit(1) k events by (simp add: last_conv_nth min.commute)
  then have reached: "ae_sequence (last (take limit (drop k ?xs))) = au_first_sequence a + (k + min limit (length ?xs - k)) - 1"
    using seq(1) [of "k + min limit (length ?xs - k) - 1"] limit(1) k by simp
  have ok: "audit_validate a = Inr ()" using valid(1) by (cases "audit_validate a") auto
  have check: "check_cursor digest a limit (audit_position digest a limit k) = Inr ()"
    using find_last [OF valid(2) seq(1)] seq(2,3) last k
    by (cases "au_first_sequence a") (simp_all add: check_cursor_def audit_position_def ok_or_def)
  have start: "(case c of Some c \<Rightarrow> and_then (check_cursor digest a limit c) (\<lambda>_. Inr c)
      | None \<Rightarrow> Inr \<lparr>ac_version = 1, ac_generation = au_generation a, ac_vessel_id = au_vessel_id a,
          ac_after = au_first_sequence a - 1, ac_horizon = ae_sequence (last ?xs), ac_horizon_digest = digest (last ?xs),
          ac_limit = limit\<rparr>) = Inr (audit_position digest a limit k)"
    using c check by (auto simp: audit_position_def)
  have more: "ae_sequence (last (take limit (drop k ?xs))) < ae_sequence (last ?xs) \<longleftrightarrow> k + limit < length ?xs"
    "k + limit < length ?xs \<Longrightarrow> ae_sequence (last (take limit (drop k ?xs))) = au_first_sequence a - 1 + (k + limit)"
    unfolding reached last using k seq(2) limit(1) by auto
  show ?thesis
    unfolding audit_page_of_def using limit valid(2) ok rest events more start
    by (simp add: Let_def audit_position_def)
qed

text \<open>
  C10. A reader who starts without a cursor and follows the one of every page gets every retained event of a valid audit
  journal, in order and once, in at most as many pages as there are events, whatever the size of a page.
\<close>

theorem audit_pages_complete:
  assumes "is_ok (audit_validate a)" "au_events a \<noteq> []" "1 \<le> limit" "limit \<le> 128"
  shows "audit_read digest a limit None (length (au_events a)) = au_events a"
proof -
  have "audit_read digest a limit c n = drop k (au_events a)"
    if "k < length (au_events a)" "length (au_events a) \<le> n + k" "c = Some (audit_position digest a limit k) \<or> c = None \<and> k = 0" for n k c
    using that
  proof (induction n arbitrary: k c)
    case (Suc n)
    note page = audit_page_at [OF assms Suc.prems(1,3)]
    show ?case
    proof (cases "k + limit < length (au_events a)")
      case True
      have "audit_read digest a limit (Some (audit_position digest a limit (k + limit))) n = drop (k + limit) (au_events a)"
        using Suc True assms(3) by simp
      then show ?thesis using True append_take_drop_id [of limit "drop k (au_events a)"] by (simp add: page add.commute)
    qed (simp add: page)
  qed simp
  from this [of 0 "length (au_events a)" None] show ?thesis using assms(2) by simp
qed

definition sample_journal :: audit_journal where
  "sample_journal = (audit_new 1 7 False)\<lparr>au_next_sequence := 4, au_events :=
     map (\<lambda>i. (audit_event_of AuditStarted 0 7 None None None)\<lparr>ae_sequence := i\<rparr>) [1, 2, 3]\<rparr>"

theorem audit_pages_complete_witness: "audit_read (\<lambda>_. []) sample_journal 2 None 3 = au_events sample_journal"
proof -
  have "is_ok (audit_validate sample_journal)"
    by (simp add: sample_journal_def audit_validate_def audit_new_def audit_retain_def audit_event_ok_def audit_event_of_def is_nil_def)
  moreover have "length (au_events sample_journal) = 3" by (simp add: sample_journal_def)
  ultimately show ?thesis using audit_pages_complete [of sample_journal 2 "\<lambda>_. []"] by fastforce
qed

end
