(* ===== verification/Pairing_Store.thy ===== *)
theory Pairing_Store
  imports Pairing
begin

text \<open>
  The operations of \<open>vessel/src/process/pairing.rs\<close> on the disk, and the authentication of a connection
  (\<open>access/store.rs\<close>). Every operation runs under the lock of the directory, so they do not interleave; a crash
  is a write after which nothing else happens, which is what a failed write is. Generated identifiers
  and secrets, the clock, digests and lengths of JSON are arguments.
\<close>

section \<open>The disk\<close>

text \<open>
  The outcome of an atomic write: the new contents are there; they are not, and the temporary file may remain;
  or they are there although the writer got an error (the directory could not be synchronised).
\<close>

datatype save_result = Saved | NotSaved bool | Unreported

record vessel_disk =
  vd_identity :: "uuid option"
  vd_pairing :: "pairing option"
  vd_connections :: "(uuid, connection_grant) bmap"
  vd_leftovers :: nat
  vd_faults :: "save_result list"

record url =
  ur_scheme :: rstring
  ur_has_host :: bool
  ur_loopback :: bool
  ur_username :: rstring
  ur_has_password :: bool
  ur_path :: rstring
  ur_has_query :: bool
  ur_has_fragment :: bool
  ur_origin :: rstring

record pairing_env =
  pe_hash :: "rstring \<Rightarrow> rstring"
  pe_parse_url :: "rstring \<Rightarrow> url option"
  pe_canonical_directory :: "path \<Rightarrow> bool"
  pe_state_size :: "pairing \<Rightarrow> nat"
  pe_grant_size :: "connection_grant \<Rightarrow> nat"
  pe_workspaces_size :: "approved_workspace list \<Rightarrow> nat"

datatype pair_refusal = Denied | RateLimited | IdentityChanged | Capacity

datatype pair_error = Refusal pair_refusal | Failure string

text \<open>An operation returns the disk with its result.\<close>

type_synonym 'a action = "vessel_disk \<Rightarrow> (pair_error, 'a) result \<times> vessel_disk"

definition act_then :: "'a action \<Rightarrow> ('a \<Rightarrow> 'b action) \<Rightarrow> 'b action" where
  "act_then m f d = (case m d of (Inl e, d) \<Rightarrow> (Inl e, d) | (Inr x, d) \<Rightarrow> f x d)"

definition act_return :: "'a \<Rightarrow> 'a action" where
  "act_return x d = (Inr x, d)"

definition act_fail :: "pair_error \<Rightarrow> 'a action" where
  "act_fail e d = (Inl e, d)"

definition act_ensure :: "bool \<Rightarrow> pair_error \<Rightarrow> unit action" where
  "act_ensure b e = (if b then act_return () else act_fail e)"

definition act_lift :: "(string, 'a) result \<Rightarrow> 'a action" where
  "act_lift r = (case r of Inl e \<Rightarrow> act_fail (Failure e) | Inr x \<Rightarrow> act_return x)"

definition write_file :: "(vessel_disk \<Rightarrow> vessel_disk) \<Rightarrow> (vessel_disk \<Rightarrow> vessel_disk) \<Rightarrow> unit action" where
  "write_file change leave d =
     (case vd_faults d of
        [] \<Rightarrow> (Inr (), change d)
      | Saved # fs \<Rightarrow> (Inr (), change (d\<lparr>vd_faults := fs\<rparr>))
      | NotSaved left # fs \<Rightarrow> (Inl (Failure ''write failed''), if left then leave (d\<lparr>vd_faults := fs\<rparr>) else d\<lparr>vd_faults := fs\<rparr>)
      | Unreported # fs \<Rightarrow> (Inl (Failure ''sync failed''), change (d\<lparr>vd_faults := fs\<rparr>)))"

definition pairing_limit :: nat where "pairing_limit = 4096"
definition state_bytes :: nat where "state_bytes = 16 * 1024 * 1024"
definition grant_ttl_ms :: nat where "grant_ttl_ms = 30 * 86400 * 1000"
definition max_invitation_ttl_seconds :: nat where "max_invitation_ttl_seconds = 900"

section \<open>The state file\<close>

definition empty_pairing :: pairing where
  "empty_pairing = \<lparr>ps_audit = None, ps_invitations = [], ps_revocations = [], ps_window_ms = 0, ps_attempts = 0\<rparr>"

definition load_pairing :: "pairing_env \<Rightarrow> pairing action" where
  "load_pairing e d =
     (case vd_pairing d of
        None \<Rightarrow> (Inr empty_pairing, d)
      | Some s \<Rightarrow>
          if state_bytes < pe_state_size e s then (Inl (Failure ''pairing state exceeds limit''), d)
          else if \<not> (length (ps_invitations s) \<le> pairing_limit \<and> length (ps_revocations s) \<le> pairing_limit)
          then (Inl (Failure ''pairing state capacity exceeded''), d)
          else case ps_audit s of
            None \<Rightarrow> (Inr s, d)
          | Some a \<Rightarrow> act_then (act_lift (audit_validate a)) (\<lambda>_. act_return s) d)"

definition save_pairing :: "pairing_env \<Rightarrow> pairing \<Rightarrow> unit action" where
  "save_pairing e s =
     (if state_bytes < pe_state_size e s then act_fail (Failure ''pairing state exceeds limit'')
      else write_file (\<lambda>d. d\<lparr>vd_pairing := Some s\<rparr>) id)"

text \<open>Room is kept for the event that reports what an intent leads to.\<close>

definition save_intent :: "pairing_env \<Rightarrow> pairing \<Rightarrow> unit action" where
  "save_intent e s =
     (if state_bytes - 8192 < pe_state_size e s then act_fail (Failure ''pairing audit capacity exhausted'')
      else save_pairing e s)"

definition load_identity :: "uuid action" where
  "load_identity d =
     (case vd_identity d of
        None \<Rightarrow> (Inl (Failure ''No such file''), d)
      | Some i \<Rightarrow> if is_nil i then (Inl (Failure ''Vessel identity unavailable''), d) else (Inr i, d))"

definition load_grant :: "pairing_env \<Rightarrow> uuid \<Rightarrow> connection_grant action" where
  "load_grant e i d =
     (case bm_get (vd_connections d) i of
        None \<Rightarrow> (Inl (Failure ''No such file''), d)
      | Some g \<Rightarrow> if 16384 < pe_grant_size e g then (Inl (Failure ''invalid private access record''), d) else (Inr g, d))"

definition save_grant :: "pairing_env \<Rightarrow> uuid \<Rightarrow> connection_grant \<Rightarrow> unit action" where
  "save_grant e i g =
     (if 16384 < pe_grant_size e g then act_fail (Failure ''access record too large'')
      else write_file (\<lambda>d. d\<lparr>vd_connections := bm_insert i g (vd_connections d)\<rparr>)
        (\<lambda>d. d\<lparr>vd_leftovers := vd_leftovers d + 1\<rparr>))"

section \<open>Audit\<close>

definition append_audit :: "audit_event \<Rightarrow> pairing \<Rightarrow> pairing action" where
  "append_audit v s =
     (case ps_audit s of
        None \<Rightarrow> act_fail (Failure ''audit not initialized'')
      | Some a \<Rightarrow> act_then (act_lift (audit_append v a)) (\<lambda>a. act_return (s\<lparr>ps_audit := Some a\<rparr>)))"

definition start_audit :: "uuid \<Rightarrow> nat \<Rightarrow> pairing \<Rightarrow> pairing action" where
  "start_audit generation now s d =
     (case ps_audit s of
        Some _ \<Rightarrow> (Inr s, d)
      | None \<Rightarrow>
          act_then load_identity (\<lambda>vessel.
          act_then (act_lift (audit_append (audit_event_of AuditStarted now vessel None None None)
              (audit_new generation vessel (vd_pairing d \<noteq> None)))) (\<lambda>a.
            act_return (s\<lparr>ps_audit := Some a\<rparr>))) d)"

definition observe_redemption :: "pairing_env \<Rightarrow> nat \<Rightarrow> nat \<Rightarrow> pairing \<Rightarrow> pairing action" where
  "observe_redemption e position now s =
     (let p = ps_invitations s ! position in
      case pi_redemption p of
        None \<Rightarrow> act_fail (Failure ''redemption unavailable'')
      | Some r \<Rightarrow>
          if rd_publication_observed r then act_return s
          else act_then (load_grant e (cg_grant_id (rd_grant r))) (\<lambda>current.
            if current \<noteq> rd_grant r then act_fail (Failure ''grant publication changed; original intent retained'')
            else act_then (append_audit (audit_event_of GrantPublicationObserved now (cg_vessel_id current)
                (Some (rd_command_id r)) (Some (pi_invitation_id p)) (Some current)) s) (\<lambda>s.
              let s = s\<lparr>ps_invitations := (ps_invitations s)[position :=
                    p\<lparr>pi_redemption := Some (r\<lparr>rd_publication_observed := True\<rparr>)\<rparr>]\<rparr> in
              act_then (save_pairing e s) (\<lambda>_. act_return s))))"

definition observe_revocation :: "pairing_env \<Rightarrow> nat \<Rightarrow> connection_grant \<Rightarrow> nat \<Rightarrow> pairing \<Rightarrow> pairing action" where
  "observe_revocation e position g now s =
     (let r = ps_revocations s ! position in
      if rv_publication_observed r then act_return s
      else act_then (load_grant e (cg_grant_id g)) (\<lambda>observed.
        if observed \<noteq> g then act_fail (Failure ''revocation publication changed; original intent retained'')
        else act_then (append_audit (audit_event_of RevocationObserved now (cg_vessel_id g) (Some (rv_command_id r)) None
            (Some g)) s) (\<lambda>s.
          let s = s\<lparr>ps_revocations := (ps_revocations s)[position := r\<lparr>rv_publication_observed := True\<rparr>]\<rparr> in
          act_then (save_pairing e s) (\<lambda>_. act_return s))))"

section \<open>Invitations\<close>

definition validate_origin :: "pairing_env \<Rightarrow> rstring \<Rightarrow> bool \<Rightarrow> rstring option" where
  "validate_origin e origin allow_loopback_http =
     (if 2048 < str_len origin \<or> has_control origin \<or> trim origin \<noteq> origin then None
      else case pe_parse_url e origin of
        None \<Rightarrow> None
      | Some u \<Rightarrow>
          if \<not> (ur_scheme u = lit ''https'' \<or> (ur_scheme u = lit ''http'' \<and> allow_loopback_http \<and> ur_has_host u \<and> ur_loopback u)) \<or>
             \<not> ur_has_host u \<or> ur_username u \<noteq> [] \<or> ur_has_password u \<or> ur_path u \<noteq> lit ''/'' \<or> ur_has_query u \<or>
             ur_has_fragment u
          then None else Some (ur_origin u))"

record invitation =
  iv_protocol :: nat
  iv_invitation_id :: uuid
  iv_principal_id :: uuid
  iv_vessel_id :: uuid
  iv_endpoint :: rstring
  iv_expires_at_ms :: nat
  iv_code :: rstring

record invite_request =
  iq_endpoint :: rstring
  iq_principal_id :: uuid
  iq_workspaces :: "approved_workspace list"
  iq_rights :: "process_right list"
  iq_accounts :: "uuid list"
  iq_enrollment_connections :: "uuid list"
  iq_ttl_seconds :: nat

definition workspace_ok :: "pairing_env \<Rightarrow> approved_workspace \<Rightarrow> bool" where
  "workspace_ok e w \<longleftrightarrow> \<not> is_nil (wk_id w) \<and> pe_canonical_directory e (wk_path w) \<and> wk_name w \<noteq> [] \<and>
     str_len (wk_name w) \<le> 256 \<and> \<not> has_control (wk_name w)"

definition check_invite :: "pairing_env \<Rightarrow> invite_request \<Rightarrow> bool \<Rightarrow> (string, unit) result" where
  "check_invite e q full =
     (if is_nil (iq_principal_id q) then Inl ''principal must not be nil''
      else if \<not> (1 \<le> iq_ttl_seconds q \<and> iq_ttl_seconds q \<le> max_invitation_ttl_seconds)
      then Inl ''invitation lifetime must be within 15 minutes''
      else if \<not> ((full \<or> iq_workspaces q \<noteq> []) \<and> length (iq_workspaces q) \<le> 32) then Inl ''approve between 1 and 32 workspaces''
      else if \<not> (list_all (workspace_ok e) (iq_workspaces q) \<and> distinct (map wk_id (iq_workspaces q)) \<and>
            distinct (map wk_path (iq_workspaces q))) then Inl ''invalid approved workspace''
      else if 12000 < pe_workspaces_size e (iq_workspaces q) then Inl ''approved workspace metadata exceeds limit''
      else if \<not> (iq_rights q \<noteq> [] \<and> length (iq_rights q) \<le> 16 \<and> distinct (iq_rights q)) then Inl ''invalid rights''
      else if \<not> (length (iq_accounts q) \<le> 64 \<and> length (iq_enrollment_connections q) \<le> 32)
      then Inl ''account scope exceeds executing-host account capacity'' else Inr ())"

definition retained :: "nat \<Rightarrow> pending_invitation \<Rightarrow> bool" where
  "retained now p = (case pi_redemption p of
     None \<Rightarrow> now < pi_expires_at_ms p
   | Some r \<Rightarrow> \<not> rd_publication_observed r \<or> now < cg_expires_at_ms (rd_grant r))"

definition invitation_event :: "nat \<Rightarrow> invite_request \<Rightarrow> bool \<Rightarrow> invitation \<Rightarrow> audit_event" where
  "invitation_event now q full v =
     (audit_event_of InvitationRecorded now (iv_vessel_id v) None (Some (iv_invitation_id v)) None)
       \<lparr>ae_full_access := full, ae_principal_id := Some (iq_principal_id q), ae_expires_at_ms := Some (iv_expires_at_ms v),
        ae_workspace_ids := map wk_id (iq_workspaces q), ae_rights := iq_rights q, ae_account_ids := iq_accounts q,
        ae_enrollment_connection_ids := iq_enrollment_connections q\<rparr>"

definition pending_of :: "pairing_env \<Rightarrow> invite_request \<Rightarrow> bool \<Rightarrow> invitation \<Rightarrow> pending_invitation" where
  "pending_of e q full v =
     \<lparr>pi_full_access = full, pi_invitation_id = iv_invitation_id v, pi_principal_id = iq_principal_id q,
      pi_vessel_id = iv_vessel_id v, pi_endpoint = iv_endpoint v, pi_expires_at_ms = iv_expires_at_ms v,
      pi_code_hash = pe_hash e (iv_code v), pi_attempts = 0, pi_workspaces = iq_workspaces q, pi_rights = iq_rights q,
      pi_accounts = iq_accounts q, pi_enrollment_connections = iq_enrollment_connections q, pi_redemption = None\<rparr>"

text \<open>\<open>invite\<close> is \<open>invite_with_access\<close> without full access.\<close>

definition invite_with_access :: "pairing_env \<Rightarrow> uuid \<Rightarrow> uuid \<Rightarrow> rstring \<Rightarrow> nat \<Rightarrow> invite_request \<Rightarrow> bool \<Rightarrow> invitation action" where
  "invite_with_access e generation new_id code now q full =
     act_then (load_pairing e) (\<lambda>s.
     act_then (start_audit generation now s) (\<lambda>s.
     act_then (act_lift (check_invite e q full)) (\<lambda>_.
     act_then (act_lift (ok_or ''endpoint requires HTTPS or literal loopback'' (validate_origin e (iq_endpoint q) True))) (\<lambda>endpoint.
       let s = s\<lparr>ps_invitations := filter (retained now) (ps_invitations s)\<rparr> in
       act_then (act_ensure (length (ps_invitations s) < pairing_limit) (Failure ''invitation capacity exhausted'')) (\<lambda>_.
       act_then load_identity (\<lambda>vessel.
       act_then (act_lift (ok_or ''expiry overflow'' (checked_add_u64 now (iq_ttl_seconds q * 1000)))) (\<lambda>expires.
         let v = \<lparr>iv_protocol = 1, iv_invitation_id = new_id, iv_principal_id = iq_principal_id q, iv_vessel_id = vessel,
               iv_endpoint = endpoint, iv_expires_at_ms = expires, iv_code = code\<rparr> in
         act_then (append_audit (invitation_event now q full v) s) (\<lambda>s.
           let s = s\<lparr>ps_invitations := ps_invitations s @ [pending_of e q full v]\<rparr> in
           act_then (save_pairing e s) (\<lambda>_. act_return v)))))))))"

definition invite_owner :: "pairing_env \<Rightarrow> uuid \<Rightarrow> uuid \<Rightarrow> rstring \<Rightarrow> nat \<Rightarrow> rstring \<Rightarrow> uuid \<Rightarrow> nat \<Rightarrow> invitation action" where
  "invite_owner e generation new_id code now endpoint principal_id ttl =
     invite_with_access e generation new_id code now
       \<lparr>iq_endpoint = endpoint, iq_principal_id = principal_id, iq_workspaces = [], iq_rights = all_rights, iq_accounts = [],
        iq_enrollment_connections = [], iq_ttl_seconds = ttl\<rparr> True"

section \<open>Redemption\<close>

record pair_request =
  pq_protocol :: nat
  pq_command_id :: uuid
  pq_principal_id :: uuid
  pq_invitation_id :: uuid
  pq_code :: rstring

fun list_position :: "('a \<Rightarrow> bool) \<Rightarrow> 'a list \<Rightarrow> nat option" where
  "list_position P [] = None"
| "list_position P (x # xs) = (if P x then Some 0 else map_option Suc (list_position P xs))"

definition code_matches :: "pairing_env \<Rightarrow> rstring \<Rightarrow> pair_request \<Rightarrow> pending_invitation \<Rightarrow> bool" where
  "code_matches e origin q p \<longleftrightarrow>
     pe_hash e (pq_code q) = pi_code_hash p \<and> pi_principal_id p = pq_principal_id q \<and> pi_endpoint p = origin"

text \<open>A wrong code counts against the common budget of a minute and against its invitation.\<close>

definition refuse_attempt :: "pairing_env \<Rightarrow> nat \<Rightarrow> nat option \<Rightarrow> pairing \<Rightarrow> 'a action" where
  "refuse_attempt e now position s =
     (let s = (if 60000 \<le> sat_sub now (ps_window_ms s) then s\<lparr>ps_window_ms := now, ps_attempts := 0\<rparr> else s) in
      act_then (act_ensure (ps_attempts s < 120) (Refusal RateLimited)) (\<lambda>_.
        let s = s\<lparr>ps_attempts := ps_attempts s + 1\<rparr>;
            s = (case position of
                None \<Rightarrow> s
              | Some i \<Rightarrow> s\<lparr>ps_invitations := (ps_invitations s)[i :=
                  (ps_invitations s ! i)\<lparr>pi_attempts := min (pi_attempts (ps_invitations s ! i) + 1) u32_max\<rparr>]\<rparr>) in
        act_then (save_pairing e s) (\<lambda>_. act_fail (Refusal Denied))))"

definition redemption_of :: "pairing_env \<Rightarrow> uuid \<Rightarrow> rstring \<Rightarrow> nat \<Rightarrow> uuid \<Rightarrow> pending_invitation \<Rightarrow> redemption" where
  "redemption_of e grant_id token expires command p =
     \<lparr>rd_command_id = command,
      rd_credential = \<lparr>cd_schema_version = 1, cd_kind = lit ''workspace'', cd_endpoint = pi_endpoint p, cd_grant_id = grant_id, cd_principal_id = pi_principal_id p,
        cd_vessel_id = pi_vessel_id p, cd_token = token\<rparr>,
      rd_grant = \<lparr>cg_full_access = pi_full_access p, cg_schema_version = 1, cg_grant_id = grant_id,
        cg_principal_id = pi_principal_id p, cg_vessel_id = pi_vessel_id p, cg_revision = 1, cg_rights = pi_rights p,
        cg_accounts = pi_accounts p, cg_enrollment_connections = pi_enrollment_connections p,
        cg_expires_at_ms = expires, cg_revoked = False, cg_token_hash = pe_hash e token, cg_workspaces = pi_workspaces p\<rparr>,
      rd_publication_observed = False, rd_audit_tracked = True\<rparr>"

text \<open>The first redemption: intent and event are one durable replacement before any authority is published.\<close>

definition intend_redemption :: "pairing_env \<Rightarrow> uuid \<Rightarrow> rstring \<Rightarrow> nat \<Rightarrow> pair_request \<Rightarrow> nat \<Rightarrow> pairing \<Rightarrow> pairing action" where
  "intend_redemption e grant_id token now q i s d =
     (let p = ps_invitations s ! i in
      act_then (act_ensure (pi_attempts p < 8 \<and> now < pi_expires_at_ms p) (Refusal Denied)) (\<lambda>_.
      act_then (act_ensure (\<not> list_ex (\<lambda>p. is_some_and (pi_redemption p) (\<lambda>r. rd_command_id r = pq_command_id q))
          (ps_invitations s)) (Refusal Denied)) (\<lambda>_.
      act_then (act_ensure (length (vd_connections d) + vd_leftovers d < pairing_limit) (Refusal Capacity)) (\<lambda>_.
      act_then (act_lift (ok_or ''expiry overflow'' (checked_add_u64 now grant_ttl_ms))) (\<lambda>expires.
        let r = redemption_of e grant_id token expires (pq_command_id q) p in
        act_then (act_ensure (pe_grant_size e (rd_grant r) \<le> 16384) (Failure ''connection record exceeds limit'')) (\<lambda>_.
          let s = s\<lparr>ps_invitations := (ps_invitations s)[i := p\<lparr>pi_redemption := Some r\<rparr>]\<rparr> in
          act_then (append_audit (audit_event_of GrantPublicationIntended now (cg_vessel_id (rd_grant r))
              (Some (rd_command_id r)) (Some (pi_invitation_id p)) (Some (rd_grant r))) s) (\<lambda>s.
            act_then (save_intent e s) (\<lambda>_. act_return s))))))) d)"

text \<open>The grant is published unless it is there; one that was seen and is gone is not made again.\<close>

definition publish_grant :: "pairing_env \<Rightarrow> redemption \<Rightarrow> unit action" where
  "publish_grant e r d =
     (let i = cg_grant_id (rd_grant r) in
      if bm_get (vd_connections d) i \<noteq> None
      then act_then (load_grant e i) (\<lambda>current. act_ensure (current = rd_grant r) (Refusal Denied)) d
      else if rd_publication_observed r
      then (Inl (Failure ''observed grant disappeared; authority will not be recreated''), d)
      else save_grant e i (rd_grant r) d)"

definition deliver_redemption :: "pairing_env \<Rightarrow> nat \<Rightarrow> pair_request \<Rightarrow> nat \<Rightarrow> pairing \<Rightarrow> workspace_credential action" where
  "deliver_redemption e now q i s =
     (case pi_redemption (ps_invitations s ! i) of
        None \<Rightarrow> act_fail (Failure ''retained redemption'')
      | Some r \<Rightarrow>
          act_then (act_ensure (rd_command_id r = pq_command_id q \<and> now < cg_expires_at_ms (rd_grant r)) (Refusal Denied)) (\<lambda>_.
          act_then (act_ensure (\<not> list_ex (\<lambda>v. rv_grant_id v = cg_grant_id (rd_grant r)) (ps_revocations s)) (Refusal Denied)) (\<lambda>_.
          act_then (publish_grant e r) (\<lambda>_.
          act_then (observe_redemption e i now s) (\<lambda>s.
            case pi_redemption (ps_invitations s ! i) of
              None \<Rightarrow> act_fail (Failure ''retained redemption'')
            | Some r \<Rightarrow> act_return (rd_credential r))))))"

definition redeem :: "pairing_env \<Rightarrow> uuid \<Rightarrow> uuid \<Rightarrow> rstring \<Rightarrow> nat \<Rightarrow> rstring \<Rightarrow> uuid option \<Rightarrow> pair_request \<Rightarrow>
    workspace_credential action" where
  "redeem e generation grant_id token now origin expected q =
     act_then (act_ensure (pq_protocol q = 1 \<and> \<not> is_nil (pq_command_id q) \<and> \<not> is_nil (pq_principal_id q) \<and>
         \<not> is_nil (pq_invitation_id q) \<and> str_len (pq_code q) = 64) (Refusal Denied)) (\<lambda>_.
     case validate_origin e origin True of
       None \<Rightarrow> act_fail (Refusal Denied)
     | Some origin \<Rightarrow>
         act_then (load_pairing e) (\<lambda>s.
         act_then (start_audit generation now s) (\<lambda>s.
           case list_position (\<lambda>p. pi_invitation_id p = pq_invitation_id q) (ps_invitations s) of
             None \<Rightarrow> refuse_attempt e now None s
           | Some i \<Rightarrow>
               let p = ps_invitations s ! i in
               if \<not> code_matches e origin q p then refuse_attempt e now (Some i) s
               else act_then load_identity (\<lambda>vessel.
                 act_then (act_ensure (is_none_or expected (\<lambda>x. x = vessel)) (Refusal IdentityChanged)) (\<lambda>_.
                 act_then (act_ensure (pi_vessel_id p = vessel) (Refusal Denied)) (\<lambda>_.
                 act_then (if pi_redemption p = None then intend_redemption e grant_id token now q i s else act_return s)
                   (deliver_redemption e now q i)))))))"

section \<open>Revocation\<close>

record revoke_request =
  vq_grant_id :: uuid
  vq_expected_revision :: nat
  vq_command_id :: uuid

definition next_revision :: "nat \<Rightarrow> nat action" where
  "next_revision n = act_lift (ok_or ''revision overflow'' (checked_add_u64 n 1))"

definition same_command :: "revoke_request \<Rightarrow> revocation \<Rightarrow> bool" where
  "same_command q v \<longleftrightarrow> rv_command_id v = vq_command_id q"

definition same_revocation :: "revoke_request \<Rightarrow> revocation \<Rightarrow> bool" where
  "same_revocation q v \<longleftrightarrow> rv_grant_id v = vq_grant_id q \<and> rv_expected_revision v = vq_expected_revision q"

text \<open>A publication that was intended and not yet observed is observed before the grant changes.\<close>

definition settle_redemption :: "pairing_env \<Rightarrow> uuid \<Rightarrow> nat \<Rightarrow> pairing \<Rightarrow> pairing action" where
  "settle_redemption e i now s =
     (case list_position (\<lambda>p. is_some_and (pi_redemption p) (\<lambda>r. cg_grant_id (rd_grant r) = i \<and> rd_audit_tracked r \<and>
          \<not> rd_publication_observed r)) (ps_invitations s) of
        None \<Rightarrow> act_return s
      | Some position \<Rightarrow> observe_redemption e position now s)"

fun observe_revocations :: "pairing_env \<Rightarrow> nat list \<Rightarrow> connection_grant \<Rightarrow> nat \<Rightarrow> pairing \<Rightarrow> pairing action" where
  "observe_revocations e [] g now s = act_return s"
| "observe_revocations e (i # is) g now s =
     act_then (observe_revocation e i g now s) (observe_revocations e is g now)"

definition settleable :: "uuid \<Rightarrow> connection_grant \<Rightarrow> revocation \<Rightarrow> bool" where
  "settleable i g v \<longleftrightarrow> rv_audit_tracked v \<and> \<not> rv_publication_observed v \<and> rv_grant_id v = i \<and>
     checked_add_u64 (rv_expected_revision v) 1 = Some (cg_revision g) \<and> cg_revoked g"

definition settle_revocations :: "pairing_env \<Rightarrow> uuid \<Rightarrow> connection_grant \<Rightarrow> nat \<Rightarrow> pairing \<Rightarrow> pairing action" where
  "settle_revocations e i g now s =
     observe_revocations e
       (map fst (filter (\<lambda>(_, v). settleable i g v) (enumerate 0 (ps_revocations s)))) g now s"

definition intend_revocation :: "pairing_env \<Rightarrow> revoke_request \<Rightarrow> connection_grant \<Rightarrow> nat \<Rightarrow> pairing \<Rightarrow> pairing action" where
  "intend_revocation e q g now s =
     act_then (act_ensure (length (ps_revocations s) < pairing_limit) (Failure ''revocation receipt capacity exhausted'')) (\<lambda>_.
     act_then (act_ensure (cg_revision g = vq_expected_revision q) (Failure ''grant revision conflict'')) (\<lambda>_.
       let s = s\<lparr>ps_revocations := ps_revocations s @
             [\<lparr>rv_command_id = vq_command_id q, rv_grant_id = vq_grant_id q, rv_expected_revision = vq_expected_revision q,
               rv_publication_observed = False, rv_audit_tracked = True\<rparr>]\<rparr> in
       act_then (append_audit (audit_event_of RevocationIntended now (cg_vessel_id g) (Some (vq_command_id q)) None (Some g)) s) (\<lambda>s.
         act_then (save_intent e s) (\<lambda>_. act_return s))))"

text \<open>The grant is marked revoked and what was written is observed.\<close>

definition publish_revocation :: "pairing_env \<Rightarrow> revoke_request \<Rightarrow> connection_grant \<Rightarrow> nat \<Rightarrow> nat \<Rightarrow> pairing \<Rightarrow> nat action" where
  "publish_revocation e q g revision now s =
     act_then (act_ensure (cg_revision g = vq_expected_revision q) (Failure ''grant revision conflict'')) (\<lambda>_.
       let g = g\<lparr>cg_revoked := True, cg_revision := revision\<rparr> in
       act_then (save_grant e (vq_grant_id q) g) (\<lambda>_.
         case list_position (same_command q) (ps_revocations s) of
           None \<Rightarrow> act_fail (Failure ''retained revocation'')
         | Some i \<Rightarrow> act_then (observe_revocation e i g now s) (\<lambda>_. act_return revision)))"

definition revoke :: "pairing_env \<Rightarrow> uuid \<Rightarrow> nat \<Rightarrow> revoke_request \<Rightarrow> nat action" where
  "revoke e generation now q =
     act_then (act_ensure (\<not> is_nil (vq_grant_id q) \<and> \<not> is_nil (vq_command_id q)) (Failure ''nil revocation identity'')) (\<lambda>_.
     act_then (load_pairing e) (\<lambda>s.
     act_then (start_audit generation now s) (\<lambda>s.
     act_then (act_ensure (is_none_or (find (same_command q) (ps_revocations s)) (same_revocation q))
         (Failure ''revocation command conflict'')) (\<lambda>_.
       if is_some_and (find (same_command q) (ps_revocations s)) rv_publication_observed
       then next_revision (vq_expected_revision q)
       else
         act_then (settle_redemption e (vq_grant_id q) now s) (\<lambda>s.
         act_then (load_grant e (vq_grant_id q)) (\<lambda>g.
         act_then (settle_revocations e (vq_grant_id q) g now s) (\<lambda>s.
         act_then (next_revision (vq_expected_revision q)) (\<lambda>revision.
           case list_position (same_command q) (ps_revocations s) of
             Some i \<Rightarrow>
               act_then (act_ensure (same_revocation q (ps_revocations s ! i)) (Failure ''revocation command conflict'')) (\<lambda>_.
                 if cg_revoked g \<and> cg_revision g = revision
                 then act_then (observe_revocation e i g now s) (\<lambda>_. act_return revision)
                 else act_then (act_ensure (\<not> rv_publication_observed (ps_revocations s ! i))
                     (Failure ''observed revocation changed; original outcome retained'')) (\<lambda>_.
                   publish_revocation e q g revision now s))
           | None \<Rightarrow>
               act_then (intend_revocation e q g now s) (publish_revocation e q g revision now)))))))))"

section \<open>Migration\<close>

text \<open>An invitation not redeemed yet is moved as expired.\<close>

definition expire_unredeemed :: "pairing \<Rightarrow> pairing" where
  "expire_unredeemed s = s\<lparr>ps_invitations :=
     map (\<lambda>p. if pi_redemption p = None then p\<lparr>pi_expires_at_ms := 0\<rparr> else p) (ps_invitations s)\<rparr>"

definition migration_export :: "pairing_env \<Rightarrow> pairing action" where
  "migration_export e = act_then (load_pairing e) (\<lambda>s. act_return (expire_unredeemed s))"

definition migration_import :: "pairing_env \<Rightarrow> bool \<Rightarrow> pairing \<Rightarrow> unit action" where
  "migration_import e root s d =
     (act_then (act_ensure (root \<and> pe_state_size e s \<le> state_bytes) (Failure ''migration pairing import requires bounded root custody'')) (\<lambda>_.
      act_then (act_ensure (vd_pairing d = None) (Failure ''root pairing state already exists'')) (\<lambda>_.
      act_then (act_ensure (length (ps_invitations s) \<le> pairing_limit \<and> length (ps_revocations s) \<le> pairing_limit)
          (Failure ''legacy pairing state exceeds limit'')) (\<lambda>_.
        let s = expire_unredeemed s in
        act_then (case ps_audit s of None \<Rightarrow> act_return () | Some a \<Rightarrow> act_lift (audit_validate a)) (\<lambda>_.
          save_pairing e s)))) d)"

text \<open>The local owner reads the audit; \<open>present\<close> says that the directories of pairing are there.\<close>

definition connection_audit :: "pairing_env \<Rightarrow> (audit_event \<Rightarrow> rstring) \<Rightarrow> bool \<Rightarrow> nat \<Rightarrow> audit_cursor option \<Rightarrow>
    audit_page option action" where
  "connection_audit e digest present limit cursor =
     (if \<not> present then act_lift (audit_page_of digest None limit cursor)
      else act_then (load_pairing e) (\<lambda>s. act_lift (audit_page_of digest (ps_audit s) limit cursor)))"

section \<open>Authentication\<close>

definition v1_0_2_owner :: "process_right list" where
  "v1_0_2_owner = [Catalogue, AccountUse, AccountEnroll, Create, Observe, History, Execute, Steer, Decide, Cancel,
     Lifecycle, Terminal]"

definition valid_owner_scope :: "connection_grant \<Rightarrow> bool" where
  "valid_owner_scope g \<longleftrightarrow> \<not> cg_full_access g \<or>
     (cg_workspaces g = [] \<and> cg_accounts g = [] \<and> cg_enrollment_connections g = [] \<and>
      (cg_rights g = all_rights \<or> cg_rights g = v1_0_2_owner))"

text \<open>The comparison with the file of the connection leaves no field out but the schema, which it fixes.\<close>

definition current_connection :: "pairing_env \<Rightarrow> nat \<Rightarrow> connection_grant \<Rightarrow> unit action" where
  "current_connection e now g =
     act_then (act_ensure (valid_owner_scope g) (Failure ''contradictory owner authority'')) (\<lambda>_.
     act_then (act_ensure (cg_schema_version g = 1 \<and> \<not> is_nil (cg_grant_id g) \<and> \<not> is_nil (cg_principal_id g) \<and>
         0 < cg_revision g) (Failure ''invalid connection authority'')) (\<lambda>_.
     act_then (act_ensure (\<not> cg_revoked g) (Failure ''access revoked'')) (\<lambda>_.
     act_then (act_ensure (now < cg_expires_at_ms g) (Failure ''access expired'')) (\<lambda>_.
     act_then load_identity (\<lambda>vessel.
     act_then (act_ensure (cg_vessel_id g = vessel) (Failure ''Vessel identity changed'')) (\<lambda>_.
     act_then (act_ensure ((cg_full_access g \<or> cg_workspaces g \<noteq> []) \<and> length (cg_workspaces g) \<le> 32)
         (Failure ''invalid workspace scope'')) (\<lambda>_.
     act_then (load_grant e (cg_grant_id g)) (\<lambda>latest.
     act_then (act_ensure (\<not> cg_revoked latest) (Failure ''access revoked'')) (\<lambda>_.
     act_then (act_ensure (now < cg_expires_at_ms latest) (Failure ''access expired'')) (\<lambda>_.
       act_ensure (latest = g) (Failure ''connection authority changed'')))))))))))"

definition authenticate_connection :: "pairing_env \<Rightarrow> nat \<Rightarrow> uuid \<Rightarrow> rstring \<Rightarrow> connection_grant action" where
  "authenticate_connection e now i token =
     act_then (act_ensure (str_len token = 64) (Failure ''access denied'')) (\<lambda>_.
     act_then (load_grant e i) (\<lambda>g.
     act_then (act_ensure (pe_hash e token = cg_token_hash g) (Failure ''access denied'')) (\<lambda>_.
     act_then (current_connection e now g) (\<lambda>_.
     act_then (act_ensure (cg_grant_id g = i) (Failure ''connection identity mismatch'')) (\<lambda>_. act_return g)))))"

end
