(* ===== verification/Pairing_Steps.thy ===== *)
theory Pairing_Steps
  imports Pairing_Store
begin

text \<open>
  What the operations of \<open>Pairing_Store\<close> write, one atomic write at a time: \<open>durable\<close> is the relation of the
  writes, and every operation, whether it succeeds or fails after any of its writes, is a sequence of them.
\<close>

section \<open>Running an operation\<close>

text \<open>A condition on the result and the disk after a success, another on the disk after a failure.\<close>

definition run :: "'a action \<Rightarrow> ('a \<Rightarrow> vessel_disk \<Rightarrow> bool) \<Rightarrow> (vessel_disk \<Rightarrow> bool) \<Rightarrow> vessel_disk \<Rightarrow> bool" where
  "run m Q E d = (case m d of (Inr x, d') \<Rightarrow> Q x d' | (Inl _, d') \<Rightarrow> E d')"

named_theorems run_rules \<open>rules for running an operation\<close>

lemma run_then_iff: "run (act_then m f) Q E d \<longleftrightarrow> run m (\<lambda>x. run (f x) Q E) E d"
  by (auto simp: run_def act_then_def split: prod.splits sum.splits)

lemmas run_then [run_rules] = run_then_iff [THEN iffD2]

lemma run_return [run_rules]: "Q x d \<Longrightarrow> run (act_return x) Q E d"
  by (simp add: run_def act_return_def)

lemma run_fail [run_rules]: "E d \<Longrightarrow> run (act_fail e) Q E d"
  by (simp add: run_def act_fail_def)

lemma run_ensure [run_rules]: "E d \<Longrightarrow> (b \<Longrightarrow> Q () d) \<Longrightarrow> run (act_ensure b e) Q E d"
  by (simp add: run_def act_ensure_def act_return_def act_fail_def)

lemma run_lift [run_rules]: "E d \<Longrightarrow> (\<And>x. r = Inr x \<Longrightarrow> Q x d) \<Longrightarrow> run (act_lift r) Q E d"
  by (cases r) (simp_all add: run_def act_lift_def act_return_def act_fail_def)

lemma run_if [run_rules]: "(b \<Longrightarrow> run m Q E d) \<Longrightarrow> (\<not> b \<Longrightarrow> run n Q E d) \<Longrightarrow> run (if b then m else n) Q E d"
  by simp

lemma run_mono: "run m Q E d \<Longrightarrow> (\<And>x d'. Q x d' \<Longrightarrow> Q' x d') \<Longrightarrow> (\<And>d'. E d' \<Longrightarrow> E' d') \<Longrightarrow> run m Q' E' d"
  by (auto simp: run_def split: prod.splits sum.splits)

lemma run_success: "run m Q E d \<Longrightarrow> m d = (Inr x, d') \<Longrightarrow> Q x d'"
  by (simp add: run_def)

lemma run_after: "run m (\<lambda>_. E) E d \<Longrightarrow> E (snd (m d))"
  by (auto simp: run_def split: prod.splits sum.splits)

definition current :: "vessel_disk \<Rightarrow> pairing" where
  "current d = (case vd_pairing d of None \<Rightarrow> empty_pairing | Some s \<Rightarrow> s)"

lemma run_load_pairing [run_rules]: "E d \<Longrightarrow> Q (current d) d \<Longrightarrow> run (load_pairing e) Q E d"
  by (auto simp: run_def load_pairing_def current_def act_then_def act_lift_def act_return_def act_fail_def
      split: option.splits sum.splits)

lemma run_load_identity [run_rules]:
  "E d \<Longrightarrow> (\<And>i. vd_identity d = Some i \<Longrightarrow> \<not> is_nil i \<Longrightarrow> Q i d) \<Longrightarrow> run load_identity Q E d"
  by (auto simp: run_def load_identity_def split: option.splits)

lemma run_load_grant [run_rules]:
  "E d \<Longrightarrow> (\<And>g. bm_get (vd_connections d) i = Some g \<Longrightarrow> pe_grant_size e g \<le> 16384 \<Longrightarrow> Q g d) \<Longrightarrow> run (load_grant e i) Q E d"
  by (auto simp: run_def load_grant_def split: option.splits)

lemma run_append_audit [run_rules]:
  "E d \<Longrightarrow> (\<And>a. Q (s\<lparr>ps_audit := a\<rparr>) d) \<Longrightarrow> run (append_audit v s) Q E d"
  by (auto simp: append_audit_def run_def act_then_def act_lift_def act_return_def act_fail_def split: option.splits sum.splits)

lemma run_start_audit [run_rules]:
  assumes "E d" "\<And>a. Q (s\<lparr>ps_audit := a\<rparr>) d"
  shows "run (start_audit generation now s) Q E d"
proof (cases "ps_audit s")
  case None
  then have "start_audit generation now s d =
      act_then load_identity (\<lambda>vessel.
      act_then (act_lift (audit_append (audit_event_of AuditStarted now vessel None None None)
        (audit_new generation vessel (vd_pairing d \<noteq> None)))) (\<lambda>a. act_return (s\<lparr>ps_audit := Some a\<rparr>))) d"
    by (simp add: start_audit_def)
  moreover have "run (act_then load_identity (\<lambda>vessel.
      act_then (act_lift (audit_append (audit_event_of AuditStarted now vessel None None None)
        (audit_new generation vessel (vd_pairing d \<noteq> None)))) (\<lambda>a. act_return (s\<lparr>ps_audit := Some a\<rparr>)))) Q E d"
    by (intro run_rules assms)
  ultimately show ?thesis by (simp add: run_def)
next
  case (Some a)
  have same: "s\<lparr>ps_audit := Some a\<rparr> = s" using Some by simp
  show ?thesis using assms(2) [of "Some a"] unfolding same by (simp add: run_def start_audit_def Some)
qed

lemma run_write_file:
  assumes "\<And>fs. E (d\<lparr>vd_faults := fs\<rparr>)" "\<And>fs. E (leave (d\<lparr>vd_faults := fs\<rparr>))"
    "\<And>fs. E (change (d\<lparr>vd_faults := fs\<rparr>))" "\<And>fs. Q () (change (d\<lparr>vd_faults := fs\<rparr>))"
  shows "run (write_file change leave) Q E d"
proof (cases "vd_faults d")
  case Nil
  then have same: "d\<lparr>vd_faults := []\<rparr> = d" by simp
  show ?thesis using assms(4) [of "[]"] unfolding same by (simp add: run_def write_file_def Nil)
next
  case (Cons f fs)
  then show ?thesis using assms by (cases f) (simp_all add: run_def write_file_def)
qed

lemma run_save_pairing:
  assumes "E d" "\<And>fs. E (d\<lparr>vd_faults := fs\<rparr>)" "\<And>fs. E (d\<lparr>vd_faults := fs, vd_pairing := Some s\<rparr>)"
    "\<And>fs. Q () (d\<lparr>vd_faults := fs, vd_pairing := Some s\<rparr>)"
  shows "run (save_pairing e s) Q E d"
proof -
  have "run (write_file (\<lambda>d. d\<lparr>vd_pairing := Some s\<rparr>) id) Q E d" by (rule run_write_file) (use assms in simp_all)
  then show ?thesis using assms(1) by (simp add: save_pairing_def run_fail)
qed

lemma run_save_grant:
  assumes "E d" "\<And>fs. E (d\<lparr>vd_faults := fs\<rparr>)" "\<And>fs n. E (d\<lparr>vd_faults := fs, vd_leftovers := n\<rparr>)"
    "\<And>fs. pe_grant_size e g \<le> 16384 \<Longrightarrow> E (d\<lparr>vd_faults := fs, vd_connections := bm_insert i g (vd_connections d)\<rparr>)"
    "\<And>fs. pe_grant_size e g \<le> 16384 \<Longrightarrow> Q () (d\<lparr>vd_faults := fs, vd_connections := bm_insert i g (vd_connections d)\<rparr>)"
  shows "run (save_grant e i g) Q E d"
proof (cases "pe_grant_size e g \<le> 16384")
  case True
  have "run (write_file (\<lambda>d. d\<lparr>vd_connections := bm_insert i g (vd_connections d)\<rparr>) (\<lambda>d. d\<lparr>vd_leftovers := vd_leftovers d + 1\<rparr>)) Q E d"
    by (rule run_write_file) (use assms True in simp_all)
  then show ?thesis using True by (simp add: save_grant_def)
next
  case False
  then show ?thesis using assms(1) by (simp add: save_grant_def run_fail)
qed

section \<open>Writes\<close>

text \<open>
  An invitation keeps what it offers and the redemption it has, and up to eight its wrong codes are not forgotten;
  a revocation keeps what it revokes.
\<close>

definition same_redemption :: "redemption option \<Rightarrow> redemption option \<Rightarrow> bool" where
  "same_redemption a b = (case a of
     None \<Rightarrow> b = None
   | Some r \<Rightarrow> b = Some r \<or> b = Some (r\<lparr>rd_publication_observed := True\<rparr>))"

definition same_invitation :: "pending_invitation \<Rightarrow> pending_invitation \<Rightarrow> bool" where
  "same_invitation p q \<longleftrightarrow>
     min 8 (pi_attempts p) \<le> pi_attempts q \<and> same_redemption (pi_redemption p) (pi_redemption q) \<and>
     q = p\<lparr>pi_attempts := pi_attempts q, pi_redemption := pi_redemption q\<rparr>"

definition revoked_file :: "vessel_disk \<Rightarrow> uuid \<Rightarrow> bool" where
  "revoked_file d i \<longleftrightarrow> is_some_and (bm_get (vd_connections d) i) cg_revoked"

text \<open>A revocation may be noted as observed only when the file of the grant says so.\<close>

definition same_withdrawal :: "(uuid \<Rightarrow> bool) \<Rightarrow> revocation \<Rightarrow> revocation \<Rightarrow> bool" where
  "same_withdrawal R v w \<longleftrightarrow> rv_grant_id w = rv_grant_id v \<and> rv_command_id w = rv_command_id v \<and>
     (rv_publication_observed w \<longrightarrow> rv_publication_observed v \<or> R (rv_grant_id v))"

definition agrees :: "(uuid \<Rightarrow> bool) \<Rightarrow> pairing \<Rightarrow> pairing \<Rightarrow> bool" where
  "agrees R s t \<longleftrightarrow> list_all2 same_invitation (ps_invitations s) (ps_invitations t) \<and>
     list_all2 (same_withdrawal R) (ps_revocations s) (ps_revocations t)"

definition offer_ok :: "pending_invitation \<Rightarrow> bool" where
  "offer_ok p \<longleftrightarrow> \<not> is_nil (pi_principal_id p) \<and> length (pi_workspaces p) \<le> 32 \<and>
     (if pi_full_access p
      then pi_workspaces p = [] \<and> pi_accounts p = [] \<and> pi_enrollment_connections p = [] \<and> pi_rights p = all_rights
      else pi_workspaces p \<noteq> [])"

text \<open>A redemption holds what its invitation offers.\<close>

definition carries :: "pairing_env \<Rightarrow> pending_invitation \<Rightarrow> redemption \<Rightarrow> bool" where
  "carries e p r \<longleftrightarrow> (\<exists>grant_id token expires command observed. str_len token = 64 \<and> \<not> is_nil grant_id \<and>
     r = (redemption_of e grant_id token expires command p)\<lparr>rd_publication_observed := observed\<rparr>)"

definition invitation_ok :: "pairing_env \<Rightarrow> pending_invitation \<Rightarrow> bool" where
  "invitation_ok e p \<longleftrightarrow> offer_ok p \<and> (\<forall>r. pi_redemption p = Some r \<longrightarrow> carries e p r)"

definition grant_ok :: "revocation list \<Rightarrow> uuid \<Rightarrow> connection_grant \<Rightarrow> bool" where
  "grant_ok rs i g \<longleftrightarrow> cg_grant_id g = i \<and> (cg_revoked g \<longrightarrow> i \<in> rv_grant_id ` set rs)"

definition grants_ok :: "vessel_disk \<Rightarrow> bool" where
  "grants_ok d \<longleftrightarrow> bm_sorted (vd_connections d) \<and>
     (\<forall>i g. bm_get (vd_connections d) i = Some g \<longrightarrow> grant_ok (ps_revocations (current d)) i g)"

definition observed_ok :: "vessel_disk \<Rightarrow> bool" where
  "observed_ok d \<longleftrightarrow> (\<forall>v \<in> set (ps_revocations (current d)). rv_publication_observed v \<longrightarrow> revoked_file d (rv_grant_id v))"

definition pairing_ok :: "pairing_env \<Rightarrow> vessel_disk \<Rightarrow> bool" where
  "pairing_ok e d \<longleftrightarrow> distinct (map pi_invitation_id (ps_invitations (current d))) \<and>
     (\<forall>p \<in> set (ps_invitations (current d)). invitation_ok e p) \<and> grants_ok d \<and> observed_ok d"

text \<open>A Vessel without pairing state and connections.\<close>

definition fresh_vessel :: "vessel_disk \<Rightarrow> bool" where
  "fresh_vessel d \<longleftrightarrow> vd_pairing d = None \<and> vd_connections d = []"

text \<open>A new invitation has a new identifier; \<open>ids\<close> are identifiers that were used and are not given again.\<close>

inductive durable :: "pairing_env \<Rightarrow> uuid set \<Rightarrow> vessel_disk \<Rightarrow> vessel_disk \<Rightarrow> bool" for e ids where
  other: "durable e ids d d'"
    if "vd_pairing d' = vd_pairing d" "vd_connections d' = vd_connections d" "vd_identity d' = vd_identity d"
| book: "durable e ids d (d\<lparr>vd_pairing := Some s\<rparr>)" if "agrees (revoked_file d) (current d) s"
| offer: "durable e ids d (d\<lparr>vd_pairing := Some s\<rparr>)"
    if "ps_invitations s = filter P (ps_invitations (current d)) @ [p]" "ps_revocations s = ps_revocations (current d)"
      "pi_redemption p = None" "pi_invitation_id p \<notin> ids" "offer_ok p"
      "pi_invitation_id p \<notin> pi_invitation_id ` set (ps_invitations (current d))"
| intend: "durable e ids d (d\<lparr>vd_pairing := Some s\<rparr>)"
    if "i < length (ps_invitations (current d))" "p = ps_invitations (current d) ! i" "pi_redemption p = None"
      "pi_attempts p < 8" "r = redemption_of e g token expires command p" "str_len token = 64" "\<not> is_nil g"
      "ps_invitations s = (ps_invitations (current d))[i := p\<lparr>pi_redemption := Some r\<rparr>]"
      "ps_revocations s = ps_revocations (current d)"
| publish: "durable e ids d (d\<lparr>vd_connections := bm_insert (cg_grant_id (rd_grant r)) (rd_grant r) (vd_connections d)\<rparr>)"
    if "p \<in> set (ps_invitations (current d))" "pi_redemption p = Some r"
      "bm_get (vd_connections d) (cg_grant_id (rd_grant r)) = None"
      "cg_grant_id (rd_grant r) \<notin> rv_grant_id ` set (ps_revocations (current d))"
| withdraw: "durable e ids d (d\<lparr>vd_pairing := Some s\<rparr>)"
    if "ps_invitations s = ps_invitations (current d)" "ps_revocations s = ps_revocations (current d) @ [v]" "\<not> rv_publication_observed v"
| revoked: "durable e ids d (d\<lparr>vd_connections := bm_insert i (g\<lparr>cg_revoked := True, cg_revision := n\<rparr>) (vd_connections d)\<rparr>)"
    if "bm_get (vd_connections d) i = Some g" "i \<in> rv_grant_id ` set (ps_revocations (current d))" "0 < n"
| migrated: "durable e ids d d'" if "fresh_vessel d" "pairing_ok e d'" "vd_pairing d' \<noteq> None"

abbreviation durably :: "pairing_env \<Rightarrow> uuid set \<Rightarrow> vessel_disk \<Rightarrow> vessel_disk \<Rightarrow> bool" where
  "durably e ids \<equiv> (durable e ids)\<^sup>*\<^sup>*"

lemma same_redemption_refl [simp]: "same_redemption a a"
  by (cases a) (simp_all add: same_redemption_def)

lemma same_invitation_refl [simp]: "same_invitation p p"
  by (simp add: same_invitation_def)

lemma agrees_refl [simp]: "agrees R s s" "agrees R s (s\<lparr>ps_audit := a\<rparr>)"
  by (simp_all add: agrees_def list_all2_refl same_withdrawal_def)

lemma same_redemption_trans: "same_redemption a b \<Longrightarrow> same_redemption b c \<Longrightarrow> same_redemption a c"
  by (auto simp: same_redemption_def split: option.splits)

lemma same_invitation_trans: "same_invitation p q \<Longrightarrow> same_invitation q r \<Longrightarrow> same_invitation p r"
  by (cases p; cases q; cases r) (auto simp: same_invitation_def intro: same_redemption_trans)

lemma agrees_trans:
  assumes "agrees R s t" "agrees R t u"
  shows "agrees R s u"
proof -
  have "list_all2 same_invitation (ps_invitations s) (ps_invitations u)"
    by (rule list_all2_trans [OF same_invitation_trans]) (use assms in \<open>auto simp: agrees_def\<close>)
  moreover have "list_all2 (same_withdrawal R) (ps_revocations s) (ps_revocations u)"
    by (rule list_all2_trans [of "same_withdrawal R" "same_withdrawal R"])
      (use assms in \<open>auto simp: agrees_def same_withdrawal_def\<close>)
  ultimately show ?thesis by (simp add: agrees_def)
qed

lemma current_simps [simp]:
  "current (d\<lparr>vd_faults := fs\<rparr>) = current d" "current (d\<lparr>vd_pairing := Some s\<rparr>) = s"
  "current (d\<lparr>vd_leftovers := n\<rparr>) = current d" "current (d\<lparr>vd_connections := C\<rparr>) = current d"
  by (simp_all add: current_def)

lemma revoked_file_simps [simp]:
  "revoked_file (d\<lparr>vd_faults := fs\<rparr>) = revoked_file d" "revoked_file (d\<lparr>vd_pairing := p\<rparr>) = revoked_file d"
  by (simp_all add: revoked_file_def fun_eq_iff)

lemma durably_step: "durably e ids d d' \<Longrightarrow> durable e ids d' d'' \<Longrightarrow> durably e ids d d''"
  by (rule rtranclp.rtrancl_into_rtrancl)

lemma durably_faults: "durably e ids d d' \<Longrightarrow> durably e ids d (d'\<lparr>vd_faults := fs\<rparr>)"
  by (erule durably_step) (simp add: durable.other)

end
