(* ===== verification/Pairing_Writes.thy ===== *)
theory Pairing_Writes
  imports Pairing_Steps
begin

text \<open>Every operation of \<open>Pairing_Store\<close> is a sequence of the writes of \<open>Pairing_Steps\<close>, and what its success means.\<close>

section \<open>Books\<close>

definition loaded :: "pairing \<Rightarrow> vessel_disk \<Rightarrow> bool" where
  "loaded s d \<longleftrightarrow> ps_invitations s = ps_invitations (current d) \<and> ps_revocations s = ps_revocations (current d)"

lemma loaded_simps [simp]:
  "loaded (current d) d" "loaded (s\<lparr>ps_audit := a\<rparr>) d = loaded s d"
  "loaded s (d\<lparr>vd_faults := fs\<rparr>) = loaded s d" "loaded s (d\<lparr>vd_pairing := Some s\<rparr>)"
  by (simp_all add: loaded_def)

lemma loaded_agrees: "loaded s d \<Longrightarrow> agrees R s t \<Longrightarrow> agrees R (current d) t"
  by (simp add: loaded_def agrees_def)

lemma run_store:
  assumes "durably e ids d0 d" "\<And>fs. durable e ids (d\<lparr>vd_faults := fs\<rparr>) (d\<lparr>vd_faults := fs, vd_pairing := Some s\<rparr>)"
    "\<And>d'. durably e ids d0 d' \<Longrightarrow> current d' = s \<Longrightarrow> vd_connections d' = vd_connections d \<Longrightarrow> vd_identity d' = vd_identity d \<Longrightarrow> Q () d'"
  shows "run (save_pairing e s) Q (durably e ids d0) d"
proof (rule run_save_pairing)
  fix fs
  have step: "durably e ids d0 (d\<lparr>vd_faults := fs, vd_pairing := Some s\<rparr>)"
    by (rule durably_step [OF durably_faults [OF assms(1)] assms(2)])
  then show "durably e ids d0 (d\<lparr>vd_faults := fs, vd_pairing := Some s\<rparr>)" .
  show "Q () (d\<lparr>vd_faults := fs, vd_pairing := Some s\<rparr>)" by (rule assms(3) [OF step]) simp_all
  show "durably e ids d0 (d\<lparr>vd_faults := fs\<rparr>)" by (rule durably_faults [OF assms(1)])
qed (rule assms(1))

lemma durable_book: "agrees (revoked_file d) (current d) s \<Longrightarrow> durable e ids (d\<lparr>vd_faults := fs\<rparr>) (d\<lparr>vd_faults := fs, vd_pairing := Some s\<rparr>)"
  using durable.book [of "d\<lparr>vd_faults := fs\<rparr>" s] by simp

lemmas run_book = run_store [OF _ durable_book]

lemma agrees_invitation:
  assumes "i < length (ps_invitations s)" "same_invitation (ps_invitations s ! i) p"
  shows "agrees R s (s\<lparr>ps_audit := a, ps_invitations := (ps_invitations s)[i := p]\<rparr>)"
  using assms by (auto simp: agrees_def list_all2_conv_all_nth nth_list_update same_withdrawal_def)

lemma agrees_withdrawal:
  assumes "i < length (ps_revocations s)" "same_withdrawal R (ps_revocations s ! i) v"
  shows "agrees R s (s\<lparr>ps_audit := a, ps_revocations := (ps_revocations s)[i := v]\<rparr>)"
  using assms by (auto simp: agrees_def list_all2_conv_all_nth nth_list_update same_withdrawal_def)

text \<open>What an observation leaves: the same offers and withdrawals, on the disk as in memory.\<close>

definition noted :: "pairing_env \<Rightarrow> uuid set \<Rightarrow> vessel_disk \<Rightarrow> pairing \<Rightarrow> vessel_disk \<Rightarrow> pairing \<Rightarrow> vessel_disk \<Rightarrow> bool" where
  "noted e ids d0 s d s' d' \<longleftrightarrow> durably e ids d0 d' \<and> loaded s' d' \<and> agrees (revoked_file d) s s' \<and>
     vd_connections d' = vd_connections d \<and> vd_identity d' = vd_identity d"

lemma noted_refl: "durably e ids d0 d \<Longrightarrow> loaded s d \<Longrightarrow> noted e ids d0 s d s d"
  by (simp add: noted_def)

lemma run_observe_redemption:
  assumes "durably e ids d0 d" "loaded s d" "i < length (ps_invitations s)"
    "\<And>s' d'. noted e ids d0 s d s' d' \<Longrightarrow> Q s' d'"
  shows "run (observe_redemption e i now s) Q (durably e ids d0) d"
proof (cases "pi_redemption (ps_invitations s ! i)")
  case None
  then show ?thesis using assms(1) by (simp add: observe_redemption_def run_fail)
next
  case (Some r)
  show ?thesis
  proof (cases "rd_publication_observed r")
    case True
    then show ?thesis using assms noted_refl Some by (simp add: observe_redemption_def run_return)
  next
    case False
    let ?p = "(ps_invitations s ! i)\<lparr>pi_redemption := Some (r\<lparr>rd_publication_observed := True\<rparr>)\<rparr>"
    have "same_invitation (ps_invitations s ! i) ?p" using Some by (simp add: same_invitation_def same_redemption_def)
    note agree = agrees_invitation [OF assms(3) this]
    show ?thesis
      unfolding observe_redemption_def Let_def Some option.case if_not_P [OF False]
    proof (intro run_rules assms(1))
      fix a
      have new: "agrees (revoked_file d) s (s\<lparr>ps_audit := a, ps_invitations := (ps_invitations s)[i := ?p]\<rparr>)" by (rule agree)
      show "run (save_pairing e (s\<lparr>ps_audit := a, ps_invitations := (ps_invitations (s\<lparr>ps_audit := a\<rparr>))[i := ?p]\<rparr>))
         (\<lambda>_. run (act_return (s\<lparr>ps_audit := a, ps_invitations := (ps_invitations (s\<lparr>ps_audit := a\<rparr>))[i := ?p]\<rparr>)) Q (durably e ids d0))
         (durably e ids d0) d"
        by (rule run_book [OF assms(1)])
          (use new assms(4) loaded_agrees [OF assms(2) new] in \<open>auto simp: noted_def loaded_def intro!: run_return\<close>)
    qed
  qed
qed

lemma run_observe_revocation:
  assumes "durably e ids d0 d" "loaded s d" "i < length (ps_revocations s)" "revoked_file d (rv_grant_id (ps_revocations s ! i))"
    "\<And>s' d'. noted e ids d0 s d s' d' \<Longrightarrow> Q s' d'"
  shows "run (observe_revocation e i g now s) Q (durably e ids d0) d"
proof (cases "rv_publication_observed (ps_revocations s ! i)")
  case True
  then show ?thesis using assms noted_refl by (simp add: observe_revocation_def run_return)
next
  case False
  let ?v = "(ps_revocations s ! i)\<lparr>rv_publication_observed := True\<rparr>"
  have "same_withdrawal (revoked_file d) (ps_revocations s ! i) ?v" using assms(4) by (simp add: same_withdrawal_def)
  note agree = agrees_withdrawal [OF assms(3) this]
  show ?thesis
    unfolding observe_revocation_def Let_def if_not_P [OF False]
  proof (intro run_rules assms(1))
    fix a
    have new: "agrees (revoked_file d) s (s\<lparr>ps_audit := a, ps_revocations := (ps_revocations s)[i := ?v]\<rparr>)" by (rule agree)
    show "run (save_pairing e (s\<lparr>ps_audit := a, ps_revocations := (ps_revocations (s\<lparr>ps_audit := a\<rparr>))[i := ?v]\<rparr>))
       (\<lambda>_. run (act_return (s\<lparr>ps_audit := a, ps_revocations := (ps_revocations (s\<lparr>ps_audit := a\<rparr>))[i := ?v]\<rparr>)) Q (durably e ids d0))
       (durably e ids d0) d"
      by (rule run_book [OF assms(1)])
        (use new assms(5) loaded_agrees [OF assms(2) new] in \<open>auto simp: noted_def loaded_def intro!: run_return\<close>)
  qed
qed

section \<open>Invitations\<close>

lemma check_invite_offer:
  assumes "check_invite e q full = Inr ()"
    "full \<Longrightarrow> iq_workspaces q = [] \<and> iq_accounts q = [] \<and> iq_enrollment_connections q = [] \<and> iq_rights q = all_rights"
  shows "offer_ok (pending_of e q full v)"
  using assms by (auto simp: check_invite_def offer_ok_def pending_of_def split: if_splits)

lemma run_invite:
  assumes "new_id \<notin> ids" "new_id \<notin> pi_invitation_id ` set (ps_invitations (current d))"
    "full \<Longrightarrow> iq_workspaces q = [] \<and> iq_accounts q = [] \<and> iq_enrollment_connections q = [] \<and> iq_rights q = all_rights"
  shows "run (invite_with_access e generation new_id code now q full) (\<lambda>_. durably e ids d) (durably e ids d) d"
proof -
  have "durable e ids d' (d'\<lparr>vd_pairing := Some s\<rparr>)"
    if "check_invite e q full = Inr ()" "iv_invitation_id v = new_id" "ps_revocations s = ps_revocations (current d')"
      "ps_invitations s = filter (retained now) (ps_invitations (current d')) @ [pending_of e q full v]"
      "new_id \<notin> pi_invitation_id ` set (ps_invitations (current d'))" for d' s v
    by (rule durable.offer [OF that(4,3) _ _ check_invite_offer [OF that(1) assms(3)]])
      (use assms(1) that(2,5) in \<open>simp_all add: pending_of_def\<close>)
  then have offer: "durable e ids (d\<lparr>vd_faults := fs\<rparr>) (d\<lparr>vd_faults := fs, vd_pairing := Some s\<rparr>)"
    if "check_invite e q full = Inr ()" "iv_invitation_id v = new_id" "ps_revocations s = ps_revocations (current d)"
      "ps_invitations s = filter (retained now) (ps_invitations (current d)) @ [pending_of e q full v]" for fs s v
    using that assms(2) by (metis current_simps(1) vessel_disk.update_convs(2,5))
  show ?thesis
    unfolding invite_with_access_def Let_def
    by (intro run_rules run_store rtranclp.rtrancl_refl) (rule offer, auto)
qed

section \<open>Redemption\<close>

lemma list_position_Some: "list_position P xs = Some i \<Longrightarrow> i < length xs \<and> P (xs ! i)"
  by (induction xs arbitrary: i) (auto split: if_splits)

lemma run_refuse_attempt:
  assumes "durably e ids d0 d" "loaded s d" "\<And>k. i = Some k \<Longrightarrow> k < length (ps_invitations s)"
  shows "run (refuse_attempt e now i s) Q (durably e ids d0) d"
proof -
  have agree: "agrees (revoked_file d) (current d) (case i of
      None \<Rightarrow> t
    | Some k \<Rightarrow> t\<lparr>ps_invitations := (ps_invitations t)[k :=
        (ps_invitations t ! k)\<lparr>pi_attempts := min (pi_attempts (ps_invitations t ! k) + 1) u32_max\<rparr>]\<rparr>)"
    if "ps_invitations t = ps_invitations s" "ps_revocations t = ps_revocations s" for t
  proof -
    have "agrees (revoked_file d) (current d) t" using assms(2) that by (simp add: loaded_def agrees_def list_all2_refl same_withdrawal_def)
    moreover have "same_invitation p (p\<lparr>pi_attempts := min (pi_attempts p + 1) u32_max\<rparr>)" for p
      by (simp add: same_invitation_def)
    ultimately show ?thesis
      using assms(3) that agrees_invitation [where s = t and a = "ps_audit t"] by (cases i) (auto intro: agrees_trans)
  qed
  show ?thesis
    unfolding refuse_attempt_def Let_def
    by (intro run_rules run_book assms(1)) (auto intro!: agree)
qed

lemma run_intend_redemption:
  assumes d: "durably e ids d0 d" "loaded s d" and i: "i < length (ps_invitations s)" "pi_redemption (ps_invitations s ! i) = None"
    and fresh: "str_len token = 64" "\<not> is_nil grant_id"
    and post: "\<And>s' d' expires. durably e ids d0 d' \<Longrightarrow> loaded s' d' \<Longrightarrow> vd_connections d' = vd_connections d \<Longrightarrow>
      vd_identity d' = vd_identity d \<Longrightarrow> ps_revocations s' = ps_revocations s \<Longrightarrow>
      ps_invitations s' = (ps_invitations s)[i := (ps_invitations s ! i)\<lparr>pi_redemption :=
        Some (redemption_of e grant_id token expires (pq_command_id q) (ps_invitations s ! i))\<rparr>] \<Longrightarrow> Q s' d'"
  shows "run (intend_redemption e grant_id token now q i s) Q (durably e ids d0) d"
proof -
  let ?p = "ps_invitations s ! i"
  have intend: "durable e ids (d\<lparr>vd_faults := fs\<rparr>) (d\<lparr>vd_faults := fs, vd_pairing := Some t\<rparr>)"
    if "pi_attempts ?p < 8" "ps_revocations t = ps_revocations s"
      "ps_invitations t = (ps_invitations s)[i := ?p\<lparr>pi_redemption := Some (redemption_of e grant_id token expires (pq_command_id q) ?p)\<rparr>]"
    for fs t expires
    using durable.intend [of i "d\<lparr>vd_faults := fs\<rparr>" ?p _ e grant_id token expires "pq_command_id q" t ids]
      d(2) i fresh that by (simp add: loaded_def)
  have saved: "run (save_intent e t) (\<lambda>_. run (act_return t) Q (durably e ids d0)) (durably e ids d0) d"
    if "pi_attempts ?p < 8" "ps_revocations t = ps_revocations s"
      "ps_invitations t = (ps_invitations s)[i := ?p\<lparr>pi_redemption := Some (redemption_of e grant_id token expires (pq_command_id q) ?p)\<rparr>]"
    for t expires
    unfolding save_intent_def
    by (intro run_rules run_store d(1) intend [OF that])
      (use post that in \<open>auto intro!: run_return simp: loaded_def\<close>)
  show ?thesis
    unfolding run_def intend_redemption_def Let_def
    unfolding run_def [symmetric]
    by (intro run_rules d(1) saved) auto
qed

definition granted :: "pairing_env \<Rightarrow> nat \<Rightarrow> pair_request \<Rightarrow> pending_invitation \<Rightarrow> workspace_credential \<Rightarrow> vessel_disk \<Rightarrow> bool" where
  "granted e now q p c d \<longleftrightarrow> (\<exists>r. p \<in> set (ps_invitations (current d)) \<and> pi_redemption p = Some r \<and> rd_credential r = c \<and>
     rd_command_id r = pq_command_id q \<and> now < cg_expires_at_ms (rd_grant r) \<and>
     cg_grant_id (rd_grant r) \<notin> rv_grant_id ` set (ps_revocations (current d)) \<and>
     bm_get (vd_connections d) (cg_grant_id (rd_grant r)) = Some (rd_grant r) \<and> pe_grant_size e (rd_grant r) \<le> 16384)"

lemma run_publish_grant:
  assumes d: "durably e ids d0 d" "p \<in> set (ps_invitations (current d))" "pi_redemption p = Some r"
      "cg_grant_id (rd_grant r) \<notin> rv_grant_id ` set (ps_revocations (current d))"
    and post: "\<And>d'. durably e ids d0 d' \<Longrightarrow> current d' = current d \<Longrightarrow> vd_identity d' = vd_identity d \<Longrightarrow>
      bm_get (vd_connections d') (cg_grant_id (rd_grant r)) = Some (rd_grant r) \<Longrightarrow> pe_grant_size e (rd_grant r) \<le> 16384 \<Longrightarrow> Q () d'"
  shows "run (publish_grant e r) Q (durably e ids d0) d"
proof (cases "bm_get (vd_connections d) (cg_grant_id (rd_grant r)) = None")
  case False
  have "run (act_then (load_grant e (cg_grant_id (rd_grant r))) (\<lambda>current. act_ensure (current = rd_grant r) (Refusal Denied)))
      Q (durably e ids d0) d"
    by (intro run_rules d(1)) (use d(1) post in auto)
  then show ?thesis using False by (simp add: run_def publish_grant_def Let_def)
next
  case True
  let ?i = "cg_grant_id (rd_grant r)"
  have step: "durably e ids d0 (d\<lparr>vd_faults := fs, vd_connections := bm_insert ?i (rd_grant r) (vd_connections d)\<rparr>)" for fs
    using durably_step [OF durably_faults [OF d(1)] durable.publish [of p "d\<lparr>vd_faults := fs\<rparr>" r]] d(2-4) True by simp
  have "run (save_grant e ?i (rd_grant r)) Q (durably e ids d0) d"
  proof (rule run_save_grant)
    show "durably e ids d0 (d\<lparr>vd_faults := fs, vd_leftovers := n\<rparr>)" for fs n
      by (rule durably_step [OF d(1)]) (simp add: durable.other)
    show "Q () (d\<lparr>vd_faults := fs, vd_connections := bm_insert ?i (rd_grant r) (vd_connections d)\<rparr>)"
      if "pe_grant_size e (rd_grant r) \<le> 16384" for fs
      by (rule post [OF step]) (simp_all add: bm_get_insert_same that)
  qed (rule d(1) step durably_faults [OF d(1)])+
  then show ?thesis using True d(1) by (simp add: run_def publish_grant_def Let_def)
qed

lemma agrees_withdrawn: "agrees R s t \<Longrightarrow> rv_grant_id ` set (ps_revocations t) = rv_grant_id ` set (ps_revocations s)"
proof -
  assume "agrees R s t"
  then have "map rv_grant_id (ps_revocations s) = map rv_grant_id (ps_revocations t)"
    by (auto simp: agrees_def list_all2_conv_all_nth same_withdrawal_def intro: nth_equalityI)
  then show ?thesis by (metis list.set_map)
qed

lemma agrees_nth:
  "agrees R s t \<Longrightarrow> i < length (ps_invitations s) \<Longrightarrow>
   i < length (ps_invitations t) \<and> same_invitation (ps_invitations s ! i) (ps_invitations t ! i)"
  by (simp add: agrees_def list_all2_conv_all_nth)

lemma same_redemption_parts:
  "same_redemption (Some r) b \<Longrightarrow> \<exists>r'. b = Some r' \<and> rd_credential r' = rd_credential r \<and> rd_grant r' = rd_grant r \<and>
     rd_command_id r' = rd_command_id r"
  by (auto simp: same_redemption_def)

lemma run_deliver_redemption:
  assumes d: "durably e ids d0 d" "loaded s d" "i < length (ps_invitations s)"
    and post: "\<And>c d' p. durably e ids d0 d' \<Longrightarrow> vd_identity d' = vd_identity d \<Longrightarrow> same_invitation (ps_invitations s ! i) p \<Longrightarrow>
      granted e now q p c d' \<Longrightarrow> Q c d'"
  shows "run (deliver_redemption e now q i s) Q (durably e ids d0) d"
proof (cases "pi_redemption (ps_invitations s ! i)")
  case None
  then show ?thesis using d(1) by (simp add: deliver_redemption_def run_fail)
next
  case (Some r)
  let ?p = "ps_invitations s ! i"
  have deliver: "run (case pi_redemption (ps_invitations t ! i) of
        None \<Rightarrow> act_fail (Failure ''retained redemption'') | Some r \<Rightarrow> act_return (rd_credential r)) Q (durably e ids d0) d''"
    if r: "rd_command_id r = pq_command_id q" "now < cg_expires_at_ms (rd_grant r)"
      "cg_grant_id (rd_grant r) \<notin> rv_grant_id ` set (ps_revocations s)"
      and d': "vd_identity d' = vd_identity d" "bm_get (vd_connections d') (cg_grant_id (rd_grant r)) = Some (rd_grant r)"
      "pe_grant_size e (rd_grant r) \<le> 16384"
      and noted: "noted e ids d0 s d' t d''" for d' t d''
  proof -
    have t: "loaded t d''" "agrees (revoked_file d') s t" using noted by (simp_all add: noted_def)
    note nth = agrees_nth [OF t(2) d(3)]
    then obtain r' where r': "pi_redemption (ps_invitations t ! i) = Some r'" "rd_credential r' = rd_credential r"
        "rd_grant r' = rd_grant r" "rd_command_id r' = rd_command_id r"
      using Some same_redemption_parts [of r] by (auto simp: same_invitation_def)
    have "granted e now q (ps_invitations t ! i) (rd_credential r') d''"
      using r r' d' nth noted agrees_withdrawn [OF t(2)] t(1) by (auto simp: granted_def noted_def loaded_def)
    then show ?thesis using post nth noted d' r'(1) by (auto simp: noted_def intro!: run_return)
  qed
  have here: "?p \<in> set (ps_invitations (current d))" using d(2,3) by (simp add: loaded_def)
  have revs: "ps_revocations s = ps_revocations (current d)" using d(2) by (simp add: loaded_def)
  show ?thesis
    unfolding deliver_redemption_def Some option.case
  proof (intro run_rules d(1) run_publish_grant [OF d(1) here Some])
    assume "\<not> list_ex (\<lambda>v. rv_grant_id v = cg_grant_id (rd_grant r)) (ps_revocations s)"
    then show "cg_grant_id (rd_grant r) \<notin> rv_grant_id ` set (ps_revocations (current d))"
      by (auto simp: list_ex_iff revs)
  next
    fix d'
    assume cmd: "rd_command_id r = pq_command_id q \<and> now < cg_expires_at_ms (rd_grant r)"
      and open': "\<not> list_ex (\<lambda>v. rv_grant_id v = cg_grant_id (rd_grant r)) (ps_revocations s)"
      and d': "durably e ids d0 d'" "current d' = current d" "vd_identity d' = vd_identity d"
      "bm_get (vd_connections d') (cg_grant_id (rd_grant r)) = Some (rd_grant r)" "pe_grant_size e (rd_grant r) \<le> 16384"
    have "loaded s d'" using d(2) d'(2) by (simp add: loaded_def)
    then show "run (observe_redemption e i now s) (\<lambda>s. run (case pi_redemption (ps_invitations s ! i) of
        None \<Rightarrow> act_fail (Failure ''retained redemption'') | Some r \<Rightarrow> act_return (rd_credential r)) Q (durably e ids d0))
        (durably e ids d0) d'"
      using cmd open' d' by (intro run_observe_redemption d' d(3) deliver) (auto simp: list_ex_iff)
  qed
qed

text \<open>A success: the credential of the invitation with the code, which was there before.\<close>

definition redeemed :: "pairing_env \<Rightarrow> nat \<Rightarrow> pair_request \<Rightarrow> workspace_credential \<Rightarrow> vessel_disk \<Rightarrow> vessel_disk \<Rightarrow> bool" where
  "redeemed e now q c d d' \<longleftrightarrow> (\<exists>p n m. p \<in> set (ps_invitations (current d)) \<and>
     granted e now q (p\<lparr>pi_attempts := n, pi_redemption := m\<rparr>) c d' \<and> pi_invitation_id p = pq_invitation_id q \<and>
     pi_code_hash p = pe_hash e (pq_code q) \<and> pi_principal_id p = pq_principal_id q \<and>
     vd_identity d = Some (pi_vessel_id p) \<and> \<not> is_nil (pi_vessel_id p))"

lemma run_redeem:
  assumes "str_len token = 64" "\<not> is_nil grant_id"
  shows "run (redeem e generation grant_id token now origin expected q)
    (\<lambda>c d'. durably e ids d d' \<and> vd_identity d' = vd_identity d \<and>
       redeemed e now q c d d') (durably e ids d) d"
proof -
  let ?Q = "\<lambda>c d'. durably e ids d d' \<and> vd_identity d' = vd_identity d \<and>
       redeemed e now q c d d'"
  have matched: "run (act_then (if pi_redemption (ps_invitations s ! i) = None then intend_redemption e grant_id token now q i s
        else act_return s) (deliver_redemption e now q i)) ?Q (durably e ids d) d"
    if s: "loaded s d" and i: "i < length (ps_invitations s)" "pi_invitation_id (ps_invitations s ! i) = pq_invitation_id q"
      and code: "code_matches e origin q (ps_invitations s ! i)"
      and vessel: "vd_identity d = Some (pi_vessel_id (ps_invitations s ! i))" "\<not> is_nil (pi_vessel_id (ps_invitations s ! i))"
    for s i origin
  proof -
    have deliver: "run (deliver_redemption e now q i t) ?Q (durably e ids d) d'"
      if "durably e ids d d'" "loaded t d'" "vd_identity d' = vd_identity d" "i < length (ps_invitations t)"
        and m: "\<exists>m. ps_invitations t ! i = (ps_invitations s ! i)\<lparr>pi_redemption := m\<rparr>" for t d'
    proof (rule run_deliver_redemption [OF that(1,2,4)])
      fix c d'' p
      assume c: "durably e ids d d''" "vd_identity d'' = vd_identity d'" "same_invitation (ps_invitations t ! i) p" "granted e now q p c d''"
      obtain m where "ps_invitations t ! i = (ps_invitations s ! i)\<lparr>pi_redemption := m\<rparr>" using m by blast
      moreover obtain k m' where "p = (ps_invitations t ! i)\<lparr>pi_attempts := k, pi_redemption := m'\<rparr>"
        using c(3) unfolding same_invitation_def by blast
      ultimately have "granted e now q ((ps_invitations s ! i)\<lparr>pi_attempts := k, pi_redemption := m'\<rparr>) c d''"
        using c(4) by simp
      moreover have "ps_invitations s ! i \<in> set (ps_invitations (current d))" using s i(1) by (simp add: loaded_def)
      ultimately have "redeemed e now q c d d''"
        unfolding redeemed_def using i(2) code vessel by (auto simp: code_matches_def)
      then show "?Q c d''" using c that by simp
    qed
    show ?thesis
    proof (intro run_rules)
      assume "pi_redemption (ps_invitations s ! i) = None"
      then show "run (intend_redemption e grant_id token now q i s) (\<lambda>x. run (deliver_redemption e now q i x) ?Q (durably e ids d))
          (durably e ids d) d"
        by (intro run_intend_redemption rtranclp.rtrancl_refl s i(1) assms deliver) (use i in auto)
    next
      show "run (deliver_redemption e now q i s) ?Q (durably e ids d) d"
        by (rule deliver) (use s i in \<open>auto intro: exI [of _ "pi_redemption (ps_invitations s ! i)"]\<close>)
    qed
  qed
  show ?thesis
  proof (cases "validate_origin e origin True")
    case None
    then show ?thesis unfolding redeem_def by (simp, intro run_rules rtranclp.rtrancl_refl)
  next
    case (Some url)
    have attempt: "run (case list_position (\<lambda>p. pi_invitation_id p = pq_invitation_id q) (ps_invitations s) of
             None \<Rightarrow> refuse_attempt e now None s
           | Some i \<Rightarrow>
               let p = ps_invitations s ! i in
               if \<not> code_matches e url q p then refuse_attempt e now (Some i) s
               else act_then load_identity (\<lambda>vessel.
                 act_then (act_ensure (is_none_or expected (\<lambda>x. x = vessel)) (Refusal IdentityChanged)) (\<lambda>_.
                 act_then (act_ensure (pi_vessel_id p = vessel) (Refusal Denied)) (\<lambda>_.
                 act_then (if pi_redemption p = None then intend_redemption e grant_id token now q i s else act_return s)
                   (deliver_redemption e now q i))))) ?Q (durably e ids d) d" if s: "loaded s d" for s
    proof (cases "list_position (\<lambda>p. pi_invitation_id p = pq_invitation_id q) (ps_invitations s)")
      case None
      then show ?thesis using run_refuse_attempt [OF rtranclp.rtrancl_refl s, of None] by simp
    next
      case (Some i)
      note i = list_position_Some [OF Some]
      show ?thesis
        unfolding Some option.case Let_def
      proof (rule run_if)
        show "run (refuse_attempt e now (Some i) s) ?Q (durably e ids d) d"
          by (rule run_refuse_attempt [OF rtranclp.rtrancl_refl s]) (use i in auto)
      next
        assume "\<not> \<not> code_matches e url q (ps_invitations s ! i)"
        then show "run (act_then load_identity (\<lambda>vessel.
                 act_then (act_ensure (is_none_or expected (\<lambda>x. x = vessel)) (Refusal IdentityChanged)) (\<lambda>_.
                 act_then (act_ensure (pi_vessel_id (ps_invitations s ! i) = vessel) (Refusal Denied)) (\<lambda>_.
                 act_then (if pi_redemption (ps_invitations s ! i) = None then intend_redemption e grant_id token now q i s
                   else act_return s) (deliver_redemption e now q i))))) ?Q (durably e ids d) d"
          by (intro run_then run_load_identity run_ensure rtranclp.rtrancl_refl)
            (rule matched [OF s, unfolded run_then_iff], use i in auto)
      qed
    qed
    show ?thesis
      unfolding redeem_def Some option.case
      by (intro run_rules rtranclp.rtrancl_refl attempt) simp
  qed
qed

section \<open>Revocation\<close>

lemma noted_trans: "noted e ids d0 s d s' d' \<Longrightarrow> noted e ids d0 s' d' s'' d'' \<Longrightarrow> noted e ids d0 s d s'' d''"
proof -
  assume a: "noted e ids d0 s d s' d'" "noted e ids d0 s' d' s'' d''"
  then have "revoked_file d' = revoked_file d" by (simp add: noted_def revoked_file_def fun_eq_iff)
  with a show ?thesis by (auto simp: noted_def intro: agrees_trans)
qed

lemma noted_position:
  "noted e ids d0 s d s' d' \<Longrightarrow> i < length (ps_revocations s) \<Longrightarrow>
   i < length (ps_revocations s') \<and> rv_grant_id (ps_revocations s' ! i) = rv_grant_id (ps_revocations s ! i)"
  by (auto simp: noted_def agrees_def list_all2_conv_all_nth same_withdrawal_def)

lemma noted_revoked: "noted e ids d0 s d s' d' \<Longrightarrow> revoked_file d' = revoked_file d"
  by (simp add: noted_def revoked_file_def fun_eq_iff)

lemma noted_withdrawn:
  "noted e ids d0 s d s' d' \<Longrightarrow> rv_grant_id ` set (ps_revocations (current d')) = rv_grant_id ` set (ps_revocations s)"
  using agrees_withdrawn [of "revoked_file d" s s'] by (simp add: noted_def loaded_def)

lemma run_observe_revocations:
  assumes "durably e ids d0 d" "loaded s d" "\<And>i. i \<in> set is \<Longrightarrow> i < length (ps_revocations s) \<and>
      revoked_file d (rv_grant_id (ps_revocations s ! i))"
    "\<And>s' d'. noted e ids d0 s d s' d' \<Longrightarrow> Q s' d'"
  shows "run (observe_revocations e is g now s) Q (durably e ids d0) d"
  using assms
proof (induction "is" arbitrary: s d)
  case Nil
  then show ?case by (simp add: run_return noted_refl)
next
  case (Cons i "is")
  have i: "i < length (ps_revocations s)" "revoked_file d (rv_grant_id (ps_revocations s ! i))"
    using Cons.prems(3) by simp_all
  show ?case
    unfolding observe_revocations.simps
  proof (rule run_then, rule run_observe_revocation [OF Cons.prems(1,2) i])
    fix s' d'
    assume n: "noted e ids d0 s d s' d'"
    show "run (observe_revocations e is g now s') Q (durably e ids d0) d'"
    proof (rule Cons.IH)
      show "k < length (ps_revocations s') \<and> revoked_file d' (rv_grant_id (ps_revocations s' ! k))" if "k \<in> set is" for k
        using Cons.prems(3) [of k] noted_position [OF n, of k] noted_revoked [OF n] that by simp
      show "Q s'' d''" if "noted e ids d0 s' d' s'' d''" for s'' d'' by (rule Cons.prems(4) [OF noted_trans [OF n that]])
    qed (use n in \<open>simp_all add: noted_def\<close>)
  qed
qed

lemma run_settle_redemption:
  assumes "durably e ids d0 d" "loaded s d" "\<And>s' d'. noted e ids d0 s d s' d' \<Longrightarrow> Q s' d'"
  shows "run (settle_redemption e i now s) Q (durably e ids d0) d"
  unfolding settle_redemption_def
  using assms noted_refl run_observe_redemption list_position_Some
  by (auto split: option.split intro!: run_return intro: run_observe_redemption dest: list_position_Some)

lemma run_settle_revocations:
  assumes "durably e ids d0 d" "loaded s d" "bm_get (vd_connections d) i = Some g"
    "\<And>s' d'. noted e ids d0 s d s' d' \<Longrightarrow> Q s' d'"
  shows "run (settle_revocations e i g now s) Q (durably e ids d0) d"
  unfolding settle_revocations_def
proof (rule run_observe_revocations [OF assms(1,2) _ assms(4)])
  fix k
  assume "k \<in> set (map fst (filter (\<lambda>(_, v). settleable i g v) (enumerate 0 (ps_revocations s))))"
  then have "k < length (ps_revocations s)" "settleable i g (ps_revocations s ! k)" by (auto simp: in_set_enumerate_eq)
  then show "k < length (ps_revocations s) \<and> revoked_file d (rv_grant_id (ps_revocations s ! k))"
    using assms(3) by (auto simp: settleable_def revoked_file_def)
qed

lemma run_intend_revocation:
  assumes "durably e ids d0 d" "loaded s d"
    "\<And>s' d'. durably e ids d0 d' \<Longrightarrow> loaded s' d' \<Longrightarrow> vd_connections d' = vd_connections d \<Longrightarrow>
      \<exists>v. ps_revocations s' = ps_revocations s @ [v] \<and> rv_grant_id v = vq_grant_id q \<Longrightarrow> Q s' d'"
  shows "run (intend_revocation e q g now s) Q (durably e ids d0) d"
proof -
  have "durable e ids (d\<lparr>vd_faults := fs\<rparr>) (d\<lparr>vd_faults := fs, vd_pairing := Some t\<rparr>)"
    if "ps_invitations t = ps_invitations s" "ps_revocations t = ps_revocations s @ [v]" "\<not> rv_publication_observed v" for fs t v
    using durable.withdraw [of t "d\<lparr>vd_faults := fs\<rparr>" v] assms(2) that by (simp add: loaded_def)
  then show ?thesis
    unfolding intend_revocation_def save_intent_def Let_def
    by (intro run_rules run_store assms(1)) (use assms(3) in \<open>auto intro!: run_return simp: loaded_def\<close>)
qed

lemma run_publish_revocation:
  assumes d: "durably e ids d0 d" "loaded s d" "bm_get (vd_connections d) (vq_grant_id q) = Some g" "0 < revision"
      "vq_grant_id q \<in> rv_grant_id ` set (ps_revocations s)"
    and own: "\<And>i. list_position (same_command q) (ps_revocations s) = Some i \<Longrightarrow> rv_grant_id (ps_revocations s ! i) = vq_grant_id q"
    and post: "\<And>d'. durably e ids d0 d' \<Longrightarrow> revoked_file d' (vq_grant_id q) \<Longrightarrow>
      vq_grant_id q \<in> rv_grant_id ` set (ps_revocations (current d')) \<Longrightarrow> Q revision d'"
  shows "run (publish_revocation e q g revision now s) Q (durably e ids d0) d"
proof -
  let ?i = "vq_grant_id q" and ?g = "g\<lparr>cg_revoked := True, cg_revision := revision\<rparr>"
  have step: "durably e ids d0 (d\<lparr>vd_faults := fs, vd_connections := bm_insert ?i ?g (vd_connections d)\<rparr>)" for fs
    using durably_step [OF durably_faults [OF d(1)] durable.revoked [of "d\<lparr>vd_faults := fs\<rparr>" ?i g revision]] d(2-5)
    by (simp add: loaded_def)
  have "run (save_grant e ?i ?g) (\<lambda>_. run (case list_position (same_command q) (ps_revocations s) of
           None \<Rightarrow> act_fail (Failure ''retained revocation'')
         | Some i \<Rightarrow> act_then (observe_revocation e i ?g now s) (\<lambda>_. act_return revision)) Q (durably e ids d0)) (durably e ids d0) d"
  proof (rule run_save_grant)
    show "durably e ids d0 (d\<lparr>vd_faults := fs, vd_leftovers := n\<rparr>)" for fs n
      by (rule durably_step [OF d(1)]) (simp add: durable.other)
  next
    fix fs
    let ?d = "d\<lparr>vd_faults := fs, vd_connections := bm_insert ?i ?g (vd_connections d)\<rparr>"
    have revoked: "revoked_file ?d ?i" by (simp add: revoked_file_def bm_get_insert_same)
    have final: "Q revision d'" if "noted e ids d0 s ?d s' d'" for s' d'
      by (rule post) (use that noted_revoked [OF that] revoked d(5) noted_withdrawn [OF that] in \<open>simp_all add: noted_def\<close>)
    show "run (case list_position (same_command q) (ps_revocations s) of
           None \<Rightarrow> act_fail (Failure ''retained revocation'')
         | Some i \<Rightarrow> act_then (observe_revocation e i ?g now s) (\<lambda>_. act_return revision)) Q (durably e ids d0) ?d"
    proof (cases "list_position (same_command q) (ps_revocations s)")
      case None
      then show ?thesis using step by (simp add: run_fail)
    next
      case (Some i)
      have "loaded s ?d" using d(2) by (simp add: loaded_def current_def)
      then have "run (observe_revocation e i ?g now s) (\<lambda>_. run (act_return revision) Q (durably e ids d0)) (durably e ids d0) ?d"
        by (rule run_observe_revocation [OF step])
          (use list_position_Some [OF Some] own [OF Some] revoked final in \<open>auto intro!: run_return\<close>)
      then show ?thesis by (simp add: Some run_then_iff)
    qed
  qed (rule d(1) step durably_faults [OF d(1)])+
  then show ?thesis
    unfolding publish_revocation_def Let_def by (intro run_then run_ensure d(1))
qed

lemma list_position_None: "list_position P xs = None \<longleftrightarrow> (\<forall>x \<in> set xs. \<not> P x)"
  by (induction xs) auto

lemma list_position_snoc: "list_position P xs = None \<Longrightarrow> list_position P (xs @ [x]) = Some i \<Longrightarrow> i = length xs"
  by (induction xs arbitrary: i) (auto split: if_splits)

lemma find_position: "find P xs = Some x \<Longrightarrow> x \<in> set xs \<and> P x"
  by (auto simp: find_Some_iff in_set_conv_nth)

text \<open>The outcome of a revocation: the file of the grant says it is revoked, and the revocation is on record.\<close>

definition revoked_at :: "uuid \<Rightarrow> vessel_disk \<Rightarrow> bool" where
  "revoked_at i d \<longleftrightarrow> revoked_file d i \<and> i \<in> rv_grant_id ` set (ps_revocations (current d))"

lemma run_revoke_pending:
  assumes d: "durably e ids d0 d" "loaded s d"
    and post: "\<And>n d'. durably e ids d0 d' \<Longrightarrow> revoked_at (vq_grant_id q) d' \<Longrightarrow> Q n d'"
  shows "run (act_then (load_grant e (vq_grant_id q)) (\<lambda>g.
         act_then (settle_revocations e (vq_grant_id q) g now s) (\<lambda>s.
         act_then (next_revision (vq_expected_revision q)) (\<lambda>revision.
           case list_position (same_command q) (ps_revocations s) of
             Some i \<Rightarrow>
               act_then (act_ensure (same_revocation q (ps_revocations s ! i)) (Failure ''revocation command conflict'')) (\<lambda>_.
                 if cg_revoked g \<and> cg_revision g = revision
                 then act_then (observe_revocation e i g now s) (\<lambda>_. act_return revision)
                 else act_then (act_ensure (\<not> rv_publication_observed (ps_revocations s ! i))
                     (Failure ''observed revocation changed; original outcome retained'')) (\<lambda>_.
                   publish_revocation e q g revision now s))
           | None \<Rightarrow>
               act_then (intend_revocation e q g now s) (publish_revocation e q g revision now))))) Q (durably e ids d0) d"
proof (intro run_then run_load_grant d(1))
  fix g
  assume g: "bm_get (vd_connections d) (vq_grant_id q) = Some g"
  show "run (settle_revocations e (vq_grant_id q) g now s) (\<lambda>s. run (act_then (next_revision (vq_expected_revision q)) (\<lambda>revision.
           case list_position (same_command q) (ps_revocations s) of
             None \<Rightarrow>
               act_then (intend_revocation e q g now s) (publish_revocation e q g revision now)
           | Some i \<Rightarrow>
               act_then (act_ensure (same_revocation q (ps_revocations s ! i)) (Failure ''revocation command conflict'')) (\<lambda>_.
                 if cg_revoked g \<and> cg_revision g = revision
                 then act_then (observe_revocation e i g now s) (\<lambda>_. act_return revision)
                 else act_then (act_ensure (\<not> rv_publication_observed (ps_revocations s ! i))
                     (Failure ''observed revocation changed; original outcome retained'')) (\<lambda>_.
                   publish_revocation e q g revision now s)))) Q (durably e ids d0)) (durably e ids d0) d"
  proof (rule run_settle_revocations [OF d g])
    fix t d'
    assume n: "noted e ids d0 s d t d'"
    then have t: "durably e ids d0 d'" "loaded t d'" "bm_get (vd_connections d') (vq_grant_id q) = Some g"
      using g by (simp_all add: noted_def)
    show "run (act_then (next_revision (vq_expected_revision q)) (\<lambda>revision.
           case list_position (same_command q) (ps_revocations t) of
             None \<Rightarrow>
               act_then (intend_revocation e q g now t) (publish_revocation e q g revision now)
           | Some i \<Rightarrow>
               act_then (act_ensure (same_revocation q (ps_revocations t ! i)) (Failure ''revocation command conflict'')) (\<lambda>_.
                 if cg_revoked g \<and> cg_revision g = revision
                 then act_then (observe_revocation e i g now t) (\<lambda>_. act_return revision)
                 else act_then (act_ensure (\<not> rv_publication_observed (ps_revocations t ! i))
                     (Failure ''observed revocation changed; original outcome retained'')) (\<lambda>_.
                   publish_revocation e q g revision now t)))) Q (durably e ids d0) d'"
    proof (cases "list_position (same_command q) (ps_revocations t)")
      case None
      show ?thesis
        unfolding None option.case next_revision_def
      proof (intro run_then run_lift t(1) run_intend_revocation t(1,2))
        fix revision t' d''
        assume rev: "ok_or ''revision overflow'' (checked_add_u64 (vq_expected_revision q) 1) = Inr revision"
          and t': "durably e ids d0 d''" "loaded t' d''" "vd_connections d'' = vd_connections d'"
          and v: "\<exists>v. ps_revocations t' = ps_revocations t @ [v] \<and> rv_grant_id v = vq_grant_id q"
        from v obtain v where v: "ps_revocations t' = ps_revocations t @ [v]" "rv_grant_id v = vq_grant_id q" by blast
        have own: "rv_grant_id (ps_revocations t' ! i) = vq_grant_id q"
          if "list_position (same_command q) (ps_revocations t') = Some i" for i
          using list_position_snoc [OF None, of v i] that v by simp
        show "run (publish_revocation e q g revision now t') Q (durably e ids d0) d''"
          by (rule run_publish_revocation [OF t'(1,2)])
            (use t(3) t'(3) rev v(1,2) post own in \<open>auto simp: revoked_at_def\<close>)
      qed
    next
      case (Some i)
      note i = list_position_Some [OF Some]
      show ?thesis
        unfolding Some option.case next_revision_def
      proof (intro run_then run_lift t(1) run_ensure run_if)
        fix revision
        assume same: "same_revocation q (ps_revocations t ! i)" and g': "cg_revoked g \<and> cg_revision g = revision"
        have withdrawn: "revoked_file d' (vq_grant_id q)" using t(3) g' by (simp add: revoked_file_def)
        have recorded: "vq_grant_id q \<in> rv_grant_id ` set (ps_revocations t)"
          using i same by (auto simp: same_revocation_def intro!: image_eqI [of _ _ "ps_revocations t ! i"])
        show "run (observe_revocation e i g now t) (\<lambda>_. run (act_return revision) Q (durably e ids d0)) (durably e ids d0) d'"
        proof (rule run_observe_revocation [OF t(1,2)])
          fix t' d'' assume n': "noted e ids d0 t d' t' d''"
          have "revoked_at (vq_grant_id q) d''"
            using noted_revoked [OF n'] noted_withdrawn [OF n'] withdrawn recorded by (simp add: revoked_at_def)
          then show "run (act_return revision) Q (durably e ids d0) d''" using n' post by (auto simp: noted_def intro!: run_return)
        qed (use i same withdrawn in \<open>auto simp: same_revocation_def\<close>)
      next
        fix revision
        assume rev: "ok_or ''revision overflow'' (checked_add_u64 (vq_expected_revision q) 1) = Inr revision"
          and same: "same_revocation q (ps_revocations t ! i)"
        have recorded: "vq_grant_id q \<in> rv_grant_id ` set (ps_revocations t)"
          using i same by (auto simp: same_revocation_def intro!: image_eqI [of _ _ "ps_revocations t ! i"])
        show "run (publish_revocation e q g revision now t) Q (durably e ids d0) d'"
          by (rule run_publish_revocation [OF t])
            (use rev same recorded Some post in \<open>auto simp: same_revocation_def revoked_at_def\<close>)
      qed
    qed
  qed
qed

lemma run_revoke:
  assumes "observed_ok d"
  shows "run (revoke e generation now q) (\<lambda>_ d'. durably e ids d d' \<and> revoked_at (vq_grant_id q) d') (durably e ids d) d"
  unfolding revoke_def
proof (intro run_then run_ensure run_load_pairing run_start_audit run_if rtranclp.rtrancl_refl)
  fix a
  let ?s = "(current d)\<lparr>ps_audit := a\<rparr>"
  assume same: "is_none_or (find (same_command q) (ps_revocations ?s)) (same_revocation q)"
    and done': "is_some_and (find (same_command q) (ps_revocations ?s)) rv_publication_observed"
  then obtain v where v: "v \<in> set (ps_revocations (current d))" "rv_grant_id v = vq_grant_id q" "rv_publication_observed v"
    by (cases "find (same_command q) (ps_revocations ?s)") (auto simp: same_revocation_def dest: find_position)
  then have "revoked_at (vq_grant_id q) d" using assms by (force simp: observed_ok_def revoked_at_def)
  then show "run (next_revision (vq_expected_revision q)) (\<lambda>_ d'. durably e ids d d' \<and> revoked_at (vq_grant_id q) d') (durably e ids d) d"
    unfolding next_revision_def by (intro run_lift) auto
next
  fix a
  let ?s = "(current d)\<lparr>ps_audit := a\<rparr>"
  show "run (settle_redemption e (vq_grant_id q) now ?s) (\<lambda>s. run (act_then (load_grant e (vq_grant_id q)) (\<lambda>g.
         act_then (settle_revocations e (vq_grant_id q) g now s) (\<lambda>s.
         act_then (next_revision (vq_expected_revision q)) (\<lambda>revision.
           case list_position (same_command q) (ps_revocations s) of
             None \<Rightarrow>
               act_then (intend_revocation e q g now s) (publish_revocation e q g revision now)
           | Some i \<Rightarrow>
               act_then (act_ensure (same_revocation q (ps_revocations s ! i)) (Failure ''revocation command conflict'')) (\<lambda>_.
                 if cg_revoked g \<and> cg_revision g = revision
                 then act_then (observe_revocation e i g now s) (\<lambda>_. act_return revision)
                 else act_then (act_ensure (\<not> rv_publication_observed (ps_revocations s ! i))
                     (Failure ''observed revocation changed; original outcome retained'')) (\<lambda>_.
                   publish_revocation e q g revision now s))))))
       (\<lambda>_ d'. durably e ids d d' \<and> revoked_at (vq_grant_id q) d') (durably e ids d)) (durably e ids d) d"
    by (rule run_settle_redemption) (auto simp: noted_def intro!: run_revoke_pending)
qed

end
