(* ===== verification/Pairing_Safety.thy ===== *)
theory Pairing_Safety
  imports Pairing_Writes
begin

text \<open>
  The contract of pairing over any sequence of its operations, with writes that fail and restarts between them:
  the invariant \<open>pairing_ok\<close>, and what it gives for credentials, lockout and revocation.
\<close>

section \<open>Operations\<close>

text \<open>
  One operation, or a restart. Identifiers of invitations are random and differ from the ones in use and from
  \<open>ids\<close>; secrets are 64 hexadecimal digits. A migration that completes brings the identity, the connections
  and the exported state of another Vessel, in this order; one that fails before is begun again with an empty
  directory, and its remains are not operated on.
\<close>

inductive pairing_step :: "pairing_env \<Rightarrow> uuid set \<Rightarrow> vessel_disk \<Rightarrow> vessel_disk \<Rightarrow> bool" for e ids where
  invites: "pairing_step e ids d (snd (invite_with_access e generation new_id code now q False d))"
    if "new_id \<notin> ids" "new_id \<notin> pi_invitation_id ` set (ps_invitations (current d))"
| invites_owner: "pairing_step e ids d (snd (invite_owner e generation new_id code now endpoint principal_id ttl d))"
    if "new_id \<notin> ids" "new_id \<notin> pi_invitation_id ` set (ps_invitations (current d))"
| redeems: "pairing_step e ids d (snd (redeem e generation grant_id token now origin expected q d))"
    if "str_len token = 64" "\<not> is_nil grant_id"
| revokes: "pairing_step e ids d (snd (revoke e generation now q d))"
| exports: "pairing_step e ids d (snd (migration_export e d))"
| migrates: "pairing_step e ids d d'"
    if "fresh_vessel d" "pairing_ok e source" "migration_export e source = (Inr s, source)"
      "migration_import e root s (d\<lparr>vd_identity := vd_identity source, vd_connections := vd_connections source\<rparr>) = (Inr (), d')"
| restarts: "pairing_step e ids d (d\<lparr>vd_faults := fs, vd_leftovers := n\<rparr>)"

abbreviation pairing_steps :: "pairing_env \<Rightarrow> uuid set \<Rightarrow> vessel_disk \<Rightarrow> vessel_disk \<Rightarrow> bool" where
  "pairing_steps e ids \<equiv> (pairing_step e ids)\<^sup>*\<^sup>*"

section \<open>The invariant\<close>

lemma carries_parts:
  assumes "carries e p r"
  shows "\<not> cg_revoked (rd_grant r)" "cg_grant_id (rd_grant r) = cd_grant_id (rd_credential r)" "\<not> is_nil (cg_grant_id (rd_grant r))"
    "str_len (cd_token (rd_credential r)) = 64" "cg_token_hash (rd_grant r) = pe_hash e (cd_token (rd_credential r))"
    "cg_schema_version (rd_grant r) = 1" "cg_revision (rd_grant r) = 1"
    "cg_full_access (rd_grant r) = pi_full_access p" "cg_principal_id (rd_grant r) = pi_principal_id p"
    "cg_vessel_id (rd_grant r) = pi_vessel_id p" "cg_rights (rd_grant r) = pi_rights p"
    "cg_workspaces (rd_grant r) = pi_workspaces p" "cg_accounts (rd_grant r) = pi_accounts p"
    "cg_enrollment_connections (rd_grant r) = pi_enrollment_connections p"
  using assms by (auto simp: carries_def redemption_of_def)

lemma carries_update:
  "carries e (p\<lparr>pi_attempts := n, pi_redemption := m\<rparr>) r = carries e p r" "carries e (p\<lparr>pi_redemption := m\<rparr>) r = carries e p r"
  "carries e (p\<lparr>pi_attempts := n\<rparr>) r = carries e p r"
  by (simp_all add: carries_def redemption_of_def)

lemma offer_update [simp]:
  "offer_ok (p\<lparr>pi_attempts := n, pi_redemption := m\<rparr>) = offer_ok p" "offer_ok (p\<lparr>pi_redemption := m\<rparr>) = offer_ok p"
  "offer_ok (p\<lparr>pi_attempts := n\<rparr>) = offer_ok p"
  by (simp_all add: offer_ok_def)

lemma pending_invitation_id_update [simp]:
  "pi_invitation_id (p\<lparr>pi_attempts := n, pi_redemption := m\<rparr>) = pi_invitation_id p"
  by simp

lemma carries_observed: "carries e p r \<Longrightarrow> carries e p (r\<lparr>rd_publication_observed := True\<rparr>)"
proof -
  assume "carries e p r"
  then obtain grant_id token expires command observed where r: "str_len token = 64" "\<not> is_nil grant_id"
      "r = (redemption_of e grant_id token expires command p)\<lparr>rd_publication_observed := observed\<rparr>"
    unfolding carries_def by blast
  then have "r\<lparr>rd_publication_observed := True\<rparr> =
      (redemption_of e grant_id token expires command p)\<lparr>rd_publication_observed := True\<rparr>" by simp
  with r(1,2) show ?thesis unfolding carries_def by blast
qed

lemma same_invitation_id: "same_invitation p q \<Longrightarrow> pi_invitation_id q = pi_invitation_id p"
  unfolding same_invitation_def by (metis pending_invitation.select_convs(2) pending_invitation.surjective pending_invitation.update_convs(8,13))

lemma same_invitation_ok:
  assumes "same_invitation p q" "invitation_ok e p"
  shows "invitation_ok e q"
proof -
  have q: "q = p\<lparr>pi_attempts := pi_attempts q, pi_redemption := pi_redemption q\<rparr>" and r: "same_redemption (pi_redemption p) (pi_redemption q)"
    using assms(1) by (simp_all add: same_invitation_def)
  have "carries e p r'" if "pi_redemption q = Some r'" for r'
    using r that assms(2) carries_observed by (auto simp: same_redemption_def invitation_ok_def split: option.splits)
  moreover have "offer_ok q" using assms(2) by (subst q) (simp add: invitation_ok_def)
  moreover have "carries e q r' = carries e p r'" for r' by (subst q) (simp add: carries_update)
  ultimately show ?thesis by (simp add: invitation_ok_def)
qed

lemma map_id_list_all2: "list_all2 same_invitation xs ys \<Longrightarrow> map pi_invitation_id ys = map pi_invitation_id xs"
  by (induction rule: list_all2_induct) (simp_all add: same_invitation_id)

lemma set_list_all2: "list_all2 R xs ys \<Longrightarrow> y \<in> set ys \<Longrightarrow> \<exists>x \<in> set xs. R x y"
  by (induction rule: list_all2_induct) auto

lemma redemption_of_carries:
  "str_len token = 64 \<Longrightarrow> \<not> is_nil grant_id \<Longrightarrow> carries e p (redemption_of e grant_id token expires command p)"
proof -
  assume "str_len token = 64" "\<not> is_nil grant_id"
  moreover have "redemption_of e grant_id token expires command p =
      (redemption_of e grant_id token expires command p)\<lparr>rd_publication_observed := False\<rparr>"
    by (simp add: redemption_of_def)
  ultimately show ?thesis unfolding carries_def by blast
qed

text \<open>Books: what the file says of invitations and revocations, and what it means for the grants.\<close>

definition invitations_ok :: "pairing_env \<Rightarrow> pairing \<Rightarrow> bool" where
  "invitations_ok e s \<longleftrightarrow> distinct (map pi_invitation_id (ps_invitations s)) \<and> (\<forall>p \<in> set (ps_invitations s). invitation_ok e p)"

lemma pairing_ok_iff: "pairing_ok e d \<longleftrightarrow> invitations_ok e (current d) \<and> grants_ok d \<and> observed_ok d"
  by (auto simp: pairing_ok_def invitations_ok_def)

lemma agrees_invitations_ok: "agrees R s t \<Longrightarrow> invitations_ok e s \<Longrightarrow> invitations_ok e t"
  unfolding agrees_def invitations_ok_def
  using map_id_list_all2 set_list_all2 same_invitation_ok by (metis (no_types, lifting))

lemma offer_invitations_ok:
  assumes "invitations_ok e s" "ps_invitations t = filter P (ps_invitations s) @ [p]" "pi_redemption p = None" "offer_ok p"
    "pi_invitation_id p \<notin> pi_invitation_id ` set (ps_invitations s)"
  shows "invitations_ok e t"
  using assms by (auto simp: invitations_ok_def invitation_ok_def distinct_map_filter)

lemma intend_invitations_ok:
  assumes "invitations_ok e s" "i < length (ps_invitations s)" "p = ps_invitations s ! i" "carries e p r"
    "ps_invitations t = (ps_invitations s)[i := p\<lparr>pi_redemption := Some r\<rparr>]"
  shows "invitations_ok e t"
proof -
  have "map pi_invitation_id (ps_invitations t) = map pi_invitation_id (ps_invitations s)"
    unfolding assms(3,5) map_update by (rule nth_equalityI) (use assms(2) in \<open>simp_all add: nth_list_update\<close>)
  moreover have "invitation_ok e (p\<lparr>pi_redemption := Some r\<rparr>)"
    using assms(1-4) by (simp add: invitations_ok_def invitation_ok_def carries_update)
  ultimately show ?thesis
    using assms(1,5) set_update_subset_insert [of "ps_invitations s" i] by (auto simp: invitations_ok_def)
qed

lemma grant_ok_mono: "grant_ok rs i g \<Longrightarrow> rv_grant_id ` set rs \<subseteq> rv_grant_id ` set ts \<Longrightarrow> grant_ok ts i g"
  unfolding grant_ok_def by blast

lemma grants_ok_book:
  assumes "grants_ok d" "rv_grant_id ` set (ps_revocations (current d)) \<subseteq> rv_grant_id ` set (ps_revocations s)"
  shows "grants_ok (d\<lparr>vd_pairing := Some s\<rparr>)"
proof -
  have "grant_ok (ps_revocations s) i g" if "bm_get (vd_connections d) i = Some g" for i g
    using assms(1) that grant_ok_mono [OF _ assms(2)] unfolding grants_ok_def by blast
  moreover have "bm_sorted (vd_connections d)" using assms(1) unfolding grants_ok_def by (rule conjunct1)
  ultimately show ?thesis by (simp add: grants_ok_def)
qed

lemma observed_ok_agrees:
  assumes "observed_ok d" "agrees (revoked_file d) (current d) s"
  shows "observed_ok (d\<lparr>vd_pairing := Some s\<rparr>)"
proof -
  have "revoked_file d (rv_grant_id w)" if w: "w \<in> set (ps_revocations s)" "rv_publication_observed w" for w
  proof -
    have "list_all2 (same_withdrawal (revoked_file d)) (ps_revocations (current d)) (ps_revocations s)"
      using assms(2) by (simp add: agrees_def)
    from set_list_all2 [OF this w(1)] obtain v where
      "v \<in> set (ps_revocations (current d))" "same_withdrawal (revoked_file d) v w" by blast
    then show ?thesis using w(2) assms(1) by (auto simp: observed_ok_def same_withdrawal_def)
  qed
  then show ?thesis by (simp add: observed_ok_def)
qed

lemma durable_ok:
  assumes "durable e ids d d'" "pairing_ok e d"
  shows "pairing_ok e d'"
  using assms
proof cases
  case other
  then have "current d' = current d" by (simp add: current_def)
  with other assms(2) show ?thesis by (simp add: pairing_ok_iff grants_ok_def observed_ok_def revoked_file_def)
next
  case (book s)
  then show ?thesis
    using assms(2) agrees_invitations_ok grants_ok_book observed_ok_agrees agrees_withdrawn [OF book(2)]
    by (simp add: pairing_ok_iff)
next
  case (offer s P p)
  then show ?thesis
    using assms(2) offer_invitations_ok [of e "current d" s P p] grants_ok_book [of d s]
    by (simp add: pairing_ok_iff observed_ok_def)
next
  case (intend i p r grant_id token expires command s)
  then show ?thesis
    using assms(2) intend_invitations_ok [of e "current d" i p r s] grants_ok_book [of d s] redemption_of_carries
    by (simp add: pairing_ok_iff observed_ok_def)
next
  case (publish p r)
  have r: "carries e p r" using publish assms(2) by (simp add: pairing_ok_iff invitations_ok_def invitation_ok_def)
  then show ?thesis
    using publish assms(2) carries_parts(1) [OF r]
    by (auto simp: pairing_ok_iff grants_ok_def grant_ok_def observed_ok_def revoked_file_def)
next
  case (withdraw s v)
  then show ?thesis
    using assms(2) grants_ok_book [of d s] by (auto simp: pairing_ok_iff invitations_ok_def observed_ok_def)
next
  case (revoked i g n)
  then show ?thesis
    using assms(2) by (auto simp: pairing_ok_iff grants_ok_def grant_ok_def observed_ok_def revoked_file_def)
qed

lemma durable_withdrawn:
  "durable e ids d d' \<Longrightarrow> rv_grant_id ` set (ps_revocations (current d)) \<subseteq> rv_grant_id ` set (ps_revocations (current d'))"
proof (induction rule: durable.induct)
  case (other d' d)
  then show ?case by (simp add: current_def)
next
  case (book d s)
  then show ?case using agrees_withdrawn by fastforce
next
  case (migrated d d')
  then show ?case by (simp add: fresh_vessel_def current_def empty_pairing_def)
qed auto

lemma durable_revoked:
  assumes "durable e ids d d'" "grants_ok d" "revoked_file d i"
  shows "revoked_file d' i"
  using assms(1)
proof cases
  case (publish p r)
  then show ?thesis using assms(2,3) by (auto simp: revoked_file_def grants_ok_def)
next
  case (revoked j g n)
  then show ?thesis using assms(2,3) by (auto simp: revoked_file_def grants_ok_def)
next
  case migrated
  then show ?thesis using assms(3) by (simp add: fresh_vessel_def revoked_file_def)
qed (use assms(3) in \<open>simp_all add: revoked_file_def\<close>)

text \<open>A revoked grant stays revoked.\<close>

lemma durable_revoked_at: "durable e ids d d' \<Longrightarrow> pairing_ok e d \<Longrightarrow> revoked_at i d \<Longrightarrow> revoked_at i d'"
  using durable_revoked durable_withdrawn unfolding revoked_at_def pairing_ok_iff by blast

text \<open>All invitations with an identifier have a property that its changes keep.\<close>

definition invitations_with :: "uuid \<Rightarrow> (pending_invitation \<Rightarrow> bool) \<Rightarrow> vessel_disk \<Rightarrow> bool" where
  "invitations_with i P d \<longleftrightarrow> vd_pairing d \<noteq> None \<and> (\<forall>p \<in> set (ps_invitations (current d)). pi_invitation_id p = i \<longrightarrow> P p)"

lemma durable_invitations_with:
  assumes "durable e ids d d'" "i \<in> ids" "invitations_with i P d"
    and keep: "\<And>p q. P p \<Longrightarrow> same_invitation p q \<Longrightarrow> P q"
    and taken: "\<And>p r. P p \<Longrightarrow> pi_redemption p = None \<Longrightarrow> pi_attempts p < 8 \<Longrightarrow> P (p\<lparr>pi_redemption := Some r\<rparr>)"
  shows "invitations_with i P d'"
  using assms(1)
proof cases
  case other
  then have "current d' = current d" by (simp add: current_def)
  with other assms(3) show ?thesis by (simp add: invitations_with_def)
next
  case (book s)
  then have all: "list_all2 same_invitation (ps_invitations (current d)) (ps_invitations s)" by (simp add: agrees_def)
  have "P q" if "q \<in> set (ps_invitations s)" "pi_invitation_id q = i" for q
    using set_list_all2 [OF all that(1)] that(2) assms(3) keep same_invitation_id by (auto simp: invitations_with_def)
  with book show ?thesis by (simp add: invitations_with_def)
next
  case (offer s Q p)
  then show ?thesis using assms(2,3) by (auto simp: invitations_with_def)
next
  case (intend k p r grant_id token expires command s)
  have "P q" if q: "q \<in> set (ps_invitations s)" "pi_invitation_id q = i" for q
  proof -
    consider "q \<in> set (ps_invitations (current d))" | "q = p\<lparr>pi_redemption := Some r\<rparr>"
      using q(1) intend(9) set_update_subset_insert by fastforce
    then show ?thesis
    proof cases
      case 1
      with q(2) assms(3) show ?thesis by (simp add: invitations_with_def)
    next
      case 2
      moreover have "P p" using 2 q(2) intend(2,3) assms(3) by (auto simp: invitations_with_def)
      ultimately show ?thesis using taken intend(4,5) by simp
    qed
  qed
  with intend(1) show ?thesis by (simp add: invitations_with_def)
next
  case migrated
  then show ?thesis using assms(3) by (simp add: invitations_with_def fresh_vessel_def)
qed (use assms(3) in \<open>simp_all add: invitations_with_def\<close>)

lemma invitations_withI:
  assumes "pairing_ok e d" "p \<in> set (ps_invitations (current d))" "pi_invitation_id p = i" "P p"
  shows "invitations_with i P d"
proof -
  have "inj_on pi_invitation_id (set (ps_invitations (current d)))" using assms(1) by (simp add: pairing_ok_def distinct_map)
  moreover have "vd_pairing d \<noteq> None" using assms(2) by (auto simp: current_def empty_pairing_def split: option.splits)
  ultimately show ?thesis using assms(2-4) unfolding invitations_with_def by (metis inj_onD)
qed

text \<open>An invitation was redeemed for a credential; or too many codes were tried before it was.\<close>

definition redeemed_for :: "workspace_credential \<Rightarrow> pending_invitation \<Rightarrow> bool" where
  "redeemed_for c p \<longleftrightarrow> (\<exists>r. pi_redemption p = Some r \<and> rd_credential r = c)"


lemma redeemed_for_same: "redeemed_for c p \<Longrightarrow> same_invitation p q \<Longrightarrow> redeemed_for c q"
  using same_redemption_parts by (fastforce simp: redeemed_for_def same_invitation_def)


lemmas durable_redeemed = durable_invitations_with [OF _ _ _ redeemed_for_same]

section \<open>Sequences of operations\<close>

text \<open>A migration that completes.\<close>

lemma expire_unredeemed_ok: "invitations_ok e s \<Longrightarrow> invitations_ok e (expire_unredeemed s)"
  by (auto simp: invitations_ok_def invitation_ok_def expire_unredeemed_def offer_ok_def comp_def if_distrib cong: if_cong)

lemma expire_unredeemed_again [simp]: "expire_unredeemed (expire_unredeemed s) = expire_unredeemed s"
  by (simp add: expire_unredeemed_def)

lemma expire_unredeemed_revocations [simp]: "ps_revocations (expire_unredeemed s) = ps_revocations s"
  by (simp add: expire_unredeemed_def)

lemma migrated_ok:
  assumes "fresh_vessel d" "pairing_ok e source" "migration_export e source = (Inr s, source)"
    "migration_import e root s (d\<lparr>vd_identity := vd_identity source, vd_connections := vd_connections source\<rparr>) = (Inr (), d')"
  shows "pairing_ok e d' \<and> vd_pairing d' \<noteq> None"
proof -
  have "run (migration_export e) (\<lambda>t _. t = expire_unredeemed (current source)) (\<lambda>_. True) source"
    unfolding migration_export_def by (intro run_rules) simp_all
  then have s: "s = expire_unredeemed (current source)" using assms(3) by (simp add: run_def)
  let ?d = "d\<lparr>vd_identity := vd_identity source, vd_connections := vd_connections source\<rparr>"
  have "vd_pairing d' = Some s \<and> vd_connections d' = vd_connections source"
    using assms(4) s
    by (auto simp: migration_import_def act_then_def act_ensure_def act_return_def act_fail_def act_lift_def save_pairing_def
        write_file_def Let_def split: if_splits option.splits sum.splits list.splits save_result.splits)
  then have d': "current d' = s" "vd_connections d' = vd_connections source" "vd_pairing d' \<noteq> None" by (simp_all add: current_def)
  have "invitations_ok e s" using assms(2) s by (simp add: pairing_ok_iff expire_unredeemed_ok)
  then show ?thesis
    using assms(2) d' s by (simp add: pairing_ok_iff grants_ok_def observed_ok_def revoked_file_def)
qed

lemma pairing_step_durably:
  assumes "pairing_ok e d" "pairing_step e ids d d'"
  shows "durably e ids d d'"
  using assms(2)
proof cases
  case (invites new_id generation code now q)
  then show ?thesis using run_after [OF run_invite [of new_id ids d False]] by simp
next
  case (invites_owner new_id generation code now endpoint principal_id ttl)
  then show ?thesis unfolding invite_owner_def using run_after [OF run_invite [of new_id ids d True]] by simp
next
  case (redeems token grant_id generation now origin expected q)
  have "run (redeem e generation grant_id token now origin expected q) (\<lambda>_. durably e ids d) (durably e ids d) d"
    by (rule run_mono [OF run_redeem [OF redeems(2,3)]]) simp_all
  then show ?thesis using redeems(1) run_after by blast
next
  case (revokes generation now q)
  have "observed_ok d" using assms(1) by (simp add: pairing_ok_iff)
  then have "run (revoke e generation now q) (\<lambda>_. durably e ids d) (durably e ids d) d"
    by (rule run_mono [OF run_revoke]) simp_all
  then show ?thesis using revokes(1) run_after by blast
next
  case exports
  have "run (migration_export e) (\<lambda>_. durably e ids d) (durably e ids d) d"
    unfolding migration_export_def by (intro run_rules rtranclp.rtrancl_refl)
  then show ?thesis using exports run_after by blast
next
  case (migrates source s root)
  then show ?thesis using migrated_ok [OF migrates] durable.migrated by blast
next
  case (restarts fs n)
  then show ?thesis by (simp add: durable.other r_into_rtranclp)
qed

lemma durably_ok: "durably e ids d d' \<Longrightarrow> pairing_ok e d \<Longrightarrow> pairing_ok e d'"
  by (induction rule: rtranclp_induct) (auto intro: durable_ok)

interpretation pairing: simulation "pairing_step e ids" "pairing_ok e" id "durably e ids" for e ids
  by unfold_locales (auto intro: durably_ok pairing_step_durably)

lemma durably_keeps:
  assumes "durably e ids d d'" "pairing_ok e d" "P d" "\<And>a b. durable e ids a b \<Longrightarrow> pairing_ok e a \<Longrightarrow> P a \<Longrightarrow> P b"
  shows "pairing_ok e d' \<and> P d'"
  using assms(1) by (induction rule: rtranclp_induct) (auto intro: durable_ok assms(2-4))

lemma steps_durably: "pairing_steps e ids d d' \<Longrightarrow> pairing_ok e d \<Longrightarrow> durably e ids d d'"
  using pairing.run_simulates [of e ids d d'] by (simp add: rtranclp_idemp)

lemma durably_revoked_at:
  assumes "durably e ids d d'" "pairing_ok e d" "revoked_at i d"
  shows "pairing_ok e d' \<and> revoked_at i d'"
  by (rule durably_keeps [OF assms(1,2), where P = "revoked_at i", OF assms(3)]) (rule durable_revoked_at)

lemma durably_redeemed:
  assumes "durably e ids d d'" "pairing_ok e d" "i \<in> ids" "invitations_with i (redeemed_for c) d"
  shows "pairing_ok e d' \<and> invitations_with i (redeemed_for c) d'"
  by (rule durably_keeps [OF assms(1,2), where P = "invitations_with i (redeemed_for c)", OF assms(4)])
    (erule durable_redeemed, rule assms(3), assumption, auto simp: redeemed_for_def)





lemma fresh_vessel_ok: "fresh_vessel d \<Longrightarrow> pairing_ok e d"
  by (simp add: fresh_vessel_def pairing_ok_def current_def empty_pairing_def grants_ok_def observed_ok_def)

lemma steps_ok: "pairing_ok e d \<Longrightarrow> pairing_steps e ids d d' \<Longrightarrow> pairing_ok e d'"
  using pairing.run_wf by blast

text \<open>What a redemption leaves on the disk of a Vessel in order.\<close>

lemma redeem_durably:
  assumes "redeem e generation grant_id token now origin expected q d = (Inr c, d')" "str_len token = 64" "\<not> is_nil grant_id"
  shows "durably e ids d d'"
  using run_success [OF run_redeem [OF assms(2,3)] assms(1)] by blast

lemma redeem_success:
  assumes "redeem e generation grant_id token now origin expected q d = (Inr c, d')" "str_len token = 64" "\<not> is_nil grant_id"
    "pairing_ok e d"
  shows "vd_identity d' = vd_identity d" "pairing_ok e d'" "redeemed e now q c d d'"
proof -
  note post = run_success [OF run_redeem [OF assms(2,3)] assms(1)]
  then show "vd_identity d' = vd_identity d" "redeemed e now q c d d'" by blast+
  show "pairing_ok e d'" by (rule durably_ok [OF redeem_durably [OF assms(1-3)] assms(4)])
qed

lemma redeemed_here:
  assumes "redeemed e now q c d d'" "pairing_ok e d'"
  obtains p r where "p \<in> set (ps_invitations (current d'))" "pi_invitation_id p = pq_invitation_id q" "pi_redemption p = Some r"
    "rd_credential r = c" "carries e p r" "offer_ok p" "cg_grant_id (rd_grant r) \<notin> rv_grant_id ` set (ps_revocations (current d'))"
    "bm_get (vd_connections d') (cg_grant_id (rd_grant r)) = Some (rd_grant r)" "pe_grant_size e (rd_grant r) \<le> 16384"
    "now < cg_expires_at_ms (rd_grant r)" "\<exists>p0. p0 \<in> set (ps_invitations (current d)) \<and>
      p = p0\<lparr>pi_attempts := pi_attempts p, pi_redemption := pi_redemption p\<rparr> \<and> pi_code_hash p0 = pe_hash e (pq_code q) \<and>
      pi_principal_id p0 = pq_principal_id q \<and> vd_identity d = Some (pi_vessel_id p0) \<and> \<not> is_nil (pi_vessel_id p0)"
proof -
  obtain p0 n m where p0: "p0 \<in> set (ps_invitations (current d))" "pi_invitation_id p0 = pq_invitation_id q"
      "pi_code_hash p0 = pe_hash e (pq_code q)" "pi_principal_id p0 = pq_principal_id q" "vd_identity d = Some (pi_vessel_id p0)"
      "\<not> is_nil (pi_vessel_id p0)" and g: "granted e now q (p0\<lparr>pi_attempts := n, pi_redemption := m\<rparr>) c d'"
    using assms(1) unfolding redeemed_def by blast
  let ?p = "p0\<lparr>pi_attempts := n, pi_redemption := m\<rparr>"
  obtain r where r: "?p \<in> set (ps_invitations (current d'))" "pi_redemption ?p = Some r" "rd_credential r = c"
      "now < cg_expires_at_ms (rd_grant r)" "cg_grant_id (rd_grant r) \<notin> rv_grant_id ` set (ps_revocations (current d'))"
      "bm_get (vd_connections d') (cg_grant_id (rd_grant r)) = Some (rd_grant r)" "pe_grant_size e (rd_grant r) \<le> 16384"
    using g unfolding granted_def by blast
  have "invitation_ok e ?p" using assms(2) r(1) by (simp add: pairing_ok_def)
  then have "carries e ?p r" "offer_ok ?p" using r(2) by (simp_all add: invitation_ok_def)
  moreover have "\<exists>p1. p1 \<in> set (ps_invitations (current d)) \<and>
      ?p = p1\<lparr>pi_attempts := pi_attempts ?p, pi_redemption := pi_redemption ?p\<rparr> \<and> pi_code_hash p1 = pe_hash e (pq_code q) \<and>
      pi_principal_id p1 = pq_principal_id q \<and> vd_identity d = Some (pi_vessel_id p1) \<and> \<not> is_nil (pi_vessel_id p1)"
    by (rule exI [of _ p0]) (use p0 in simp)
  ultimately show thesis using that [of ?p r] r p0(2) by simp
qed

lemma authenticate_published:
  assumes "carries e p r" "offer_ok p" "bm_get (vd_connections d) (cg_grant_id (rd_grant r)) = Some (rd_grant r)"
    "pe_grant_size e (rd_grant r) \<le> 16384" "now < cg_expires_at_ms (rd_grant r)" "vd_identity d = Some (pi_vessel_id p)"
    "\<not> is_nil (pi_vessel_id p)"
  shows "authenticate_connection e now (cd_grant_id (rd_credential r)) (cd_token (rd_credential r)) d = (Inr (rd_grant r), d)"
proof -
  note parts = carries_parts [OF assms(1)]
  have load: "load_grant e (cd_grant_id (rd_credential r)) d = (Inr (rd_grant r), d)"
    using assms(3,4) parts(2) by (simp add: load_grant_def)
  have identity: "load_identity d = (Inr (pi_vessel_id p), d)" using assms(6,7) by (simp add: load_identity_def)
  have scope: "valid_owner_scope (rd_grant r)" "pi_full_access p \<or> pi_workspaces p \<noteq> []" "length (pi_workspaces p) \<le> 32"
      "\<not> is_nil (pi_principal_id p)"
    using assms(2) parts by (auto simp: valid_owner_scope_def offer_ok_def split: if_splits)
  have current: "current_connection e now (rd_grant r) d = (Inr (), d)"
    using load identity scope parts assms(5)
    by (simp add: current_connection_def act_then_def act_ensure_def act_return_def)
  show ?thesis
    using load current parts
    by (simp add: authenticate_connection_def act_then_def act_ensure_def act_return_def)
qed

lemma authenticate_revoked:
  assumes "grants_ok d" "revoked_file d i"
  shows "\<not> is_ok (fst (authenticate_connection e now i token d))"
proof -
  obtain g where g: "bm_get (vd_connections d) i = Some g" "cg_revoked g"
    using assms(2) by (auto simp: revoked_file_def is_some_and_def split: option.splits)
  have "run (authenticate_connection e now i token) (\<lambda>_ _. False) (\<lambda>_. True) d"
    unfolding authenticate_connection_def current_connection_def
    by (intro run_rules) (use g in auto)
  then show ?thesis by (auto simp: run_def is_ok_def split: prod.splits sum.splits)
qed

section \<open>Wrong codes\<close>








section \<open>A Vessel to try it on\<close>

definition sample_pairing_env :: pairing_env where
  "sample_pairing_env = \<lparr>pe_hash = (\<lambda>s. 0 # s),
     pe_parse_url = (\<lambda>s. Some \<lparr>ur_scheme = lit ''https'', ur_has_host = True, ur_loopback = False, ur_username = [],
       ur_has_password = False, ur_path = lit ''/'', ur_has_query = False, ur_has_fragment = False, ur_origin = s\<rparr>),
     pe_canonical_directory = (\<lambda>_. True), pe_state_size = (\<lambda>_. 400), pe_grant_size = (\<lambda>_. 300),
     pe_workspaces_size = (\<lambda>_. 100)\<rparr>"

definition sample_vessel :: vessel_disk where
  "sample_vessel = \<lparr>vd_identity = Some 7, vd_pairing = None, vd_connections = [], vd_leftovers = 0, vd_faults = []\<rparr>"

definition sample_invite :: invite_request where
  "sample_invite = \<lparr>iq_endpoint = lit ''https://v'', iq_principal_id = 3,
     iq_workspaces = [\<lparr>wk_id = 4, wk_name = [119], wk_path = [], wk_provider_ready = None\<rparr>],
     iq_rights = [Observe], iq_accounts = [], iq_enrollment_connections = [], iq_ttl_seconds = 600\<rparr>"

definition sample_code :: rstring where "sample_code = replicate 64 97"
definition sample_token :: rstring where "sample_token = replicate 64 98"

definition sample_offered :: vessel_disk where
  "sample_offered = snd (invite_with_access sample_pairing_env 1 5 sample_code 1000 sample_invite False sample_vessel)"

definition sample_redeem :: "nat \<Rightarrow> rstring \<Rightarrow> workspace_credential action" where
  "sample_redeem now code = redeem sample_pairing_env 2 9 sample_token now (lit ''https://v'') None
     \<lparr>pq_protocol = 1, pq_command_id = 11, pq_principal_id = 3, pq_invitation_id = 5, pq_code = code\<rparr>"

definition sample_credential :: workspace_credential where
  "sample_credential = \<lparr>cd_schema_version = 1, cd_kind = lit ''workspace'', cd_endpoint = lit ''https://v'', cd_grant_id = 9,
     cd_principal_id = 3, cd_vessel_id = 7, cd_token = sample_token\<rparr>"

lemma sample_offers: "pairing_steps sample_pairing_env {} sample_vessel sample_offered"
  unfolding sample_offered_def
  by (rule r_into_rtranclp, rule pairing_step.invites) (simp_all add: sample_vessel_def current_def empty_pairing_def)

lemma sample_offered_ok: "pairing_ok sample_pairing_env sample_offered"
  by (rule steps_ok [OF fresh_vessel_ok sample_offers]) (simp add: fresh_vessel_def sample_vessel_def)

text \<open>Evaluation, with the lengths of secrets and the origin known.\<close>

lemma sample_lengths [simp]: "str_len sample_code = 64" "str_len sample_token = 64"
  by (simp_all add: sample_code_def sample_token_def str_len_def sum_list_replicate len_utf8_def)

lemma sample_origin [simp]: "validate_origin sample_pairing_env (lit ''https://v'') True = Some (lit ''https://v'')"
  by (simp add: validate_origin_def sample_pairing_env_def lit_def str_len_def len_utf8_def has_control_def is_control_def
      trim_def trim_start_def is_whitespace_def)

lemma sample_env_simps [simp]:
  "pe_hash sample_pairing_env s = 0 # s" "pe_state_size sample_pairing_env p = 400" "pe_grant_size sample_pairing_env g = 300"
  "pe_workspaces_size sample_pairing_env w = 100" "pe_canonical_directory sample_pairing_env x"
  by (simp_all add: sample_pairing_env_def)

lemmas evaluate_pairing = act_then_def act_ensure_def act_lift_def act_return_def act_fail_def load_pairing_def save_pairing_def
  save_intent_def write_file_def load_identity_def load_grant_def save_grant_def append_audit_def start_audit_def
  observe_redemption_def audit_append_def audit_validate_def audit_event_ok_def audit_new_def audit_event_of_def
  empty_pairing_def state_bytes_def pairing_limit_def grant_ttl_ms_def audit_retain_def bm_get_def
  and_then_def ok_or_def checked_add_u64_def is_nil_def is_none_or_def is_some_and_def Let_def invite_with_access_def
  check_invite_def workspace_ok_def invitation_event_def pending_of_def max_invitation_ttl_seconds_def redeem_def
  code_matches_def refuse_attempt_def intend_redemption_def redemption_of_def publish_grant_def deliver_redemption_def
  revoke_def same_command_def settle_redemption_def settle_revocations_def settleable_def next_revision_def
  same_revocation_def intend_revocation_def publish_revocation_def observe_revocation_def

definition sample_offer :: invitation where
  "sample_offer = \<lparr>iv_protocol = 1, iv_invitation_id = 5, iv_principal_id = 3, iv_vessel_id = 7,
     iv_endpoint = lit ''https://v'', iv_expires_at_ms = 601000, iv_code = sample_code\<rparr>"

text \<open>After the invitation and \<open>n\<close> wrong codes.\<close>

definition sample_guessed :: "nat \<Rightarrow> vessel_disk" where
  "sample_guessed n = sample_vessel\<lparr>vd_pairing := Some
     \<lparr>ps_audit = Some \<lparr>au_version = 1, au_generation = 1, au_vessel_id = 7, au_legacy_history_unavailable = False,
        au_first_sequence = 1, au_next_sequence = 3, au_events =
          [(audit_event_of AuditStarted 1000 7 None None None)\<lparr>ae_sequence := 1\<rparr>,
           (invitation_event 1000 sample_invite False sample_offer)\<lparr>ae_sequence := 2\<rparr>]\<rparr>,
      ps_invitations = [(pending_of sample_pairing_env sample_invite False sample_offer)\<lparr>pi_attempts := n\<rparr>],
      ps_revocations = [], ps_window_ms = 0, ps_attempts = n\<rparr>\<rparr>"

lemmas evaluate_sample = sample_vessel_def sample_invite_def sample_offer_def

lemma sample_offered_eq: "sample_offered = sample_guessed 0"
  by (simp add: sample_offered_def sample_guessed_def evaluate_sample evaluate_pairing str_len_def len_utf8_def has_control_def
      is_control_def)

lemma sample_wrong: "sample_code \<noteq> sample_token"
  by (simp add: sample_code_def sample_token_def)

lemma sample_guess: "n < 100 \<Longrightarrow> snd (sample_redeem 2000 sample_token (sample_guessed n)) = sample_guessed (n + 1)"
  using sample_wrong by (simp add: sample_redeem_def sample_guessed_def evaluate_sample evaluate_pairing)

lemma sample_redeemed: "fst (sample_redeem 2000 sample_code (sample_guessed 0)) = Inr sample_credential"
  by (simp add: sample_credential_def sample_redeem_def sample_guessed_def evaluate_sample evaluate_pairing)

lemma result_pair: "fst (m d) = Inr x \<Longrightarrow> m d = (Inr x, snd (m d))"
  by (metis prod.collapse)


lemma sample_redeem_step: "pairing_step sample_pairing_env ids d (snd (sample_redeem now code d))"
  unfolding sample_redeem_def by (rule pairing_step.redeems) (simp_all add: is_nil_def)

lemma sample_guesses: "n \<le> 100 \<Longrightarrow> pairing_steps sample_pairing_env {} (sample_guessed 0) (sample_guessed n)"
proof (induction n)
  case (Suc n)
  then have "pairing_step sample_pairing_env {} (sample_guessed n) (sample_guessed (Suc n))"
    using sample_redeem_step [of "{}" "sample_guessed n" 2000 sample_token] sample_guess [of n] by simp
  with Suc show ?case by (simp add: rtranclp.rtrancl_into_rtrancl)
qed simp



lemma sample_guessed_ok: "n \<le> 100 \<Longrightarrow> pairing_ok sample_pairing_env (sample_guessed n)"
  by (rule steps_ok [OF sample_offered_ok [unfolded sample_offered_eq] sample_guesses])

definition sample_connected :: vessel_disk where
  "sample_connected = snd (sample_redeem 2000 sample_code (sample_guessed 0))"

lemma sample_connected: "sample_redeem 2000 sample_code (sample_guessed 0) = (Inr sample_credential, sample_connected)"
  using sample_redeemed by (simp add: sample_connected_def prod_eq_iff)

lemma sample_connected_ok: "pairing_ok sample_pairing_env sample_connected"
  unfolding sample_connected_def
  by (rule steps_ok [where ids = "{}"], rule sample_guessed_ok [of 0], simp, rule r_into_rtranclp, rule sample_redeem_step)

lemma sample_again: "fst (sample_redeem 3000 sample_code sample_connected) = Inr sample_credential"
  by (simp add: sample_connected_def sample_credential_def sample_redeem_def sample_guessed_def evaluate_sample evaluate_pairing)

definition sample_revoke :: revoke_request where
  "sample_revoke = \<lparr>vq_grant_id = 9, vq_expected_revision = 1, vq_command_id = 12\<rparr>"

lemma sample_revoked: "fst (revoke sample_pairing_env 2 3000 sample_revoke sample_connected) = Inr 2"
  by (simp add: sample_revoke_def sample_connected_def sample_redeem_def sample_guessed_def evaluate_sample evaluate_pairing)

section \<open>Properties\<close>

text \<open>
  C9. However a Vessel got where it is by operations of pairing (invitations, redemptions, revocations, exports, and
  a migration that completes, from a Vessel whose files are in order to one without any), with writes that fail and
  restarts between them, its files are in order: identifiers of invitations are distinct, every redemption on record holds the authority of
  its invitation, every file of a connection is named by its grant, one that is marked revoked has its revocation on
  record, and a revocation is noted as published only when the file is marked.
\<close>

theorem pairing_files_in_order:
  assumes "fresh_vessel d" "pairing_steps e ids d d'"
  shows "pairing_ok e d'"
  by (rule steps_ok [OF fresh_vessel_ok [OF assms(1)] assms(2)])

theorem pairing_files_in_order_witness: "pairing_ok sample_pairing_env (sample_guessed 3)"
proof (rule pairing_files_in_order)
  show "fresh_vessel sample_vessel" by (simp add: fresh_vessel_def sample_vessel_def)
  have "pairing_steps sample_pairing_env {} sample_vessel (sample_guessed 0)"
    using sample_offers by (simp add: sample_offered_eq)
  then show "pairing_steps sample_pairing_env {} sample_vessel (sample_guessed 3)"
    using sample_guesses [of 3] by simp
qed

text \<open>
  C5. A redemption that succeeds returns a credential that authenticates at once, as the holder of exactly the
  authority of the invitation whose code and principal the request named.
\<close>

theorem redeemed_credential_authenticates:
  assumes "pairing_ok e d" "redeem e generation grant_id token now origin expected q d = (Inr c, d')"
    "str_len token = 64" "\<not> is_nil grant_id"
  shows "\<exists>p g. p \<in> set (ps_invitations (current d)) \<and> pi_invitation_id p = pq_invitation_id q \<and>
     pi_code_hash p = pe_hash e (pq_code q) \<and> pi_principal_id p = pq_principal_id q \<and>
     authenticate_connection e now (cd_grant_id c) (cd_token c) d' = (Inr g, d') \<and>
     cg_full_access g = pi_full_access p \<and> cg_rights g = pi_rights p \<and> cg_workspaces g = pi_workspaces p \<and>
     cg_accounts g = pi_accounts p \<and> cg_enrollment_connections g = pi_enrollment_connections p \<and>
     cg_principal_id g = pi_principal_id p"
proof -
  note success = redeem_success [OF assms(2-4,1)]
  from redeemed_here [OF success(3,2)] obtain p r p0 where p: "pi_invitation_id p = pq_invitation_id q"
    "rd_credential r = c" "carries e p r" "offer_ok p" "bm_get (vd_connections d') (cg_grant_id (rd_grant r)) = Some (rd_grant r)"
    "pe_grant_size e (rd_grant r) \<le> 16384" "now < cg_expires_at_ms (rd_grant r)"
    and p0: "p0 \<in> set (ps_invitations (current d))" "p = p0\<lparr>pi_attempts := pi_attempts p, pi_redemption := pi_redemption p\<rparr>"
      "pi_code_hash p0 = pe_hash e (pq_code q)" "pi_principal_id p0 = pq_principal_id q" "vd_identity d = Some (pi_vessel_id p0)"
      "\<not> is_nil (pi_vessel_id p0)" by metis
  have carries: "carries e p0 r" and offer: "offer_ok p0" and id: "pi_invitation_id p0 = pq_invitation_id q"
    using p p0(2) by (metis carries_update(1), metis offer_update(1), metis pending_invitation_id_update)
  have "authenticate_connection e now (cd_grant_id c) (cd_token c) d' = (Inr (rd_grant r), d')"
    using authenticate_published [OF carries offer p(5-7)] success(1) p0(5,6) p(2) by simp
  then show ?thesis using p0(1,3,4) id carries_parts [OF carries] by blast
qed

theorem redeemed_credential_authenticates_witness:
  "\<exists>g. authenticate_connection sample_pairing_env 2000 9 sample_token sample_connected = (Inr g, sample_connected) \<and>
     cg_rights g = [Observe] \<and> cg_workspaces g = iq_workspaces sample_invite"
proof -
  from redeemed_credential_authenticates [OF sample_guessed_ok sample_connected [unfolded sample_redeem_def]]
  show ?thesis
    by (auto simp: is_nil_def sample_guessed_def pending_of_def sample_invite_def sample_credential_def)
qed

text \<open>
  C6. An invitation is redeemed for one credential only: whatever operations, failed writes and restarts follow a
  redemption, another one that succeeds for the same invitation returns the same credential.
\<close>

theorem one_credential_per_invitation:
  assumes "pairing_ok e d" "redeem e generation grant_id token now origin expected q d = (Inr c, d1)"
    "str_len token = 64" "\<not> is_nil grant_id" "pairing_steps e {pq_invitation_id q} d1 d2"
    "redeem e generation' grant_id' token' now' origin' expected' q' d2 = (Inr c', d3)"
    "str_len token' = 64" "\<not> is_nil grant_id'" "pq_invitation_id q' = pq_invitation_id q"
  shows "c' = c"
proof -
  let ?i = "pq_invitation_id q"
  note first = redeem_success [OF assms(2-4,1)]
  from redeemed_here [OF first(3,2)] obtain p r where p: "p \<in> set (ps_invitations (current d1))"
    "pi_invitation_id p = ?i" "pi_redemption p = Some r" "rd_credential r = c" by metis
  have "invitations_with ?i (redeemed_for c) d1"
    by (rule invitations_withI [OF first(2) p(1,2)]) (use p(3,4) in \<open>simp add: redeemed_for_def\<close>)
  then have here: "invitations_with ?i (redeemed_for c) d2" "pairing_ok e d2"
    using durably_redeemed [OF steps_durably [OF assms(5) first(2)] first(2)] by simp_all
  note second = redeem_success [OF assms(6-8) here(2)]
  have "invitations_with ?i (redeemed_for c) d3"
    using durably_redeemed [OF redeem_durably [OF assms(6-8)] here(2) _ here(1)] by blast
  moreover from redeemed_here [OF second(3,2)] obtain p' r' where "p' \<in> set (ps_invitations (current d3))"
    "pi_invitation_id p' = ?i" "pi_redemption p' = Some r'" "rd_credential r' = c'" using assms(9) by metis
  ultimately show ?thesis by (auto simp: invitations_with_def redeemed_for_def)
qed

theorem one_credential_per_invitation_witness:
  "\<exists>c. fst (sample_redeem 3000 sample_code sample_connected) = Inr c \<and> c = sample_credential"
proof (intro exI conjI)
  show "fst (sample_redeem 3000 sample_code sample_connected) = Inr sample_credential" by (rule sample_again)
  note again = result_pair [where m = "sample_redeem 3000 sample_code" and d = sample_connected, OF this]
  show "sample_credential = sample_credential"
    by (rule one_credential_per_invitation [OF sample_guessed_ok [of 0] sample_connected [unfolded sample_redeem_def] _ _
        rtranclp.rtrancl_refl again [unfolded sample_redeem_def]]) (simp_all add: is_nil_def)
qed

text \<open>
  C7. Revocation is final: after a revocation that succeeded, whatever operations, failed writes and restarts follow, no
  secret authenticates for the grant, and no redemption delivers a credential for it again.
\<close>

theorem revocation_is_final:
  assumes "pairing_ok e d" "revoke e generation now q d = (Inr n, d1)" "pairing_steps e ids d1 d2"
    "str_len token = 64" "\<not> is_nil grant_id" "cd_grant_id c = vq_grant_id q"
  shows "\<not> is_ok (fst (authenticate_connection e now' (vq_grant_id q) secret d2)) \<and>
    fst (redeem e generation' grant_id token now' origin expected q' d2) \<noteq> Inr c"
proof
  have "observed_ok d" using assms(1) by (simp add: pairing_ok_iff)
  from run_success [OF run_revoke [OF this, where ids = ids] assms(2)]
  have d1: "durably e ids d d1" "revoked_at (vq_grant_id q) d1" by blast+
  have "pairing_ok e d1" by (rule durably_ok [OF d1(1) assms(1)])
  then have d2: "pairing_ok e d2" "revoked_at (vq_grant_id q) d2"
    using durably_revoked_at [OF steps_durably [OF assms(3)] _ d1(2)] by blast+
  from d2 show "\<not> is_ok (fst (authenticate_connection e now' (vq_grant_id q) secret d2))"
    by (simp add: authenticate_revoked revoked_at_def pairing_ok_iff)
  show "fst (redeem e generation' grant_id token now' origin expected q' d2) \<noteq> Inr c"
  proof
    assume "fst (redeem e generation' grant_id token now' origin expected q' d2) = Inr c"
    note success = result_pair [where m = "redeem e generation' grant_id token now' origin expected q'", OF this] assms(4,5)
    note d3 = redeem_success [OF success d2(1)]
    have "revoked_at (vq_grant_id q) (snd (redeem e generation' grant_id token now' origin expected q' d2))"
      using durably_revoked_at [OF redeem_durably [OF success] d2] by blast
    moreover from redeemed_here [OF d3(3,2)] obtain p r where "rd_credential r = c" "carries e p r"
      "cg_grant_id (rd_grant r) \<notin> rv_grant_id ` set (ps_revocations
        (current (snd (redeem e generation' grant_id token now' origin expected q' d2))))" by metis
    ultimately show False using assms(6) carries_parts(2) by (simp add: revoked_at_def)
  qed
qed

theorem revocation_is_final_witness:
  "\<not> is_ok (fst (authenticate_connection sample_pairing_env 4000 9 sample_token
     (snd (revoke sample_pairing_env 2 3000 sample_revoke sample_connected)))) \<and>
   fst (sample_redeem 4000 sample_code (snd (revoke sample_pairing_env 2 3000 sample_revoke sample_connected))) \<noteq> Inr sample_credential"
proof -
  note revoked = result_pair [where m = "revoke sample_pairing_env 2 3000 sample_revoke" and d = sample_connected, OF sample_revoked]
  note final = revocation_is_final [OF sample_connected_ok revoked rtranclp.rtrancl_refl [where r = "pairing_step sample_pairing_env {}"],
      where token = sample_token and grant_id = 9 and c = sample_credential]
  show ?thesis
    unfolding sample_redeem_def
    using final [where now' = 4000] by (simp add: is_nil_def sample_revoke_def sample_credential_def)
qed



end
