(* ===== verification/Notifications.thy ===== *)
theory Notifications
  imports Rust_Str Ordered_Map Results
begin

text \<open>
  The store of notifications of a Vessel (\<open>vessel/src/process/notifications/store.rs\<close>) and its types
  (\<open>crates/voyage-protocol/src/notifications.rs\<close>). The tables of the database are fields of a record, an
  operation is one transaction: it returns the new tables, or an error and nothing changes. The time, the
  outcome of the check of the recipient's authority, digests and the sizes of JSON are arguments.
\<close>

section \<open>Types\<close>

datatype notification_kind =
  Note_Completed | Note_Incomplete | Note_Failed | Note_Cancelled | Note_Interrupted | Note_Attention | Note_Budget | Note_Test

record quiet_hours =
  qh_start_minute :: nat
  qh_end_minute :: nat

definition quiet_valid :: "quiet_hours \<Rightarrow> bool" where
  "quiet_valid q \<longleftrightarrow> qh_start_minute q < 1440 \<and> qh_end_minute q < 1440 \<and> qh_start_minute q \<noteq> qh_end_minute q"

definition quiet_contains :: "quiet_hours \<Rightarrow> nat \<Rightarrow> bool" where
  "quiet_contains q now =
     (if \<not> quiet_valid q then False
      else let minute = now div 60000 mod 1440 in
        if qh_start_minute q < qh_end_minute q then qh_start_minute q \<le> minute \<and> minute < qh_end_minute q
        else qh_start_minute q \<le> minute \<or> minute < qh_end_minute q)"

record destination =
  nd_id :: uuid
  nd_recipient_grant_id :: uuid
  nd_recipient_principal_id :: uuid
  nd_recipient_grant_revision :: nat
  nd_source_vessel_id :: uuid
  nd_source_session_id :: uuid
  nd_event_kinds :: "notification_kind list"
  nd_expires_at_ms :: nat
  nd_notification_ttl_ms :: nat
  nd_quiet_hours_utc :: "quiet_hours option"

record destination_record =
  nr_destination :: destination
  nr_revoked_at_ms :: "nat option"
  nr_accepted_at_ms :: "nat option"

datatype budget_dimension =
  Dim_Tokens | Dim_EstimatedTokens | Dim_UnsettledAttempts | Dim_EstimatedMicrocurrency | Dim_RuntimeMilliseconds |
  Dim_CpuMilliseconds | Dim_DiskReadBytes | Dim_DiskWriteBytes | Dim_NetworkBytes

datatype budget_scope = Scope_Session | Scope_Project

datatype budget_threshold = Threshold_Warning | Threshold_Denied

record budget_detail =
  nb_dimension :: budget_dimension
  nb_scope :: budget_scope
  nb_scope_id :: uuid
  nb_revision :: nat
  nb_threshold :: budget_threshold
  nb_ledger_sequence :: nat

record notification =
  nt_event_id :: uuid
  nt_session_id :: uuid
  nt_run_id :: "uuid option"
  nt_incarnation :: "uuid option"
  nt_kind :: notification_kind
  nt_source_event_id :: uuid
  nt_created_at_ms :: nat
  nt_expires_at_ms :: nat
  nt_decision_id :: "uuid option"
  nt_budget :: "budget_detail option"

datatype producer_error = Producer_Capacity | Producer_Unavailable | Producer_Gap | Producer_InvalidSource

record producer_cursor =
  pc_after :: nat
  pc_error :: "producer_error option"

datatype receipt_state = Available | Seen | Dismissed

fun receipt_rank :: "receipt_state \<Rightarrow> nat" where
  "receipt_rank Available = 0"
| "receipt_rank Seen = 1"
| "receipt_rank Dismissed = 2"

lemma receipt_rank_inject: "receipt_rank a = receipt_rank b \<Longrightarrow> a = b"
  by (cases a; cases b) simp_all

instantiation receipt_state :: linorder
begin

definition less_eq_receipt_state :: "receipt_state \<Rightarrow> receipt_state \<Rightarrow> bool" where
  "less_eq_receipt_state a b \<longleftrightarrow> receipt_rank a \<le> receipt_rank b"

definition less_receipt_state :: "receipt_state \<Rightarrow> receipt_state \<Rightarrow> bool" where
  "less_receipt_state a b \<longleftrightarrow> receipt_rank a < receipt_rank b"

instance
  by standard (auto simp: less_eq_receipt_state_def less_receipt_state_def intro: receipt_rank_inject)

end

record notification_receipt =
  rc_sequence :: nat
  rc_event_id :: uuid
  rc_state :: receipt_state

record inbox_entry =
  ie_receipt :: notification_receipt
  ie_notification :: notification

record inbox_page =
  ip_entries :: "inbox_entry list"
  ip_next_after :: nat
  ip_has_more :: bool

section \<open>Tables\<close>

text \<open>The columns \<open>grant_id\<close>, \<open>source_id\<close> and \<open>expires\<close> of a destination are fields of its payload.\<close>

record destination_row =
  dr_payload :: destination
  dr_revoked :: "nat option"
  dr_accepted :: "nat option"
  dr_cursor :: nat
  dr_producer_error :: "producer_error option"

record note_command =
  nc_destination :: uuid
  nc_operation :: nat
  nc_argument :: "uuid option"

record note_event_row =
  er_sequence :: nat
  er_destination :: uuid
  er_event_id :: uuid
  er_source_event_id :: uuid
  er_fingerprint :: rstring
  er_payload :: "notification option"
  er_expires :: nat
  er_state :: receipt_state

text \<open>The events are listed by their sequence, the primary key.\<close>

record note_store =
  ns_clock :: nat
  ns_destinations :: "(uuid, destination_row) bmap"
  ns_commands :: "(uuid, note_command) bmap"
  ns_events :: "note_event_row list"

definition empty_note_store :: note_store where
  "empty_note_store = \<lparr>ns_clock = 0, ns_destinations = [], ns_commands = [], ns_events = []\<rparr>"

text \<open>Serialised sizes and the SHA-256 of the serialised notification.\<close>

record note_env =
  ne_destination_size :: "destination \<Rightarrow> nat"
  ne_size :: "notification \<Rightarrow> nat"
  ne_digest :: "notification \<Rightarrow> rstring"

definition max_destinations :: nat where "max_destinations = 256"
definition max_destinations_per_grant :: nat where "max_destinations_per_grant = 32"
definition max_destinations_per_source :: nat where "max_destinations_per_source = 32"
definition max_events :: nat where "max_events = 16384"
definition max_events_per_destination :: nat where "max_events_per_destination = 1024"
definition max_record_bytes :: nat where "max_record_bytes = 1024"
definition max_destination_lifetime_ms :: nat where "max_destination_lifetime_ms = 30 * 24 * 60 * 60 * 1000"
definition max_notification_ttl_ms :: nat where "max_notification_ttl_ms = 7 * 24 * 60 * 60 * 1000"
definition max_inbox_page :: nat where "max_inbox_page = 100"

section \<open>Checks\<close>

definition sql_integer :: "nat \<Rightarrow> (string, unit) result" where
  "sql_integer n = (if n \<le> 9223372036854775807 then Inr () else Inl ''notification integer out of range'')"

definition check_clock :: "note_store \<Rightarrow> nat \<Rightarrow> (string, unit) result" where
  "check_clock s now = and_then (sql_integer now) (\<lambda>_.
     if now < ns_clock s then Inl ''notification clock moved backwards'' else Inr ())"

definition encoded :: "nat \<Rightarrow> (string, unit) result" where
  "encoded n = (if max_record_bytes < n then Inl ''notification metadata too large'' else Inr ())"

definition validate_destination :: "destination \<Rightarrow> nat \<Rightarrow> (string, unit) result" where
  "validate_destination d now =
     (if is_nil (nd_id d) \<or> is_nil (nd_recipient_grant_id d) \<or> is_nil (nd_recipient_principal_id d) \<or>
         nd_recipient_grant_revision d = 0 \<or> is_nil (nd_source_vessel_id d) \<or> is_nil (nd_source_session_id d)
      then Inl ''nil notification destination identity''
      else and_then (sql_integer (nd_expires_at_ms d)) (\<lambda>_.
        if \<not> (now < nd_expires_at_ms d \<and> nd_expires_at_ms d - now \<le> max_destination_lifetime_ms)
        then Inl ''invalid destination expiry''
        else if \<not> (0 < nd_notification_ttl_ms d \<and> nd_notification_ttl_ms d \<le> max_notification_ttl_ms)
        then Inl ''invalid notification TTL''
        else if \<not> (nd_event_kinds d \<noteq> [] \<and> length (nd_event_kinds d) \<le> 8) then Inl ''invalid notification kinds''
        else if \<not> distinct (nd_event_kinds d) then Inl ''duplicate notification kind''
        else if \<not> is_none_or (nd_quiet_hours_utc d) quiet_valid then Inl ''invalid UTC quiet hours'' else Inr ()))"

definition not_nil :: "uuid option \<Rightarrow> bool" where
  "not_nil i \<longleftrightarrow> is_none_or i (\<lambda>i. \<not> is_nil i)"

definition budget_provenance :: "budget_detail \<Rightarrow> bool" where
  "budget_provenance b \<longleftrightarrow> \<not> is_nil (nb_scope_id b) \<and> 0 < nb_revision b \<and> 0 < nb_ledger_sequence b"

definition validate_notification :: "destination \<Rightarrow> notification \<Rightarrow> nat \<Rightarrow> (string, unit) result" where
  "validate_notification d n now =
     (if \<not> (\<not> is_nil (nt_event_id n) \<and> \<not> is_nil (nt_source_event_id n) \<and> not_nil (nt_incarnation n) \<and> not_nil (nt_run_id n) \<and>
           not_nil (nt_decision_id n)) then Inl ''nil notification identity''
      else if nt_session_id n \<noteq> nd_source_session_id d then Inl ''notification source mismatch''
      else if \<not> (nt_kind n = Note_Test \<or> nt_kind n \<in> set (nd_event_kinds d)) then Inl ''notification kind not configured''
      else if nt_kind n = Note_Attention \<and> \<not> (nt_incarnation n \<noteq> None \<and> nt_decision_id n \<noteq> None)
      then Inl ''attention requires exact decision provenance''
      else if \<not> (nt_decision_id n = None \<or> nt_kind n = Note_Attention)
      then Inl ''decision reference on non-attention notification''
      else if \<not> (nt_budget n = None \<or> nt_kind n = Note_Budget) then Inl ''budget detail on non-budget notification''
      else if \<not> is_none_or (nt_budget n) budget_provenance then Inl ''invalid budget provenance''
      else if nt_kind n = Note_Test \<and> \<not> (nt_run_id n = None \<and> nt_decision_id n = None \<and> nt_budget n = None)
      then Inl ''synthetic test cannot claim actual run or decision''
      else and_then (sql_integer (nt_expires_at_ms n)) (\<lambda>_.
        if \<not> (nt_created_at_ms n \<le> now \<and> now < nt_expires_at_ms n \<and> nt_expires_at_ms n \<le> nd_expires_at_ms d \<and>
              nt_expires_at_ms n - nt_created_at_ms n \<le> nd_notification_ttl_ms d)
        then Inl ''invalid notification lifetime'' else Inr ()))"

section \<open>Reading and writing rows\<close>

definition lookup_note_command :: "note_store \<Rightarrow> uuid \<Rightarrow> (uuid \<times> nat) option" where
  "lookup_note_command s i = map_option (\<lambda>c. (nc_destination c, nc_operation c)) (bm_get (ns_commands s) i)"

definition decode_destination :: "destination_row \<Rightarrow> destination_record" where
  "decode_destination r =
     \<lparr>nr_destination = dr_payload r, nr_revoked_at_ms = dr_revoked r, nr_accepted_at_ms = dr_accepted r\<rparr>"

definition load_destination :: "note_store \<Rightarrow> uuid \<Rightarrow> destination_record option" where
  "load_destination s i = map_option decode_destination (bm_get (ns_destinations s) i)"

definition record_active :: "nat \<Rightarrow> destination_record \<Rightarrow> bool" where
  "record_active now r \<longleftrightarrow> nr_revoked_at_ms r = None \<and> nr_accepted_at_ms r \<noteq> None \<and> now < nd_expires_at_ms (nr_destination r)"

definition destination_active :: "note_store \<Rightarrow> uuid \<Rightarrow> nat \<Rightarrow> bool" where
  "destination_active s i now = is_some_and (load_destination s i) (record_active now)"

definition active_destination :: "note_store \<Rightarrow> uuid \<Rightarrow> nat \<Rightarrow> (string, destination_record) result" where
  "active_destination s i now =
     and_then (ok_or ''unknown destination'' (load_destination s i)) (\<lambda>r.
       if record_active now r then Inr r else Inl ''inactive destination'')"

definition load_cursor :: "note_store \<Rightarrow> uuid \<Rightarrow> (string, producer_cursor) result" where
  "load_cursor s i =
     and_then (ok_or ''Query returned no rows'' (bm_get (ns_destinations s) i)) (\<lambda>r.
       Inr \<lparr>pc_after = dr_cursor r, pc_error = dr_producer_error r\<rparr>)"

definition event_key :: "note_event_row \<Rightarrow> uuid \<times> uuid" where
  "event_key r = (er_destination r, er_event_id r)"

definition source_key :: "note_event_row \<Rightarrow> uuid \<times> uuid" where
  "source_key r = (er_destination r, er_source_event_id r)"

definition receipt_of :: "note_event_row \<Rightarrow> notification_receipt" where
  "receipt_of r = \<lparr>rc_sequence = er_sequence r, rc_event_id = er_event_id r, rc_state = er_state r\<rparr>"

definition find_event :: "note_store \<Rightarrow> uuid \<Rightarrow> uuid \<Rightarrow> note_event_row option" where
  "find_event s d i = find (\<lambda>r. event_key r = (d, i)) (ns_events s)"

definition decode_entry :: "note_event_row \<Rightarrow> (string, inbox_entry) result" where
  "decode_entry r =
     (case er_payload r of
        None \<Rightarrow> Inl ''Invalid column type Null''
      | Some n \<Rightarrow> if nt_event_id n \<noteq> er_event_id r then Inl ''corrupt notification identity''
                  else Inr \<lparr>ie_receipt = receipt_of r, ie_notification = n\<rparr>)"

text \<open>The command identifier is unique, and a destination has one command of each lifecycle operation.\<close>

definition insert_note_command :: "uuid \<Rightarrow> uuid \<Rightarrow> nat \<Rightarrow> uuid option \<Rightarrow> note_store \<Rightarrow> (string, note_store) result" where
  "insert_note_command i d operation argument s =
     (if bm_contains (ns_commands s) i then Inl ''UNIQUE constraint failed: commands.id''
      else if operation < 3 \<and> list_ex (\<lambda>c. nc_destination c = d \<and> nc_operation c = operation) (bm_values (ns_commands s))
      then Inl ''UNIQUE constraint failed: commands.destination_id, commands.operation''
      else if \<not> bm_contains (ns_destinations s) d then Inl ''FOREIGN KEY constraint failed''
      else Inr (s\<lparr>ns_commands := bm_insert i \<lparr>nc_destination = d, nc_operation = operation, nc_argument = argument\<rparr> (ns_commands s)\<rparr>))"

definition update_destination :: "uuid \<Rightarrow> (destination_row \<Rightarrow> destination_row) \<Rightarrow> note_store \<Rightarrow> note_store" where
  "update_destination i f s = s\<lparr>ns_destinations := bm_update i f (ns_destinations s)\<rparr>"

text \<open>
  Every transaction with a time raises the clock of the store and drops the payloads of events that are over, or
  whose destination is revoked or over; \<open>ok\<close> is the check of the current authority of recipient and source.
\<close>

definition row_over :: "nat \<Rightarrow> destination_row \<Rightarrow> bool" where
  "row_over clock r \<longleftrightarrow> dr_revoked r \<noteq> None \<or> nd_expires_at_ms (dr_payload r) \<le> clock"

definition event_over :: "note_store \<Rightarrow> note_event_row \<Rightarrow> bool" where
  "event_over s r \<longleftrightarrow> er_expires r \<le> ns_clock s \<or> is_some_and (bm_get (ns_destinations s) (er_destination r)) (row_over (ns_clock s))"

definition drop_payload :: "note_event_row \<Rightarrow> note_event_row" where
  "drop_payload r = r\<lparr>er_payload := None\<rparr>"

definition drop_over :: "note_store \<Rightarrow> note_store" where
  "drop_over s = s\<lparr>ns_events := map (\<lambda>r. if event_over s r then drop_payload r else r) (ns_events s)\<rparr>"

definition begin_note :: "bool \<Rightarrow> nat \<Rightarrow> bool \<Rightarrow> note_store \<Rightarrow> (string, note_store) result" where
  "begin_note ok now strict s =
     and_then (sql_integer now) (\<lambda>_.
       if \<not> ok then Inl ''notification authority unavailable''
       else and_then (if strict then check_clock s now else Inr ()) (\<lambda>_.
         Inr (drop_over (s\<lparr>ns_clock := max (ns_clock s) now\<rparr>))))"

section \<open>Destinations\<close>

definition configure :: "note_env \<Rightarrow> bool \<Rightarrow> uuid \<Rightarrow> destination \<Rightarrow> nat \<Rightarrow> note_store \<Rightarrow>
    (string, destination_record \<times> note_store) result" where
  "configure e ok cmd d now s =
     (if is_nil cmd then Inl ''nil notification command ID''
      else and_then (begin_note ok now False s) (\<lambda>s.
        case lookup_note_command s cmd of
          Some (i, operation) \<Rightarrow>
            if \<not> (i = nd_id d \<and> operation = 0) then Inl ''notification command conflict''
            else and_then (ok_or ''missing destination'' (load_destination s i)) (\<lambda>r.
              if nr_destination r = d then Inr (r, s) else Inl ''notification command conflict'')
        | None \<Rightarrow>
            and_then (check_clock s now) (\<lambda>_.
            and_then (validate_destination d now) (\<lambda>_.
              let rows = bm_values (ns_destinations s) in
              if load_destination s (nd_id d) \<noteq> None then Inl ''destination ID already used''
              else if \<not> length rows < max_destinations then Inl ''notification destination capacity exhausted''
              else if \<not> length (filter (\<lambda>r. nd_recipient_grant_id (dr_payload r) = nd_recipient_grant_id d) rows) <
                  max_destinations_per_grant then Inl ''notification recipient capacity exhausted''
              else if \<not> length (filter (\<lambda>r. nd_source_session_id (dr_payload r) = nd_source_session_id d) rows) <
                  max_destinations_per_source then Inl ''notification source capacity exhausted''
              else and_then (encoded (ne_destination_size e d)) (\<lambda>_.
                let row = \<lparr>dr_payload = d, dr_revoked = None, dr_accepted = None, dr_cursor = 0, dr_producer_error = None\<rparr>;
                    s = s\<lparr>ns_destinations := bm_insert (nd_id d) row (ns_destinations s)\<rparr> in
                and_then (insert_note_command cmd (nd_id d) 0 None s) (\<lambda>s. Inr (decode_destination row, s)))))))"

definition accept_destination :: "bool \<Rightarrow> uuid \<Rightarrow> uuid \<Rightarrow> nat \<Rightarrow> note_store \<Rightarrow>
    (string, destination_record \<times> note_store) result" where
  "accept_destination ok cmd d now s =
     (if is_nil cmd then Inl ''nil notification command ID''
      else and_then (begin_note ok now False s) (\<lambda>s.
        case lookup_note_command s cmd of
          Some (i, operation) \<Rightarrow>
            if \<not> (i = d \<and> operation = 2) then Inl ''notification command conflict''
            else and_then (ok_or ''unknown destination'' (load_destination s i)) (\<lambda>r. Inr (r, s))
        | None \<Rightarrow>
            and_then (check_clock s now) (\<lambda>_.
            and_then (ok_or ''unknown destination'' (load_destination s d)) (\<lambda>r.
              if \<not> (nr_revoked_at_ms r = None \<and> now < nd_expires_at_ms (nr_destination r)) then Inl ''inactive destination''
              else if nr_accepted_at_ms r \<noteq> None then Inl ''destination accepted by another command''
              else and_then (insert_note_command cmd d 2 None s) (\<lambda>s.
                Inr (r\<lparr>nr_accepted_at_ms := Some now\<rparr>, update_destination d (\<lambda>r. r\<lparr>dr_accepted := Some now\<rparr>) s))))))"

definition revoke_destination :: "bool \<Rightarrow> uuid \<Rightarrow> uuid \<Rightarrow> nat \<Rightarrow> note_store \<Rightarrow> (string, unit \<times> note_store) result" where
  "revoke_destination ok cmd d now s =
     (if is_nil cmd then Inl ''nil notification command ID''
      else and_then (begin_note ok now False s) (\<lambda>s.
        case lookup_note_command s cmd of
          Some (i, operation) \<Rightarrow>
            if \<not> (i = d \<and> operation = 1) then Inl ''notification command conflict'' else Inr ((), s)
        | None \<Rightarrow>
            and_then (ok_or ''unknown destination'' (load_destination s d)) (\<lambda>r.
              if nr_revoked_at_ms r \<noteq> None then Inl ''destination already revoked by another command''
              else and_then (insert_note_command cmd d 1 None s) (\<lambda>s.
                let s = update_destination d (\<lambda>r. r\<lparr>dr_revoked := Some (ns_clock s)\<rparr>) s in
                Inr ((), s\<lparr>ns_events := map (\<lambda>r. if er_destination r = d then drop_payload r else r) (ns_events s)\<rparr>)))))"

definition list_destinations :: "note_store \<Rightarrow> destination_record list" where
  "list_destinations s = map decode_destination (bm_values (ns_destinations s))"

text \<open>An error of the producer leaves its cursor; a success never moves it back.\<close>

definition advance_cursor :: "uuid \<Rightarrow> nat \<Rightarrow> producer_error option \<Rightarrow> note_store \<Rightarrow>
    (string, producer_cursor \<times> note_store) result" where
  "advance_cursor d after error s =
     and_then (sql_integer after) (\<lambda>_.
     and_then (load_cursor s d) (\<lambda>old.
       let s = (case error of
             Some x \<Rightarrow> update_destination d (\<lambda>r. r\<lparr>dr_producer_error := Some x\<rparr>) s
           | None \<Rightarrow> if pc_after old \<le> after
               then update_destination d (\<lambda>r. r\<lparr>dr_cursor := after, dr_producer_error := None\<rparr>) s else s) in
       and_then (load_cursor s d) (\<lambda>c. Inr (c, s))))"

section \<open>Events\<close>

definition next_sequence :: "note_store \<Rightarrow> nat" where
  "next_sequence s = (if ns_events s = [] then 1 else er_sequence (last (ns_events s)) + 1)"

definition insert_event :: "note_env \<Rightarrow> uuid \<Rightarrow> notification \<Rightarrow> nat \<Rightarrow> note_store \<Rightarrow>
    (string, notification_receipt \<times> note_store) result" where
  "insert_event e d n now s =
     and_then (check_clock s now) (\<lambda>_.
     and_then (active_destination s d now) (\<lambda>r.
     and_then (validate_notification (nr_destination r) n now) (\<lambda>_.
     and_then (encoded (ne_size e n)) (\<lambda>_.
       if \<not> length (ns_events s) < max_events then Inl ''notification event capacity exhausted''
       else if \<not> length (filter (\<lambda>r. er_destination r = d) (ns_events s)) < max_events_per_destination
       then Inl ''notification destination event capacity exhausted''
       else if (d, nt_event_id n) \<in> event_key ` set (ns_events s) \<or> (d, nt_source_event_id n) \<in> source_key ` set (ns_events s)
       then Inl ''UNIQUE constraint failed: events''
       else
         let row = \<lparr>er_sequence = next_sequence s, er_destination = d, er_event_id = nt_event_id n,
               er_source_event_id = nt_source_event_id n, er_fingerprint = ne_digest e n, er_payload = Some n,
               er_expires = nt_expires_at_ms n, er_state = Available\<rparr> in
         Inr (receipt_of row, s\<lparr>ns_events := ns_events s @ [row]\<rparr>)))))"

definition publish_note :: "note_env \<Rightarrow> bool \<Rightarrow> uuid \<Rightarrow> notification \<Rightarrow> nat \<Rightarrow> note_store \<Rightarrow>
    (string, notification_receipt \<times> note_store) result" where
  "publish_note e ok d n now s =
     and_then (encoded (ne_size e n)) (\<lambda>_.
     and_then (begin_note ok now False s) (\<lambda>s.
       case find_event s d (nt_event_id n) of
         Some r \<Rightarrow> if er_fingerprint r = ne_digest e n then Inr (receipt_of r, s) else Inl ''notification publish conflict''
       | None \<Rightarrow> insert_event e d n now s))"

definition test_notification :: "uuid \<Rightarrow> uuid \<Rightarrow> destination \<Rightarrow> nat \<Rightarrow> notification" where
  "test_notification cmd incarnation d now =
     \<lparr>nt_event_id = cmd, nt_session_id = nd_source_session_id d, nt_run_id = None, nt_incarnation = Some incarnation,
      nt_kind = Note_Test, nt_source_event_id = cmd, nt_created_at_ms = now,
      nt_expires_at_ms = min (sat_add now (nd_notification_ttl_ms d)) (nd_expires_at_ms d), nt_decision_id = None,
      nt_budget = None\<rparr>"

definition test_note :: "note_env \<Rightarrow> bool \<Rightarrow> uuid \<Rightarrow> uuid \<Rightarrow> uuid \<Rightarrow> nat \<Rightarrow> note_store \<Rightarrow>
    (string, notification_receipt \<times> note_store) result" where
  "test_note e ok cmd d incarnation now s =
     (if is_nil cmd \<or> is_nil incarnation then Inl ''nil test identity''
      else and_then (begin_note ok now False s) (\<lambda>s.
        case lookup_note_command s cmd of
          Some (i, operation) \<Rightarrow>
            if \<not> (i = d \<and> operation = 3) then Inl ''notification command conflict''
            else and_then (ok_or ''Query returned no rows'' (find_event s d cmd)) (\<lambda>r. Inr (receipt_of r, s))
        | None \<Rightarrow>
            and_then (check_clock s now) (\<lambda>_.
            and_then (active_destination s d now) (\<lambda>r.
            and_then (insert_event e d (test_notification cmd incarnation (nr_destination r) now) now s) (\<lambda>(receipt, s).
            and_then (insert_note_command cmd d 3 (Some incarnation) s) (\<lambda>s. Inr (receipt, s)))))))"

definition visible :: "uuid \<Rightarrow> nat \<Rightarrow> note_event_row \<Rightarrow> bool" where
  "visible d now r \<longleftrightarrow> er_destination r = d \<and> er_payload r \<noteq> None \<and> now < er_expires r"

definition attention_count :: "bool \<Rightarrow> uuid \<Rightarrow> nat \<Rightarrow> note_store \<Rightarrow> (string, nat \<times> note_store) result" where
  "attention_count ok d now s =
     and_then (begin_note ok now True s) (\<lambda>s.
       Inr (if destination_active s d now
            then length (filter (\<lambda>r. visible d now r \<and> er_state r = Available) (ns_events s)) else 0, s))"

definition inbox :: "bool \<Rightarrow> uuid \<Rightarrow> nat \<Rightarrow> nat \<Rightarrow> nat \<Rightarrow> note_store \<Rightarrow> (string, inbox_page \<times> note_store) result" where
  "inbox ok d after limit now s =
     (if \<not> (0 < limit \<and> limit \<le> max_inbox_page) then Inl ''invalid notification page size''
      else and_then (sql_integer after) (\<lambda>_.
        and_then (begin_note ok now True s) (\<lambda>s.
          if \<not> destination_active s d now
          then Inr (\<lparr>ip_entries = [], ip_next_after = after, ip_has_more = False\<rparr>, s)
          else and_then (collect_results decode_entry
              (take (limit + 1) (filter (\<lambda>r. visible d now r \<and> after < er_sequence r) (ns_events s)))) (\<lambda>entries.
            let page = take limit entries in
            Inr (\<lparr>ip_entries = page,
                  ip_next_after = (if page = [] then after else rc_sequence (ie_receipt (last page))),
                  ip_has_more = limit < length entries\<rparr>, s)))))"

definition receive :: "bool \<Rightarrow> uuid \<Rightarrow> uuid \<Rightarrow> receipt_state \<Rightarrow> nat \<Rightarrow> note_store \<Rightarrow>
    (string, notification_receipt \<times> note_store) result" where
  "receive ok d i state now s =
     and_then (begin_note ok now False s) (\<lambda>s.
       if length (filter (\<lambda>r. event_key r = (d, i)) (ns_events s)) \<noteq> 1 then Inl ''unknown notification receipt''
       else
         let s = s\<lparr>ns_events := map (\<lambda>r. if event_key r = (d, i) then r\<lparr>er_state := max (er_state r) state\<rparr> else r) (ns_events s)\<rparr> in
         and_then (ok_or ''Query returned no rows'' (find_event s d i)) (\<lambda>r. Inr (receipt_of r, s)))"

definition get_note :: "bool \<Rightarrow> uuid \<Rightarrow> uuid \<Rightarrow> nat \<Rightarrow> note_store \<Rightarrow> (string, inbox_entry option \<times> note_store) result" where
  "get_note ok d i now s =
     and_then (begin_note ok now True s) (\<lambda>s.
       if destination_active s d now
       then case find (\<lambda>r. event_key r = (d, i) \<and> visible d now r) (ns_events s) of
           None \<Rightarrow> Inr (None, s)
         | Some r \<Rightarrow> and_then (decode_entry r) (\<lambda>x. Inr (Some x, s))
       else Inr (None, s))"

end
