(* ===== verification/Notification_Writes.thy ===== *)
theory Notification_Writes
  imports Notifications
begin

text \<open>
  What the operations of \<open>Notifications\<close> write. \<open>note_write\<close> is the relation of the single changes; every
  operation that succeeds is a sequence of them (\<open>writes_op\<close> lemmas). The changes keep the tables well formed
  (\<open>note_wf\<close>) and only extend them (\<open>store_le\<close>).
\<close>

section \<open>Changes\<close>

inductive note_write :: "note_env \<Rightarrow> note_store \<Rightarrow> note_store \<Rightarrow> bool" for e where
  clock: "note_write e s (drop_over (s\<lparr>ns_clock := max (ns_clock s) now\<rparr>))"
| admit: "note_write e s (s\<lparr>ns_destinations := bm_insert (nd_id d)
      \<lparr>dr_payload = d, dr_revoked = None, dr_accepted = None, dr_cursor = 0, dr_producer_error = None\<rparr> (ns_destinations s)\<rparr>)"
    if "bm_get (ns_destinations s) (nd_id d) = None" "length (bm_values (ns_destinations s)) < max_destinations"
      "length (filter (\<lambda>r. nd_recipient_grant_id (dr_payload r) = nd_recipient_grant_id d) (bm_values (ns_destinations s)))
         < max_destinations_per_grant"
      "length (filter (\<lambda>r. nd_source_session_id (dr_payload r) = nd_source_session_id d) (bm_values (ns_destinations s)))
         < max_destinations_per_source"
| command: "note_write e s (s\<lparr>ns_commands := bm_insert i c (ns_commands s)\<rparr>)" if "\<not> bm_contains (ns_commands s) i" "nc_operation c \<noteq> 1"
| accept: "note_write e s (update_destination d (\<lambda>r. r\<lparr>dr_accepted := Some now\<rparr>) s)"
    if "bm_get (ns_destinations s) d = Some r" "dr_accepted r = None"
| revoke: "note_write e s ((update_destination d (\<lambda>r. r\<lparr>dr_revoked := Some now\<rparr>) s)\<lparr>
      ns_commands := bm_insert i \<lparr>nc_destination = d, nc_operation = 1, nc_argument = None\<rparr> (ns_commands s),
      ns_events := map (\<lambda>r. if er_destination r = d then drop_payload r else r) (ns_events s)\<rparr>)"
    if "bm_get (ns_destinations s) d = Some r" "dr_revoked r = None" "\<not> bm_contains (ns_commands s) i"
| move: "note_write e s (update_destination d (\<lambda>r. r\<lparr>dr_cursor := n, dr_producer_error := x\<rparr>) s)"
    if "bm_get (ns_destinations s) d = Some r" "dr_cursor r \<le> n"
| append: "note_write e s (s\<lparr>ns_events := ns_events s @ [
      \<lparr>er_sequence = next_sequence s, er_destination = d, er_event_id = nt_event_id n,
       er_source_event_id = nt_source_event_id n, er_fingerprint = ne_digest e n, er_payload = Some n,
       er_expires = nt_expires_at_ms n, er_state = Available\<rparr>]\<rparr>)"
    if "bm_get (ns_destinations s) d = Some r" "dr_revoked r = None" "nt_session_id n = nd_source_session_id (dr_payload r)"
      "length (ns_events s) < max_events"
      "length (filter (\<lambda>r. er_destination r = d) (ns_events s)) < max_events_per_destination"
      "(d, nt_event_id n) \<notin> event_key ` set (ns_events s)" "(d, nt_source_event_id n) \<notin> source_key ` set (ns_events s)"
| settle: "note_write e s (s\<lparr>ns_events :=
      map (\<lambda>r. if event_key r = k then r\<lparr>er_state := max (er_state r) x\<rparr> else r) (ns_events s)\<rparr>)"

abbreviation note_writes :: "note_env \<Rightarrow> note_store \<Rightarrow> note_store \<Rightarrow> bool" where
  "note_writes e \<equiv> (note_write e)\<^sup>*\<^sup>*"

section \<open>Growth\<close>

definition row_le :: "note_event_row \<Rightarrow> note_event_row \<Rightarrow> bool" where
  "row_le a b \<longleftrightarrow> er_sequence b = er_sequence a \<and> er_destination b = er_destination a \<and> er_event_id b = er_event_id a \<and>
     er_source_event_id b = er_source_event_id a \<and> er_fingerprint b = er_fingerprint a \<and> er_expires b = er_expires a \<and>
     er_state a \<le> er_state b \<and> (er_payload b = er_payload a \<or> er_payload b = None)"

definition events_le :: "note_event_row list \<Rightarrow> note_event_row list \<Rightarrow> bool" where
  "events_le xs ys \<longleftrightarrow> length xs \<le> length ys \<and> list_all2 row_le xs (take (length xs) ys)"

definition destination_le :: "destination_row \<Rightarrow> destination_row \<Rightarrow> bool" where
  "destination_le a b \<longleftrightarrow> dr_payload b = dr_payload a \<and> (dr_revoked a \<noteq> None \<longrightarrow> dr_revoked b = dr_revoked a) \<and>
     (dr_accepted a \<noteq> None \<longrightarrow> dr_accepted b = dr_accepted a) \<and> dr_cursor a \<le> dr_cursor b"

definition store_le :: "note_store \<Rightarrow> note_store \<Rightarrow> bool" where
  "store_le s t \<longleftrightarrow> ns_clock s \<le> ns_clock t \<and>
     (\<forall>i r. bm_get (ns_destinations s) i = Some r \<longrightarrow> (\<exists>r'. bm_get (ns_destinations t) i = Some r' \<and> destination_le r r')) \<and>
     (\<forall>i c. bm_get (ns_commands s) i = Some c \<longrightarrow> bm_get (ns_commands t) i = Some c) \<and> events_le (ns_events s) (ns_events t)"

lemma row_le_refl [simp]: "row_le r r"
  by (simp add: row_le_def)

lemma row_le_trans: "row_le a b \<Longrightarrow> row_le b c \<Longrightarrow> row_le a c"
  by (auto simp: row_le_def)

lemma events_le_refl [simp]: "events_le xs xs"
  by (simp add: events_le_def list_all2_refl)

lemma events_le_append [simp]: "events_le xs (xs @ ys)"
  by (simp add: events_le_def list_all2_refl)

lemma events_le_map: "(\<And>r. row_le r (f r)) \<Longrightarrow> events_le xs (map f xs)"
  by (simp add: events_le_def list_all2_conv_all_nth)

lemma events_le_nth: "events_le xs ys \<longleftrightarrow> length xs \<le> length ys \<and> (\<forall>i < length xs. row_le (xs ! i) (ys ! i))"
  by (auto simp: events_le_def list_all2_conv_all_nth)

lemma events_le_trans: "events_le xs ys \<Longrightarrow> events_le ys zs \<Longrightarrow> events_le xs zs"
  by (auto simp: events_le_nth intro: row_le_trans)

lemma destination_le_refl [simp]: "destination_le r r"
  by (simp add: destination_le_def)

lemma destination_le_trans: "destination_le a b \<Longrightarrow> destination_le b c \<Longrightarrow> destination_le a c"
  by (auto simp: destination_le_def)

lemma store_le_refl [simp]: "store_le s s"
  by (simp add: store_le_def)

lemma store_le_trans: "store_le s t \<Longrightarrow> store_le t u \<Longrightarrow> store_le s u"
  unfolding store_le_def by (meson destination_le_trans events_le_trans le_trans)

lemma update_destination_simps [simp]:
  "ns_clock (update_destination d f s) = ns_clock s" "ns_commands (update_destination d f s) = ns_commands s"
  "ns_events (update_destination d f s) = ns_events s"
  "ns_destinations (update_destination d f s) = bm_update d f (ns_destinations s)"
  by (simp_all add: update_destination_def)

lemma store_le_update:
  assumes "bm_get (ns_destinations s) d = Some r" "destination_le r (f r)"
  shows "store_le s (update_destination d f s)"
  using assms by (auto simp: store_le_def)

lemma store_le_events: "store_le s t \<Longrightarrow> events_le (ns_events t) E \<Longrightarrow> store_le s (t\<lparr>ns_events := E\<rparr>)"
  by (auto simp: store_le_def intro: events_le_trans)

lemma drop_le [simp]: "row_le r (drop_payload r)"
  by (simp add: row_le_def drop_payload_def)

lemma drop_over_le: "store_le s (drop_over (s\<lparr>ns_clock := max (ns_clock s) now\<rparr>))"
  by (auto simp: store_le_def drop_over_def intro!: events_le_map)

lemma note_write_le:
  assumes "note_write e s t" "bm_sorted (ns_destinations s)" "bm_sorted (ns_commands s)"
  shows "store_le s t"
  using assms(1)
proof cases
  case (clock now)
  then show ?thesis by (simp add: drop_over_le)
next
  case (admit d)
  then show ?thesis using assms(2) by (auto simp: store_le_def)
next
  case (command i c)
  then show ?thesis using assms(3) by (auto simp: store_le_def bm_contains_get)
next
  case (accept d r now)
  then show ?thesis by (simp add: store_le_update destination_le_def)
next
  case (revoke d r i now)
  then have "store_le s (update_destination d (\<lambda>r. r\<lparr>dr_revoked := Some now\<rparr>) s)"
    by (simp add: store_le_update destination_le_def)
  then have "store_le s ((update_destination d (\<lambda>r. r\<lparr>dr_revoked := Some now\<rparr>) s)\<lparr>ns_commands :=
      bm_insert i \<lparr>nc_destination = d, nc_operation = 1, nc_argument = None\<rparr> (ns_commands s)\<rparr>)"
    using revoke(4) assms(3) by (auto simp: store_le_def bm_contains_get)
  then show ?thesis unfolding revoke(1) using store_le_events events_le_map by (simp add: store_le_events events_le_map)
next
  case (move d r n x)
  then show ?thesis by (simp add: store_le_update destination_le_def)
next
  case append
  then show ?thesis by (simp add: store_le_def)
next
  case (settle k x)
  then show ?thesis by (auto simp: store_le_def row_le_def intro!: events_le_map)
qed

section \<open>Well-formed tables\<close>

definition event_ok :: "(uuid, destination_row) bmap \<Rightarrow> note_event_row \<Rightarrow> bool" where
  "event_ok D r \<longleftrightarrow> (\<exists>w. bm_get D (er_destination r) = Some w \<and>
     (\<forall>n. er_payload r = Some n \<longrightarrow> dr_revoked w = None \<and> nt_event_id n = er_event_id r \<and>
        nt_expires_at_ms n = er_expires r \<and> nt_session_id n = nd_source_session_id (dr_payload w)))"

definition events_ok :: "(uuid, destination_row) bmap \<Rightarrow> note_event_row list \<Rightarrow> bool" where
  "events_ok D E \<longleftrightarrow> map er_sequence E = [1..<Suc (length E)] \<and> distinct (map event_key E) \<and> distinct (map source_key E) \<and>
     (\<forall>r \<in> set E. event_ok D r)"

definition destinations_ok :: "(uuid, destination_row) bmap \<Rightarrow> bool" where
  "destinations_ok D \<longleftrightarrow> bm_sorted D \<and> (\<forall>i r. bm_get D i = Some r \<longrightarrow> nd_id (dr_payload r) = i)"

text \<open>The lifetime bounds: nothing is ever removed.\<close>

definition payloads :: "(uuid, destination_row) bmap \<Rightarrow> destination list" where
  "payloads D = map dr_payload (bm_values D)"

definition destination_quotas :: "(uuid, destination_row) bmap \<Rightarrow> bool" where
  "destination_quotas D \<longleftrightarrow> length (payloads D) \<le> max_destinations \<and>
     (\<forall>g. length (filter (\<lambda>d. nd_recipient_grant_id d = g) (payloads D)) \<le> max_destinations_per_grant) \<and>
     (\<forall>i. length (filter (\<lambda>d. nd_source_session_id d = i) (payloads D)) \<le> max_destinations_per_source)"

definition event_quotas :: "note_event_row list \<Rightarrow> bool" where
  "event_quotas E \<longleftrightarrow> length E \<le> max_events \<and>
     (\<forall>d. length (filter (\<lambda>r. er_destination r = d) E) \<le> max_events_per_destination)"

text \<open>A revocation on record has happened.\<close>

definition note_commands_ok :: "(uuid, destination_row) bmap \<Rightarrow> (uuid, note_command) bmap \<Rightarrow> bool" where
  "note_commands_ok D C \<longleftrightarrow> bm_sorted C \<and> (\<forall>i c. bm_get C i = Some c \<longrightarrow> nc_operation c = 1 \<longrightarrow>
     (\<exists>w. bm_get D (nc_destination c) = Some w \<and> dr_revoked w \<noteq> None))"

definition note_wf :: "note_store \<Rightarrow> bool" where
  "note_wf s \<longleftrightarrow> note_commands_ok (ns_destinations s) (ns_commands s) \<and> destinations_ok (ns_destinations s) \<and> destination_quotas (ns_destinations s) \<and>
     events_ok (ns_destinations s) (ns_events s) \<and> event_quotas (ns_events s)"

lemma row_le_keys: "row_le a b \<Longrightarrow> event_key b = event_key a \<and> source_key b = source_key a \<and> er_sequence b = er_sequence a"
  by (simp add: row_le_def event_key_def source_key_def)

lemma event_ok_le: "event_ok D r \<Longrightarrow> row_le r r' \<Longrightarrow> event_ok D r'"
  by (auto simp: event_ok_def row_le_def)

lemma map_keys:
  assumes "\<And>r. row_le r (f r)"
  shows "map event_key (map f E) = map event_key E" "map source_key (map f E) = map source_key E"
    "map er_sequence (map f E) = map er_sequence E"
  using row_le_keys [OF assms] by simp_all

lemma events_ok_map: "events_ok D E \<Longrightarrow> (\<And>r. row_le r (f r)) \<Longrightarrow> events_ok D (map f E)"
  unfolding events_ok_def length_map using map_keys [of f E] event_ok_le by (simp only: set_map) blast

lemma event_quotas_map: "event_quotas E \<Longrightarrow> (\<And>r. row_le r (f r)) \<Longrightarrow> event_quotas (map f E)"
proof -
  assume "event_quotas E" and le: "\<And>r. row_le r (f r)"
  moreover have "er_destination (f r) = er_destination r" for r using le [of r] by (simp add: row_le_def)
  ultimately show ?thesis by (simp add: event_quotas_def filter_map o_def)
qed

lemma note_wf_map: "note_wf s \<Longrightarrow> (\<And>r. row_le r (f r)) \<Longrightarrow> note_wf (s\<lparr>ns_events := map f (ns_events s)\<rparr>)"
  by (simp add: note_wf_def events_ok_map event_quotas_map)

lemma payloads_update: "(\<And>r. dr_payload (f r) = dr_payload r) \<Longrightarrow> payloads (bm_update d f D) = payloads D"
  unfolding payloads_def bm_values_def by (induction d f D rule: bm_update.induct) auto

lemma length_filter_insert:
  "k \<notin> fst ` set m \<Longrightarrow>
   length (filter P (map f (bm_values (bm_insert k v m)))) = (if P (f v) then 1 else 0) + length (filter P (map f (bm_values m)))"
  unfolding bm_values_def by (induction k v m rule: bm_insert.induct) auto

lemma fresh_key: "bm_get m k = None \<longleftrightarrow> k \<notin> fst ` set m"
  by (simp add: bm_get_def map_of_eq_None_iff)

lemma destination_quotas_insert:
  assumes "destination_quotas D" "bm_get D k = None" "length (payloads D) < max_destinations"
    "length (filter (\<lambda>d. nd_recipient_grant_id d = nd_recipient_grant_id (dr_payload v)) (payloads D)) < max_destinations_per_grant"
    "length (filter (\<lambda>d. nd_source_session_id d = nd_source_session_id (dr_payload v)) (payloads D)) < max_destinations_per_source"
  shows "destination_quotas (bm_insert k v D)"
proof -
  have key: "k \<notin> fst ` set D" using assms(2) by (simp add: fresh_key)
  note count = length_filter_insert [OF key, where f = dr_payload and v = v]
  have "length (payloads (bm_insert k v D)) = length (payloads D) + 1"
    using count [of "\<lambda>_. True"] by (simp add: payloads_def)
  then show ?thesis
    unfolding destination_quotas_def
    using assms(1,3-5) count unfolding destination_quotas_def payloads_def by (auto simp: Suc_le_eq)
qed

lemma destinations_ok_update:
  "destinations_ok D \<Longrightarrow> (\<And>r. dr_payload (f r) = dr_payload r) \<Longrightarrow> destinations_ok (bm_update d f D)"
  unfolding destinations_ok_def bm_sorted_update bm_get_update by (auto split: if_splits)

lemma events_ok_destinations:
  assumes "events_ok D E" "\<And>r w. r \<in> set E \<Longrightarrow> bm_get D (er_destination r) = Some w \<Longrightarrow>
      \<exists>w'. bm_get D' (er_destination r) = Some w' \<and> dr_payload w' = dr_payload w \<and>
        (er_payload r \<noteq> None \<longrightarrow> dr_revoked w = None \<longrightarrow> dr_revoked w' = None)"
  shows "events_ok D' E"
proof -
  have "event_ok D' r" if "r \<in> set E" for r
  proof -
    have "event_ok D r" using assms(1) that by (simp add: events_ok_def)
    then obtain w where w: "bm_get D (er_destination r) = Some w" and
      n: "\<And>n. er_payload r = Some n \<Longrightarrow> dr_revoked w = None \<and> nt_event_id n = er_event_id r \<and>
        nt_expires_at_ms n = er_expires r \<and> nt_session_id n = nd_source_session_id (dr_payload w)"
      by (auto simp: event_ok_def)
    from assms(2) [OF that w] show ?thesis using n by (auto simp: event_ok_def)
  qed
  then show ?thesis using assms(1) by (simp add: events_ok_def)
qed

lemma next_sequence_ok: "map er_sequence (ns_events s) = [1..<Suc (length (ns_events s))] \<Longrightarrow> next_sequence s = Suc (length (ns_events s))"
proof -
  assume E: "map er_sequence (ns_events s) = [1..<Suc (length (ns_events s))]"
  show ?thesis
  proof (cases "ns_events s = []")
    case False
    then have "er_sequence (last (ns_events s)) = last (map er_sequence (ns_events s))" by (simp add: last_map)
    also have "\<dots> = length (ns_events s)" unfolding E using False by (cases "length (ns_events s)") simp_all
    finally show ?thesis using False by (simp add: next_sequence_def)
  qed (simp add: next_sequence_def)
qed

lemma note_commands_ok_update:
  assumes "note_commands_ok D C" "\<And>r. dr_revoked r \<noteq> None \<Longrightarrow> dr_revoked (f r) \<noteq> None"
  shows "note_commands_ok (bm_update d f D) C"
  using assms unfolding note_commands_ok_def by (auto; metis option.simps(9))

lemma note_commands_ok_insert:
  assumes "note_commands_ok D C" "nc_operation c = 1 \<Longrightarrow> \<exists>w. bm_get D (nc_destination c) = Some w \<and> dr_revoked w \<noteq> None"
  shows "note_commands_ok D (bm_insert i c C)"
proof -
  have sorted: "bm_sorted C" using assms(1) by (simp add: note_commands_ok_def)
  have "\<exists>w. bm_get D (nc_destination c') = Some w \<and> dr_revoked w \<noteq> None"
    if "bm_get (bm_insert i c C) j = Some c'" "nc_operation c' = 1" for j c'
    using that assms unfolding bm_get_insert [OF sorted] note_commands_ok_def by (cases "j = i") auto
  then show ?thesis using bm_sorted_insert [OF sorted] by (simp add: note_commands_ok_def)
qed

lemma note_wf_update:
  assumes "note_wf s" "\<And>r. dr_payload (f r) = dr_payload r" "\<And>r. dr_revoked r \<noteq> None \<Longrightarrow> dr_revoked (f r) \<noteq> None" "events_ok (bm_update d f (ns_destinations s)) E" "event_quotas E"
  shows "note_wf ((update_destination d f s)\<lparr>ns_events := E\<rparr>)"
proof -
  have "destinations_ok (bm_update d f (ns_destinations s))"
    by (rule destinations_ok_update) (use assms(1,2) in \<open>simp_all add: note_wf_def\<close>)
  moreover have "destination_quotas (bm_update d f (ns_destinations s))"
    using assms(1) unfolding note_wf_def destination_quotas_def payloads_update [OF assms(2)] by blast
  moreover have "note_commands_ok (bm_update d f (ns_destinations s)) (ns_commands s)"
    by (rule note_commands_ok_update) (use assms(1,3) in \<open>simp_all add: note_wf_def\<close>)
  ultimately show ?thesis using assms(1,4,5) by (simp add: note_wf_def)
qed

lemma same_events: "(update_destination d f s)\<lparr>ns_events := ns_events s\<rparr> = update_destination d f s"
  by (simp add: update_destination_def)

lemma note_write_wf:
  assumes "note_write e s t" "note_wf s"
  shows "note_wf t"
  using assms(1)
proof cases
  case (clock now)
  let ?s = "s\<lparr>ns_clock := max (ns_clock s) now\<rparr>"
  have "note_wf ?s" using assms(2) by (simp add: note_wf_def)
  then have "note_wf (?s\<lparr>ns_events := map (\<lambda>r. if event_over ?s r then drop_payload r else r) (ns_events ?s)\<rparr>)"
    by (rule note_wf_map) simp
  then show ?thesis using clock by (simp add: drop_over_def)
next
  case (admit d)
  let ?row = "\<lparr>dr_payload = d, dr_revoked = None, dr_accepted = None, dr_cursor = 0, dr_producer_error = None\<rparr>"
  let ?D = "bm_insert (nd_id d) ?row (ns_destinations s)"
  have sorted: "bm_sorted (ns_destinations s)" using assms(2) by (simp add: note_wf_def destinations_ok_def)
  have "destination_quotas ?D"
    by (rule destination_quotas_insert) (use assms(2) admit(2-5) in \<open>simp_all add: note_wf_def payloads_def filter_map o_def\<close>)
  moreover have "destinations_ok ?D"
    using assms(2) bm_sorted_insert [OF sorted] unfolding note_wf_def destinations_ok_def bm_get_insert [OF sorted]
    by (metis (no_types, lifting) destination_row.select_convs(1) option.inject)
  moreover have "events_ok ?D (ns_events s)"
    by (rule events_ok_destinations [of "ns_destinations s"])
      (use assms(2) admit(2) in \<open>auto simp: note_wf_def bm_get_insert [OF sorted]\<close>)
  moreover have "note_commands_ok ?D (ns_commands s)"
    using assms(2) admit(2) unfolding note_wf_def note_commands_ok_def bm_get_insert [OF sorted] by (metis option.distinct(1))
  ultimately show ?thesis using assms(2) admit(1) by (simp add: note_wf_def)
next
  case (command i c)
  then show ?thesis using assms(2) note_commands_ok_insert by (simp add: note_wf_def)
next
  case (accept d r now)
  have "events_ok (bm_update d (\<lambda>r. r\<lparr>dr_accepted := Some now\<rparr>) (ns_destinations s)) (ns_events s)"
    by (rule events_ok_destinations [of "ns_destinations s"]) (use assms(2) in \<open>auto simp: note_wf_def\<close>)
  then show ?thesis
    unfolding accept(1) by (subst same_events [symmetric], intro note_wf_update) (use assms(2) in \<open>simp_all add: note_wf_def\<close>)
next
  case (revoke d r i now)
  let ?E = "map (\<lambda>r. if er_destination r = d then drop_payload r else r) (ns_events s)"
  have E: "events_ok (ns_destinations s) ?E" "event_quotas ?E"
    using assms(2) by (simp_all add: note_wf_def events_ok_map event_quotas_map)
  have "events_ok (bm_update d (\<lambda>r. r\<lparr>dr_revoked := Some now\<rparr>) (ns_destinations s)) ?E"
  proof (rule events_ok_destinations [OF E(1)])
    fix x w
    assume x: "x \<in> set ?E" and w: "bm_get (ns_destinations s) (er_destination x) = Some w"
    from x obtain y where "x = (if er_destination y = d then drop_payload y else y)" unfolding set_map by (rule imageE)
    then have gone: "er_destination x = d \<Longrightarrow> er_payload x = None"
      by (cases "er_destination y = d") (simp_all add: drop_payload_def)
    show "\<exists>w'. bm_get (bm_update d (\<lambda>r. r\<lparr>dr_revoked := Some now\<rparr>) (ns_destinations s)) (er_destination x) = Some w' \<and>
        dr_payload w' = dr_payload w \<and> (er_payload x \<noteq> None \<longrightarrow> dr_revoked w = None \<longrightarrow> dr_revoked w' = None)"
      by (rule exI [of _ "if er_destination x = d then w\<lparr>dr_revoked := Some now\<rparr> else w"]) (use w gone in auto)
  qed
  then have "note_wf ((update_destination d (\<lambda>r. r\<lparr>dr_revoked := Some now\<rparr>) s)\<lparr>ns_events := ?E\<rparr>)"
    by (intro note_wf_update E(2) assms(2)) simp_all
  then show ?thesis unfolding revoke(1) using note_commands_ok_insert revoke(2) by (simp add: note_wf_def)
next
  case (move d r n x)
  have "events_ok (bm_update d (\<lambda>r. r\<lparr>dr_cursor := n, dr_producer_error := x\<rparr>) (ns_destinations s)) (ns_events s)"
    by (rule events_ok_destinations [of "ns_destinations s"]) (use assms(2) in \<open>auto simp: note_wf_def\<close>)
  then show ?thesis
    unfolding move(1) by (subst same_events [symmetric], intro note_wf_update) (use assms(2) in \<open>simp_all add: note_wf_def\<close>)
next
  case (append d r n)
  let ?row = "\<lparr>er_sequence = next_sequence s, er_destination = d, er_event_id = nt_event_id n,
       er_source_event_id = nt_source_event_id n, er_fingerprint = ne_digest e n, er_payload = Some n,
       er_expires = nt_expires_at_ms n, er_state = Available\<rparr>"
  have E: "events_ok (ns_destinations s) (ns_events s)" using assms(2) by (simp add: note_wf_def)
  have "event_ok (ns_destinations s) ?row" using append(2-4) by (simp add: event_ok_def)
  moreover have "next_sequence s = Suc (length (ns_events s))" by (rule next_sequence_ok) (use E in \<open>simp add: events_ok_def\<close>)
  moreover have "event_key ?row \<notin> event_key ` set (ns_events s)" "source_key ?row \<notin> source_key ` set (ns_events s)"
    using append(7,8) by (simp_all add: event_key_def source_key_def)
  ultimately have "events_ok (ns_destinations s) (ns_events s @ [?row])" using E by (simp add: events_ok_def)
  moreover have "event_quotas (ns_events s @ [?row])"
    using assms(2) append(5,6) by (auto simp: note_wf_def event_quotas_def)
  ultimately show ?thesis using assms(2) append(1) by (simp add: note_wf_def)
next
  case (settle k x)
  have "note_wf (s\<lparr>ns_events := map (\<lambda>r. if event_key r = k then r\<lparr>er_state := max (er_state r) x\<rparr> else r) (ns_events s)\<rparr>)"
    by (rule note_wf_map [OF assms(2)]) (simp add: row_le_def)
  then show ?thesis using settle by simp
qed

lemma note_writes_wf: "note_writes e s t \<Longrightarrow> note_wf s \<Longrightarrow> note_wf t"
  by (induction rule: rtranclp_induct) (auto intro: note_write_wf)

lemma note_writes_le: "note_writes e s t \<Longrightarrow> note_wf s \<Longrightarrow> store_le s t"
proof (induction rule: rtranclp_induct)
  case (step t u)
  have "note_wf t" by (rule note_writes_wf [OF step.hyps(1) step.prems])
  then have "store_le t u" by (intro note_write_le [OF step.hyps(2)]) (simp_all add: note_wf_def destinations_ok_def note_commands_ok_def)
  with step show ?case by (auto intro: store_le_trans)
qed simp

section \<open>Operations as sequences of changes\<close>

lemma begin_writes: "begin_note ok now strict s = Inr t \<Longrightarrow> note_writes e s t"
  by (auto simp: begin_note_def and_then_Inr intro!: r_into_rtranclp note_write.clock split: if_splits)

lemma command_write: "insert_note_command i d n a s = Inr t \<Longrightarrow> n \<noteq> 1 \<Longrightarrow> note_write e s t"
  by (auto simp: insert_note_command_def intro: note_write.command split: if_splits)

lemma insert_event_write:
  assumes "insert_event e d n now s = Inr (x, t)"
  shows "note_write e s t"
proof -
  from assms obtain r where "active_destination s d now = Inr r" "validate_notification (nr_destination r) n now = Inr ()"
    and rest: "length (ns_events s) < max_events" "length (filter (\<lambda>r. er_destination r = d) (ns_events s)) < max_events_per_destination"
      "(d, nt_event_id n) \<notin> event_key ` set (ns_events s)" "(d, nt_source_event_id n) \<notin> source_key ` set (ns_events s)"
      "t = s\<lparr>ns_events := ns_events s @ [\<lparr>er_sequence = next_sequence s, er_destination = d, er_event_id = nt_event_id n,
       er_source_event_id = nt_source_event_id n, er_fingerprint = ne_digest e n, er_payload = Some n,
       er_expires = nt_expires_at_ms n, er_state = Available\<rparr>]\<rparr>"
    by (auto simp: insert_event_def and_then_Inr Let_def split: if_splits)
  moreover from this(1,2) obtain w where "bm_get (ns_destinations s) d = Some w" "dr_revoked w = None"
      "nt_session_id n = nd_source_session_id (dr_payload w)"
    by (auto simp: active_destination_def and_then_Inr load_destination_def decode_destination_def record_active_def
        validate_notification_def split: if_splits)
  ultimately show ?thesis using note_write.append [of s d w n e] by simp
qed

lemma writes_step: "note_writes e s t \<Longrightarrow> note_write e t u \<Longrightarrow> note_writes e s u"
  by (rule rtranclp.rtrancl_into_rtrancl)

lemma configure_writes:
  assumes "configure e ok cmd d now s = Inr (x, t)"
  shows "note_writes e s t"
proof -
  from assms obtain u where u: "begin_note ok now False s = Inr u"
    by (auto simp: configure_def and_then_Inr split: if_splits)
  note E = assms [unfolded configure_def u and_then_simps]
  show ?thesis
  proof (cases "lookup_note_command u cmd")
    case None
    let ?u = "u\<lparr>ns_destinations := bm_insert (nd_id d)
      \<lparr>dr_payload = d, dr_revoked = None, dr_accepted = None, dr_cursor = 0, dr_producer_error = None\<rparr> (ns_destinations u)\<rparr>"
    from E None have "load_destination u (nd_id d) = None" "insert_note_command cmd (nd_id d) 0 None ?u = Inr t" and
      quota: "length (bm_values (ns_destinations u)) < max_destinations"
      "length (filter (\<lambda>r. nd_recipient_grant_id (dr_payload r) = nd_recipient_grant_id d) (bm_values (ns_destinations u)))
         < max_destinations_per_grant"
      "length (filter (\<lambda>r. nd_source_session_id (dr_payload r) = nd_source_session_id d) (bm_values (ns_destinations u)))
         < max_destinations_per_source"
      by (auto simp: and_then_Inr Let_def split: if_splits)
    then have "note_write e u ?u" "note_write e ?u t"
      using note_write.admit [of u d e] command_write by (simp_all add: load_destination_def)
    then show ?thesis using begin_writes [OF u] writes_step by blast
  next
    case (Some p)
    then have "t = u" using E by (auto simp: and_then_Inr split: prod.splits if_splits)
    then show ?thesis using begin_writes [OF u] by simp
  qed
qed

lemma accept_writes:
  assumes "accept_destination ok cmd d now s = Inr (x, t)"
  shows "note_writes e s t"
proof -
  from assms obtain u where u: "begin_note ok now False s = Inr u"
    by (auto simp: accept_destination_def and_then_Inr split: if_splits)
  note E = assms [unfolded accept_destination_def u and_then_simps]
  show ?thesis
  proof (cases "lookup_note_command u cmd")
    case None
    from E None obtain r v where r: "load_destination u d = Some r" "nr_accepted_at_ms r = None"
        "insert_note_command cmd d 2 None u = Inr v" "t = update_destination d (\<lambda>r. r\<lparr>dr_accepted := Some now\<rparr>) v"
      by (auto simp: and_then_Inr split: if_splits)
    obtain w where w: "bm_get (ns_destinations v) d = Some w" "dr_accepted w = None"
      using r(1-3) by (auto simp: load_destination_def decode_destination_def insert_note_command_def split: if_splits)
    have "note_write e v t" unfolding r(4) by (rule note_write.accept [OF w])
    then show ?thesis using begin_writes [OF u] command_write [OF r(3)] writes_step by simp blast
  next
    case (Some p)
    then have "t = u" using E by (auto simp: and_then_Inr split: prod.splits if_splits)
    then show ?thesis using begin_writes [OF u] by simp
  qed
qed

lemma revoke_writes:
  assumes "revoke_destination ok cmd d now s = Inr (x, t)"
  shows "note_writes e s t"
proof -
  from assms obtain u where u: "begin_note ok now False s = Inr u"
    by (auto simp: revoke_destination_def and_then_Inr split: if_splits)
  note E = assms [unfolded revoke_destination_def u and_then_simps]
  show ?thesis
  proof (cases "lookup_note_command u cmd")
    case None
    from E None obtain r v where r: "load_destination u d = Some r" "nr_revoked_at_ms r = None"
        "insert_note_command cmd d 1 None u = Inr v"
        "t = (update_destination d (\<lambda>r. r\<lparr>dr_revoked := Some (ns_clock v)\<rparr>) v)\<lparr>ns_events :=
          map (\<lambda>r. if er_destination r = d then drop_payload r else r) (ns_events v)\<rparr>"
      by (auto simp: and_then_Inr Let_def split: if_splits)
    obtain w where w: "bm_get (ns_destinations v) d = Some w" "dr_revoked w = None"
      using r(1-3) by (auto simp: load_destination_def decode_destination_def insert_note_command_def split: if_splits)
    have v: "v = u\<lparr>ns_commands := bm_insert cmd \<lparr>nc_destination = d, nc_operation = 1, nc_argument = None\<rparr> (ns_commands u)\<rparr>"
      "\<not> bm_contains (ns_commands u) cmd"
      using r(3) by (auto simp: insert_note_command_def split: if_splits)
    have "t = (update_destination d (\<lambda>r. r\<lparr>dr_revoked := Some (ns_clock v)\<rparr>) u)\<lparr>
      ns_commands := bm_insert cmd \<lparr>nc_destination = d, nc_operation = 1, nc_argument = None\<rparr> (ns_commands u),
      ns_events := map (\<lambda>r. if er_destination r = d then drop_payload r else r) (ns_events u)\<rparr>"
      unfolding r(4) v(1) by (cases u) (simp add: update_destination_def)
    then have "note_write e u t" using note_write.revoke [of u d w cmd e "ns_clock v"] w v by simp
    then show ?thesis by (rule writes_step [OF begin_writes [OF u]])
  next
    case (Some p)
    then have "t = u" using E by (auto split: prod.splits if_splits)
    then show ?thesis using begin_writes [OF u] by simp
  qed
qed

lemma bm_update_same: "bm_get m k = Some v \<Longrightarrow> f v = g v \<Longrightarrow> bm_update k f m = bm_update k g m"
  by (induction k f m rule: bm_update.induct) (auto simp: bm_get_def split: if_splits)

lemma advance_writes:
  assumes "advance_cursor d after error s = Inr (x, t)"
  shows "note_writes e s t"
proof -
  from assms obtain w where w: "bm_get (ns_destinations s) d = Some w"
    by (auto simp: advance_cursor_def load_cursor_def and_then_Inr)
  have "t = (case error of
        Some x \<Rightarrow> update_destination d (\<lambda>r. r\<lparr>dr_producer_error := Some x\<rparr>) s
      | None \<Rightarrow> if dr_cursor w \<le> after then update_destination d (\<lambda>r. r\<lparr>dr_cursor := after, dr_producer_error := None\<rparr>) s else s)"
    using assms w by (auto simp: advance_cursor_def load_cursor_def and_then_Inr Let_def)
  moreover have same: "update_destination d (\<lambda>r. r\<lparr>dr_producer_error := Some x\<rparr>) s =
      update_destination d (\<lambda>r. r\<lparr>dr_cursor := dr_cursor w, dr_producer_error := Some x\<rparr>) s" for x
  proof -
    have "bm_update d (\<lambda>r. r\<lparr>dr_producer_error := Some x\<rparr>) (ns_destinations s) =
        bm_update d (\<lambda>r. r\<lparr>dr_cursor := dr_cursor w, dr_producer_error := Some x\<rparr>) (ns_destinations s)"
      by (rule bm_update_same [OF w]) simp
    then show ?thesis by (simp only: update_destination_def)
  qed
  note t = calculation this
  have "t = s \<or> note_write e s t"
  proof (cases error)
    case None
    then show ?thesis using t(1) note_write.move [OF w, of after e None] by (cases "dr_cursor w \<le> after") simp_all
  next
    case (Some x)
    then have "t = update_destination d (\<lambda>r. r\<lparr>dr_cursor := dr_cursor w, dr_producer_error := Some x\<rparr>) s"
      using t(1) by (simp only: option.case t(2))
    then show ?thesis using note_write.move [OF w order.refl, of e "Some x"] by blast
  qed
  then show ?thesis by blast
qed

lemma publish_writes:
  assumes "publish_note e ok d n now s = Inr (x, t)"
  shows "note_writes e s t"
proof -
  from assms obtain u where u: "begin_note ok now False s = Inr u" by (auto simp: publish_note_def and_then_Inr)
  have "u = t \<or> note_write e u t"
    using assms insert_event_write by (auto simp: publish_note_def and_then_Inr u split: option.splits if_splits)
  then show ?thesis using begin_writes [OF u] writes_step by blast
qed

lemma test_writes:
  assumes "test_note e ok cmd d incarnation now s = Inr (x, t)"
  shows "note_writes e s t"
proof -
  from assms obtain u where u: "begin_note ok now False s = Inr u"
    by (auto simp: test_note_def and_then_Inr split: if_splits)
  note E = assms [unfolded test_note_def u and_then_simps]
  show ?thesis
  proof (cases "lookup_note_command u cmd")
    case None
    then obtain y v n where "insert_event e d n now u = Inr (y, v)" "insert_note_command cmd d 3 (Some incarnation) v = Inr t"
      using E by (auto simp: and_then_Inr split: prod.splits if_splits)
    then show ?thesis
      by (intro writes_step [OF writes_step [OF begin_writes [OF u]]]) (erule insert_event_write, erule command_write, simp)
  next
    case (Some p)
    then have "t = u" using E by (auto simp: and_then_Inr split: prod.splits if_splits)
    then show ?thesis using begin_writes [OF u] by simp
  qed
qed

lemma receive_writes:
  assumes "receive ok d i state now s = Inr (x, t)"
  shows "note_writes e s t"
proof -
  from assms obtain u where u: "begin_note ok now False s = Inr u" "t = u\<lparr>ns_events :=
      map (\<lambda>r. if event_key r = (d, i) then r\<lparr>er_state := max (er_state r) state\<rparr> else r) (ns_events u)\<rparr>"
    by (auto simp: receive_def and_then_Inr Let_def split: if_splits)
  show ?thesis unfolding u(2) by (rule writes_step [OF begin_writes [OF u(1)] note_write.settle])
qed

lemma read_writes:
  "attention_count ok d now s = Inr (n, t) \<Longrightarrow> note_writes e s t"
  "inbox ok d after limit now s = Inr (p, t) \<Longrightarrow> note_writes e s t"
  "get_note ok d i now s = Inr (x, t) \<Longrightarrow> note_writes e s t"
  using begin_writes
  by (auto simp: attention_count_def inbox_def get_note_def and_then_Inr Let_def split: if_splits option.splits)

end
