(* ===== verification/Notification_Safety.thy ===== *)
theory Notification_Safety
  imports Notification_Writes
begin

text \<open>
  The contract of the store of notifications over any sequence of its operations: quotas, exactly one acceptance of
  every published event, receipts that only advance, and what an inbox may show.
\<close>

section \<open>Sequences of operations\<close>

text \<open>An operation that fails leaves the tables, so only successes are steps.\<close>

inductive note_step :: "note_env \<Rightarrow> note_store \<Rightarrow> note_store \<Rightarrow> bool" for e where
  configures: "note_step e s t" if "configure e ok cmd d now s = Inr (r, t)"
| accepts: "note_step e s t" if "accept_destination ok cmd i now s = Inr (r, t)"
| revokes: "note_step e s t" if "revoke_destination ok cmd i now s = Inr (u, t)"
| advances: "note_step e s t" if "advance_cursor i after error s = Inr (c, t)"
| publishes: "note_step e s t" if "publish_note e ok i n now s = Inr (x, t)"
| tests: "note_step e s t" if "test_note e ok cmd i incarnation now s = Inr (x, t)"
| receives: "note_step e s t" if "receive ok i event state now s = Inr (x, t)"
| counts: "note_step e s t" if "attention_count ok i now s = Inr (k, t)"
| lists: "note_step e s t" if "inbox ok i after limit now s = Inr (p, t)"
| gets: "note_step e s t" if "get_note ok i event now s = Inr (y, t)"

abbreviation note_steps :: "note_env \<Rightarrow> note_store \<Rightarrow> note_store \<Rightarrow> bool" where
  "note_steps e \<equiv> (note_step e)\<^sup>*\<^sup>*"

lemma note_step_writes: "note_step e s t \<Longrightarrow> note_writes e s t"
  by (induction rule: note_step.induct)
    (erule configure_writes accept_writes revoke_writes advance_writes publish_writes test_writes receive_writes read_writes)+

text \<open>The tables only grow: this is what the store promises of any sequence of operations.\<close>

interpretation note_log: simulation "note_step e" note_wf id store_le for e
  by unfold_locales (auto intro: note_writes_wf note_writes_le note_step_writes)

lemma note_steps_wf: "note_steps e s t \<Longrightarrow> note_wf s \<Longrightarrow> note_wf t"
  by (rule note_log.run_wf)

lemma note_steps_le: "note_steps e s t \<Longrightarrow> note_wf s \<Longrightarrow> store_le s t"
  using note_log.run_preserves [of e s t store_le] by (auto intro: store_le_trans)

lemma empty_note_store_wf: "note_wf empty_note_store"
  by (simp add: note_wf_def note_commands_ok_def empty_note_store_def destinations_ok_def destination_quotas_def payloads_def bm_values_def events_ok_def
      event_quotas_def)

section \<open>Events and their receipts\<close>

lemma find_key: "inj_on k (set xs) \<Longrightarrow> find (\<lambda>r. k r = c) xs = Some r \<longleftrightarrow> r \<in> set xs \<and> k r = c"
proof (induction xs)
  case (Cons x xs)
  then have "find (\<lambda>r. k r = c) xs = Some r \<longleftrightarrow> r \<in> set xs \<and> k r = c" by (simp add: inj_on_insert)
  moreover have "k x = k r \<Longrightarrow> r \<in> set xs \<Longrightarrow> r = x" using Cons.prems by (simp add: inj_on_def)
  ultimately show ?case by auto
qed simp

lemma find_event_iff:
  assumes "note_wf s"
  shows "find_event s d i = Some r \<longleftrightarrow> r \<in> set (ns_events s) \<and> er_destination r = d \<and> er_event_id r = i"
proof -
  have "inj_on event_key (set (ns_events s))" using assms by (simp add: note_wf_def events_ok_def distinct_map)
  from find_key [OF this, of "(d, i)" r] show ?thesis unfolding find_event_def by (simp add: event_key_def)
qed

lemma event_kept:
  assumes "store_le s t" "note_wf s" "note_wf t" "find_event s d i = Some r"
  obtains r' where "find_event t d i = Some r'" "row_le r r'"
proof -
  have r: "r \<in> set (ns_events s)" "er_destination r = d" "er_event_id r = i" using find_event_iff [OF assms(2)] assms(4) by auto
  then obtain k where k: "k < length (ns_events s)" "ns_events s ! k = r" by (auto simp: in_set_conv_nth)
  have "k < length (ns_events t)" "row_le r (ns_events t ! k)"
    using assms(1) k unfolding store_le_def events_le_nth by auto
  moreover from this have "find_event t d i = Some (ns_events t ! k)"
    using find_event_iff [OF assms(3)] r by (simp add: row_le_def)
  ultimately show thesis using that by blast
qed

text \<open>The beginning of a transaction keeps the rows but for their payloads.\<close>

lemma begin_le: "begin_note ok now strict s = Inr t \<Longrightarrow> note_wf s \<Longrightarrow> store_le s t \<and> note_wf t"
  using begin_writes note_writes_le note_writes_wf by blast

lemma begin_ok: "ok \<Longrightarrow> now \<le> 9223372036854775807 \<Longrightarrow> begin_note ok now False s = Inr (drop_over (s\<lparr>ns_clock := max (ns_clock s) now\<rparr>))"
  by (simp add: begin_note_def sql_integer_def)

lemma begin_length: "begin_note ok now strict s = Inr t \<Longrightarrow> length (ns_events t) = length (ns_events s)"
  by (auto simp: begin_note_def and_then_Inr drop_over_def split: if_splits)

lemma inserted:
  assumes "insert_event e d n now s = Inr (x, t)"
  shows "\<exists>r. t = s\<lparr>ns_events := ns_events s @ [r]\<rparr> \<and> x = receipt_of r \<and> er_destination r = d \<and> er_event_id r = nt_event_id n \<and>
    er_fingerprint r = ne_digest e n"
  using assms
  by (intro exI [of _ "\<lparr>er_sequence = next_sequence s, er_destination = d, er_event_id = nt_event_id n,
       er_source_event_id = nt_source_event_id n, er_fingerprint = ne_digest e n, er_payload = Some n,
       er_expires = nt_expires_at_ms n, er_state = Available\<rparr>"])
    (auto simp: insert_event_def and_then_Inr Let_def split: if_splits)

lemma published:
  assumes "publish_note e ok d n now s = Inr (x, t)" "note_wf s"
  obtains r where "find_event t d (nt_event_id n) = Some r" "x = receipt_of r" "er_fingerprint r = ne_digest e n"
proof -
  from assms(1) obtain u where u: "begin_note ok now False s = Inr u" by (auto simp: publish_note_def and_then_Inr)
  have wf: "note_wf t" using publish_writes [OF assms(1)] assms(2) note_writes_wf by blast
  show thesis
  proof (cases "find_event u d (nt_event_id n)")
    case (Some r)
    then show thesis using assms(1) u that by (auto simp: publish_note_def and_then_Inr split: if_splits)
  next
    case None
    then have "insert_event e d n now u = Inr (x, t)" using assms(1) u by (auto simp: publish_note_def and_then_Inr)
    from inserted [OF this] obtain r where r: "t = u\<lparr>ns_events := ns_events u @ [r]\<rparr>" "x = receipt_of r" "er_destination r = d"
      "er_event_id r = nt_event_id n" "er_fingerprint r = ne_digest e n" by blast
    have "find_event t d (nt_event_id n) = Some r" unfolding find_event_iff [OF wf] using r by simp
    with r(2,5) show thesis using that by blast
  qed
qed

section \<open>Disclosure\<close>

definition revoked_in :: "uuid \<Rightarrow> note_store \<Rightarrow> bool" where
  "revoked_in d s \<longleftrightarrow> (\<exists>w. bm_get (ns_destinations s) d = Some w \<and> dr_revoked w \<noteq> None)"

lemma revoked_in_le: "store_le s t \<Longrightarrow> revoked_in d s \<Longrightarrow> revoked_in d t"
  unfolding store_le_def revoked_in_def destination_le_def by metis

lemma revoked_inactive: "revoked_in d s \<Longrightarrow> \<not> destination_active s d now"
  by (auto simp: revoked_in_def destination_active_def load_destination_def decode_destination_def record_active_def)

lemma revoke_effect:
  assumes "revoke_destination ok cmd d now s = Inr (x, t)" "note_wf s"
  shows "revoked_in d t"
proof -
  from assms(1) obtain u where u: "begin_note ok now False s = Inr u"
    by (auto simp: revoke_destination_def and_then_Inr split: if_splits)
  note E = assms(1) [unfolded revoke_destination_def u and_then_simps]
  show ?thesis
  proof (cases "lookup_note_command u cmd")
    case None
    from E None obtain r v where r: "load_destination u d = Some r" "insert_note_command cmd d 1 None u = Inr v"
        "t = (update_destination d (\<lambda>r. r\<lparr>dr_revoked := Some (ns_clock v)\<rparr>) v)\<lparr>ns_events :=
          map (\<lambda>r. if er_destination r = d then drop_payload r else r) (ns_events v)\<rparr>"
      by (auto simp: and_then_Inr Let_def split: if_splits)
    then show ?thesis by (auto simp: revoked_in_def load_destination_def insert_note_command_def split: if_splits)
  next
    case (Some p)
    then obtain c where "bm_get (ns_commands u) cmd = Some c" "p = (nc_destination c, nc_operation c)"
      by (auto simp: lookup_note_command_def)
    moreover have "t = u" "p = (d, 1)" using E Some by (auto split: prod.splits if_splits)
    moreover have "note_commands_ok (ns_destinations u) (ns_commands u)" using begin_le [OF u assms(2)] by (simp add: note_wf_def)
    ultimately show ?thesis by (auto simp: note_commands_ok_def revoked_in_def)
  qed
qed

lemma check_clock_ok: "check_clock s now = Inr () \<Longrightarrow> ns_clock s \<le> now"
  by (auto simp: check_clock_def and_then_Inr split: if_splits)

lemma collect_entries:
  "collect_results decode_entry rs = Inr xs \<Longrightarrow> x \<in> set xs \<Longrightarrow> \<exists>r \<in> set rs. decode_entry r = Inr x"
  unfolding collect_results_Inr by (induction rule: list_all2_induct) auto

lemma decode_entry_row: "decode_entry r = Inr x \<Longrightarrow> er_payload r = Some (ie_notification x) \<and> ie_receipt x = receipt_of r"
  by (auto simp: decode_entry_def split: option.splits if_splits)

lemma inbox_entry:
  assumes "inbox ok d after limit now s = Inr (p, t)" "x \<in> set (ip_entries p)"
  obtains u r where "begin_note ok now True s = Inr u" "destination_active u d now" "r \<in> set (ns_events u)" "visible d now r"
    "after < er_sequence r" "decode_entry r = Inr x" "ns_clock s \<le> now"
proof -
  from assms(1) obtain u where u: "begin_note ok now True s = Inr u"
    by (auto simp: inbox_def and_then_Inr split: if_splits)
  have clock: "ns_clock s \<le> now" using u check_clock_ok by (auto simp: begin_note_def and_then_Inr split: if_splits)
  from assms u obtain xs where "destination_active u d now" and
    xs: "collect_results decode_entry (take (limit + 1) (filter (\<lambda>r. visible d now r \<and> after < er_sequence r) (ns_events u))) = Inr xs"
    and "x \<in> set (take limit xs)"
    by (auto simp: inbox_def and_then_Inr Let_def split: if_splits)
  moreover from this obtain r where "r \<in> set (take (limit + 1) (filter (\<lambda>r. visible d now r \<and> after < er_sequence r) (ns_events u)))"
      "decode_entry r = Inr x"
    using collect_entries [OF xs] set_take_subset by fastforce
  ultimately show thesis using that [OF u] clock set_take_subset by fastforce
qed

section \<open>A store to try it on\<close>

definition sample_note_env :: note_env where
  "sample_note_env = \<lparr>ne_destination_size = (\<lambda>_. 400), ne_size = (\<lambda>_. 300), ne_digest = (\<lambda>n. [nt_created_at_ms n])\<rparr>"

definition sample_destination :: destination where
  "sample_destination = \<lparr>nd_id = 1, nd_recipient_grant_id = 2, nd_recipient_principal_id = 3, nd_recipient_grant_revision = 1,
     nd_source_vessel_id = 4, nd_source_session_id = 5, nd_event_kinds = [Note_Completed], nd_expires_at_ms = 100000,
     nd_notification_ttl_ms = 50000, nd_quiet_hours_utc = None\<rparr>"

definition sample_note :: notification where
  "sample_note = \<lparr>nt_event_id = 6, nt_session_id = 5, nt_run_id = None, nt_incarnation = None, nt_kind = Note_Completed,
     nt_source_event_id = 7, nt_created_at_ms = 1000, nt_expires_at_ms = 20000, nt_decision_id = None, nt_budget = None\<rparr>"

text \<open>After the destination was configured and accepted; with an event; and with the destination revoked.\<close>

definition sample_accepted :: note_store where
  "sample_accepted = \<lparr>ns_clock = 1000, ns_destinations = [(1, \<lparr>dr_payload = sample_destination, dr_revoked = None,
     dr_accepted = Some 1000, dr_cursor = 0, dr_producer_error = None\<rparr>)],
     ns_commands = [(8, \<lparr>nc_destination = 1, nc_operation = 0, nc_argument = None\<rparr>),
       (9, \<lparr>nc_destination = 1, nc_operation = 2, nc_argument = None\<rparr>)], ns_events = []\<rparr>"

definition sample_row :: note_event_row where
  "sample_row = \<lparr>er_sequence = 1, er_destination = 1, er_event_id = 6, er_source_event_id = 7, er_fingerprint = [1000],
     er_payload = Some sample_note, er_expires = 20000, er_state = Available\<rparr>"

definition sample_published :: note_store where
  "sample_published = sample_accepted\<lparr>ns_clock := 1500, ns_events := [sample_row]\<rparr>"

lemmas evaluate_notes = and_then_def ok_or_def is_nil_def begin_note_def sql_integer_def drop_over_def event_over_def row_over_def
  lookup_note_command_def bm_get_def bm_contains_def bm_values_def insert_note_command_def load_destination_def decode_destination_def
  check_clock_def encoded_def max_record_bytes_def validate_destination_def max_destination_lifetime_ms_def max_notification_ttl_ms_def
  max_destinations_def max_destinations_per_grant_def max_destinations_per_source_def max_events_def max_events_per_destination_def
  update_destination_def Let_def record_active_def active_destination_def validate_notification_def not_nil_def insert_event_def
  next_sequence_def receipt_of_def find_event_def event_key_def source_key_def sample_note_env_def sample_destination_def sample_note_def
  sample_row_def

lemma sample_configured:
  "configure sample_note_env True 8 sample_destination 1000 empty_note_store = Inr
     (\<lparr>nr_destination = sample_destination, nr_revoked_at_ms = None, nr_accepted_at_ms = None\<rparr>, sample_accepted\<lparr>
       ns_destinations := [(1, \<lparr>dr_payload = sample_destination, dr_revoked = None, dr_accepted = None, dr_cursor = 0,
         dr_producer_error = None\<rparr>)], ns_commands := [(8, \<lparr>nc_destination = 1, nc_operation = 0, nc_argument = None\<rparr>)]\<rparr>)"
  by (simp add: configure_def empty_note_store_def sample_accepted_def evaluate_notes)

lemma sample_accepts:
  "accept_destination True 9 1 1000 (sample_accepted\<lparr>
       ns_destinations := [(1, \<lparr>dr_payload = sample_destination, dr_revoked = None, dr_accepted = None, dr_cursor = 0,
         dr_producer_error = None\<rparr>)], ns_commands := [(8, \<lparr>nc_destination = 1, nc_operation = 0, nc_argument = None\<rparr>)]\<rparr>) =
   Inr (\<lparr>nr_destination = sample_destination, nr_revoked_at_ms = None, nr_accepted_at_ms = Some 1000\<rparr>, sample_accepted)"
  by (simp add: accept_destination_def sample_accepted_def evaluate_notes)

lemma sample_publishes: "publish_note sample_note_env True 1 sample_note 1500 sample_accepted = Inr (receipt_of sample_row, sample_published)"
  by (simp add: publish_note_def sample_accepted_def sample_published_def evaluate_notes)

lemma sample_accepted_steps: "note_steps sample_note_env empty_note_store sample_accepted"
  by (rule converse_rtranclp_into_rtranclp [where r = "note_step sample_note_env", OF note_step.configures [OF sample_configured]], rule r_into_rtranclp,
      rule note_step.accepts [OF sample_accepts])

lemma sample_steps: "note_steps sample_note_env empty_note_store sample_published"
  by (rule rtranclp.rtrancl_into_rtrancl [OF sample_accepted_steps], rule note_step.publishes [OF sample_publishes])

lemma sample_wf: "note_wf sample_accepted" "note_wf sample_published"
  using note_steps_wf [OF sample_accepted_steps empty_note_store_wf] note_steps_wf [OF sample_steps empty_note_store_wf] by simp_all

section \<open>Properties\<close>

text \<open>
  C4. Whatever operations a new store has been through, its lifetime quotas hold and its events are numbered without gaps:
  at most 256 destinations, 32 of each recipient and of each source, 16384 events, 1024 of each destination, and no two
  events of a destination share an identifier or a source event.
\<close>

theorem notification_quotas:
  assumes "note_steps e empty_note_store s"
  shows "length (bm_values (ns_destinations s)) \<le> 256 \<and> length (ns_events s) \<le> 16384 \<and>
    length (filter (\<lambda>r. er_destination r = d) (ns_events s)) \<le> 1024 \<and>
    length (filter (\<lambda>r. nd_recipient_grant_id (dr_payload r) = g) (bm_values (ns_destinations s))) \<le> 32 \<and>
    length (filter (\<lambda>r. nd_source_session_id (dr_payload r) = i) (bm_values (ns_destinations s))) \<le> 32 \<and>
    map er_sequence (ns_events s) = [1..<Suc (length (ns_events s))] \<and>
    distinct (map event_key (ns_events s)) \<and> distinct (map source_key (ns_events s))"
proof -
  have "note_wf s" by (rule note_steps_wf [OF assms empty_note_store_wf])
  then have "destination_quotas (ns_destinations s)" "event_quotas (ns_events s)" "events_ok (ns_destinations s) (ns_events s)"
    by (simp_all only: note_wf_def)
  then show ?thesis
    unfolding destination_quotas_def event_quotas_def events_ok_def payloads_def max_destinations_def max_events_def
      max_events_per_destination_def max_destinations_per_grant_def max_destinations_per_source_def filter_map o_def length_map
    by blast
qed

theorem notification_quotas_witness: "length (filter (\<lambda>r. er_destination r = 1) (ns_events sample_published)) \<le> 1024"
  using notification_quotas [OF sample_steps, of 1] by blast

text \<open>
  C1. An event that was accepted is accepted once: a retry of its publication succeeds as long as recipient and source
  are authorised, also after the event has expired, the destination was revoked or the quotas are used up; it returns the
  sequence of the first acceptance and a receipt that is not older, and adds no event.
\<close>

theorem publish_retry_is_exact:
  assumes "note_wf s" "publish_note e ok d n now s = Inr (x, t)" "note_steps e t u" "now' \<le> 9223372036854775807"
  shows "\<exists>y v. publish_note e True d n now' u = Inr (y, v) \<and> rc_sequence y = rc_sequence x \<and> rc_event_id y = rc_event_id x \<and>
     rc_state x \<le> rc_state y \<and> length (ns_events v) = length (ns_events u)"
proof -
  from published [OF assms(2,1)] obtain r where r: "find_event t d (nt_event_id n) = Some r" "x = receipt_of r"
    "er_fingerprint r = ne_digest e n" .
  have t: "note_wf t" using publish_writes [OF assms(2)] assms(1) note_writes_wf by blast
  have u: "note_wf u" "store_le t u" using note_steps_wf [OF assms(3) t] note_steps_le [OF assms(3) t] by simp_all
  from begin_ok [OF TrueI assms(4)] obtain v where v: "begin_note True now' False u = Inr v" by blast
  note v' = begin_le [OF v u(1)]
  from event_kept [OF store_le_trans [OF u(2)] t _ r(1), of v] v' obtain r' where
    r': "find_event v d (nt_event_id n) = Some r'" "row_le r r'" by blast
  have "encoded (ne_size e n) = Inr ()" using assms(2) by (auto simp: publish_note_def and_then_Inr)
  then have "publish_note e True d n now' u = Inr (receipt_of r', v)"
    using v r' r(3) by (simp add: publish_note_def row_le_def)
  then show ?thesis using r(2) r'(2) begin_length [OF v] by (auto simp: receipt_of_def row_le_def)
qed

theorem publish_retry_is_exact_witness:
  "\<exists>y v. publish_note sample_note_env True 1 sample_note 30000 sample_published = Inr (y, v) \<and> rc_sequence y = 1 \<and>
     length (ns_events v) = 1"
proof -
  from publish_retry_is_exact [OF sample_wf(1) sample_publishes rtranclp.rtrancl_refl, of 30000]
  show ?thesis by (auto simp: receipt_of_def sample_row_def sample_published_def)
qed

text \<open>
  C3. A destination whose revocation succeeded, also as a retry of an earlier one, shows nothing any more: after any
  further operations its inbox is empty, no event of it can be opened, and none asks for attention.
\<close>

theorem revoked_destination_is_silent:
  assumes "note_wf s" "revoke_destination ok cmd d now s = Inr (x, t)" "note_steps e t u"
  shows "on_ok (inbox ok' d after limit now' u) (\<lambda>(p, _). ip_entries p = []) \<and>
    on_ok (get_note ok' d i now' u) (\<lambda>(y, _). y = None) \<and> on_ok (attention_count ok' d now' u) (\<lambda>(k, _). k = 0)"
proof -
  have "note_wf t" using revoke_writes [OF assms(2)] assms(1) note_writes_wf by blast
  then have u: "note_wf u" "revoked_in d u"
    using note_steps_wf [OF assms(3)] revoked_in_le [OF note_steps_le [OF assms(3)] revoke_effect [OF assms(2,1)]] by blast+
  have closed: "\<not> destination_active v d now'" if "begin_note ok' now' True u = Inr v" for v
    using begin_le [OF that u(1)] u(2) revoked_in_le revoked_inactive by blast
  then show ?thesis
    by (auto intro!: on_okI simp: inbox_def get_note_def attention_count_def and_then_Inr split: if_splits)
qed

theorem revoked_destination_is_silent_witness:
  "on_ok (inbox True 1 0 10 3000 (snd (projr (revoke_destination True 10 1 2000 sample_published)))) (\<lambda>(p, _). ip_entries p = [])"
proof -
  have "is_ok (revoke_destination True 10 1 2000 sample_published)"
    by (simp add: revoke_destination_def sample_published_def sample_accepted_def evaluate_notes)
  then have "revoke_destination True 10 1 2000 sample_published =
      Inr (fst (projr (revoke_destination True 10 1 2000 sample_published)),
           snd (projr (revoke_destination True 10 1 2000 sample_published)))"
    by (cases "revoke_destination True 10 1 2000 sample_published") (simp_all add: prod_eq_iff)
  from revoked_destination_is_silent [OF sample_wf(2) this rtranclp.rtrancl_refl [where r = "note_step sample_note_env"]]
  show ?thesis by blast
qed

text \<open>
  C2. What an inbox shows is current: its destination is accepted, not revoked and not over, the notification is one of
  the session the destination is for, comes after the position asked for, and expires later than the time given and than
  every time an earlier operation has seen. A clock that is set back shows nothing again.
\<close>

theorem inbox_shows_current:
  assumes "note_wf s" "note_steps e s t" "inbox ok d after limit now t = Inr (p, u)" "x \<in> set (ip_entries p)"
  shows "ns_clock s \<le> now \<and> now < nt_expires_at_ms (ie_notification x) \<and> after < rc_sequence (ie_receipt x) \<and>
    nt_event_id (ie_notification x) = rc_event_id (ie_receipt x) \<and>
    (\<exists>w. bm_get (ns_destinations u) d = Some w \<and> dr_revoked w = None \<and> dr_accepted w \<noteq> None \<and>
       now < nd_expires_at_ms (dr_payload w) \<and> nt_session_id (ie_notification x) = nd_source_session_id (dr_payload w))"
proof -
  have t: "note_wf t" "store_le s t" using note_steps_wf [OF assms(2,1)] note_steps_le [OF assms(2,1)] by simp_all
  from inbox_entry [OF assms(3,4)] obtain v r where v: "begin_note ok now True t = Inr v" "destination_active v d now"
    "r \<in> set (ns_events v)" "visible d now r" "after < er_sequence r" "decode_entry r = Inr x" "ns_clock t \<le> now" .
  have "u = v" using assms(3) v(1,2) by (auto simp: inbox_def and_then_Inr Let_def split: if_splits)
  note row = decode_entry_row [OF v(6)]
  have "note_wf v" using begin_le [OF v(1) t(1)] by simp
  then have "event_ok (ns_destinations v) r" using v(3) by (simp add: note_wf_def events_ok_def)
  then obtain w where w: "bm_get (ns_destinations v) d = Some w" "nt_event_id (ie_notification x) = er_event_id r"
    "nt_expires_at_ms (ie_notification x) = er_expires r" "nt_session_id (ie_notification x) = nd_source_session_id (dr_payload w)"
    using row v(4) by (auto simp: event_ok_def visible_def)
  moreover have "dr_revoked w = None" "dr_accepted w \<noteq> None" "now < nd_expires_at_ms (dr_payload w)"
    using v(2) w(1) by (simp_all add: destination_active_def load_destination_def decode_destination_def record_active_def)
  moreover have "ns_clock s \<le> now" using t(2) v(7) by (simp add: store_le_def)
  ultimately show ?thesis using v(4,5) row \<open>u = v\<close> by (auto simp: visible_def receipt_of_def)
qed

theorem inbox_shows_current_witness:
  "\<exists>p u x. inbox True 1 0 10 2000 sample_published = Inr (p, u) \<and> x \<in> set (ip_entries p) \<and>
     2000 < nt_expires_at_ms (ie_notification x)"
proof -
  obtain p u where p: "inbox True 1 0 10 2000 sample_published = Inr (p, u)"
    "ip_entries p = [\<lparr>ie_receipt = receipt_of sample_row, ie_notification = sample_note\<rparr>]"
    by (simp add: inbox_def sample_published_def sample_accepted_def destination_active_def visible_def decode_entry_def max_inbox_page_def
        evaluate_notes)
  then show ?thesis
    using inbox_shows_current [OF sample_wf(2) rtranclp.rtrancl_refl [where r = "note_step sample_note_env"] p(1)] by auto
qed

end
