(* ===== verification/Spec2Isabelle.thy ===== *)
theory Spec2Isabelle
  imports Child_Config Shell Agent_Store Redaction_Safety Journal_Safety Pairing_Safety Notification_Safety
begin

text \<open>
  A model of the core of Voyage, the runtime that executes one session of an AI agent under the
  supervision of Vessel, written in Rust, of the way a client is let into a Vessel, of its notifications, and of
  the redaction of what is published. It covers the parts that decide what an agent may do and that keep its
  durable work: access modes and policy profiles, the runtime policy with its shell analysis and
  run-scoped roots, the todo store, the tree of agents and its archive, the completion ledger, the
  working context of a conversation, the requests to a provider with their recovery, the session, the
  journal that owns sessions and their runs, the pairing of clients with a Vessel, and the store of notifications.

  \<^bold>\<open>Conventions.\<close> A fallible function returns \<open>'e + 'a\<close> with \<open>Inl\<close> for the error (\<open>Prelude.and_then\<close> is
  the \<open>?\<close> operator). Strings are lists of Unicode scalar values with the byte lengths computed
  (\<open>Rust_Str\<close>). Unsigned counters are natural numbers whose bounds are checked where the source
  checks them; the live access word is a 64-bit word. Files, clocks, digests, encodings and other
  crates are arguments: a file is a value that an operation takes and returns, a digest is a function.

  \<^bold>\<open>Theories and sources\<close> (paths below \<open>src/\<close>):

  \<^item> \<open>Prelude\<close>, \<open>Rust_Str\<close>, \<open>Paths\<close>, \<open>Ordered_Map\<close>, \<open>Cycles\<close>: results, strings, \<open>std::path\<close>, \<open>BTreeMap\<close>
    and reachability in a finite graph, with the interfaces \<open>root_algebra\<close> (lists of roots under
    normalisation and intersection) \<open>map_store\<close> (lookup after a change)
    and \<open>simulation\<close> (a detailed system whose steps are steps of an abstract one).
  \<^item> \<open>Access\<close>: \<open>voyage/src/config.rs\<close> (modes), \<open>policy/live.rs\<close>, \<open>runtime_policy.rs\<close>. The interface
    \<open>access_meet\<close> is interpreted on the three implementations of restricting a mode.
  \<^item> \<open>Policy_Profile\<close>, \<open>Policy_Resolution\<close>: \<open>voyage/src/policy_profile.rs\<close>. Validation of documents, layers,
    preparation, the ceiling, resolution and transitions.
  \<^item> \<open>Command_Policy\<close>, \<open>Shell\<close>, \<open>Policy\<close>, \<open>Child_Config\<close>: \<open>voyage/src/policy.rs\<close>, \<open>policy/shell.rs\<close>,
    \<open>policy/live.rs\<close>, \<open>policy/roots.rs\<close>. Decisions, the walk over a parsed command (interface
    \<open>nested_analysis\<close>: what one nesting level needs from the next), path resolution, dispatch
    snapshots, grants of roots, and the configuration of a child run.
  \<^item> \<open>Todo\<close>, \<open>Todo_Store\<close>, \<open>Todo_Invariant\<close>: \<open>voyage/src/todo.rs\<close>. The dependency search with its termination,
    every operation, the transaction around them, and the invariant of reachable stores.
  \<^item> \<open>Agents\<close>, \<open>Agent_Store\<close>: \<open>voyage/src/subagent/mod.rs\<close>, \<open>persistence.rs\<close>, \<open>archive.rs\<close>. Delegated
    policies, the tree, pruning, the archive with its pages, adoption.
  \<^item> \<open>Revisions\<close>, \<open>Completion\<close>: \<open>voyage/src/completion.rs\<close>. The ledger of a run; the interface
    \<open>optimistic\<close> states what a writer with an expected revision may rely on.
  \<^item> \<open>Messages\<close>, \<open>Working_Context\<close>, \<open>Projection\<close>: \<open>voyage/src/model.rs\<close>, \<open>voyage/src/context/working.rs\<close> and the
    tool results and content parts of \<open>crates/voyage-protocol\<close>. The reductions of the request sent to a
    provider, their validity, and what the projected conversation keeps.
  \<^item> \<open>Provider_Attempts\<close>: \<open>voyage/src/agent/provider_attempts.rs\<close>, \<open>agent/retry.rs\<close>, the errors of
    \<open>voyage/src/provider/mod.rs\<close>. The loop of attempts over its stream of events, with a log of the saved
    observations and the requests. The stream of a response is a finite list of events: one that never ends
    is not expressed.
  \<^item> \<open>Kmp\<close>, \<open>Masking\<close>, \<open>Redaction\<close>: \<open>Redactor\<close> of \<open>voyage/src/tools/mod.rs\<close>: the secrets, the failure table and
    the scan that withhold the beginning of a secret, and the masking of a text; \<open>touching\<close> is the interface of
    merging spans, interpreted for the two relations the code uses. \<open>Publication\<close>: the text of an answer
    (\<open>agent/provider_attempts.rs\<close>), \<open>agent/reasoning_preview.rs\<close> and \<open>agent/tool_preview.rs\<close>, on the interface
    \<open>publication\<close> that the redactor interprets. \<open>Redaction_Stream\<close>, \<open>Json_Stream\<close>: \<open>tools/vessel/json_stream.rs\<close>;
    \<open>Json_Document\<close> has the grammar of documents and what is published of one (interface \<open>string_sink\<close>),
    \<open>Json_Safety\<close> that no source makes the stream panic or grow, \<open>Redaction_Safety\<close> the properties.
  \<^item> \<open>Session\<close>: \<open>voyage/src/session.rs\<close>, \<open>session/outcomes.rs\<close>. Names and titles, the model, usage, the summaries of
    runs with their anchoring to messages, recovery, and the upsert of provider attempts.
  \<^item> \<open>Content\<close>: \<open>crates/voyage-protocol/src/content.rs\<close>, \<open>voyage/src/images.rs\<close> (limits), the execution budget, and
    the public projection of text in bounded pieces.
  \<^item> \<open>Journal\<close>, \<open>Journal_Steering\<close>, \<open>Journal_Runs\<close>: \<open>voyage/src/attachment/journal.rs\<close> and \<open>journal/steering.rs\<close>,
    \<open>journal/goals.rs\<close> (gates), \<open>journal/catalogue.rs\<close>, \<open>journal/provider_attempt.rs\<close>. The tables of the database
    as a record of maps with their keys and unique indexes, and every operation on runs as a
    transaction: a failure leaves the tables as they were. \<open>Journal_Invariant\<close> has the well-formed tables,
    \<open>Results\<close> rules for operations that may fail, \<open>Protocol\<close> the abstract protocol of runs, \<open>Journal_Protocol\<close> the effect of every operation, \<open>Journal_Safety\<close> the transition
    system, the interpretation of \<open>simulation\<close> and the properties, \<open>Journal_Sample\<close> a history that is evaluated.

  \<^item> \<open>Pairing\<close>, \<open>Pairing_Store\<close>: \<open>vessel/src/process/pairing.rs\<close>, \<open>pairing/audit.rs\<close>, \<open>access/store.rs\<close>
    (connections), \<open>vessel/src/origin.rs\<close> and the records of \<open>crates/voyage-protocol/src/process/access.rs\<close>.
    Invitations, redemption, revocation and authentication as functions of the disk, where every write may
    fail, before or after the new file is there. \<open>Pairing_Steps\<close> has the relation of the single writes and
    the rules for running an operation, \<open>Pairing_Writes\<close> shows that every operation is a sequence of them,
    \<open>Pairing_Safety\<close> interprets \<open>simulation\<close> and proves the contract over all sequences of operations.
  \<^item> \<open>Notifications\<close>: \<open>vessel/src/process/notifications/store.rs\<close> and the types of
    \<open>crates/voyage-protocol/src/notifications.rs\<close>. The tables with their keys, and every operation as a
    transaction. \<open>Notification_Writes\<close> has the single changes with the invariant of the tables and the order in
    which they only grow, \<open>Notification_Safety\<close> interprets \<open>simulation\<close> by that order and proves the contract.

  \<^bold>\<open>How the parts interact.\<close> A policy profile resolves to effective rules; the runtime policy is made of
  them and restricts its mode by the live access; a command goes through the shell analysis before the
  policy decides; a dispatch is a snapshot of the policy with the granted roots, which are checked
  against the same ceiling as the profile; a child agent receives a restricted configuration and a
  delegated policy; its record lives in the tree of agents; and the completion ledger counts the todos and
  agents a run has adopted, by reading the todo list and the tree. The journal admits a turn, which appends
  to the session and creates a run; the run's provider attempts, checkpoints, steering and outcome go
  through the journal into the session and its summaries. The grants that pairing publishes are what the
  authentication of a connection reads. What a response shows while it arrives goes through the redactor.

  \<^bold>\<open>Bounds and termination.\<close> The dependency search, the ancestor search of a path and the walks over trees
  are total functions with proved measures. \<open>tree_prune\<close> is a \<open>partial_function (option)\<close>; that it
  returns on every loadable tree is part of its property. The shell analysis recurses over nine nesting
  levels, as the source's depth limit of 8 has it, and its node budget is the source's. Replay keeps
  the last 1024 events of a session; sequences and revisions are bounded by the integers of SQLite and of
  the source, and an operation that would pass the bound fails.

  \<^bold>\<open>Not modelled.\<close> Most of Vessel (process registry, database, network), Helm (user interface), the installer, the
  Android client and the SDK; in Voyage the agent loop, provider adapters, tools, server, accounts,
  extensions and host browser, which are mostly calls of external services or of the operating
  system. Of the modelled parts: the parser of shell commands and \<open>shell_words\<close>, the construction of the
  sandbox, serde and SHA-256 (all arguments of the model), reading of configuration and policy
  sources, and the interactive request for root access. Of the journal: upgrades of older schemas, imports,
  transfers, deletions and branches of sessions, the transition of an execution to another incarnation and the
  saving of a working context (none of them is a step of the properties of the journal), the pages for clients, SQL itself (a table is a map
  whose unique keys and foreign keys are checked by the writes), and the sizes and digests of stored
  JSON, which are arguments.
\<close>

end
